(* ===== verification/Prelude.thy ===== *)
theory Prelude
  imports Main "HOL-Library.Word"
begin

text \<open>
  What every component shares: the Go types of the model (bytes, addresses, hashes, \<open>uint64\<close>
  and \<open>uint256\<close> as words), the result type of code that may panic, the slice operations of Go
  with their bounds checks, and the lemmas about them that the component proofs use.

  \<open>Ok x\<close> is a normal return, \<open>Panic\<close> a Go run-time panic (an index out of range, a nil
  dereference, a failed type assertion or an explicit \<open>panic\<close>), and \<open>NoFuel\<close> the model's own
  answer when the fuel of a bounded recursion is used up; \<open>NoFuel\<close> is no behaviour of the code.
  Errors that the code returns are ordinary values inside \<open>Ok\<close>.
\<close>

unbundle bit_operations_syntax

named_theorems model_simps \<open>unfolding rules that evaluate the model on concrete input\<close>

section \<open>Types\<close>

type_synonym byte = "8 word"
type_synonym bytes = "byte list"
type_synonym u64 = "64 word"
type_synonym u256 = "256 word"
type_synonym address = "160 word"
type_synonym hash = "256 word"

section \<open>Results of code that may panic\<close>

datatype 'a res = Ok 'a | Panic | NoFuel

primrec rbind :: "'a res \<Rightarrow> ('a \<Rightarrow> 'b res) \<Rightarrow> 'b res" where
  "rbind (Ok x) f = f x"
| "rbind Panic f = Panic"
| "rbind NoFuel f = NoFuel"

definition guard :: "bool \<Rightarrow> unit res" where
  "guard b = (if b then Ok () else Panic)"

lemma rbind_eq_Ok [simp]: "rbind m f = Ok y \<longleftrightarrow> (\<exists>x. m = Ok x \<and> f x = Ok y)"
  by (cases m) auto

lemma rbind_Ok_right [simp]: "rbind m Ok = m"
  by (cases m) auto

lemma rbind_assoc: "rbind (rbind m f) g = rbind m (\<lambda>x. rbind (f x) g)"
  by (cases m) auto

lemma rbind_neq_NoFuel:
  "m \<noteq> NoFuel \<Longrightarrow> (\<And>x. m = Ok x \<Longrightarrow> f x \<noteq> NoFuel) \<Longrightarrow> rbind m f \<noteq> NoFuel"
  by (cases m) auto

lemma rbind_cong [fundef_cong]:
  "m = m' \<Longrightarrow> (\<And>x. m' = Ok x \<Longrightarrow> f x = f' x) \<Longrightarrow> rbind m f = rbind m' f'"
  by (cases m') auto

lemma guard_Ok [simp]: "guard b = Ok u \<longleftrightarrow> b"
  by (simp add: guard_def)

lemma guard_neq_NoFuel [simp]: "guard b \<noteq> NoFuel"
  by (simp add: guard_def)

lemma guard_True [simp]: "guard True = Ok ()"
  by (simp add: guard_def)

lemma guard_False [simp]: "guard False = Panic"
  by (simp add: guard_def)

section \<open>Slices\<close>

text \<open>
  \<open>xs[i]\<close>, \<open>xs[a:b]\<close>, \<open>copy(xs[off:], ys)\<close> and \<open>append\<close> with Go's bounds checks. Go
  checks the upper bound of a slice expression against the capacity; the model checks it against
  the length, so it panics on a superset of the inputs on which the code does.
\<close>

definition gindex :: "'a list \<Rightarrow> nat \<Rightarrow> 'a res" where
  "gindex xs i = (if i < length xs then Ok (xs ! i) else Panic)"

definition gslice :: "'a list \<Rightarrow> nat \<Rightarrow> nat \<Rightarrow> 'a list res" where
  "gslice xs a b = (if a \<le> b \<and> b \<le> length xs then Ok (take (b - a) (drop a xs)) else Panic)"

definition copy_at :: "'a list \<Rightarrow> nat \<Rightarrow> 'a list \<Rightarrow> 'a list" where
  "copy_at xs off ys =
     take off xs @ take (length xs - off) ys @ drop (off + length ys) xs"

lemma gindex_Ok [simp]: "gindex xs i = Ok x \<longleftrightarrow> i < length xs \<and> x = xs ! i"
  by (auto simp: gindex_def)

lemma gindex_neq_NoFuel [simp]: "gindex xs i \<noteq> NoFuel"
  by (simp add: gindex_def)

lemma gslice_Ok [simp]:
  "gslice xs a b = Ok ys \<longleftrightarrow> a \<le> b \<and> b \<le> length xs \<and> ys = take (b - a) (drop a xs)"
  by (auto simp: gslice_def)

lemma gslice_neq_NoFuel [simp]: "gslice xs a b \<noteq> NoFuel"
  by (simp add: gslice_def)

lemma gslice_drop: "a \<le> length xs \<Longrightarrow> gslice xs a (length xs) = Ok (drop a xs)"
  by (simp add: gslice_def)

lemma slice_split:
  assumes "a \<le> b" "b \<le> length xs"
  shows "xs = take a xs @ take (b - a) (drop a xs) @ drop b xs"
proof -
  have "drop a xs = take (b - a) (drop a xs) @ drop (b - a) (drop a xs)"
    by (rule append_take_drop_id [symmetric])
  moreover have "drop (b - a) (drop a xs) = drop b xs"
    using assms by simp
  ultimately show ?thesis
    by (metis append_take_drop_id)
qed

lemma length_copy_at [simp]: "off \<le> length xs \<Longrightarrow> length (copy_at xs off ys) = length xs"
  by (auto simp: copy_at_def min_def)

lemma copy_at_nth_out:
  "off + length ys \<le> length xs \<Longrightarrow> i < length xs \<Longrightarrow> i < off \<or> off + length ys \<le> i
   \<Longrightarrow> copy_at xs off ys ! i = xs ! i"
  by (auto simp: copy_at_def nth_append min_def)

lemma copy_at_nth_in:
  "off + length ys \<le> length xs \<Longrightarrow> i < length ys \<Longrightarrow> copy_at xs off ys ! (off + i) = ys ! i"
  by (auto simp: copy_at_def nth_append min_def)

lemma slice_copy_at:
  assumes "off + length ys \<le> length xs"
  shows "take (length ys) (drop off (copy_at xs off ys)) = ys"
  using assms by (intro nth_equalityI) (auto simp: copy_at_nth_in)

definition RightPadBytes :: "bytes \<Rightarrow> nat \<Rightarrow> bytes" where
  "RightPadBytes xs l = (if l \<le> length xs then xs else xs @ replicate (l - length xs) 0)"

definition LeftPadBytes :: "bytes \<Rightarrow> nat \<Rightarrow> bytes" where
  "LeftPadBytes xs l = (if l \<le> length xs then xs else replicate (l - length xs) 0 @ xs)"

lemma length_RightPadBytes: "length (RightPadBytes xs l) = max l (length xs)"
  by (auto simp: RightPadBytes_def max_def)

section \<open>Words and big-endian byte strings\<close>

definition be_word :: "bytes \<Rightarrow> 'a::len word" where
  "be_word bs = fold (\<lambda>b w. push_bit 8 w + ucast b) bs 0"

primrec be_bytes :: "nat \<Rightarrow> 'a::len word \<Rightarrow> bytes" where
  "be_bytes 0 w = []"
| "be_bytes (Suc n) w = be_bytes n (drop_bit 8 w) @ [ucast w]"

definition addr_bytes :: "address \<Rightarrow> bytes" where
  "addr_bytes a = be_bytes 20 a"

definition hash_bytes :: "hash \<Rightarrow> bytes" where
  "hash_bytes h = be_bytes 32 h"

lemma length_be_bytes [simp]: "length (be_bytes n w) = n"
  by (induction n arbitrary: w) auto

lemma be_word_Nil [simp]: "be_word [] = 0"
  by (simp add: be_word_def)

lemma be_word_snoc: "be_word (bs @ [b]) = push_bit 8 (be_word bs) + ucast b"
  by (simp add: be_word_def)

lemma ucast_ucast_byte: "ucast (ucast w :: byte) = (take_bit 8 w :: 'a::len word)"
  by (rule bit_word_eqI) (auto simp: bit_simps)

lemma be_word_be_bytes_take: "be_word (be_bytes n w) = (take_bit (8 * n) w :: 'a::len word)"
proof (induction n arbitrary: w)
  case 0
  then show ?case by simp
next
  case (Suc n)
  have "push_bit 8 (take_bit (8 * n) (drop_bit 8 w)) + take_bit 8 w
      = push_bit 8 (take_bit (8 * n) (drop_bit 8 w)) OR take_bit 8 w"
    by (rule disjunctive_add) (auto simp: bit_simps)
  also have "\<dots> = take_bit (8 * Suc n) w"
    by (rule bit_word_eqI) (auto simp: bit_simps)
  finally show ?case
    by (simp add: be_word_snoc Suc ucast_ucast_byte)
qed

lemma be_word_be_bytes: "LENGTH('a) \<le> 8 * n \<Longrightarrow> be_word (be_bytes n w) = (w :: 'a::len word)"
  by (simp add: be_word_be_bytes_take take_bit_word_eq_self)

lemma u64_bound: "unat (i :: u64) < 2 ^ 64"
  using unsigned_less [of i] by simp

lemma unat_of_nat_small: "n < 2 ^ LENGTH('a) \<Longrightarrow> unat (of_nat n :: 'a::len word) = n"
  by (simp add: unat_of_nat take_bit_nat_eq_self)

lemma unat_eqI: "unat x = unat y \<Longrightarrow> x = y"
  by (rule word_unat_eq_iff [THEN iffD2])

lemma of_nat_eq_word:
  assumes "n < 2 ^ LENGTH('a)" "m < 2 ^ LENGTH('a)"
  shows "(of_nat n :: 'a::len word) = of_nat m \<longleftrightarrow> n = m"
proof
  assume "(of_nat n :: 'a word) = of_nat m"
  then have "unat (of_nat n :: 'a word) = unat (of_nat m :: 'a word)" by simp
  with assms show "n = m" by (simp only: unat_of_nat_small)
qed simp

text \<open>\<open>uint256.Int.Bytes\<close> and \<open>big.Int.Bytes\<close>: big-endian without leading zeroes.\<close>

fun bytes_of_nat :: "nat \<Rightarrow> bytes" where
  "bytes_of_nat n = (if n = 0 then [] else bytes_of_nat (n div 256) @ [of_nat n])"

declare bytes_of_nat.simps [simp del, model_simps]

lemma bytes_of_nat_0 [simp]: "bytes_of_nat 0 = []"
  by (simp add: bytes_of_nat.simps)

end
