(* ===== verification/Params.thy ===== *)
theory Params
  imports Prelude
begin

text \<open>
  Protocol parameters (params/protocol_params.go) and the fork schedule of a chain
  (params/config.go): the gas constants, the chain configuration, the rules it gives at a block,
  the check of the fork order and the compatibility check of two configurations.
\<close>

section \<open>Gas constants\<close>

definition ExpByteFrontier :: u64 where [simp, code_unfold]: "ExpByteFrontier = 10"
definition ExpByteEIP158 :: u64 where [simp, code_unfold]: "ExpByteEIP158 = 50"
definition SloadGasFrontier :: u64 where [simp, code_unfold]: "SloadGasFrontier = 50"
definition SloadGasEIP150 :: u64 where [simp, code_unfold]: "SloadGasEIP150 = 200"
definition SloadGasEIP1884 :: u64 where [simp, code_unfold]: "SloadGasEIP1884 = 800"
definition SloadGasEIP2200 :: u64 where [simp, code_unfold]: "SloadGasEIP2200 = 800"
definition CallValueTransferGas :: u64 where [simp, code_unfold]: "CallValueTransferGas = 9000"
definition CallNewAccountGas :: u64 where [simp, code_unfold]: "CallNewAccountGas = 25000"
definition TxGas :: u64 where [simp, code_unfold]: "TxGas = 21000"
definition TxGasContractCreation :: u64 where [simp, code_unfold]: "TxGasContractCreation = 53000"
definition TxDataZeroGas :: u64 where [simp, code_unfold]: "TxDataZeroGas = 4"
definition QuadCoeffDiv :: u64 where [simp, code_unfold]: "QuadCoeffDiv = 512"
definition LogDataGas :: u64 where [simp, code_unfold]: "LogDataGas = 8"
definition CallStipend :: u64 where [simp, code_unfold]: "CallStipend = 2300"
definition Keccak256Gas :: u64 where [simp, code_unfold]: "Keccak256Gas = 30"
definition Keccak256WordGas :: u64 where [simp, code_unfold]: "Keccak256WordGas = 6"
definition SstoreSetGas :: u64 where [simp, code_unfold]: "SstoreSetGas = 20000"
definition SstoreResetGas :: u64 where [simp, code_unfold]: "SstoreResetGas = 5000"
definition SstoreClearGas :: u64 where [simp, code_unfold]: "SstoreClearGas = 5000"
definition SstoreRefundGas :: u64 where [simp, code_unfold]: "SstoreRefundGas = 15000"
definition NetSstoreNoopGas :: u64 where [simp, code_unfold]: "NetSstoreNoopGas = 200"
definition NetSstoreInitGas :: u64 where [simp, code_unfold]: "NetSstoreInitGas = 20000"
definition NetSstoreCleanGas :: u64 where [simp, code_unfold]: "NetSstoreCleanGas = 5000"
definition NetSstoreDirtyGas :: u64 where [simp, code_unfold]: "NetSstoreDirtyGas = 200"
definition NetSstoreClearRefund :: u64 where [simp, code_unfold]: "NetSstoreClearRefund = 15000"
definition NetSstoreResetRefund :: u64 where [simp, code_unfold]: "NetSstoreResetRefund = 4800"
definition NetSstoreResetClearRefund :: u64 where [simp, code_unfold]: "NetSstoreResetClearRefund = 19800"
definition SstoreSentryGasEIP2200 :: u64 where [simp, code_unfold]: "SstoreSentryGasEIP2200 = 2300"
definition SstoreSetGasEIP2200 :: u64 where [simp, code_unfold]: "SstoreSetGasEIP2200 = 20000"
definition SstoreResetGasEIP2200 :: u64 where [simp, code_unfold]: "SstoreResetGasEIP2200 = 5000"
definition SstoreClearsScheduleRefundEIP2200 :: u64 where [simp, code_unfold]: "SstoreClearsScheduleRefundEIP2200 = 15000"
definition ColdAccountAccessCostEIP2929 :: u64 where [simp, code_unfold]: "ColdAccountAccessCostEIP2929 = 2600"
definition ColdSloadCostEIP2929 :: u64 where [simp, code_unfold]: "ColdSloadCostEIP2929 = 2100"
definition WarmStorageReadCostEIP2929 :: u64 where [simp, code_unfold]: "WarmStorageReadCostEIP2929 = 100"
definition JumpdestGas :: u64 where [simp, code_unfold]: "JumpdestGas = 1"
definition CreateDataGas :: u64 where [simp, code_unfold]: "CreateDataGas = 200"
definition CallCreateDepth :: nat where [simp, code_unfold]: "CallCreateDepth = 1024"
definition ExpGas :: u64 where [simp, code_unfold]: "ExpGas = 10"
definition LogGas :: u64 where [simp, code_unfold]: "LogGas = 375"
definition CopyGas :: u64 where [simp, code_unfold]: "CopyGas = 3"
definition StackLimit :: nat where [simp, code_unfold]: "StackLimit = 1024"
definition LogTopicGas :: u64 where [simp, code_unfold]: "LogTopicGas = 375"
definition CreateGas :: u64 where [simp, code_unfold]: "CreateGas = 32000"
definition Create2Gas :: u64 where [simp, code_unfold]: "Create2Gas = 32000"
definition SelfdestructRefundGas :: u64 where [simp, code_unfold]: "SelfdestructRefundGas = 24000"
definition MemoryGas :: u64 where [simp, code_unfold]: "MemoryGas = 3"
definition TxDataNonZeroGasFrontier :: u64 where [simp, code_unfold]: "TxDataNonZeroGasFrontier = 68"
definition TxDataNonZeroGasEIP2028 :: u64 where [simp, code_unfold]: "TxDataNonZeroGasEIP2028 = 16"
definition TxAccessListAddressGas :: u64 where [simp, code_unfold]: "TxAccessListAddressGas = 2400"
definition TxAccessListStorageKeyGas :: u64 where [simp, code_unfold]: "TxAccessListStorageKeyGas = 1900"
definition CallGasFrontier :: u64 where [simp, code_unfold]: "CallGasFrontier = 40"
definition CallGasEIP150 :: u64 where [simp, code_unfold]: "CallGasEIP150 = 700"
definition BalanceGasFrontier :: u64 where [simp, code_unfold]: "BalanceGasFrontier = 20"
definition BalanceGasEIP150 :: u64 where [simp, code_unfold]: "BalanceGasEIP150 = 400"
definition BalanceGasEIP1884 :: u64 where [simp, code_unfold]: "BalanceGasEIP1884 = 700"
definition ExtcodeSizeGasFrontier :: u64 where [simp, code_unfold]: "ExtcodeSizeGasFrontier = 20"
definition ExtcodeSizeGasEIP150 :: u64 where [simp, code_unfold]: "ExtcodeSizeGasEIP150 = 700"
definition ExtcodeHashGasConstantinople :: u64 where [simp, code_unfold]: "ExtcodeHashGasConstantinople = 400"
definition ExtcodeHashGasEIP1884 :: u64 where [simp, code_unfold]: "ExtcodeHashGasEIP1884 = 700"
definition SelfdestructGasEIP150 :: u64 where [simp, code_unfold]: "SelfdestructGasEIP150 = 5000"
definition ExtcodeCopyBaseFrontier :: u64 where [simp, code_unfold]: "ExtcodeCopyBaseFrontier = 20"
definition ExtcodeCopyBaseEIP150 :: u64 where [simp, code_unfold]: "ExtcodeCopyBaseEIP150 = 700"
definition CreateBySelfdestructGas :: u64 where [simp, code_unfold]: "CreateBySelfdestructGas = 25000"
definition MaxCodeSize :: nat where [simp, code_unfold]: "MaxCodeSize = 24576"
definition EcrecoverGas :: u64 where [simp, code_unfold]: "EcrecoverGas = 3000"
definition Sha256BaseGas :: u64 where [simp, code_unfold]: "Sha256BaseGas = 60"
definition Sha256PerWordGas :: u64 where [simp, code_unfold]: "Sha256PerWordGas = 12"
definition Ripemd160BaseGas :: u64 where [simp, code_unfold]: "Ripemd160BaseGas = 600"
definition Ripemd160PerWordGas :: u64 where [simp, code_unfold]: "Ripemd160PerWordGas = 120"
definition IdentityBaseGas :: u64 where [simp, code_unfold]: "IdentityBaseGas = 15"
definition IdentityPerWordGas :: u64 where [simp, code_unfold]: "IdentityPerWordGas = 3"
definition Bn256AddGasByzantium :: u64 where [simp, code_unfold]: "Bn256AddGasByzantium = 500"
definition Bn256AddGasIstanbul :: u64 where [simp, code_unfold]: "Bn256AddGasIstanbul = 150"
definition Bn256ScalarMulGasByzantium :: u64 where [simp, code_unfold]: "Bn256ScalarMulGasByzantium = 40000"
definition Bn256ScalarMulGasIstanbul :: u64 where [simp, code_unfold]: "Bn256ScalarMulGasIstanbul = 6000"
definition Bn256PairingBaseGasByzantium :: u64 where [simp, code_unfold]: "Bn256PairingBaseGasByzantium = 100000"
definition Bn256PairingBaseGasIstanbul :: u64 where [simp, code_unfold]: "Bn256PairingBaseGasIstanbul = 45000"
definition Bn256PairingPerPointGasByzantium :: u64 where [simp, code_unfold]: "Bn256PairingPerPointGasByzantium = 80000"
definition Bn256PairingPerPointGasIstanbul :: u64 where [simp, code_unfold]: "Bn256PairingPerPointGasIstanbul = 34000"
definition RefundQuotient :: u64 where [simp, code_unfold]: "RefundQuotient = 2"
definition RefundQuotientEIP3529 :: u64 where [simp, code_unfold]: "RefundQuotientEIP3529 = 5"
definition SstoreClearsScheduleRefundEIP3529 :: u64 where [simp, code_unfold]:
  "SstoreClearsScheduleRefundEIP3529 =
     SstoreResetGasEIP2200 - ColdSloadCostEIP2929 + TxAccessListStorageKeyGas"

section \<open>Chain configuration\<close>

text \<open>A block number that is \<^verbatim>\<open>nil\<close> (the fork is not scheduled) is \<^term>\<open>None\<close>.\<close>

record ChainConfig =
  ChainID :: "int option"
  HomesteadBlock :: "int option"
  DAOForkBlock :: "int option"
  DAOForkSupport :: bool
  EIP150Block :: "int option"
  EIP150Hash :: "256 word"
  EIP155Block :: "int option"
  EIP158Block :: "int option"
  ByzantiumBlock :: "int option"
  ConstantinopleBlock :: "int option"
  PetersburgBlock :: "int option"
  IstanbulBlock :: "int option"
  MuirGlacierBlock :: "int option"
  BerlinBlock :: "int option"
  LondonBlock :: "int option"
  ArrowGlacierBlock :: "int option"
  GrayGlacierBlock :: "int option"
  MergeNetsplitBlock :: "int option"
  ShanghaiBlock :: "int option"
  CancunBlock :: "int option"
  TerminalTotalDifficulty :: "int option"
  TerminalTotalDifficultyPassed :: bool

definition isForked :: "int option \<Rightarrow> int option \<Rightarrow> bool" where
  "isForked s head = (case (s, head) of (Some a, Some b) \<Rightarrow> a \<le> b | _ \<Rightarrow> False)"

definition configNumEqual :: "int option \<Rightarrow> int option \<Rightarrow> bool" where
  "configNumEqual x y = (case x of
       None \<Rightarrow> y = None
     | Some a \<Rightarrow> (case y of None \<Rightarrow> x = None | Some b \<Rightarrow> a = b))"

definition IsHomestead :: "ChainConfig \<Rightarrow> int \<Rightarrow> bool" where
  "IsHomestead c num = isForked (HomesteadBlock c) (Some num)"

definition IsDAOFork :: "ChainConfig \<Rightarrow> int \<Rightarrow> bool" where
  "IsDAOFork c num = isForked (DAOForkBlock c) (Some num)"

definition IsEIP150 :: "ChainConfig \<Rightarrow> int \<Rightarrow> bool" where
  "IsEIP150 c num = isForked (EIP150Block c) (Some num)"

definition IsEIP155 :: "ChainConfig \<Rightarrow> int \<Rightarrow> bool" where
  "IsEIP155 c num = isForked (EIP155Block c) (Some num)"

definition IsEIP158 :: "ChainConfig \<Rightarrow> int \<Rightarrow> bool" where
  "IsEIP158 c num = isForked (EIP158Block c) (Some num)"

definition IsByzantium :: "ChainConfig \<Rightarrow> int \<Rightarrow> bool" where
  "IsByzantium c num = isForked (ByzantiumBlock c) (Some num)"

definition IsConstantinople :: "ChainConfig \<Rightarrow> int \<Rightarrow> bool" where
  "IsConstantinople c num = isForked (ConstantinopleBlock c) (Some num)"

definition IsPetersburg :: "ChainConfig \<Rightarrow> int \<Rightarrow> bool" where
  "IsPetersburg c num =
     (isForked (PetersburgBlock c) (Some num) \<or>
      PetersburgBlock c = None \<and> isForked (ConstantinopleBlock c) (Some num))"

definition IsIstanbul :: "ChainConfig \<Rightarrow> int \<Rightarrow> bool" where
  "IsIstanbul c num = isForked (IstanbulBlock c) (Some num)"

definition IsMuirGlacier :: "ChainConfig \<Rightarrow> int \<Rightarrow> bool" where
  "IsMuirGlacier c num = isForked (MuirGlacierBlock c) (Some num)"

definition IsBerlin :: "ChainConfig \<Rightarrow> int \<Rightarrow> bool" where
  "IsBerlin c num = isForked (BerlinBlock c) (Some num)"

definition IsLondon :: "ChainConfig \<Rightarrow> int \<Rightarrow> bool" where
  "IsLondon c num = isForked (LondonBlock c) (Some num)"

definition IsArrowGlacier :: "ChainConfig \<Rightarrow> int \<Rightarrow> bool" where
  "IsArrowGlacier c num = isForked (ArrowGlacierBlock c) (Some num)"

definition IsGrayGlacier :: "ChainConfig \<Rightarrow> int \<Rightarrow> bool" where
  "IsGrayGlacier c num = isForked (GrayGlacierBlock c) (Some num)"

definition IsShanghai :: "ChainConfig \<Rightarrow> int \<Rightarrow> bool" where
  "IsShanghai c num = isForked (ShanghaiBlock c) (Some num)"

definition IsCancun :: "ChainConfig \<Rightarrow> int \<Rightarrow> bool" where
  "IsCancun c num = isForked (CancunBlock c) (Some num)"

definition IsTerminalPoWBlock :: "ChainConfig \<Rightarrow> int \<Rightarrow> int \<Rightarrow> bool" where
  "IsTerminalPoWBlock c parentTotalDiff totalDiff =
     (case TerminalTotalDifficulty c of None \<Rightarrow> False | Some t \<Rightarrow> parentTotalDiff < t \<and> totalDiff \<ge> t)"

record Rules =
  rChainID :: int
  rIsHomestead :: bool
  rIsEIP150 :: bool
  rIsEIP155 :: bool
  rIsEIP158 :: bool
  rIsByzantium :: bool
  rIsConstantinople :: bool
  rIsPetersburg :: bool
  rIsIstanbul :: bool
  rIsBerlin :: bool
  rIsLondon :: bool
  rIsMerge :: bool
  rIsShanghai :: bool
  rIsCancun :: bool

definition ChainRules :: "ChainConfig \<Rightarrow> int \<Rightarrow> bool \<Rightarrow> Rules" where
  "ChainRules c num isMerge =
     (let chainID = (case ChainID c of None \<Rightarrow> 0 | Some i \<Rightarrow> i)
      in \<lparr> rChainID = chainID,
           rIsHomestead = IsHomestead c num,
           rIsEIP150 = IsEIP150 c num,
           rIsEIP155 = IsEIP155 c num,
           rIsEIP158 = IsEIP158 c num,
           rIsByzantium = IsByzantium c num,
           rIsConstantinople = IsConstantinople c num,
           rIsPetersburg = IsPetersburg c num,
           rIsIstanbul = IsIstanbul c num,
           rIsBerlin = IsBerlin c num,
           rIsLondon = IsLondon c num,
           rIsMerge = isMerge,
           rIsShanghai = IsShanghai c num,
           rIsCancun = IsCancun c num \<rparr>)"

section \<open>Order of the forks\<close>

record fork =
  fname :: string
  fblock :: "int option"
  foptional :: bool

definition config_forks :: "ChainConfig \<Rightarrow> fork list" where
  "config_forks c =
    [\<lparr>fname = ''homesteadBlock'', fblock = HomesteadBlock c, foptional = False\<rparr>,
     \<lparr>fname = ''daoForkBlock'', fblock = DAOForkBlock c, foptional = True\<rparr>,
     \<lparr>fname = ''eip150Block'', fblock = EIP150Block c, foptional = False\<rparr>,
     \<lparr>fname = ''eip155Block'', fblock = EIP155Block c, foptional = False\<rparr>,
     \<lparr>fname = ''eip158Block'', fblock = EIP158Block c, foptional = False\<rparr>,
     \<lparr>fname = ''byzantiumBlock'', fblock = ByzantiumBlock c, foptional = False\<rparr>,
     \<lparr>fname = ''constantinopleBlock'', fblock = ConstantinopleBlock c, foptional = False\<rparr>,
     \<lparr>fname = ''petersburgBlock'', fblock = PetersburgBlock c, foptional = False\<rparr>,
     \<lparr>fname = ''istanbulBlock'', fblock = IstanbulBlock c, foptional = False\<rparr>,
     \<lparr>fname = ''muirGlacierBlock'', fblock = MuirGlacierBlock c, foptional = True\<rparr>,
     \<lparr>fname = ''berlinBlock'', fblock = BerlinBlock c, foptional = False\<rparr>,
     \<lparr>fname = ''londonBlock'', fblock = LondonBlock c, foptional = False\<rparr>,
     \<lparr>fname = ''arrowGlacierBlock'', fblock = ArrowGlacierBlock c, foptional = True\<rparr>,
     \<lparr>fname = ''grayGlacierBlock'', fblock = GrayGlacierBlock c, foptional = True\<rparr>,
     \<lparr>fname = ''mergeNetsplitBlock'', fblock = MergeNetsplitBlock c, foptional = True\<rparr>,
     \<lparr>fname = ''shanghaiBlock'', fblock = ShanghaiBlock c, foptional = True\<rparr>,
     \<lparr>fname = ''cancunBlock'', fblock = CancunBlock c, foptional = True\<rparr>]"

datatype fork_order_error =
    NotEnabled fork fork
  | EnabledLater fork fork

text \<open>The loop of \<^verbatim>\<open>CheckConfigForkOrder\<close>; the zero value of \<^verbatim>\<open>lastFork\<close> (empty name) is \<^term>\<open>None\<close>.\<close>

fun fork_order_loop :: "fork option \<Rightarrow> fork list \<Rightarrow> fork_order_error option" where
  "fork_order_loop lastFork [] = None"
| "fork_order_loop lastFork (cur # rest) =
     (let next = (if \<not> foptional cur \<or> fblock cur \<noteq> None then Some cur else lastFork)
      in case lastFork of
           None \<Rightarrow> fork_order_loop next rest
         | Some lf \<Rightarrow>
             (case (fblock lf, fblock cur) of
                (None, Some _) \<Rightarrow> Some (NotEnabled lf cur)
              | (Some a, Some b) \<Rightarrow>
                  (if a > b then Some (EnabledLater lf cur) else fork_order_loop next rest)
              | _ \<Rightarrow> fork_order_loop next rest))"

definition CheckConfigForkOrder :: "ChainConfig \<Rightarrow> fork_order_error option" where
  "CheckConfigForkOrder c = fork_order_loop None (config_forks c)"

section \<open>Compatibility of two configurations\<close>

record ConfigCompatError =
  What :: string
  StoredConfig :: "int option"
  NewConfig :: "int option"
  RewindTo :: u64

definition isForkIncompatible :: "int option \<Rightarrow> int option \<Rightarrow> int \<Rightarrow> bool" where
  "isForkIncompatible s1 s2 head =
     ((isForked s1 (Some head) \<or> isForked s2 (Some head)) \<and> \<not> configNumEqual s1 s2)"

definition newCompatError :: "string \<Rightarrow> int option \<Rightarrow> int option \<Rightarrow> ConfigCompatError" where
  "newCompatError what storedblock newblock =
     (let rew = (case storedblock of
                   None \<Rightarrow> newblock
                 | Some s \<Rightarrow> (case newblock of
                               None \<Rightarrow> storedblock
                             | Some n \<Rightarrow> (if s < n then storedblock else newblock)))
      in \<lparr> What = what, StoredConfig = storedblock, NewConfig = newblock,
           RewindTo = (case rew of
                         None \<Rightarrow> 0
                       | Some r \<Rightarrow> (if r > 0 then word_of_int r - 1 else 0)) \<rparr>)"

definition checkCompatible :: "ChainConfig \<Rightarrow> ChainConfig \<Rightarrow> int \<Rightarrow> ConfigCompatError option" where
  "checkCompatible c n head =
    (if isForkIncompatible (HomesteadBlock c) (HomesteadBlock n) head then
       Some (newCompatError ''Homestead fork block'' (HomesteadBlock c) (HomesteadBlock n))
     else if isForkIncompatible (DAOForkBlock c) (DAOForkBlock n) head then
       Some (newCompatError ''DAO fork block'' (DAOForkBlock c) (DAOForkBlock n))
     else if IsDAOFork c head \<and> DAOForkSupport c \<noteq> DAOForkSupport n then
       Some (newCompatError ''DAO fork support flag'' (DAOForkBlock c) (DAOForkBlock n))
     else if isForkIncompatible (EIP150Block c) (EIP150Block n) head then
       Some (newCompatError ''EIP150 fork block'' (EIP150Block c) (EIP150Block n))
     else if isForkIncompatible (EIP155Block c) (EIP155Block n) head then
       Some (newCompatError ''EIP155 fork block'' (EIP155Block c) (EIP155Block n))
     else if isForkIncompatible (EIP158Block c) (EIP158Block n) head then
       Some (newCompatError ''EIP158 fork block'' (EIP158Block c) (EIP158Block n))
     else if IsEIP158 c head \<and> \<not> configNumEqual (ChainID c) (ChainID n) then
       Some (newCompatError ''EIP158 chain ID'' (EIP158Block c) (EIP158Block n))
     else if isForkIncompatible (ByzantiumBlock c) (ByzantiumBlock n) head then
       Some (newCompatError ''Byzantium fork block'' (ByzantiumBlock c) (ByzantiumBlock n))
     else if isForkIncompatible (ConstantinopleBlock c) (ConstantinopleBlock n) head then
       Some (newCompatError ''Constantinople fork block'' (ConstantinopleBlock c) (ConstantinopleBlock n))
     else if isForkIncompatible (PetersburgBlock c) (PetersburgBlock n) head \<and>
             isForkIncompatible (ConstantinopleBlock c) (PetersburgBlock n) head then
       Some (newCompatError ''Petersburg fork block'' (PetersburgBlock c) (PetersburgBlock n))
     else if isForkIncompatible (IstanbulBlock c) (IstanbulBlock n) head then
       Some (newCompatError ''Istanbul fork block'' (IstanbulBlock c) (IstanbulBlock n))
     else if isForkIncompatible (MuirGlacierBlock c) (MuirGlacierBlock n) head then
       Some (newCompatError ''Muir Glacier fork block'' (MuirGlacierBlock c) (MuirGlacierBlock n))
     else if isForkIncompatible (BerlinBlock c) (BerlinBlock n) head then
       Some (newCompatError ''Berlin fork block'' (BerlinBlock c) (BerlinBlock n))
     else if isForkIncompatible (LondonBlock c) (LondonBlock n) head then
       Some (newCompatError ''London fork block'' (LondonBlock c) (LondonBlock n))
     else if isForkIncompatible (ArrowGlacierBlock c) (ArrowGlacierBlock n) head then
       Some (newCompatError ''Arrow Glacier fork block'' (ArrowGlacierBlock c) (ArrowGlacierBlock n))
     else if isForkIncompatible (GrayGlacierBlock c) (GrayGlacierBlock n) head then
       Some (newCompatError ''Gray Glacier fork block'' (GrayGlacierBlock c) (GrayGlacierBlock n))
     else if isForkIncompatible (MergeNetsplitBlock c) (MergeNetsplitBlock n) head then
       Some (newCompatError ''Merge netsplit fork block'' (MergeNetsplitBlock c) (MergeNetsplitBlock n))
     else if isForkIncompatible (ShanghaiBlock c) (ShanghaiBlock n) head then
       Some (newCompatError ''Shanghai fork block'' (ShanghaiBlock c) (ShanghaiBlock n))
     else if isForkIncompatible (CancunBlock c) (CancunBlock n) head then
       Some (newCompatError ''Cancun fork block'' (CancunBlock c) (CancunBlock n))
     else None)"

text \<open>
  A conflict found at \<^term>\<open>head\<close> rewinds to a block strictly below it: the fork blocks in
  conflict are not above \<^term>\<open>head\<close>, and the loop of \<^verbatim>\<open>CheckCompatible\<close> comes to its end.
\<close>

lemma word_of_int_pred_less:
  assumes "0 < r" "r \<le> uint (h :: u64)"
  shows "word_of_int r - 1 < h"
proof -
  have r: "uint (word_of_int r :: u64) = r"
    using assms uint_lt2p [of h] by (simp add: unsigned_of_int take_bit_int_eq_self_iff)
  then have "(1 :: u64) \<le> word_of_int r"
    using assms by (simp add: word_le_def)
  then have "uint (word_of_int r - 1 :: u64) = r - 1"
    using r by (simp add: uint_minus_simple_alt word_le_def)
  then show ?thesis
    using assms by (simp add: word_less_def)
qed

lemma newCompatError_RewindTo:
  assumes "isForked s1 (Some (uint (h :: u64))) \<or> isForked s2 (Some (uint h))"
  shows "RewindTo (newCompatError w s1 s2) < h \<or> RewindTo (newCompatError w s1 s2) = 0"
proof -
  obtain rew where rew: "RewindTo (newCompatError w s1 s2) =
      (case rew of None \<Rightarrow> 0 | Some r \<Rightarrow> (if r > 0 then word_of_int r - 1 else 0))"
    and le: "\<And>r. rew = Some r \<Longrightarrow> r \<le> uint h"
    using assms by (cases s1; cases s2)
      (force simp: newCompatError_def isForked_def Let_def split: if_splits)+
  show ?thesis
    using le by (cases rew) (auto simp: rew word_of_int_pred_less)
qed

lemma if_Some_elim:
  "(if b then Some x else y) = Some e \<Longrightarrow> (b \<Longrightarrow> e = x \<Longrightarrow> P) \<Longrightarrow> (y = Some e \<Longrightarrow> P) \<Longrightarrow> P"
  by (cases b) auto

lemma checkCompatible_conflict:
  assumes "checkCompatible c n head = Some e"
  shows "\<exists>w s1 s2. e = newCompatError w s1 s2 \<and>
           (isForked s1 (Some head) \<or> isForked s2 (Some head))"
  using assms
  unfolding checkCompatible_def isForkIncompatible_def IsDAOFork_def IsEIP158_def
  by (elim if_Some_elim conjE; (blast | simp))

lemma checkCompatible_RewindTo:
  "checkCompatible c n (uint (h :: u64)) = Some e \<Longrightarrow> RewindTo e < h \<or> RewindTo e = 0"
  using checkCompatible_conflict newCompatError_RewindTo by blast

text \<open>\<^verbatim>\<open>CheckCompatible\<close> iterates to the lowest conflict.\<close>

function CheckCompatible_loop ::
  "ChainConfig \<Rightarrow> ChainConfig \<Rightarrow> ConfigCompatError option \<Rightarrow> u64 \<Rightarrow> ConfigCompatError option" where
  "CheckCompatible_loop c n lasterr bhead =
     (case checkCompatible c n (uint bhead) of
        None \<Rightarrow> lasterr
      | Some err \<Rightarrow>
          (if lasterr \<noteq> None \<and> RewindTo err = RewindTo (the lasterr) then lasterr
           else CheckCompatible_loop c n (Some err) (RewindTo err)))"
  by pat_completeness auto
termination
proof (relation "measure (\<lambda>(c, n, lasterr, bhead). 2 * unat bhead +
    (if lasterr \<noteq> None \<and> RewindTo (the lasterr) = 0 then 0 else 1))", goal_cases)
  case 1
  then show ?case by simp
next
  case (2 c n lasterr bhead err)
  then have "RewindTo err < bhead \<or> RewindTo err = 0"
    by (simp add: checkCompatible_RewindTo)
  then consider "unat (RewindTo err) < unat bhead" | "RewindTo err = 0" "bhead = 0"
    by (cases "bhead = 0") (auto simp: word_less_nat_alt unat_gt_0)
  then show ?case
    using 2 by cases auto
qed

declare CheckCompatible_loop.simps [simp del]

definition CheckCompatible :: "ChainConfig \<Rightarrow> ChainConfig \<Rightarrow> u64 \<Rightarrow> ConfigCompatError option" where
  "CheckCompatible c n height = CheckCompatible_loop c n None height"

section \<open>Properties of the schedule\<close>

lemma fork_order_loop_le:
  "fork_order_loop (Some lf) xs = None \<Longrightarrow> x \<in> set xs \<Longrightarrow> fblock x = Some b \<Longrightarrow>
   \<exists>a. fblock lf = Some a \<and> a \<le> b"
proof (induction xs arbitrary: lf)
  case Nil
  then show ?case by simp
next
  case (Cons cur rest)
  show ?case
  proof (cases "x = cur")
    case True
    with Cons.prems show ?thesis
      by (auto simp: Let_def split: option.splits if_splits)
  next
    case False
    then have x: "x \<in> set rest" using Cons.prems by simp
    show ?thesis
    proof (cases "foptional cur \<and> fblock cur = None")
      case True
      then have "fork_order_loop (Some lf) rest = None"
        using Cons.prems(1) by (auto simp: Let_def split: option.splits)
      then show ?thesis using Cons.IH x Cons.prems(3) by blast
    next
      case False
      then have rest: "fork_order_loop (Some cur) rest = None"
        using Cons.prems(1) by (auto simp: Let_def split: option.splits if_splits)
      then obtain a where "fblock cur = Some a" "a \<le> b"
        using Cons.IH x Cons.prems(3) by blast
      then show ?thesis
        using Cons.prems(1) by (auto simp: Let_def split: option.splits if_splits)
    qed
  qed
qed

lemma fork_order_loop_drop:
  "fork_order_loop lf xs = None \<Longrightarrow> i < length xs \<Longrightarrow> \<not> foptional (xs ! i) \<Longrightarrow>
   fork_order_loop (Some (xs ! i)) (drop (Suc i) xs) = None"
proof (induction xs arbitrary: lf i)
  case Nil
  then show ?case by simp
next
  case (Cons cur rest)
  then have "\<exists>l. fork_order_loop l rest = None \<and> (i = 0 \<longrightarrow> l = Some cur)"
    by (cases lf) (auto simp: Let_def split: option.splits if_splits)
  then show ?case
    using Cons.IH Cons.prems by (cases i) auto
qed

lemma fork_order_nth_le:
  assumes "fork_order_loop None xs = None" "i < j" "j < length xs" "\<not> foptional (xs ! i)"
    and "isForked (fblock (xs ! j)) (Some num)"
  shows "isForked (fblock (xs ! i)) (Some num)"
proof -
  obtain b where b: "fblock (xs ! j) = Some b" "b \<le> num"
    using assms(5) by (auto simp: isForked_def split: option.splits)
  have "fork_order_loop (Some (xs ! i)) (drop (Suc i) xs) = None"
    using assms fork_order_loop_drop by simp
  moreover have "xs ! j \<in> set (drop (Suc i) xs)"
    using assms by (auto simp: in_set_conv_nth intro!: exI [of _ "j - Suc i"])
  ultimately obtain a where "fblock (xs ! i) = Some a" "a \<le> b"
    using fork_order_loop_le b(1) by blast
  then show ?thesis
    using b(2) by (simp add: isForked_def)
qed

text \<open>
  C35: A chain configuration that passes \<^verbatim>\<open>CheckConfigForkOrder\<close> gives nested rules at every
  block: the mandatory forks from Homestead to London are active in their order, and Shanghai and Cancun
  only with London. Nothing is said of the optional forks (Shanghai may be missing below Cancun) and the merge.
\<close>

theorem fork_order_rules_nested:
  assumes "CheckConfigForkOrder c = None" and r: "r = ChainRules c num m"
  shows "(rIsCancun r \<longrightarrow> rIsLondon r) \<and> (rIsShanghai r \<longrightarrow> rIsLondon r) \<and>
    (rIsLondon r \<longrightarrow> rIsBerlin r) \<and> (rIsBerlin r \<longrightarrow> rIsIstanbul r) \<and>
    (rIsIstanbul r \<longrightarrow> rIsPetersburg r) \<and> (rIsPetersburg r \<longrightarrow> rIsConstantinople r) \<and>
    (rIsConstantinople r \<longrightarrow> rIsByzantium r) \<and> (rIsByzantium r \<longrightarrow> rIsEIP158 r) \<and>
    (rIsEIP158 r \<longrightarrow> rIsEIP155 r) \<and> (rIsEIP155 r \<longrightarrow> rIsEIP150 r) \<and>
    (rIsEIP150 r \<longrightarrow> rIsHomestead r)"
proof -
  let ?xs = "config_forks c"
  have loop: "fork_order_loop None ?xs = None"
    using assms(1) by (simp add: CheckConfigForkOrder_def)
  have le: "isForked (fblock (?xs ! j)) (Some num) \<Longrightarrow> isForked (fblock (?xs ! i)) (Some num)"
    if "i < j" "j < length ?xs" "\<not> foptional (?xs ! i)" for i j
    using fork_order_nth_le [OF loop] that by blast
  note pairs = le [of 11 16] le [of 11 15] le [of 10 11] le [of 8 10] le [of 7 8] le [of 6 7]
    le [of 5 6] le [of 4 5] le [of 3 4] le [of 2 3] le [of 0 2]
  show ?thesis
    using pairs
    by (simp add: r ChainRules_def config_forks_def IsCancun_def IsShanghai_def IsLondon_def
        IsBerlin_def IsIstanbul_def IsPetersburg_def IsConstantinople_def IsByzantium_def
        IsEIP158_def IsEIP155_def IsEIP150_def IsHomestead_def)
qed

text \<open>A configuration with every fork up to London active from block 0.\<close>

definition sample_config :: ChainConfig where
  "sample_config = \<lparr>ChainID = Some 1, HomesteadBlock = Some 0, DAOForkBlock = None,
     DAOForkSupport = False, EIP150Block = Some 0, EIP150Hash = 0, EIP155Block = Some 0, EIP158Block = Some 0,
     ByzantiumBlock = Some 0, ConstantinopleBlock = Some 0, PetersburgBlock = Some 0,
     IstanbulBlock = Some 0, MuirGlacierBlock = Some 0, BerlinBlock = Some 0,
     LondonBlock = Some 7, ArrowGlacierBlock = None, GrayGlacierBlock = None,
     MergeNetsplitBlock = None, ShanghaiBlock = None, CancunBlock = None,
     TerminalTotalDifficulty = None, TerminalTotalDifficultyPassed = False\<rparr>"

theorem fork_order_rules_nested_witness:
  "CheckConfigForkOrder sample_config = None \<and>
   rIsBerlin (ChainRules sample_config 9 False)"
proof -
  have ok: "CheckConfigForkOrder sample_config = None"
    by (simp add: CheckConfigForkOrder_def config_forks_def sample_config_def)
  have "rIsLondon (ChainRules sample_config 9 False)"
    by (simp add: ChainRules_def IsLondon_def isForked_def sample_config_def)
  with fork_order_rules_nested [OF ok refl, of 9 False] ok show ?thesis by simp
qed

lemma CheckCompatible_loop_result:
  "CheckCompatible_loop c n l h = Some e \<Longrightarrow>
   (l = Some e \<Longrightarrow> h = RewindTo e) \<Longrightarrow> (l \<noteq> None \<Longrightarrow> h = RewindTo (the l)) \<Longrightarrow>
   RewindTo e = 0 \<or> checkCompatible c n (uint (RewindTo e)) = None"
proof (induction c n l h rule: CheckCompatible_loop.induct)
  case (1 c n lasterr bhead)
  show ?case
  proof (cases "checkCompatible c n (uint bhead)")
    case None
    with "1.prems" show ?thesis
      by (simp add: CheckCompatible_loop.simps [of c n lasterr bhead])
  next
    case (Some err)
    have unfold: "CheckCompatible_loop c n lasterr bhead =
        (if lasterr \<noteq> None \<and> RewindTo err = RewindTo (the lasterr) then lasterr
         else CheckCompatible_loop c n (Some err) (RewindTo err))"
      by (subst CheckCompatible_loop.simps) (simp add: Some)
    show ?thesis
    proof (cases "lasterr \<noteq> None \<and> RewindTo err = RewindTo (the lasterr)")
      case True
      then have "lasterr = Some e"
        using "1.prems"(1) unfolding unfold by simp
      then have "RewindTo err = bhead" "bhead = RewindTo e"
        using True "1.prems" by auto
      then show ?thesis
        using checkCompatible_RewindTo [OF Some] by auto
    next
      case False
      then have "CheckCompatible_loop c n (Some err) (RewindTo err) = Some e"
        using "1.prems"(1) unfolding unfold by (simp split: if_splits)
      then show ?thesis
        by (rule "1.IH" [OF Some False]) auto
    qed
  qed
qed

lemma CheckCompatible_loop_Some: "CheckCompatible_loop c n (Some l) h \<noteq> None"
proof (induction c n "Some l" h arbitrary: l rule: CheckCompatible_loop.induct)
  case (1 c n bhead)
  then show ?case
    by (subst CheckCompatible_loop.simps) (auto split: option.splits)
qed

lemma CheckCompatible_loop_below:
  "CheckCompatible_loop c n l h = Some e \<Longrightarrow> l = Some e \<or> RewindTo e < h \<or> RewindTo e = 0"
proof (induction c n l h rule: CheckCompatible_loop.induct)
  case (1 c n lasterr bhead)
  show ?case
  proof (cases "checkCompatible c n (uint bhead)")
    case None
    with "1.prems" show ?thesis by (simp add: CheckCompatible_loop.simps [of c n lasterr bhead])
  next
    case (Some err)
    have loop: "CheckCompatible_loop c n lasterr bhead =
        (if lasterr \<noteq> None \<and> RewindTo err = RewindTo (the lasterr) then lasterr
         else CheckCompatible_loop c n (Some err) (RewindTo err))"
      by (subst CheckCompatible_loop.simps) (simp add: Some)
    show ?thesis
    proof (cases "lasterr \<noteq> None \<and> RewindTo err = RewindTo (the lasterr)")
      case False
      then have "err = e \<or> RewindTo e < RewindTo err \<or> RewindTo e = 0"
        using "1.IH" [OF Some False] "1.prems" loop by auto
      then show ?thesis using checkCompatible_RewindTo [OF Some] by auto
    qed (use "1.prems" loop in simp)
  qed
qed

text \<open>
  C36: \<^verbatim>\<open>CheckCompatible\<close> always returns. It reports nothing exactly when the configurations do not
  conflict at the current height. Otherwise it reports block 0, where a conflict may be left (forks
  that differ at block 0 cannot be rewound), or a block below the height at which no conflict is left.
\<close>

theorem CheckCompatible_rewind:
  "(CheckCompatible c n height = None \<longleftrightarrow> checkCompatible c n (uint height) = None) \<and>
   (\<forall>e. CheckCompatible c n height = Some e \<longrightarrow>
      RewindTo e = 0 \<or> RewindTo e < height \<and> checkCompatible c n (uint (RewindTo e)) = None)"
proof (intro conjI allI impI)
  show "CheckCompatible c n height = None \<longleftrightarrow> checkCompatible c n (uint height) = None"
    unfolding CheckCompatible_def
    by (subst CheckCompatible_loop.simps)
      (auto simp: CheckCompatible_loop_Some split: option.splits)
next
  fix e
  assume e: "CheckCompatible c n height = Some e"
  have "RewindTo e = 0 \<or> checkCompatible c n (uint (RewindTo e)) = None"
    using e unfolding CheckCompatible_def by (rule CheckCompatible_loop_result) auto
  moreover have "RewindTo e = 0 \<or> RewindTo e < height"
    using e CheckCompatible_loop_below unfolding CheckCompatible_def by fastforce
  ultimately show "RewindTo e = 0 \<or> RewindTo e < height \<and> checkCompatible c n (uint (RewindTo e)) = None" by blast
qed

text \<open>Moving London from block 7 to block 20 when the head is at block 12 rewinds to block 6.\<close>

theorem CheckCompatible_rewind_witness:
  "CheckCompatible sample_config (sample_config\<lparr>LondonBlock := Some 20\<rparr>) 12 \<noteq> None \<and>
   checkCompatible sample_config (sample_config\<lparr>LondonBlock := Some 20\<rparr>) 6 = None"
proof -
  let ?n = "sample_config\<lparr>LondonBlock := Some 20\<rparr>"
  have chk: "checkCompatible sample_config ?n (uint (12 :: u64)) =
      Some (newCompatError ''London fork block'' (Some 7) (Some 20))"
    by (simp add: checkCompatible_def isForkIncompatible_def isForked_def configNumEqual_def
        IsDAOFork_def IsEIP158_def sample_config_def)
  have chk6: "checkCompatible sample_config ?n 6 = None"
    by (simp add: checkCompatible_def isForkIncompatible_def isForked_def configNumEqual_def
        IsDAOFork_def IsEIP158_def sample_config_def)
  show ?thesis
    using CheckCompatible_rewind [of sample_config ?n 12] chk chk6 by auto
qed

end
