(* ===== verification/Rlp.thy ===== *)
theory Rlp
  imports Prelude
begin

text \<open>
  Recursive length prefix encoding (package rlp). The encoder buffer of rlp/encbuffer.go collects
  the string data and, separately, the list headers with their positions; \<^verbatim>\<open>makeBytes\<close> merges
  the two. The reader of rlp/raw.go splits the first value off a byte slice. The lemmas show that
  the buffered encoder produces the recursive encoding, and that the reader inverts it.
\<close>

section \<open>Sizes and headers (rlp/encode.go)\<close>

function intsize_loop :: "nat \<Rightarrow> u64 \<Rightarrow> nat" where
  "intsize_loop n i =
     (let i' = drop_bit 8 i in if i' = 0 then n else intsize_loop (n + 1) i')"
  by pat_completeness auto
termination
proof (relation "measure (\<lambda>(s, i). unat i)", goal_cases)
  case 1
  then show ?case by simp
next
  case (2 n i i')
  have e: "unat (drop_bit 8 i) = unat i div 256"
    by (simp add: drop_bit_eq_div unat_div)
  with 2 have "unat i div 256 \<noteq> 0"
    by (metis unat_eq_zero)
  then have "unat i div 256 < unat i"
    by (intro div_less_dividend) (auto intro: gr0I)
  then show ?case
    using 2 e by simp
qed

declare intsize_loop.simps [simp del, model_simps]

definition intsize :: "u64 \<Rightarrow> nat" where
  "intsize i = intsize_loop 1 i"

definition headsize :: "u64 \<Rightarrow> nat" where
  "headsize n = (if n < 56 then 1 else 1 + intsize n)"

definition ListSize :: "u64 \<Rightarrow> u64" where
  "ListSize contentSize = of_nat (headsize contentSize) + contentSize"

definition IntSize :: "u64 \<Rightarrow> nat" where
  "IntSize x = (if x < 0x80 then 1 else 1 + intsize x)"

definition putint :: "u64 \<Rightarrow> bytes" where
  "putint i =
     (if i < 2 ^ 8 then be_bytes 1 i
      else if i < 2 ^ 16 then be_bytes 2 i
      else if i < 2 ^ 24 then be_bytes 3 i
      else if i < 2 ^ 32 then be_bytes 4 i
      else if i < 2 ^ 40 then be_bytes 5 i
      else if i < 2 ^ 48 then be_bytes 6 i
      else if i < 2 ^ 56 then be_bytes 7 i
      else be_bytes 8 i)"

definition puthead :: "byte \<Rightarrow> byte \<Rightarrow> u64 \<Rightarrow> bytes" where
  "puthead smalltag largetag n =
     (if n < 56 then [smalltag + ucast n]
      else let bs = putint n in (largetag + of_nat (length bs)) # bs)"

definition AppendUint64 :: "bytes \<Rightarrow> u64 \<Rightarrow> bytes" where
  "AppendUint64 b i =
     (if i = 0 then b @ [0x80]
      else if i < 128 then b @ [ucast i]
      else if i < 2 ^ 8 then b @ 0x81 # be_bytes 1 i
      else if i < 2 ^ 16 then b @ 0x82 # be_bytes 2 i
      else if i < 2 ^ 24 then b @ 0x83 # be_bytes 3 i
      else if i < 2 ^ 32 then b @ 0x84 # be_bytes 4 i
      else if i < 2 ^ 40 then b @ 0x85 # be_bytes 5 i
      else if i < 2 ^ 48 then b @ 0x86 # be_bytes 6 i
      else if i < 2 ^ 56 then b @ 0x87 # be_bytes 7 i
      else b @ 0x88 # be_bytes 8 i)"

section \<open>The encoder buffer (rlp/encbuffer.go)\<close>

record listhead =
  hoffset :: nat
  hsize :: nat

record encBuffer =
  estr :: bytes
  lheads :: "listhead list"
  lhsize :: nat

definition encBuffer_reset :: encBuffer where
  "encBuffer_reset = \<lparr>estr = [], lheads = [], lhsize = 0\<rparr>"

definition encBuffer_size :: "encBuffer \<Rightarrow> nat" where
  "encBuffer_size buf = length (estr buf) + lhsize buf"

definition listhead_encode :: "listhead \<Rightarrow> bytes" where
  "listhead_encode h = puthead 0xC0 0xF7 (of_nat (hsize h))"

definition encodeStringHeader :: "nat \<Rightarrow> encBuffer \<Rightarrow> encBuffer" where
  "encodeStringHeader n buf =
     buf\<lparr>estr := estr buf @ (if n < 56 then [0x80 + of_nat n]
                           else let bs = putint (of_nat n) in (0xB7 + of_nat (length bs)) # bs)\<rparr>"

definition writeUint64 :: "u64 \<Rightarrow> encBuffer \<Rightarrow> encBuffer" where
  "writeUint64 i buf =
     (if i = 0 then buf\<lparr>estr := estr buf @ [0x80]\<rparr>
      else if i < 128 then buf\<lparr>estr := estr buf @ [ucast i]\<rparr>
      else let bs = putint i in buf\<lparr>estr := estr buf @ (0x80 + of_nat (length bs)) # bs\<rparr>)"

definition writeBytes :: "bytes \<Rightarrow> encBuffer \<Rightarrow> encBuffer" where
  "writeBytes b buf =
     (if length b = 1 \<and> b ! 0 \<le> 0x7F then buf\<lparr>estr := estr buf @ [b ! 0]\<rparr>
      else let buf' = encodeStringHeader (length b) buf in buf'\<lparr>estr := estr buf' @ b\<rparr>)"

definition encBuffer_list :: "encBuffer \<Rightarrow> nat \<times> encBuffer" where
  "encBuffer_list buf =
     (length (lheads buf),
      buf\<lparr>lheads := lheads buf @ [\<lparr>hoffset = length (estr buf), hsize = lhsize buf\<rparr>]\<rparr>)"

definition encBuffer_listEnd :: "nat \<Rightarrow> encBuffer \<Rightarrow> encBuffer" where
  "encBuffer_listEnd i buf =
     (let lh = lheads buf ! i;
          sz = encBuffer_size buf - hoffset lh - hsize lh
      in buf\<lparr>lheads := (lheads buf)[i := lh\<lparr>hsize := sz\<rparr>],
             lhsize := lhsize buf + (if sz < 56 then 1 else 1 + intsize (of_nat sz))\<rparr>)"

text \<open>\<^verbatim>\<open>copyTo\<close>: the string data up to each header's hoffset, then the header, then the rest.\<close>

fun copyTo_loop :: "bytes \<Rightarrow> nat \<Rightarrow> listhead list \<Rightarrow> bytes" where
  "copyTo_loop s strpos [] = drop strpos s"
| "copyTo_loop s strpos (h # hs) =
     take (hoffset h - strpos) (drop strpos s) @ listhead_encode h @ copyTo_loop s (hoffset h) hs"

definition makeBytes :: "encBuffer \<Rightarrow> bytes" where
  "makeBytes w = copy_at (replicate (encBuffer_size w) 0) 0 (copyTo_loop (estr w) 0 (lheads w))"

text \<open>
  The values the model encodes: byte strings, unsigned integers and lists of them. The writer of a
  slice emits \<^verbatim>\<open>0xC0\<close> for an empty one and otherwise brackets the elements with \<^verbatim>\<open>list\<close> and
  \<^verbatim>\<open>listEnd\<close>.
\<close>

datatype item = RBytes bytes | RUint u64 | RList "item list"

fun write_item :: "item \<Rightarrow> encBuffer \<Rightarrow> encBuffer" and write_items :: "item list \<Rightarrow> encBuffer \<Rightarrow> encBuffer" where
  "write_item (RBytes b) w = writeBytes b w"
| "write_item (RUint i) w = writeUint64 i w"
| "write_item (RList xs) w =
     (if xs = [] then w\<lparr>estr := estr w @ [0xC0]\<rparr>
      else let (listOffset, w1) = encBuffer_list w
           in encBuffer_listEnd listOffset (write_items xs w1))"
| "write_items [] w = w"
| "write_items (x # xs) w = write_items xs (write_item x w)"

definition EncodeToBytes :: "item \<Rightarrow> bytes" where
  "EncodeToBytes it = makeBytes (write_item it encBuffer_reset)"

section \<open>Reading (rlp/raw.go)\<close>

datatype Kind = KByte | KString | KList

datatype rlp_error = ErrUnexpectedEOF | ErrCanonSize | ErrValueTooLarge | ErrExpectedString
  | ErrExpectedList | ErrCanonInt | ErrUintOverflow

definition readSize :: "bytes \<Rightarrow> byte \<Rightarrow> (rlp_error + u64) res" where
  "readSize b slen =
     (if unat slen > length b then Ok (Inl ErrUnexpectedEOF)
      else let s = (if 1 \<le> slen \<and> slen \<le> 8 then be_word (take (unat slen) b) else 0)
           in if s < 56 then Ok (Inl ErrCanonSize)
              else rbind (gindex b 0) (\<lambda>b0.
                if b0 = 0 then Ok (Inl ErrCanonSize) else Ok (Inr s)))"

definition readKind :: "bytes \<Rightarrow> (rlp_error + Kind \<times> u64 \<times> u64) res" where
  "readKind buf =
     (if length buf = 0 then Ok (Inl ErrUnexpectedEOF)
      else let b = buf ! 0;
               check = (\<lambda>k tagsize contentsize.
                 if contentsize > of_nat (length buf) - tagsize then Inl ErrValueTooLarge
                 else Inr (k, tagsize, contentsize)) in
        if b < 0x80 then Ok (check KByte 0 1)
        else if b < 0xB8 then
          (let contentsize = ucast (b - 0x80) :: u64 in
           if contentsize = 1 \<and> length buf > 1 \<and> buf ! 1 < 128 then Ok (Inl ErrCanonSize)
           else Ok (check KString 1 contentsize))
        else if b < 0xC0 then
          rbind (readSize (drop 1 buf) (b - 0xB7)) (\<lambda>r. case r of
              Inl e \<Rightarrow> Ok (Inl e)
            | Inr contentsize \<Rightarrow> Ok (check KString (ucast (b - 0xB7) + 1) contentsize))
        else if b < 0xF8 then Ok (check KList 1 (ucast (b - 0xC0)))
        else
          rbind (readSize (drop 1 buf) (b - 0xF7)) (\<lambda>r. case r of
              Inl e \<Rightarrow> Ok (Inl e)
            | Inr contentsize \<Rightarrow> Ok (check KList (ucast (b - 0xF7) + 1) contentsize)))"

definition Split :: "bytes \<Rightarrow> (rlp_error + Kind \<times> bytes \<times> bytes) res" where
  "Split b =
     rbind (readKind b) (\<lambda>r. case r of
         Inl e \<Rightarrow> Ok (Inl e)
       | Inr (k, ts, cs) \<Rightarrow>
           rbind (gslice b (unat ts) (unat (ts + cs))) (\<lambda>content.
           rbind (gslice b (unat (ts + cs)) (length b)) (\<lambda>rest.
             Ok (Inr (k, content, rest)))))"

definition SplitString :: "bytes \<Rightarrow> (rlp_error + bytes \<times> bytes) res" where
  "SplitString b =
     rbind (Split b) (\<lambda>r. case r of
         Inl e \<Rightarrow> Ok (Inl e)
       | Inr (k, content, rest) \<Rightarrow>
           (if k = KList then Ok (Inl ErrExpectedString) else Ok (Inr (content, rest))))"

definition SplitList :: "bytes \<Rightarrow> (rlp_error + bytes \<times> bytes) res" where
  "SplitList b =
     rbind (Split b) (\<lambda>r. case r of
         Inl e \<Rightarrow> Ok (Inl e)
       | Inr (k, content, rest) \<Rightarrow>
           (if k \<noteq> KList then Ok (Inl ErrExpectedList) else Ok (Inr (content, rest))))"

definition SplitUint64 :: "bytes \<Rightarrow> (rlp_error + u64 \<times> bytes) res" where
  "SplitUint64 b =
     rbind (SplitString b) (\<lambda>r. case r of
         Inl e \<Rightarrow> Ok (Inl e)
       | Inr (content, rest) \<Rightarrow>
           (if length content = 0 then Ok (Inr (0, rest))
            else if length content = 1 then
              (if content ! 0 = 0 then Ok (Inl ErrCanonInt) else Ok (Inr (ucast (content ! 0), rest)))
            else if length content > 8 then Ok (Inl ErrUintOverflow)
            else rbind (readSize content (of_nat (length content))) (\<lambda>x. case x of
                Inl e \<Rightarrow> Ok (Inl ErrCanonInt)
              | Inr x \<Rightarrow> Ok (Inr (x, rest)))))"

text \<open>
  The loop of \<^verbatim>\<open>CountValues\<close> with the number of bytes as fuel: each value is at least one byte.
\<close>

fun CountValues_loop :: "nat \<Rightarrow> nat \<Rightarrow> bytes \<Rightarrow> (rlp_error + nat) res" where
  "CountValues_loop fuel i b =
     (if length b > 0 then
        (case fuel of
           0 \<Rightarrow> NoFuel
         | Suc fuel' \<Rightarrow>
             rbind (readKind b) (\<lambda>r. case r of
                 Inl e \<Rightarrow> Ok (Inl e)
               | Inr (k, tagsize, sz) \<Rightarrow>
                   rbind (gslice b (unat (tagsize + sz)) (length b)) (\<lambda>b'. CountValues_loop fuel' (i + 1) b')))
      else Ok (Inr i))"

declare CountValues_loop.simps [simp del, model_simps]

definition CountValues :: "bytes \<Rightarrow> (rlp_error + nat) res" where
  "CountValues b = CountValues_loop (length b) 0 b"

section \<open>The encoder produces the recursive encoding\<close>

text \<open>The reference: a header with the length of the payload, then the payload.\<close>

definition enc_string :: "bytes \<Rightarrow> bytes" where
  "enc_string b = (if length b = 1 \<and> b ! 0 \<le> 0x7F then b
                   else puthead 0x80 0xB7 (of_nat (length b)) @ b)"

fun rlp_spec :: "item \<Rightarrow> bytes" and rlp_specs :: "item list \<Rightarrow> bytes" where
  "rlp_spec (RBytes b) = enc_string b"
| "rlp_spec (RUint i) = AppendUint64 [] i"
| "rlp_spec (RList xs) = puthead 0xC0 0xF7 (of_nat (length (rlp_specs xs))) @ rlp_specs xs"
| "rlp_specs [] = []"
| "rlp_specs (x # xs) = rlp_spec x @ rlp_specs xs"

text \<open>What one item adds to the buffer: string data, headers relative to its start, header bytes.\<close>

fun item_str :: "item \<Rightarrow> bytes" and items_str :: "item list \<Rightarrow> bytes" where
  "item_str (RBytes b) = enc_string b"
| "item_str (RUint i) = AppendUint64 [] i"
| "item_str (RList xs) = (if xs = [] then [0xC0] else items_str xs)"
| "items_str [] = []"
| "items_str (x # xs) = item_str x @ items_str xs"

definition shift_heads :: "nat \<Rightarrow> listhead list \<Rightarrow> listhead list" where
  "shift_heads d = map (\<lambda>h. h\<lparr>hoffset := hoffset h + d\<rparr>)"

fun item_heads :: "item \<Rightarrow> listhead list" and items_heads :: "item list \<Rightarrow> listhead list" where
  "item_heads (RBytes b) = []"
| "item_heads (RUint i) = []"
| "item_heads (RList xs) =
     (if xs = [] then [] else \<lparr>hoffset = 0, hsize = length (rlp_specs xs)\<rparr> # items_heads xs)"
| "items_heads [] = []"
| "items_heads (x # xs) = item_heads x @ shift_heads (length (item_str x)) (items_heads xs)"

fun item_hsize :: "item \<Rightarrow> nat" and items_hsize :: "item list \<Rightarrow> nat" where
  "item_hsize (RBytes b) = 0"
| "item_hsize (RUint i) = 0"
| "item_hsize (RList xs) =
     (if xs = [] then 0
      else items_hsize xs + (let n = length (rlp_specs xs) in if n < 56 then 1 else 1 + intsize (of_nat n)))"
| "items_hsize [] = 0"
| "items_hsize (x # xs) = item_hsize x + items_hsize xs"

lemma putint_shape:
  fixes i :: u64
  assumes "i \<noteq> 0"
  obtains k where "1 \<le> k" "k \<le> 8" "putint i = be_bytes k i" "unat i < 256 ^ k"
    "256 ^ (k - 1) \<le> unat i"
proof -
  have pos: "1 \<le> unat i" using assms by (simp add: Suc_le_eq unat_gt_0)
  have top: "unat i < 2 ^ 64" by (rule u64_bound)
  consider (1) "unat i < 2 ^ 8" | (2) "2 ^ 8 \<le> unat i" "unat i < 2 ^ 16"
    | (3) "2 ^ 16 \<le> unat i" "unat i < 2 ^ 24" | (4) "2 ^ 24 \<le> unat i" "unat i < 2 ^ 32"
    | (5) "2 ^ 32 \<le> unat i" "unat i < 2 ^ 40" | (6) "2 ^ 40 \<le> unat i" "unat i < 2 ^ 48"
    | (7) "2 ^ 48 \<le> unat i" "unat i < 2 ^ 56" | (8) "2 ^ 56 \<le> unat i"
    by linarith
  then show ?thesis
  proof cases
    case 1 then show ?thesis using that [of 1] pos by (simp add: putint_def word_less_nat_alt)
  next
    case 2 then show ?thesis using that [of 2] by (simp add: putint_def word_less_nat_alt)
  next
    case 3 then show ?thesis using that [of 3] by (simp add: putint_def word_less_nat_alt)
  next
    case 4 then show ?thesis using that [of 4] by (simp add: putint_def word_less_nat_alt)
  next
    case 5 then show ?thesis using that [of 5] by (simp add: putint_def word_less_nat_alt)
  next
    case 6 then show ?thesis using that [of 6] by (simp add: putint_def word_less_nat_alt)
  next
    case 7 then show ?thesis using that [of 7] by (simp add: putint_def word_less_nat_alt)
  next
    case 8 then show ?thesis using that [of 8] top by (simp add: putint_def word_less_nat_alt)
  qed
qed

lemma intsize_loop_eq: "256 ^ k \<le> unat i \<Longrightarrow> unat i < 256 ^ Suc k \<Longrightarrow> intsize_loop n i = n + k"
proof (induction k arbitrary: n i)
  case 0
  then have "drop_bit 8 i = 0"
    by (simp add: drop_bit_eq_div unat_eq_zero [symmetric] unat_div)
  then show ?case by (subst intsize_loop.simps) simp
next
  case (Suc k)
  have e: "unat (drop_bit 8 i) = unat i div 256"
    by (simp add: drop_bit_eq_div unat_div)
  have b: "256 ^ k \<le> unat i div 256" "unat i div 256 < 256 ^ Suc k"
    using Suc.prems by (auto simp: less_eq_div_iff_mult_less_eq div_less_iff_less_mult mult.commute)
  moreover have "drop_bit 8 i \<noteq> 0"
    using b(1) e by (metis not_one_le_zero one_le_numeral one_le_power order_trans unat_0)
  ultimately show ?case
    using Suc.IH [of "drop_bit 8 i" "n + 1"] e by (subst intsize_loop.simps) (simp add: Let_def)
qed

lemma length_putint: "i \<noteq> 0 \<Longrightarrow> length (putint i) = intsize i"
proof -
  assume "i \<noteq> 0"
  then obtain k where k: "1 \<le> k" "putint i = be_bytes k i" "unat i < 256 ^ k" "256 ^ (k - 1) \<le> unat i"
    by (rule putint_shape)
  then show ?thesis
    using intsize_loop_eq [of "k - 1" i 1] by (simp add: intsize_def)
qed

lemma length_puthead: "length (puthead a b n) = headsize n"
proof (cases "n < 56")
  case False
  then have "n \<noteq> 0" by auto
  with False show ?thesis by (simp add: puthead_def headsize_def Let_def length_putint)
qed (simp add: puthead_def headsize_def)

lemma of_nat_less_u64: "n < 2 ^ 64 \<Longrightarrow> m < 2 ^ 64 \<Longrightarrow> (of_nat n :: u64) < of_nat m \<longleftrightarrow> n < m"
  by (simp add: word_less_nat_alt unat_of_nat_small)

lemma of_nat_less_56: "n < 2 ^ 64 \<Longrightarrow> (of_nat n :: u64) < 56 \<longleftrightarrow> n < 56"
  using of_nat_less_u64 [of n 56] by simp

lemma ucast_of_nat_byte: "n < 56 \<Longrightarrow> (ucast (of_nat n :: u64) :: byte) = of_nat n"
  by (simp add: unsigned_of_nat take_bit_nat_eq_self)

lemma AppendUint64_putint:
  "AppendUint64 b i = b @ (if i = 0 then [0x80] else if i < 128 then [ucast i]
     else (0x80 + of_nat (length (putint i))) # putint i)"
  by (simp add: AppendUint64_def putint_def)

lemma encodeStringHeader_puthead:
  "n < 2 ^ 64 \<Longrightarrow> encodeStringHeader n w = w\<lparr>estr := estr w @ puthead 0x80 0xB7 (of_nat n)\<rparr>"
  by (simp add: encodeStringHeader_def puthead_def Let_def of_nat_less_56 ucast_of_nat_byte)

lemma writeBytes_enc:
  "length b < 2 ^ 64 \<Longrightarrow> writeBytes b w = w\<lparr>estr := estr w @ enc_string b\<rparr>"
  by (cases b) (auto simp: writeBytes_def enc_string_def encodeStringHeader_puthead Let_def)

lemma writeUint64_enc: "writeUint64 i w = w\<lparr>estr := estr w @ AppendUint64 [] i\<rparr>"
  by (simp add: writeUint64_def AppendUint64_putint Let_def)

lemma length_head: "n < 2 ^ 64 \<Longrightarrow>
  length (puthead a b (of_nat n)) = (if n < 56 then 1 else 1 + intsize (of_nat n))"
  by (simp add: length_puthead headsize_def of_nat_less_56)

lemma item_lengths:
  "length (rlp_spec it) < 2 ^ 64 \<Longrightarrow> length (item_str it) + item_hsize it = length (rlp_spec it)"
  "length (rlp_specs xs) < 2 ^ 64 \<Longrightarrow> length (items_str xs) + items_hsize xs = length (rlp_specs xs)"
proof (induction it and xs rule: rlp_spec_rlp_specs.induct)
  case (3 xs)
  show ?case
  proof (cases "xs = []")
    case True
    then show ?thesis by (simp add: puthead_def)
  next
    case False
    then show ?thesis using 3 by (simp add: Let_def length_head)
  qed
qed auto

lemma write_item_effect:
  "length (rlp_spec it) < 2 ^ 64 \<Longrightarrow> write_item it w =
     w\<lparr>estr := estr w @ item_str it, lheads := lheads w @ shift_heads (length (estr w)) (item_heads it),
       lhsize := lhsize w + item_hsize it\<rparr>"
  "length (rlp_specs xs) < 2 ^ 64 \<Longrightarrow> write_items xs w =
     w\<lparr>estr := estr w @ items_str xs, lheads := lheads w @ shift_heads (length (estr w)) (items_heads xs),
       lhsize := lhsize w + items_hsize xs\<rparr>"
proof (induction it w and xs w rule: write_item_write_items.induct)
  case (1 b w)
  have "length b < 2 ^ 64"
    using 1 by (auto simp: enc_string_def split: if_splits)
  then show ?case by (simp add: writeBytes_enc shift_heads_def)
next
  case (2 i w)
  then show ?case by (simp add: writeUint64_enc shift_heads_def)
next
  case (3 xs w)
  show ?case
  proof (cases "xs = []")
    case True
    then show ?thesis by (simp add: shift_heads_def)
  next
    case False
    have small: "length (rlp_specs xs) < 2 ^ 64" using "3.prems" by simp
    define w1 where "w1 = snd (encBuffer_list w)"
    have l: "encBuffer_list w = (length (lheads w), w1)"
      by (simp add: w1_def encBuffer_list_def)
    note w2 = "3.IH" [OF False l [symmetric] refl small]
    show ?thesis
      using False item_lengths(2) [OF small]
      by (simp add: l w2 encBuffer_listEnd_def nth_append encBuffer_size_def Let_def shift_heads_def del: of_nat_add of_nat_diff)
        (simp add: w1_def encBuffer_list_def Let_def del: of_nat_add of_nat_diff)
  qed
next
  case (4 w)
  then show ?case by (simp add: shift_heads_def)
next
  case (5 x xs w)
  then show ?case by (simp add: shift_heads_def ac_simps comp_def)
qed

lemma shift_heads_append: "shift_heads p (hs @ hs') = shift_heads p hs @ shift_heads p hs'"
  by (simp add: shift_heads_def)

lemma copyTo_advance:
  "(\<forall>h\<in>set hs. p + n \<le> hoffset h) \<Longrightarrow> copyTo_loop s p hs = take n (drop p s) @ copyTo_loop s (p + n) hs"
proof (cases hs)
  case Nil
  then show ?thesis
    by (simp add: add.commute [of p n] flip: drop_drop)
next
  case (Cons h hs')
  moreover assume "\<forall>h\<in>set hs. p + n \<le> hoffset h"
  ultimately have "hoffset h - p = n + (hoffset h - (p + n))" by simp
  then have "take (hoffset h - p) (drop p s) = take n (drop p s) @ take (hoffset h - (p + n)) (drop (p + n) s)"
    by (simp add: take_add add.commute)
  with Cons show ?thesis by simp
qed

lemma copyTo_items:
  "length (rlp_spec it) < 2 ^ 64 \<Longrightarrow> take (length (item_str it)) (drop p s) = item_str it \<Longrightarrow>
   \<forall>h\<in>set hs. p + length (item_str it) \<le> hoffset h \<Longrightarrow>
   copyTo_loop s p (shift_heads p (item_heads it) @ hs) = rlp_spec it @ copyTo_loop s (p + length (item_str it)) hs"
  "length (rlp_specs xs) < 2 ^ 64 \<Longrightarrow> take (length (items_str xs)) (drop p s) = items_str xs \<Longrightarrow>
   \<forall>h\<in>set hs. p + length (items_str xs) \<le> hoffset h \<Longrightarrow>
   copyTo_loop s p (shift_heads p (items_heads xs) @ hs) = rlp_specs xs @ copyTo_loop s (p + length (items_str xs)) hs"
proof (induction it and xs arbitrary: p hs and p hs rule: rlp_spec_rlp_specs.induct)
  case (1 b)
  then show ?case by (simp add: shift_heads_def copyTo_advance)
next
  case (2 i)
  then show ?case by (simp add: shift_heads_def copyTo_advance)
next
  case (3 xs)
  show ?case
  proof (cases "xs = []")
    case True
    then show ?thesis using 3 copyTo_advance [of hs p 1 s] by (simp add: shift_heads_def puthead_def)
  next
    case False
    then show ?thesis using 3 by (simp add: shift_heads_def listhead_encode_def)
  qed
next
  case 4
  then show ?case by (simp add: shift_heads_def)
next
  case (5 x xs)
  let ?n = "length (item_str x)"
  have x: "take ?n (drop p s) = item_str x" "take (length (items_str xs)) (drop (p + ?n) s) = items_str xs"
    using arg_cong [OF "5.prems"(2), of "take ?n"] arg_cong [OF "5.prems"(2), of "drop ?n"]
    by (simp_all add: drop_take add.commute [of p])
  have sh: "shift_heads p (shift_heads ?n (items_heads xs)) = shift_heads (p + ?n) (items_heads xs)"
    by (simp add: shift_heads_def comp_def ac_simps)
  have b: "\<forall>h\<in>set (shift_heads (p + ?n) (items_heads xs) @ hs). p + ?n \<le> hoffset h"
    using "5.prems"(3) by (auto simp: shift_heads_def)
  have "copyTo_loop s p (shift_heads p (item_heads x) @ shift_heads (p + ?n) (items_heads xs) @ hs)
      = rlp_spec x @ copyTo_loop s (p + ?n) (shift_heads (p + ?n) (items_heads xs) @ hs)"
    using "5.IH"(1) [OF _ x(1) b] "5.prems"(1) by simp
  also have "\<dots> = rlp_spec x @ rlp_specs xs @ copyTo_loop s (p + ?n + length (items_str xs)) hs"
    using "5.IH"(2) [OF _ x(2), of hs] "5.prems"(1,3) by (simp add: ac_simps)
  finally show ?case
    using sh by (simp add: shift_heads_append add.assoc)
qed

section \<open>Big-endian numbers of at most eight bytes\<close>

lemma unat_be_word_snoc:
  "unat (be_word bs :: u64) < 2 ^ 56 \<Longrightarrow> unat (be_word (bs @ [b]) :: u64) = 256 * unat (be_word bs :: u64) + unat b"
proof -
  assume a: "unat (be_word bs :: u64) < 2 ^ 56"
  have b: "unat b < 256" using unsigned_less [of b] by simp
  have "unat (push_bit 8 (be_word bs :: u64)) = 256 * unat (be_word bs :: u64)"
    using a by (simp add: push_bit_eq_mult unat_mult_lem [THEN iffD1] mult.commute)
  then show ?thesis
    using a b by (simp add: be_word_snoc unat_add_lem [THEN iffD1] unsigned_ucast_eq take_bit_nat_eq_self)
qed

lemma be_word_bounds: "length bs \<le> 8 \<Longrightarrow> unat (be_word bs :: u64) < 256 ^ length bs"
proof (induction bs rule: rev_induct)
  case (snoc b bs)
  then have w: "unat (be_word bs :: u64) < 256 ^ length bs" by simp
  have "(256 :: nat) ^ length bs \<le> 256 ^ 7"
    using snoc.prems by (intro power_increasing) auto
  then have l: "unat (be_word bs :: u64) < 2 ^ 56"
    using w by (intro less_le_trans [OF w]) simp
  have b: "unat b < 256" using unsigned_less [of b] by simp
  show ?case
    using w b by (simp add: unat_be_word_snoc [OF l])
qed simp

lemma be_word_append_lower:
  "bs \<noteq> [] \<Longrightarrow> bs ! 0 \<noteq> 0 \<Longrightarrow> length bs \<le> 8 \<Longrightarrow> 256 ^ (length bs - 1) \<le> unat (be_word bs :: u64)"
proof (induction bs rule: rev_induct)
  case (snoc b bs)
  then have small: "length bs \<le> 7" by simp
  have "(256 :: nat) ^ length bs \<le> 256 ^ 7"
    using small by (intro power_increasing) auto
  moreover have "unat (be_word bs :: u64) < 256 ^ length bs" using small by (intro be_word_bounds) simp
  ultimately have l: "unat (be_word bs :: u64) < 2 ^ 56" by simp
  show ?case
  proof (cases "bs = []")
    case True
    with snoc.prems have "unat b \<noteq> 0" by (simp add: unat_eq_zero)
    then show ?thesis using unat_be_word_snoc [OF l, of b] True by simp
  next
    case False
    then obtain n where n: "length bs = Suc n" by (cases bs) auto
    have "256 ^ n \<le> unat (be_word bs :: u64)"
      using snoc.IH snoc.prems False n by (simp add: nth_append)
    then show ?thesis
      using unat_be_word_snoc [OF l, of b] n by simp
  qed
qed simp

lemma be_bytes_be_word: "length bs \<le> 8 \<Longrightarrow> be_bytes (length bs) (be_word bs :: u64) = bs"
proof (induction bs rule: rev_induct)
  case (snoc b bs)
  then have small: "length bs \<le> 7" by simp
  have "(256 :: nat) ^ length bs \<le> 256 ^ 7"
    using small by (intro power_increasing) auto
  moreover have "unat (be_word bs :: u64) < 256 ^ length bs" using small by (intro be_word_bounds) simp
  ultimately have l: "unat (be_word bs :: u64) < 2 ^ 56" by simp
  have b: "unat b < 256" using unsigned_less [of b] by simp
  have "unat (drop_bit 8 (be_word (bs @ [b]) :: u64)) = unat (be_word bs :: u64)"
    using b by (simp add: drop_bit_eq_div unat_div unat_be_word_snoc [OF l])
  then have "drop_bit 8 (be_word (bs @ [b]) :: u64) = be_word bs" by (rule unsigned_word_eqI)
  moreover have "ucast (be_word (bs @ [b]) :: u64) = b"
  proof -
    have "unat (ucast (be_word (bs @ [b]) :: u64) :: byte) = unat b"
      using b by (simp add: unsigned_ucast_eq unat_be_word_snoc [OF l] take_bit_eq_mod)
    then show ?thesis by (rule unsigned_word_eqI)
  qed
  ultimately show ?case using snoc by simp
qed simp

lemma putint_be_word:
  assumes "bs \<noteq> []" "bs ! 0 \<noteq> 0" "length bs \<le> 8"
  shows "putint (be_word bs) = bs"
proof -
  have lo: "256 ^ (length bs - 1) \<le> unat (be_word bs :: u64)"
    using assms by (intro be_word_append_lower)
  have hi: "unat (be_word bs :: u64) < 256 ^ length bs"
    using assms by (intro be_word_bounds)
  have "be_word bs \<noteq> (0 :: u64)" using lo by auto
  then obtain k where k: "1 \<le> k" "putint (be_word bs) = be_bytes k (be_word bs :: u64)"
    "unat (be_word bs :: u64) < 256 ^ k" "256 ^ (k - 1) \<le> unat (be_word bs :: u64)"
    by (rule putint_shape)
  have "(256 :: nat) ^ (k - 1) < 256 ^ length bs" "(256 :: nat) ^ (length bs - 1) < 256 ^ k"
    using lo hi k by linarith+
  then have "k - 1 < length bs" "length bs - 1 < k"
    by (auto dest: power_less_imp_less_exp [rotated])
  then have "k = length bs" using k(1) by linarith
  then show ?thesis using k(2) be_bytes_be_word assms(3) by simp
qed

lemma be_word_putint: "be_word (putint i) = i"
proof (cases "i = 0")
  case False
  then obtain k where k: "putint i = be_bytes k i" "unat i < 256 ^ k"
    by (rule putint_shape)
  have "take_bit (8 * k) (unat i) = unat i"
    using k(2) by (simp add: take_bit_nat_eq_self power_mult)
  then have "unat (take_bit (8 * k) i) = unat i"
    by (simp add: unsigned_take_bit_eq)
  then have "take_bit (8 * k) i = i" by (rule unsigned_word_eqI)
  then show ?thesis using k(1) by (simp add: be_word_be_bytes_take)
qed (simp add: putint_def be_word_def)

lemma length_putint_bounds: "1 \<le> length (putint i) \<and> length (putint i) \<le> 8"
  by (simp add: putint_def)

lemma putint_not_Nil [simp]: "putint i \<noteq> []"
  using length_putint_bounds [of i] by auto

lemma putint_0 [simp]: "i \<noteq> 0 \<Longrightarrow> putint i ! 0 \<noteq> 0"
proof
  assume "i \<noteq> 0" "putint i ! 0 = 0"
  obtain k where k: "1 \<le> k" "k \<le> 8" "putint i = be_bytes k i" "256 ^ (k - 1) \<le> unat i"
    using \<open>i \<noteq> 0\<close> by (rule putint_shape)
  obtain b bs where bs: "putint i = b # bs" using putint_not_Nil [of i] by (cases "putint i") auto
  then have "length bs = k - 1" using k(3) length_be_bytes [of k i] by simp
  moreover have "unat (be_word bs :: u64) < 256 ^ length bs"
    using k(2) calculation by (intro be_word_bounds) simp
  moreover have "be_word bs = i"
    using be_word_putint [of i] bs \<open>putint i ! 0 = 0\<close> by (simp add: be_word_def)
  ultimately show False using k(4) by simp
qed

section \<open>Reading inverts the encoding\<close>

lemma of_nat_gt_u64:
  assumes "c < 2 ^ 64" "t \<le> L" "L < 2 ^ 64"
  shows "(of_nat L :: u64) - of_nat t < of_nat c \<longleftrightarrow> L - t < c"
proof -
  have "(of_nat L :: u64) - of_nat t = of_nat (L - t)" using assms(2) by simp
  moreover have "(of_nat (L - t) :: u64) < of_nat c \<longleftrightarrow> L - t < c"
    using assms by (intro of_nat_less_u64) auto
  ultimately show ?thesis by simp
qed

lemma unat_tag: "a + n < 256 \<Longrightarrow> unat (of_nat a + of_nat n :: byte) = a + n"
  by (simp add: unat_word_ariths unsigned_of_nat take_bit_eq_mod)

lemma readSize_putint:
  "\<not> s < 56 \<Longrightarrow> readSize (putint s @ xs) (of_nat (length (putint s))) = Ok (Inr s)"
proof -
  assume s: "\<not> s < 56"
  then have "s \<noteq> 0" by auto
  define n where "n = length (putint s)"
  have n: "1 \<le> n" "n \<le> 8" using length_putint_bounds [of s] by (auto simp: n_def)
  have u: "unat (of_nat n :: byte) = n"
    using n by (simp add: unat_of_nat_small)
  have "1 \<le> (of_nat n :: byte)" "(of_nat n :: byte) \<le> 8"
    using n u by (auto simp: word_le_nat_alt)
  then show ?thesis
    using s u n \<open>s \<noteq> 0\<close> be_word_putint [of s]
    by (auto simp: readSize_def n_def [symmetric] gindex_def nth_append)
qed

text \<open>The result of reading a tag of each class.\<close>

lemma readKind_byte: "b < 0x80 \<Longrightarrow> xs = b # ys \<Longrightarrow> length xs < 2 ^ 64 \<Longrightarrow> readKind xs = Ok (Inr (KByte, 0, 1))"
  using of_nat_gt_u64 [of 1 0 "length xs"] by (simp add: readKind_def Let_def)

lemma readKind_string56:
  assumes "n < 56" "xs = (0x80 + of_nat n) # ys" "length xs < 2 ^ 64" "n \<le> length ys"
    "\<not> (n = 1 \<and> ys ! 0 < 128)"
  shows "readKind xs = Ok (Inr (KString, 1, of_nat n))"
proof -
  have u: "unat (0x80 + of_nat n :: byte) = 128 + n" using unat_tag [of 128 n] assms(1) by simp
  have l: "\<not> (0x80 + of_nat n :: byte) < 0x80" "(0x80 + of_nat n :: byte) < 0xB8"
    using u assms(1) by (simp_all add: word_less_nat_alt)
  have c: "\<not> (of_nat (length xs) :: u64) - 1 < of_nat n"
    using of_nat_gt_u64 [of n 1 "length xs"] assms by simp
  have v: "ucast (of_nat n :: byte) = (of_nat n :: u64)"
    using assms(1) by (intro unat_eqI) (simp add: unsigned_ucast_eq unat_of_nat_small take_bit_nat_eq_self)
  have o: "(of_nat n :: u64) = 1 \<longleftrightarrow> n = 1" using of_nat_eq_word [of n 1, where 'a = 64] assms(1) by simp
  have "readKind xs = (if (of_nat n :: u64) = 1 \<and> length xs > 1 \<and> xs ! 1 < 128 then Ok (Inl ErrCanonSize)
      else if (of_nat (length xs) :: u64) - 1 < of_nat n then Ok (Inl ErrValueTooLarge) else Ok (Inr (KString, 1, of_nat n)))"
    using l by (simp add: readKind_def Let_def v assms(2) del: of_nat_Suc)
  also have "\<dots> = Ok (Inr (KString, 1, of_nat n))"
    using c o assms(2,5) by auto
  finally show ?thesis .
qed

lemma readKind_list56:
  assumes "n < 56" "xs = (0xC0 + of_nat n) # ys" "length xs < 2 ^ 64" "n \<le> length ys"
  shows "readKind xs = Ok (Inr (KList, 1, of_nat n))"
proof -
  have u: "unat (0xC0 + of_nat n :: byte) = 192 + n" using unat_tag [of 192 n] assms(1) by simp
  have l: "\<not> (0xC0 + of_nat n :: byte) < 0x80" "\<not> (0xC0 + of_nat n :: byte) < 0xB8"
     "\<not> (0xC0 + of_nat n :: byte) < 0xC0" "(0xC0 + of_nat n :: byte) < 0xF8"
    using u assms(1) by (simp_all add: word_less_nat_alt)
  have c: "\<not> (of_nat (length xs) :: u64) - 1 < of_nat n"
    using of_nat_gt_u64 [of n 1 "length xs"] assms by simp
  have v: "ucast (of_nat n :: byte) = (of_nat n :: u64)"
    using assms(1) by (intro unat_eqI) (simp add: unsigned_ucast_eq unat_of_nat_small take_bit_nat_eq_self)
  have "readKind xs = (if (of_nat (length xs) :: u64) - 1 < of_nat n then Ok (Inl ErrValueTooLarge) else Ok (Inr (KList, 1, of_nat n)))"
    using l by (simp add: readKind_def Let_def v assms(2) del: of_nat_Suc)
  with c show ?thesis by simp
qed

lemma ucast_byte_u64: "k < 256 \<Longrightarrow> (ucast (of_nat k :: byte) :: u64) = of_nat k"
  by (intro unat_eqI) (simp add: unsigned_ucast_eq unat_of_nat_small take_bit_nat_eq_self)

lemma readKind_long:
  assumes "56 \<le> n" "n < 2 ^ 64" "length xs < 2 ^ 64" "n \<le> length ys"
  defines "p \<equiv> putint (of_nat n)"
  shows "xs = (0xB7 + of_nat (length p)) # p @ ys \<Longrightarrow>
      readKind xs = Ok (Inr (KString, of_nat (1 + length p), of_nat n))"
    and "xs = (0xF7 + of_nat (length p)) # p @ ys \<Longrightarrow>
      readKind xs = Ok (Inr (KList, of_nat (1 + length p), of_nat n))"
proof -
  define k where "k = length p"
  have k: "1 \<le> k" "k \<le> 8" using length_putint_bounds [of "of_nat n"] by (auto simp: p_def k_def)
  have n: "\<not> (of_nat n :: u64) < 56" using assms of_nat_less_56 by simp
  have rs: "readSize (p @ ys) (of_nat k) = Ok (Inr (of_nat n))"
    using readSize_putint [OF n] by (simp add: k_def p_def)
  have us: "unat (0xB7 + of_nat k :: byte) = 183 + k" using unat_tag [of 183 k] k by simp
  have ul: "unat (0xF7 + of_nat k :: byte) = 247 + k" using unat_tag [of 247 k] k by simp
  have v: "ucast (of_nat k :: byte) + 1 = (of_nat (1 + k) :: u64)"
    using k by (simp add: ucast_byte_u64)
  {
    assume x: "xs = (0xB7 + of_nat (length p)) # p @ ys"
    have l: "\<not> (0xB7 + of_nat k :: byte) < 0x80" "\<not> (0xB7 + of_nat k :: byte) < 0xB8" "(0xB7 + of_nat k :: byte) < 0xC0"
      using us k by (simp_all add: word_less_nat_alt)
    have c: "\<not> (of_nat (length xs) :: u64) - of_nat (1 + k) < of_nat n"
      using of_nat_gt_u64 [of n "1 + k" "length xs"] assms x by (simp add: k_def del: of_nat_Suc of_nat_add)
    have "readKind xs = (if (of_nat (length xs) :: u64) - of_nat (1 + k) < of_nat n then Ok (Inl ErrValueTooLarge)
        else Ok (Inr (KString, of_nat (1 + k), of_nat n)))"
      using l rs v x by (simp add: readKind_def Let_def k_def [symmetric] del: of_nat_Suc of_nat_add)
    with c show "readKind xs = Ok (Inr (KString, of_nat (1 + length p), of_nat n))" by (simp add: k_def)
  }
  {
    assume x: "xs = (0xF7 + of_nat (length p)) # p @ ys"
    have l: "\<not> (0xF7 + of_nat k :: byte) < 0x80" "\<not> (0xF7 + of_nat k :: byte) < 0xB8" "\<not> (0xF7 + of_nat k :: byte) < 0xC0"
      "\<not> (0xF7 + of_nat k :: byte) < 0xF8"
      using ul k by (simp_all add: word_less_nat_alt)
    have c: "\<not> (of_nat (length xs) :: u64) - of_nat (1 + k) < of_nat n"
      using of_nat_gt_u64 [of n "1 + k" "length xs"] assms x by (simp add: k_def del: of_nat_Suc of_nat_add)
    have "readKind xs = (if (of_nat (length xs) :: u64) - of_nat (1 + k) < of_nat n then Ok (Inl ErrValueTooLarge)
        else Ok (Inr (KList, of_nat (1 + k), of_nat n)))"
      using l rs v x by (simp add: readKind_def Let_def k_def [symmetric] del: of_nat_Suc of_nat_add)
    with c show "readKind xs = Ok (Inr (KList, of_nat (1 + length p), of_nat n))" by (simp add: k_def)
  }
qed

lemma Split_of_readKind:
  assumes "readKind b = Ok (Inr (k, of_nat (length t), of_nat (length c)))"
    "b = t @ c @ rest" "length b < 2 ^ 64"
  shows "Split b = Ok (Inr (k, c, rest))"
proof -
  have "unat (of_nat (length t) :: u64) = length t"
    "unat (of_nat (length t) + of_nat (length c) :: u64) = length t + length c"
    using assms(2,3) by (simp_all add: unat_of_nat_small flip: of_nat_add)
  then show ?thesis
    using assms(1,2) by (simp add: Split_def)
qed

lemma Split_puthead:
  assumes "length b < 2 ^ 64"
  shows "b = puthead 0xC0 0xF7 (of_nat (length c)) @ c @ rest \<Longrightarrow> Split b = Ok (Inr (KList, c, rest))"
    and "b = puthead 0x80 0xB7 (of_nat (length c)) @ c @ rest \<Longrightarrow> \<not> (length c = 1 \<and> c ! 0 < 128) \<Longrightarrow>
      Split b = Ok (Inr (KString, c, rest))"
proof -
  have small: "b = t @ c @ rest \<Longrightarrow> length c < 2 ^ 64" for t using assms by simp
  show "Split b = Ok (Inr (KList, c, rest))" if b: "b = puthead 0xC0 0xF7 (of_nat (length c)) @ c @ rest"
  proof (cases "length c < 56")
    case True
    then have "b = [0xC0 + of_nat (length c)] @ c @ rest"
      using b by (simp add: puthead_def of_nat_less_56 ucast_of_nat_byte)
    then show ?thesis
      using assms True by (intro Split_of_readKind) (auto intro: readKind_list56)
  next
    case False
    let ?p = "putint (of_nat (length c))"
    have e: "b = ((0xF7 + of_nat (length ?p)) # ?p) @ c @ rest"
      using b False small [OF b] by (simp add: puthead_def of_nat_less_56 Let_def)
    moreover have "readKind b = Ok (Inr (KList, of_nat (1 + length ?p), of_nat (length c)))"
      using False small [OF b] assms e by (intro readKind_long(2) [where ys = "c @ rest"]) auto
    ultimately show ?thesis
      using assms by (intro Split_of_readKind) auto
  qed
  show "Split b = Ok (Inr (KString, c, rest))"
    if b: "b = puthead 0x80 0xB7 (of_nat (length c)) @ c @ rest" and ns: "\<not> (length c = 1 \<and> c ! 0 < 128)"
  proof (cases "length c < 56")
    case True
    then have "b = [0x80 + of_nat (length c)] @ c @ rest"
      using b by (simp add: puthead_def of_nat_less_56 ucast_of_nat_byte)
    then show ?thesis
      using assms True ns by (intro Split_of_readKind) (auto intro!: readKind_string56 simp: nth_append)
  next
    case False
    let ?p = "putint (of_nat (length c))"
    have e: "b = ((0xB7 + of_nat (length ?p)) # ?p) @ c @ rest"
      using b False small [OF b] by (simp add: puthead_def of_nat_less_56 Let_def)
    moreover have "readKind b = Ok (Inr (KString, of_nat (1 + length ?p), of_nat (length c)))"
      using False small [OF b] assms e by (intro readKind_long(1) [where ys = "c @ rest"]) auto
    ultimately show ?thesis
      using assms by (intro Split_of_readKind) auto
  qed
qed

lemma byte_le_127: "b \<le> (127 :: byte) \<longleftrightarrow> b < 128"
  by (simp add: word_less_nat_alt word_le_nat_alt) linarith

lemma Split_enc_string:
  assumes "length (enc_string c @ rest) < 2 ^ 64"
  shows "Split (enc_string c @ rest) = Ok (Inr (if length c = 1 \<and> c ! 0 < 128 then KByte else KString, c, rest))"
proof (cases "length c = 1 \<and> c ! 0 < 128")
  case True
  then obtain x where c: "c = [x]" "x < 128" by (cases c) auto
  then have "readKind (c @ rest) = Ok (Inr (KByte, of_nat (length []), of_nat (length c)))"
    using assms readKind_byte [of x "c @ rest" rest] by (simp add: enc_string_def byte_le_127)
  then have "Split (c @ rest) = Ok (Inr (KByte, c, rest))"
    using assms c by (intro Split_of_readKind [where t = "[]"]) (auto simp: enc_string_def byte_le_127)
  then show ?thesis using c by (simp add: enc_string_def byte_le_127)
next
  case False
  have e: "enc_string c = puthead 0x80 0xB7 (of_nat (length c)) @ c"
    using False by (auto simp: enc_string_def byte_le_127)
  have "Split (enc_string c @ rest) = Ok (Inr (KString, c, rest))"
    using assms False by (intro Split_puthead(2)) (simp_all add: e)
  then show ?thesis by (simp only: if_not_P [OF False])
qed

text \<open>Reading a size back, and what an accepted tag says of the input.\<close>

lemma readSize_inv:
  assumes "readSize b sl = Ok (Inr s)"
  shows "1 \<le> unat sl" "unat sl \<le> 8" "unat sl \<le> length b" "\<not> s < 56" "putint s = take (unat sl) b"
proof -
  let ?s = "if 1 \<le> sl \<and> sl \<le> 8 then be_word (take (unat sl) b) else 0 :: u64"
  have l: "unat sl \<le> length b" and s: "s = ?s" "\<not> ?s < 56" and b0: "length b > 0" "b ! 0 \<noteq> 0"
    using assms by (auto simp: readSize_def Let_def split: if_splits)
  have "1 \<le> sl \<and> sl \<le> 8"
  proof (rule ccontr)
    assume n: "\<not> (1 \<le> sl \<and> sl \<le> 8)"
    from s(2) show False unfolding if_not_P [OF n] by simp
  qed
  then have sl: "1 \<le> unat sl" "unat sl \<le> 8" by (simp_all add: word_le_nat_alt)
  then show "1 \<le> unat sl" "unat sl \<le> 8" .
  show "unat sl \<le> length b" by (fact l)
  show "\<not> s < 56" using s by simp
  have t: "s = be_word (take (unat sl) b)" using s(1) \<open>1 \<le> sl \<and> sl \<le> 8\<close> by simp
  have "take (unat sl) b \<noteq> []" using sl l by auto
  moreover have "take (unat sl) b ! 0 \<noteq> 0" using sl b0 by simp
  moreover have "length (take (unat sl) b) \<le> 8" using sl l by simp
  ultimately show "putint s = take (unat sl) b"
    unfolding t by (rule putint_be_word)
qed

lemma limit_ok:
  assumes "\<not> of_nat L - ts < (cs :: u64)" "unat ts \<le> L" "L < 2 ^ 64"
  shows "unat ts + unat cs \<le> L"
proof -
  have "\<not> (of_nat L :: u64) - of_nat (unat ts) < of_nat (unat cs)" using assms(1) by simp
  then show ?thesis
    using of_nat_gt_u64 [OF u64_bound assms(2,3), of cs] assms(2) by linarith
qed

text \<open>The header and the content condition of each kind of value.\<close>

definition tag_of :: "Kind \<Rightarrow> bytes \<Rightarrow> bytes" where
  "tag_of k c = (case k of KByte \<Rightarrow> [] | KString \<Rightarrow> puthead 0x80 0xB7 (of_nat (length c))
     | KList \<Rightarrow> puthead 0xC0 0xF7 (of_nat (length c)))"

definition content_ok :: "Kind \<Rightarrow> bytes \<Rightarrow> bool" where
  "content_ok k c = (case k of KByte \<Rightarrow> length c = 1 \<and> c ! 0 < 128 | KString \<Rightarrow> \<not> (length c = 1 \<and> c ! 0 < 128)
     | KList \<Rightarrow> True)"

lemma take_drop3: "i + j \<le> length b \<Longrightarrow> b = take i b @ take j (drop i b) @ drop (i + j) b"
  by (metis add.commute append_take_drop_id drop_drop)

lemma byte_offset:
  fixes b c :: byte
  assumes "c \<le> b"
  shows "b - c = of_nat (unat b - unat c)" "b = c + of_nat (unat b - unat c)"
proof -
  have "unat (b - c) = unat b - unat c" using assms by (simp add: unat_sub word_le_nat_alt)
  moreover have "of_nat (unat (b - c)) = b - c" by simp
  ultimately show "b - c = of_nat (unat b - unat c)" by simp
  then show "b = c + of_nat (unat b - unat c)" by (metis add_diff_cancel_left' diff_add_cancel add.commute)
qed

lemma long_inv:
  assumes "readSize bs (b0 - base) = Ok (Inr cs)" "base \<le> b0" "unat b0 \<le> unat base + 8"
    "\<not> of_nat (length b) - (ucast (b0 - base) + 1) < cs" "b = b0 # bs" "length b < 2 ^ 64"
  defines "ts \<equiv> ucast (b0 - base) + 1 :: u64"
  shows "unat ts + unat cs \<le> length b" "take (unat ts) b = puthead sm base cs" "56 \<le> unat cs"
proof -
  define n where "n = unat b0 - unat base"
  have b0: "b0 - base = of_nat n" "b0 = base + of_nat n"
    using byte_offset [OF assms(2)] by (simp_all add: n_def)
  have n: "n \<le> 8" using assms(3) by (simp add: n_def)
  have un: "unat (of_nat n :: byte) = n" using n by (simp add: unat_of_nat_small)
  note inv = readSize_inv [OF assms(1), unfolded b0(1) un]
  have "ts = of_nat (n + 1)" using n by (simp add: ts_def b0(1) ucast_byte_u64)
  then have uts: "unat ts = n + 1" using n by (simp add: unat_of_nat_small del: of_nat_add of_nat_Suc)
  show "unat ts + unat cs \<le> length b"
    using assms(4-6) inv(3) uts by (intro limit_ok) (auto simp: ts_def)
  have "length (putint cs) = n" using inv(3,5) by simp
  then show "take (unat ts) b = puthead sm base cs"
    using inv(4,5) uts assms(5) b0(2) by (simp add: puthead_def Let_def)
  show "56 \<le> unat cs" using inv(4) by (simp add: word_less_nat_alt)
qed

lemma readKind_inv:
  assumes r: "readKind b = Ok (Inr (k, ts, cs))" and L: "length b < 2 ^ 64"
  shows "unat ts + unat cs \<le> length b \<and> take (unat ts) b = tag_of k (take (unat cs) (drop (unat ts) b)) \<and>
    content_ok k (take (unat cs) (drop (unat ts) b))"
proof -
  from r obtain b0 bs where b: "b = b0 # bs" by (cases b) (auto simp: readKind_def)
  then have L1: "1 \<le> length b" by simp
  have b0: "unat b0 < 256" using unsigned_less [of b0] by simp
  consider (b) "b0 < 0x80" | (s) "0x80 \<le> b0" "b0 < 0xB8" | (sl) "0xB8 \<le> b0" "b0 < 0xC0"
    | (l) "0xC0 \<le> b0" "b0 < 0xF8" | (ll) "0xF8 \<le> b0" by (meson linorder_not_le)
  then show ?thesis
  proof cases
    case b
    then have "k = KByte" "ts = 0" "cs = 1"
      using r by (auto simp: readKind_def Let_def \<open>b = b0 # bs\<close> split: if_splits)
    then show ?thesis using b \<open>b = b0 # bs\<close> by (simp add: tag_of_def content_ok_def)
  next
    case s
    define n where "n = unat b0 - 128"
    have n: "n < 56" "b0 - 0x80 = of_nat n" "b0 = 0x80 + of_nat n" 
      using s byte_offset [OF s(1)] b0 by (auto simp: n_def word_less_nat_alt word_le_nat_alt)
    have l: "\<not> b0 < 0x80" using s(1) by simp
    have v: "ucast (b0 - 0x80) = (of_nat n :: u64)" using n by (simp add: ucast_byte_u64)
    have c: "k = KString" "ts = 1" "cs = of_nat n" "\<not> of_nat (length b) - 1 < (of_nat n :: u64)"
      "\<not> (n = 1 \<and> length b > 1 \<and> b ! 1 < 128)"
      using r l s(2) v of_nat_eq_word [of n 1, where 'a = 64] n(1) unfolding readKind_def Let_def b
      by (auto split: if_splits)
    have u: "unat (of_nat n :: u64) = n" using n(1) by (simp add: unat_of_nat_small)
    have "unat ts + unat cs \<le> length b"
      using c L L1 by (intro limit_ok) auto
    then show ?thesis
      using c n u b by (auto simp: tag_of_def content_ok_def puthead_def of_nat_less_56 ucast_of_nat_byte nth_append)
  next
    case sl
    define ts' where "ts' = (ucast (b0 - 0xB7) + 1 :: u64)"
    have l: "\<not> b0 < 0x80" "\<not> b0 < 0xB8" "b0 < 0xC0"
      using sl by (auto simp: word_less_nat_alt word_le_nat_alt)
    obtain x where x: "readSize bs (b0 - 0xB7) = Ok x"
      using r l unfolding readKind_def Let_def b by (auto split: if_splits)
    have c: "k = KString" "ts = ts'" "readSize bs (b0 - 0xB7) = Ok (Inr cs)"
      "\<not> of_nat (length b) - (ucast (b0 - 0xB7) + 1) < cs"
      using r l x unfolding readKind_def Let_def b ts'_def by (cases x; auto split: if_splits)+
    have B: "0xB7 \<le> b0" "unat b0 \<le> unat (0xB7 :: byte) + 8"
      using sl b0 by (auto simp: word_less_nat_alt word_le_nat_alt)
    note li = long_inv [OF c(3) B c(4) b L, folded ts'_def]
    have "min (length b - unat ts') (unat cs) = unat cs" using li(1) by linarith
    then show ?thesis
      using li(1,3) li(2) c(1,2) by (auto simp: tag_of_def content_ok_def)
  next
    case l
    define n where "n = unat b0 - 192"
    have n: "n < 56" "b0 - 0xC0 = of_nat n" "b0 = 0xC0 + of_nat n"
      using l byte_offset [OF l(1)] b0 by (auto simp: n_def word_less_nat_alt word_le_nat_alt)
    have l: "\<not> b0 < 0x80" "\<not> b0 < 0xB8" "\<not> b0 < 0xC0"  using l(1) by (auto simp: word_less_nat_alt word_le_nat_alt)
    have v: "ucast (b0 - 0xC0) = (of_nat n :: u64)" using n by (simp add: ucast_byte_u64)
    have c: "k = KList" "ts = 1" "cs = of_nat n" "\<not> of_nat (length b) - 1 < (of_nat n :: u64)"
      using r l \<open>b0 < 0xF8\<close> v n(1) unfolding readKind_def Let_def b
      by (auto split: if_splits)
    have u: "unat (of_nat n :: u64) = n" using n(1) by (simp add: unat_of_nat_small)
    have "unat ts + unat cs \<le> length b"
      using c L L1 by (intro limit_ok) auto
    then show ?thesis
      using c n u b by (auto simp: tag_of_def content_ok_def puthead_def of_nat_less_56 ucast_of_nat_byte nth_append)
  next
    case ll
    define ts' where "ts' = (ucast (b0 - 0xF7) + 1 :: u64)"
    have l: "\<not> b0 < 0x80" "\<not> b0 < 0xB8" "\<not> b0 < 0xC0" "\<not> b0 < 0xF8"
      using ll by (auto simp: word_less_nat_alt word_le_nat_alt)
    obtain x where x: "readSize bs (b0 - 0xF7) = Ok x"
      using r l unfolding readKind_def Let_def b by (auto split: if_splits)
    have c: "k = KList" "ts = ts'" "readSize bs (b0 - 0xF7) = Ok (Inr cs)"
      "\<not> of_nat (length b) - (ucast (b0 - 0xF7) + 1) < cs"
      using r l x unfolding readKind_def Let_def b ts'_def by (cases x; auto split: if_splits)+
    have B: "0xF7 \<le> b0" "unat b0 \<le> unat (0xF7 :: byte) + 8"
      using ll b0 by (auto simp: word_less_nat_alt word_le_nat_alt)
    note li = long_inv [OF c(3) B c(4) b L, folded ts'_def]
    have "min (length b - unat ts') (unat cs) = unat cs" using li(1) by linarith
    then show ?thesis
      using li(1,3) li(2) c(1,2) by (auto simp: tag_of_def content_ok_def)
  qed
qed
lemma readSize_total: "\<exists>r. readSize b sl = Ok r"
proof (cases "b = []")
  case True
  then show ?thesis by (auto simp: readSize_def Let_def unat_eq_zero)
next
  case False
  then show ?thesis by (auto simp: readSize_def Let_def gindex_def)
qed

lemma readKind_total: "\<exists>r. readKind b = Ok r"
proof -
  obtain r1 r2 where "readSize (drop 1 b) (b ! 0 - 0xB7) = Ok r1" "readSize (drop 1 b) (b ! 0 - 0xF7) = Ok r2"
    using readSize_total by meson
  then show ?thesis
    by (simp add: readKind_def Let_def split: sum.splits)
qed

lemma Split_inv:
  assumes "length b < 2 ^ 64"
  shows "\<exists>r. Split b = Ok r"
    and "Split b = Ok (Inr (k, c, rest)) \<Longrightarrow> b = tag_of k c @ c @ rest \<and> content_ok k c"
proof -
  have k: "unat ts + unat cs \<le> length b \<and> take (unat ts) b = tag_of k (take (unat cs) (drop (unat ts) b)) \<and>
    content_ok k (take (unat cs) (drop (unat ts) b)) \<and> unat (ts + cs) = unat ts + unat cs"
    if r: "readKind b = Ok (Inr (k, ts, cs))" for k ts cs
  proof -
    note i = readKind_inv [OF r assms]
    then have "unat ts + unat cs < 2 ^ 64" using assms by linarith
    with i show ?thesis by (simp add: unat_add_lem [THEN iffD1])
  qed
  obtain r where r: "readKind b = Ok r" using readKind_total by blast
  show "\<exists>r. Split b = Ok r"
  proof (cases r)
    case (Inl e)
    then show ?thesis using r by (simp add: Split_def)
  next
    case (Inr x)
    then obtain k ts cs where x: "r = Inr (k, ts, cs)" by (cases x) auto
    then show ?thesis using r k [of k ts cs] by (auto simp: Split_def)
  qed
  show "b = tag_of k c @ c @ rest \<and> content_ok k c" if s: "Split b = Ok (Inr (k, c, rest))"
  proof -
    obtain ts cs where x: "readKind b = Ok (Inr (k, ts, cs))"
      "c = take (unat (ts + cs) - unat ts) (drop (unat ts) b)" "rest = drop (unat (ts + cs)) b"
      using s r by (cases r) (auto simp: Split_def)
    note k = k [OF x(1)]
    then have "c = take (unat cs) (drop (unat ts) b)" using x(2) by simp
    moreover have "b = take (unat ts) b @ take (unat cs) (drop (unat ts) b) @ drop (unat ts + unat cs) b"
      using k by (intro take_drop3) simp
    ultimately show ?thesis using k x(3) by metis
  qed
qed

lemma putint_small: "i \<noteq> 0 \<Longrightarrow> i < 128 \<Longrightarrow> putint i = [ucast i]"
  by (simp add: putint_def word_less_nat_alt)

lemma ucast_small_lt: "(i :: u64) < 128 \<Longrightarrow> (ucast i :: byte) < 128 \<and> ucast (ucast i :: byte) = i"
  by (auto simp: word_less_nat_alt unsigned_ucast_eq take_bit_eq_mod unat_mod intro!: unat_eqI)

lemma AppendUint64_enc_string: "AppendUint64 [] i = enc_string (if i = 0 then [] else putint i)"
proof -
  consider (0) "i = 0" | (1) "i \<noteq> 0" "i < 128" | (2) "\<not> i < 128" by blast
  then show ?thesis
  proof cases
    case 0
    then show ?thesis by (simp add: AppendUint64_putint enc_string_def puthead_def)
  next
    case 1
    then show ?thesis by (simp add: AppendUint64_putint enc_string_def putint_small ucast_small_lt byte_le_127)
  next
    case 2
    have n: "length (putint i) < 56" using length_putint_bounds [of i] by linarith
    have ns: "\<not> (length (putint i) = 1 \<and> putint i ! 0 \<le> 0x7F)"
    proof
      assume a: "length (putint i) = 1 \<and> putint i ! 0 \<le> 0x7F"
      then obtain b where b: "putint i = [b]" "b \<le> 0x7F" by (cases "putint i") auto
      then have "i = ucast b" using be_word_putint [of i] by (simp add: be_word_def)
      then show False using 2 b(2) by (simp add: word_less_nat_alt word_le_nat_alt unsigned_ucast_eq take_bit_nat_eq_self)
    qed
    have "i \<noteq> 0" using 2 by auto
    then show ?thesis
      using 2 n ns by (simp add: AppendUint64_putint enc_string_def puthead_def of_nat_less_56 ucast_of_nat_byte)
  qed
qed

text \<open>The kind and the content under which an item is read back.\<close>

fun item_kind :: "item \<Rightarrow> Kind" where
  "item_kind (RBytes b) = (if length b = 1 \<and> b ! 0 < 128 then KByte else KString)"
| "item_kind (RUint i) = (if i \<noteq> 0 \<and> i < 128 then KByte else KString)"
| "item_kind (RList xs) = KList"

fun item_content :: "item \<Rightarrow> bytes" where
  "item_content (RBytes b) = b"
| "item_content (RUint i) = (if i = 0 then [] else putint i)"
| "item_content (RList xs) = rlp_specs xs"

lemma Split_rlp_spec:
  "length (rlp_spec it @ rest) < 2 ^ 64 \<Longrightarrow>
   Split (rlp_spec it @ rest) = Ok (Inr (item_kind it, item_content it, rest))"
proof (cases it)
  case (RBytes b)
  assume "length (rlp_spec it @ rest) < 2 ^ 64"
  then show ?thesis using RBytes Split_enc_string [of b rest] by simp
next
  case (RUint i)
  assume "length (rlp_spec it @ rest) < 2 ^ 64"
  then have s: "Split (enc_string (if i = 0 then [] else putint i) @ rest) = Ok (Inr
     (if length (if i = 0 then [] else putint i) = 1 \<and> (if i = 0 then [] else putint i) ! 0 < 128 then KByte else KString,
      if i = 0 then [] else putint i, rest))"
    using RUint by (intro Split_enc_string) (simp add: AppendUint64_enc_string)
  have "(length (putint i) = 1 \<and> putint i ! 0 < 128) = (i < 128)" if "i \<noteq> 0"
  proof
    assume "length (putint i) = 1 \<and> putint i ! 0 < 128"
    then obtain b where b: "putint i = [b]" "b < 128" by (cases "putint i") auto
    then have "i = ucast b" using be_word_putint [of i] by (simp add: be_word_def)
    then show "i < 128" using b(2) by (simp add: word_less_nat_alt unsigned_ucast_eq take_bit_nat_eq_self)
  next
    assume "i < 128"
    then show "length (putint i) = 1 \<and> putint i ! 0 < 128"
      using that by (simp add: putint_small ucast_small_lt)
  qed
  then show ?thesis using s RUint by (auto simp: AppendUint64_enc_string)
next
  case (RList xs)
  assume "length (rlp_spec it @ rest) < 2 ^ 64"
  then show ?thesis using RList Split_puthead(1) [of "rlp_spec it @ rest" "rlp_specs xs" rest] by simp
qed

lemma puthead_not_Nil [simp]: "puthead a b n \<noteq> []"
  by (simp add: puthead_def Let_def)

lemma rlp_spec_pos: "rlp_spec it \<noteq> []"
  by (cases it) (auto simp: enc_string_def AppendUint64_enc_string)

lemma CountValues_loop_specs:
  "length (rlp_specs xs) < 2 ^ 64 \<Longrightarrow> length (rlp_specs xs) \<le> fuel \<Longrightarrow>
   CountValues_loop fuel i (rlp_specs xs) = Ok (Inr (i + length xs))"
proof (induction xs arbitrary: fuel i)
  case Nil
  then show ?case by (simp add: CountValues_loop.simps)
next
  case (Cons x xs)
  let ?b = "rlp_spec x @ rlp_specs xs"
  have pos: "0 < length ?b" using rlp_spec_pos [of x] by simp
  then obtain n where n: "fuel = Suc n" using Cons.prems(2) by (cases fuel) auto
  have "Split ?b = Ok (Inr (item_kind x, item_content x, rlp_specs xs))"
    using Cons.prems(1) by (intro Split_rlp_spec) simp
  moreover obtain r where "readKind ?b = Ok r" using readKind_total by blast
  ultimately obtain k ts cs where k: "readKind ?b = Ok (Inr (k, ts, cs))" "unat (ts + cs) \<le> length ?b"
    "rlp_specs xs = drop (unat (ts + cs)) ?b"
    by (cases r) (auto simp: Split_def)
  have "length (rlp_specs xs) \<le> n"
    using Cons.prems(2) n rlp_spec_pos [of x] by (cases "rlp_spec x") auto
  then have "CountValues_loop n (i + 1) (rlp_specs xs) = Ok (Inr (i + 1 + length xs))"
    using Cons.prems(1) by (intro Cons.IH) simp_all
  moreover have "gslice ?b (unat (ts + cs)) (length ?b) = Ok (rlp_specs xs)"
    using gslice_drop [OF k(2)] k(3) by (simp only:)
  ultimately show ?case
    using k(1) n pos by (subst rlp_specs.simps, subst CountValues_loop.simps) simp
qed


lemma write_item_makeBytes:
  assumes "length (rlp_spec it) < 2 ^ 64"
  shows "makeBytes (write_item it encBuffer_reset) = rlp_spec it"
  using copyTo_items(1) [of it 0 "item_str it" "[]"] item_lengths(1) [OF assms] assms
  by (simp add: makeBytes_def write_item_effect encBuffer_reset_def encBuffer_size_def copy_at_def)

section \<open>Properties\<close>

text \<open>
  C37: the buffered encoder (string data plus deferred list headers, merged by \<^verbatim>\<open>makeBytes\<close>)
  produces exactly the recursive length-prefix encoding of every value whose encoding is
  shorter than \<open>2 ^ 64\<close> bytes.
\<close>

theorem EncodeToBytes_spec: "length (rlp_spec it) < 2 ^ 64 \<Longrightarrow> EncodeToBytes it = rlp_spec it"
  by (simp add: EncodeToBytes_def write_item_makeBytes)

theorem EncodeToBytes_spec_witness:
  "EncodeToBytes (RList [RBytes [100, 111, 103], RList [], RUint 1024]) =
     [0xC8, 0x83, 100, 111, 103, 0xC0, 0x82, 0x04, 0x00]"
proof -
  have "rlp_spec (RList [RBytes [100, 111, 103], RList [], RUint 1024])
      = [0xC8, 0x83, 100, 111, 103, 0xC0, 0x82, 0x04, 0x00]"
    by code_simp
  then show ?thesis
    using EncodeToBytes_spec [of "RList [RBytes [100, 111, 103], RList [], RUint 1024]"] by simp
qed

text \<open>
  C38: reading inverts writing. \<^verbatim>\<open>Split\<close> on an encoded value followed by any bytes returns the
  kind of the value, its content (the bytes of a string, the big-endian digits of an integer,
  the concatenated encodings of the elements of a list) and exactly the bytes that follow.
\<close>

theorem Split_EncodeToBytes:
  "length (rlp_spec it @ rest) < 2 ^ 64 \<Longrightarrow>
   Split (EncodeToBytes it @ rest) = Ok (Inr (item_kind it, item_content it, rest))"
  using Split_rlp_spec [of it rest] by (simp add: EncodeToBytes_def write_item_makeBytes)

theorem Split_EncodeToBytes_witness:
  "Split (EncodeToBytes (RBytes [100, 111, 103]) @ [1]) = Ok (Inr (KString, [100, 111, 103], [1]))"
  using Split_EncodeToBytes [of "RBytes [100, 111, 103]" "[1]"] by (simp add: enc_string_def puthead_def)

text \<open>
  C39: \<^verbatim>\<open>Split\<close> neither panics nor accepts a second form of a value: on input shorter than
  \<open>2 ^ 64\<close> bytes it returns, and what it accepts is the canonical header of the content,
  the content, and the rest, where a single byte below 128 is its own encoding.
\<close>

theorem Split_canonical:
  "length b < 2 ^ 64 \<Longrightarrow>
   (\<exists>r. Split b = Ok r) \<and>
   (\<forall>k c rest. Split b = Ok (Inr (k, c, rest)) \<longrightarrow> b = tag_of k c @ c @ rest \<and> content_ok k c)"
  using Split_inv by blast

theorem Split_canonical_witness:
  "Split [0x81, 0x80, 7] = Ok (Inr (KString, [0x80], [7])) \<and>
   [0x81, 0x80, 7] = tag_of KString [0x80] @ [0x80] @ [7] \<and> content_ok KString [0x80]"
proof -
  have s: "Split [0x81, 0x80, 7] = Ok (Inr (KString, [0x80], [7]))"
    by (simp add: Split_def readKind_def)
  then show ?thesis
    using Split_canonical [of "[0x81, 0x80, 7]"] by simp
qed

text \<open>
  \<^verbatim>\<open>CountValues\<close> on the concatenated encodings of a list of values returns their number;
  its loop ends within as many rounds as there are bytes.
\<close>

theorem CountValues_specs:
  "length (rlp_specs xs) < 2 ^ 64 \<Longrightarrow> CountValues (rlp_specs xs) = Ok (Inr (length xs))"
  by (simp add: CountValues_def CountValues_loop_specs)

theorem CountValues_specs_witness: "CountValues [0x83, 100, 111, 103, 0xC0, 5] = Ok (Inr 3)"
  using CountValues_specs [of "[RBytes [100, 111, 103], RList [], RUint 5]"]
  by (simp add: enc_string_def AppendUint64_def puthead_def)

end
