(* ===== verification/Machine.thy ===== *)
theory Machine
  imports Params
begin

text \<open>
  The data the interpreter works on (package core/vm): the errors of errors.go, the stack of
  stack.go, the memory of memory.go, the size and padding helpers of common.go, the memory sizes
  of memory_table.go, the stack bounds of stack_table.go and the call gas of gas.go.

  A stack is the list of its words with the top first. A position of memory is an \<open>uint64\<close> where
  the code has one and an integer where the code casts to \<open>int64\<close>.
\<close>

section \<open>Errors (core/vm/errors.go)\<close>

datatype vm_error =
    ErrOutOfGas
  | ErrCodeStoreOutOfGas
  | ErrDepth
  | ErrInsufficientBalance
  | ErrContractAddressCollision
  | ErrExecutionReverted
  | ErrMaxCodeSizeExceeded
  | ErrInvalidJump
  | ErrWriteProtection
  | ErrReturnDataOutOfBounds
  | ErrGasUintOverflow
  | ErrInvalidCode
  | ErrNonceUintOverflow
  | errStopToken
  | ErrStackUnderflow int int
  | ErrStackOverflow int int
  | ErrInvalidOpCode byte
  | ErrOther string

section \<open>256-bit words as the code reads them\<close>

definition IsUint64 :: "u256 \<Rightarrow> bool" where
  "IsUint64 w = (drop_bit 64 w = 0)"

definition Uint64 :: "u256 \<Rightarrow> u64" where
  "Uint64 w = ucast w"

definition Uint64WithOverflow :: "u256 \<Rightarrow> u64 \<times> bool" where
  "Uint64WithOverflow w = (Uint64 w, \<not> IsUint64 w)"

lemma unat_drop64: "unat (drop_bit 64 w :: u256) = unat w div 2 ^ 64"
  by (simp add: drop_bit_eq_div unat_div)

lemma IsUint64_iff: "IsUint64 w \<longleftrightarrow> unat w < 2 ^ 64"
proof -
  have "drop_bit 64 w = 0 \<longleftrightarrow> unat w div 2 ^ 64 = 0"
    using unat_drop64 [of w] by (metis unat_eq_zero)
  then show ?thesis by (simp add: IsUint64_def div_eq_0_iff)
qed

lemma unat_Uint64: "IsUint64 w \<Longrightarrow> unat (Uint64 w) = unat w"
  by (simp add: IsUint64_iff Uint64_def unsigned_ucast_eq take_bit_nat_eq_self)

section \<open>Stack (core/vm/stack.go)\<close>

type_synonym stack = "u256 list"

definition newstack :: stack where
  "newstack = []"

definition push :: "u256 \<Rightarrow> stack \<Rightarrow> stack" where
  "push d st = d # st"

definition pop :: "stack \<Rightarrow> (u256 \<times> stack) res" where
  "pop st = (case st of [] \<Rightarrow> Panic | x # xs \<Rightarrow> Ok (x, xs))"

definition swap :: "nat \<Rightarrow> stack \<Rightarrow> stack res" where
  "swap n st =
     (if 1 \<le> n \<and> n \<le> length st \<and> 1 \<le> length st then Ok (st[n - 1 := st ! 0, 0 := st ! (n - 1)]) else Panic)"

definition dup :: "nat \<Rightarrow> stack \<Rightarrow> stack res" where
  "dup n st = (if 1 \<le> n \<and> n \<le> length st then Ok (push (st ! (n - 1)) st) else Panic)"

definition Back :: "nat \<Rightarrow> stack \<Rightarrow> u256 res" where
  "Back n st = gindex st n"

definition peek :: "stack \<Rightarrow> u256 res" where
  "peek st = gindex st 0"

text \<open>Assignment through the pointer that \<^verbatim>\<open>peek\<close> returns.\<close>

definition poke :: "u256 \<Rightarrow> stack \<Rightarrow> stack res" where
  "poke d st = (case st of [] \<Rightarrow> Panic | x # xs \<Rightarrow> Ok (d # xs))"

definition Data :: "stack \<Rightarrow> u256 list" where
  "Data st = rev st"

section \<open>Memory (core/vm/memory.go)\<close>

record Memory =
  store :: bytes
  lastGasCost :: u64

definition NewMemory :: Memory where
  "NewMemory = \<lparr>store = [], lastGasCost = 0\<rparr>"

definition mem_Len :: "Memory \<Rightarrow> nat" where
  "mem_Len m = length (store m)"

definition mem_Set :: "u64 \<Rightarrow> u64 \<Rightarrow> bytes \<Rightarrow> Memory \<Rightarrow> Memory res" where
  "mem_Set offset sz value m =
     (if sz > 0 then
        if offset + sz > of_nat (mem_Len m) then Panic
        else rbind (gslice (store m) (unat offset) (unat (offset + sz)))
          (\<lambda>_. Ok (m\<lparr>store := copy_at (store m) (unat offset) (take (unat sz) value)\<rparr>))
      else Ok m)"

definition mem_Set32 :: "u64 \<Rightarrow> u256 \<Rightarrow> Memory \<Rightarrow> Memory res" where
  "mem_Set32 offset val m =
     (if offset + 32 > of_nat (mem_Len m) then Panic
      else rbind (gslice (store m) (unat offset) (mem_Len m))
        (\<lambda>_. Ok (m\<lparr>store := copy_at (store m) (unat offset) (be_bytes 32 val)\<rparr>)))"

definition mem_Set8 :: "u64 \<Rightarrow> byte \<Rightarrow> Memory \<Rightarrow> Memory res" where
  "mem_Set8 offset b m =
     rbind (gindex (store m) (unat offset)) (\<lambda>_. Ok (m\<lparr>store := (store m)[unat offset := b]\<rparr>))"

definition Resize :: "u64 \<Rightarrow> Memory \<Rightarrow> Memory" where
  "Resize sz m =
     (if of_nat (mem_Len m) < sz
      then m\<lparr>store := store m @ replicate (unat (sz - of_nat (mem_Len m))) 0\<rparr> else m)"

definition GetCopy :: "int \<Rightarrow> int \<Rightarrow> Memory \<Rightarrow> bytes res" where
  "GetCopy offset sz m =
     (if sz = 0 then Ok []
      else if int (mem_Len m) > offset then
        (if offset < 0 \<or> sz < 0 then Panic else gslice (store m) (nat offset) (nat (offset + sz)))
      else Ok [])"

definition GetPtr :: "int \<Rightarrow> int \<Rightarrow> Memory \<Rightarrow> bytes res" where
  "GetPtr offset sz m =
     (if sz = 0 then Ok []
      else if int (mem_Len m) > offset then
        (if offset < 0 \<or> sz < 0 then Panic else gslice (store m) (nat offset) (nat (offset + sz)))
      else Ok [])"

section \<open>Sizes and padding (core/vm/common.go, common/math)\<close>

definition SafeAdd :: "u64 \<Rightarrow> u64 \<Rightarrow> u64 \<times> bool" where
  "SafeAdd x y = (x + y, 2 ^ 64 \<le> unat x + unat y)"

definition SafeMul :: "u64 \<Rightarrow> u64 \<Rightarrow> u64 \<times> bool" where
  "SafeMul x y = (x * y, 2 ^ 64 \<le> unat x * unat y)"

definition calcMemSize64WithUint :: "u256 \<Rightarrow> u64 \<Rightarrow> u64 \<times> bool" where
  "calcMemSize64WithUint off length64 =
     (if length64 = 0 then (0, False)
      else let (offset64, overflow) = Uint64WithOverflow off in
        if overflow then (0, True)
        else let val = offset64 + length64 in (val, val < offset64))"

definition calcMemSize64 :: "u256 \<Rightarrow> u256 \<Rightarrow> u64 \<times> bool" where
  "calcMemSize64 off l = (if \<not> IsUint64 l then (0, True) else calcMemSize64WithUint off (Uint64 l))"

definition getData :: "bytes \<Rightarrow> u64 \<Rightarrow> u64 \<Rightarrow> bytes res" where
  "getData data start sz =
     (let length64 = of_nat (length data) :: u64;
          start' = (if start > length64 then length64 else start);
          end0 = start' + sz;
          end' = (if end0 > length64 then length64 else end0)
      in rbind (gslice data (unat start') (unat end'))
           (\<lambda>s. Ok (RightPadBytes s (nat (sint sz)))))"

definition toWordSize :: "u64 \<Rightarrow> u64" where
  "toWordSize sz =
     (if sz > 18446744073709551615 - 31 then 18446744073709551615 div 32 + 1 else (sz + 31) div 32)"

definition allZero :: "bytes \<Rightarrow> bool" where
  "allZero b = list_all (\<lambda>x. x = 0) b"

section \<open>Memory size of an instruction (core/vm/memory_table.go)\<close>

definition size_at :: "nat \<Rightarrow> nat \<Rightarrow> stack \<Rightarrow> (u64 \<times> bool) res" where
  "size_at i j st = rbind (Back i st) (\<lambda>off. rbind (Back j st) (\<lambda>l. Ok (calcMemSize64 off l)))"

definition memoryKeccak256 :: "stack \<Rightarrow> (u64 \<times> bool) res" where
  "memoryKeccak256 = size_at 0 1"

definition memoryCallDataCopy :: "stack \<Rightarrow> (u64 \<times> bool) res" where
  "memoryCallDataCopy = size_at 0 2"

definition memoryReturnDataCopy :: "stack \<Rightarrow> (u64 \<times> bool) res" where
  "memoryReturnDataCopy = size_at 0 2"

definition memoryCodeCopy :: "stack \<Rightarrow> (u64 \<times> bool) res" where
  "memoryCodeCopy = size_at 0 2"

definition memoryExtCodeCopy :: "stack \<Rightarrow> (u64 \<times> bool) res" where
  "memoryExtCodeCopy = size_at 1 3"

definition memoryMLoad :: "stack \<Rightarrow> (u64 \<times> bool) res" where
  "memoryMLoad st = rbind (Back 0 st) (\<lambda>off. Ok (calcMemSize64WithUint off 32))"

definition memoryMStore8 :: "stack \<Rightarrow> (u64 \<times> bool) res" where
  "memoryMStore8 st = rbind (Back 0 st) (\<lambda>off. Ok (calcMemSize64WithUint off 1))"

definition memoryMStore :: "stack \<Rightarrow> (u64 \<times> bool) res" where
  "memoryMStore st = rbind (Back 0 st) (\<lambda>off. Ok (calcMemSize64WithUint off 32))"

definition memoryCreate :: "stack \<Rightarrow> (u64 \<times> bool) res" where
  "memoryCreate = size_at 1 2"

definition memoryCreate2 :: "stack \<Rightarrow> (u64 \<times> bool) res" where
  "memoryCreate2 = size_at 1 2"

text \<open>The larger of the two regions, the output first as in the code.\<close>

definition larger_of :: "nat \<times> nat \<Rightarrow> nat \<times> nat \<Rightarrow> stack \<Rightarrow> (u64 \<times> bool) res" where
  "larger_of p q st =
     rbind (size_at (fst p) (snd p) st) (\<lambda>(x, overflow).
       if overflow then Ok (0, True)
       else rbind (size_at (fst q) (snd q) st) (\<lambda>(y, overflow).
         if overflow then Ok (0, True)
         else if x > y then Ok (x, False) else Ok (y, False)))"

definition memoryCall :: "stack \<Rightarrow> (u64 \<times> bool) res" where
  "memoryCall = larger_of (5, 6) (3, 4)"

definition memoryDelegateCall :: "stack \<Rightarrow> (u64 \<times> bool) res" where
  "memoryDelegateCall = larger_of (4, 5) (2, 3)"

definition memoryStaticCall :: "stack \<Rightarrow> (u64 \<times> bool) res" where
  "memoryStaticCall = larger_of (4, 5) (2, 3)"

definition memoryReturn :: "stack \<Rightarrow> (u64 \<times> bool) res" where
  "memoryReturn = size_at 0 1"

definition memoryRevert :: "stack \<Rightarrow> (u64 \<times> bool) res" where
  "memoryRevert = size_at 0 1"

definition memoryLog :: "stack \<Rightarrow> (u64 \<times> bool) res" where
  "memoryLog = size_at 0 1"

section \<open>Stack bounds (core/vm/stack_table.go)\<close>

definition maxStack :: "int \<Rightarrow> int \<Rightarrow> int" where
  "maxStack pops pushes = int StackLimit + pops - pushes"

definition minStack :: "int \<Rightarrow> int \<Rightarrow> int" where
  "minStack pops pushes = pops"

definition minSwapStack :: "int \<Rightarrow> int" where
  "minSwapStack n = minStack n n"

definition maxSwapStack :: "int \<Rightarrow> int" where
  "maxSwapStack n = maxStack n n"

definition minDupStack :: "int \<Rightarrow> int" where
  "minDupStack n = minStack n (n + 1)"

definition maxDupStack :: "int \<Rightarrow> int" where
  "maxDupStack n = maxStack n (n + 1)"

section \<open>Gas of a call (core/vm/gas.go)\<close>

definition GasQuickStep :: u64 where [simp, code_unfold]: "GasQuickStep = 2"
definition GasFastestStep :: u64 where [simp, code_unfold]: "GasFastestStep = 3"
definition GasFastStep :: u64 where [simp, code_unfold]: "GasFastStep = 5"
definition GasMidStep :: u64 where [simp, code_unfold]: "GasMidStep = 8"
definition GasSlowStep :: u64 where [simp, code_unfold]: "GasSlowStep = 10"
definition GasExtStep :: u64 where [simp, code_unfold]: "GasExtStep = 20"

definition callGas :: "bool \<Rightarrow> u64 \<Rightarrow> u64 \<Rightarrow> u256 \<Rightarrow> vm_error + u64" where
  "callGas isEip150 availableGas base callCost =
     (let availableGas = availableGas - base;
          gas = availableGas - availableGas div 64
      in if isEip150 \<and> (\<not> IsUint64 callCost \<or> gas < Uint64 callCost) then Inr gas
         else if \<not> IsUint64 callCost then Inl ErrGasUintOverflow
         else Inr (Uint64 callCost))"

end
