(* ===== verification/CodeAnalysis.thy ===== *)
theory CodeAnalysis
  imports Opcodes Machine
begin

text \<open>
  Jump destination analysis (core/vm/analysis.go) and the contract object (core/vm/contract.go).
  The bitmap has one bit for each byte of the code: a set bit is push data, a clear bit an
  opcode. Positions in the code are natural numbers, since the code is a Go slice, whose length
  fits a signed 64-bit integer, and the scan never moves more than 32 bytes past its end.
\<close>

section \<open>Bit vectors (core/vm/analysis.go)\<close>

type_synonym bitvec = bytes

definition set2BitsMask :: "16 word" where [simp, code_unfold]: "set2BitsMask = 0b11"
definition set3BitsMask :: "16 word" where [simp, code_unfold]: "set3BitsMask = 0b111"
definition set4BitsMask :: "16 word" where [simp, code_unfold]: "set4BitsMask = 0b1111"
definition set5BitsMask :: "16 word" where [simp, code_unfold]: "set5BitsMask = 0b11111"
definition set6BitsMask :: "16 word" where [simp, code_unfold]: "set6BitsMask = 0b111111"
definition set7BitsMask :: "16 word" where [simp, code_unfold]: "set7BitsMask = 0b1111111"

text \<open>\<^verbatim>\<open>bits[i] |= b\<close> and \<^verbatim>\<open>bits[i] = b\<close>.\<close>

definition or_at :: "nat \<Rightarrow> byte \<Rightarrow> bitvec \<Rightarrow> bitvec res" where
  "or_at i b bits = rbind (gindex bits i) (\<lambda>x. Ok (bits[i := x OR b]))"

definition put_at :: "nat \<Rightarrow> byte \<Rightarrow> bitvec \<Rightarrow> bitvec res" where
  "put_at i b bits = rbind (gindex bits i) (\<lambda>_. Ok (bits[i := b]))"

definition set1 :: "nat \<Rightarrow> bitvec \<Rightarrow> bitvec res" where
  "set1 pos bits = or_at (pos div 8) (push_bit (pos mod 8) 1) bits"

definition setN :: "16 word \<Rightarrow> nat \<Rightarrow> bitvec \<Rightarrow> bitvec res" where
  "setN flag pos bits =
     (let a = push_bit (pos mod 8) flag in
      rbind (or_at (pos div 8) (ucast a) bits) (\<lambda>bits.
        let b = (ucast (drop_bit 8 a) :: byte) in
        if b \<noteq> 0 then put_at (pos div 8 + 1) b bits else Ok bits))"

definition set8 :: "nat \<Rightarrow> bitvec \<Rightarrow> bitvec res" where
  "set8 pos bits =
     (let a = push_bit (pos mod 8) (0xFF :: byte) in
      rbind (or_at (pos div 8) a bits) (\<lambda>bits. put_at (pos div 8 + 1) (NOT a) bits))"

definition set16 :: "nat \<Rightarrow> bitvec \<Rightarrow> bitvec res" where
  "set16 pos bits =
     (let a = push_bit (pos mod 8) (0xFF :: byte) in
      rbind (or_at (pos div 8) a bits) (\<lambda>bits.
      rbind (put_at (pos div 8 + 1) 0xFF bits) (\<lambda>bits.
        put_at (pos div 8 + 2) (NOT a) bits)))"

definition codeSegment :: "bitvec \<Rightarrow> nat \<Rightarrow> bool res" where
  "codeSegment bits pos = rbind (gindex bits (pos div 8)) (\<lambda>x. Ok (drop_bit (pos mod 8) x AND 1 = 0))"

text \<open>The two inner loops over the number of push bytes that are left.\<close>

fun push16_loop :: "nat \<Rightarrow> nat \<Rightarrow> bitvec \<Rightarrow> (nat \<times> nat \<times> bitvec) res" where
  "push16_loop numbits pc bits =
     (if numbits \<ge> 16 then rbind (set16 pc bits) (\<lambda>bits. push16_loop (numbits - 16) (pc + 16) bits)
      else Ok (numbits, pc, bits))"

fun push8_loop :: "nat \<Rightarrow> nat \<Rightarrow> bitvec \<Rightarrow> (nat \<times> nat \<times> bitvec) res" where
  "push8_loop numbits pc bits =
     (if numbits \<ge> 8 then rbind (set8 pc bits) (\<lambda>bits. push8_loop (numbits - 8) (pc + 8) bits)
      else Ok (numbits, pc, bits))"

declare push16_loop.simps [simp del, model_simps] push8_loop.simps [simp del, model_simps]

definition push_rest :: "nat \<Rightarrow> nat \<Rightarrow> bitvec \<Rightarrow> (nat \<times> bitvec) res" where
  "push_rest numbits pc bits =
     (if numbits = 1 then rbind (set1 pc bits) (\<lambda>bits. Ok (pc + 1, bits))
      else if numbits = 2 then rbind (setN set2BitsMask pc bits) (\<lambda>bits. Ok (pc + 2, bits))
      else if numbits = 3 then rbind (setN set3BitsMask pc bits) (\<lambda>bits. Ok (pc + 3, bits))
      else if numbits = 4 then rbind (setN set4BitsMask pc bits) (\<lambda>bits. Ok (pc + 4, bits))
      else if numbits = 5 then rbind (setN set5BitsMask pc bits) (\<lambda>bits. Ok (pc + 5, bits))
      else if numbits = 6 then rbind (setN set6BitsMask pc bits) (\<lambda>bits. Ok (pc + 6, bits))
      else if numbits = 7 then rbind (setN set7BitsMask pc bits) (\<lambda>bits. Ok (pc + 7, bits))
      else Ok (pc, bits))"

text \<open>One round of the scan: the push data after the opcode at \<^verbatim>\<open>pc - 1\<close>.\<close>

definition scan_push :: "byte \<Rightarrow> nat \<Rightarrow> bitvec \<Rightarrow> (nat \<times> bitvec) res" where
  "scan_push op pc bits =
     (if sint op < sint OP_PUSH1 then Ok (pc, bits)
      else let numbits = unat (op - OP_PUSH1 + 1) in
        if numbits \<ge> 8 then
          rbind (push16_loop numbits pc bits) (\<lambda>(n, pc, bits).
          rbind (push8_loop n pc bits) (\<lambda>(n, pc, bits). push_rest n pc bits))
        else push_rest numbits pc bits)"

text \<open>The scan of the code from position \<open>pc\<close>; each round consumes at least one byte of fuel.\<close>

fun codeBitmap_loop :: "nat \<Rightarrow> bytes \<Rightarrow> nat \<Rightarrow> bitvec \<Rightarrow> bitvec res" where
  "codeBitmap_loop fuel code pc bits =
     (if pc < length code then
        (case fuel of
           0 \<Rightarrow> NoFuel
         | Suc fuel' \<Rightarrow> rbind (scan_push (code ! pc) (pc + 1) bits)
             (\<lambda>(pc, bits). codeBitmap_loop fuel' code pc bits))
      else Ok bits)"

declare codeBitmap_loop.simps [simp del, model_simps]

definition codeBitmapInternal :: "bytes \<Rightarrow> bitvec \<Rightarrow> bitvec res" where
  "codeBitmapInternal code bits = codeBitmap_loop (length code) code 0 bits"

definition codeBitmap :: "bytes \<Rightarrow> bitvec res" where
  "codeBitmap code = codeBitmapInternal code (replicate (length code div 8 + 1 + 4) 0)"

section \<open>Contracts (core/vm/contract.go)\<close>

text \<open>
  The map of cached analyses is shared by reference between a contract and the contracts it
  calls: \<^verbatim>\<open>jumpdests\<close> of a contract is the number of its map in a store of maps.
\<close>

type_synonym jumpdest_store = "(hash \<rightharpoonup> bitvec) list"

record Contract =
  CallerAddress :: address
  self :: address
  jumpdests :: nat
  analysis :: "bitvec option"
  Code :: bytes
  CodeHash :: hash
  CodeAddr :: "address option"
  cInput :: bytes
  Gas :: u64
  cvalue :: "int option"

text \<open>
  A reference to the caller is a plain account or a contract. The code reads of it only the
  address and, for a contract, the fields of the contract at the time of the call.
\<close>

datatype ContractRef = AccountRef address | ContractObj Contract

definition ContractRef_Address :: "ContractRef \<Rightarrow> address" where
  "ContractRef_Address r = (case r of AccountRef a \<Rightarrow> a | ContractObj c \<Rightarrow> self c)"

definition NewContract ::
  "ContractRef \<Rightarrow> address \<Rightarrow> int option \<Rightarrow> u64 \<Rightarrow> jumpdest_store \<Rightarrow> Contract \<times> jumpdest_store" where
  "NewContract caller obj val gas js =
     (let (j, js') = (case caller of ContractObj p \<Rightarrow> (jumpdests p, js)
                                   | AccountRef _ \<Rightarrow> (length js, js @ [Map.empty]))
      in (\<lparr>CallerAddress = ContractRef_Address caller, self = obj, jumpdests = j, analysis = None,
           Code = [], CodeHash = 0, CodeAddr = None, cInput = [], Gas = gas, cvalue = val\<rparr>, js'))"

definition isCode :: "Contract \<Rightarrow> jumpdest_store \<Rightarrow> nat \<Rightarrow> (bool \<times> Contract \<times> jumpdest_store) res" where
  "isCode c js udest =
     (case analysis c of
        Some a \<Rightarrow> rbind (codeSegment a udest) (\<lambda>r. Ok (r, c, js))
      | None \<Rightarrow>
          (if CodeHash c \<noteq> 0 then
             rbind (gindex js (jumpdests c)) (\<lambda>m.
             rbind (case m (CodeHash c) of
                      Some a \<Rightarrow> Ok (a, js)
                    | None \<Rightarrow> rbind (codeBitmap (Code c))
                        (\<lambda>a. Ok (a, js[jumpdests c := m(CodeHash c \<mapsto> a)])))
               (\<lambda>(a, js). rbind (codeSegment a udest) (\<lambda>r. Ok (r, c\<lparr>analysis := Some a\<rparr>, js))))
           else
             rbind (codeBitmap (Code c)) (\<lambda>a.
             rbind (codeSegment a udest) (\<lambda>r. Ok (r, c\<lparr>analysis := Some a\<rparr>, js)))))"

definition validJumpdest :: "Contract \<Rightarrow> jumpdest_store \<Rightarrow> u256 \<Rightarrow> (bool \<times> Contract \<times> jumpdest_store) res" where
  "validJumpdest c js dest =
     (let (udest, overflow) = Uint64WithOverflow dest in
      if overflow \<or> udest \<ge> of_nat (length (Code c)) then Ok (False, c, js)
      else rbind (gindex (Code c) (unat udest)) (\<lambda>op.
        if op \<noteq> OP_JUMPDEST then Ok (False, c, js) else isCode c js (unat udest)))"

definition AsDelegate :: "ContractRef \<Rightarrow> Contract \<Rightarrow> Contract res" where
  "AsDelegate caller c =
     (case caller of
        AccountRef _ \<Rightarrow> Panic
      | ContractObj p \<Rightarrow> Ok (c\<lparr>CallerAddress := CallerAddress p, cvalue := cvalue p\<rparr>))"

definition GetOp :: "Contract \<Rightarrow> u64 \<Rightarrow> byte" where
  "GetOp c n = (if n < of_nat (length (Code c)) then Code c ! unat n else OP_STOP)"

definition UseGas :: "u64 \<Rightarrow> Contract \<Rightarrow> bool \<times> Contract" where
  "UseGas gas c = (if Gas c < gas then (False, c) else (True, c\<lparr>Gas := Gas c - gas\<rparr>))"

definition SetCallCode :: "address \<Rightarrow> hash \<Rightarrow> bytes \<Rightarrow> Contract \<Rightarrow> Contract" where
  "SetCallCode addr h code c = c\<lparr>Code := code, CodeHash := h, CodeAddr := Some addr\<rparr>"

definition SetCodeOptionalHash :: "address \<Rightarrow> bytes \<times> hash \<Rightarrow> Contract \<Rightarrow> Contract" where
  "SetCodeOptionalHash addr ch c = c\<lparr>Code := fst ch, CodeHash := snd ch, CodeAddr := Some addr\<rparr>"

section \<open>The bitmap marks the push data\<close>

text \<open>The reference: scanning from the left, \<open>k\<close> bytes of push data are still to come.\<close>

definition push_len :: "byte \<Rightarrow> nat" where
  "push_len b = (if 0x60 \<le> b \<and> b \<le> 0x7F then unat b - 0x5F else 0)"

fun data_marks :: "nat \<Rightarrow> bytes \<Rightarrow> bool list" where
  "data_marks k [] = []"
| "data_marks 0 (b # bs) = False # data_marks (push_len b) bs"
| "data_marks (Suc k) (b # bs) = True # data_marks k bs"

definition bit_at :: "bitvec \<Rightarrow> nat \<Rightarrow> bool" where
  "bit_at bits p = (p div 8 < length bits \<and> bit (bits ! (p div 8)) (p mod 8))"

definition sets_bits :: "nat \<Rightarrow> nat \<Rightarrow> bitvec \<Rightarrow> bitvec \<Rightarrow> bool" where
  "sets_bits pos k bits bits' \<longleftrightarrow> length bits' = length bits \<and>
     (\<forall>p. bit_at bits' p \<longleftrightarrow> bit_at bits p \<or> pos \<le> p \<and> p < pos + k)"

definition clear_from :: "nat \<Rightarrow> bitvec \<Rightarrow> bool" where
  "clear_from pos bits \<longleftrightarrow> (\<forall>p. bit_at bits p \<longrightarrow> p < pos)"

lemma pos_split: "p = 8 * (p div 8) + p mod (8::nat)"
  by simp

lemma or_at_Ok: "i < length bits \<Longrightarrow> or_at i b bits = Ok (bits[i := bits ! i OR b])"
  by (simp add: or_at_def gindex_def)

lemma put_at_Ok: "i < length bits \<Longrightarrow> put_at i b bits = Ok (bits[i := b])"
  by (simp add: put_at_def gindex_def)

lemma ones_mask: "(0xFF :: byte) = mask 8"
  by (simp add: mask_eq_exp_minus_1)

lemma bit_mask_byte: "n < 8 \<Longrightarrow> bit (push_bit r (0xFF :: byte)) n \<longleftrightarrow> r \<le> n"
  unfolding ones_mask by (auto simp: bit_push_bit_iff bit_mask_iff)

lemma bit_ones: "n < 8 \<Longrightarrow> bit (0xFF :: byte) n"
  unfolding ones_mask by (simp add: bit_mask_iff)

lemma set1_sets:
  assumes "pos div 8 < length bits"
  shows "\<exists>bits'. set1 pos bits = Ok bits' \<and> sets_bits pos 1 bits bits'"
proof -
  let ?q = "pos div 8"
  let ?b = "bits[?q := bits ! ?q OR push_bit (pos mod 8) 1]"
  have "set1 pos bits = Ok ?b"
    using assms by (simp add: set1_def or_at_Ok)
  moreover have "bit_at ?b p \<longleftrightarrow> bit_at bits p \<or> pos \<le> p \<and> p < pos + 1" for p
  proof (cases "p div 8 = ?q")
    case True
    have m: "p mod 8 < 8" "pos mod 8 < 8" by simp_all
    with True have "pos \<le> p \<and> p < pos + 1 \<longleftrightarrow> p mod 8 = pos mod 8"
      using pos_split [of p] pos_split [of pos] by linarith
    moreover have "bit (push_bit (pos mod 8) 1 :: byte) (p mod 8) \<longleftrightarrow> p mod 8 = pos mod 8"
      using m by (auto simp: bit_exp_iff possible_bit_word)
    ultimately show ?thesis
      using True assms by (simp add: bit_at_def nth_list_update bit_or_iff)
  next
    case False
    then have "p \<noteq> pos" by auto
    then show ?thesis using False by (auto simp: bit_at_def nth_list_update)
  qed
  ultimately show ?thesis by (simp add: sets_bits_def)
qed

lemma set8_sets:
  assumes "pos div 8 + 1 < length bits" "clear_from pos bits"
  shows "\<exists>bits'. set8 pos bits = Ok bits' \<and> sets_bits pos 8 bits bits'"
proof -
  let ?a = "push_bit (pos mod 8) (0xFF :: byte)" and ?q = "pos div 8"
  let ?b = "bits[?q := bits ! ?q OR ?a, ?q + 1 := NOT ?a]"
  have "set8 pos bits = Ok ?b"
    using assms(1) by (simp add: set8_def Let_def or_at_Ok put_at_Ok)
  moreover have "bit_at ?b p \<longleftrightarrow> bit_at bits p \<or> pos \<le> p \<and> p < pos + 8" for p
  proof -
    have m: "p mod 8 < 8" "pos mod 8 < 8" by simp_all
    consider (a) "p div 8 = ?q" | (b) "p div 8 = ?q + 1" | (c) "p div 8 \<noteq> ?q" "p div 8 \<noteq> ?q + 1" by blast
    then show ?thesis
    proof cases
      case a
      then have "pos \<le> p \<longleftrightarrow> pos mod 8 \<le> p mod 8" "p < pos + 8"
        using pos_split [of p] pos_split [of pos] m by linarith+
      then show ?thesis
        using a assms(1) m by (simp add: bit_at_def nth_list_update bit_or_iff bit_mask_byte)
    next
      case b
      then have "p < pos + 8 \<longleftrightarrow> p mod 8 < pos mod 8" "pos \<le> p"
        using pos_split [of p] pos_split [of pos] m by linarith+
      moreover have "\<not> bit_at bits p" using assms(2) \<open>pos \<le> p\<close> by (auto simp: clear_from_def)
      ultimately show ?thesis
        using b assms(1) m by (auto simp: bit_at_def nth_list_update bit_not_iff bit_mask_byte)
    next
      case c
      then have "\<not> (pos \<le> p \<and> p < pos + 8)"
        using pos_split [of p] pos_split [of pos] m by auto
      then show ?thesis
        using c by (auto simp: bit_at_def nth_list_update)
    qed
  qed
  ultimately show ?thesis by (simp add: sets_bits_def)
qed

lemma set16_sets:
  assumes "pos div 8 + 2 < length bits" "clear_from pos bits"
  shows "\<exists>bits'. set16 pos bits = Ok bits' \<and> sets_bits pos 16 bits bits'"
proof -
  let ?a = "push_bit (pos mod 8) (0xFF :: byte)" and ?q = "pos div 8"
  let ?b = "bits[?q := bits ! ?q OR ?a, ?q + 1 := 0xFF, ?q + 2 := NOT ?a]"
  have "set16 pos bits = Ok ?b"
    using assms(1) by (simp add: set16_def Let_def or_at_Ok put_at_Ok)
  moreover have "bit_at ?b p \<longleftrightarrow> bit_at bits p \<or> pos \<le> p \<and> p < pos + 16" for p
  proof -
    have m: "p mod 8 < 8" "pos mod 8 < 8" by simp_all
    consider (a) "p div 8 = ?q" | (m) "p div 8 = ?q + 1" | (b) "p div 8 = ?q + 2"
      | (c) "p div 8 \<noteq> ?q" "p div 8 \<noteq> ?q + 1" "p div 8 \<noteq> ?q + 2" by blast
    then show ?thesis
    proof cases
      case a
      then have "pos \<le> p \<longleftrightarrow> pos mod 8 \<le> p mod 8" "p < pos + 16"
        using pos_split [of p] pos_split [of pos] m by linarith+
      then show ?thesis
        using a assms(1) m by (simp add: bit_at_def nth_list_update bit_or_iff bit_mask_byte)
    next
      case m
      then have "p < pos + 16" "pos \<le> p"
        using pos_split [of p] pos_split [of pos] \<open>p mod 8 < 8\<close> \<open>pos mod 8 < 8\<close> by linarith+
      then show ?thesis
        using m assms(1) bit_ones [of "p mod 8"] by (simp add: bit_at_def nth_list_update)
    next
      case b
      then have "p < pos + 16 \<longleftrightarrow> p mod 8 < pos mod 8" "pos \<le> p"
        using pos_split [of p] pos_split [of pos] m by linarith+
      moreover have "\<not> bit_at bits p" using assms(2) \<open>pos \<le> p\<close> by (auto simp: clear_from_def)
      ultimately show ?thesis
        using b assms(1) m by (auto simp: bit_at_def nth_list_update bit_not_iff bit_mask_byte)
    next
      case c
      then have "\<not> (pos \<le> p \<and> p < pos + 16)"
        using pos_split [of p] pos_split [of pos] m by auto
      then show ?thesis
        using c by (auto simp: bit_at_def nth_list_update)
    qed
  qed
  ultimately show ?thesis by (simp add: sets_bits_def)
qed

lemma setN_sets_wide:
  assumes "pos div 8 + 1 < length bits" "clear_from pos bits" "k \<le> 8"
  shows "\<exists>bits'. setN (mask k) pos bits = Ok bits' \<and> sets_bits pos k bits bits'"
proof -
  let ?a = "push_bit (pos mod 8) (mask k) :: 16 word" and ?q = "pos div 8"
  let ?lo = "ucast ?a :: byte" and ?hi = "ucast (drop_bit 8 ?a) :: byte"
  have lo: "bit ?lo n \<longleftrightarrow> pos mod 8 \<le> n \<and> n < pos mod 8 + k" if "n < 8" for n
    using that by (auto simp: bit_simps)
  have hi: "bit ?hi n \<longleftrightarrow> n + 8 < pos mod 8 + k" if "n < 8" for n
    using that assms(3) by (auto simp: bit_simps)
  define b1 where "b1 = bits[?q := bits ! ?q OR ?lo]"
  define b2 where "b2 = b1[?q + 1 := ?hi]"
  have "bit_at b2 p \<longleftrightarrow> bit_at bits p \<or> pos \<le> p \<and> p < pos + k" for p
  proof -
    have m: "p mod 8 < 8" "pos mod 8 < 8" by simp_all
    consider (a) "p div 8 = ?q" | (b) "p div 8 = ?q + 1" | (c) "p div 8 \<noteq> ?q" "p div 8 \<noteq> ?q + 1" by blast
    then show ?thesis
    proof cases
      case a
      then have "pos \<le> p \<longleftrightarrow> pos mod 8 \<le> p mod 8" "p < pos + k \<longleftrightarrow> p mod 8 < pos mod 8 + k"
        using pos_split [of p] pos_split [of pos] m by linarith+
      then show ?thesis
        using a assms(1) m by (simp add: b1_def b2_def bit_at_def nth_list_update bit_or_iff lo)
    next
      case b
      then have "p < pos + k \<longleftrightarrow> p mod 8 + 8 < pos mod 8 + k" "pos \<le> p"
        using pos_split [of p] pos_split [of pos] m by linarith+
      moreover have "\<not> bit_at bits p" using assms(2) \<open>pos \<le> p\<close> by (auto simp: clear_from_def)
      ultimately show ?thesis
        using b assms(1) m by (auto simp: b1_def b2_def bit_at_def nth_list_update hi)
    next
      case c
      then have "\<not> (pos \<le> p \<and> p < pos + k)"
        using pos_split [of p] pos_split [of pos] m assms(3) by auto
      then show ?thesis
        using c by (auto simp: b1_def b2_def bit_at_def nth_list_update)
    qed
  qed
  moreover have "b1 = b2" if "?hi = 0"
  proof -
    have "bits ! (?q + 1) = 0"
    proof (rule bit_eqI)
      fix n
      assume "possible_bit TYPE(byte) n"
      then have n: "n < 8" by (simp add: possible_bit_word)
      have "8 * (?q + 1) + n \<ge> pos" using pos_split [of pos] by simp
      then have "\<not> bit_at bits (8 * (?q + 1) + n)" using assms(2) by (auto simp: clear_from_def)
      moreover have "(8 * (?q + 1) + n) div 8 = ?q + 1" "(8 * (?q + 1) + n) mod 8 = n"
        using n mod_mult_self4 [of 8 "?q + 1" n] by (simp_all del: mult_Suc_right add: div_mult_self4)
      ultimately show "bit (bits ! (?q + 1)) n = bit (0 :: byte) n"
        using assms(1) by (simp add: bit_at_def)
    qed
    then have "b1 ! (?q + 1) = ?hi" using that by (simp add: b1_def)
    then show ?thesis using list_update_id [of b1 "?q + 1"] by (simp add: b2_def)
  qed
  moreover have "setN (mask k) pos bits = Ok (if ?hi \<noteq> 0 then b2 else b1)"
    using assms(1) by (simp add: setN_def Let_def or_at_Ok put_at_Ok b1_def b2_def)
  moreover have "length b2 = length bits" by (simp add: b1_def b2_def)
  ultimately show ?thesis by (auto simp: sets_bits_def)
qed


lemma sets_clear: "sets_bits pos k bits bits' \<Longrightarrow> clear_from pos bits \<Longrightarrow> clear_from (pos + k) bits'"
  unfolding sets_bits_def clear_from_def by (meson trans_less_add1)

lemma sets_trans:
  assumes "sets_bits pos k b1 b2" "sets_bits (pos + k) l b2 b3"
  shows "sets_bits pos (k + l) b1 b3"
proof -
  have "bit_at b3 p \<longleftrightarrow> bit_at b1 p \<or> pos \<le> p \<and> p < pos + (k + l)" for p
  proof -
    have "pos \<le> p \<and> p < pos + (k + l) \<longleftrightarrow> pos \<le> p \<and> p < pos + k \<or> pos + k \<le> p \<and> p < pos + k + l"
      by linarith
    then show ?thesis using assms unfolding sets_bits_def by blast
  qed
  then show ?thesis using assms by (simp add: sets_bits_def)
qed

lemma masks: "set2BitsMask = mask 2" "set3BitsMask = mask 3" "set4BitsMask = mask 4" "set5BitsMask = mask 5"
  "set6BitsMask = mask 6" "set7BitsMask = mask 7"
  by (simp_all add: mask_eq_exp_minus_1)

lemma setN_sets:
  assumes "(pos + k) div 8 < length bits" "clear_from pos bits" "k \<le> 8"
  shows "\<exists>bits'. setN (mask k) pos bits = Ok bits' \<and> sets_bits pos k bits bits'"
proof (cases "pos div 8 + 1 < length bits")
  case True
  then show ?thesis using assms by (intro setN_sets_wide)
next
  case False
  let ?a = "push_bit (pos mod 8) (mask k) :: 16 word" and ?q = "pos div 8"
  let ?lo = "ucast ?a :: byte" and ?hi = "ucast (drop_bit 8 ?a) :: byte"
  have q: "?q < length bits" "(pos + k) div 8 = ?q"
    using assms(1) False div_le_mono [of pos "pos + k" 8] by linarith+
  then have fit: "pos mod 8 + k < 8"
    using pos_split [of "pos + k"] pos_split [of pos] mod_less_divisor [of 8 "pos + k"] by linarith
  have lo: "bit ?lo n \<longleftrightarrow> pos mod 8 \<le> n \<and> n < pos mod 8 + k" if "n < 8" for n
    using that by (auto simp: bit_simps)
  have hi: "?hi = 0"
    by (rule bit_eqI) (use fit in \<open>auto simp: bit_simps\<close>)
  let ?b = "bits[?q := bits ! ?q OR ?lo]"
  have "setN (mask k) pos bits = Ok ?b"
    using q(1) hi by (simp add: setN_def Let_def or_at_Ok)
  moreover have "bit_at ?b p \<longleftrightarrow> bit_at bits p \<or> pos \<le> p \<and> p < pos + k" for p
  proof (cases "p div 8 = ?q")
    case True
    have "p mod 8 < 8" "pos mod 8 < 8" by simp_all
    with True have "pos \<le> p \<longleftrightarrow> pos mod 8 \<le> p mod 8" "p < pos + k \<longleftrightarrow> p mod 8 < pos mod 8 + k"
      using pos_split [of p] pos_split [of pos] by linarith+
    then show ?thesis
      using True q(1) by (simp add: bit_at_def nth_list_update bit_or_iff lo)
  next
    case False
    then have "\<not> (pos \<le> p \<and> p < pos + k)"
      using q(2) div_le_mono [of pos p 8] div_le_mono [of p "pos + k" 8] by auto
    then show ?thesis using False by (auto simp: bit_at_def nth_list_update)
  qed
  ultimately show ?thesis by (simp add: sets_bits_def)
qed

lemma push_rest_sets:
  assumes "k < 8" "(pos + k) div 8 < length bits" "clear_from pos bits"
  shows "\<exists>bits'. push_rest k pos bits = Ok (pos + k, bits') \<and> sets_bits pos k bits bits'"
proof -
  have z: "sets_bits pos 0 bits bits" by (auto simp: sets_bits_def)
  have "k \<in> {0,1,2,3,4,5,6,7}" using assms(1) by auto
  then consider "k = 0" | "k = 1" | "k \<in> {2,3,4,5,6,7}" by auto
  then show ?thesis
  proof cases
    case 1
    then show ?thesis using z by (simp add: push_rest_def)
  next
    case 2
    have "pos div 8 < length bits" using assms(2) div_le_mono [of pos "pos + k" 8] by linarith
    then show ?thesis using set1_sets [of pos bits] 2 by (auto simp: push_rest_def)
  next
    case 3
    then obtain b where b: "setN (mask k) pos bits = Ok b" "sets_bits pos k bits b"
      using setN_sets [OF assms(2,3)] assms(1) by auto
    have "push_rest k pos bits = rbind (setN (mask k) pos bits) (\<lambda>bits. Ok (pos + k, bits))"
      using 3 unfolding push_rest_def masks by auto
    then show ?thesis using b by simp
  qed
qed

lemma push16_sets:
  "(pos + k) div 8 < length bits \<Longrightarrow> clear_from pos bits \<Longrightarrow>
   \<exists>bits'. push16_loop k pos bits = Ok (k mod 16, pos + (k - k mod 16), bits') \<and> sets_bits pos (k - k mod 16) bits bits'"
proof (induction k pos bits rule: push16_loop.induct)
  case (1 k pos bits)
  show ?case
  proof (cases "16 \<le> k")
    case True
    have "pos div 8 + 2 < length bits"
      using "1.prems"(1) True div_le_mono [of "pos + 16" "pos + k" 8] by simp
    then obtain b where b: "set16 pos bits = Ok b" "sets_bits pos 16 bits b"
      using set16_sets "1.prems"(2) by blast
    have "(pos + 16 + (k - 16)) div 8 < length b"
      using "1.prems"(1) True b(2) by (simp add: sets_bits_def)
    then obtain b' where b': "push16_loop (k - 16) (pos + 16) b
        = Ok ((k - 16) mod 16, pos + 16 + (k - 16 - (k - 16) mod 16), b')"
      "sets_bits (pos + 16) (k - 16 - (k - 16) mod 16) b b'"
      using "1.IH" [OF True b(1)] sets_clear [OF b(2) "1.prems"(2)] by blast
    have m: "(k - 16) mod 16 = k mod 16" using True by (simp add: mod_if [of k])
    have l: "k mod 16 \<le> k - 16" using m mod_less_eq_dividend [of "k - 16" 16] by simp
    then have "sets_bits pos (k - k mod 16) bits b'"
      using sets_trans [OF b(2) b'(2)] m True by simp
    then show ?thesis
      using True b(1) b'(1) m l by (subst push16_loop.simps) auto
  next
    case False
    then show ?thesis by (subst push16_loop.simps) (auto simp: sets_bits_def)
  qed
qed

lemma push8_sets:
  "(pos + k) div 8 < length bits \<Longrightarrow> clear_from pos bits \<Longrightarrow>
   \<exists>bits'. push8_loop k pos bits = Ok (k mod 8, pos + (k - k mod 8), bits') \<and> sets_bits pos (k - k mod 8) bits bits'"
proof (induction k pos bits rule: push8_loop.induct)
  case (1 k pos bits)
  show ?case
  proof (cases "8 \<le> k")
    case True
    have "pos div 8 + 1 < length bits"
      using "1.prems"(1) True div_le_mono [of "pos + 8" "pos + k" 8] by simp
    then obtain b where b: "set8 pos bits = Ok b" "sets_bits pos 8 bits b"
      using set8_sets "1.prems"(2) by blast
    have "(pos + 8 + (k - 8)) div 8 < length b"
      using "1.prems"(1) True b(2) by (simp add: sets_bits_def)
    then obtain b' where b': "push8_loop (k - 8) (pos + 8) b
        = Ok ((k - 8) mod 8, pos + 8 + (k - 8 - (k - 8) mod 8), b')"
      "sets_bits (pos + 8) (k - 8 - (k - 8) mod 8) b b'"
      using "1.IH" [OF True b(1)] sets_clear [OF b(2) "1.prems"(2)] by blast
    have m: "(k - 8) mod 8 = k mod 8" using True by (simp add: mod_if [of k])
    have l: "k mod 8 \<le> k - 8" using m mod_less_eq_dividend [of "k - 8" 8] by simp
    then have "sets_bits pos (k - k mod 8) bits b'"
      using sets_trans [OF b(2) b'(2)] m True by simp
    then show ?thesis
      using True b(1) b'(1) m l by (subst push8_loop.simps) auto
  next
    case False
    then show ?thesis by (subst push8_loop.simps) (auto simp: sets_bits_def)
  qed
qed

lemma push_any_sets:
  assumes "(pos + k) div 8 < length bits" "clear_from pos bits"
  shows "\<exists>bits'. (if k \<ge> 8 then rbind (push16_loop k pos bits) (\<lambda>(n, pc, bits).
        rbind (push8_loop n pc bits) (\<lambda>(n, pc, bits). push_rest n pc bits)) else push_rest k pos bits)
      = Ok (pos + k, bits') \<and> sets_bits pos k bits bits'"
proof (cases "k \<ge> 8")
  case True
  let ?i = "k - k mod 16" and ?j = "k mod 16 - k mod 16 mod 8"
  have le: "k mod 16 \<le> k" "k mod 16 mod 8 \<le> k mod 16" by simp_all
  obtain b1 where b1: "push16_loop k pos bits = Ok (k mod 16, pos + ?i, b1)" "sets_bits pos ?i bits b1"
    using push16_sets [OF assms] by blast
  have c1: "clear_from (pos + ?i) b1" by (rule sets_clear [OF b1(2) assms(2)])
  have "(pos + ?i + k mod 16) div 8 < length b1" using assms(1) b1(2) le by (simp add: sets_bits_def)
  then obtain b2 where b2: "push8_loop (k mod 16) (pos + ?i) b1 = Ok (k mod 16 mod 8, pos + ?i + ?j, b2)"
    "sets_bits (pos + ?i) ?j b1 b2"
    using push8_sets [OF _ c1] by blast
  have c2: "clear_from (pos + ?i + ?j) b2" by (rule sets_clear [OF b2(2) c1])
  have e: "pos + ?i + ?j + k mod 16 mod 8 = pos + k" using le by linarith
  then have "(pos + ?i + ?j + k mod 16 mod 8) div 8 < length b2"
    using assms(1) b1(2) b2(2) by (simp only: sets_bits_def)
  then obtain b3 where b3: "push_rest (k mod 16 mod 8) (pos + ?i + ?j) b2 = Ok (pos + ?i + ?j + k mod 16 mod 8, b3)"
    "sets_bits (pos + ?i + ?j) (k mod 16 mod 8) b2 b3"
    using push_rest_sets [OF _ _ c2, of "k mod 16 mod 8"] by auto
  have "sets_bits pos k bits b3"
    using sets_trans [OF b1(2) sets_trans [OF b2(2) b3(2)]] le by simp
  then show ?thesis using True b1(1) b2(1) b3(1) e by simp
next
  case False
  then show ?thesis using push_rest_sets [OF _ assms] by simp
qed


lemma sint_byte: "sint (b :: byte) = (if uint b < 128 then uint b else uint b - 256)"
proof -
  have "sint b = (uint b + 128) mod 256 - 128"
    using int_word_sint [of "uint b", where ?'a = 8] by simp
  moreover have "0 \<le> uint b" by simp
  moreover have "uint b < 256" by (rule order_less_le_trans [OF unsigned_less]) simp
  moreover have "(u + 128) mod 256 - 128 = (if u < 128 then u else u - 256)" if "0 \<le> u" "u < 256" for u :: int
    using that mod_add_self2 [of "u - 128" 256] by (cases "u < 128") (simp_all add: add.commute)
  ultimately show ?thesis by simp
qed

lemma sint_lt_push: "sint (op :: byte) < sint OP_PUSH1 \<longleftrightarrow> push_len op = 0"
proof -
  define n where "n = unat op"
  have "uint op = int n" by (simp add: n_def)
  then have "sint op = (if n < 128 then int n else int n - 256)" by (simp add: sint_byte)
  moreover have "n < 256" unfolding n_def by (rule order_less_le_trans [OF unsigned_less]) simp
  moreover have "push_len op = 0 \<longleftrightarrow> \<not> (96 \<le> n \<and> n \<le> 127)"
    by (simp add: push_len_def word_le_nat_alt n_def)
  moreover have "sint OP_PUSH1 = 96" by simp
  ultimately show ?thesis by (simp only: split: if_split) linarith
qed

lemma unat_numbits: "push_len op \<noteq> 0 \<Longrightarrow> unat (op - OP_PUSH1 + 1) = push_len op"
proof -
  assume "push_len op \<noteq> 0"
  then have r: "96 \<le> unat op" "unat op \<le> 127" "push_len op = unat op - 95"
    by (auto simp: push_len_def word_le_nat_alt split: if_splits)
  have "unat (op - 95) = unat op - 95"
    using r by (subst unat_sub) (auto simp: word_le_nat_alt)
  then show ?thesis using r by simp
qed

lemma push_len_le: "push_len op \<le> 32"
  by (auto simp: push_len_def word_le_nat_alt)

lemma scan_push_sets:
  assumes "(pos + 32) div 8 < length bits" "clear_from pos bits"
  shows "\<exists>bits'. scan_push op pos bits = Ok (pos + push_len op, bits') \<and> sets_bits pos (push_len op) bits bits'"
proof (cases "push_len op = 0")
  case True
  then have sl: "sint op < sint OP_PUSH1" by (simp only: sint_lt_push)
  show ?thesis unfolding scan_push_def if_P [OF sl] using True by (auto simp: sets_bits_def)
next
  case False
  have "(pos + push_len op) div 8 < length bits"
    using assms(1) div_le_mono [of "pos + push_len op" "pos + 32" 8] push_len_le [of op] by linarith
  from push_any_sets [OF this assms(2)] show ?thesis
    unfolding scan_push_def Let_def unat_numbits [OF False] sint_lt_push if_not_P [OF False] .
qed

lemma length_data_marks [simp]: "length (data_marks k bs) = length bs"
  by (induction k bs rule: data_marks.induct) auto

lemma data_marks_replicate:
  "data_marks k bs = replicate (min k (length bs)) True @ data_marks 0 (drop k bs)"
  by (induction k bs rule: data_marks.induct) auto

lemma data_marks_step:
  assumes "pc < length code" "drop pc (data_marks 0 code) = data_marks 0 (drop pc code)"
  shows "drop pc (data_marks 0 code) =
     False # replicate (min (push_len (code ! pc)) (length code - Suc pc)) True
       @ data_marks 0 (drop (pc + 1 + push_len (code ! pc)) code)"
proof -
  have "drop pc code = code ! pc # drop (Suc pc) code"
    using assms(1) by (rule Cons_nth_drop_Suc [symmetric])
  then show ?thesis
    using assms(2) data_marks_replicate [of "push_len (code ! pc)" "drop (Suc pc) code"]
    by (simp add: add.commute)
qed

definition marks_agree :: "bytes \<Rightarrow> nat \<Rightarrow> bitvec \<Rightarrow> bool" where
  "marks_agree code pc bits \<longleftrightarrow> clear_from pc bits \<and>
     (\<forall>p < min pc (length code). bit_at bits p = data_marks 0 code ! p) \<and>
     (pc < length code \<longrightarrow> drop pc (data_marks 0 code) = data_marks 0 (drop pc code))"

lemma marks_agree_step:
  assumes "marks_agree code pc bits" "pc < length code"
    "sets_bits (pc + 1) (push_len (code ! pc)) bits bits'"
  shows "marks_agree code (pc + 1 + push_len (code ! pc)) bits'"
proof -
  let ?l = "push_len (code ! pc)" and ?m = "data_marks 0 code"
  have d: "drop pc ?m = False # replicate (min ?l (length code - Suc pc)) True @ data_marks 0 (drop (pc + 1 + ?l) code)"
    using assms(1,2) by (intro data_marks_step) (auto simp: marks_agree_def)
  have nth: "?m ! (pc + i) = (False # replicate (min ?l (length code - Suc pc)) True @ data_marks 0 (drop (pc + 1 + ?l) code)) ! i"
    if "pc + i < length code" for i
    using d that by (metis length_data_marks less_imp_le_nat add_leD1 nth_drop)
  have "clear_from (pc + 1 + ?l) bits'"
    using assms(1,3) by (intro sets_clear [OF assms(3)]) (auto simp: marks_agree_def clear_from_def)
  moreover have "bit_at bits' p = ?m ! p" if p: "p < min (pc + 1 + ?l) (length code)" for p
  proof -
    have b: "bit_at bits' p \<longleftrightarrow> bit_at bits p \<or> pc + 1 \<le> p \<and> p < pc + 1 + ?l"
      using assms(3) by (simp add: sets_bits_def)
    consider "p < pc" | "p = pc" | i where "p = pc + Suc i" by (metis less_imp_Suc_add linorder_neqE_nat add_Suc_right)
    then show ?thesis
    proof cases
      case 1
      then show ?thesis using b assms(1) p by (simp add: marks_agree_def)
    next
      case 2
      then show ?thesis using b assms(1) p nth [of 0] by (auto simp: marks_agree_def clear_from_def)
    next
      case 3
      then have "i < min ?l (length code - Suc pc)" using p by auto
      then show ?thesis using b p 3 nth [of "Suc i"] by (simp add: nth_append)
    qed
  qed
  moreover have "drop (pc + 1 + ?l) ?m = data_marks 0 (drop (pc + 1 + ?l) code)" if "pc + 1 + ?l < length code"
  proof -
    have "drop (pc + 1 + ?l) ?m = drop (Suc ?l) (drop pc ?m)" by (simp add: add.commute)
    then show ?thesis using d that by simp
  qed
  ultimately show ?thesis by (simp add: marks_agree_def)
qed

lemma codeBitmap_loop_agree:
  assumes "marks_agree code pc bits" "length code \<le> pc + fuel" "length code div 8 + 4 < length bits"
  shows "\<exists>bits'. codeBitmap_loop fuel code pc bits = Ok bits' \<and>
    (\<forall>p < length code. bit_at bits' p = data_marks 0 code ! p) \<and> length bits' = length bits"
  using assms
proof (induction fuel arbitrary: pc bits)
  case 0
  then show ?case by (subst codeBitmap_loop.simps) (auto simp: marks_agree_def)
next
  case (Suc n)
  show ?case
  proof (cases "pc < length code")
    case True
    have "(pc + 1 + 32) div 8 < length bits"
      using Suc.prems(3) True div_le_mono [of "pc + 1 + 32" "length code + 32" 8] by simp
    moreover have "clear_from (pc + 1) bits"
      using Suc.prems(1) by (auto simp: marks_agree_def clear_from_def)
    ultimately obtain b where b: "scan_push (code ! pc) (pc + 1) bits = Ok (pc + 1 + push_len (code ! pc), b)"
      "sets_bits (pc + 1) (push_len (code ! pc)) bits b"
      using scan_push_sets by blast
    have "length b = length bits" using b(2) by (simp add: sets_bits_def)
    then show ?thesis
      using Suc.IH [OF marks_agree_step [OF Suc.prems(1) True b(2)]] Suc.prems(2,3) True b(1)
      by (subst codeBitmap_loop.simps) auto
  next
    case False
    then show ?thesis
      using Suc.prems(1) by (subst codeBitmap_loop.simps) (auto simp: marks_agree_def)
  qed
qed

lemma codeBitmap_marks:
  "\<exists>bits. codeBitmap code = Ok bits \<and> length bits = length code div 8 + 5 \<and>
     (\<forall>p < length code. bit_at bits p = data_marks 0 code ! p)"
proof -
  have "marks_agree code 0 (replicate (length code div 8 + 5) 0)"
    by (auto simp: marks_agree_def clear_from_def bit_at_def)
  then show ?thesis
    using codeBitmap_loop_agree [of code 0 "replicate (length code div 8 + 5) 0" "length code"]
    by (auto simp: codeBitmap_def codeBitmapInternal_def add.commute [of 5])
qed

lemma codeSegment_bit_at:
  assumes "pos div 8 < length bits"
  shows "codeSegment bits pos = Ok (\<not> bit_at bits pos)"
proof -
  have "x AND 1 = 0 \<longleftrightarrow> even x" for x :: byte
    by (simp add: and_one_eq even_iff_mod_2_eq_zero)
  then show ?thesis
    using assms by (simp add: codeSegment_def bit_at_def gindex_def bit_iff_odd_drop_bit)
qed

lemma codeBitmap_lookup:
  "\<exists>bits. codeBitmap code = Ok bits \<and>
     (\<forall>p < length code. codeSegment bits p = Ok (\<not> data_marks 0 code ! p))"
proof -
  obtain bits where b: "codeBitmap code = Ok bits" "length bits = length code div 8 + 5"
    "\<forall>p < length code. bit_at bits p = data_marks 0 code ! p"
    using codeBitmap_marks by blast
  have "p div 8 < length bits" if "p < length code" for p
    using that b(2) div_le_mono [of p "length code" 8] by linarith
  then show ?thesis using b by (simp add: codeSegment_bit_at)
qed

text \<open>
  C33: the jump destination analysis agrees with a left-to-right reading of the code. The
  packed bit vector, filled sixteen and eight bits at a time with overlapping stores, is built
  without a panic, and looking up any position of the code in it says that the position is an
  opcode exactly when it is not among the push data of an earlier push.
\<close>

theorem codeBitmap_correct:
  "\<exists>bits. codeBitmap code = Ok bits \<and>
     (\<forall>p < length code. codeSegment bits p = Ok (\<not> data_marks 0 code ! p))"
  by (rule codeBitmap_lookup)

theorem codeBitmap_correct_witness:
  "\<exists>bits. codeBitmap [0x60, 0x5B, 0x5B] = Ok bits \<and>
     codeSegment bits 1 = Ok False \<and> codeSegment bits 2 = Ok True"
  using codeBitmap_correct [of "[0x60, 0x5B, 0x5B]"] by (auto simp: push_len_def)

section \<open>Valid jump destinations\<close>

text \<open>The cached analyses belong to the code they are looked up for.\<close>

definition analysis_ok :: "Contract \<Rightarrow> jumpdest_store \<Rightarrow> bool" where
  "analysis_ok c js \<longleftrightarrow> jumpdests c < length js \<and>
     (case analysis c of None \<Rightarrow> True | Some a \<Rightarrow> codeBitmap (Code c) = Ok a) \<and>
     (case (js ! jumpdests c) (CodeHash c) of None \<Rightarrow> True | Some a \<Rightarrow> codeBitmap (Code c) = Ok a)"

text \<open>
  C34: a jump destination is accepted exactly when it lies inside the code, holds the opcode
  \<^verbatim>\<open>JUMPDEST\<close> and is not push data. The answer never panics, it does not depend on which of the
  caches (the contract's own analysis, the map shared with its callers, or neither) is hit,
  and the caches stay consistent with the code.
\<close>

theorem validJumpdest_correct:
  assumes "analysis_ok c js" "length (Code c) < 2 ^ 64"
  shows "\<exists>c' js'. validJumpdest c js dest = Ok
      (unat dest < length (Code c) \<and> Code c ! unat dest = OP_JUMPDEST \<and> \<not> data_marks 0 (Code c) ! unat dest, c', js')
    \<and> analysis_ok c' js' \<and> c'\<lparr>analysis := analysis c\<rparr> = c"
proof -
  obtain bits where b: "codeBitmap (Code c) = Ok bits"
    "\<And>p. p < length (Code c) \<Longrightarrow> codeSegment bits p = Ok (\<not> data_marks 0 (Code c) ! p)"
    using codeBitmap_lookup by blast
  show ?thesis
  proof (cases "IsUint64 dest \<and> Uint64 dest < of_nat (length (Code c))")
    case True
    then have u: "unat (Uint64 dest) = unat dest" and l: "unat dest < length (Code c)"
      using unat_Uint64 [of dest] assms(2) by (auto simp: word_less_nat_alt unat_of_nat_small)
    have "\<exists>c' js'. isCode c js (unat dest) = Ok (\<not> data_marks 0 (Code c) ! unat dest, c', js')
        \<and> analysis_ok c' js' \<and> c'\<lparr>analysis := analysis c\<rparr> = c"
      using assms(1) b(1) b(2) [OF l] by (auto simp: isCode_def analysis_ok_def split: option.splits)
    then show ?thesis
      using True u l assms(1) by (auto simp: validJumpdest_def Uint64WithOverflow_def gindex_def)
  next
    case False
    then have "\<not> unat dest < length (Code c)"
      using unat_Uint64 [of dest] assms(2) by (auto simp: word_less_nat_alt unat_of_nat_small IsUint64_iff)
    then show ?thesis
      using False assms(1) by (auto simp: validJumpdest_def Uint64WithOverflow_def)
  qed
qed

text \<open>\<^verbatim>\<open>PUSH1 0x5B JUMPDEST\<close>: position 1 is push data, position 2 a destination.\<close>

definition sample_contract :: Contract where
  "sample_contract = \<lparr>CallerAddress = 1, self = 2, jumpdests = 0, analysis = None,
     Code = [0x60, 0x5B, 0x5B], CodeHash = 7, CodeAddr = Some 2, cInput = [], Gas = 100, cvalue = Some 0\<rparr>"

theorem validJumpdest_correct_witness:
  "(\<exists>c js. validJumpdest sample_contract [Map.empty] 2 = Ok (True, c, js)) \<and>
   (\<exists>c js. validJumpdest sample_contract [Map.empty] 1 = Ok (False, c, js))"
  using validJumpdest_correct [of sample_contract "[Map.empty]" 2]
    validJumpdest_correct [of sample_contract "[Map.empty]" 1]
  by (auto simp: analysis_ok_def sample_contract_def push_len_def)

end
