(* ===== verification/AccessList.thy ===== *)
theory AccessList
  imports Prelude
begin

text \<open>
  The access list of EIP-2929 and EIP-2930 (core/state/access_list.go): a map from addresses to
  an index into a list of slot sets, with index -1 for an address without slots. Lookups, the two
  additions, and the two deletions the journal performs in the reverse order of the additions.
\<close>

record accessList =
  addresses :: "address \<rightharpoonup> int"
  slots :: "hash set list"

definition newAccessList :: accessList where
  "newAccessList = \<lparr>addresses = Map.empty, slots = []\<rparr>"

definition ContainsAddress :: "address \<Rightarrow> accessList \<Rightarrow> bool" where
  "ContainsAddress a al = (addresses al a \<noteq> None)"

definition Contains :: "address \<Rightarrow> hash \<Rightarrow> accessList \<Rightarrow> (bool \<times> bool) res" where
  "Contains a sl al =
     (case addresses al a of
        None \<Rightarrow> Ok (False, False)
      | Some idx \<Rightarrow>
          (if idx = -1 then Ok (True, False)
           else if idx < 0 then Panic
           else rbind (gindex (slots al) (nat idx)) (\<lambda>m. Ok (True, sl \<in> m))))"

definition al_Copy :: "accessList \<Rightarrow> accessList" where
  "al_Copy al = \<lparr>addresses = addresses al, slots = slots al\<rparr>"

definition AddAddress :: "address \<Rightarrow> accessList \<Rightarrow> bool \<times> accessList" where
  "AddAddress a al =
     (if addresses al a \<noteq> None then (False, al)
      else (True, al\<lparr>addresses := (addresses al)(a \<mapsto> -1)\<rparr>))"

definition AddSlot :: "address \<Rightarrow> hash \<Rightarrow> accessList \<Rightarrow> ((bool \<times> bool) \<times> accessList) res" where
  "AddSlot a sl al =
     (let addrPresent = (addresses al a \<noteq> None);
          idx = (case addresses al a of None \<Rightarrow> 0 | Some i \<Rightarrow> i)
      in if \<not> addrPresent \<or> idx = -1 then
           Ok ((\<not> addrPresent, True),
               \<lparr>addresses = (addresses al)(a \<mapsto> int (length (slots al))), slots = slots al @ [{sl}]\<rparr>)
         else if idx < 0 then Panic
         else rbind (gindex (slots al) (nat idx)) (\<lambda>m.
           if sl \<notin> m then Ok ((False, True), al\<lparr>slots := (slots al)[nat idx := insert sl m]\<rparr>)
           else Ok ((False, False), al)))"

definition DeleteSlot :: "address \<Rightarrow> hash \<Rightarrow> accessList \<Rightarrow> accessList res" where
  "DeleteSlot a sl al =
     (case addresses al a of
        None \<Rightarrow> Panic
      | Some idx \<Rightarrow>
          (if idx < 0 then Panic
           else rbind (gindex (slots al) (nat idx)) (\<lambda>m.
             let m' = m - {sl} in
             if m' = {} then
               Ok \<lparr>addresses = (addresses al)(a \<mapsto> -1), slots = take (nat idx) (slots al)\<rparr>
             else Ok (al\<lparr>slots := (slots al)[nat idx := m']\<rparr>))))"

definition DeleteAddress :: "address \<Rightarrow> accessList \<Rightarrow> accessList" where
  "DeleteAddress a al = al\<lparr>addresses := (addresses al)(a := None)\<rparr>"

section \<open>Deletions undo additions\<close>

text \<open>
  Every index is -1 or points to a non-empty set, and no two addresses share one.
\<close>

definition al_wf :: "accessList \<Rightarrow> bool" where
  "al_wf al \<longleftrightarrow>
     (\<forall>a i. addresses al a = Some i \<longrightarrow> i = -1 \<or> 0 \<le> i \<and> nat i < length (slots al) \<and> slots al ! nat i \<noteq> {}) \<and>
     (\<forall>a b i. addresses al a = Some i \<longrightarrow> addresses al b = Some i \<longrightarrow> i \<noteq> -1 \<longrightarrow> a = b)"

lemma al_wf_new [simp]: "al_wf newAccessList"
  by (simp add: al_wf_def newAccessList_def)

lemma al_wf_index:
  "al_wf al \<Longrightarrow> addresses al a = Some i \<Longrightarrow> i \<noteq> -1 \<Longrightarrow> 0 \<le> i \<and> nat i < length (slots al) \<and> slots al ! nat i \<noteq> {}"
  unfolding al_wf_def by blast

lemma al_wf_inj: "al_wf al \<Longrightarrow> addresses al a = Some i \<Longrightarrow> addresses al b = Some i \<Longrightarrow> i \<noteq> -1 \<Longrightarrow> a = b"
  unfolding al_wf_def by blast

lemma al_wfI:
  assumes "\<And>a i. addresses al a = Some i \<Longrightarrow> i \<noteq> -1 \<Longrightarrow> 0 \<le> i \<and> nat i < length (slots al) \<and> slots al ! nat i \<noteq> {}"
    "\<And>a b i. addresses al a = Some i \<Longrightarrow> addresses al b = Some i \<Longrightarrow> i \<noteq> -1 \<Longrightarrow> a = b"
  shows "al_wf al"
  using assms unfolding al_wf_def by blast

lemma AddAddress_wf: "al_wf al \<Longrightarrow> AddAddress a al = (c, al') \<Longrightarrow> al_wf al'"
  by (rule al_wfI)
    (auto simp: AddAddress_def split: if_splits dest: al_wf_index intro: al_wf_inj)

lemma AddAddress_undo: "AddAddress a al = (True, al') \<Longrightarrow> DeleteAddress a al' = al"
  by (auto simp: AddAddress_def DeleteAddress_def fun_upd_idem split: if_splits)

text \<open>The three cases of an addition: a new index, a new slot of an old index, no change.\<close>

lemma AddSlot_cases:
  assumes "al_wf al"
  obtains (fresh) "addresses al a = None \<or> addresses al a = Some (-1)"
      "AddSlot a sl al = Ok ((addresses al a = None, True),
         \<lparr>addresses = (addresses al)(a \<mapsto> int (length (slots al))), slots = slots al @ [{sl}]\<rparr>)"
    | (old) i where "addresses al a = Some (int i)" "i < length (slots al)" "slots al ! i \<noteq> {}" "sl \<notin> slots al ! i"
      "AddSlot a sl al = Ok ((False, True), al\<lparr>slots := (slots al)[i := insert sl (slots al ! i)]\<rparr>)"
    | (present) i where "addresses al a = Some (int i)" "i < length (slots al)" "sl \<in> slots al ! i" "AddSlot a sl al = Ok ((False, False), al)"
proof (cases "addresses al a")
  case None
  then show ?thesis using fresh by (simp add: AddSlot_def)
next
  case (Some j)
  show ?thesis
  proof (cases "j = -1")
    case True
    then show ?thesis using fresh Some by (simp add: AddSlot_def)
  next
    case False
    note w = al_wf_index [OF assms Some False]
    then have j: "addresses al a = Some (int (nat j))" using Some by simp
    show ?thesis
    proof (cases "sl \<in> slots al ! nat j")
      case True
      then show ?thesis using present [OF j] Some False w by (simp add: AddSlot_def gindex_def)
    next
      case notin: False
      then show ?thesis using old [OF j] Some False w by (simp add: AddSlot_def gindex_def)
    qed
  qed
qed

lemma AddSlot_wf:
  assumes "al_wf al" "AddSlot a sl al = Ok (c, al')"
  shows "al_wf al'"
  using assms(1)
proof (cases rule: AddSlot_cases [of al a sl])
  case fresh
  then have al': "al' = \<lparr>addresses = (addresses al)(a \<mapsto> int (length (slots al))), slots = slots al @ [{sl}]\<rparr>"
    using assms(2) by simp
  show ?thesis
  proof (rule al_wfI)
    fix b i
    assume "addresses al' b = Some i" "i \<noteq> -1"
    then show "0 \<le> i \<and> nat i < length (slots al') \<and> slots al' ! nat i \<noteq> {}"
      using al_wf_index [OF assms(1), of b i] by (auto simp: al' nth_append split: if_splits)
  next
    fix b c i
    assume *: "addresses al' b = Some i" "addresses al' c = Some i" "i \<noteq> -1"
    have "addresses al d \<noteq> Some (int (length (slots al)))" for d
      using al_wf_index [OF assms(1), of d "int (length (slots al))"] by auto
    then show "b = c"
      using * al_wf_inj [OF assms(1), of b i c] by (auto simp: al' split: if_splits)
  qed
next
  case (old j)
  then have al': "al' = al\<lparr>slots := (slots al)[j := insert sl (slots al ! j)]\<rparr>"
    using assms(2) by simp
  show ?thesis
  proof (rule al_wfI)
    fix b i
    assume "addresses al' b = Some i" "i \<noteq> -1"
    then show "0 \<le> i \<and> nat i < length (slots al') \<and> slots al' ! nat i \<noteq> {}"
      using al_wf_index [OF assms(1), of b i] by (cases "nat i = j") (auto simp: al')
  next
    fix b c i
    assume "addresses al' b = Some i" "addresses al' c = Some i" "i \<noteq> -1"
    then show "b = c" using al_wf_inj [OF assms(1), of b i c] by (simp add: al')
  qed
next
  case present
  then show ?thesis using assms by simp
qed

lemma AddSlot_undo_new:
  assumes "al_wf al" "AddSlot a sl al = Ok ((True, True), al')"
  shows "\<exists>al''. DeleteSlot a sl al' = Ok al'' \<and> DeleteAddress a al'' = al"
  using assms(1)
proof (cases rule: AddSlot_cases [of al a sl])
  case fresh
  then show ?thesis
    using assms(2) by (auto simp: DeleteSlot_def DeleteAddress_def gindex_def fun_upd_idem)
qed (use assms(2) in auto)

lemma AddSlot_undo:
  assumes "al_wf al" "AddSlot a sl al = Ok ((False, True), al')"
  shows "DeleteSlot a sl al' = Ok al"
  using assms(1)
proof (cases rule: AddSlot_cases [of al a sl])
  case fresh
  then show ?thesis
    using assms(2) by (auto simp: DeleteSlot_def gindex_def fun_upd_idem)
next
  case (old i)
  then have "slots al ! i - {sl} \<noteq> {}" "slots al ! i - {sl} = slots al ! i" by auto
  then show ?thesis
    using old assms(2) by (auto simp: DeleteSlot_def gindex_def Let_def insert_Diff_if)
qed (use assms(2) in auto)

text \<open>
  The deletions of the journal undo the additions. On a well-formed list, adding a slot
  returns without a panic and keeps the list well-formed; deleting what the two reported changes
  added, in reverse order, restores the list exactly; and a reported absence of change is one.
\<close>

theorem AddSlot_delete_inverse:
  assumes "al_wf al"
  shows "\<exists>addrChange slotChange al'.
    AddSlot a sl al = Ok ((addrChange, slotChange), al') \<and> al_wf al' \<and>
    Contains a sl al' = Ok (True, True) \<and>
    (addrChange = (\<not> ContainsAddress a al)) \<and>
    (if slotChange then rbind (DeleteSlot a sl al')
         (\<lambda>d. Ok (if addrChange then DeleteAddress a d else d)) = Ok al
     else al' = al)"
  using assms
proof (cases rule: AddSlot_cases [of al a sl])
  case fresh
  let ?al' = "\<lparr>addresses = (addresses al)(a \<mapsto> int (length (slots al))), slots = slots al @ [{sl}]\<rparr>"
  have "rbind (DeleteSlot a sl ?al') (\<lambda>d. Ok (if addresses al a = None then DeleteAddress a d else d)) = Ok al"
  proof (cases "addresses al a = None")
    case True
    then obtain al'' where "DeleteSlot a sl ?al' = Ok al''" "DeleteAddress a al'' = al"
      using AddSlot_undo_new [OF assms, of a sl ?al'] fresh(2) by auto
    then show ?thesis using True by simp
  next
    case False
    then show ?thesis using AddSlot_undo [OF assms, of a sl ?al'] fresh(2) by auto
  qed
  moreover have "Contains a sl ?al' = Ok (True, True)"
    by (simp add: Contains_def gindex_def)
  ultimately show ?thesis
    using AddSlot_wf [OF assms fresh(2)] fresh(2)
    by (intro exI [of _ "addresses al a = None"] exI [of _ True] exI [of _ ?al']) (simp add: ContainsAddress_def)
next
  case (old i)
  then show ?thesis
    using AddSlot_wf [OF assms old(5)] AddSlot_undo [OF assms old(5)]
    by (auto simp: Contains_def ContainsAddress_def gindex_def)
next
  case (present i)
  then show ?thesis
    using assms by (auto simp: Contains_def ContainsAddress_def gindex_def)
qed

theorem AddSlot_delete_inverse_witness:
  "AddSlot 5 9 newAccessList = Ok ((True, True), \<lparr>addresses = [5 \<mapsto> 0], slots = [{9}]\<rparr>) \<and>
   rbind (DeleteSlot 5 9 \<lparr>addresses = [5 \<mapsto> 0], slots = [{9}]\<rparr>) (\<lambda>d. Ok (DeleteAddress 5 d)) = Ok newAccessList"
proof -
  have a: "AddSlot 5 9 newAccessList = Ok ((True, True), \<lparr>addresses = [5 \<mapsto> 0], slots = [{9}]\<rparr>)"
    by (simp add: AddSlot_def newAccessList_def)
  obtain c d al' where "AddSlot 5 9 newAccessList = Ok ((c, d), al')" "c = (\<not> ContainsAddress 5 newAccessList)"
    "if d then rbind (DeleteSlot 5 9 al') (\<lambda>d. Ok (if c then DeleteAddress 5 d else d)) = Ok newAccessList
     else al' = newAccessList"
    using AddSlot_delete_inverse [OF al_wf_new] by blast
  then show ?thesis using a by simp
qed

end
