(* ===== verification/State.thy ===== *)
theory State
  imports Rlp AccessList Format "HOL-Library.AList"
begin

text \<open>
  The state database (core/state): accounts as cached state objects over a database, the journal of
  modifications with its undo entries, snapshots, the refund counter, logs, preimages and the
  access list. Sources: statedb.go, state_object.go, journal.go.

  The trie database, the snapshot tree and Keccak-256 are not modelled: they are functions in the
  record \<open>StateDB\<close> (\<open>trieAccount\<close>, \<open>OpenStorageTrie\<close>, \<open>ContractCode\<close>, \<open>snap\<close>, \<open>hasher\<close>),
  which no operation here changes. A trie prefetcher only loads trie nodes ahead of time and is
  left out, and so are the duration and counter metrics.

  Every getter returns the state as well, since loading an account or a storage slot caches it.
  The journal is a list with the newest entry first.
\<close>

section \<open>Accounts and state objects (core/state/state_object.go)\<close>

record StateAccount =
  aNonce :: u64
  aBalance :: int
  aRoot :: hash
  aCodeHash :: "hash option"

type_synonym Storage = "hash \<rightharpoonup> hash"

text \<open>A storage trie is its lookup function: an error or the stored bytes (empty if absent).\<close>

type_synonym storage_trie = "hash \<Rightarrow> string + bytes"

record stateObject =
  so_address :: address
  addrHash :: hash
  so_data :: StateAccount
  so_dbErr :: "string option"
  so_trie :: "storage_trie option"
  so_code :: "bytes option"
  originStorage :: Storage
  pendingStorage :: Storage
  dirtyStorage :: Storage
  fakeStorage :: "Storage option"
  dirtyCode :: bool
  suicided :: bool
  deleted :: bool

datatype journalEntry =
    createObjectChange address
  | resetObjectChange stateObject bool
  | suicideChange address bool int
  | balanceChange address int
  | nonceChange address u64
  | storageChange address hash hash
  | codeChange address "bytes option" "hash option"
  | refundChange u64
  | addLogChange hash
  | addPreimageChange hash
  | touchChange address
  | accessListAddAccountChange address
  | accessListAddSlotChange address hash

record Log =
  lAddress :: address
  lTopics :: "hash list"
  lData :: bytes
  lBlockNumber :: u64
  lTxHash :: hash
  lTxIndex :: nat
  lBlockHash :: hash
  lIndex :: nat

text \<open>An account of the snapshot tree, in its slim form; a missing code hash or root is empty.\<close>

record Snapshot =
  snapAccount :: "hash \<Rightarrow> string + StateAccount option"
  snapStorageAt :: "hash \<Rightarrow> hash \<Rightarrow> string + bytes"

record revision =
  rev_id :: nat
  journalIndex :: nat

record StateDB =
  hasher :: "bytes \<Rightarrow> hash"
  trieAccount :: "address \<Rightarrow> string + StateAccount option"
  OpenStorageTrie :: "hash \<Rightarrow> hash \<Rightarrow> hash \<Rightarrow> string + storage_trie"
  ContractCode :: "hash \<Rightarrow> hash \<Rightarrow> bytes option \<times> string option"
  ContractCodeSize :: "hash \<Rightarrow> hash \<Rightarrow> nat \<times> string option"
  originalRoot :: hash
  snap :: "Snapshot option"
  snapDestructs :: "hash set"
  stateObjects :: "address \<rightharpoonup> stateObject"
  stateObjectsPending :: "address set"
  stateObjectsDirty :: "address set"
  dbErr :: "string option"
  refund :: u64
  thash :: hash
  txIndex :: nat
  logs :: "hash \<rightharpoonup> Log list"
  logSize :: nat
  preimages :: "hash \<rightharpoonup> bytes"
  accList :: accessList
  entries :: "journalEntry list"
  dirties :: "(address \<times> int) list"
  validRevisions :: "revision list"
  nextRevisionId :: nat

definition emptyRoot :: hash where
  "emptyRoot = 0x56e81f171bcc55a6ff8345e692c0f86e5b48e01b996cadc001622fb5e363b421"

definition emptyCodeHash :: "StateDB \<Rightarrow> hash" where
  "emptyCodeHash s = hasher s []"

definition ripemd :: address where
  "ripemd = 3"

section \<open>The journal (core/state/journal.go)\<close>

definition dirtied :: "journalEntry \<Rightarrow> address option" where
  "dirtied e = (case e of
       createObjectChange a \<Rightarrow> Some a
     | suicideChange a _ _ \<Rightarrow> Some a
     | balanceChange a _ \<Rightarrow> Some a
     | nonceChange a _ \<Rightarrow> Some a
     | storageChange a _ _ \<Rightarrow> Some a
     | codeChange a _ _ \<Rightarrow> Some a
     | touchChange a \<Rightarrow> Some a
     | _ \<Rightarrow> None)"

definition dirty_count :: "StateDB \<Rightarrow> address \<Rightarrow> int" where
  "dirty_count s a = (case map_of (dirties s) a of None \<Rightarrow> 0 | Some n \<Rightarrow> n)"

definition journal_dirty :: "address \<Rightarrow> StateDB \<Rightarrow> StateDB" where
  "journal_dirty a s = s\<lparr>dirties := AList.update a (dirty_count s a + 1) (dirties s)\<rparr>"

definition journal_append :: "journalEntry \<Rightarrow> StateDB \<Rightarrow> StateDB" where
  "journal_append e s =
     (let s' = s\<lparr>entries := e # entries s\<rparr>
      in case dirtied e of None \<Rightarrow> s' | Some a \<Rightarrow> journal_dirty a s')"

definition journal_undirty :: "journalEntry \<Rightarrow> StateDB \<Rightarrow> StateDB" where
  "journal_undirty e s =
     (case dirtied e of
        None \<Rightarrow> s
      | Some a \<Rightarrow>
          (let n = dirty_count s a - 1
           in if n = 0 then s\<lparr>dirties := AList.delete a (dirties s)\<rparr>
              else s\<lparr>dirties := AList.update a n (dirties s)\<rparr>))"

definition journal_length :: "StateDB \<Rightarrow> nat" where
  "journal_length s = length (entries s)"

section \<open>Loading state objects (core/state/statedb.go)\<close>

definition StateDB_setError :: "string \<Rightarrow> StateDB \<Rightarrow> StateDB" where
  "StateDB_setError e s = (if dbErr s = None then s\<lparr>dbErr := Some e\<rparr> else s)"

definition setStateObject :: "stateObject \<Rightarrow> StateDB \<Rightarrow> StateDB" where
  "setStateObject obj s = s\<lparr>stateObjects := (stateObjects s)(so_address obj \<mapsto> obj)\<rparr>"

definition newObject :: "StateDB \<Rightarrow> address \<Rightarrow> StateAccount \<Rightarrow> stateObject" where
  "newObject s a data =
     \<lparr>so_address = a, addrHash = hasher s (addr_bytes a),
      so_data = data\<lparr>aCodeHash := (case aCodeHash data of None \<Rightarrow> Some (emptyCodeHash s) | Some h \<Rightarrow> Some h),
                     aRoot := (if aRoot data = 0 then emptyRoot else aRoot data)\<rparr>,
      so_dbErr = None, so_trie = None, so_code = None,
      originStorage = Map.empty, pendingStorage = Map.empty, dirtyStorage = Map.empty,
      fakeStorage = None, dirtyCode = False, suicided = False, deleted = False\<rparr>"

definition emptyAccount :: StateAccount where
  "emptyAccount = \<lparr>aNonce = 0, aBalance = 0, aRoot = 0, aCodeHash = None\<rparr>"

text \<open>
  The account as the snapshot or else the trie has it: an error, nothing, or the account data.
\<close>

definition load_account :: "StateDB \<Rightarrow> address \<Rightarrow> string + StateAccount option" where
  "load_account s a =
     (let from_trie = trieAccount s a in
      case snap s of
        None \<Rightarrow> from_trie
      | Some sn \<Rightarrow>
          (case snapAccount sn (hasher s (addr_bytes a)) of
             Inl _ \<Rightarrow> from_trie
           | Inr None \<Rightarrow> Inr None
           | Inr (Some acc) \<Rightarrow>
               Inr (Some (acc\<lparr>aCodeHash := (case aCodeHash acc of None \<Rightarrow> Some (emptyCodeHash s) | Some h \<Rightarrow> Some h),
                              aRoot := (if aRoot acc = 0 then emptyRoot else aRoot acc)\<rparr>))))"

definition getDeletedStateObject :: "address \<Rightarrow> StateDB \<Rightarrow> stateObject option \<times> StateDB" where
  "getDeletedStateObject a s =
     (case stateObjects s a of
        Some obj \<Rightarrow> (Some obj, s)
      | None \<Rightarrow>
          (case load_account s a of
             Inl e \<Rightarrow> (None, StateDB_setError (''getDeleteStateObject ('' @ EncodeToString (addr_bytes a) @ '') error: '' @ e) s)
           | Inr None \<Rightarrow> (None, s)
           | Inr (Some data) \<Rightarrow>
               (let obj = newObject s a data in (Some obj, setStateObject obj s))))"

definition getStateObject :: "address \<Rightarrow> StateDB \<Rightarrow> stateObject option \<times> StateDB" where
  "getStateObject a s =
     (case getDeletedStateObject a s of
        (Some obj, s') \<Rightarrow> (if \<not> deleted obj then (Some obj, s') else (None, s'))
      | (None, s') \<Rightarrow> (None, s'))"

definition createObject :: "address \<Rightarrow> StateDB \<Rightarrow> stateObject \<times> stateObject option \<times> StateDB" where
  "createObject a s =
     (let (prev, s1) = getDeletedStateObject a s;
          prevdestruct = (case (snap s1, prev) of
              (Some _, Some p) \<Rightarrow> addrHash p \<in> snapDestructs s1 | _ \<Rightarrow> False);
          s2 = (case (snap s1, prev) of
              (Some _, Some p) \<Rightarrow>
                (if \<not> prevdestruct then s1\<lparr>snapDestructs := insert (addrHash p) (snapDestructs s1)\<rparr> else s1)
            | _ \<Rightarrow> s1);
          newobj = newObject s2 a emptyAccount;
          s3 = journal_append (case prev of None \<Rightarrow> createObjectChange a
                                          | Some p \<Rightarrow> resetObjectChange p prevdestruct) s2;
          s4 = setStateObject newobj s3
      in (newobj, (case prev of Some p \<Rightarrow> (if \<not> deleted p then Some p else None) | None \<Rightarrow> None), s4))"

definition GetOrNewStateObject :: "address \<Rightarrow> StateDB \<Rightarrow> stateObject \<times> StateDB" where
  "GetOrNewStateObject a s =
     (case getStateObject a s of
        (Some obj, s') \<Rightarrow> (obj, s')
      | (None, s') \<Rightarrow> (let (obj, _, s'') = createObject a s' in (obj, s'')))"

section \<open>Operations of a state object (core/state/state_object.go)\<close>

definition so_empty :: "StateDB \<Rightarrow> stateObject \<Rightarrow> bool" where
  "so_empty s obj =
     (aNonce (so_data obj) = 0 \<and> aBalance (so_data obj) = 0 \<and>
      aCodeHash (so_data obj) = Some (emptyCodeHash s))"

definition so_setError :: "string \<Rightarrow> stateObject \<Rightarrow> stateObject" where
  "so_setError e obj = (if so_dbErr obj = None then obj\<lparr>so_dbErr := Some e\<rparr> else obj)"

definition touch :: "stateObject \<Rightarrow> StateDB \<Rightarrow> StateDB" where
  "touch obj s =
     (let s' = journal_append (touchChange (so_address obj)) s
      in if so_address obj = ripemd then journal_dirty (so_address obj) s' else s')"

text \<open>
  When the storage trie cannot be opened, the code opens the trie with the zero root and ignores the error of that. Opening
  the zero root reads no node and fails only if the database has no reader for the state, which trie/database.go always
  has; for such a database the code would keep a nil trie and panic at the next read, where the model keeps a trie that
  answers with the error.
\<close>

definition so_getTrie :: "StateDB \<Rightarrow> stateObject \<Rightarrow> storage_trie \<times> stateObject" where
  "so_getTrie s obj =
     (case so_trie obj of
        Some t \<Rightarrow> (t, obj)
      | None \<Rightarrow>
          (case OpenStorageTrie s (originalRoot s) (addrHash obj) (aRoot (so_data obj)) of
             Inr t \<Rightarrow> (t, obj\<lparr>so_trie := Some t\<rparr>)
           | Inl e \<Rightarrow>
               (let t = (case OpenStorageTrie s (originalRoot s) (addrHash obj) 0 of
                           Inr t \<Rightarrow> t | Inl e' \<Rightarrow> (\<lambda>_. Inl e'))
                in (t, so_setError (''can't create storage trie: '' @ e) (obj\<lparr>so_trie := Some t\<rparr>)))))"

text \<open>
  The value a storage entry encodes. \<^verbatim>\<open>Split\<close> never panics (see theory Rlp); the two error
  branches of the model give the zero value, as the code does.
\<close>

definition decode_slot :: "bytes \<Rightarrow> hash \<times> string option" where
  "decode_slot enc =
     (if length enc > 0 then
        (case Split enc of
           Ok (Inr (_, content, _)) \<Rightarrow> (be_word content, None)
         | _ \<Rightarrow> (0, Some ''rlp error''))
      else (0, None))"

definition so_GetCommittedState :: "StateDB \<Rightarrow> stateObject \<Rightarrow> hash \<Rightarrow> hash \<times> stateObject" where
  "so_GetCommittedState s obj key =
     (case fakeStorage obj of
        Some f \<Rightarrow> ((case f key of None \<Rightarrow> 0 | Some v \<Rightarrow> v), obj)
      | None \<Rightarrow>
     (case pendingStorage obj key of
        Some v \<Rightarrow> (v, obj)
      | None \<Rightarrow>
     (case originStorage obj key of
        Some v \<Rightarrow> (v, obj)
      | None \<Rightarrow>
     (if snap s \<noteq> None \<and> addrHash obj \<in> snapDestructs s then (0, obj)
      else
        let from_trie =
              (let (t, obj1) = so_getTrie s obj in
               case t key of
                 Inl e \<Rightarrow> (Inl e, so_setError e obj1)
               | Inr enc \<Rightarrow> (Inr enc, obj1));
            (enc, obj1) =
              (case snap s of
                 None \<Rightarrow> from_trie
               | Some sn \<Rightarrow>
                   (case snapStorageAt sn (addrHash obj) (hasher s (hash_bytes key)) of
                      Inr enc \<Rightarrow> (Inr enc, obj)
                    | Inl _ \<Rightarrow> from_trie))
        in case enc of
             Inl _ \<Rightarrow> (0, obj1)
           | Inr enc \<Rightarrow>
               (let (v, err) = decode_slot enc;
                    obj2 = (case err of None \<Rightarrow> obj1 | Some e \<Rightarrow> so_setError e obj1)
                in (v, obj2\<lparr>originStorage := (originStorage obj2)(key \<mapsto> v)\<rparr>))))))"

definition so_GetState :: "StateDB \<Rightarrow> stateObject \<Rightarrow> hash \<Rightarrow> hash \<times> stateObject" where
  "so_GetState s obj key =
     (case fakeStorage obj of
        Some f \<Rightarrow> ((case f key of None \<Rightarrow> 0 | Some v \<Rightarrow> v), obj)
      | None \<Rightarrow>
          (case dirtyStorage obj key of
             Some v \<Rightarrow> (v, obj)
           | None \<Rightarrow> so_GetCommittedState s obj key))"

definition so_setState :: "hash \<Rightarrow> hash \<Rightarrow> stateObject \<Rightarrow> stateObject" where
  "so_setState key val obj = obj\<lparr>dirtyStorage := (dirtyStorage obj)(key \<mapsto> val)\<rparr>"

definition so_SetState :: "stateObject \<Rightarrow> hash \<Rightarrow> hash \<Rightarrow> StateDB \<Rightarrow> StateDB" where
  "so_SetState obj key val s =
     (case fakeStorage obj of
        Some f \<Rightarrow> setStateObject (obj\<lparr>fakeStorage := Some (f(key \<mapsto> val))\<rparr>) s
      | None \<Rightarrow>
          (let (prev, obj1) = so_GetState s obj key in
           if prev = val then setStateObject obj1 s
           else setStateObject (so_setState key val obj1)
                  (journal_append (storageChange (so_address obj) key prev) s)))"

definition so_SetStorage :: "Storage \<Rightarrow> stateObject \<Rightarrow> stateObject" where
  "so_SetStorage storage obj =
     (let f = (case fakeStorage obj of None \<Rightarrow> Map.empty | Some f \<Rightarrow> f)
      in obj\<lparr>fakeStorage := Some (f ++ storage)\<rparr>)"

definition so_finalise :: "stateObject \<Rightarrow> stateObject" where
  "so_finalise obj =
     obj\<lparr>pendingStorage := pendingStorage obj ++ dirtyStorage obj, dirtyStorage := Map.empty\<rparr>"

definition so_setBalance :: "int \<Rightarrow> stateObject \<Rightarrow> stateObject" where
  "so_setBalance amount obj = obj\<lparr>so_data := (so_data obj)\<lparr>aBalance := amount\<rparr>\<rparr>"

definition so_SetBalance :: "stateObject \<Rightarrow> int \<Rightarrow> StateDB \<Rightarrow> StateDB" where
  "so_SetBalance obj amount s =
     setStateObject (so_setBalance amount obj)
       (journal_append (balanceChange (so_address obj) (aBalance (so_data obj))) s)"

definition so_AddBalance :: "stateObject \<Rightarrow> int \<Rightarrow> StateDB \<Rightarrow> StateDB" where
  "so_AddBalance obj amount s =
     (if amount = 0 then (if so_empty s obj then touch obj s else s)
      else so_SetBalance obj (aBalance (so_data obj) + amount) s)"

definition so_SubBalance :: "stateObject \<Rightarrow> int \<Rightarrow> StateDB \<Rightarrow> StateDB" where
  "so_SubBalance obj amount s =
     (if amount = 0 then s else so_SetBalance obj (aBalance (so_data obj) - amount) s)"

definition BytesToHash :: "hash option \<Rightarrow> hash" where
  "BytesToHash h = (case h of None \<Rightarrow> 0 | Some x \<Rightarrow> x)"

definition code_hash_hex :: "stateObject \<Rightarrow> string" where
  "code_hash_hex obj =
     (case aCodeHash (so_data obj) of None \<Rightarrow> [] | Some h \<Rightarrow> EncodeToString (hash_bytes h))"

definition so_Code :: "StateDB \<Rightarrow> stateObject \<Rightarrow> bytes option \<times> stateObject" where
  "so_Code s obj =
     (case so_code obj of
        Some c \<Rightarrow> (Some c, obj)
      | None \<Rightarrow>
          (if aCodeHash (so_data obj) = Some (emptyCodeHash s) then (None, obj)
           else let (code, err) = ContractCode s (addrHash obj) (BytesToHash (aCodeHash (so_data obj)));
                    obj1 = (case err of None \<Rightarrow> obj | Some e \<Rightarrow> so_setError (''can't load code hash '' @ code_hash_hex obj @ '': '' @ e) obj)
                in (code, obj1\<lparr>so_code := code\<rparr>)))"

definition so_CodeSize :: "StateDB \<Rightarrow> stateObject \<Rightarrow> nat \<times> stateObject" where
  "so_CodeSize s obj =
     (case so_code obj of
        Some c \<Rightarrow> (length c, obj)
      | None \<Rightarrow>
          (if aCodeHash (so_data obj) = Some (emptyCodeHash s) then (0, obj)
           else let (sz, err) = ContractCodeSize s (addrHash obj) (BytesToHash (aCodeHash (so_data obj)));
                    obj1 = (case err of None \<Rightarrow> obj | Some e \<Rightarrow> so_setError (''can't load code size '' @ code_hash_hex obj @ '': '' @ e) obj)
                in (sz, obj1)))"

definition so_setCode :: "hash \<Rightarrow> bytes option \<Rightarrow> stateObject \<Rightarrow> stateObject" where
  "so_setCode h code obj =
     obj\<lparr>so_code := code, so_data := (so_data obj)\<lparr>aCodeHash := Some h\<rparr>, dirtyCode := True\<rparr>"

definition so_SetCode :: "stateObject \<Rightarrow> hash \<Rightarrow> bytes option \<Rightarrow> StateDB \<Rightarrow> StateDB" where
  "so_SetCode obj h code s =
     (let (prevcode, obj1) = so_Code s obj in
      setStateObject (so_setCode h code obj1)
        (journal_append (codeChange (so_address obj) prevcode (aCodeHash (so_data obj))) s))"

definition so_setNonce :: "u64 \<Rightarrow> stateObject \<Rightarrow> stateObject" where
  "so_setNonce n obj = obj\<lparr>so_data := (so_data obj)\<lparr>aNonce := n\<rparr>\<rparr>"

definition so_SetNonce :: "stateObject \<Rightarrow> u64 \<Rightarrow> StateDB \<Rightarrow> StateDB" where
  "so_SetNonce obj n s =
     setStateObject (so_setNonce n obj)
       (journal_append (nonceChange (so_address obj) (aNonce (so_data obj))) s)"

section \<open>Getters (core/state/statedb.go)\<close>

definition Exist :: "address \<Rightarrow> StateDB \<Rightarrow> bool \<times> StateDB" where
  "Exist a s = (let (obj, s') = getStateObject a s in (obj \<noteq> None, s'))"

definition Empty :: "address \<Rightarrow> StateDB \<Rightarrow> bool \<times> StateDB" where
  "Empty a s = (let (obj, s') = getStateObject a s in
     ((case obj of None \<Rightarrow> True | Some o1 \<Rightarrow> so_empty s' o1), s'))"

definition GetBalance :: "address \<Rightarrow> StateDB \<Rightarrow> int \<times> StateDB" where
  "GetBalance a s = (let (obj, s') = getStateObject a s in
     ((case obj of None \<Rightarrow> 0 | Some o1 \<Rightarrow> aBalance (so_data o1)), s'))"

definition GetNonce :: "address \<Rightarrow> StateDB \<Rightarrow> u64 \<times> StateDB" where
  "GetNonce a s = (let (obj, s') = getStateObject a s in
     ((case obj of None \<Rightarrow> 0 | Some o1 \<Rightarrow> aNonce (so_data o1)), s'))"

definition GetCode :: "address \<Rightarrow> StateDB \<Rightarrow> bytes \<times> StateDB" where
  "GetCode a s = (case getStateObject a s of
       (None, s') \<Rightarrow> ([], s')
     | (Some obj, s') \<Rightarrow>
         (let (code, obj1) = so_Code s' obj in
          ((case code of None \<Rightarrow> [] | Some c \<Rightarrow> c), setStateObject obj1 s')))"

definition GetCodeSize :: "address \<Rightarrow> StateDB \<Rightarrow> nat \<times> StateDB" where
  "GetCodeSize a s = (case getStateObject a s of
       (None, s') \<Rightarrow> (0, s')
     | (Some obj, s') \<Rightarrow> (let (n, obj1) = so_CodeSize s' obj in (n, setStateObject obj1 s')))"

definition GetCodeHash :: "address \<Rightarrow> StateDB \<Rightarrow> hash \<times> StateDB" where
  "GetCodeHash a s = (let (obj, s') = getStateObject a s in
     ((case obj of None \<Rightarrow> 0 | Some o1 \<Rightarrow> BytesToHash (aCodeHash (so_data o1))), s'))"

definition GetState :: "address \<Rightarrow> hash \<Rightarrow> StateDB \<Rightarrow> hash \<times> StateDB" where
  "GetState a key s = (case getStateObject a s of
       (None, s') \<Rightarrow> (0, s')
     | (Some obj, s') \<Rightarrow> (let (v, obj1) = so_GetState s' obj key in (v, setStateObject obj1 s')))"

definition GetCommittedState :: "address \<Rightarrow> hash \<Rightarrow> StateDB \<Rightarrow> hash \<times> StateDB" where
  "GetCommittedState a key s = (case getStateObject a s of
       (None, s') \<Rightarrow> (0, s')
     | (Some obj, s') \<Rightarrow> (let (v, obj1) = so_GetCommittedState s' obj key in (v, setStateObject obj1 s')))"

definition HasSuicided :: "address \<Rightarrow> StateDB \<Rightarrow> bool \<times> StateDB" where
  "HasSuicided a s = (let (obj, s') = getStateObject a s in
     ((case obj of None \<Rightarrow> False | Some o1 \<Rightarrow> suicided o1), s'))"

definition GetRefund :: "StateDB \<Rightarrow> u64" where
  "GetRefund s = refund s"

definition TxIndex :: "StateDB \<Rightarrow> nat" where
  "TxIndex s = txIndex s"

definition logs_of :: "hash \<Rightarrow> StateDB \<Rightarrow> Log list" where
  "logs_of h s = (case logs s h of None \<Rightarrow> [] | Some ls \<Rightarrow> ls)"

definition GetLogs :: "hash \<Rightarrow> hash \<Rightarrow> StateDB \<Rightarrow> Log list \<times> StateDB" where
  "GetLogs h blockHash s =
     (let ls = map (\<lambda>l. l\<lparr>lBlockHash := blockHash\<rparr>) (logs_of h s)
      in (ls, if logs s h = None then s else s\<lparr>logs := (logs s)(h \<mapsto> ls)\<rparr>))"

section \<open>Setters (core/state/statedb.go)\<close>

definition AddBalance :: "address \<Rightarrow> int \<Rightarrow> StateDB \<Rightarrow> StateDB" where
  "AddBalance a amount s = (let (obj, s') = GetOrNewStateObject a s in so_AddBalance obj amount s')"

definition SubBalance :: "address \<Rightarrow> int \<Rightarrow> StateDB \<Rightarrow> StateDB" where
  "SubBalance a amount s = (let (obj, s') = GetOrNewStateObject a s in so_SubBalance obj amount s')"

definition SetBalance :: "address \<Rightarrow> int \<Rightarrow> StateDB \<Rightarrow> StateDB" where
  "SetBalance a amount s = (let (obj, s') = GetOrNewStateObject a s in so_SetBalance obj amount s')"

definition SetNonce :: "address \<Rightarrow> u64 \<Rightarrow> StateDB \<Rightarrow> StateDB" where
  "SetNonce a n s = (let (obj, s') = GetOrNewStateObject a s in so_SetNonce obj n s')"

text \<open>An empty byte slice given as code is nil, as the interpreter returns it.\<close>

definition SetCode :: "address \<Rightarrow> bytes \<Rightarrow> StateDB \<Rightarrow> StateDB" where
  "SetCode a code s = (let (obj, s') = GetOrNewStateObject a s in
     so_SetCode obj (hasher s' code) (if code = [] then None else Some code) s')"

definition SetState :: "address \<Rightarrow> hash \<Rightarrow> hash \<Rightarrow> StateDB \<Rightarrow> StateDB" where
  "SetState a key val s = (let (obj, s') = GetOrNewStateObject a s in so_SetState obj key val s')"

definition SetStorage :: "address \<Rightarrow> Storage \<Rightarrow> StateDB \<Rightarrow> StateDB" where
  "SetStorage a storage s = (let (obj, s') = GetOrNewStateObject a s in
     setStateObject (so_SetStorage storage obj) s')"

definition Suicide :: "address \<Rightarrow> StateDB \<Rightarrow> bool \<times> StateDB" where
  "Suicide a s = (case getStateObject a s of
       (None, s') \<Rightarrow> (False, s')
     | (Some obj, s') \<Rightarrow>
         (True, setStateObject (so_setBalance 0 (obj\<lparr>suicided := True\<rparr>))
            (journal_append (suicideChange a (suicided obj) (aBalance (so_data obj))) s')))"

definition CreateAccount :: "address \<Rightarrow> StateDB \<Rightarrow> StateDB" where
  "CreateAccount a s =
     (let (newobj, prev, s') = createObject a s in
      case prev of
        None \<Rightarrow> s'
      | Some p \<Rightarrow> setStateObject (so_setBalance (aBalance (so_data p)) newobj) s')"

definition AddLog :: "Log \<Rightarrow> StateDB \<Rightarrow> StateDB" where
  "AddLog l s =
     (let s1 = journal_append (addLogChange (thash s)) s;
          l1 = l\<lparr>lTxHash := thash s, lTxIndex := txIndex s, lIndex := logSize s\<rparr>
      in s1\<lparr>logs := (logs s)(thash s \<mapsto> logs_of (thash s) s @ [l1]), logSize := logSize s + 1\<rparr>)"

definition AddPreimage :: "hash \<Rightarrow> bytes \<Rightarrow> StateDB \<Rightarrow> StateDB" where
  "AddPreimage h pre s =
     (if preimages s h = None then
        (journal_append (addPreimageChange h) s)\<lparr>preimages := (preimages s)(h \<mapsto> pre)\<rparr>
      else s)"

definition AddRefund :: "u64 \<Rightarrow> StateDB \<Rightarrow> StateDB" where
  "AddRefund gas s = (journal_append (refundChange (refund s)) s)\<lparr>refund := refund s + gas\<rparr>"

definition SubRefund :: "u64 \<Rightarrow> StateDB \<Rightarrow> StateDB res" where
  "SubRefund gas s =
     (let s1 = journal_append (refundChange (refund s)) s in
      if gas > refund s then Panic else Ok (s1\<lparr>refund := refund s - gas\<rparr>))"

definition Prepare :: "hash \<Rightarrow> nat \<Rightarrow> StateDB \<Rightarrow> StateDB" where
  "Prepare h ti s = s\<lparr>thash := h, txIndex := ti\<rparr>"

definition AddAddressToAccessList :: "address \<Rightarrow> StateDB \<Rightarrow> StateDB" where
  "AddAddressToAccessList a s =
     (let (changed, al) = AddAddress a (accList s);
          s1 = s\<lparr>accList := al\<rparr>
      in if changed then journal_append (accessListAddAccountChange a) s1 else s1)"

definition AddSlotToAccessList :: "address \<Rightarrow> hash \<Rightarrow> StateDB \<Rightarrow> StateDB res" where
  "AddSlotToAccessList a sl s =
     rbind (AddSlot a sl (accList s)) (\<lambda>((addrMod, slotMod), al).
       let s1 = s\<lparr>accList := al\<rparr>;
           s2 = (if addrMod then journal_append (accessListAddAccountChange a) s1 else s1);
           s3 = (if slotMod then journal_append (accessListAddSlotChange a sl) s2 else s2)
       in Ok s3)"

definition AddressInAccessList :: "address \<Rightarrow> StateDB \<Rightarrow> bool" where
  "AddressInAccessList a s = ContainsAddress a (accList s)"

definition SlotInAccessList :: "address \<Rightarrow> hash \<Rightarrow> StateDB \<Rightarrow> (bool \<times> bool) res" where
  "SlotInAccessList a sl s = Contains a sl (accList s)"

fun add_slots :: "address \<Rightarrow> hash list \<Rightarrow> StateDB \<Rightarrow> StateDB res" where
  "add_slots a [] s = Ok s"
| "add_slots a (k # ks) s = rbind (AddSlotToAccessList a k s) (add_slots a ks)"

fun add_tuples :: "(address \<times> hash list) list \<Rightarrow> StateDB \<Rightarrow> StateDB res" where
  "add_tuples [] s = Ok s"
| "add_tuples ((a, ks) # ts) s =
     rbind (add_slots a ks (AddAddressToAccessList a s)) (add_tuples ts)"

definition PrepareAccessList ::
  "address \<Rightarrow> address option \<Rightarrow> address list \<Rightarrow> (address \<times> hash list) list \<Rightarrow> StateDB \<Rightarrow> StateDB res" where
  "PrepareAccessList sender dst precompiles list s =
     (let s1 = AddAddressToAccessList sender (s\<lparr>accList := newAccessList\<rparr>);
          s2 = (case dst of None \<Rightarrow> s1 | Some d \<Rightarrow> AddAddressToAccessList d s1);
          s3 = fold AddAddressToAccessList precompiles s2
      in add_tuples list s3)"

section \<open>Snapshots and reverting\<close>

text \<open>\<^verbatim>\<open>revert\<close> of each entry; the object an entry refers to must exist.\<close>

definition modify_object :: "address \<Rightarrow> (stateObject \<Rightarrow> stateObject) \<Rightarrow> StateDB \<Rightarrow> StateDB res" where
  "modify_object a f s =
     (case getStateObject a s of
        (None, _) \<Rightarrow> Panic
      | (Some obj, s') \<Rightarrow> Ok (setStateObject (f obj) s'))"

definition revert_entry :: "journalEntry \<Rightarrow> StateDB \<Rightarrow> StateDB res" where
  "revert_entry e s = (case e of
       createObjectChange a \<Rightarrow>
         Ok (s\<lparr>stateObjects := (stateObjects s)(a := None), stateObjectsDirty := stateObjectsDirty s - {a}\<rparr>)
     | resetObjectChange prev prevdestruct \<Rightarrow>
         (let s1 = setStateObject prev s in
          Ok (if \<not> prevdestruct \<and> snap s1 \<noteq> None
              then s1\<lparr>snapDestructs := snapDestructs s1 - {addrHash prev}\<rparr> else s1))
     | suicideChange a prev prevbalance \<Rightarrow>
         (case getStateObject a s of
            (None, s') \<Rightarrow> Ok s'
          | (Some obj, s') \<Rightarrow> Ok (setStateObject (so_setBalance prevbalance (obj\<lparr>suicided := prev\<rparr>)) s'))
     | balanceChange a prev \<Rightarrow> modify_object a (so_setBalance prev) s
     | nonceChange a prev \<Rightarrow> modify_object a (so_setNonce prev) s
     | storageChange a key prevalue \<Rightarrow> modify_object a (so_setState key prevalue) s
     | codeChange a prevcode prevhash \<Rightarrow> modify_object a (so_setCode (BytesToHash prevhash) prevcode) s
     | refundChange prev \<Rightarrow> Ok (s\<lparr>refund := prev\<rparr>)
     | addLogChange h \<Rightarrow>
         (let ls = logs_of h s in
          if length ls = 1 then Ok (s\<lparr>logs := (logs s)(h := None), logSize := logSize s - 1\<rparr>)
          else if ls = [] then Panic
          else Ok (s\<lparr>logs := (logs s)(h \<mapsto> butlast ls), logSize := logSize s - 1\<rparr>))
     | addPreimageChange h \<Rightarrow> Ok (s\<lparr>preimages := (preimages s)(h := None)\<rparr>)
     | touchChange a \<Rightarrow> Ok s
     | accessListAddAccountChange a \<Rightarrow> Ok (s\<lparr>accList := DeleteAddress a (accList s)\<rparr>)
     | accessListAddSlotChange a sl \<Rightarrow>
         rbind (DeleteSlot a sl (accList s)) (\<lambda>al. Ok (s\<lparr>accList := al\<rparr>)))"

fun revert_all :: "journalEntry list \<Rightarrow> StateDB \<Rightarrow> StateDB res" where
  "revert_all [] s = Ok s"
| "revert_all (e # es) s = rbind (revert_entry e s) (\<lambda>s'. revert_all es (journal_undirty e s'))"

definition journal_revert :: "nat \<Rightarrow> StateDB \<Rightarrow> StateDB res" where
  "journal_revert snapshot s =
     (let n = length (entries s) - snapshot in
      rbind (revert_all (take n (entries s)) s) (\<lambda>s'. Ok (s'\<lparr>entries := drop n (entries s)\<rparr>)))"

definition Snapshot_op :: "StateDB \<Rightarrow> nat \<times> StateDB" where
  "Snapshot_op s =
     (let i = nextRevisionId s in
      (i, s\<lparr>nextRevisionId := i + 1,
            validRevisions := validRevisions s @ [\<lparr>rev_id = i, journalIndex = journal_length s\<rparr>]\<rparr>))"

text \<open>The index \<^verbatim>\<open>sort.Search\<close> finds in the revisions, whose ids increase.\<close>

definition find_revision :: "nat \<Rightarrow> revision list \<Rightarrow> nat" where
  "find_revision revid rs = length (takeWhile (\<lambda>r. rev_id r < revid) rs)"

definition RevertToSnapshot :: "nat \<Rightarrow> StateDB \<Rightarrow> StateDB res" where
  "RevertToSnapshot revid s =
     (let idx = find_revision revid (validRevisions s) in
      if idx = length (validRevisions s) \<or> rev_id (validRevisions s ! idx) \<noteq> revid then Panic
      else rbind (journal_revert (journalIndex (validRevisions s ! idx)) s)
             (\<lambda>s'. Ok (s'\<lparr>validRevisions := take idx (validRevisions s)\<rparr>)))"

section \<open>End of a transaction\<close>

definition clearJournalAndRefund :: "StateDB \<Rightarrow> StateDB" where
  "clearJournalAndRefund s =
     (let s1 = (if length (entries s) > 0 then s\<lparr>entries := [], dirties := [], refund := 0\<rparr> else s)
      in s1\<lparr>validRevisions := []\<rparr>)"

definition finalise_one :: "bool \<Rightarrow> address \<Rightarrow> StateDB \<Rightarrow> StateDB" where
  "finalise_one deleteEmptyObjects a s =
     (case stateObjects s a of
        None \<Rightarrow> s
      | Some obj \<Rightarrow>
          (let s1 = (if suicided obj \<or> (deleteEmptyObjects \<and> so_empty s obj) then
                       let s0 = s\<lparr>stateObjects := (stateObjects s)(a \<mapsto> obj\<lparr>deleted := True\<rparr>)\<rparr>
                       in if snap s0 \<noteq> None then s0\<lparr>snapDestructs := insert (addrHash obj) (snapDestructs s0)\<rparr> else s0
                     else s\<lparr>stateObjects := (stateObjects s)(a \<mapsto> so_finalise obj)\<rparr>)
           in s1\<lparr>stateObjectsPending := insert a (stateObjectsPending s1),
                 stateObjectsDirty := insert a (stateObjectsDirty s1)\<rparr>))"

definition Finalise :: "bool \<Rightarrow> StateDB \<Rightarrow> StateDB" where
  "Finalise deleteEmptyObjects s =
     clearJournalAndRefund (fold (\<lambda>(a, _). finalise_one deleteEmptyObjects a) (dirties s) s)"

end
