(* ===== verification/StateView.thy ===== *)
theory StateView
  imports State
begin

text \<open>
  What the getters of the state database observe, apart from the caches they fill, and the
  equivalence of states this gives. A locale states what makes a journal work: undoing an entry
  respects the equivalence, and every operation leaves entries whose undoing leads back to an
  equivalent state. Its interpretation on the state database shows that undoing each of the
  entries of journal.go respects the equivalence.
\<close>

section \<open>Journals in general\<close>

primrec undo_list :: "('e \<Rightarrow> 's \<Rightarrow> 's res) \<Rightarrow> 'e list \<Rightarrow> 's \<Rightarrow> 's res" where
  "undo_list u [] s = Ok s"
| "undo_list u (e # es) s = rbind (u e s) (undo_list u es)"

lemma undo_list_append: "undo_list u (xs @ ys) s = rbind (undo_list u xs s) (undo_list u ys)"
proof (induction xs arbitrary: s)
  case (Cons e xs)
  then show ?case by (cases "u e s") auto
qed simp

locale journal =
  fixes undo :: "'e \<Rightarrow> 's \<Rightarrow> 's res"
    and log :: "'s \<Rightarrow> 'e list"
    and fits :: "'e \<Rightarrow> 's \<Rightarrow> bool"
    and eqv :: "'s \<Rightarrow> 's \<Rightarrow> bool"
  assumes eqv_sym: "eqv s t \<Longrightarrow> eqv t s"
    and eqv_trans: "eqv s t \<Longrightarrow> eqv t u \<Longrightarrow> eqv s u"
    and fits_eqv: "eqv s t \<Longrightarrow> fits e s \<Longrightarrow> fits e t"
    and fits_undo: "undo e s = Ok s' \<Longrightarrow> fits d s \<Longrightarrow> fits d s'"
    and undo_cong: "eqv s t \<Longrightarrow> fits e s \<Longrightarrow> undo e s = Ok s' \<Longrightarrow> \<exists>t'. undo e t = Ok t' \<and> eqv s' t'"
begin

lemma undo_list_cong:
  "eqv s t \<Longrightarrow> \<forall>e\<in>set es. fits e s \<Longrightarrow> undo_list undo es s = Ok s' \<Longrightarrow>
   \<exists>t'. undo_list undo es t = Ok t' \<and> eqv s' t'"
proof (induction es arbitrary: s t)
  case Nil
  then show ?case by simp
next
  case (Cons e es)
  obtain s1 where s1: "undo e s = Ok s1" "undo_list undo es s1 = Ok s'"
    using Cons.prems(3) by auto
  obtain t1 where t1: "undo e t = Ok t1" "eqv s1 t1"
    using undo_cong [OF Cons.prems(1) _ s1(1)] Cons.prems(2) by auto
  have "\<forall>d\<in>set es. fits d s1"
    using fits_undo [OF s1(1)] Cons.prems(2) by simp
  with Cons.IH [OF t1(2) _ s1(2)] t1(1) show ?case by auto
qed

definition undoable :: "'s \<Rightarrow> 's \<Rightarrow> bool" where
  "undoable s s' \<longleftrightarrow> eqv s s \<and> eqv s' s' \<and> (\<forall>e. fits e s \<longleftrightarrow> fits e s') \<and>
     (\<exists>new t. log s' = new @ log s \<and> (\<forall>e\<in>set new. fits e s) \<and> undo_list undo new s' = Ok t \<and> eqv t s)"

lemma undoable_refl: "eqv s s \<Longrightarrow> undoable s s"
  by (auto simp: undoable_def)

lemma undoable_trans:
  assumes "undoable s t" "undoable t u"
  shows "undoable s u"
proof -
  obtain n1 t1 where 1: "log t = n1 @ log s" "\<forall>e\<in>set n1. fits e s" "undo_list undo n1 t = Ok t1" "eqv t1 s"
    using assms(1) by (auto simp: undoable_def)
  obtain n2 t2 where 2: "log u = n2 @ log t" "\<forall>e\<in>set n2. fits e t" "undo_list undo n2 u = Ok t2" "eqv t2 t"
    using assms(2) by (auto simp: undoable_def)
  have f: "fits e s \<longleftrightarrow> fits e t" "fits e t \<longleftrightarrow> fits e u" for e
    using assms by (auto simp: undoable_def)
  have "\<forall>e\<in>set n1. fits e t" using 1(2) f by simp
  then obtain t' where t': "undo_list undo n1 t2 = Ok t'" "eqv t1 t'"
    using undo_list_cong [OF eqv_sym [OF 2(4)] _ 1(3)] by auto
  have "eqv t' s" using eqv_trans [OF eqv_sym [OF t'(2)] 1(4)] .
  then have "log u = (n2 @ n1) @ log s \<and> (\<forall>e\<in>set (n2 @ n1). fits e s) \<and>
      undo_list undo (n2 @ n1) u = Ok t' \<and> eqv t' s"
    using 1 2 t'(1) f by (auto simp: undo_list_append)
  then show ?thesis
    using assms unfolding undoable_def by blast
qed

lemma undoable_unlogged: "eqv s s' \<Longrightarrow> log s' = log s \<Longrightarrow> undoable s s'"
proof -
  assume a: "eqv s s'" "log s' = log s"
  have "eqv s' s" by (rule eqv_sym [OF a(1)])
  then show ?thesis
    using a fits_eqv [OF a(1)] fits_eqv [OF eqv_sym [OF a(1)]] eqv_trans [OF a(1)] eqv_trans [OF eqv_sym [OF a(1)] a(1)]
    unfolding undoable_def by auto
qed

lemma undoable_logged:
  assumes "eqv s s" "eqv s' s'" "\<And>e. fits e s \<longleftrightarrow> fits e s'" "log s' = e # log s" "fits e s"
    "undo e s' = Ok t" "eqv t s"
  shows "undoable s s'"
proof -
  have "log s' = [e] @ log s \<and> (\<forall>d\<in>set [e]. fits d s) \<and> undo_list undo [e] s' = Ok t \<and> eqv t s"
    using assms by simp
  then show ?thesis using assms(1-3) unfolding undoable_def by blast
qed

lemma undo_back:
  "undoable s s' \<Longrightarrow>
   \<exists>t. undo_list undo (take (length (log s') - length (log s)) (log s')) s' = Ok t \<and> eqv t s \<and>
       drop (length (log s') - length (log s)) (log s') = log s \<and> length (log s) \<le> length (log s')"
  unfolding undoable_def by auto

end

section \<open>What the getters observe\<close>

definition peek_object :: "StateDB \<Rightarrow> address \<Rightarrow> stateObject option" where
  "peek_object s a = (case stateObjects s a of
       Some obj \<Rightarrow> Some obj
     | None \<Rightarrow> (case load_account s a of Inr (Some d) \<Rightarrow> Some (newObject s a d) | _ \<Rightarrow> None))"

record obj_view =
  v_nonce :: u64
  v_balance :: int
  v_codehash :: "hash option"
  v_code :: bytes
  v_suicided :: bool
  v_deleted :: bool
  v_committed :: "hash \<Rightarrow> hash"
  v_storage :: "hash \<Rightarrow> hash"

definition code_bytes :: "StateDB \<Rightarrow> stateObject \<Rightarrow> bytes" where
  "code_bytes s obj = (case fst (so_Code s obj) of None \<Rightarrow> [] | Some c \<Rightarrow> c)"

definition obj_view :: "StateDB \<Rightarrow> stateObject \<Rightarrow> obj_view" where
  "obj_view s obj =
     \<lparr>v_nonce = aNonce (so_data obj), v_balance = aBalance (so_data obj), v_codehash = aCodeHash (so_data obj),
      v_code = code_bytes s obj,
      v_suicided = suicided obj, v_deleted = deleted obj,
      v_committed = (\<lambda>k. fst (so_GetCommittedState s obj k)), v_storage = (\<lambda>k. fst (so_GetState s obj k))\<rparr>"

definition acc_view :: "StateDB \<Rightarrow> address \<Rightarrow> obj_view option" where
  "acc_view s a = map_option (obj_view s) (peek_object s a)"

definition same_env :: "StateDB \<Rightarrow> StateDB \<Rightarrow> bool" where
  "same_env s t \<longleftrightarrow> hasher s = hasher t \<and> trieAccount s = trieAccount t \<and> OpenStorageTrie s = OpenStorageTrie t \<and>
     ContractCode s = ContractCode t \<and> ContractCodeSize s = ContractCodeSize t \<and>
     originalRoot s = originalRoot t \<and> snap s = snap t"

definition obj_wf :: "StateDB \<Rightarrow> address \<Rightarrow> stateObject \<Rightarrow> bool" where
  "obj_wf s a obj \<longleftrightarrow> so_address obj = a \<and> addrHash obj = hasher s (addr_bytes a) \<and> fakeStorage obj = None \<and>
     aCodeHash (so_data obj) \<noteq> None"

text \<open>
  What is assumed of the outside: no two addresses have the same Keccak hash, and the database
  reports the size of the code it stores.
\<close>

definition env_ok :: "StateDB \<Rightarrow> bool" where
  "env_ok s \<longleftrightarrow> inj (\<lambda>a. hasher s (addr_bytes a)) \<and>
     (\<forall>x h. fst (ContractCodeSize s x h) = (case fst (ContractCode s x h) of None \<Rightarrow> 0 | Some c \<Rightarrow> length c))"

definition state_wf :: "StateDB \<Rightarrow> bool" where
  "state_wf s \<longleftrightarrow> env_ok s \<and> (\<forall>a obj. stateObjects s a = Some obj \<longrightarrow> obj_wf s a obj)"

definition eqv :: "StateDB \<Rightarrow> StateDB \<Rightarrow> bool" where
  "eqv s t \<longleftrightarrow> state_wf s \<and> state_wf t \<and> same_env s t \<and> snapDestructs s = snapDestructs t \<and>
     acc_view s = acc_view t \<and> refund s = refund t \<and> (\<forall>h. logs_of h s = logs_of h t) \<and>
     logSize s = logSize t \<and> preimages s = preimages t \<and> accList s = accList t \<and>
     thash s = thash t \<and> txIndex s = txIndex t"

definition fits :: "journalEntry \<Rightarrow> StateDB \<Rightarrow> bool" where
  "fits e s = (case e of resetObjectChange p _ \<Rightarrow> obj_wf s (so_address p) p | _ \<Rightarrow> True)"

definition undo :: "journalEntry \<Rightarrow> StateDB \<Rightarrow> StateDB res" where
  "undo e s = rbind (revert_entry e s) (\<lambda>s'. Ok (journal_undirty e s'))"

lemma revert_all_undo_list: "revert_all es s = undo_list undo es s"
proof (induction es arbitrary: s)
  case (Cons e es)
  then show ?case by (cases "revert_entry e s") (auto simp: undo_def)
qed simp

subsection \<open>Views do not depend on caches\<close>

lemma same_env_refl [simp]: "same_env s s"
  by (simp add: same_env_def)

lemma same_env_sym: "same_env s t \<Longrightarrow> same_env t s"
  by (simp add: same_env_def)

lemma same_env_trans: "same_env s t \<Longrightarrow> same_env t u \<Longrightarrow> same_env s u"
  by (simp add: same_env_def)

lemma same_envD:
  assumes "same_env s t"
  shows "hasher s = hasher t" "trieAccount s = trieAccount t" "OpenStorageTrie s = OpenStorageTrie t"
    "ContractCode s = ContractCode t" "ContractCodeSize s = ContractCodeSize t"
    "originalRoot s = originalRoot t" "snap s = snap t"
  using assms by (simp_all add: same_env_def)

lemma so_getTrie_env:
  assumes "same_env s t"
  shows "so_getTrie s obj = so_getTrie t obj"
  unfolding so_getTrie_def same_envD [OF assms] ..

lemma so_GetCommittedState_env:
  assumes "same_env s t" "addrHash obj \<in> snapDestructs s \<longleftrightarrow> addrHash obj \<in> snapDestructs t"
  shows "so_GetCommittedState s obj k = so_GetCommittedState t obj k"
  unfolding so_GetCommittedState_def same_envD [OF assms(1)] so_getTrie_env [OF assms(1)] assms(2) ..

lemma so_GetState_env:
  assumes "same_env s t" "addrHash obj \<in> snapDestructs s \<longleftrightarrow> addrHash obj \<in> snapDestructs t"
  shows "so_GetState s obj k = so_GetState t obj k"
  unfolding so_GetState_def so_GetCommittedState_env [OF assms] ..

lemma so_Code_env:
  assumes "same_env s t"
  shows "so_Code s obj = so_Code t obj"
  unfolding so_Code_def emptyCodeHash_def same_envD [OF assms] ..

lemma obj_view_env:
  assumes "same_env s t" "addrHash obj \<in> snapDestructs s \<longleftrightarrow> addrHash obj \<in> snapDestructs t"
  shows "obj_view s obj = obj_view t obj"
  unfolding obj_view_def code_bytes_def so_GetCommittedState_env [OF assms] so_GetState_env [OF assms]
    so_Code_env [OF assms(1)] ..

lemma newObject_env:
  assumes "same_env s t"
  shows "newObject s a d = newObject t a d"
  unfolding newObject_def emptyCodeHash_def same_envD [OF assms] ..

lemma load_account_env:
  assumes "same_env s t"
  shows "load_account s a = load_account t a"
  unfolding load_account_def emptyCodeHash_def same_envD [OF assms] ..

lemma obj_wf_env: "same_env s t \<Longrightarrow> obj_wf s a obj \<longleftrightarrow> obj_wf t a obj"
  by (simp add: obj_wf_def same_env_def)

lemma env_ok_env: "same_env s t \<Longrightarrow> env_ok s \<longleftrightarrow> env_ok t"
  by (simp add: env_ok_def same_env_def)

lemma fits_env: "same_env s t \<Longrightarrow> fits e s \<longleftrightarrow> fits e t"
  by (cases e) (simp_all add: fits_def obj_wf_env [of s t])

lemma obj_wf_newObject [simp]: "obj_wf s a (newObject s a d)"
  by (simp add: obj_wf_def newObject_def split: option.split)

text \<open>The trie handle, the error and the cached slots of an object do not show in its view.\<close>

definition load_slot :: "StateDB \<Rightarrow> storage_trie \<Rightarrow> hash \<Rightarrow> hash \<Rightarrow> hash" where
  "load_slot s t h key =
     (let from_trie = t key;
          enc = (case snap s of
                   None \<Rightarrow> from_trie
                 | Some sn \<Rightarrow>
                     (case snapStorageAt sn h (hasher s (hash_bytes key)) of
                        Inr enc \<Rightarrow> Inr enc | Inl _ \<Rightarrow> from_trie))
      in case enc of Inl _ \<Rightarrow> 0 | Inr enc \<Rightarrow> fst (decode_slot enc))"

definition committed_value :: "StateDB \<Rightarrow> stateObject \<Rightarrow> hash \<Rightarrow> hash" where
  "committed_value s obj key =
     (case fakeStorage obj of
        Some f \<Rightarrow> (case f key of None \<Rightarrow> 0 | Some v \<Rightarrow> v)
      | None \<Rightarrow>
     (case pendingStorage obj key of
        Some v \<Rightarrow> v
      | None \<Rightarrow>
     (case originStorage obj key of
        Some v \<Rightarrow> v
      | None \<Rightarrow> if snap s \<noteq> None \<and> addrHash obj \<in> snapDestructs s then 0
              else load_slot s (fst (so_getTrie s obj)) (addrHash obj) key)))"

definition state_value :: "StateDB \<Rightarrow> stateObject \<Rightarrow> hash \<Rightarrow> hash" where
  "state_value s obj key =
     (case fakeStorage obj of
        Some f \<Rightarrow> (case f key of None \<Rightarrow> 0 | Some v \<Rightarrow> v)
      | None \<Rightarrow> (case dirtyStorage obj key of Some v \<Rightarrow> v | None \<Rightarrow> committed_value s obj key))"

lemma fst_GetCommittedState: "fst (so_GetCommittedState s obj key) = committed_value s obj key"
  by (auto simp: so_GetCommittedState_def committed_value_def load_slot_def Let_def split: option.split sum.split prod.split)

lemma fst_GetState: "fst (so_GetState s obj key) = state_value s obj key"
  by (auto simp: so_GetState_def state_value_def fst_GetCommittedState split: option.split)

lemma so_getTrie_cached:
  assumes "so_getTrie s obj = (t, obj')"
  shows "obj' = obj\<lparr>so_trie := so_trie obj', so_dbErr := so_dbErr obj'\<rparr> \<and> fst (so_getTrie s obj') = t"
  using assms by (auto simp: so_getTrie_def so_setError_def Let_def split: option.splits sum.splits if_splits)


text \<open>What a read of a committed slot may change in the object.\<close>

lemma fst_getTrie_upd [simp]:
  "fst (so_getTrie s (obj\<lparr>so_dbErr := e\<rparr>)) = fst (so_getTrie s obj)"
  "fst (so_getTrie s (obj\<lparr>originStorage := m\<rparr>)) = fst (so_getTrie s obj)"
  by (auto simp: so_getTrie_def so_setError_def Let_def split: option.splits sum.splits)

definition cache_of :: "StateDB \<Rightarrow> stateObject \<Rightarrow> stateObject \<Rightarrow> bool" where
  "cache_of s obj obj' \<longleftrightarrow>
     so_address obj' = so_address obj \<and> addrHash obj' = addrHash obj \<and> so_data obj' = so_data obj \<and>
     so_code obj' = so_code obj \<and> pendingStorage obj' = pendingStorage obj \<and> dirtyStorage obj' = dirtyStorage obj \<and>
     fakeStorage obj' = fakeStorage obj \<and> suicided obj' = suicided obj \<and> deleted obj' = deleted obj \<and>
     fst (so_getTrie s obj') = fst (so_getTrie s obj) \<and> (\<forall>k. committed_value s obj' k = committed_value s obj k)"

lemma cache_of_fields:
  assumes "cache_of s obj obj'"
  shows "so_address obj' = so_address obj" "addrHash obj' = addrHash obj" "so_data obj' = so_data obj"
    "so_code obj' = so_code obj" "pendingStorage obj' = pendingStorage obj" "dirtyStorage obj' = dirtyStorage obj"
    "fakeStorage obj' = fakeStorage obj" "suicided obj' = suicided obj" "deleted obj' = deleted obj"
    "fst (so_getTrie s obj') = fst (so_getTrie s obj)" "committed_value s obj' k = committed_value s obj k"
  using assms unfolding cache_of_def by blast+

lemma cache_of_refl [simp]: "cache_of s obj obj"
  by (simp add: cache_of_def)

lemma so_setError_fields [simp]:
  "so_address (so_setError e obj) = so_address obj" "addrHash (so_setError e obj) = addrHash obj"
  "so_data (so_setError e obj) = so_data obj" "so_code (so_setError e obj) = so_code obj"
  "originStorage (so_setError e obj) = originStorage obj"
  "pendingStorage (so_setError e obj) = pendingStorage obj" "dirtyStorage (so_setError e obj) = dirtyStorage obj"
  "fakeStorage (so_setError e obj) = fakeStorage obj" "suicided (so_setError e obj) = suicided obj"
  "deleted (so_setError e obj) = deleted obj"
  by (simp_all add: so_setError_def)

lemma fst_getTrie_setError [simp]: "fst (so_getTrie s (so_setError e obj)) = fst (so_getTrie s obj)"
  by (simp add: so_setError_def)

lemma committed_value_setError [simp]: "committed_value s (so_setError e obj) = committed_value s obj"
  by (rule ext) (auto simp: committed_value_def split: option.split)

lemma cache_of_setError: "cache_of s obj obj' \<Longrightarrow> cache_of s obj (so_setError e obj')"
  unfolding cache_of_def by simp

lemma cache_of_getTrie: "cache_of s obj (snd (so_getTrie s obj))"
proof -
  obtain t o1 where t: "so_getTrie s obj = (t, o1)" by (cases "so_getTrie s obj")
  have o: "o1 = obj\<lparr>so_trie := so_trie o1, so_dbErr := so_dbErr o1\<rparr>" "fst (so_getTrie s o1) = t"
    using so_getTrie_cached [OF t] by blast+
  have f: "so_address o1 = so_address obj" "addrHash o1 = addrHash obj" "so_data o1 = so_data obj"
    "so_code o1 = so_code obj" "pendingStorage o1 = pendingStorage obj" "dirtyStorage o1 = dirtyStorage obj"
    "fakeStorage o1 = fakeStorage obj" "suicided o1 = suicided obj" "deleted o1 = deleted obj"
    "originStorage o1 = originStorage obj"
    by (subst o(1), simp)+
  have "committed_value s o1 k = committed_value s obj k" for k
    unfolding committed_value_def f o(2) t by (auto split: option.split)
  then show ?thesis
    using t o(2) f by (simp add: cache_of_def)
qed

lemma cache_of_origin:
  assumes "cache_of s obj o1"
    "v = (if snap s \<noteq> None \<and> addrHash obj \<in> snapDestructs s then 0 else load_slot s (fst (so_getTrie s obj)) (addrHash obj) k)"
    "originStorage o1 k = None \<or> originStorage o1 k = Some v"
  shows "cache_of s obj (o1\<lparr>originStorage := (originStorage o1)(k \<mapsto> v)\<rparr>)"
proof -
  note f = cache_of_fields [OF assms(1)]
  have "committed_value s (o1\<lparr>originStorage := (originStorage o1)(k \<mapsto> v)\<rparr>) j = committed_value s o1 j" for j
  proof (cases "j = k")
    case True
    then show ?thesis
      using assms(2,3) by (auto simp: committed_value_def f split: option.split)
  next
    case False
    then show ?thesis by (auto simp: committed_value_def split: option.split)
  qed
  then show ?thesis using f by (simp add: cache_of_def)
qed

lemma getTrie_origin: "obj' = obj\<lparr>so_trie := t, so_dbErr := e\<rparr> \<Longrightarrow> originStorage obj' = originStorage obj"
  by simp

lemma so_GetCommittedState_cached: "cache_of s obj (snd (so_GetCommittedState s obj key))"
proof (cases "fakeStorage obj \<noteq> None \<or> pendingStorage obj key \<noteq> None \<or> originStorage obj key \<noteq> None \<or>
    snap s \<noteq> None \<and> addrHash obj \<in> snapDestructs s")
  case True
  then show ?thesis by (auto simp: so_GetCommittedState_def split: option.split)
next
  case False
  obtain t o1 where t: "so_getTrie s obj = (t, o1)" by (cases "so_getTrie s obj")
  have c1: "cache_of s obj o1" using cache_of_getTrie [of s obj] by (simp add: t)
  have or: "originStorage o1 = originStorage obj" using so_getTrie_cached [OF t] by (metis getTrie_origin)
  obtain enc :: "string + bytes" and obj1 where e: "so_GetCommittedState s obj key =
        (case enc of Inl _ \<Rightarrow> (0, obj1)
         | Inr x \<Rightarrow> (let (v, err) = decode_slot x;
                         obj2 = (case err of None \<Rightarrow> obj1 | Some e \<Rightarrow> so_setError e obj1)
                     in (v, obj2\<lparr>originStorage := (originStorage obj2)(key \<mapsto> v)\<rparr>)))"
    "cache_of s obj obj1" "(case enc of Inl _ \<Rightarrow> 0 | Inr x \<Rightarrow> fst (decode_slot x)) = load_slot s t (addrHash obj) key"
    "originStorage obj1 key = None"
  proof -
    define from_trie where "from_trie = (case t key of Inl e \<Rightarrow> (Inl e, so_setError e o1) | Inr enc \<Rightarrow> (Inr enc, o1))"
    define p where "p = (case snap s of
                 None \<Rightarrow> from_trie
               | Some sn \<Rightarrow>
                   (case snapStorageAt sn (addrHash obj) (hasher s (hash_bytes key)) of
                      Inr enc \<Rightarrow> (Inr enc, obj)
                    | Inl _ \<Rightarrow> from_trie))"
    have "so_GetCommittedState s obj key =
        (case fst p of Inl _ \<Rightarrow> (0, snd p)
         | Inr x \<Rightarrow> (let (v, err) = decode_slot x;
                         obj2 = (case err of None \<Rightarrow> snd p | Some e \<Rightarrow> so_setError e (snd p))
                     in (v, obj2\<lparr>originStorage := (originStorage obj2)(key \<mapsto> v)\<rparr>)))"
      using False unfolding so_GetCommittedState_def t from_trie_def p_def by (auto simp: Let_def split_beta)
    moreover have "cache_of s obj (snd p)"
      using c1 by (auto simp: p_def from_trie_def cache_of_setError split: option.split sum.split)
    moreover have "(case fst p of Inl _ \<Rightarrow> 0 | Inr x \<Rightarrow> fst (decode_slot x)) = load_slot s t (addrHash obj) key"
      by (auto simp: p_def from_trie_def load_slot_def split: option.split sum.split)
    moreover have "originStorage (snd p) key = None"
      using False or by (auto simp: p_def from_trie_def so_setError_def split: option.split sum.split)
    ultimately show ?thesis by (rule that)
  qed
  show ?thesis
  proof (cases enc)
    case (Inl x)
    then show ?thesis using e by simp
  next
    case (Inr x)
    obtain v err where v: "decode_slot x = (v, err)" by (cases "decode_slot x")
    define obj2 where "obj2 = (case err of None \<Rightarrow> obj1 | Some e \<Rightarrow> so_setError e obj1)"
    have c2: "cache_of s obj obj2"
      using e(2) by (auto simp: obj2_def cache_of_setError split: option.split)
    have "originStorage obj2 key = None"
      using e(4) by (auto simp: obj2_def so_setError_def split: option.split)
    moreover have "v = load_slot s (fst (so_getTrie s obj)) (addrHash obj) key"
      using e(3) Inr v t by simp
    ultimately have "cache_of s obj (obj2\<lparr>originStorage := (originStorage obj2)(key \<mapsto> v)\<rparr>)"
      using False by (intro cache_of_origin [OF c2]) auto
    then show ?thesis
      using e(1) Inr v by (simp add: obj2_def [symmetric])
  qed
qed


lemma cache_of_view: "cache_of s obj obj' \<Longrightarrow> obj_view s obj' = obj_view s obj"
proof -
  assume c: "cache_of s obj obj'"
  note f = cache_of_fields [OF c]
  have "fst (so_Code s obj') = fst (so_Code s obj)"
    unfolding so_Code_def f by (auto simp: Let_def split: option.split prod.split)
  moreover have "state_value s obj' k = state_value s obj k" for k
    unfolding state_value_def f ..
  ultimately show ?thesis
    unfolding obj_view_def code_bytes_def fst_GetCommittedState fst_GetState f by simp
qed

text \<open>An object replaced by one with the same identity and view.\<close>

definition same_obj :: "StateDB \<Rightarrow> stateObject \<Rightarrow> stateObject \<Rightarrow> bool" where
  "same_obj s obj obj' \<longleftrightarrow> so_address obj' = so_address obj \<and> addrHash obj' = addrHash obj \<and>
     fakeStorage obj' = fakeStorage obj \<and> obj_view s obj' = obj_view s obj"

lemma same_obj_refl [simp]: "same_obj s obj obj"
  by (simp add: same_obj_def)

lemma cache_of_same_obj: "cache_of s obj obj' \<Longrightarrow> same_obj s obj obj'"
  using cache_of_view cache_of_fields by (simp add: same_obj_def)

lemma same_obj_GetCommittedState: "same_obj s obj (snd (so_GetCommittedState s obj key))"
  by (rule cache_of_same_obj [OF so_GetCommittedState_cached])

lemma cache_of_GetState: "cache_of s obj (snd (so_GetState s obj key))"
  using so_GetCommittedState_cached by (auto simp: so_GetState_def split: option.split)

lemma same_obj_GetState: "same_obj s obj (snd (so_GetState s obj key))"
  by (rule cache_of_same_obj [OF cache_of_GetState])

lemma so_Code_fields:
  assumes "so_Code s obj = (c, obj')"
  shows "so_address obj' = so_address obj" "addrHash obj' = addrHash obj" "so_data obj' = so_data obj"
    "originStorage obj' = originStorage obj" "so_trie obj' = so_trie obj"
    "pendingStorage obj' = pendingStorage obj" "dirtyStorage obj' = dirtyStorage obj"
    "fakeStorage obj' = fakeStorage obj" "suicided obj' = suicided obj" "deleted obj' = deleted obj"
    "so_code obj' = c"
  using assms by (auto simp: so_Code_def so_setError_def Let_def split: option.splits if_splits prod.splits)

lemma so_Code_cached: "fst (so_Code s (snd (so_Code s obj))) = fst (so_Code s obj)"
proof -
  obtain c obj' where c: "so_Code s obj = (c, obj')" by (cases "so_Code s obj")
  note f = so_Code_fields [OF c]
  show ?thesis
  proof (cases c)
    case None
    then show ?thesis using c f unfolding so_Code_def
      by (auto simp: Let_def split: option.splits if_splits prod.splits)
  next
    case (Some x)
    then show ?thesis using c f(11) by (simp add: so_Code_def [of s obj'])
  qed
qed

lemma committed_value_fields:
  assumes "addrHash obj' = addrHash obj" "originStorage obj' = originStorage obj" "so_trie obj' = so_trie obj"
    "pendingStorage obj' = pendingStorage obj" "fakeStorage obj' = fakeStorage obj"
    "aRoot (so_data obj') = aRoot (so_data obj)"
  shows "committed_value s obj' = committed_value s obj"
proof -
  have e: "fst (so_getTrie s obj') = fst (so_getTrie s obj)"
    unfolding so_getTrie_def assms by (auto simp: Let_def split: option.split sum.split)
  show ?thesis unfolding committed_value_def assms e ..
qed

lemma same_obj_Code: "same_obj s obj (snd (so_Code s obj))"
proof -
  obtain c obj' where c: "so_Code s obj = (c, obj')" by (cases "so_Code s obj")
  note f = so_Code_fields [OF c]
  have k: "committed_value s obj' = committed_value s obj"
    using f by (intro committed_value_fields) simp_all
  have "state_value s obj' = state_value s obj"
    unfolding state_value_def f k ..
  then show ?thesis
    using c f k so_Code_cached [of s obj]
    by (simp add: same_obj_def obj_view_def code_bytes_def fst_GetCommittedState fst_GetState)
qed

lemma same_obj_CodeSize: "same_obj s obj (snd (so_CodeSize s obj))"
proof -
  have "\<exists>e. snd (so_CodeSize s obj) = obj \<or> snd (so_CodeSize s obj) = so_setError e obj"
    by (auto simp: so_CodeSize_def Let_def split: option.split prod.split)
  moreover have "same_obj s obj (so_setError e obj)" for e
    by (rule cache_of_same_obj [OF cache_of_setError [OF cache_of_refl]])
  ultimately show ?thesis by auto
qed

subsection \<open>Equivalence of states\<close>

lemma state_wf_obj: "state_wf s \<Longrightarrow> stateObjects s a = Some obj \<Longrightarrow> obj_wf s a obj"
  by (simp add: state_wf_def)

lemma peek_object_wf: "state_wf s \<Longrightarrow> peek_object s a = Some obj \<Longrightarrow> obj_wf s a obj"
  by (auto simp: peek_object_def state_wf_def split: option.splits sum.splits)

lemma eqv_refl: "state_wf s \<Longrightarrow> eqv s s"
  by (simp add: eqv_def)

lemma eqv_sym: "eqv s t \<Longrightarrow> eqv t s"
  by (simp add: eqv_def same_env_sym)

lemma eqv_trans: "eqv s t \<Longrightarrow> eqv t u \<Longrightarrow> eqv s u"
  using same_env_trans by (auto simp: eqv_def)

lemma eqv_wf: "eqv s t \<Longrightarrow> state_wf s" "eqv s t \<Longrightarrow> state_wf t"
  by (simp_all add: eqv_def)

lemma same_env_set [simp]: "same_env (setStateObject obj s) s"
  by (simp add: same_env_def setStateObject_def)

lemma peek_object_env:
  assumes "same_env t s" "stateObjects t a = stateObjects s a"
  shows "peek_object t a = peek_object s a"
  unfolding peek_object_def load_account_env [OF assms(1)] newObject_env [OF assms(1)] assms(2) ..

lemma peek_object_set [simp]:
  "peek_object (setStateObject obj s) a = (if a = so_address obj then Some obj else peek_object s a)"
proof (cases "a = so_address obj")
  case True
  then show ?thesis by (simp add: peek_object_def setStateObject_def)
next
  case False
  then have "stateObjects (setStateObject obj s) a = stateObjects s a" by (simp add: setStateObject_def)
  from peek_object_env [OF same_env_set this] show ?thesis using False by simp
qed

lemma acc_view_set: "acc_view (setStateObject obj s) = (acc_view s)(so_address obj \<mapsto> obj_view s obj)"
proof
  fix a
  have "obj_view (setStateObject obj s) = obj_view s"
    by (rule ext, rule obj_view_env [OF same_env_set]) (simp add: setStateObject_def)
  then show "acc_view (setStateObject obj s) a = ((acc_view s)(so_address obj \<mapsto> obj_view s obj)) a"
    by (simp add: acc_view_def)
qed

lemma state_wf_set: "state_wf s \<Longrightarrow> obj_wf s (so_address obj) obj \<Longrightarrow> state_wf (setStateObject obj s)"
  using env_ok_env [OF same_env_set] obj_wf_env [OF same_env_set]
  by (simp add: state_wf_def) (simp add: setStateObject_def)

lemma obj_wf_same: "same_obj s obj obj' \<Longrightarrow> obj_wf s a obj \<Longrightarrow> obj_wf s a obj'"
proof -
  assume s: "same_obj s obj obj'" and w: "obj_wf s a obj"
  have "v_codehash (obj_view s obj') = v_codehash (obj_view s obj)" using s by (simp add: same_obj_def)
  then have "aCodeHash (so_data obj') = aCodeHash (so_data obj)" by (simp add: obj_view_def)
  then show "obj_wf s a obj'" using s w by (simp add: obj_wf_def same_obj_def)
qed

lemma eqv_set_same:
  assumes "state_wf s" "peek_object s a = Some obj" "same_obj s obj obj'"
  shows "eqv (setStateObject obj' s) s"
proof -
  have wf: "obj_wf s a obj" by (rule peek_object_wf [OF assms(1,2)])
  then have a: "so_address obj' = a" "obj_wf s a obj'"
    using obj_wf_same [OF assms(3) wf] by (simp_all add: obj_wf_def)
  have "(acc_view s)(a \<mapsto> obj_view s obj') = acc_view s"
    using assms(2,3) by (intro fun_upd_idem) (simp add: acc_view_def same_obj_def)
  then have "acc_view (setStateObject obj' s) = acc_view s"
    by (simp add: acc_view_set a(1))
  then show ?thesis
    using assms(1) state_wf_set [of s obj'] a by (simp add: eqv_def) (simp add: setStateObject_def logs_of_def)
qed

definition same_journal :: "StateDB \<Rightarrow> StateDB \<Rightarrow> bool" where
  "same_journal s t \<longleftrightarrow> entries s = entries t \<and> validRevisions s = validRevisions t \<and> nextRevisionId s = nextRevisionId t"

lemma same_journal_refl [simp]: "same_journal s s"
  by (simp add: same_journal_def)

lemma same_journal_set [simp]: "same_journal (setStateObject obj s) s"
  by (simp add: same_journal_def setStateObject_def)

lemma same_journal_trans: "same_journal s t \<Longrightarrow> same_journal t u \<Longrightarrow> same_journal s u"
  by (simp add: same_journal_def)

lemma newObject_address [simp]: "so_address (newObject s a d) = a"
  by (simp add: newObject_def)

lemma eqv_setError: "state_wf s \<Longrightarrow> eqv (StateDB_setError e s) s"
proof -
  assume w: "state_wf s"
  let ?t = "StateDB_setError e s"
  have env: "same_env ?t s" by (simp add: same_env_def StateDB_setError_def)
  have st: "stateObjects ?t = stateObjects s" "snapDestructs ?t = snapDestructs s" "accList ?t = accList s"
    by (simp_all add: StateDB_setError_def)
  have ov: "obj_view ?t = obj_view s"
    by (rule ext, rule obj_view_env [OF env]) (simp add: st)
  have "acc_view ?t = acc_view s"
    by (rule ext) (simp add: acc_view_def peek_object_env [OF env] st ov)
  moreover have "state_wf ?t"
    using w by (simp add: state_wf_def st env_ok_env [OF env] obj_wf_env [OF env])
  ultimately show ?thesis
    using w env by (simp add: eqv_def st) (simp add: StateDB_setError_def logs_of_def)
qed

lemma getDeletedStateObject_spec:
  assumes "state_wf s" "getDeletedStateObject a s = (r, s')"
  shows "r = peek_object s a" "eqv s' s" "same_journal s' s"
    "r = Some obj \<Longrightarrow> stateObjects s' a = Some obj" "r = None \<Longrightarrow> stateObjects s' = stateObjects s"
proof -
  have "r = peek_object s a \<and> eqv s' s \<and> same_journal s' s \<and> (\<forall>obj. r = Some obj \<longrightarrow> stateObjects s' a = Some obj)
    \<and> (r = None \<longrightarrow> stateObjects s' = stateObjects s)"
  proof (cases "stateObjects s a")
    case (Some obj)
    then have "r = Some obj" "s' = s" using assms(2) by (simp_all add: getDeletedStateObject_def)
    then show ?thesis using Some assms(1) by (simp add: peek_object_def eqv_refl)
  next
    case None
    show ?thesis
    proof (cases "load_account s a")
      case (Inl e)
      then show ?thesis
        using assms None eqv_setError [OF assms(1)]
        by (auto simp: getDeletedStateObject_def peek_object_def same_journal_def StateDB_setError_def)
    next
      case (Inr d)
      show ?thesis
      proof (cases d)
        case None': None
        then show ?thesis using assms None Inr by (auto simp: getDeletedStateObject_def peek_object_def eqv_refl)
      next
        case (Some d')
        have p: "peek_object s a = Some (newObject s a d')"
          using None Inr Some by (simp add: peek_object_def)
        have "eqv (setStateObject (newObject s a d') s) s"
          by (rule eqv_set_same [OF assms(1) p same_obj_refl])
        then show ?thesis
          using assms(2) None Inr Some p by (auto simp: getDeletedStateObject_def Let_def setStateObject_def same_journal_def)
      qed
    qed
  qed
  then show "r = peek_object s a" "eqv s' s" "same_journal s' s"
    "r = Some obj \<Longrightarrow> stateObjects s' a = Some obj" "r = None \<Longrightarrow> stateObjects s' = stateObjects s" by blast+
qed

text \<open>An account exists for the getters when it is known and not deleted.\<close>

definition live :: "StateDB \<Rightarrow> address \<Rightarrow> stateObject option" where
  "live s a = (case peek_object s a of Some obj \<Rightarrow> if deleted obj then None else Some obj | None \<Rightarrow> None)"

lemma getStateObject_spec:
  assumes "state_wf s" "getStateObject a s = (r, s')"
  shows "r = live s a" "eqv s' s" "same_journal s' s" "r = Some obj \<Longrightarrow> peek_object s' a = Some obj"
    "state_wf s'"
proof -
  obtain r0 where g: "getDeletedStateObject a s = (r0, s')" "r = (case r0 of Some obj \<Rightarrow> if deleted obj then None else Some obj | None \<Rightarrow> None)"
    using assms(2) by (auto simp: getStateObject_def split: prod.splits option.splits if_splits)
  note d = getDeletedStateObject_spec [OF assms(1) g(1)]
  show "r = live s a" "eqv s' s" "same_journal s' s" "state_wf s'" using d(1-3) g(2) by (auto simp: live_def eqv_def)
  show "r = Some obj \<Longrightarrow> peek_object s' a = Some obj"
    using d(4) g(2) by (auto simp: peek_object_def split: option.splits if_splits)
qed

lemma live_view: "live s a = Some obj \<Longrightarrow> acc_view s a = Some (obj_view s obj) \<and> \<not> deleted obj"
  by (auto simp: live_def acc_view_def split: option.splits if_splits)

lemma live_None_view: "live s a = None \<longleftrightarrow> (case acc_view s a of None \<Rightarrow> True | Some v \<Rightarrow> v_deleted v)"
  by (auto simp: live_def acc_view_def obj_view_def split: option.splits)


lemma acc_view_frame:
  assumes "same_env t s" "stateObjects t = stateObjects s" "snapDestructs t = snapDestructs s"
  shows "acc_view t = acc_view s"
proof
  fix a
  have ov: "obj_view t = obj_view s"
    by (rule ext, rule obj_view_env [OF assms(1)]) (simp add: assms(3))
  show "acc_view t a = acc_view s a"
    by (simp add: acc_view_def peek_object_env [OF assms(1)] assms(2) ov)
qed

lemma state_wf_frame:
  assumes "same_env t s" "stateObjects t = stateObjects s" "state_wf s"
  shows "state_wf t"
  using assms(3) by (simp add: state_wf_def assms(2) env_ok_env [OF assms(1)] obj_wf_env [OF assms(1)])

text \<open>The fields that the equivalence compares directly.\<close>

definition same_rest :: "StateDB \<Rightarrow> StateDB \<Rightarrow> bool" where
  "same_rest s t \<longleftrightarrow> snapDestructs s = snapDestructs t \<and> refund s = refund t \<and> logs s = logs t \<and>
     logSize s = logSize t \<and> preimages s = preimages t \<and> accList s = accList t \<and> thash s = thash t \<and>
     txIndex s = txIndex t"

lemma eqv_frame:
  assumes "state_wf s" "same_env t s" "stateObjects t = stateObjects s" "same_rest t s"
  shows "eqv t s"
  using acc_view_frame [OF assms(2,3)] state_wf_frame [OF assms(2,3,1)] assms
  by (simp add: eqv_def same_rest_def logs_of_def state_wf_def)

lemma obj_view_eqv: "eqv s t \<Longrightarrow> obj_view t = obj_view s"
  by (rule ext, rule obj_view_env) (auto simp: eqv_def same_env_sym)

lemma eqv_set:
  assumes "eqv s t" "obj_wf s a o1" "obj_wf s a o2" "obj_view s o1 = obj_view s o2"
  shows "eqv (setStateObject o1 s) (setStateObject o2 t)"
proof -
  have e: "same_env s t" and w: "state_wf s" "state_wf t" using assms(1) by (simp_all add: eqv_def)
  have a: "so_address o1 = a" "so_address o2 = a" "obj_wf t a o2"
    using assms(2,3) obj_wf_env [OF e] by (simp_all add: obj_wf_def)
  have "state_wf (setStateObject o1 s)" "state_wf (setStateObject o2 t)"
    using w assms(2) a by (simp_all add: state_wf_set)
  moreover have "acc_view (setStateObject o1 s) = acc_view (setStateObject o2 t)"
    using assms(1,4) by (simp add: acc_view_set a obj_view_eqv) (simp add: eqv_def)
  moreover have "same_env (setStateObject o1 s) (setStateObject o2 t)"
    using same_env_trans [OF same_env_trans [OF same_env_set e]] same_env_sym [OF same_env_set] by blast
  ultimately show ?thesis
    using assms(1) by (simp add: eqv_def) (simp add: setStateObject_def logs_of_def)
qed

text \<open>The journalled updates of an object, seen through its view.\<close>

lemma state_value_upd:
  assumes "committed_value s obj' = committed_value s obj" "dirtyStorage obj' = dirtyStorage obj"
    "fakeStorage obj' = fakeStorage obj"
  shows "state_value s obj' = state_value s obj"
  unfolding state_value_def assms ..

lemma view_setBalance: "obj_view s (so_setBalance b obj) = (obj_view s obj)\<lparr>v_balance := b\<rparr>"
proof -
  let ?o = "so_setBalance b obj"
  have c: "committed_value s ?o = committed_value s obj"
    by (rule committed_value_fields) (simp_all add: so_setBalance_def)
  have "state_value s ?o = state_value s obj"
    by (rule state_value_upd [OF c]) (simp_all add: so_setBalance_def)
  moreover have "fst (so_Code s ?o) = fst (so_Code s obj)"
    unfolding so_Code_def by (auto simp: so_setBalance_def Let_def split: option.split prod.split)
  ultimately show ?thesis
    using c by (simp add: obj_view_def code_bytes_def fst_GetCommittedState fst_GetState) (simp add: so_setBalance_def)
qed

lemma view_setNonce: "obj_view s (so_setNonce n obj) = (obj_view s obj)\<lparr>v_nonce := n\<rparr>"
proof -
  let ?o = "so_setNonce n obj"
  have c: "committed_value s ?o = committed_value s obj"
    by (rule committed_value_fields) (simp_all add: so_setNonce_def)
  have "state_value s ?o = state_value s obj"
    by (rule state_value_upd [OF c]) (simp_all add: so_setNonce_def)
  moreover have "fst (so_Code s ?o) = fst (so_Code s obj)"
    unfolding so_Code_def by (auto simp: so_setNonce_def Let_def split: option.split prod.split)
  ultimately show ?thesis
    using c by (simp add: obj_view_def code_bytes_def fst_GetCommittedState fst_GetState) (simp add: so_setNonce_def)
qed

lemma view_suicided: "obj_view s (obj\<lparr>suicided := b\<rparr>) = (obj_view s obj)\<lparr>v_suicided := b\<rparr>"
proof -
  let ?o = "obj\<lparr>suicided := b\<rparr>"
  have c: "committed_value s ?o = committed_value s obj"
    by (rule committed_value_fields) simp_all
  have "state_value s ?o = state_value s obj"
    by (rule state_value_upd [OF c]) simp_all
  moreover have "fst (so_Code s ?o) = fst (so_Code s obj)"
    unfolding so_Code_def by (auto simp: Let_def split: option.split prod.split)
  ultimately show ?thesis
    using c by (simp add: obj_view_def code_bytes_def fst_GetCommittedState fst_GetState)
qed

lemma view_setState:
  assumes "fakeStorage obj = None"
  shows "obj_view s (so_setState k v obj) = (obj_view s obj)\<lparr>v_storage := (v_storage (obj_view s obj))(k := v)\<rparr>"
proof -
  let ?o = "so_setState k v obj"
  have c: "committed_value s ?o = committed_value s obj"
    by (rule committed_value_fields) (simp_all add: so_setState_def)
  have "state_value s ?o = (state_value s obj)(k := v)"
    by (rule ext) (simp add: state_value_def so_setState_def c [unfolded so_setState_def] assms split: option.split)
  moreover have "fst (so_Code s ?o) = fst (so_Code s obj)"
    unfolding so_Code_def by (auto simp: so_setState_def Let_def split: option.split prod.split)
  ultimately show ?thesis
    using c by (simp add: obj_view_def code_bytes_def fst_GetCommittedState fst_GetState)
      (simp add: so_setState_def fun_upd_def)
qed

definition code_of :: "StateDB \<Rightarrow> hash \<Rightarrow> hash \<Rightarrow> bytes option \<Rightarrow> bytes" where
  "code_of s ah h c = (case c of Some x \<Rightarrow> x | None \<Rightarrow>
     if h = emptyCodeHash s then [] else (case fst (ContractCode s ah h) of None \<Rightarrow> [] | Some x \<Rightarrow> x))"

lemma view_setCode:
  "obj_view s (so_setCode h c obj) = (obj_view s obj)\<lparr>v_codehash := Some h, v_code := code_of s (addrHash obj) h c\<rparr>"
proof -
  let ?o = "so_setCode h c obj"
  have k: "committed_value s ?o = committed_value s obj"
    by (rule committed_value_fields) (simp_all add: so_setCode_def)
  have "state_value s ?o = state_value s obj"
    by (rule state_value_upd [OF k]) (simp_all add: so_setCode_def)
  moreover have "code_bytes s ?o = code_of s (addrHash obj) h c"
    by (auto simp: code_bytes_def so_Code_def so_setCode_def code_of_def BytesToHash_def Let_def split: option.split prod.split)
  ultimately show ?thesis
    using k by (simp add: obj_view_def fst_GetCommittedState fst_GetState) (simp add: so_setCode_def)
qed

lemma obj_wf_upd [simp]:
  "obj_wf s a (so_setBalance b obj) \<longleftrightarrow> obj_wf s a obj" "obj_wf s a (so_setNonce n obj) \<longleftrightarrow> obj_wf s a obj"
  "obj_wf s a (so_setState k v obj) \<longleftrightarrow> obj_wf s a obj" "obj_wf s a obj \<Longrightarrow> obj_wf s a (so_setCode h c obj)"
  "obj_wf s a (obj\<lparr>suicided := x\<rparr>) \<longleftrightarrow> obj_wf s a obj"
  by (simp_all add: obj_wf_def so_setBalance_def so_setNonce_def so_setState_def so_setCode_def)

lemma live_eqv:
  assumes "eqv s t"
  shows "(live s a = None) = (live t a = None)"
    "live s a = Some o1 \<Longrightarrow> live t a = Some o2 \<Longrightarrow> obj_view s o1 = obj_view s o2 \<and> obj_wf s a o1 \<and> obj_wf s a o2"
proof -
  have v: "acc_view s a = acc_view t a" using assms by (simp add: eqv_def)
  then show "(live s a = None) = (live t a = None)" by (simp add: live_None_view)
  assume o: "live s a = Some o1" "live t a = Some o2"
  have e: "same_env s t" using assms by (simp add: eqv_def)
  have "peek_object s a = Some o1" "peek_object t a = Some o2"
    using o by (auto simp: live_def split: option.splits if_splits)
  then have "obj_wf s a o1" "obj_wf s a o2"
    using peek_object_wf eqv_wf [OF assms] obj_wf_env [OF e] by blast+
  then show "obj_view s o1 = obj_view s o2 \<and> obj_wf s a o1 \<and> obj_wf s a o2"
    using v o live_view [of s a o1] live_view [of t a o2] by (simp add: obj_view_eqv [OF assms])
qed

lemma modify_object_cong:
  assumes "eqv s t" "modify_object a f s = Ok s'"
    "\<And>o1 o2. obj_wf s a o1 \<Longrightarrow> obj_wf s a o2 \<Longrightarrow> obj_view s o1 = obj_view s o2 \<Longrightarrow>
      obj_wf s a (f o1) \<and> obj_wf s a (f o2) \<and> obj_view s (f o1) = obj_view s (f o2)"
  shows "\<exists>t'. modify_object a f t = Ok t' \<and> eqv s' t'"
proof -
  obtain o1 s1 where s1: "getStateObject a s = (Some o1, s1)" "s' = setStateObject (f o1) s1"
    using assms(2) by (auto simp: modify_object_def split: prod.splits option.splits)
  note S = getStateObject_spec [OF eqv_wf(1) [OF assms(1)] s1(1)]
  obtain r t1 where t1: "getStateObject a t = (r, t1)" by (cases "getStateObject a t")
  note T = getStateObject_spec [OF eqv_wf(2) [OF assms(1)] t1]
  obtain o2 where o2: "r = Some o2" "live t a = Some o2" "live s a = Some o1"
    using live_eqv(1) [OF assms(1), of a] S(1) T(1) by (cases r) auto
  note L = live_eqv(2) [OF assms(1) o2(3,2)]
  have e1: "eqv s1 t1" using eqv_trans [OF S(2) eqv_trans [OF assms(1) eqv_sym [OF T(2)]]] .
  have ss: "obj_wf s1 a = obj_wf s a" "obj_view s1 = obj_view s"
    using obj_wf_env [of s s1] obj_view_eqv [OF eqv_sym [OF S(2)]] eqv_sym [OF S(2)] by (auto simp: eqv_def fun_eq_iff)
  have "eqv (setStateObject (f o1) s1) (setStateObject (f o2) t1)"
    using assms(3) [of o1 o2] L by (intro eqv_set [OF e1, of a]) (simp_all add: ss)
  then show ?thesis
    using s1(2) t1 o2(1) by (simp add: modify_object_def)
qed

lemma same_env_undirty [simp]: "same_env (journal_undirty e s) s"
  by (simp add: same_env_def journal_undirty_def Let_def split: option.split)

lemma eqv_undirty: "state_wf s \<Longrightarrow> eqv (journal_undirty e s) s"
  by (rule eqv_frame [OF _ same_env_undirty])
    (simp_all add: journal_undirty_def same_rest_def Let_def split: option.split)

lemma eqv_upd:
  assumes "eqv s t"
  shows "eqv (s\<lparr>refund := r\<rparr>) (t\<lparr>refund := r\<rparr>)"
    "eqv (s\<lparr>preimages := p\<rparr>) (t\<lparr>preimages := p\<rparr>)"
    "eqv (s\<lparr>accList := al\<rparr>) (t\<lparr>accList := al\<rparr>)"
    "(\<forall>h. logs_of h (s\<lparr>logs := l1\<rparr>) = logs_of h (t\<lparr>logs := l2\<rparr>)) \<Longrightarrow>
      eqv (s\<lparr>logs := l1, logSize := n\<rparr>) (t\<lparr>logs := l2, logSize := n\<rparr>)"
proof -
  have w: "state_wf s" "state_wf t" and e: "same_env s t" using assms by (simp_all add: eqv_def)
  show "eqv (s\<lparr>refund := r\<rparr>) (t\<lparr>refund := r\<rparr>)"
    using assms acc_view_frame [of "s\<lparr>refund := r\<rparr>" s] acc_view_frame [of "t\<lparr>refund := r\<rparr>" t]
      state_wf_frame [of "s\<lparr>refund := r\<rparr>" s] state_wf_frame [of "t\<lparr>refund := r\<rparr>" t] w
    by (simp add: eqv_def same_env_def logs_of_def state_wf_def)
  show "eqv (s\<lparr>preimages := p\<rparr>) (t\<lparr>preimages := p\<rparr>)"
    using assms acc_view_frame [of "s\<lparr>preimages := p\<rparr>" s] acc_view_frame [of "t\<lparr>preimages := p\<rparr>" t]
      state_wf_frame [of "s\<lparr>preimages := p\<rparr>" s] state_wf_frame [of "t\<lparr>preimages := p\<rparr>" t] w
    by (simp add: eqv_def same_env_def logs_of_def state_wf_def)
  show "eqv (s\<lparr>accList := al\<rparr>) (t\<lparr>accList := al\<rparr>)"
    using assms acc_view_frame [of "s\<lparr>accList := al\<rparr>" s] acc_view_frame [of "t\<lparr>accList := al\<rparr>" t]
      state_wf_frame [of "s\<lparr>accList := al\<rparr>" s] state_wf_frame [of "t\<lparr>accList := al\<rparr>" t] w
    by (simp add: eqv_def same_env_def logs_of_def)
  show "eqv (s\<lparr>logs := l1, logSize := n\<rparr>) (t\<lparr>logs := l2, logSize := n\<rparr>)"
    if "\<forall>h. logs_of h (s\<lparr>logs := l1\<rparr>) = logs_of h (t\<lparr>logs := l2\<rparr>)"
    using assms acc_view_frame [of "s\<lparr>logs := l1, logSize := n\<rparr>" s] acc_view_frame [of "t\<lparr>logs := l2, logSize := n\<rparr>" t]
      state_wf_frame [of "s\<lparr>logs := l1, logSize := n\<rparr>" s] state_wf_frame [of "t\<lparr>logs := l2, logSize := n\<rparr>" t] w that
    by (simp add: eqv_def same_env_def logs_of_def state_wf_def)
qed

lemma getStateObject_eqv:
  assumes "eqv s t" "getStateObject a s = (r, s1)" "getStateObject a t = (r', t1)"
  shows "eqv s1 t1" "(r = None) = (r' = None)"
    "r = Some o1 \<Longrightarrow> r' = Some o2 \<Longrightarrow> obj_wf s1 a o1 \<and> obj_wf s1 a o2 \<and> obj_view s1 o1 = obj_view s1 o2"
proof -
  note S = getStateObject_spec [OF eqv_wf(1) [OF assms(1)] assms(2)]
  note T = getStateObject_spec [OF eqv_wf(2) [OF assms(1)] assms(3)]
  show "eqv s1 t1" using eqv_trans [OF S(2) eqv_trans [OF assms(1) eqv_sym [OF T(2)]]] .
  show "(r = None) = (r' = None)" using live_eqv(1) [OF assms(1), of a] S(1) T(1) by simp
  have ss: "obj_wf s1 a = obj_wf s a" "obj_view s1 = obj_view s"
    using obj_wf_env [of s s1] obj_view_eqv [OF eqv_sym [OF S(2)]] eqv_sym [OF S(2)] by (auto simp: eqv_def fun_eq_iff)
  assume "r = Some o1" "r' = Some o2"
  then show "obj_wf s1 a o1 \<and> obj_wf s1 a o2 \<and> obj_view s1 o1 = obj_view s1 o2"
    using live_eqv(2) [OF assms(1), of a o1 o2] S(1) T(1) by (simp add: ss)
qed

definition loaded_object :: "StateDB \<Rightarrow> address \<Rightarrow> stateObject option" where
  "loaded_object s a = (case load_account s a of Inr (Some d) \<Rightarrow> Some (newObject s a d) | _ \<Rightarrow> None)"

lemma loaded_object_env:
  assumes "same_env s t"
  shows "loaded_object s a = loaded_object t a"
  unfolding loaded_object_def load_account_env [OF assms] newObject_env [OF assms] ..

lemma peek_object_None: "stateObjects s a = None \<Longrightarrow> peek_object s a = loaded_object s a"
  by (simp add: peek_object_def loaded_object_def)

lemma eqv_delete:
  assumes "eqv s t"
  shows "eqv (s\<lparr>stateObjects := (stateObjects s)(a := None), stateObjectsDirty := d\<rparr>)
    (t\<lparr>stateObjects := (stateObjects t)(a := None), stateObjectsDirty := d'\<rparr>)"
proof -
  have env: "same_env s t" and w: "state_wf s" "state_wf t" and D: "snapDestructs s = snapDestructs t"
    using assms by (simp_all add: eqv_def)
  have av: "acc_view (u\<lparr>stateObjects := (stateObjects u)(a := None), stateObjectsDirty := e\<rparr>)
      = (acc_view u)(a := map_option (obj_view u) (loaded_object u a))" for u e
  proof
    fix b
    let ?u = "u\<lparr>stateObjects := (stateObjects u)(a := None), stateObjectsDirty := e\<rparr>"
    have ue: "same_env ?u u" by (simp add: same_env_def)
    have ov: "obj_view ?u = obj_view u" by (rule ext, rule obj_view_env [OF ue]) simp
    show "acc_view ?u b = ((acc_view u)(a := map_option (obj_view u) (loaded_object u a))) b"
      by (simp add: acc_view_def ov peek_object_None loaded_object_env [OF ue] peek_object_env [OF ue])
  qed
  have wf: "state_wf (u\<lparr>stateObjects := (stateObjects u)(a := None), stateObjectsDirty := e\<rparr>)" if "state_wf u" for u e
    using that by (simp add: state_wf_def env_ok_def obj_wf_def)
  show ?thesis
    using assms av wf [OF w(1)] wf [OF w(2)] loaded_object_env [OF env] obj_view_eqv [OF assms]
    by (simp add: eqv_def same_env_def logs_of_def)
qed

lemma obj_view_destructs:
  assumes "addrHash obj \<noteq> h"
  shows "obj_view (s\<lparr>snapDestructs := insert h (snapDestructs s)\<rparr>) obj = obj_view s obj"
    "obj_view (s\<lparr>snapDestructs := snapDestructs s - {h}\<rparr>) obj = obj_view s obj"
  by (rule obj_view_env, use assms in \<open>simp_all add: same_env_def\<close>)+

lemma addrHash_inj:
  "env_ok s \<Longrightarrow> obj_wf s a o1 \<Longrightarrow> obj_wf s b o2 \<Longrightarrow> a \<noteq> b \<Longrightarrow> addrHash o1 \<noteq> addrHash o2"
  unfolding env_ok_def obj_wf_def by (metis injD)

text \<open>The set of destructed accounts changes only the view of the account itself.\<close>

lemma acc_view_destructs:
  assumes "state_wf s" "obj_wf s a p" "D = insert (addrHash p) (snapDestructs s) \<or> D = snapDestructs s - {addrHash p}"
    "b \<noteq> a"
  shows "acc_view (s\<lparr>snapDestructs := D\<rparr>) b = acc_view s b"
proof -
  have e: "same_env (s\<lparr>snapDestructs := D\<rparr>) s" by (simp add: same_env_def)
  have p: "peek_object (s\<lparr>snapDestructs := D\<rparr>) b = peek_object s b" by (rule peek_object_env [OF e]) simp
  show ?thesis
  proof (cases "peek_object s b")
    case None
    then show ?thesis using p by (simp add: acc_view_def)
  next
    case (Some obj)
    have "addrHash obj \<noteq> addrHash p"
      using addrHash_inj [OF _ peek_object_wf [OF assms(1) Some] assms(2)] assms(1,4) by (auto simp: state_wf_def)
    then show ?thesis using p Some assms(3) obj_view_destructs [of obj "addrHash p" s] by (auto simp: acc_view_def)
  qed
qed

lemma eqv_undestruct:
  assumes "eqv s t" "obj_wf s a p" "peek_object s a = Some p" "peek_object t a = Some p"
  shows "eqv (s\<lparr>snapDestructs := snapDestructs s - {addrHash p}\<rparr>) (t\<lparr>snapDestructs := snapDestructs t - {addrHash p}\<rparr>)"
proof -
  have env: "same_env s t" and w: "state_wf s" "state_wf t" and D: "snapDestructs s = snapDestructs t"
    using assms by (simp_all add: eqv_def)
  let ?s = "s\<lparr>snapDestructs := snapDestructs s - {addrHash p}\<rparr>" and ?t = "t\<lparr>snapDestructs := snapDestructs t - {addrHash p}\<rparr>"
  have es: "same_env ?s s" "same_env ?t t" by (simp_all add: same_env_def)
  have est: "same_env ?s ?t" using env by (simp add: same_env_def)
  have "acc_view ?s b = acc_view ?t b" for b
  proof (cases "b = a")
    case True
    have "obj_view ?s p = obj_view ?t p" by (rule obj_view_env [OF est]) (simp add: D)
    moreover have "peek_object ?s a = Some p" "peek_object ?t a = Some p"
      using peek_object_env [OF es(1), of a] peek_object_env [OF es(2), of a] assms(3,4) by simp_all
    ultimately show ?thesis using True by (simp add: acc_view_def)
  next
    case False
    have "obj_wf t a p" using assms(2) obj_wf_env [OF env] by simp
    then show ?thesis
      using acc_view_destructs [OF w(1) assms(2) _ False] acc_view_destructs [OF w(2) _ _ False, of p] assms(1)
      by (simp add: eqv_def)
  qed
  moreover have "state_wf ?s" "state_wf ?t"
    using w state_wf_frame [OF es(1)] state_wf_frame [OF es(2)] by simp_all
  ultimately show ?thesis
    using assms(1) est by (simp add: eqv_def fun_eq_iff logs_of_def)
qed

lemma revert_cong:
  assumes "eqv s t" "fits e s" "revert_entry e s = Ok s'"
  shows "\<exists>t'. revert_entry e t = Ok t' \<and> eqv s' t'"
proof -
  have env: "same_env s t" and w: "state_wf s" "state_wf t" using assms(1) by (simp_all add: eqv_def)
  show ?thesis
  proof (cases e)
    case (createObjectChange a)
    then show ?thesis using eqv_delete [OF assms(1)] assms(3) by (auto simp: revert_entry_def)
  next
    case (resetObjectChange prev pd)
    let ?a = "so_address prev"
    have p: "obj_wf s ?a prev" using assms(2) resetObjectChange by (simp add: fits_def)
    have e1: "eqv (setStateObject prev s) (setStateObject prev t)"
      by (rule eqv_set [OF assms(1) p p refl])
    have "eqv (setStateObject prev s\<lparr>snapDestructs := snapDestructs (setStateObject prev s) - {addrHash prev}\<rparr>)
       (setStateObject prev t\<lparr>snapDestructs := snapDestructs (setStateObject prev t) - {addrHash prev}\<rparr>)"
      using p obj_wf_env [OF same_env_set] by (intro eqv_undestruct [OF e1, of ?a]) simp_all
    moreover have "snap (setStateObject prev s) = snap (setStateObject prev t)"
      using env by (simp add: setStateObject_def same_env_def)
    ultimately show ?thesis
      using e1 assms(3) resetObjectChange by (auto simp: revert_entry_def Let_def split: if_splits)
  next
    case (suicideChange a b bal)
    obtain r s1 r' t1 where g: "getStateObject a s = (r, s1)" "getStateObject a t = (r', t1)"
      by (cases "getStateObject a s"; cases "getStateObject a t")
    note G = getStateObject_eqv [OF assms(1) g]
    show ?thesis
    proof (cases r)
      case None
      then show ?thesis using G(1,2) g assms(3) suicideChange by (simp add: revert_entry_def)
    next
      case (Some o1)
      then obtain o2 where o2: "r' = Some o2" using G(2) by (cases r') auto
      note v = G(3) [OF Some o2]
      have "eqv (setStateObject (so_setBalance bal (o1\<lparr>suicided := b\<rparr>)) s1)
          (setStateObject (so_setBalance bal (o2\<lparr>suicided := b\<rparr>)) t1)"
        using v by (intro eqv_set [OF G(1), of a]) (simp_all add: view_setBalance view_suicided)
      then show ?thesis using Some o2 g assms(3) suicideChange by (simp add: revert_entry_def)
    qed
  next
    case (balanceChange a b)
    then show ?thesis
      using modify_object_cong [OF assms(1), of a "so_setBalance b" s'] assms(3)
      by (simp add: revert_entry_def view_setBalance)
  next
    case (nonceChange a n)
    then show ?thesis
      using modify_object_cong [OF assms(1), of a "so_setNonce n" s'] assms(3)
      by (simp add: revert_entry_def view_setNonce)
  next
    case (storageChange a k v)
    have "\<exists>t'. modify_object a (so_setState k v) t = Ok t' \<and> eqv s' t'"
    proof (rule modify_object_cong [OF assms(1)])
      show "modify_object a (so_setState k v) s = Ok s'"
        using assms(3) storageChange by (simp add: revert_entry_def)
      fix o1 o2
      assume o: "obj_wf s a o1" "obj_wf s a o2" "obj_view s o1 = obj_view s o2"
      then have "fakeStorage o1 = None" "fakeStorage o2 = None" by (simp_all add: obj_wf_def)
      with o show "obj_wf s a (so_setState k v o1) \<and> obj_wf s a (so_setState k v o2) \<and>
          obj_view s (so_setState k v o1) = obj_view s (so_setState k v o2)"
        by (simp add: view_setState)
    qed
    then show ?thesis using storageChange by (simp add: revert_entry_def)
  next
    case (codeChange a c h)
    have "\<exists>t'. modify_object a (so_setCode (BytesToHash h) c) t = Ok t' \<and> eqv s' t'"
    proof (rule modify_object_cong [OF assms(1)])
      show "modify_object a (so_setCode (BytesToHash h) c) s = Ok s'"
        using assms(3) codeChange by (simp add: revert_entry_def)
      fix o1 o2
      assume o: "obj_wf s a o1" "obj_wf s a o2" "obj_view s o1 = obj_view s o2"
      then have "addrHash o1 = addrHash o2" by (simp add: obj_wf_def)
      with o show "obj_wf s a (so_setCode (BytesToHash h) c o1) \<and> obj_wf s a (so_setCode (BytesToHash h) c o2) \<and>
          obj_view s (so_setCode (BytesToHash h) c o1) = obj_view s (so_setCode (BytesToHash h) c o2)"
        by (simp add: view_setCode)
    qed
    then show ?thesis using codeChange by (simp add: revert_entry_def)
  next
    case (refundChange r)
    then show ?thesis using eqv_upd(1) [OF assms(1)] assms(3) by (auto simp: revert_entry_def)
  next
    case (addLogChange h)
    have l: "logs_of h' s = logs_of h' t" "logSize s = logSize t" for h' using assms(1) by (simp_all add: eqv_def)
    have "eqv (s\<lparr>logs := (logs s)(h := x), logSize := logSize s - 1\<rparr>) (t\<lparr>logs := (logs t)(h := x), logSize := logSize t - 1\<rparr>)" for x
      using l eqv_upd(4) [OF assms(1), of "(logs s)(h := x)" "(logs t)(h := x)" "logSize s - 1"]
      by (simp add: logs_of_def)
    then show ?thesis
      using assms(3) l(1) [of h] addLogChange by (auto simp: revert_entry_def Let_def split: if_splits)
  next
    case (addPreimageChange h)
    have "preimages s = preimages t" using assms(1) by (simp add: eqv_def)
    then show ?thesis using eqv_upd(2) [OF assms(1)] assms(3) addPreimageChange by (auto simp: revert_entry_def)
  next
    case (touchChange a)
    then show ?thesis using assms by (auto simp: revert_entry_def)
  next
    case (accessListAddAccountChange a)
    have "accList s = accList t" using assms(1) by (simp add: eqv_def)
    then show ?thesis
      using eqv_upd(3) [OF assms(1)] assms(3) accessListAddAccountChange by (auto simp: revert_entry_def)
  next
    case (accessListAddSlotChange a sl)
    have "accList s = accList t" using assms(1) by (simp add: eqv_def)
    then show ?thesis
      using eqv_upd(3) [OF assms(1)] assms(3) accessListAddSlotChange by (auto simp: revert_entry_def)
  qed
qed


lemma getStateObject_env: "getStateObject a s = (r, s') \<Longrightarrow> same_env s' s"
  by (auto simp: getStateObject_def getDeletedStateObject_def StateDB_setError_def setStateObject_def same_env_def Let_def
      split: prod.splits option.splits sum.splits if_splits)

lemma revert_entry_env: "revert_entry e s = Ok s' \<Longrightarrow> same_env s' s"
  by (cases e)
    (auto simp: revert_entry_def modify_object_def same_env_def Let_def setStateObject_def
      split: prod.splits option.splits if_splits dest!: getStateObject_env)

interpretation sdb: journal undo entries fits eqv
proof
  show "eqv s t \<Longrightarrow> eqv t s" for s t by (rule eqv_sym)
  show "eqv s t \<Longrightarrow> eqv t u \<Longrightarrow> eqv s u" for s t u by (rule eqv_trans)
  show "eqv s t \<Longrightarrow> fits e s \<Longrightarrow> fits e t" for s t e using fits_env [of s t e] by (simp add: eqv_def)
  show "undo e s = Ok s' \<Longrightarrow> fits d s \<Longrightarrow> fits d s'" for s e d s'
    using fits_env [OF same_env_trans [OF same_env_undirty revert_entry_env]] by (auto simp: undo_def)
  show "\<exists>t'. undo e t = Ok t' \<and> eqv s' t'" if a: "eqv s t" "fits e s" "undo e s = Ok s'" for s t e s'
  proof -
    obtain s1 where s1: "revert_entry e s = Ok s1" "s' = journal_undirty e s1" using a(3) by (auto simp: undo_def)
    obtain t1 where t1: "revert_entry e t = Ok t1" "eqv s1 t1" using revert_cong [OF a(1,2) s1(1)] by blast
    have "eqv s' (journal_undirty e t1)"
      using eqv_trans [OF eqv_undirty [OF eqv_wf(1) [OF t1(2)]] eqv_trans [OF t1(2) eqv_sym [OF eqv_undirty [OF eqv_wf(2) [OF t1(2)]]]]]
      by (simp add: s1(2))
    then show ?thesis using t1(1) by (simp add: undo_def)
  qed
qed


end
