(* ===== verification/Revert.thy ===== *)
theory Revert
  imports StateView
begin

text \<open>
  Reverting to a snapshot. Every operation of the state database evolves it: the entries it adds to
  the journal undo what it did. So \<^verbatim>\<open>RevertToSnapshot\<close> restores the answers of every
  getter, whatever was done since the snapshot, inner snapshots and their reversions included.
\<close>

section \<open>Operations evolve the state\<close>

definition revs_wf :: "StateDB \<Rightarrow> bool" where
  "revs_wf s \<longleftrightarrow> (\<forall>r \<in> set (validRevisions s). rev_id r < nextRevisionId s)"

definition sdb_ok :: "StateDB \<Rightarrow> bool" where
  "sdb_ok s \<longleftrightarrow> state_wf s \<and> al_wf (accList s) \<and> revs_wf s"

definition evolves :: "StateDB \<Rightarrow> StateDB \<Rightarrow> bool" where
  "evolves s s' \<longleftrightarrow> sdb_ok s \<and> sdb_ok s' \<and> same_env s s' \<and> sdb.undoable s s' \<and>
     nextRevisionId s \<le> nextRevisionId s' \<and>
     (\<exists>new. validRevisions s' = validRevisions s @ new \<and> (\<forall>r \<in> set new. nextRevisionId s \<le> rev_id r))"

lemma evolves_ok: "evolves s s' \<Longrightarrow> sdb_ok s" "evolves s s' \<Longrightarrow> sdb_ok s'"
  by (simp_all add: evolves_def)

lemma sdb_ok_wf: "sdb_ok s \<Longrightarrow> state_wf s"
  by (simp add: sdb_ok_def)

lemma evolves_refl: "sdb_ok s \<Longrightarrow> evolves s s"
  by (auto simp: evolves_def sdb_ok_def intro: sdb.undoable_refl eqv_refl)

lemma evolves_trans [trans]:
  assumes "evolves s t" "evolves t u"
  shows "evolves s u"
proof -
  obtain n1 n2 where "validRevisions t = validRevisions s @ n1" "\<forall>r\<in>set n1. nextRevisionId s \<le> rev_id r"
    "validRevisions u = validRevisions t @ n2" "\<forall>r\<in>set n2. nextRevisionId t \<le> rev_id r"
    using assms unfolding evolves_def by blast
  moreover have "nextRevisionId s \<le> nextRevisionId t" using assms(1) by (simp add: evolves_def)
  ultimately have "validRevisions u = validRevisions s @ n1 @ n2 \<and> (\<forall>r\<in>set (n1 @ n2). nextRevisionId s \<le> rev_id r)"
    by (auto intro: order_trans)
  then show ?thesis
    using assms sdb.undoable_trans [of s t u] same_env_trans [of s t u] unfolding evolves_def
    by (metis order_trans)
qed

lemma sdb_ok_same:
  assumes "sdb_ok s" "eqv s' s" "same_journal s' s"
  shows "sdb_ok s'"
proof -
  have "accList s' = accList s" "state_wf s'" using assms(2) by (simp_all add: eqv_def)
  then show ?thesis using assms(1,3) by (simp add: sdb_ok_def revs_wf_def same_journal_def)
qed

lemma evolves_unlogged:
  assumes "sdb_ok s" "eqv s' s" "same_journal s' s"
  shows "evolves s s'"
  using assms sdb_ok_same [OF assms] sdb.undoable_unlogged [OF eqv_sym [OF assms(2)]]
  by (auto simp: evolves_def same_journal_def eqv_def same_env_sym)

text \<open>One journalled change.\<close>

lemma evolves_logged:
  assumes "sdb_ok s" "sdb_ok s'" "same_env s s'" "entries s' = e # entries s"
    "validRevisions s' = validRevisions s" "nextRevisionId s' = nextRevisionId s"
    "fits e s" "revert_entry e s' = Ok t" "eqv t s"
  shows "evolves s s'"
proof -
  have u: "undo e s' = Ok (journal_undirty e t)" using assms(8) by (simp add: undo_def)
  have "eqv (journal_undirty e t) s"
    using eqv_trans [OF eqv_undirty [OF eqv_wf(1) [OF assms(9)]] assms(9)] .
  then have "sdb.undoable s s'"
    using assms u fits_env [OF assms(3)]
    by (intro sdb.undoable_logged [of s s' e]) (auto intro: eqv_refl simp: sdb_ok_def)
  then show ?thesis using assms by (simp add: evolves_def)
qed

lemma journal_append_fields [simp]:
  "same_env (journal_append e s) s" "stateObjects (journal_append e s) = stateObjects s"
  "snapDestructs (journal_append e s) = snapDestructs s" "refund (journal_append e s) = refund s"
  "logs (journal_append e s) = logs s" "logSize (journal_append e s) = logSize s"
  "preimages (journal_append e s) = preimages s" "accList (journal_append e s) = accList s"
  "thash (journal_append e s) = thash s" "txIndex (journal_append e s) = txIndex s"
  "entries (journal_append e s) = e # entries s" "validRevisions (journal_append e s) = validRevisions s"
  "nextRevisionId (journal_append e s) = nextRevisionId s" "snap (journal_append e s) = snap s"
  "stateObjectsDirty (journal_append e s) = stateObjectsDirty s"
  by (simp_all add: journal_append_def journal_dirty_def same_env_def Let_def split: option.split)

lemma eqv_append: "state_wf s \<Longrightarrow> eqv (journal_append e s) s"
  by (rule eqv_frame) (simp_all add: same_rest_def)

lemma setStateObject_fields [simp]:
  "snapDestructs (setStateObject obj s) = snapDestructs s" "refund (setStateObject obj s) = refund s"
  "logs (setStateObject obj s) = logs s" "logSize (setStateObject obj s) = logSize s"
  "preimages (setStateObject obj s) = preimages s" "accList (setStateObject obj s) = accList s"
  "thash (setStateObject obj s) = thash s" "txIndex (setStateObject obj s) = txIndex s"
  "entries (setStateObject obj s) = entries s" "validRevisions (setStateObject obj s) = validRevisions s"
  "nextRevisionId (setStateObject obj s) = nextRevisionId s" "snap (setStateObject obj s) = snap s"
  "setStateObject obj s = t \<Longrightarrow> stateObjects t (so_address obj) = Some obj"
  by (auto simp: setStateObject_def)

text \<open>An object held by the caller: the one the state has for its address, not deleted.\<close>

definition held :: "StateDB \<Rightarrow> address \<Rightarrow> stateObject \<Rightarrow> bool" where
  "held s a obj \<longleftrightarrow> sdb_ok s \<and> stateObjects s a = Some obj \<and> \<not> deleted obj"

lemma held_facts:
  assumes "held s a obj"
  shows "sdb_ok s" "state_wf s" "obj_wf s a obj" "so_address obj = a" "peek_object s a = Some obj"
    "acc_view s a = Some (obj_view s obj)" "\<not> deleted obj"
  using assms state_wf_obj [of s a obj] by (auto simp: held_def sdb_ok_def peek_object_def acc_view_def obj_wf_def)

lemma modify_object_set:
  "\<not> deleted obj \<Longrightarrow> so_address obj = a \<Longrightarrow>
   modify_object a f (setStateObject obj s) = Ok (setStateObject (f obj) (setStateObject obj s))"
  by (simp add: modify_object_def getStateObject_def getDeletedStateObject_def setStateObject_def)

lemma set_logged:
  assumes "held s a obj" "obj_wf s a obj'" "\<not> deleted obj'"
    "revert_entry e (setStateObject obj' (journal_append e s)) = Ok (setStateObject obj'' (setStateObject obj' (journal_append e s)))"
    "fits e s" "obj_view s obj'' = obj_view s obj" "obj_wf s a obj''"
  shows "evolves s (setStateObject obj' (journal_append e s))" "held (setStateObject obj' (journal_append e s)) a obj'"
    "acc_view (setStateObject obj' (journal_append e s)) = (acc_view s)(a \<mapsto> obj_view s obj')"
proof -
  let ?s1 = "journal_append e s" and ?s' = "setStateObject obj' (journal_append e s)"
  let ?t = "setStateObject obj'' ?s'"
  note h = held_facts [OF assms(1)]
  have a: "so_address obj' = a" "so_address obj'' = a" using assms(2,7) by (simp_all add: obj_wf_def)
  have e1: "eqv ?s1 s" by (rule eqv_append [OF h(2)])
  have v1: "obj_view ?s1 = obj_view s" using obj_view_eqv [OF eqv_sym [OF e1]] by simp
  have w1: "obj_wf ?s1 a = obj_wf s a" using obj_wf_env [of ?s1 s] by auto
  have env: "same_env ?s' s" by (rule same_env_trans [OF same_env_set]) simp
  have "state_wf ?s'" using eqv_wf(1) [OF e1] assms(2) a by (intro state_wf_set) (simp_all add: w1)
  then have ok: "sdb_ok ?s'" using h(1) by (simp add: sdb_ok_def revs_wf_def)
  show "held ?s' a obj'" using ok assms(3) a by (simp add: held_def) (simp add: setStateObject_def)
  have av: "acc_view ?s' = (acc_view s)(a \<mapsto> obj_view s obj')"
    using e1 by (simp add: acc_view_set a v1) (simp add: eqv_def)
  then show "acc_view ?s' = (acc_view s)(a \<mapsto> obj_view s obj')" .
  have v2: "obj_view ?s' = obj_view s"
    by (rule ext, rule obj_view_env [OF env]) simp
  have "acc_view ?t = (acc_view s)(a \<mapsto> obj_view s obj)"
    unfolding acc_view_set [of obj''] av v2 a assms(6) by simp
  also have "\<dots> = acc_view s" using h(6) by (simp add: fun_upd_idem)
  finally have "acc_view ?t = acc_view s" .
  moreover have "state_wf ?t"
    using \<open>state_wf ?s'\<close> assms(7) a obj_wf_env [OF env] by (intro state_wf_set [of ?s' obj'']) simp_all
  moreover have "same_env ?t s" by (rule same_env_trans [OF same_env_set env])
  ultimately have "eqv ?t s"
    using h(2) by (simp add: eqv_def logs_of_def)
  then show "evolves s ?s'"
    using assms(4) ok h(1) env assms(5) by (intro evolves_logged [of s ?s' e ?t]) (auto simp: same_env_sym)
qed

lemma held_set_same:
  assumes "held s a obj" "same_obj s obj obj'"
  shows "evolves s (setStateObject obj' s)" "held (setStateObject obj' s) a obj'" "eqv (setStateObject obj' s) s"
proof -
  note h = held_facts [OF assms(1)]
  show e: "eqv (setStateObject obj' s) s" by (rule eqv_set_same [OF h(2,5) assms(2)])
  show "evolves s (setStateObject obj' s)" by (rule evolves_unlogged [OF h(1) e same_journal_set])
  have "sdb_ok (setStateObject obj' s)" by (rule sdb_ok_same [OF h(1) e same_journal_set])
  moreover have "\<not> deleted obj'"
    using assms(2) h(7) by (simp add: same_obj_def obj_view_def)
  ultimately show "held (setStateObject obj' s) a obj'"
    using assms(2) h(4) by (simp add: held_def same_obj_def) (simp add: setStateObject_def)
qed

lemma getStateObject_held:
  assumes "sdb_ok s" "getStateObject a s = (r, s')"
  shows "evolves s s'" "sdb_ok s'" "eqv s' s" "r = Some obj \<Longrightarrow> held s' a obj"
    "(r = None) = (case acc_view s a of None \<Rightarrow> True | Some v \<Rightarrow> v_deleted v)"
    "r = Some obj \<Longrightarrow> acc_view s a = Some (obj_view s' obj)"
proof -
  note g = getStateObject_spec [OF sdb_ok_wf [OF assms(1)] assms(2)]
  show "evolves s s'" by (rule evolves_unlogged [OF assms(1) g(2,3)])
  show "eqv s' s" by (rule g(2))
  show ok: "sdb_ok s'" by (rule sdb_ok_same [OF assms(1) g(2,3)])
  show "(r = None) = (case acc_view s a of None \<Rightarrow> True | Some v \<Rightarrow> v_deleted v)"
    using g(1) live_None_view [of s a] by simp
  assume r: "r = Some obj"
  have "stateObjects s' a = Some obj"
    using assms(2) r getDeletedStateObject_spec(4) [OF sdb_ok_wf [OF assms(1)]]
    by (auto simp: getStateObject_def split: prod.splits option.splits if_splits)
  moreover have "\<not> deleted obj" using live_view g(1) r by blast
  ultimately show "held s' a obj" using ok by (simp add: held_def)
  from held_facts(6) [OF this] show "acc_view s a = Some (obj_view s' obj)"
    using g(2) by (simp add: eqv_def)
qed

lemma Exist_evolves: "sdb_ok s \<Longrightarrow> Exist a s = (r, s') \<Longrightarrow> evolves s s'"
  using getStateObject_held(1) by (auto simp: Exist_def split: prod.splits)

lemma Empty_evolves: "sdb_ok s \<Longrightarrow> Empty a s = (r, s') \<Longrightarrow> evolves s s'"
  using getStateObject_held(1) by (auto simp: Empty_def split: prod.splits)

lemma GetBalance_evolves: "sdb_ok s \<Longrightarrow> GetBalance a s = (r, s') \<Longrightarrow> evolves s s'"
  using getStateObject_held(1) by (auto simp: GetBalance_def split: prod.splits)

lemma GetNonce_evolves: "sdb_ok s \<Longrightarrow> GetNonce a s = (r, s') \<Longrightarrow> evolves s s'"
  using getStateObject_held(1) by (auto simp: GetNonce_def split: prod.splits)

lemma GetCodeHash_evolves: "sdb_ok s \<Longrightarrow> GetCodeHash a s = (r, s') \<Longrightarrow> evolves s s'"
  using getStateObject_held(1) by (auto simp: GetCodeHash_def split: prod.splits)

lemma HasSuicided_evolves: "sdb_ok s \<Longrightarrow> HasSuicided a s = (r, s') \<Longrightarrow> evolves s s'"
  using getStateObject_held(1) by (auto simp: HasSuicided_def split: prod.splits)

lemma load_evolves:
  assumes "sdb_ok s" "getStateObject a s = (r, s1)"
    "r = None \<Longrightarrow> s' = s1" "\<And>obj. r = Some obj \<Longrightarrow> \<exists>obj'. s' = setStateObject obj' s1 \<and> same_obj s1 obj obj'"
  shows "evolves s s'" "eqv s' s"
proof -
  note g = getStateObject_held [OF assms(1,2)]
  have "evolves s1 s' \<and> eqv s' s1"
  proof (cases r)
    case None
    then show ?thesis using assms(3) g(2) evolves_refl eqv_refl sdb_ok_wf by auto
  next
    case (Some obj)
    then show ?thesis using assms(4) held_set_same [OF g(4) [OF Some]] by auto
  qed
  then show "evolves s s'" "eqv s' s" using evolves_trans [OF g(1)] eqv_trans [OF _ g(3)] by blast+
qed

lemma read_evolves:
  assumes "sdb_ok s" "f a s = (r, s')"
    "f a s = (case getStateObject a s of (None, s1) \<Rightarrow> (d, s1)
       | (Some obj, s1) \<Rightarrow> (let (v, obj1) = g s1 obj in (h v, setStateObject obj1 s1)))"
    "\<And>s1 obj. same_obj s1 obj (snd (g s1 obj))"
  shows "evolves s s'" "eqv s' s"
proof -
  obtain q s1 where q: "getStateObject a s = (q, s1)" by (cases "getStateObject a s")
  have "\<exists>obj'. s' = setStateObject obj' s1 \<and> same_obj s1 obj obj'" if "q = Some obj" for obj
    using assms(2-4) q that by (auto simp: split_beta)
  moreover have "q = None \<Longrightarrow> s' = s1" using assms(2,3) q by simp
  ultimately show "evolves s s'" "eqv s' s" using load_evolves [OF assms(1) q] by blast+
qed

lemma GetCode_evolves: "sdb_ok s \<Longrightarrow> GetCode a s = (r, s') \<Longrightarrow> evolves s s'"
  by (rule read_evolves(1) [OF _ _ GetCode_def same_obj_Code])

lemma GetCodeSize_evolves: "sdb_ok s \<Longrightarrow> GetCodeSize a s = (r, s') \<Longrightarrow> evolves s s'"
  by (rule read_evolves(1) [where h = "\<lambda>n. n", OF _ _ GetCodeSize_def same_obj_CodeSize])

lemma GetState_evolves: "sdb_ok s \<Longrightarrow> GetState a k s = (r, s') \<Longrightarrow> evolves s s'"
  by (rule read_evolves(1) [where f = "\<lambda>a. GetState a k" and h = "\<lambda>n. n", OF _ _ GetState_def same_obj_GetState])

lemma GetCommittedState_evolves: "sdb_ok s \<Longrightarrow> GetCommittedState a k s = (r, s') \<Longrightarrow> evolves s s'"
  by (rule read_evolves(1) [where f = "\<lambda>a. GetCommittedState a k" and h = "\<lambda>n. n", OF _ _ GetCommittedState_def same_obj_GetCommittedState])


text \<open>Creating an account, with an object that may differ from the fresh one in its balance.\<close>

lemma same_journalD:
  "same_journal s t \<Longrightarrow> entries s = entries t \<and> validRevisions s = validRevisions t \<and> nextRevisionId s = nextRevisionId t"
  by (simp add: same_journal_def)

definition marked :: "stateObject option \<Rightarrow> StateDB \<Rightarrow> StateDB" where
  "marked prev s = (case (snap s, prev) of
      (Some _, Some p) \<Rightarrow> s\<lparr>snapDestructs := insert (addrHash p) (snapDestructs s)\<rparr> | _ \<Rightarrow> s)"

definition creation :: "address \<Rightarrow> stateObject option \<Rightarrow> StateDB \<Rightarrow> journalEntry" where
  "creation a prev s = (case prev of None \<Rightarrow> createObjectChange a
     | Some p \<Rightarrow> resetObjectChange p (snap s \<noteq> None \<and> addrHash p \<in> snapDestructs s))"

lemma createObject_eq:
  assumes "getDeletedStateObject a s = (prev, s1)"
  shows "createObject a s =
     (newObject s a emptyAccount, (case prev of Some p \<Rightarrow> (if \<not> deleted p then Some p else None) | None \<Rightarrow> None),
      setStateObject (newObject s a emptyAccount) (journal_append (creation a prev s1) (marked prev s1)))"
proof -
  have "same_env s1 s"
    using assms by (auto simp: getDeletedStateObject_def StateDB_setError_def setStateObject_def same_env_def Let_def
        split: option.splits sum.splits)
  then have e: "same_env (marked prev s1) s" "same_env s1 s"
    by (auto simp: marked_def same_env_def split: option.split)
  have i: "(s1\<lparr>snapDestructs := insert h (snapDestructs s1)\<rparr>) = s1" if "h \<in> snapDestructs s1" for h
    using that by (simp add: insert_absorb)
  show ?thesis
    unfolding createObject_def assms Let_def split_beta fst_conv snd_conv newObject_env [OF e(1), symmetric]
      newObject_env [OF e(2), symmetric]
    by (auto simp: marked_def creation_def i split: option.split)
qed

lemma marked_fields [simp]:
  "same_env (marked p s) s" "stateObjects (marked p s) = stateObjects s" "refund (marked p s) = refund s"
  "logs (marked p s) = logs s" "logSize (marked p s) = logSize s" "preimages (marked p s) = preimages s"
  "accList (marked p s) = accList s" "thash (marked p s) = thash s" "txIndex (marked p s) = txIndex s"
  "entries (marked p s) = entries s" "validRevisions (marked p s) = validRevisions s"
  "nextRevisionId (marked p s) = nextRevisionId s" "snap (marked p s) = snap s"
  by (auto simp: marked_def same_env_def split: option.split)

lemma create_evolves:
  assumes "sdb_ok s" "getDeletedStateObject a s = (prev, s1)" "obj_wf s a obj" "\<not> deleted obj"
    "s' = setStateObject obj (journal_append (creation a prev s1) (marked prev s1))"
  shows "evolves s s'" "held s' a obj"
proof -
  note d = getDeletedStateObject_spec [OF sdb_ok_wf [OF assms(1)] assms(2)]
  have s1: "evolves s s1" by (rule evolves_unlogged [OF assms(1) d(2,3)])
  then have ok1: "sdb_ok s1" by (rule evolves_ok)
  let ?e = "creation a prev s1" and ?m = "journal_append (creation a prev s1) (marked prev s1)"
  have env: "same_env s' s1" using assms(5) same_env_trans [OF same_env_set same_env_trans [OF journal_append_fields(1) marked_fields(1)]] by simp
  have a: "so_address obj = a" using assms(3) by (simp add: obj_wf_def)
  have w: "obj_wf s1 a = obj_wf s a" using obj_wf_env [of s s1] d(2) by (auto simp: eqv_def same_env_sym fun_eq_iff)
  have "state_wf s'"
    using sdb_ok_wf [OF ok1] assms(3,5) a w obj_wf_env [OF env] env_ok_env [OF env]
    by (auto simp: state_wf_def setStateObject_def split: if_splits)
  then have ok': "sdb_ok s'" using ok1 assms(5) by (simp add: sdb_ok_def revs_wf_def)
  show "held s' a obj" using ok' assms(4,5) a by (simp add: held_def) (simp add: setStateObject_def)
  have st: "stateObjects s' = (stateObjects s1)(a \<mapsto> obj)" using assms(5) a by (simp add: setStateObject_def)
  have fits: "fits ?e s1"
  proof (cases prev)
    case (Some p)
    then have "obj_wf s1 a p" using state_wf_obj [OF sdb_ok_wf [OF ok1]] d(4) by simp
    then show ?thesis using Some by (simp add: fits_def creation_def obj_wf_def)
  qed (simp add: fits_def creation_def)
  have "\<exists>t. revert_entry ?e s' = Ok t \<and> same_env t s1 \<and> stateObjects t = stateObjects s1 \<and> same_rest t s1"
  proof (cases prev)
    case None
    have "peek_object s a = None" using d(1) None by simp
    then have "stateObjects s1 a = None" using d(5) None by (auto simp: peek_object_def split: option.splits)
    then have "(stateObjects s')(a := None) = stateObjects s1" by (simp add: st fun_upd_idem)
    then show ?thesis
      using None env assms(5) by (simp add: revert_entry_def creation_def same_rest_def same_env_def) (simp add: marked_def split: option.split)
  next
    case (Some p)
    then have "stateObjects s1 a = Some p" "so_address p = a"
      using d(4) state_wf_obj [OF sdb_ok_wf [OF ok1], of a p] by (auto simp: obj_wf_def)
    then have "stateObjects (setStateObject p s') = stateObjects s1"
      by (simp add: setStateObject_def st fun_upd_idem)
    then show ?thesis
      using Some env assms(5) same_env_set [of p s']
      by (auto simp: revert_entry_def creation_def same_rest_def same_env_def Let_def) (auto simp: marked_def insert_absorb split: option.splits)
  qed
  then obtain t where t: "revert_entry ?e s' = Ok t" "same_env t s1" "stateObjects t = stateObjects s1" "same_rest t s1"
    by blast
  have "eqv t s1" by (rule eqv_frame [OF sdb_ok_wf [OF ok1] t(2-4)])
  then have "evolves s1 s'"
    using ok1 ok' env fits t(1) assms(5) by (intro evolves_logged [of s1 s' ?e t]) (simp_all add: same_env_sym)
  then show "evolves s s'" by (rule evolves_trans [OF s1])
qed

lemma newObject_facts [simp]: "\<not> deleted (newObject s a d)" "so_address (newObject s a d) = a"
  by (simp_all add: newObject_def)

lemma createObject_evolves:
  assumes "sdb_ok s" "createObject a s = (obj, p, s')"
  shows "evolves s s'" "held s' a obj"
proof -
  obtain prev s1 where g: "getDeletedStateObject a s = (prev, s1)" by (cases "getDeletedStateObject a s")
  have "s' = setStateObject (newObject s a emptyAccount) (journal_append (creation a prev s1) (marked prev s1))"
    "obj = newObject s a emptyAccount"
    using assms(2) createObject_eq [OF g] by auto
  then show "evolves s s'" "held s' a obj" using create_evolves [OF assms(1) g, of "newObject s a emptyAccount" s'] by auto
qed

lemma set_set [simp]: "so_address o1 = so_address o2 \<Longrightarrow> setStateObject o1 (setStateObject o2 s) = setStateObject o1 s"
  by (simp add: setStateObject_def)

lemma so_setBalance_facts [simp]:
  "so_address (so_setBalance b obj) = so_address obj" "deleted (so_setBalance b obj) = deleted obj"
  by (simp_all add: so_setBalance_def)

lemma CreateAccount_evolves:
  assumes "sdb_ok s"
  shows "evolves s (CreateAccount a s)"
proof -
  obtain prev s1 where g: "getDeletedStateObject a s = (prev, s1)" by (cases "getDeletedStateObject a s")
  let ?n = "newObject s a emptyAccount"
  note c = create_evolves(1) [OF assms g]
  have 1: "evolves s (setStateObject ?n (journal_append (creation a prev s1) (marked prev s1)))"
    by (rule c [OF _ _ refl]) simp_all
  have 2: "evolves s (setStateObject (so_setBalance b ?n) (journal_append (creation a prev s1) (marked prev s1)))" for b
    by (rule c [OF _ _ refl]) simp_all
  from 1 2 show ?thesis by (simp add: CreateAccount_def createObject_eq [OF g] split: option.split)
qed

lemma GetOrNew_evolves:
  assumes "sdb_ok s" "GetOrNewStateObject a s = (obj, s')"
  shows "evolves s s'" "held s' a obj"
proof -
  obtain r s1 where g: "getStateObject a s = (r, s1)" by (cases "getStateObject a s")
  note G = getStateObject_held [OF assms(1) g]
  have "evolves s s' \<and> held s' a obj"
  proof (cases r)
    case None
    then obtain p where "createObject a s1 = (obj, p, s')"
      using assms(2) g by (auto simp: GetOrNewStateObject_def split: prod.splits)
    then show ?thesis using createObject_evolves [OF G(2)] evolves_trans [OF G(1)] by blast
  next
    case (Some o1)
    then show ?thesis using assms(2) g G(1) G(4) by (auto simp: GetOrNewStateObject_def)
  qed
  then show "evolves s s'" "held s' a obj" by simp_all
qed


lemma so_address_upd [simp]:
  "so_address (so_setNonce n obj) = so_address obj" "so_address (so_setState k v obj) = so_address obj"
  "so_address (so_setCode h c obj) = so_address obj" "deleted (so_setNonce n obj) = deleted obj"
  "deleted (so_setState k v obj) = deleted obj" "deleted (so_setCode h c obj) = deleted obj"
  by (simp_all add: so_setNonce_def so_setState_def so_setCode_def)

lemma fits_simple [simp]:
  "fits (balanceChange a b) s" "fits (nonceChange a n) s" "fits (storageChange a k v) s" "fits (codeChange a c h) s"
  "fits (suicideChange a x b) s" "fits (createObjectChange a) s" "fits (refundChange r) s" "fits (addLogChange lh) s"
  "fits (addPreimageChange ph) s" "fits (touchChange a) s" "fits (accessListAddAccountChange a) s"
  "fits (accessListAddSlotChange a sl) s"
  by (simp_all add: fits_def)

lemma setBalance_logged:
  assumes "held s a obj"
  shows "evolves s (so_SetBalance obj b s)" "held (so_SetBalance obj b s) a (so_setBalance b obj)"
    "acc_view (so_SetBalance obj b s) = (acc_view s)(a \<mapsto> (obj_view s obj)\<lparr>v_balance := b\<rparr>)"
proof -
  note h = held_facts [OF assms]
  let ?e = "balanceChange a (aBalance (so_data obj))" and ?o = "so_setBalance b obj"
  have r: "revert_entry ?e (setStateObject ?o (journal_append ?e s)) =
      Ok (setStateObject (so_setBalance (aBalance (so_data obj)) ?o) (setStateObject ?o (journal_append ?e s)))"
    using h by (simp add: revert_entry_def modify_object_set)
  have v: "obj_view s (so_setBalance (aBalance (so_data obj)) ?o) = obj_view s obj"
    by (simp add: view_setBalance) (simp add: obj_view_def)
  show "evolves s (so_SetBalance obj b s)" "held (so_SetBalance obj b s) a (so_setBalance b obj)"
    "acc_view (so_SetBalance obj b s) = (acc_view s)(a \<mapsto> (obj_view s obj)\<lparr>v_balance := b\<rparr>)"
    using set_logged [OF assms _ _ r _ v] h by (simp_all add: so_SetBalance_def view_setBalance)
qed

lemma setNonce_logged:
  assumes "held s a obj"
  shows "evolves s (so_SetNonce obj n s)"
    "acc_view (so_SetNonce obj n s) = (acc_view s)(a \<mapsto> (obj_view s obj)\<lparr>v_nonce := n\<rparr>)"
proof -
  note h = held_facts [OF assms]
  let ?e = "nonceChange a (aNonce (so_data obj))" and ?o = "so_setNonce n obj"
  have r: "revert_entry ?e (setStateObject ?o (journal_append ?e s)) =
      Ok (setStateObject (so_setNonce (aNonce (so_data obj)) ?o) (setStateObject ?o (journal_append ?e s)))"
    using h by (simp add: revert_entry_def modify_object_set)
  have v: "obj_view s (so_setNonce (aNonce (so_data obj)) ?o) = obj_view s obj"
    by (simp add: view_setNonce) (simp add: obj_view_def)
  show "evolves s (so_SetNonce obj n s)"
    "acc_view (so_SetNonce obj n s) = (acc_view s)(a \<mapsto> (obj_view s obj)\<lparr>v_nonce := n\<rparr>)"
    using set_logged [OF assms _ _ r _ v] h by (simp_all add: so_SetNonce_def view_setNonce)
qed

text \<open>An object that was read from is as good as the one held.\<close>

lemma held_cached:
  assumes "held s a obj" "same_obj s obj obj1"
  shows "evolves s (setStateObject obj1 s)" "held (setStateObject obj1 s) a obj1"
    "setStateObject obj' (journal_append e (setStateObject obj1 s)) = setStateObject obj' (journal_append e s)
       \<or> so_address obj' \<noteq> a"
    "obj_view (setStateObject obj1 s) = obj_view s"
proof -
  note c = held_set_same [OF assms]
  show "evolves s (setStateObject obj1 s)" "held (setStateObject obj1 s) a obj1" by (rule c)+
  show "obj_view (setStateObject obj1 s) = obj_view s" using obj_view_eqv [OF eqv_sym [OF c(3)]] .
  have "so_address obj1 = a" using held_facts(4) [OF c(2)] .
  then show "setStateObject obj' (journal_append e (setStateObject obj1 s)) = setStateObject obj' (journal_append e s)
       \<or> so_address obj' \<noteq> a"
    by (auto simp: setStateObject_def journal_append_def journal_dirty_def dirty_count_def Let_def split: option.split)
qed

lemma setState_logged:
  assumes "held s a obj"
  shows "evolves s (so_SetState obj k v s)"
proof -
  note h = held_facts [OF assms]
  have nf: "fakeStorage obj = None" using h(3) by (simp add: obj_wf_def)
  obtain prev obj1 where g: "so_GetState s obj k = (prev, obj1)" by (cases "so_GetState s obj k")
  have same: "same_obj s obj obj1" using same_obj_GetState [of s obj k] by (simp add: g)
  note c = held_cached [OF assms same]
  note h1 = held_facts [OF c(2)]
  show ?thesis
  proof (cases "prev = v")
    case True
    then show ?thesis using c(1) nf g by (simp add: so_SetState_def)
  next
    case False
    let ?s1 = "setStateObject obj1 s" and ?e = "storageChange a k prev" and ?o = "so_setState k v obj1"
    have nf1: "fakeStorage obj1 = None" using same nf by (simp add: same_obj_def)
    have r: "revert_entry ?e (setStateObject ?o (journal_append ?e ?s1)) =
        Ok (setStateObject (so_setState k prev ?o) (setStateObject ?o (journal_append ?e ?s1)))"
      using h1 by (simp add: revert_entry_def modify_object_set)
    have p: "v_storage (obj_view s obj1) k = prev"
      using same g by (simp add: same_obj_def) (simp add: obj_view_def)
    have "fakeStorage ?o = None" using nf1 by (simp add: so_setState_def)
    then have v: "obj_view ?s1 (so_setState k prev ?o) = obj_view ?s1 obj1"
      using nf1 p by (simp add: view_setState c(4) fun_upd_idem)
    have "evolves ?s1 (setStateObject ?o (journal_append ?e ?s1))"
      using set_logged(1) [OF c(2) _ _ r _ v] h1 by simp
    moreover have "setStateObject ?o (journal_append ?e ?s1) = setStateObject ?o (journal_append ?e s)"
      using c(3) [of ?o] h1(4) by auto
    ultimately show ?thesis
      using evolves_trans [OF c(1)] nf g False h(4) by (simp add: so_SetState_def)
  qed
qed

lemma setCode_logged:
  assumes held: "held s a obj"
  shows "evolves s (so_SetCode obj hh c s)"
proof -
  note h = held_facts [OF held]
  have "aCodeHash (so_data obj) \<noteq> None" using h(3) by (simp add: obj_wf_def)
  note assms = held this
  obtain pc obj1 where g: "so_Code s obj = (pc, obj1)" by (cases "so_Code s obj")
  have same: "same_obj s obj obj1" using same_obj_Code [of s obj] by (simp add: g)
  note f = so_Code_fields [OF g]
  note k = held_cached [OF assms(1) same]
  note h1 = held_facts [OF k(2)]
  let ?s1 = "setStateObject obj1 s" and ?e = "codeChange a pc (aCodeHash (so_data obj))" and ?o = "so_setCode hh c obj1"
  have r: "revert_entry ?e (setStateObject ?o (journal_append ?e ?s1)) =
      Ok (setStateObject (so_setCode (BytesToHash (aCodeHash (so_data obj))) pc ?o) (setStateObject ?o (journal_append ?e ?s1)))"
    using h1 by (simp add: revert_entry_def modify_object_set)
  have "code_of s (addrHash obj) (BytesToHash (aCodeHash (so_data obj))) pc = code_bytes s obj"
    using g assms(2) by (auto simp: code_of_def code_bytes_def so_Code_def BytesToHash_def Let_def split: option.splits if_splits prod.splits)
  moreover have "addrHash ?o = addrHash obj" using f(2) by (simp add: so_setCode_def)
  moreover have "obj_view s obj1 = obj_view s obj" using same by (simp add: same_obj_def)
  ultimately have v: "obj_view ?s1 (so_setCode (BytesToHash (aCodeHash (so_data obj))) pc ?o) = obj_view ?s1 obj1"
    using assms(2) by (auto simp: view_setCode k(4)) (auto simp: obj_view_def BytesToHash_def)
  have "evolves ?s1 (setStateObject ?o (journal_append ?e ?s1))"
    using set_logged(1) [OF k(2) _ _ r _ v] h1 by simp
  moreover have "setStateObject ?o (journal_append ?e ?s1) = setStateObject ?o (journal_append ?e s)"
    using k(3) [of ?o] h1(4) by auto
  ultimately show ?thesis
    using evolves_trans [OF k(1)] g h(4) by (simp add: so_SetCode_def)
qed


text \<open>Updates of the fields outside the accounts.\<close>

lemma frame_logged:
  assumes "sdb_ok s" "same_env s' s" "stateObjects s' = stateObjects s" "snapDestructs s' = snapDestructs s"
    "al_wf (accList s')" "entries s' = e # entries s" "validRevisions s' = validRevisions s"
    "nextRevisionId s' = nextRevisionId s" "fits e s" "revert_entry e s' = Ok t"
    "same_env t s" "stateObjects t = stateObjects s" "snapDestructs t = snapDestructs s" "refund t = refund s"
    "\<And>h. logs_of h t = logs_of h s" "logSize t = logSize s" "preimages t = preimages s" "accList t = accList s"
    "thash t = thash s" "txIndex t = txIndex s"
  shows "evolves s s'"
proof -
  have "acc_view t = acc_view s" by (rule acc_view_frame [OF assms(11,12,13)])
  then have "eqv t s"
    using state_wf_frame [OF assms(11,12) sdb_ok_wf [OF assms(1)]] assms sdb_ok_wf [OF assms(1)]
    by (simp add: eqv_def)
  moreover have "sdb_ok s'"
    using state_wf_frame [OF assms(2,3) sdb_ok_wf [OF assms(1)]] assms by (simp add: sdb_ok_def revs_wf_def)
  ultimately show ?thesis
    using assms by (intro evolves_logged [of s s' e t]) (simp_all add: same_env_sym)
qed

lemma same_env_upd [simp]:
  "same_env (s\<lparr>refund := r\<rparr>) t = same_env s t" "same_env (s\<lparr>logs := l\<rparr>) t = same_env s t"
  "same_env (s\<lparr>logSize := n\<rparr>) t = same_env s t" "same_env (s\<lparr>preimages := p\<rparr>) t = same_env s t"
  "same_env (s\<lparr>accList := al\<rparr>) t = same_env s t"
  by (simp_all add: same_env_def)

lemma sdb_ok_al: "sdb_ok s \<Longrightarrow> al_wf (accList s)"
  by (simp add: sdb_ok_def)

lemma AddRefund_evolves: "sdb_ok s \<Longrightarrow> evolves s (AddRefund g s)"
  unfolding AddRefund_def
  by (rule frame_logged [where e = "refundChange (refund s)"
        and t = "(journal_append (refundChange (refund s)) s)\<lparr>refund := refund s\<rparr>"])
    (simp_all add: revert_entry_def sdb_ok_al logs_of_def)

lemma SubRefund_evolves: "sdb_ok s \<Longrightarrow> SubRefund g s = Ok s' \<Longrightarrow> evolves s s'"
proof -
  assume a: "sdb_ok s" "SubRefund g s = Ok s'"
  then have s': "s' = (journal_append (refundChange (refund s)) s)\<lparr>refund := refund s - g\<rparr>"
    by (auto simp: SubRefund_def split: if_splits)
  show ?thesis unfolding s'
    by (rule frame_logged [where e = "refundChange (refund s)"
          and t = "(journal_append (refundChange (refund s)) s)\<lparr>refund := refund s\<rparr>", OF a(1)])
      (simp_all add: revert_entry_def sdb_ok_al [OF a(1)] logs_of_def)
qed

lemma AddPreimage_evolves:
  assumes "sdb_ok s"
  shows "evolves s (AddPreimage h pre s)"
proof (cases "preimages s h")
  case None
  then have s': "AddPreimage h pre s = (journal_append (addPreimageChange h) s)\<lparr>preimages := (preimages s)(h \<mapsto> pre)\<rparr>"
    by (simp add: AddPreimage_def)
  show ?thesis unfolding s'
    by (rule frame_logged [where e = "addPreimageChange h"
          and t = "(journal_append (addPreimageChange h) s)\<lparr>preimages := preimages s\<rparr>", OF assms])
      (simp_all add: revert_entry_def sdb_ok_al [OF assms] logs_of_def fun_upd_idem None)
next
  case (Some x)
  then show ?thesis using evolves_refl [OF assms] by (simp add: AddPreimage_def)
qed

lemma AddLog_evolves:
  assumes "sdb_ok s"
  shows "evolves s (AddLog l s)"
proof -
  let ?h = "thash s"
  define ls where "ls = logs_of ?h s"
  define l1 where "l1 = l\<lparr>lTxHash := thash s, lTxIndex := txIndex s, lIndex := logSize s\<rparr>"
  let ?s' = "(journal_append (addLogChange ?h) s)\<lparr>logs := (logs s)(?h \<mapsto> ls @ [l1]), logSize := logSize s + 1\<rparr>"
  let ?t = "?s'\<lparr>logs := (if ls = [] then (logs s)(?h := None) else (logs s)(?h \<mapsto> ls)), logSize := logSize s\<rparr>"
  have s': "AddLog l s = ?s'" by (simp add: AddLog_def l1_def ls_def Let_def)
  have r: "revert_entry (addLogChange ?h) ?s' = Ok ?t"
    by (simp add: revert_entry_def logs_of_def Let_def)
  show ?thesis unfolding s'
    by (rule frame_logged [where e = "addLogChange ?h", OF assms _ _ _ _ _ _ _ _ r])
      (auto simp: sdb_ok_al [OF assms] logs_of_def ls_def split: option.splits)
qed

lemma append_accList: "journal_append e (s\<lparr>accList := al\<rparr>) = (journal_append e s)\<lparr>accList := al\<rparr>"
  by (simp add: journal_append_def journal_dirty_def dirty_count_def Let_def split: option.split)

lemma AddAddress_evolves:
  assumes "sdb_ok s"
  shows "evolves s (AddAddressToAccessList a s)"
proof -
  obtain c al where al: "AddAddress a (accList s) = (c, al)" by (cases "AddAddress a (accList s)")
  show ?thesis
  proof (cases c)
    case True
    have s': "AddAddressToAccessList a s = journal_append (accessListAddAccountChange a) (s\<lparr>accList := al\<rparr>)"
      using al True by (simp add: AddAddressToAccessList_def)
    show ?thesis unfolding s'
      by (rule frame_logged [where e = "accessListAddAccountChange a"
            and t = "(journal_append (accessListAddAccountChange a) s)\<lparr>accList := accList s\<rparr>", OF assms])
        (use al True AddAddress_wf [OF sdb_ok_al [OF assms] al] AddAddress_undo [of a "accList s" al] in \<open>simp_all add: logs_of_def revert_entry_def append_accList\<close>)
  next
    case False
    then have "AddAddressToAccessList a s = s" using al by (auto simp: AddAddressToAccessList_def AddAddress_def split: if_splits)
    then show ?thesis using evolves_refl [OF assms] by simp
  qed
qed

lemma AddSlot_present_evolves:
  assumes "sdb_ok s" "addresses (accList s) a \<noteq> None" "AddSlotToAccessList a sl s = Ok s'"
  shows "evolves s s'"
proof -
  obtain c d al where al: "AddSlot a sl (accList s) = Ok ((c, d), al)"
    and s': "s' = (let s2 = (if c then journal_append (accessListAddAccountChange a) (s\<lparr>accList := al\<rparr>) else s\<lparr>accList := al\<rparr>)
       in if d then journal_append (accessListAddSlotChange a sl) s2 else s2)"
    using assms(3) by (auto simp: AddSlotToAccessList_def Let_def)
  have w: "al_wf (accList s)" by (rule sdb_ok_al [OF assms(1)])
  have c: "c = False" using AddSlot_cases [OF w, of a sl] al assms(2) by auto
  show ?thesis
  proof (cases d)
    case True
    then have s'': "s' = journal_append (accessListAddSlotChange a sl) (s\<lparr>accList := al\<rparr>)" using s' c by simp
    show ?thesis unfolding s''
      by (rule frame_logged [where e = "accessListAddSlotChange a sl"
            and t = "(journal_append (accessListAddSlotChange a sl) s)\<lparr>accList := accList s\<rparr>", OF assms(1)])
        (use al True c AddSlot_wf [OF w al] AddSlot_undo [OF w, of a sl al] in \<open>simp_all add: logs_of_def revert_entry_def append_accList\<close>)
  next
    case False
    then have "al = accList s" using AddSlot_cases [OF w, of a sl] al by auto
    then show ?thesis using s' c False evolves_refl [OF assms(1)] by simp
  qed
qed

lemma AddSlot_evolves:
  assumes "sdb_ok s" "AddSlotToAccessList a sl s = Ok s'"
  shows "evolves s s'"
proof (cases "addresses (accList s) a")
  case None
  let ?s1 = "AddAddressToAccessList a s"
  have 1: "?s1 = journal_append (accessListAddAccountChange a) (s\<lparr>accList := (accList s)\<lparr>addresses := (addresses (accList s))(a \<mapsto> -1)\<rparr>\<rparr>)"
    using None by (simp add: AddAddressToAccessList_def AddAddress_def)
  have "AddSlotToAccessList a sl ?s1 = Ok s'"
    using assms(2) None by (auto simp: AddSlotToAccessList_def AddSlot_def Let_def 1 append_accList)
  moreover have "addresses (accList ?s1) a \<noteq> None" by (simp add: 1)
  ultimately show ?thesis
    using AddSlot_present_evolves [OF evolves_ok(2) [OF AddAddress_evolves [OF assms(1)]]]
      evolves_trans [OF AddAddress_evolves [OF assms(1)]] by blast
next
  case (Some x)
  then show ?thesis using AddSlot_present_evolves [OF assms(1) _ assms(2)] by simp
qed

subsection \<open>The setters\<close>

lemma dirty_eqv: "state_wf s \<Longrightarrow> eqv (journal_dirty a s) s" "same_journal (journal_dirty a s) s"
  by (rule eqv_frame) (simp_all add: journal_dirty_def same_env_def same_rest_def same_journal_def)

lemma touch_evolves:
  assumes "sdb_ok s"
  shows "evolves s (touch obj s)"
proof -
  let ?s1 = "journal_append (touchChange (so_address obj)) s"
  have "evolves s ?s1"
    by (rule frame_logged [where e = "touchChange (so_address obj)" and t = ?s1, OF assms])
      (simp_all add: revert_entry_def sdb_ok_al [OF assms] logs_of_def)
  moreover have "evolves ?s1 (journal_dirty (so_address obj) ?s1)"
    using evolves_unlogged [OF evolves_ok(2) [OF calculation] dirty_eqv] sdb_ok_wf [OF evolves_ok(2) [OF calculation]] by blast
  ultimately show ?thesis using evolves_trans by (auto simp: touch_def Let_def)
qed

lemma AddBalance_evolves: "sdb_ok s \<Longrightarrow> evolves s (AddBalance a b s)"
proof -
  assume ok: "sdb_ok s"
  obtain obj s1 where g: "GetOrNewStateObject a s = (obj, s1)" by (cases "GetOrNewStateObject a s")
  note G = GetOrNew_evolves [OF ok g]
  note ok1 = evolves_ok(2) [OF G(1)]
  have "evolves s1 (so_AddBalance obj b s1)"
    using touch_evolves [OF ok1] evolves_refl [OF ok1] setBalance_logged(1) [OF G(2)] by (simp add: so_AddBalance_def)
  then show ?thesis using evolves_trans [OF G(1)] g by (simp add: AddBalance_def)
qed

lemma SubBalance_evolves: "sdb_ok s \<Longrightarrow> evolves s (SubBalance a b s)"
proof -
  assume ok: "sdb_ok s"
  obtain obj s1 where g: "GetOrNewStateObject a s = (obj, s1)" by (cases "GetOrNewStateObject a s")
  note G = GetOrNew_evolves [OF ok g]
  have "evolves s1 (so_SubBalance obj b s1)"
    using evolves_refl [OF evolves_ok(2) [OF G(1)]] setBalance_logged(1) [OF G(2)] by (simp add: so_SubBalance_def)
  then show ?thesis using evolves_trans [OF G(1)] g by (simp add: SubBalance_def)
qed

lemma setter_evolves:
  assumes "sdb_ok s" "\<And>obj s1. held s1 a obj \<Longrightarrow> evolves s1 (f obj s1)"
  shows "evolves s (let (obj, s1) = GetOrNewStateObject a s in f obj s1)"
proof -
  obtain obj s1 where g: "GetOrNewStateObject a s = (obj, s1)" by (cases "GetOrNewStateObject a s")
  note G = GetOrNew_evolves [OF assms(1) g]
  show ?thesis using evolves_trans [OF G(1) assms(2) [OF G(2)]] g by simp
qed

lemma SetBalance_evolves: "sdb_ok s \<Longrightarrow> evolves s (SetBalance a b s)"
  unfolding SetBalance_def by (rule setter_evolves [OF _ setBalance_logged(1)])

lemma SetNonce_evolves: "sdb_ok s \<Longrightarrow> evolves s (SetNonce a n s)"
  unfolding SetNonce_def by (rule setter_evolves [OF _ setNonce_logged(1)])

lemma SetCode_evolves: "sdb_ok s \<Longrightarrow> evolves s (SetCode a c s)"
  unfolding SetCode_def by (rule setter_evolves [OF _ setCode_logged])

lemma SetState_evolves: "sdb_ok s \<Longrightarrow> evolves s (SetState a k v s)"
  unfolding SetState_def by (rule setter_evolves [OF _ setState_logged])

lemma Suicide_evolves:
  assumes "sdb_ok s" "Suicide a s = (b, s')"
  shows "evolves s s'"
proof -
  obtain r s1 where g: "getStateObject a s = (r, s1)" by (cases "getStateObject a s")
  note G = getStateObject_held [OF assms(1) g]
  show ?thesis
  proof (cases r)
    case None
    then show ?thesis using G(1) assms(2) g by (simp add: Suicide_def)
  next
    case (Some obj)
    note held = G(4) [OF Some]
    note h = held_facts [OF held]
    let ?e = "suicideChange a (suicided obj) (aBalance (so_data obj))"
    let ?o = "so_setBalance 0 (obj\<lparr>suicided := True\<rparr>)"
    let ?u = "setStateObject ?o (journal_append ?e s1)"
    let ?o2 = "so_setBalance (aBalance (so_data obj)) (?o\<lparr>suicided := suicided obj\<rparr>)"
    have gu: "getStateObject a ?u = (Some ?o, ?u)"
      using h by (simp add: getStateObject_def getDeletedStateObject_def) (simp add: setStateObject_def)
    then have r: "revert_entry ?e ?u = Ok (setStateObject ?o2 ?u)" by (simp add: revert_entry_def)
    have v: "obj_view s1 ?o2 = obj_view s1 obj"
      by (simp add: view_setBalance view_suicided) (simp add: obj_view_def)
    have "evolves s1 ?u"
      using set_logged(1) [OF held _ _ r _ v] h by simp
    then show ?thesis using evolves_trans [OF G(1)] Some assms(2) g by (simp add: Suicide_def)
  qed
qed

section \<open>Reverting\<close>

lemma find_revision_here:
  assumes "\<forall>r\<in>set rs. rev_id r < i" "rev_id r = i"
  shows "find_revision i (rs @ r # rs') = length rs"
  using assms by (simp add: find_revision_def takeWhile_tail)

lemma Snapshot_op_facts:
  assumes "sdb_ok s"
  shows "evolves s (snd (Snapshot_op s))" "eqv (snd (Snapshot_op s)) s" "entries (snd (Snapshot_op s)) = entries s"
proof -
  let ?t = "snd (Snapshot_op s)"
  show e: "eqv ?t s"
    by (rule eqv_frame [OF sdb_ok_wf [OF assms]]) (simp_all add: Snapshot_op_def same_env_def same_rest_def Let_def)
  show n: "entries ?t = entries s" by (simp add: Snapshot_op_def Let_def)
  have w: "state_wf ?t" using eqv_wf(1) [OF e] .
  have ok: "sdb_ok ?t"
    using assms w by (auto simp: sdb_ok_def revs_wf_def Snapshot_op_def less_SucI Let_def)
  show "evolves s ?t"
    using assms ok sdb.undoable_unlogged [OF eqv_sym [OF e]] n
    by (simp add: evolves_def Snapshot_op_def same_env_def Let_def)
qed

lemma getStateObject_next: "getStateObject a s = (r, s') \<Longrightarrow> nextRevisionId s' = nextRevisionId s"
  by (auto simp: getStateObject_def getDeletedStateObject_def StateDB_setError_def setStateObject_def Let_def
      split: prod.splits option.splits sum.splits if_splits)

lemma revert_entry_next: "revert_entry e s = Ok s' \<Longrightarrow> nextRevisionId s' = nextRevisionId s"
  by (cases e)
    (auto simp: revert_entry_def modify_object_def Let_def
      split: prod.splits option.splits if_splits dest!: getStateObject_next)

lemma revert_all_next: "revert_all es s = Ok s' \<Longrightarrow> nextRevisionId s' = nextRevisionId s"
proof (induction es arbitrary: s)
  case (Cons e es)
  then obtain s1 where "revert_entry e s = Ok s1" "revert_all es (journal_undirty e s1) = Ok s'" by auto
  moreover have "nextRevisionId (journal_undirty e s1) = nextRevisionId s1"
    by (simp add: journal_undirty_def Let_def split: option.split)
  ultimately show ?case using Cons.IH revert_entry_next by fastforce
qed simp

lemma RevertToSnapshot_evolves:
  assumes "sdb_ok s" "evolves (snd (Snapshot_op s)) s'"
  shows "\<exists>s''. RevertToSnapshot (fst (Snapshot_op s)) s' = Ok s'' \<and> eqv s'' s \<and> sdb_ok s'' \<and>
    entries s'' = entries s \<and> validRevisions s'' = validRevisions s \<and> nextRevisionId s'' = nextRevisionId s' \<and>
    nextRevisionId s \<le> nextRevisionId s''"
proof -
  let ?t = "snd (Snapshot_op s)" and ?i = "nextRevisionId s"
  let ?r = "\<lparr>rev_id = ?i, journalIndex = length (entries s)\<rparr>"
  note t = Snapshot_op_facts [OF assms(1)]
  obtain new where new: "validRevisions s' = validRevisions s @ ?r # new"
    using assms(2) by (auto simp: evolves_def Snapshot_op_def journal_length_def Let_def)
  have f: "find_revision ?i (validRevisions s') = length (validRevisions s)"
    unfolding new using assms(1) by (intro find_revision_here) (simp_all add: sdb_ok_def revs_wf_def)
  have u: "sdb.undoable ?t s'" using assms(2) by (simp add: evolves_def)
  define n where "n = length (entries s') - length (entries s)"
  obtain u where u: "revert_all (take n (entries s')) s' = Ok u" "eqv u ?t" "drop n (entries s') = entries s"
    using sdb.undo_back [OF u] t(3) by (auto simp: revert_all_undo_list n_def)
  define s'' where "s'' = u\<lparr>entries := entries s, validRevisions := validRevisions s\<rparr>"
  have R: "RevertToSnapshot (fst (Snapshot_op s)) s' = Ok s''"
    using f u(1,3) by (simp add: RevertToSnapshot_def Snapshot_op_def journal_revert_def new Let_def n_def s''_def)
  have "eqv s'' u"
    by (rule eqv_frame [OF eqv_wf(1) [OF u(2)]]) (simp_all add: s''_def same_env_def same_rest_def)
  then have e: "eqv s'' s" using u(2) t(2) eqv_trans by blast
  have ni: "nextRevisionId u = nextRevisionId s'"
    using revert_all_next [OF u(1)] .
  have le: "nextRevisionId s \<le> nextRevisionId s'"
    using assms(2) by (simp add: evolves_def Snapshot_op_def Let_def)
  have "sdb_ok s''"
    using e assms(1) le ni by (fastforce simp: sdb_ok_def eqv_def revs_wf_def s''_def)
  then show ?thesis using R e ni le by (simp add: s''_def)
qed


subsection \<open>Sequences of operations\<close>

text \<open>
  What is done to a state between a snapshot and its reversion: the reads and writes, and inner
  snapshots, which are kept or reverted in turn, as the frames of nested calls are.
\<close>

datatype sdb_op =
    DoAddBalance address int | DoSubBalance address int | DoSetBalance address int
  | DoSetNonce address u64 | DoSetCode address bytes | DoSetState address hash hash
  | DoSuicide address | DoCreateAccount address | DoAddLog Log | DoAddPreimage hash bytes
  | DoAddRefund u64 | DoSubRefund u64 | DoAddAddress address | DoAddSlot address hash
  | DoExist address | DoEmpty address | DoGetBalance address | DoGetNonce address | DoGetCode address
  | DoGetCodeSize address | DoGetCodeHash address | DoGetState address hash
  | DoGetCommittedState address hash | DoHasSuicided address

fun sdb_do :: "sdb_op \<Rightarrow> StateDB \<Rightarrow> StateDB res" where
  "sdb_do (DoAddBalance a v) s = Ok (AddBalance a v s)"
| "sdb_do (DoSubBalance a v) s = Ok (SubBalance a v s)"
| "sdb_do (DoSetBalance a v) s = Ok (SetBalance a v s)"
| "sdb_do (DoSetNonce a n) s = Ok (SetNonce a n s)"
| "sdb_do (DoSetCode a c) s = Ok (SetCode a c s)"
| "sdb_do (DoSetState a k v) s = Ok (SetState a k v s)"
| "sdb_do (DoSuicide a) s = Ok (snd (Suicide a s))"
| "sdb_do (DoCreateAccount a) s = Ok (CreateAccount a s)"
| "sdb_do (DoAddLog l) s = Ok (AddLog l s)"
| "sdb_do (DoAddPreimage h p) s = Ok (AddPreimage h p s)"
| "sdb_do (DoAddRefund g) s = Ok (AddRefund g s)"
| "sdb_do (DoSubRefund g) s = SubRefund g s"
| "sdb_do (DoAddAddress a) s = Ok (AddAddressToAccessList a s)"
| "sdb_do (DoAddSlot a k) s = AddSlotToAccessList a k s"
| "sdb_do (DoExist a) s = Ok (snd (Exist a s))"
| "sdb_do (DoEmpty a) s = Ok (snd (Empty a s))"
| "sdb_do (DoGetBalance a) s = Ok (snd (GetBalance a s))"
| "sdb_do (DoGetNonce a) s = Ok (snd (GetNonce a s))"
| "sdb_do (DoGetCode a) s = Ok (snd (GetCode a s))"
| "sdb_do (DoGetCodeSize a) s = Ok (snd (GetCodeSize a s))"
| "sdb_do (DoGetCodeHash a) s = Ok (snd (GetCodeHash a s))"
| "sdb_do (DoGetState a k) s = Ok (snd (GetState a k s))"
| "sdb_do (DoGetCommittedState a k) s = Ok (snd (GetCommittedState a k s))"
| "sdb_do (DoHasSuicided a) s = Ok (snd (HasSuicided a s))"

inductive sdb_runs :: "StateDB \<Rightarrow> StateDB \<Rightarrow> bool" where
  runs_none: "sdb_runs s s"
| runs_op: "sdb_runs s t \<Longrightarrow> sdb_do p t = Ok u \<Longrightarrow> sdb_runs s u"
| runs_keep: "sdb_runs s t \<Longrightarrow> sdb_runs (snd (Snapshot_op t)) u \<Longrightarrow> sdb_runs s u"
| runs_revert: "sdb_runs s t \<Longrightarrow> sdb_runs (snd (Snapshot_op t)) u \<Longrightarrow>
    RevertToSnapshot (fst (Snapshot_op t)) u = Ok v \<Longrightarrow> sdb_runs s v"

lemmas op_evolves = AddBalance_evolves SubBalance_evolves SetBalance_evolves SetNonce_evolves SetCode_evolves
  SetState_evolves CreateAccount_evolves AddLog_evolves AddPreimage_evolves AddRefund_evolves
  AddAddress_evolves

lemma evolves_snd: "(\<And>r s'. f s = (r, s') \<Longrightarrow> evolves s s') \<Longrightarrow> evolves s (snd (f s))"
proof -
  assume a: "\<And>r s'. f s = (r, s') \<Longrightarrow> evolves s s'"
  show "evolves s (snd (f s))" by (rule a [of "fst (f s)"]) (rule surjective_pairing)
qed

lemma read_op_evolves:
  assumes "sdb_ok s"
  shows "evolves s (snd (Suicide a s))"
    "evolves s (snd (Exist a s))"
    "evolves s (snd (Empty a s))"
    "evolves s (snd (GetBalance a s))"
    "evolves s (snd (GetNonce a s))"
    "evolves s (snd (GetCode a s))"
    "evolves s (snd (GetCodeSize a s))"
    "evolves s (snd (GetCodeHash a s))"
    "evolves s (snd (GetState a k s))"
    "evolves s (snd (GetCommittedState a k s))"
    "evolves s (snd (HasSuicided a s))"
proof -
  show "evolves s (snd (Suicide a s))" by (rule evolves_snd) (rule Suicide_evolves [OF assms])
  show "evolves s (snd (Exist a s))" by (rule evolves_snd) (rule Exist_evolves [OF assms])
  show "evolves s (snd (Empty a s))" by (rule evolves_snd) (rule Empty_evolves [OF assms])
  show "evolves s (snd (GetBalance a s))" by (rule evolves_snd) (rule GetBalance_evolves [OF assms])
  show "evolves s (snd (GetNonce a s))" by (rule evolves_snd) (rule GetNonce_evolves [OF assms])
  show "evolves s (snd (GetCode a s))" by (rule evolves_snd) (rule GetCode_evolves [OF assms])
  show "evolves s (snd (GetCodeSize a s))" by (rule evolves_snd) (rule GetCodeSize_evolves [OF assms])
  show "evolves s (snd (GetCodeHash a s))" by (rule evolves_snd) (rule GetCodeHash_evolves [OF assms])
  show "evolves s (snd (GetState a k s))" by (rule evolves_snd) (rule GetState_evolves [OF assms])
  show "evolves s (snd (GetCommittedState a k s))" by (rule evolves_snd) (rule GetCommittedState_evolves [OF assms])
  show "evolves s (snd (HasSuicided a s))" by (rule evolves_snd) (rule HasSuicided_evolves [OF assms])
qed

lemma sdb_do_evolves: "sdb_ok s \<Longrightarrow> sdb_do p s = Ok s' \<Longrightarrow> evolves s s'"
  by (cases p) (auto simp: op_evolves read_op_evolves dest: SubRefund_evolves AddSlot_evolves)

lemma reverted_evolves:
  assumes "sdb_ok t" "evolves (snd (Snapshot_op t)) u" "RevertToSnapshot (fst (Snapshot_op t)) u = Ok v"
  shows "evolves t v"
proof -
  have v: "eqv v t" "sdb_ok v" "entries v = entries t" "validRevisions v = validRevisions t"
    "nextRevisionId t \<le> nextRevisionId v"
    using RevertToSnapshot_evolves [OF assms(1,2)] assms(3) by auto
  then show ?thesis
    using assms(1) sdb.undoable_unlogged [OF eqv_sym [OF v(1)] v(3)]
    by (simp add: evolves_def) (simp add: eqv_def same_env_sym)
qed

lemma sdb_runs_evolves: "sdb_runs s t \<Longrightarrow> sdb_ok s \<Longrightarrow> evolves s t"
proof (induction rule: sdb_runs.induct)
  case (runs_none s)
  then show ?case by (rule evolves_refl)
next
  case (runs_op s t p u)
  then show ?case using sdb_do_evolves evolves_ok(2) evolves_trans by blast
next
  case (runs_keep s t u)
  then have t: "evolves s t" by simp
  note sn = Snapshot_op_facts(1) [OF evolves_ok(2) [OF t]]
  have "evolves (snd (Snapshot_op t)) u" using runs_keep evolves_ok(2) [OF sn] by simp
  then show ?case using evolves_trans [OF t evolves_trans [OF sn]] by simp
next
  case (runs_revert s t u v)
  then have t: "evolves s t" by simp
  have "evolves (snd (Snapshot_op t)) u"
    using runs_revert evolves_ok(2) [OF Snapshot_op_facts(1) [OF evolves_ok(2) [OF t]]] by simp
  then show ?case using reverted_evolves [OF evolves_ok(2) [OF t] _ runs_revert(3)] evolves_trans [OF t] by blast
qed

subsection \<open>What a caller can ask\<close>

definition same_answers :: "StateDB \<Rightarrow> StateDB \<Rightarrow> bool" where
  "same_answers s t \<longleftrightarrow>
     (\<forall>a. fst (Exist a s) = fst (Exist a t) \<and> fst (Empty a s) = fst (Empty a t) \<and>
        fst (GetBalance a s) = fst (GetBalance a t) \<and> fst (GetNonce a s) = fst (GetNonce a t) \<and>
        fst (GetCode a s) = fst (GetCode a t) \<and> fst (GetCodeSize a s) = fst (GetCodeSize a t) \<and>
        fst (GetCodeHash a s) = fst (GetCodeHash a t) \<and> fst (HasSuicided a s) = fst (HasSuicided a t) \<and>
        AddressInAccessList a s = AddressInAccessList a t \<and>
        (\<forall>k. fst (GetState a k s) = fst (GetState a k t) \<and>
             fst (GetCommittedState a k s) = fst (GetCommittedState a k t) \<and>
             SlotInAccessList a k s = SlotInAccessList a k t)) \<and>
     GetRefund s = GetRefund t \<and> (\<forall>h. logs_of h s = logs_of h t) \<and> preimages s = preimages t"

definition live_view :: "StateDB \<Rightarrow> address \<Rightarrow> obj_view option" where
  "live_view s a = map_option (obj_view s) (live s a)"

lemma live_view_eqv: "eqv s t \<Longrightarrow> live_view s a = live_view t a"
proof -
  have "live_view u a = (case acc_view u a of None \<Rightarrow> None | Some v \<Rightarrow> if v_deleted v then None else Some v)" for u
    by (simp add: live_view_def live_def acc_view_def obj_view_def split: option.split)
  then show "eqv s t \<Longrightarrow> live_view s a = live_view t a" by (simp add: eqv_def)
qed

lemma code_size_view:
  assumes "env_ok s"
  shows "fst (so_CodeSize s obj) = length (code_bytes s obj)"
proof -
  have "fst (ContractCodeSize s x h) = (case fst (ContractCode s x h) of None \<Rightarrow> 0 | Some c \<Rightarrow> length c)" for x h
    using assms by (simp add: env_ok_def)
  then show ?thesis
    by (auto simp: so_CodeSize_def code_bytes_def so_Code_def Let_def split_beta split: option.split)
qed

lemma answers:
  assumes "state_wf s"
  shows "fst (Exist a s) = (live_view s a \<noteq> None)"
    "fst (GetBalance a s) = (case live_view s a of None \<Rightarrow> 0 | Some v \<Rightarrow> v_balance v)"
    "fst (GetNonce a s) = (case live_view s a of None \<Rightarrow> 0 | Some v \<Rightarrow> v_nonce v)"
    "fst (GetCode a s) = (case live_view s a of None \<Rightarrow> [] | Some v \<Rightarrow> v_code v)"
    "fst (GetCodeSize a s) = (case live_view s a of None \<Rightarrow> 0 | Some v \<Rightarrow> length (v_code v))"
    "fst (GetCodeHash a s) = (case live_view s a of None \<Rightarrow> 0 | Some v \<Rightarrow> BytesToHash (v_codehash v))"
    "fst (HasSuicided a s) = (case live_view s a of None \<Rightarrow> False | Some v \<Rightarrow> v_suicided v)"
    "fst (GetState a k s) = (case live_view s a of None \<Rightarrow> 0 | Some v \<Rightarrow> v_storage v k)"
    "fst (GetCommittedState a k s) = (case live_view s a of None \<Rightarrow> 0 | Some v \<Rightarrow> v_committed v k)"
    "fst (Empty a s) = (case live_view s a of None \<Rightarrow> True
       | Some v \<Rightarrow> v_nonce v = 0 \<and> v_balance v = 0 \<and> v_codehash v = Some (emptyCodeHash s))"
proof -
  obtain r s1 where g: "getStateObject a s = (r, s1)" by (cases "getStateObject a s")
  note G = getStateObject_spec [OF assms g]
  have v: "obj_view s1 = obj_view s" using obj_view_eqv [OF eqv_sym [OF G(2)]] .
  then have l: "live_view s a = map_option (obj_view s1) r" by (simp add: live_view_def G(1))
  have h: "emptyCodeHash s1 = emptyCodeHash s" using G(2) by (simp add: eqv_def same_env_def emptyCodeHash_def)
  have e: "env_ok s1" using G(5) by (simp add: state_wf_def)
  note d = l g obj_view_def code_bytes_def
  show "fst (Exist a s) = (live_view s a \<noteq> None)" by (simp add: Exist_def d)
  show "fst (GetBalance a s) = (case live_view s a of None \<Rightarrow> 0 | Some v \<Rightarrow> v_balance v)"
    by (simp add: GetBalance_def d split: option.split)
  show "fst (GetNonce a s) = (case live_view s a of None \<Rightarrow> 0 | Some v \<Rightarrow> v_nonce v)"
    by (simp add: GetNonce_def d split: option.split)
  show "fst (GetCode a s) = (case live_view s a of None \<Rightarrow> [] | Some v \<Rightarrow> v_code v)"
    by (simp add: GetCode_def d split_beta split: option.split)
  show "fst (GetCodeSize a s) = (case live_view s a of None \<Rightarrow> 0 | Some v \<Rightarrow> length (v_code v))"
    by (simp add: GetCodeSize_def l g split_beta code_size_view [OF e] split: option.split) (simp add: obj_view_def)
  show "fst (GetCodeHash a s) = (case live_view s a of None \<Rightarrow> 0 | Some v \<Rightarrow> BytesToHash (v_codehash v))"
    by (simp add: GetCodeHash_def d split: option.split)
  show "fst (HasSuicided a s) = (case live_view s a of None \<Rightarrow> False | Some v \<Rightarrow> v_suicided v)"
    by (simp add: HasSuicided_def d split: option.split)
  show "fst (GetState a k s) = (case live_view s a of None \<Rightarrow> 0 | Some v \<Rightarrow> v_storage v k)"
    by (simp add: GetState_def d split_beta split: option.split)
  show "fst (GetCommittedState a k s) = (case live_view s a of None \<Rightarrow> 0 | Some v \<Rightarrow> v_committed v k)"
    by (simp add: GetCommittedState_def d split_beta split: option.split)
  show "fst (Empty a s) = (case live_view s a of None \<Rightarrow> True
       | Some v \<Rightarrow> v_nonce v = 0 \<and> v_balance v = 0 \<and> v_codehash v = Some (emptyCodeHash s))"
    by (simp add: Empty_def d h so_empty_def split: option.split)
qed

lemma eqv_same_answers:
  assumes "eqv s t"
  shows "same_answers s t"
proof -
  have e: "emptyCodeHash s = emptyCodeHash t" using assms by (simp add: eqv_def same_env_def emptyCodeHash_def)
  show ?thesis
    unfolding same_answers_def answers [OF eqv_wf(1) [OF assms]] answers [OF eqv_wf(2) [OF assms]]
      live_view_eqv [OF assms] e
    using assms by (simp add: eqv_def AddressInAccessList_def SlotInAccessList_def GetRefund_def)
qed

text \<open>
  C30: reverting to a snapshot undoes everything done since. Take a snapshot of a consistent state,
  then run any sequence of reads and writes, with inner snapshots kept or reverted: reverting to
  the snapshot does not panic, every getter answers as before, the journal and the list of valid
  revisions are what they were, and the state is consistent again.
\<close>

theorem RevertToSnapshot_restores:
  assumes "sdb_ok s" "sdb_runs (snd (Snapshot_op s)) s'"
  shows "\<exists>s''. RevertToSnapshot (fst (Snapshot_op s)) s' = Ok s'' \<and> same_answers s'' s \<and>
    entries s'' = entries s \<and> validRevisions s'' = validRevisions s \<and> sdb_ok s''"
proof -
  have "sdb_ok (snd (Snapshot_op s))" by (rule evolves_ok(2) [OF Snapshot_op_facts(1) [OF assms(1)]])
  from RevertToSnapshot_evolves [OF assms(1) sdb_runs_evolves [OF assms(2) this]]
  show ?thesis using eqv_same_answers by blast
qed

definition empty_db :: "(bytes \<Rightarrow> hash) \<Rightarrow> StateDB" where
  "empty_db h =
     \<lparr>hasher = h, trieAccount = (\<lambda>_. Inr None), OpenStorageTrie = (\<lambda>_ _ _. Inr (\<lambda>_. Inr [])),
      ContractCode = (\<lambda>_ _. (None, None)), ContractCodeSize = (\<lambda>_ _. (0, None)), originalRoot = emptyRoot,
      snap = None, snapDestructs = {}, stateObjects = Map.empty, stateObjectsPending = {}, stateObjectsDirty = {},
      dbErr = None, refund = 0, thash = 0, txIndex = 0, logs = Map.empty, logSize = 0, preimages = Map.empty,
      accList = newAccessList, entries = [], dirties = [], validRevisions = [], nextRevisionId = 0\<rparr>"

lemma empty_db_ok: "inj (\<lambda>a. h (addr_bytes a)) \<Longrightarrow> sdb_ok (empty_db h)"
  by (simp add: sdb_ok_def revs_wf_def state_wf_def env_ok_def empty_db_def)


definition sample_hash :: "bytes \<Rightarrow> hash" where
  "sample_hash bs = ucast (be_word bs :: address)"

lemma sample_hash_inj: "inj (\<lambda>a. sample_hash (addr_bytes a))"
proof (rule injI)
  fix a b :: address
  assume "sample_hash (addr_bytes a) = sample_hash (addr_bytes b)"
  then have e: "(ucast a :: hash) = ucast b"
    by (simp add: sample_hash_def addr_bytes_def be_word_be_bytes)
  have "unat (ucast c :: hash) = unat c" for c :: address
    by (simp add: unsigned_ucast_eq take_bit_nat_eq_self order_less_trans [OF unsigned_less])
  then show "a = b" using e by (metis unat_eqI)
qed

theorem RevertToSnapshot_restores_witness:
  "\<exists>s''. RevertToSnapshot 0 (SetState 7 1 2 (AddBalance 7 100 (snd (Snapshot_op (empty_db sample_hash))))) = Ok s'' \<and>
     fst (GetBalance 7 s'') = 0 \<and> fst (GetState 7 1 s'') = 0 \<and> \<not> fst (Exist 7 s'') \<and> entries s'' = []"
proof -
  let ?s = "empty_db sample_hash"
  have "sdb_runs (snd (Snapshot_op ?s)) (SetState 7 1 2 (AddBalance 7 100 (snd (Snapshot_op ?s))))"
    by (rule runs_op [where p = "DoSetState 7 1 2", OF runs_op [where p = "DoAddBalance 7 100", OF runs_none]]) simp_all
  from RevertToSnapshot_restores [OF empty_db_ok [OF sample_hash_inj] this]
  obtain s'' where s'': "RevertToSnapshot (fst (Snapshot_op ?s)) (SetState 7 1 2 (AddBalance 7 100 (snd (Snapshot_op ?s)))) = Ok s''"
    "same_answers s'' ?s" "entries s'' = entries ?s" by blast
  have g: "getStateObject 7 ?s = (None, ?s)"
    by (simp add: getStateObject_def getDeletedStateObject_def load_account_def empty_db_def)
  have "fst (Snapshot_op ?s) = 0" "entries ?s = []" by (simp_all add: Snapshot_op_def empty_db_def Let_def)
  moreover have "fst (GetBalance 7 ?s) = 0" "fst (GetState 7 1 ?s) = 0" "\<not> fst (Exist 7 ?s)"
    using g by (simp_all add: GetBalance_def GetState_def Exist_def)
  ultimately show ?thesis using s'' by (simp add: same_answers_def)
qed

end
