(* ===== verification/Precompiles.thy ===== *)
theory Precompiles
  imports Machine
begin

text \<open>
  The precompiled contracts (core/vm/contracts.go): which address holds which contract under which
  rules, the gas each requires, and the two whose result is not cryptographic, data copy and
  modular exponentiation. The others run code of other packages (crypto, bn256, blake2b, the hash
  functions) and are an argument of \<^verbatim>\<open>RunPrecompiledContract\<close>.
\<close>

datatype PrecompiledContract =
    ecrecover
  | sha256hash
  | ripemd160hash
  | dataCopy
  | bigModExp bool
  | bn256AddByzantium
  | bn256ScalarMulByzantium
  | bn256PairingByzantium
  | bn256AddIstanbul
  | bn256ScalarMulIstanbul
  | bn256PairingIstanbul
  | blake2F

section \<open>Addresses\<close>

type_synonym precompile_table = "(address \<times> PrecompiledContract) list"

definition PrecompiledContractsHomestead :: precompile_table where
  "PrecompiledContractsHomestead = [(1, ecrecover), (2, sha256hash), (3, ripemd160hash), (4, dataCopy)]"

definition PrecompiledContractsByzantium :: precompile_table where
  "PrecompiledContractsByzantium =
     [(1, ecrecover), (2, sha256hash), (3, ripemd160hash), (4, dataCopy), (5, bigModExp False),
      (6, bn256AddByzantium), (7, bn256ScalarMulByzantium), (8, bn256PairingByzantium)]"

definition PrecompiledContractsIstanbul :: precompile_table where
  "PrecompiledContractsIstanbul =
     [(1, ecrecover), (2, sha256hash), (3, ripemd160hash), (4, dataCopy), (5, bigModExp False),
      (6, bn256AddIstanbul), (7, bn256ScalarMulIstanbul), (8, bn256PairingIstanbul), (9, blake2F)]"

definition PrecompiledContractsBerlin :: precompile_table where
  "PrecompiledContractsBerlin =
     [(1, ecrecover), (2, sha256hash), (3, ripemd160hash), (4, dataCopy), (5, bigModExp True),
      (6, bn256AddIstanbul), (7, bn256ScalarMulIstanbul), (8, bn256PairingIstanbul), (9, blake2F)]"

definition precompile :: "Rules \<Rightarrow> address \<Rightarrow> PrecompiledContract option" where
  "precompile r addr =
     map_of (if rIsBerlin r then PrecompiledContractsBerlin
             else if rIsIstanbul r then PrecompiledContractsIstanbul
             else if rIsByzantium r then PrecompiledContractsByzantium
             else PrecompiledContractsHomestead) addr"

definition ActivePrecompiles :: "Rules \<Rightarrow> address list" where
  "ActivePrecompiles r =
     map fst (if rIsBerlin r then PrecompiledContractsBerlin
              else if rIsIstanbul r then PrecompiledContractsIstanbul
              else if rIsByzantium r then PrecompiledContractsByzantium
              else PrecompiledContractsHomestead)"

section \<open>Gas\<close>

definition big_of :: "bytes \<Rightarrow> nat" where
  "big_of bs = fold (\<lambda>b n. 256 * n + unat b) bs 0"

fun BitLen :: "nat \<Rightarrow> nat" where
  "BitLen n = (if n = 0 then 0 else BitLen (n div 2) + 1)"

declare BitLen.simps [simp del, model_simps]

text \<open>The low 64 bits, \<^verbatim>\<open>big.Int.Uint64\<close>.\<close>

definition low64 :: "nat \<Rightarrow> u64" where
  "low64 n = of_nat n"

definition modexpMultComplexity :: "int \<Rightarrow> int" where
  "modexpMultComplexity x =
     (if x \<le> 64 then x * x
      else if x \<le> 1024 then (x * x) div 4 + (96 * x - 3072)
      else (x * x) div 16 + (480 * x - 199680))"

text \<open>The lengths of base, exponent and modulus, and the input behind them.\<close>

definition modexp_args :: "bytes \<Rightarrow> (nat \<times> nat \<times> nat \<times> bytes) res" where
  "modexp_args input =
     rbind (getData input 0 32) (\<lambda>b. rbind (getData input 32 32) (\<lambda>e. rbind (getData input 64 32) (\<lambda>m.
       Ok (big_of b, big_of e, big_of m, if length input > 96 then drop 96 input else []))))"

definition modexp_expHead :: "nat \<Rightarrow> nat \<Rightarrow> bytes \<Rightarrow> nat res" where
  "modexp_expHead baseLen expLen input =
     (if length input \<le> baseLen then Ok 0
      else if expLen > 32 then rbind (getData input (low64 baseLen) 32) (\<lambda>d. Ok (big_of d))
      else rbind (getData input (low64 baseLen) (low64 expLen)) (\<lambda>d. Ok (big_of d)))"

definition bigModExp_RequiredGas :: "bool \<Rightarrow> bytes \<Rightarrow> u64 res" where
  "bigModExp_RequiredGas eip2565 input =
     rbind (modexp_args input) (\<lambda>(baseLen, expLen, modLen, rest).
     rbind (modexp_expHead baseLen expLen rest) (\<lambda>expHead.
       let msb = (if BitLen expHead > 0 then BitLen expHead - 1 else 0);
           adjExpLen = (if expLen > 32 then 8 * (expLen - 32) else 0) + msb;
           x = max modLen baseLen
       in if eip2565 then
            (let gas = ((x + 7) div 8) * ((x + 7) div 8) * max adjExpLen 1 div 3
             in if BitLen gas > 64 then Ok 18446744073709551615
                else if low64 gas < 200 then Ok 200 else Ok (low64 gas))
          else
            (let gas = nat (modexpMultComplexity (int x)) * max adjExpLen 1 div 20
             in if BitLen gas > 64 then Ok 18446744073709551615 else Ok (low64 gas))))"

definition words_of :: "bytes \<Rightarrow> u64" where
  "words_of input = of_nat (length input + 31) div 32"

definition sha256hash_RequiredGas :: "bytes \<Rightarrow> u64" where
  "sha256hash_RequiredGas input = words_of input * Sha256PerWordGas + Sha256BaseGas"

definition ripemd160hash_RequiredGas :: "bytes \<Rightarrow> u64" where
  "ripemd160hash_RequiredGas input = words_of input * Ripemd160PerWordGas + Ripemd160BaseGas"

definition dataCopy_RequiredGas :: "bytes \<Rightarrow> u64" where
  "dataCopy_RequiredGas input = words_of input * IdentityPerWordGas + IdentityBaseGas"

definition bn256PairingByzantium_RequiredGas :: "bytes \<Rightarrow> u64" where
  "bn256PairingByzantium_RequiredGas input =
     Bn256PairingBaseGasByzantium + of_nat (length input div 192) * Bn256PairingPerPointGasByzantium"

definition bn256PairingIstanbul_RequiredGas :: "bytes \<Rightarrow> u64" where
  "bn256PairingIstanbul_RequiredGas input =
     Bn256PairingBaseGasIstanbul + of_nat (length input div 192) * Bn256PairingPerPointGasIstanbul"

definition blake2F_RequiredGas :: "bytes \<Rightarrow> u64" where
  "blake2F_RequiredGas input = (if length input \<noteq> 213 then 0 else of_nat (big_of (take 4 input)))"

definition RequiredGas :: "PrecompiledContract \<Rightarrow> bytes \<Rightarrow> u64 res" where
  "RequiredGas p input = (case p of
       ecrecover \<Rightarrow> Ok EcrecoverGas
     | sha256hash \<Rightarrow> Ok (sha256hash_RequiredGas input)
     | ripemd160hash \<Rightarrow> Ok (ripemd160hash_RequiredGas input)
     | dataCopy \<Rightarrow> Ok (dataCopy_RequiredGas input)
     | bigModExp eip2565 \<Rightarrow> bigModExp_RequiredGas eip2565 input
     | bn256AddByzantium \<Rightarrow> Ok Bn256AddGasByzantium
     | bn256ScalarMulByzantium \<Rightarrow> Ok Bn256ScalarMulGasByzantium
     | bn256PairingByzantium \<Rightarrow> Ok (bn256PairingByzantium_RequiredGas input)
     | bn256AddIstanbul \<Rightarrow> Ok Bn256AddGasIstanbul
     | bn256ScalarMulIstanbul \<Rightarrow> Ok Bn256ScalarMulGasIstanbul
     | bn256PairingIstanbul \<Rightarrow> Ok (bn256PairingIstanbul_RequiredGas input)
     | blake2F \<Rightarrow> Ok (blake2F_RequiredGas input))"

section \<open>Running\<close>

fun modpow :: "nat \<Rightarrow> nat \<Rightarrow> nat \<Rightarrow> nat" where
  "modpow b e m =
     (if e = 0 then 1 mod m
      else let h = modpow (b * b mod m) (e div 2) m in if odd e then b * h mod m else h)"

declare modpow.simps [simp del, model_simps]

definition bigModExp_Run :: "bytes \<Rightarrow> (bytes \<times> string option) res" where
  "bigModExp_Run input =
     rbind (modexp_args input) (\<lambda>(b, e, m, rest).
       let baseLen = low64 b; expLen = low64 e; modLen = low64 m
       in if baseLen = 0 \<and> modLen = 0 then Ok ([], None)
          else
            rbind (getData rest 0 baseLen) (\<lambda>base.
            rbind (getData rest baseLen expLen) (\<lambda>exp.
            rbind (getData rest (baseLen + expLen) modLen) (\<lambda>md.
              if BitLen (big_of md) = 0 then Ok (LeftPadBytes [] (nat (sint modLen)), None)
              else Ok (LeftPadBytes (bytes_of_nat (modpow (big_of base) (big_of exp) (big_of md)))
                         (nat (sint modLen)), None)))))"

type_synonym crypto = "PrecompiledContract \<Rightarrow> bytes \<Rightarrow> bytes \<times> string option"

definition precompile_Run :: "crypto \<Rightarrow> PrecompiledContract \<Rightarrow> bytes \<Rightarrow> (bytes \<times> string option) res" where
  "precompile_Run crypto p input = (case p of
       dataCopy \<Rightarrow> Ok (input, None)
     | bigModExp _ \<Rightarrow> bigModExp_Run input
     | _ \<Rightarrow> Ok (crypto p input))"

definition RunPrecompiledContract ::
  "crypto \<Rightarrow> PrecompiledContract \<Rightarrow> bytes \<Rightarrow> u64 \<Rightarrow> (bytes \<times> u64 \<times> vm_error option) res" where
  "RunPrecompiledContract crypto p input suppliedGas =
     rbind (RequiredGas p input) (\<lambda>gasCost.
       if suppliedGas < gasCost then Ok ([], 0, Some ErrOutOfGas)
       else rbind (precompile_Run crypto p input) (\<lambda>(output, err).
         Ok (output, suppliedGas - gasCost, map_option ErrOther err)))"

lemma RunPrecompiledContract_gas:
  "RunPrecompiledContract crypto p input gas = Ok (ret, left, err) \<Longrightarrow> left \<le> gas"
  by (auto simp: RunPrecompiledContract_def word_le_nat_alt word_less_nat_alt unat_sub_if' split: if_splits prod.splits)

lemma modpow_spec: "0 < m \<Longrightarrow> modpow b e m = b ^ e mod m"
proof (induction b e m rule: modpow.induct)
  case (1 b e m)
  show ?case
  proof (cases "e = 0")
    case True
    then show ?thesis by (simp add: modpow.simps)
  next
    case False
    let ?h = "modpow (b * b mod m) (e div 2) m"
    have h: "?h = (b * b) ^ (e div 2) mod m" using 1 False by (simp add: power_mod)
    have e: "b ^ e = b ^ (e mod 2) * (b * b) ^ (e div 2)"
      by (metis power_add power_mult power2_eq_square mod_mult_div_eq)
    show ?thesis
    proof (cases "odd e")
      case True
      then have "e mod 2 = 1" by presburger
      then show ?thesis using False True h e by (simp add: modpow.simps [of b e m] Let_def mod_mult_right_eq)
    next
      case even: False
      then have "e mod 2 = 0" by presburger
      then show ?thesis using False even h e by (simp add: modpow.simps [of b e m] Let_def)
    qed
  qed
qed

end
