(* ===== verification/Logger.thy ===== *)
theory Logger
  imports Format
begin

text \<open>
  The trace logger of this fork (mgologger/DBLogger.go) with the address format it prints
  (common/types.go). Its package variables, three text buffers, the trace index and the stack of
  call indices, are the record \<open>Logger\<close>; the MongoDB session is left out, so that
  \<^verbatim>\<open>WriteEntry\<close> returns the record it would insert. Keccak-256, used by the checksum of an
  address, is an argument.
\<close>

section \<open>Addresses as text (common/types.go)\<close>

definition addr_hex :: "address \<Rightarrow> string" where
  "addr_hex a = ''0x'' @ EncodeToString (addr_bytes a)"

text \<open>Digit \<open>i\<close> of the address is raised to upper case when digit \<open>i\<close> of the hash is above 7.\<close>

definition checksum_char :: "bytes \<Rightarrow> nat \<Rightarrow> char \<Rightarrow> char" where
  "checksum_char h i c =
     (let hashByte = h ! (i div 2);
          digit = (if i mod 2 = 0 then drop_bit 4 hashByte else hashByte AND 0xf)
      in if of_char c > (57::nat) \<and> digit > 7 then char_of (of_char c - (32::nat)) else c)"

definition checksumHex :: "(bytes \<Rightarrow> hash) \<Rightarrow> address \<Rightarrow> string" where
  "checksumHex keccak a =
     (let ds = EncodeToString (addr_bytes a);
          h = hash_bytes (keccak (map (\<lambda>c. of_char c) ds))
      in ''0x'' @ map (\<lambda>(i, c). checksum_char h i c) (enumerate 0 ds))"

definition Address_String :: "(bytes \<Rightarrow> hash) \<Rightarrow> address \<Rightarrow> string" where
  "Address_String keccak a = checksumHex keccak a"

section \<open>State of the logger\<close>

record Logger =
  opTrace :: string
  funcTrace :: string
  transferTrace :: string
  TraceIndex :: int
  CallStack :: "nat list"

text \<open>A record inserted into the database for a transaction.\<close>

record Collection =
  cBlock :: int
  cTx :: string
  cFrom :: string
  cTo :: string
  cValue :: string
  cGasPrice :: string
  cGasUsed :: string
  cOpTrace :: string
  cFuncTrace :: string
  cTransferTrace :: string

text \<open>\<^verbatim>\<open>bytes.NewBuffer(make([]byte, n))\<close> is a buffer that already holds \<open>n\<close> zero bytes.\<close>

definition InitLogger :: Logger where
  "InitLogger =
     \<lparr>opTrace = replicate 800000 (CHR 0x00), funcTrace = replicate 2000000 (CHR 0x00),
      transferTrace = replicate 500000 (CHR 0x00), TraceIndex = 0, CallStack = replicate 1025 0\<rparr>"

definition InitTrace :: "Logger \<Rightarrow> Logger" where
  "InitTrace l =
     l\<lparr>opTrace := [], funcTrace := [], transferTrace := [],
       CallStack := replicate 1024 0 @ drop 1024 (CallStack l), TraceIndex := 0\<rparr>"

definition AddOpLog :: "u64 \<Rightarrow> u64 \<Rightarrow> u64 \<Rightarrow> string \<Rightarrow> u64 \<Rightarrow> u64 \<Rightarrow> bytes \<Rightarrow> Logger \<Rightarrow> Logger" where
  "AddOpLog pc callindex depth op gas gasCost ret l =
     l\<lparr>opTrace := opTrace l @ dec_nat (unat pc) @ '','' @ dec_nat (unat callindex) @ '','' @
        dec_nat (unat depth) @ '','' @ op @ '','' @ dec_nat (unat gas) @ '','' @ dec_nat (unat gasCost) @
        '',0x'' @ EncodeToString ret @ [CHR 0x0A]\<rparr>"

text \<open>\<^verbatim>\<open>CallStack[1:depth+1]\<close>.\<close>

definition call_path :: "nat \<Rightarrow> Logger \<Rightarrow> string res" where
  "call_path depth l = rbind (gslice (CallStack l) 1 (depth + 1)) (\<lambda>s. Ok (uint_slice s))"

definition AddFuncLog ::
  "(bytes \<Rightarrow> hash) \<Rightarrow> int \<Rightarrow> string \<Rightarrow> nat \<Rightarrow> address \<Rightarrow> address \<Rightarrow> int \<Rightarrow> u64 \<Rightarrow> bytes \<Rightarrow> bytes \<Rightarrow> Logger \<Rightarrow> Logger res" where
  "AddFuncLog keccak index calltype depth src dst value gas input output l =
     (let line = dec_int index @ '','' @ calltype @ '','' @ dec_nat depth @ '','' @ Address_String keccak src @ '','' @
            Address_String keccak dst @ '','' @ dec_int value @ '','' @ dec_nat (unat gas) @ '',0x'' @
            EncodeToString input @ '',0x'' @ EncodeToString output
      in if depth = 0 then Ok (l\<lparr>funcTrace := funcTrace l @ line @ '',[],[]'' @ [CHR 0x0A]\<rparr>)
         else rbind (call_path depth l) (\<lambda>p. Ok (l\<lparr>funcTrace := funcTrace l @ line @ '','' @ p @ [CHR 0x0A]\<rparr>)))"

definition AddTransferLog ::
  "(bytes \<Rightarrow> hash) \<Rightarrow> address \<Rightarrow> address \<Rightarrow> int \<Rightarrow> nat \<Rightarrow> Logger \<Rightarrow> Logger res" where
  "AddTransferLog keccak src dst value depth l =
     (let line = Address_String keccak src @ '','' @ Address_String keccak dst @ '','' @ dec_int value @ '','' @
            dec_nat depth @ '','' @ dec_int (TraceIndex l)
      in if depth = 0 then Ok (l\<lparr>transferTrace := transferTrace l @ line @ '',[]'' @ [CHR 0x0A]\<rparr>)
         else rbind (call_path depth l) (\<lambda>p. Ok (l\<lparr>transferTrace := transferTrace l @ line @ '','' @ p @ [CHR 0x0A]\<rparr>)))"

section \<open>Writing a transaction\<close>

text \<open>\<^verbatim>\<open>bytes.Trim(b, "\x00")\<close> and \<^verbatim>\<open>strings.TrimSuffix(s, "\n")\<close>.\<close>

definition trim_zeros :: "string \<Rightarrow> string" where
  "trim_zeros s = rev (dropWhile (\<lambda>c. c = CHR 0x00) (rev (dropWhile (\<lambda>c. c = CHR 0x00) s)))"

definition trim_newline :: "string \<Rightarrow> string" where
  "trim_newline s = (if s \<noteq> [] \<and> last s = CHR 0x0A then butlast s else s)"

definition WriteEntry ::
  "int \<Rightarrow> hash \<Rightarrow> string \<Rightarrow> string \<Rightarrow> int \<Rightarrow> int \<Rightarrow> u64 \<Rightarrow> Logger \<Rightarrow> Collection option" where
  "WriteEntry block tx src dst value gasPrice gasUsed l =
     (let opTraceStr = trim_newline (trim_zeros (opTrace l));
          funcTraceStr = trim_newline (trim_zeros (funcTrace l));
          transferTraceStr = trim_newline (trim_zeros (transferTrace l))
      in if opTraceStr = [] then None
         else Some \<lparr>cBlock = sint (of_int block :: u64), cTx = ''0x'' @ EncodeToString (hash_bytes tx),
                    cFrom = src, cTo = dst, cValue = dec_int value, cGasPrice = dec_int gasPrice,
                    cGasUsed = dec_nat (unat gasUsed), cOpTrace = opTraceStr, cFuncTrace = funcTraceStr,
                    cTransferTrace = transferTraceStr\<rparr>)"

end
