(* ===== verification/EvmTypes.thy ===== *)
theory EvmTypes
  imports State CodeAnalysis Precompiles Logger Opcodes
begin

text \<open>
  The state of the virtual machine (core/vm/evm.go, interpreter.go): the block and transaction
  context, the EVM with its interpreter, and the frame of a running contract, whose parts are the
  \<^verbatim>\<open>ScopeContext\<close>, the program counter and the EVM that the executing function reaches through
  its interpreter. Functions reached through interfaces or function values are named by
  datatypes: the instruction to execute, its dynamic gas and its memory size.

  Tracers (\<^verbatim>\<open>Config.Debug\<close>) only observe and are left out; the flag itself stays, because
  the logged gas depends on it. The functions of the Go types \<^verbatim>\<open>CanTransferFunc\<close> and
  \<^verbatim>\<open>TransferFunc\<close> are those of core/evm.go.
\<close>

section \<open>Instructions (core/vm/jump_table.go)\<close>

datatype (plugins only: code size) arithFunc =
    OpAdd | OpSub | OpMul | OpDiv | OpSdiv | OpMod | OpSmod | OpExp | OpSignExtend | OpNot
  | OpLt | OpGt | OpSlt | OpSgt | OpEq | OpIszero | OpAnd | OpOr | OpXor | OpByte | OpAddmod
  | OpMulmod | OpSHL | OpSHR | OpSAR

datatype (plugins only: code size) envFunc =
    OpAddress | OpOrigin | OpCaller | OpCallValue | OpCallDataLoad | OpCallDataSize
  | OpReturnDataSize | OpCodeSize | OpGasprice | OpBlockhash | OpCoinbase | OpTimestamp | OpNumber
  | OpDifficulty | OpRandom | OpGasLimit | OpChainID | OpBaseFee | OpPc | OpMsize | OpGas

datatype (plugins only: code size) stateFunc =
    OpBalance | OpSelfBalance | OpExtCodeSize | OpExtCodeCopy | OpExtCodeHash | OpSload | OpSstore
  | OpKeccak256 | OpLog nat | OpSelfdestruct

datatype (plugins only: code size) flowFunc =
    OpCallDataCopy | OpReturnDataCopy | OpCodeCopy | OpPop | OpMload | OpMstore | OpMstore8
  | OpJump | OpJumpi | OpJumpdest | OpReturn | OpRevert | OpUndefined | OpStop | OpPush0 | OpPush1
  | OpPush nat nat | OpDup nat | OpSwap nat

datatype (plugins only: code size) callFunc =
    OpCreate | OpCreate2 | OpCall | OpCallCode | OpDelegateCall | OpStaticCall

datatype (plugins only: code size) executionFunc =
    Arith arithFunc | Env envFunc | Flow flowFunc | Access stateFunc | SubCall callFunc

datatype (plugins only: code size) gasFunc =
    GasMemoryCopier nat | GasSStore | GasSStoreEIP2200 | GasSStore2929 u64 | GasLog u64
  | GasKeccak256 | GasPureMemory | GasCreate2 | GasExpFrontier | GasExpEIP158 | GasCall
  | GasCallCode | GasDelegateCall | GasStaticCall | GasSelfdestruct | GasSLoadEIP2929
  | GasExtCodeCopyEIP2929 | GasEip2929AccountCheck | GasCallVariantEIP2929 gasFunc
  | GasSelfdestructEIP bool

datatype (plugins only: code size) memorySizeFunc =
    MemoryKeccak256 | MemoryCallDataCopy | MemoryReturnDataCopy | MemoryCodeCopy
  | MemoryExtCodeCopy | MemoryMLoad | MemoryMStore8 | MemoryMStore | MemoryCreate | MemoryCreate2
  | MemoryCall | MemoryDelegateCall | MemoryStaticCall | MemoryReturn | MemoryRevert | MemoryLog

record operation =
  execute :: executionFunc
  constantGas :: u64
  dynamicGas :: "gasFunc option"
  minStack_of :: int
  maxStack_of :: int
  memorySize :: "memorySizeFunc option"

type_synonym JumpTable = "byte \<Rightarrow> operation option"

section \<open>The virtual machine (core/vm/evm.go)\<close>

record BlockContext =
  GetHash :: "u64 \<Rightarrow> hash"
  Coinbase :: address
  GasLimit :: u64
  BlockNumber :: int
  Time :: int
  Difficulty :: int
  BaseFee :: "int option"
  Random :: "hash option"

record TxContext =
  Origin :: address
  GasPrice :: int

record Config =
  Debug :: bool
  NoBaseFee :: bool
  EnablePreimageRecording :: bool
  ExtraEips :: "nat list"
  cPrefetch :: bool

text \<open>
  The EVM together with its only interpreter (\<^verbatim>\<open>readOnly\<close>, \<^verbatim>\<open>returnData\<close>, the jump table)
  and the package state it works on: the logger and the analyses of jump destinations, one map per
  outermost contract. \<open>crypto\<close> are the precompiled contracts of other packages.
\<close>

record EVM =
  Context :: BlockContext
  TxCtx :: TxContext
  sdb :: StateDB
  Depth :: nat
  CallIndex :: u64
  chainConfig :: ChainConfig
  chainRules :: Rules
  evmConfig :: Config
  abort :: bool
  callGasTemp :: u64
  Prefetch :: bool
  readOnly :: bool
  returnData :: bytes
  jumpTable :: JumpTable
  analyses :: jumpdest_store
  logger :: Logger
  crypto :: crypto

definition Keccak256 :: "EVM \<Rightarrow> bytes \<Rightarrow> hash" where
  "Keccak256 evm = hasher (sdb evm)"

section \<open>A running contract\<close>

record frame =
  pc :: u64
  interp :: EVM
  fmem :: Memory
  fstack :: stack
  contract :: Contract

text \<open>
  What an instruction returns: the result, the output for the log, and the error, which may be the
  stop token.
\<close>

type_synonym op_result = "bytes \<times> bytes \<times> vm_error option"
type_synonym op = "frame \<Rightarrow> (op_result \<times> frame) res"

definition finish :: "bytes \<Rightarrow> op" where
  "finish out fr = Ok (([], out, None), fr)"

definition fail :: "vm_error \<Rightarrow> op" where
  "fail e fr = Ok (([], [], Some e), fr)"

definition pop1 :: "frame \<Rightarrow> (u256 \<times> frame) res" where
  "pop1 fr = rbind (pop (fstack fr)) (\<lambda>(x, st). Ok (x, fr\<lparr>fstack := st\<rparr>))"

definition peek1 :: "frame \<Rightarrow> u256 res" where
  "peek1 fr = peek (fstack fr)"

definition push1 :: "u256 \<Rightarrow> frame \<Rightarrow> frame" where
  "push1 x fr = fr\<lparr>fstack := push x (fstack fr)\<rparr>"

definition poke1 :: "u256 \<Rightarrow> frame \<Rightarrow> frame res" where
  "poke1 x fr = rbind (poke x (fstack fr)) (\<lambda>st. Ok (fr\<lparr>fstack := st\<rparr>))"

text \<open>A read or write of the state database by the running instruction.\<close>

definition db_read :: "(StateDB \<Rightarrow> 'a \<times> StateDB) \<Rightarrow> frame \<Rightarrow> 'a \<times> frame" where
  "db_read f fr = (let (x, s) = f (sdb (interp fr)) in (x, fr\<lparr>interp := (interp fr)\<lparr>sdb := s\<rparr>\<rparr>))"

definition db_write :: "(StateDB \<Rightarrow> StateDB) \<Rightarrow> frame \<Rightarrow> frame" where
  "db_write f fr = fr\<lparr>interp := (interp fr)\<lparr>sdb := f (sdb (interp fr))\<rparr>\<rparr>"

definition word_bytes :: "u256 \<Rightarrow> bytes" where
  "word_bytes w = bytes_of_nat (unat w)"

definition Bytes20 :: "u256 \<Rightarrow> address" where
  "Bytes20 w = ucast w"

definition addr_word :: "address \<Rightarrow> u256" where
  "addr_word a = ucast a"

definition int64 :: "u64 \<Rightarrow> int" where
  "int64 w = sint w"

definition big_bytes :: "int \<Rightarrow> bytes" where
  "big_bytes i = bytes_of_nat (nat \<bar>i\<bar>)"

end
