(* ===== verification/Instructions.thy ===== *)
theory Instructions
  imports EvmTypes "HOL-Library.Signed_Division"
begin

text \<open>
  The instructions that do not call other contracts (core/vm/instructions.go, eips.go), each a
  function of the frame. The arithmetic of 256-bit integers is that of the uint256 package: addition
  and multiplication wrap, division by zero gives zero, signed operations work on two's complement.
\<close>

section \<open>Arithmetic of uint256\<close>

definition u_div :: "u256 \<Rightarrow> u256 \<Rightarrow> u256" where
  "u_div x y = (if y = 0 then 0 else x div y)"

definition u_mod :: "u256 \<Rightarrow> u256 \<Rightarrow> u256" where
  "u_mod x y = (if y = 0 then 0 else x mod y)"

definition u_sdiv :: "u256 \<Rightarrow> u256 \<Rightarrow> u256" where
  "u_sdiv x y = (if y = 0 then 0 else of_int (sint x sdiv sint y))"

definition u_smod :: "u256 \<Rightarrow> u256 \<Rightarrow> u256" where
  "u_smod x y = (if y = 0 then 0 else of_int (sint x smod sint y))"

fun pow_word :: "u256 \<Rightarrow> nat \<Rightarrow> u256" where
  "pow_word b e =
     (if e = 0 then 1
      else let h = pow_word (b * b) (e div 2) in if odd e then b * h else h)"

declare pow_word.simps [simp del, model_simps]

definition u_exp :: "u256 \<Rightarrow> u256 \<Rightarrow> u256" where
  "u_exp b e = pow_word b (unat e)"

definition u_extend_sign :: "u256 \<Rightarrow> u256 \<Rightarrow> u256" where
  "u_extend_sign x byteNum =
     (if byteNum > 30 then x
      else let n = unat byteNum * 8 + 7; m = mask n :: u256
           in if bit x n then x OR NOT m else x AND m)"

definition u_byte :: "u256 \<Rightarrow> u256 \<Rightarrow> u256" where
  "u_byte val n = (if n < 32 then drop_bit (8 * (31 - unat n)) val AND 255 else 0)"

definition u_addmod :: "u256 \<Rightarrow> u256 \<Rightarrow> u256 \<Rightarrow> u256" where
  "u_addmod x y m = (if m = 0 then 0 else of_nat ((unat x + unat y) mod unat m))"

definition u_mulmod :: "u256 \<Rightarrow> u256 \<Rightarrow> u256 \<Rightarrow> u256" where
  "u_mulmod x y m = (if m = 0 then 0 else of_nat ((unat x * unat y) mod unat m))"

definition u_srsh :: "u256 \<Rightarrow> nat \<Rightarrow> u256" where
  "u_srsh x n = signed_drop_bit n x"

definition bool_word :: "bool \<Rightarrow> u256" where
  "bool_word b = (if b then 1 else 0)"

text \<open>\<^verbatim>\<open>uint256.FromBig\<close>: the value modulo 2 to the 256.\<close>

definition FromBig :: "int \<Rightarrow> u256" where
  "FromBig i = of_int i"

section \<open>Arithmetic, comparison and bit instructions\<close>

text \<open>Pop one, two or three operands; the result replaces the last.\<close>

definition unop :: "(u256 \<Rightarrow> u256) \<Rightarrow> op" where
  "unop f fr = rbind (peek1 fr) (\<lambda>x. rbind (poke1 (f x) fr) (finish []))"

definition binop :: "(u256 \<Rightarrow> u256 \<Rightarrow> u256) \<Rightarrow> op" where
  "binop f fr = rbind (pop1 fr) (\<lambda>(x, fr). rbind (peek1 fr) (\<lambda>y. rbind (poke1 (f x y) fr) (finish [])))"

definition triop :: "(u256 \<Rightarrow> u256 \<Rightarrow> u256 \<Rightarrow> u256) \<Rightarrow> op" where
  "triop f fr =
     rbind (pop1 fr) (\<lambda>(x, fr). rbind (pop1 fr) (\<lambda>(y, fr).
     rbind (peek1 fr) (\<lambda>z. rbind (poke1 (f x y z) fr) (finish []))))"

definition opAdd :: op where "opAdd = binop (\<lambda>x y. x + y)"
definition opSub :: op where "opSub = binop (\<lambda>x y. x - y)"
definition opMul :: op where "opMul = binop (\<lambda>x y. x * y)"
definition opDiv :: op where "opDiv = binop u_div"
definition opSdiv :: op where "opSdiv = binop u_sdiv"
definition opMod :: op where "opMod = binop u_mod"
definition opSmod :: op where "opSmod = binop u_smod"
definition opExp :: op where "opExp = binop u_exp"
definition opSignExtend :: op where "opSignExtend = binop (\<lambda>back num. u_extend_sign num back)"
definition opNot :: op where "opNot = unop (\<lambda>x. NOT x)"
definition opLt :: op where "opLt = binop (\<lambda>x y. bool_word (x < y))"
definition opGt :: op where "opGt = binop (\<lambda>x y. bool_word (x > y))"
definition opSlt :: op where "opSlt = binop (\<lambda>x y. bool_word (sint x < sint y))"
definition opSgt :: op where "opSgt = binop (\<lambda>x y. bool_word (sint x > sint y))"
definition opEq :: op where "opEq = binop (\<lambda>x y. bool_word (x = y))"
definition opIszero :: op where "opIszero = unop (\<lambda>x. bool_word (x = 0))"
definition opAnd :: op where "opAnd = binop (\<lambda>x y. x AND y)"
definition opOr :: op where "opOr = binop (\<lambda>x y. x OR y)"
definition opXor :: op where "opXor = binop (\<lambda>x y. x XOR y)"
definition opByte :: op where "opByte = binop (\<lambda>th val. u_byte val th)"
definition opAddmod :: op where "opAddmod = triop u_addmod"
definition opMulmod :: op where "opMulmod = triop u_mulmod"

definition opSHL :: op where
  "opSHL = binop (\<lambda>shift value. if shift < 256 then push_bit (unat shift) value else 0)"

definition opSHR :: op where
  "opSHR = binop (\<lambda>shift value. if shift < 256 then drop_bit (unat shift) value else 0)"

definition opSAR :: op where
  "opSAR = binop (\<lambda>shift value.
     if shift > 256 then (if sint value \<ge> 0 then 0 else NOT 0)
     else u_srsh value (unat (Uint64 shift)))"

section \<open>Environment\<close>

definition opKeccak256 :: op where
  "opKeccak256 fr =
     rbind (pop1 fr) (\<lambda>(offset, fr). rbind (peek1 fr) (\<lambda>size.
     rbind (GetPtr (int64 (Uint64 offset)) (int64 (Uint64 size)) (fmem fr)) (\<lambda>data.
       let h = Keccak256 (interp fr) data;
           fr1 = (if EnablePreimageRecording (evmConfig (interp fr)) then db_write (AddPreimage h data) fr else fr)
       in rbind (poke1 h fr1) (finish (hash_bytes h)))))"

definition opAddress :: op where
  "opAddress fr = (let val = addr_word (self (contract fr)) in finish (word_bytes val) (push1 val fr))"

text \<open>The balance is looked up twice: the stack gets it modulo 2 to the 256, the log in full.\<close>

definition opBalance :: op where
  "opBalance fr =
     rbind (peek1 fr) (\<lambda>slot.
       let (b, fr1) = db_read (GetBalance (Bytes20 slot)) fr
       in rbind (poke1 (FromBig b) fr1) (\<lambda>fr2.
            let (b', fr3) = db_read (GetBalance (Bytes20 slot)) fr2 in finish (big_bytes b') fr3))"

definition opOrigin :: op where
  "opOrigin fr = (let v = addr_word (Origin (TxCtx (interp fr))) in finish (word_bytes v) (push1 v fr))"

definition opCaller :: op where
  "opCaller fr = (let v = addr_word (CallerAddress (contract fr)) in finish (word_bytes v) (push1 v fr))"

definition opCallValue :: op where
  "opCallValue fr = (case cvalue (contract fr) of
       None \<Rightarrow> Panic
     | Some i \<Rightarrow> finish (word_bytes (FromBig i)) (push1 (FromBig i) fr))"

definition opCallDataLoad :: op where
  "opCallDataLoad fr =
     rbind (peek1 fr) (\<lambda>x.
       let (offset, overflow) = Uint64WithOverflow x in
       if \<not> overflow then
         rbind (getData (cInput (contract fr)) offset 32) (\<lambda>data. rbind (poke1 (be_word data) fr) (finish data))
       else rbind (poke1 0 fr) (finish []))"

definition opCallDataSize :: op where
  "opCallDataSize fr = (let v = of_nat (length (cInput (contract fr))) in finish (word_bytes v) (push1 v fr))"

text \<open>
  Copying instructions: a source offset beyond 64 bits reads as the largest one. The destination
  and the length were checked when the gas was computed.
\<close>

definition clamp64 :: "u256 \<Rightarrow> u64" where
  "clamp64 w = (let (v, overflow) = Uint64WithOverflow w in if overflow then 0xffffffffffffffff else v)"

definition copy_to_memory :: "u256 \<Rightarrow> u256 \<Rightarrow> u256 \<Rightarrow> bytes \<Rightarrow> op" where
  "copy_to_memory memOffset dataOffset len data fr =
     rbind (getData data (clamp64 dataOffset) (Uint64 len)) (\<lambda>d.
     rbind (mem_Set (Uint64 memOffset) (Uint64 len) d (fmem fr)) (\<lambda>m.
       finish d (fr\<lparr>fmem := m\<rparr>)))"

definition opCallDataCopy :: op where
  "opCallDataCopy fr =
     rbind (pop1 fr) (\<lambda>(memOffset, fr). rbind (pop1 fr) (\<lambda>(dataOffset, fr). rbind (pop1 fr) (\<lambda>(len, fr).
       copy_to_memory memOffset dataOffset len (cInput (contract fr)) fr)))"

definition opReturnDataSize :: op where
  "opReturnDataSize fr = finish [] (push1 (of_nat (length (returnData (interp fr)))) fr)"

definition opReturnDataCopy :: op where
  "opReturnDataCopy fr =
     rbind (pop1 fr) (\<lambda>(memOffset, fr). rbind (pop1 fr) (\<lambda>(dataOffset, fr). rbind (pop1 fr) (\<lambda>(len, fr).
       let (offset64, overflow) = Uint64WithOverflow dataOffset in
       if overflow then fail ErrReturnDataOutOfBounds fr
       else
         let (end64, overflow) = Uint64WithOverflow (dataOffset + len) in
         if overflow \<or> of_nat (length (returnData (interp fr))) < end64 then fail ErrReturnDataOutOfBounds fr
         else rbind (gslice (returnData (interp fr)) (unat offset64) (unat end64)) (\<lambda>d.
              rbind (mem_Set (Uint64 memOffset) (Uint64 len) d (fmem fr)) (\<lambda>m.
                finish [] (fr\<lparr>fmem := m\<rparr>))))))"

definition opExtCodeSize :: op where
  "opExtCodeSize fr =
     rbind (peek1 fr) (\<lambda>slot.
       let (n, fr1) = db_read (GetCodeSize (Bytes20 slot)) fr; val = of_nat n :: u64
       in rbind (poke1 (ucast val) fr1) (finish (bytes_of_nat (unat val))))"

definition opCodeSize :: op where
  "opCodeSize fr = (let l = of_nat (length (Code (contract fr))) in finish (word_bytes l) (push1 l fr))"

definition opCodeCopy :: op where
  "opCodeCopy fr =
     rbind (pop1 fr) (\<lambda>(memOffset, fr). rbind (pop1 fr) (\<lambda>(codeOffset, fr). rbind (pop1 fr) (\<lambda>(len, fr).
       copy_to_memory memOffset codeOffset len (Code (contract fr)) fr)))"

definition opExtCodeCopy :: op where
  "opExtCodeCopy fr =
     rbind (pop1 fr) (\<lambda>(a, fr). rbind (pop1 fr) (\<lambda>(memOffset, fr). rbind (pop1 fr) (\<lambda>(codeOffset, fr).
     rbind (pop1 fr) (\<lambda>(len, fr).
       let (code, fr1) = db_read (GetCode (Bytes20 a)) fr
       in copy_to_memory memOffset codeOffset len code fr1))))"

definition opExtCodeHash :: op where
  "opExtCodeHash fr =
     rbind (peek1 fr) (\<lambda>slot.
       let a = Bytes20 slot; (e, fr1) = db_read (Empty a) fr in
       if e then rbind (poke1 0 fr1) (finish (addr_bytes a))
       else let (h, fr2) = db_read (GetCodeHash a) fr1 in rbind (poke1 h fr2) (finish (addr_bytes a)))"

definition opGasprice :: op where
  "opGasprice fr =
     (let p = GasPrice (TxCtx (interp fr)) in finish (big_bytes p) (push1 (FromBig p) fr))"

definition opBlockhash :: op where
  "opBlockhash fr =
     rbind (peek1 fr) (\<lambda>num.
       let (num64, overflow) = Uint64WithOverflow num in
       if overflow then rbind (poke1 0 fr) (finish [])
       else
         let upper = of_int (BlockNumber (Context (interp fr))) :: u64;
             lower = (if upper < 257 then 0 else upper - 256);
             r = (if num64 \<ge> lower \<and> num64 < upper then GetHash (Context (interp fr)) num64 else 0)
         in rbind (poke1 r fr) (finish (word_bytes r)))"

definition push_out :: "u256 \<Rightarrow> op" where
  "push_out v fr = finish (word_bytes v) (push1 v fr)"

definition opCoinbase :: op where
  "opCoinbase fr = push_out (addr_word (Coinbase (Context (interp fr)))) fr"

definition opTimestamp :: op where
  "opTimestamp fr = push_out (FromBig (Time (Context (interp fr)))) fr"

definition opNumber :: op where
  "opNumber fr = push_out (FromBig (BlockNumber (Context (interp fr)))) fr"

definition opDifficulty :: op where
  "opDifficulty fr = push_out (FromBig (Difficulty (Context (interp fr)))) fr"

definition opRandom :: op where
  "opRandom fr = (case Random (Context (interp fr)) of None \<Rightarrow> Panic | Some h \<Rightarrow> push_out h fr)"

definition opGasLimit :: op where
  "opGasLimit fr = push_out (ucast (GasLimit (Context (interp fr)))) fr"

text \<open>From eips.go.\<close>

definition opSelfBalance :: op where
  "opSelfBalance fr =
     (let (b, fr1) = db_read (GetBalance (self (contract fr))) fr in push_out (FromBig b) fr1)"

definition opChainID :: op where
  "opChainID fr = (case ChainID (chainConfig (interp fr)) of None \<Rightarrow> Panic | Some i \<Rightarrow> push_out (FromBig i) fr)"

definition opBaseFee :: op where
  "opBaseFee fr = (case BaseFee (Context (interp fr)) of None \<Rightarrow> Panic | Some i \<Rightarrow> push_out (FromBig i) fr)"

definition opPush0 :: op where
  "opPush0 fr = finish [] (push1 0 fr)"

section \<open>Stack, memory, storage and control flow\<close>

definition opPop :: op where
  "opPop fr = rbind (pop1 fr) (\<lambda>(_, fr). finish [] fr)"

definition opMload :: op where
  "opMload fr =
     rbind (peek1 fr) (\<lambda>v.
     rbind (GetPtr (int64 (Uint64 v)) 32 (fmem fr)) (\<lambda>d.
     rbind (poke1 (be_word d) fr) (finish (word_bytes (be_word d)))))"

definition opMstore :: op where
  "opMstore fr =
     rbind (pop1 fr) (\<lambda>(mStart, fr). rbind (pop1 fr) (\<lambda>(val, fr).
     rbind (mem_Set32 (Uint64 mStart) val (fmem fr)) (\<lambda>m. finish [] (fr\<lparr>fmem := m\<rparr>))))"

definition opMstore8 :: op where
  "opMstore8 fr =
     rbind (pop1 fr) (\<lambda>(off, fr). rbind (pop1 fr) (\<lambda>(val, fr).
     rbind (mem_Set8 (Uint64 off) (ucast (Uint64 val)) (fmem fr)) (\<lambda>m. finish [] (fr\<lparr>fmem := m\<rparr>))))"

definition opSload :: op where
  "opSload fr =
     rbind (peek1 fr) (\<lambda>loc.
       let (val, fr1) = db_read (GetState (self (contract fr)) loc) fr
       in rbind (poke1 val fr1) (finish (word_bytes val)))"

definition opSstore :: op where
  "opSstore fr =
     (if readOnly (interp fr) then fail ErrWriteProtection fr
      else rbind (pop1 fr) (\<lambda>(loc, fr). rbind (pop1 fr) (\<lambda>(val, fr).
        finish [] (db_write (SetState (self (contract fr)) loc val) fr))))"

text \<open>
  A valid destination moves the program counter in front of it, since the loop increments it. The
  contract and the analyses are updated by the check.
\<close>

definition jump_to :: "u256 \<Rightarrow> op" where
  "jump_to pos fr =
     rbind (validJumpdest (contract fr) (analyses (interp fr)) pos) (\<lambda>(ok, c, js).
       let fr1 = fr\<lparr>contract := c, interp := (interp fr)\<lparr>analyses := js\<rparr>\<rparr>
       in if \<not> ok then fail ErrInvalidJump fr1
          else finish [] (fr1\<lparr>pc := Uint64 pos - 1\<rparr>))"

definition opJump :: op where
  "opJump fr =
     (if abort (interp fr) then fail errStopToken fr
      else rbind (pop1 fr) (\<lambda>(pos, fr). jump_to pos fr))"

definition opJumpi :: op where
  "opJumpi fr =
     (if abort (interp fr) then fail errStopToken fr
      else rbind (pop1 fr) (\<lambda>(pos, fr). rbind (pop1 fr) (\<lambda>(cond, fr).
        if cond \<noteq> 0 then jump_to pos fr else finish [] fr)))"

definition opJumpdest :: op where
  "opJumpdest = finish []"

definition opPc :: op where
  "opPc fr = push_out (ucast (pc fr)) fr"

definition opMsize :: op where
  "opMsize fr = push_out (of_nat (mem_Len (fmem fr))) fr"

definition opGas :: op where
  "opGas fr = push_out (ucast (Gas (contract fr))) fr"

definition opReturn :: op where
  "opReturn fr =
     rbind (pop1 fr) (\<lambda>(offset, fr). rbind (pop1 fr) (\<lambda>(size, fr).
     rbind (GetPtr (int64 (Uint64 offset)) (int64 (Uint64 size)) (fmem fr)) (\<lambda>ret.
       Ok ((ret, ret, Some errStopToken), fr))))"

definition opRevert :: op where
  "opRevert fr =
     rbind (pop1 fr) (\<lambda>(offset, fr). rbind (pop1 fr) (\<lambda>(size, fr).
     rbind (GetPtr (int64 (Uint64 offset)) (int64 (Uint64 size)) (fmem fr)) (\<lambda>ret.
       Ok ((ret, ret, Some ErrExecutionReverted), fr\<lparr>interp := (interp fr)\<lparr>returnData := ret\<rparr>\<rparr>))))"

definition opUndefined :: op where
  "opUndefined fr =
     rbind (gindex (Code (contract fr)) (unat (pc fr))) (\<lambda>b. fail (ErrInvalidOpCode b) fr)"

definition opStop :: op where
  "opStop = fail errStopToken"

definition opSelfdestruct :: op where
  "opSelfdestruct fr =
     (if readOnly (interp fr) then fail ErrWriteProtection fr
      else rbind (pop1 fr) (\<lambda>(beneficiary, fr).
        let (balance, fr1) = db_read (GetBalance (self (contract fr))) fr;
            fr2 = db_write (AddBalance (Bytes20 beneficiary) balance) fr1;
            (_, fr3) = db_read (Suicide (self (contract fr))) fr2
        in Ok (([], word_bytes beneficiary, Some errStopToken), fr3)))"

fun pop_topics :: "nat \<Rightarrow> frame \<Rightarrow> (hash list \<times> frame) res" where
  "pop_topics 0 fr = Ok ([], fr)"
| "pop_topics (Suc n) fr =
     rbind (pop1 fr) (\<lambda>(t, fr). rbind (pop_topics n fr) (\<lambda>(ts, fr). Ok (t # ts, fr)))"

definition makeLog :: "nat \<Rightarrow> op" where
  "makeLog n fr =
     (if readOnly (interp fr) then fail ErrWriteProtection fr
      else rbind (pop1 fr) (\<lambda>(mStart, fr). rbind (pop1 fr) (\<lambda>(mSize, fr).
        rbind (pop_topics n fr) (\<lambda>(topics, fr).
        rbind (GetCopy (int64 (Uint64 mStart)) (int64 (Uint64 mSize)) (fmem fr)) (\<lambda>d.
          finish [] (db_write (AddLog \<lparr>lAddress = self (contract fr), lTopics = topics, lData = d,
              lBlockNumber = of_int (BlockNumber (Context (interp fr))), lTxHash = 0, lTxIndex = 0, lBlockHash = 0, lIndex = 0\<rparr>) fr))))))"

definition opPush1 :: op where
  "opPush1 fr =
     (let c = Code (contract fr); p = pc fr + 1;
          integer = (if p < of_nat (length c) then ucast (c ! unat p) else 0)
      in finish (word_bytes integer) (push1 integer (fr\<lparr>pc := p\<rparr>)))"

definition makePush :: "nat \<Rightarrow> nat \<Rightarrow> op" where
  "makePush sz pushByteSize fr =
     (let c = Code (contract fr); codeLen = int (length c); next = int64 (pc fr + 1);
          startMin = (if next < codeLen then next else codeLen);
          endMin = (if startMin + int pushByteSize < codeLen then startMin + int pushByteSize else codeLen)
      in if startMin < 0 then Panic
         else rbind (gslice c (nat startMin) (nat endMin)) (\<lambda>s.
           let integer = be_word (RightPadBytes s pushByteSize)
           in finish (word_bytes integer) (push1 integer (fr\<lparr>pc := pc fr + of_nat sz\<rparr>))))"

definition makeDup :: "nat \<Rightarrow> op" where
  "makeDup n fr = rbind (dup n (fstack fr)) (\<lambda>st. finish [] (fr\<lparr>fstack := st\<rparr>))"

definition makeSwap :: "nat \<Rightarrow> op" where
  "makeSwap n fr = rbind (swap (n + 1) (fstack fr)) (\<lambda>st. finish [] (fr\<lparr>fstack := st\<rparr>))"

end
