(* ===== verification/GasTable.thy ===== *)
theory GasTable
  imports Instructions
begin

text \<open>
  The dynamic gas of the instructions (core/vm/gas_table.go, operations_acl.go). A gas function gets
  the requested memory size and the frame; it returns an error or the gas, and the frame, since it
  notes the new memory cost, fills access lists, changes the refund counter and leaves the gas of a
  call in \<^verbatim>\<open>callGasTemp\<close>.
\<close>

type_synonym gas_result = "vm_error + u64"
type_synonym gas_fn = "u64 \<Rightarrow> frame \<Rightarrow> (gas_result \<times> frame) res"

section \<open>Memory\<close>

definition memoryGasCost :: "Memory \<Rightarrow> u64 \<Rightarrow> gas_result \<times> Memory" where
  "memoryGasCost m newMemSize =
     (if newMemSize = 0 then (Inr 0, m)
      else if newMemSize > 0x1FFFFFFFE0 then (Inl ErrGasUintOverflow, m)
      else
        let newMemSizeWords = toWordSize newMemSize; newMemSize = newMemSizeWords * 32 in
        if newMemSize > of_nat (mem_Len m) then
          let square = newMemSizeWords * newMemSizeWords;
              linCoef = newMemSizeWords * MemoryGas;
              quadCoef = square div QuadCoeffDiv;
              newTotalFee = linCoef + quadCoef;
              fee = newTotalFee - lastGasCost m
          in (Inr fee, m\<lparr>lastGasCost := newTotalFee\<rparr>)
        else (Inr 0, m))"

text \<open>Continue with the gas for the memory, or return its error; the same for a sum and a product.\<close>

definition mem_gas :: "u64 \<Rightarrow> frame \<Rightarrow> (u64 \<Rightarrow> frame \<Rightarrow> (gas_result \<times> frame) res) \<Rightarrow> (gas_result \<times> frame) res" where
  "mem_gas sz fr k = (case memoryGasCost (fmem fr) sz of
       (Inl e, m) \<Rightarrow> Ok (Inl e, fr\<lparr>fmem := m\<rparr>)
     | (Inr g, m) \<Rightarrow> k g (fr\<lparr>fmem := m\<rparr>))"

definition checked :: "u64 \<times> bool \<Rightarrow> frame \<Rightarrow> (u64 \<Rightarrow> (gas_result \<times> frame) res) \<Rightarrow> (gas_result \<times> frame) res" where
  "checked p fr k = (if snd p then Ok (Inl ErrGasUintOverflow, fr) else k (fst p))"

definition stack_back :: "nat \<Rightarrow> frame \<Rightarrow> u256 res" where
  "stack_back n fr = Back n (fstack fr)"

definition memoryCopierGas :: "nat \<Rightarrow> gas_fn" where
  "memoryCopierGas stackpos memSz fr =
     mem_gas memSz fr (\<lambda>gas fr.
     rbind (stack_back stackpos fr) (\<lambda>w.
     checked (Uint64WithOverflow w) fr (\<lambda>words.
     checked (SafeMul (toWordSize words) CopyGas) fr (\<lambda>words.
     checked (SafeAdd gas words) fr (\<lambda>gas. Ok (Inr gas, fr))))))"

definition gasExtCodeCopy :: gas_fn where
  "gasExtCodeCopy = memoryCopierGas 3"

definition pureMemoryGascost :: gas_fn where
  "pureMemoryGascost memSz fr = mem_gas memSz fr (\<lambda>gas fr. Ok (Inr gas, fr))"

text \<open>Keccak-256 and \<^verbatim>\<open>CREATE2\<close> pay for each word they hash.\<close>

definition word_gas :: "nat \<Rightarrow> gas_fn" where
  "word_gas n memSz fr =
     mem_gas memSz fr (\<lambda>gas fr.
     rbind (stack_back n fr) (\<lambda>w.
     checked (Uint64WithOverflow w) fr (\<lambda>wordGas.
     checked (SafeMul (toWordSize wordGas) Keccak256WordGas) fr (\<lambda>wordGas.
     checked (SafeAdd gas wordGas) fr (\<lambda>gas. Ok (Inr gas, fr))))))"

definition gasKeccak256 :: gas_fn where
  "gasKeccak256 = word_gas 1"

definition gasCreate2 :: gas_fn where
  "gasCreate2 = word_gas 2"

definition makeGasLog :: "u64 \<Rightarrow> gas_fn" where
  "makeGasLog n memSz fr =
     rbind (stack_back 1 fr) (\<lambda>w.
     checked (Uint64WithOverflow w) fr (\<lambda>requestedSize.
     mem_gas memSz fr (\<lambda>gas fr.
     checked (SafeAdd gas LogGas) fr (\<lambda>gas.
     checked (SafeAdd gas (n * LogTopicGas)) fr (\<lambda>gas.
     checked (SafeMul requestedSize LogDataGas) fr (\<lambda>memorySizeGas.
     checked (SafeAdd gas memorySizeGas) fr (\<lambda>gas. Ok (Inr gas, fr))))))))"

definition exp_byte_len :: "u256 \<Rightarrow> u64" where
  "exp_byte_len w = of_nat ((BitLen (unat w) + 7) div 8)"

definition gasExpFrontier :: gas_fn where
  "gasExpFrontier memSz fr =
     rbind (stack_back 1 fr) (\<lambda>e.
     checked (SafeAdd (exp_byte_len e * ExpByteFrontier) ExpGas) fr (\<lambda>gas. Ok (Inr gas, fr)))"

definition gasExpEIP158 :: gas_fn where
  "gasExpEIP158 memSz fr =
     rbind (stack_back 1 fr) (\<lambda>e.
     checked (SafeAdd (exp_byte_len e * ExpByteEIP158) ExpGas) fr (\<lambda>gas. Ok (Inr gas, fr)))"

section \<open>Storage\<close>

definition db_res :: "(StateDB \<Rightarrow> StateDB res) \<Rightarrow> frame \<Rightarrow> frame res" where
  "db_res f fr = rbind (f (sdb (interp fr))) (\<lambda>s. Ok (fr\<lparr>interp := (interp fr)\<lparr>sdb := s\<rparr>\<rparr>))"

text \<open>
  The refund adjustments of net metering (EIP-1283, EIP-2200, EIP-3529) for a slot that was already
  changed in this transaction.
\<close>

definition dirty_slot_refunds :: "u64 \<Rightarrow> u64 \<Rightarrow> u64 \<Rightarrow> hash \<Rightarrow> hash \<Rightarrow> hash \<Rightarrow> frame \<Rightarrow> frame res" where
  "dirty_slot_refunds clearing resetInexistent resetExisting original current value fr =
     rbind (if original \<noteq> 0 then
              (if current = 0 then db_res (SubRefund clearing) fr
               else if value = 0 then Ok (db_write (AddRefund clearing) fr)
               else Ok fr)
            else Ok fr) (\<lambda>fr.
       if original = value then
         (if original = 0 then Ok (db_write (AddRefund resetInexistent) fr)
          else Ok (db_write (AddRefund resetExisting) fr))
       else Ok fr)"

definition gasSStore :: gas_fn where
  "gasSStore memSz fr =
     rbind (stack_back 1 fr) (\<lambda>y. rbind (stack_back 0 fr) (\<lambda>x.
       let a = self (contract fr);
           (current, fr) = db_read (GetState a x) fr;
           r = chainRules (interp fr)
       in if rIsPetersburg r \<or> \<not> rIsConstantinople r then
            (if current = 0 \<and> y \<noteq> 0 then Ok (Inr SstoreSetGas, fr)
             else if current \<noteq> 0 \<and> y = 0 then Ok (Inr SstoreClearGas, db_write (AddRefund SstoreRefundGas) fr)
             else Ok (Inr SstoreResetGas, fr))
          else if current = y then Ok (Inr NetSstoreNoopGas, fr)
          else
            let (original, fr) = db_read (GetCommittedState a x) fr in
            if original = current then
              (if original = 0 then Ok (Inr NetSstoreInitGas, fr)
               else if y = 0 then Ok (Inr NetSstoreCleanGas, db_write (AddRefund NetSstoreClearRefund) fr)
               else Ok (Inr NetSstoreCleanGas, fr))
            else rbind (dirty_slot_refunds NetSstoreClearRefund NetSstoreResetClearRefund NetSstoreResetRefund
                          original current y fr)
                   (\<lambda>fr. Ok (Inr NetSstoreDirtyGas, fr))))"

definition gasSStoreEIP2200 :: gas_fn where
  "gasSStoreEIP2200 memSz fr =
     (if Gas (contract fr) \<le> SstoreSentryGasEIP2200
      then Ok (Inl (ErrOther ''not enough gas for reentrancy sentry''), fr)
      else rbind (stack_back 1 fr) (\<lambda>y. rbind (stack_back 0 fr) (\<lambda>x.
        let a = self (contract fr);
            (current, fr) = db_read (GetState a x) fr
        in if current = y then Ok (Inr SloadGasEIP2200, fr)
           else
             let (original, fr) = db_read (GetCommittedState a x) fr in
             if original = current then
               (if original = 0 then Ok (Inr SstoreSetGasEIP2200, fr)
                else if y = 0 then
                  Ok (Inr SstoreResetGasEIP2200, db_write (AddRefund SstoreClearsScheduleRefundEIP2200) fr)
                else Ok (Inr SstoreResetGasEIP2200, fr))
             else rbind (dirty_slot_refunds SstoreClearsScheduleRefundEIP2200
                           (SstoreSetGasEIP2200 - SloadGasEIP2200) (SstoreResetGasEIP2200 - SloadGasEIP2200)
                           original current y fr)
                    (\<lambda>fr. Ok (Inr SloadGasEIP2200, fr)))))"

text \<open>EIP-2929. A contract that stores is in the access list, or the code panics.\<close>

definition makeGasSStoreFunc :: "u64 \<Rightarrow> gas_fn" where
  "makeGasSStoreFunc clearingRefund memSz fr =
     (if Gas (contract fr) \<le> SstoreSentryGasEIP2200
      then Ok (Inl (ErrOther ''not enough gas for reentrancy sentry''), fr)
      else rbind (stack_back 1 fr) (\<lambda>y. rbind (peek1 fr) (\<lambda>x.
        let a = self (contract fr);
            (current, fr) = db_read (GetState a x) fr
        in rbind (SlotInAccessList a x (sdb (interp fr))) (\<lambda>(addrPresent, slotPresent).
           rbind (if \<not> slotPresent then
                    rbind (db_res (AddSlotToAccessList a x) fr) (\<lambda>fr.
                      if \<not> addrPresent then Panic else Ok (ColdSloadCostEIP2929, fr))
                  else Ok (0, fr)) (\<lambda>(cost, fr).
             if current = y then Ok (Inr (cost + WarmStorageReadCostEIP2929), fr)
             else
               let (original, fr) = db_read (GetCommittedState a x) fr in
               if original = current then
                 (if original = 0 then Ok (Inr (cost + SstoreSetGasEIP2200), fr)
                  else
                    Ok (Inr (cost + (SstoreResetGasEIP2200 - ColdSloadCostEIP2929)),
                        if y = 0 then db_write (AddRefund clearingRefund) fr else fr))
               else rbind (dirty_slot_refunds clearingRefund
                             (SstoreSetGasEIP2200 - WarmStorageReadCostEIP2929)
                             ((SstoreResetGasEIP2200 - ColdSloadCostEIP2929) - WarmStorageReadCostEIP2929)
                             original current y fr)
                      (\<lambda>fr. Ok (Inr (cost + WarmStorageReadCostEIP2929), fr)))))))"

definition gasSLoadEIP2929 :: gas_fn where
  "gasSLoadEIP2929 memSz fr =
     rbind (peek1 fr) (\<lambda>loc.
     rbind (SlotInAccessList (self (contract fr)) loc (sdb (interp fr))) (\<lambda>(_, slotPresent).
       if \<not> slotPresent then
         rbind (db_res (AddSlotToAccessList (self (contract fr)) loc) fr) (\<lambda>fr. Ok (Inr ColdSloadCostEIP2929, fr))
       else Ok (Inr WarmStorageReadCostEIP2929, fr)))"

definition gasExtCodeCopyEIP2929 :: gas_fn where
  "gasExtCodeCopyEIP2929 memSz fr =
     rbind (gasExtCodeCopy memSz fr) (\<lambda>(r, fr). case r of
       Inl e \<Rightarrow> Ok (Inl e, fr)
     | Inr gas \<Rightarrow>
         rbind (peek1 fr) (\<lambda>a.
           let addr = Bytes20 a in
           if \<not> AddressInAccessList addr (sdb (interp fr)) then
             (let fr = db_write (AddAddressToAccessList addr) fr in
              checked (SafeAdd gas (ColdAccountAccessCostEIP2929 - WarmStorageReadCostEIP2929)) fr
                (\<lambda>gas. Ok (Inr gas, fr)))
           else Ok (Inr gas, fr)))"

definition gasEip2929AccountCheck :: gas_fn where
  "gasEip2929AccountCheck memSz fr =
     rbind (peek1 fr) (\<lambda>a.
       let addr = Bytes20 a in
       if \<not> AddressInAccessList addr (sdb (interp fr)) then
         Ok (Inr (ColdAccountAccessCostEIP2929 - WarmStorageReadCostEIP2929), db_write (AddAddressToAccessList addr) fr)
       else Ok (Inr 0, fr))"

section \<open>Calls\<close>

text \<open>The common end of the call variants: the gas of the call is noted and charged.\<close>

definition set_callGasTemp :: "u64 \<Rightarrow> frame \<Rightarrow> frame" where
  "set_callGasTemp g fr = fr\<lparr>interp := (interp fr)\<lparr>callGasTemp := g\<rparr>\<rparr>"

text \<open>\<^verbatim>\<open>evm.callGasTemp, err = callGas(...)\<close> assigns zero when there is an error.\<close>

definition charge_call :: "u64 \<Rightarrow> frame \<Rightarrow> (gas_result \<times> frame) res" where
  "charge_call gas fr =
     rbind (stack_back 0 fr) (\<lambda>requested.
       case callGas (rIsEIP150 (chainRules (interp fr))) (Gas (contract fr)) gas requested of
         Inl e \<Rightarrow> Ok (Inl e, set_callGasTemp 0 fr)
       | Inr g \<Rightarrow> (let fr = set_callGasTemp g fr in checked (SafeAdd gas g) fr (\<lambda>gas. Ok (Inr gas, fr))))"

definition gasCall :: gas_fn where
  "gasCall memSz fr =
     rbind (stack_back 2 fr) (\<lambda>v. rbind (stack_back 1 fr) (\<lambda>addr.
       let transfersValue = (v \<noteq> 0); a = Bytes20 addr;
           (newAccount, fr) =
             (if rIsEIP158 (chainRules (interp fr)) then
                (if transfersValue then db_read (Empty a) fr else (False, fr))
              else (let (ex, fr) = db_read (Exist a) fr in (\<not> ex, fr)));
           gas = (if newAccount then CallNewAccountGas else 0) + (if transfersValue then CallValueTransferGas else 0)
       in mem_gas memSz fr (\<lambda>memoryGas fr.
          checked (SafeAdd gas memoryGas) fr (\<lambda>gas. charge_call gas fr))))"

definition gasCallCode :: gas_fn where
  "gasCallCode memSz fr =
     mem_gas memSz fr (\<lambda>memoryGas fr.
     rbind (stack_back 2 fr) (\<lambda>v.
       let gas = (if v \<noteq> 0 then CallValueTransferGas else 0)
       in checked (SafeAdd gas memoryGas) fr (\<lambda>gas. charge_call gas fr)))"

definition gasDelegateCall :: gas_fn where
  "gasDelegateCall memSz fr = mem_gas memSz fr charge_call"

definition gasStaticCall :: gas_fn where
  "gasStaticCall memSz fr = mem_gas memSz fr charge_call"

definition makeCallVariantGasCallEIP2929 :: "gas_fn \<Rightarrow> gas_fn" where
  "makeCallVariantGasCallEIP2929 oldCalculator memSz fr =
     rbind (stack_back 1 fr) (\<lambda>a.
       let addr = Bytes20 a;
           warmAccess = AddressInAccessList addr (sdb (interp fr));
           coldCost = ColdAccountAccessCostEIP2929 - WarmStorageReadCostEIP2929
       in if warmAccess then oldCalculator memSz fr
          else
            let fr = db_write (AddAddressToAccessList addr) fr;
                (paid, c) = UseGas coldCost (contract fr);
                fr = fr\<lparr>contract := c\<rparr>
            in if \<not> paid then Ok (Inl ErrOutOfGas, fr)
               else rbind (oldCalculator memSz fr) (\<lambda>(r, fr). case r of
                      Inl e \<Rightarrow> Ok (Inl e, fr)
                    | Inr gas \<Rightarrow>
                        Ok (Inr (gas + coldCost),
                            fr\<lparr>contract := (contract fr)\<lparr>Gas := Gas (contract fr) + coldCost\<rparr>\<rparr>)))"

section \<open>Self-destruction\<close>

definition gasSelfdestruct :: gas_fn where
  "gasSelfdestruct memSz fr =
     rbind (if rIsEIP150 (chainRules (interp fr)) then
              rbind (stack_back 0 fr) (\<lambda>a.
                let address = Bytes20 a in
                if rIsEIP158 (chainRules (interp fr)) then
                  let (e, fr) = db_read (Empty address) fr in
                  if e then
                    let (b, fr) = db_read (GetBalance (self (contract fr))) fr
                    in Ok (SelfdestructGasEIP150 + (if b \<noteq> 0 then CreateBySelfdestructGas else 0), fr)
                  else Ok (SelfdestructGasEIP150, fr)
                else
                  let (ex, fr) = db_read (Exist address) fr
                  in Ok (SelfdestructGasEIP150 + (if \<not> ex then CreateBySelfdestructGas else 0), fr))
            else Ok (0, fr)) (\<lambda>(gas, fr).
       let (dead, fr) = db_read (HasSuicided (self (contract fr))) fr
       in Ok (Inr gas, if \<not> dead then db_write (AddRefund SelfdestructRefundGas) fr else fr))"

definition makeSelfdestructGasFn :: "bool \<Rightarrow> gas_fn" where
  "makeSelfdestructGasFn refundsEnabled memSz fr =
     rbind (peek1 fr) (\<lambda>a.
       let address = Bytes20 a;
           (gas, fr) =
             (if \<not> AddressInAccessList address (sdb (interp fr))
              then (ColdAccountAccessCostEIP2929, db_write (AddAddressToAccessList address) fr) else (0, fr));
           (e, fr) = db_read (Empty address) fr;
           (gas, fr) =
             (if e then
                (let (b, fr) = db_read (GetBalance (self (contract fr))) fr
                 in (if b \<noteq> 0 then gas + CreateBySelfdestructGas else gas, fr))
              else (gas, fr));
           fr =
             (if refundsEnabled then
                (let (dead, fr) = db_read (HasSuicided (self (contract fr))) fr
                 in if \<not> dead then db_write (AddRefund SelfdestructRefundGas) fr else fr)
              else fr)
       in Ok (Inr gas, fr))"

section \<open>Dispatch\<close>

fun run_gas :: "gasFunc \<Rightarrow> gas_fn" where
  "run_gas (GasMemoryCopier n) = memoryCopierGas n"
| "run_gas GasSStore = gasSStore"
| "run_gas GasSStoreEIP2200 = gasSStoreEIP2200"
| "run_gas (GasSStore2929 r) = makeGasSStoreFunc r"
| "run_gas (GasLog n) = makeGasLog n"
| "run_gas GasKeccak256 = gasKeccak256"
| "run_gas GasPureMemory = pureMemoryGascost"
| "run_gas GasCreate2 = gasCreate2"
| "run_gas GasExpFrontier = gasExpFrontier"
| "run_gas GasExpEIP158 = gasExpEIP158"
| "run_gas GasCall = gasCall"
| "run_gas GasCallCode = gasCallCode"
| "run_gas GasDelegateCall = gasDelegateCall"
| "run_gas GasStaticCall = gasStaticCall"
| "run_gas GasSelfdestruct = gasSelfdestruct"
| "run_gas GasSLoadEIP2929 = gasSLoadEIP2929"
| "run_gas GasExtCodeCopyEIP2929 = gasExtCodeCopyEIP2929"
| "run_gas GasEip2929AccountCheck = gasEip2929AccountCheck"
| "run_gas (GasCallVariantEIP2929 g) = makeCallVariantGasCallEIP2929 (run_gas g)"
| "run_gas (GasSelfdestructEIP b) = makeSelfdestructGasFn b"

fun run_memorySize :: "memorySizeFunc \<Rightarrow> stack \<Rightarrow> (u64 \<times> bool) res" where
  "run_memorySize MemoryKeccak256 = memoryKeccak256"
| "run_memorySize MemoryCallDataCopy = memoryCallDataCopy"
| "run_memorySize MemoryReturnDataCopy = memoryReturnDataCopy"
| "run_memorySize MemoryCodeCopy = memoryCodeCopy"
| "run_memorySize MemoryExtCodeCopy = memoryExtCodeCopy"
| "run_memorySize MemoryMLoad = memoryMLoad"
| "run_memorySize MemoryMStore8 = memoryMStore8"
| "run_memorySize MemoryMStore = memoryMStore"
| "run_memorySize MemoryCreate = memoryCreate"
| "run_memorySize MemoryCreate2 = memoryCreate2"
| "run_memorySize MemoryCall = memoryCall"
| "run_memorySize MemoryDelegateCall = memoryDelegateCall"
| "run_memorySize MemoryStaticCall = memoryStaticCall"
| "run_memorySize MemoryReturn = memoryReturn"
| "run_memorySize MemoryRevert = memoryRevert"
| "run_memorySize MemoryLog = memoryLog"

end
