(* ===== verification/JumpTable.thy ===== *)
theory JumpTable
  imports GasTable
begin

text \<open>
  The instruction sets of the forks (core/vm/jump_table.go) and the EIPs that change them
  (core/vm/eips.go). The frontier table is given in six parts, in the order of the source; every
  later set updates the one before it. A table maps an opcode to an operation or nothing, and
  \<^verbatim>\<open>validate\<close> panics unless every opcode has an operation, and one with dynamic gas if it has a
  memory size.
\<close>

definition mk_op ::
  "executionFunc \<Rightarrow> u64 \<Rightarrow> gasFunc option \<Rightarrow> int \<Rightarrow> int \<Rightarrow> memorySizeFunc option \<Rightarrow> operation" where
  "mk_op e c d mn mx ms =
     \<lparr>execute = e, constantGas = c, dynamicGas = d, minStack_of = mn, maxStack_of = mx, memorySize = ms\<rparr>"

lemma mk_op_fields [simp]:
  "execute (mk_op e c d mn mx ms) = e" "constantGas (mk_op e c d mn mx ms) = c"
  "dynamicGas (mk_op e c d mn mx ms) = d" "minStack_of (mk_op e c d mn mx ms) = mn"
  "maxStack_of (mk_op e c d mn mx ms) = mx" "memorySize (mk_op e c d mn mx ms) = ms"
  by (simp_all add: mk_op_def)

section \<open>Frontier\<close>

definition frontier_ops_1 :: "(byte \<times> operation) list" where
  "frontier_ops_1 =
     [(OP_STOP, mk_op (Flow OpStop) 0 None (minStack 0 0) (maxStack 0 0) None),
      (OP_ADD, mk_op (Arith OpAdd) GasFastestStep None (minStack 2 1) (maxStack 2 1) None),
      (OP_MUL, mk_op (Arith OpMul) GasFastStep None (minStack 2 1) (maxStack 2 1) None),
      (OP_SUB, mk_op (Arith OpSub) GasFastestStep None (minStack 2 1) (maxStack 2 1) None),
      (OP_DIV, mk_op (Arith OpDiv) GasFastStep None (minStack 2 1) (maxStack 2 1) None),
      (OP_SDIV, mk_op (Arith OpSdiv) GasFastStep None (minStack 2 1) (maxStack 2 1) None),
      (OP_MOD, mk_op (Arith OpMod) GasFastStep None (minStack 2 1) (maxStack 2 1) None),
      (OP_SMOD, mk_op (Arith OpSmod) GasFastStep None (minStack 2 1) (maxStack 2 1) None),
      (OP_ADDMOD, mk_op (Arith OpAddmod) GasMidStep None (minStack 3 1) (maxStack 3 1) None),
      (OP_MULMOD, mk_op (Arith OpMulmod) GasMidStep None (minStack 3 1) (maxStack 3 1) None),
      (OP_EXP, mk_op (Arith OpExp) 0 (Some GasExpFrontier) (minStack 2 1) (maxStack 2 1) None),
      (OP_SIGNEXTEND, mk_op (Arith OpSignExtend) GasFastStep None (minStack 2 1) (maxStack 2 1) None),
      (OP_LT, mk_op (Arith OpLt) GasFastestStep None (minStack 2 1) (maxStack 2 1) None),
      (OP_GT, mk_op (Arith OpGt) GasFastestStep None (minStack 2 1) (maxStack 2 1) None),
      (OP_SLT, mk_op (Arith OpSlt) GasFastestStep None (minStack 2 1) (maxStack 2 1) None),
      (OP_SGT, mk_op (Arith OpSgt) GasFastestStep None (minStack 2 1) (maxStack 2 1) None),
      (OP_EQ, mk_op (Arith OpEq) GasFastestStep None (minStack 2 1) (maxStack 2 1) None),
      (OP_ISZERO, mk_op (Arith OpIszero) GasFastestStep None (minStack 1 1) (maxStack 1 1) None),
      (OP_AND, mk_op (Arith OpAnd) GasFastestStep None (minStack 2 1) (maxStack 2 1) None),
      (OP_XOR, mk_op (Arith OpXor) GasFastestStep None (minStack 2 1) (maxStack 2 1) None),
      (OP_OR, mk_op (Arith OpOr) GasFastestStep None (minStack 2 1) (maxStack 2 1) None),
      (OP_NOT, mk_op (Arith OpNot) GasFastestStep None (minStack 1 1) (maxStack 1 1) None),
      (OP_BYTE, mk_op (Arith OpByte) GasFastestStep None (minStack 2 1) (maxStack 2 1) None),
      (OP_KECCAK256, mk_op (Access OpKeccak256) Keccak256Gas (Some GasKeccak256) (minStack 2 1) (maxStack 2 1) (Some MemoryKeccak256))]"

definition frontier_ops_2 :: "(byte \<times> operation) list" where
  "frontier_ops_2 =
     [(OP_ADDRESS, mk_op (Env OpAddress) GasQuickStep None (minStack 0 1) (maxStack 0 1) None),
      (OP_BALANCE, mk_op (Access OpBalance) BalanceGasFrontier None (minStack 1 1) (maxStack 1 1) None),
      (OP_ORIGIN, mk_op (Env OpOrigin) GasQuickStep None (minStack 0 1) (maxStack 0 1) None),
      (OP_CALLER, mk_op (Env OpCaller) GasQuickStep None (minStack 0 1) (maxStack 0 1) None),
      (OP_CALLVALUE, mk_op (Env OpCallValue) GasQuickStep None (minStack 0 1) (maxStack 0 1) None),
      (OP_CALLDATALOAD, mk_op (Env OpCallDataLoad) GasFastestStep None (minStack 1 1) (maxStack 1 1) None),
      (OP_CALLDATASIZE, mk_op (Env OpCallDataSize) GasQuickStep None (minStack 0 1) (maxStack 0 1) None),
      (OP_CALLDATACOPY, mk_op (Flow OpCallDataCopy) GasFastestStep (Some (GasMemoryCopier 2)) (minStack 3 0) (maxStack 3 0) (Some MemoryCallDataCopy)),
      (OP_CODESIZE, mk_op (Env OpCodeSize) GasQuickStep None (minStack 0 1) (maxStack 0 1) None),
      (OP_CODECOPY, mk_op (Flow OpCodeCopy) GasFastestStep (Some (GasMemoryCopier 2)) (minStack 3 0) (maxStack 3 0) (Some MemoryCodeCopy)),
      (OP_GASPRICE, mk_op (Env OpGasprice) GasQuickStep None (minStack 0 1) (maxStack 0 1) None),
      (OP_EXTCODESIZE, mk_op (Access OpExtCodeSize) ExtcodeSizeGasFrontier None (minStack 1 1) (maxStack 1 1) None),
      (OP_EXTCODECOPY, mk_op (Access OpExtCodeCopy) ExtcodeCopyBaseFrontier (Some (GasMemoryCopier 3)) (minStack 4 0) (maxStack 4 0) (Some MemoryExtCodeCopy)),
      (OP_BLOCKHASH, mk_op (Env OpBlockhash) GasExtStep None (minStack 1 1) (maxStack 1 1) None),
      (OP_COINBASE, mk_op (Env OpCoinbase) GasQuickStep None (minStack 0 1) (maxStack 0 1) None),
      (OP_TIMESTAMP, mk_op (Env OpTimestamp) GasQuickStep None (minStack 0 1) (maxStack 0 1) None),
      (OP_NUMBER, mk_op (Env OpNumber) GasQuickStep None (minStack 0 1) (maxStack 0 1) None),
      (OP_DIFFICULTY, mk_op (Env OpDifficulty) GasQuickStep None (minStack 0 1) (maxStack 0 1) None),
      (OP_GASLIMIT, mk_op (Env OpGasLimit) GasQuickStep None (minStack 0 1) (maxStack 0 1) None),
      (OP_POP, mk_op (Flow OpPop) GasQuickStep None (minStack 1 0) (maxStack 1 0) None),
      (OP_MLOAD, mk_op (Flow OpMload) GasFastestStep (Some (GasPureMemory)) (minStack 1 1) (maxStack 1 1) (Some MemoryMLoad)),
      (OP_MSTORE, mk_op (Flow OpMstore) GasFastestStep (Some (GasPureMemory)) (minStack 2 0) (maxStack 2 0) (Some MemoryMStore))]"

definition frontier_ops_3 :: "(byte \<times> operation) list" where
  "frontier_ops_3 =
     [(OP_MSTORE8, mk_op (Flow OpMstore8) GasFastestStep (Some (GasPureMemory)) (minStack 2 0) (maxStack 2 0) (Some MemoryMStore8)),
      (OP_SLOAD, mk_op (Access OpSload) SloadGasFrontier None (minStack 1 1) (maxStack 1 1) None),
      (OP_SSTORE, mk_op (Access OpSstore) 0 (Some GasSStore) (minStack 2 0) (maxStack 2 0) None),
      (OP_JUMP, mk_op (Flow OpJump) GasMidStep None (minStack 1 0) (maxStack 1 0) None),
      (OP_JUMPI, mk_op (Flow OpJumpi) GasSlowStep None (minStack 2 0) (maxStack 2 0) None),
      (OP_PC, mk_op (Env OpPc) GasQuickStep None (minStack 0 1) (maxStack 0 1) None),
      (OP_MSIZE, mk_op (Env OpMsize) GasQuickStep None (minStack 0 1) (maxStack 0 1) None),
      (OP_GAS, mk_op (Env OpGas) GasQuickStep None (minStack 0 1) (maxStack 0 1) None),
      (OP_JUMPDEST, mk_op (Flow OpJumpdest) JumpdestGas None (minStack 0 0) (maxStack 0 0) None),
      (OP_PUSH1, mk_op (Flow OpPush1) GasFastestStep None (minStack 0 1) (maxStack 0 1) None),
      (OP_PUSH2, mk_op (Flow (OpPush 2 2)) GasFastestStep None (minStack 0 1) (maxStack 0 1) None),
      (OP_PUSH3, mk_op (Flow (OpPush 3 3)) GasFastestStep None (minStack 0 1) (maxStack 0 1) None),
      (OP_PUSH4, mk_op (Flow (OpPush 4 4)) GasFastestStep None (minStack 0 1) (maxStack 0 1) None),
      (OP_PUSH5, mk_op (Flow (OpPush 5 5)) GasFastestStep None (minStack 0 1) (maxStack 0 1) None),
      (OP_PUSH6, mk_op (Flow (OpPush 6 6)) GasFastestStep None (minStack 0 1) (maxStack 0 1) None),
      (OP_PUSH7, mk_op (Flow (OpPush 7 7)) GasFastestStep None (minStack 0 1) (maxStack 0 1) None),
      (OP_PUSH8, mk_op (Flow (OpPush 8 8)) GasFastestStep None (minStack 0 1) (maxStack 0 1) None),
      (OP_PUSH9, mk_op (Flow (OpPush 9 9)) GasFastestStep None (minStack 0 1) (maxStack 0 1) None),
      (OP_PUSH10, mk_op (Flow (OpPush 10 10)) GasFastestStep None (minStack 0 1) (maxStack 0 1) None),
      (OP_PUSH11, mk_op (Flow (OpPush 11 11)) GasFastestStep None (minStack 0 1) (maxStack 0 1) None),
      (OP_PUSH12, mk_op (Flow (OpPush 12 12)) GasFastestStep None (minStack 0 1) (maxStack 0 1) None),
      (OP_PUSH13, mk_op (Flow (OpPush 13 13)) GasFastestStep None (minStack 0 1) (maxStack 0 1) None),
      (OP_PUSH14, mk_op (Flow (OpPush 14 14)) GasFastestStep None (minStack 0 1) (maxStack 0 1) None),
      (OP_PUSH15, mk_op (Flow (OpPush 15 15)) GasFastestStep None (minStack 0 1) (maxStack 0 1) None)]"

definition frontier_ops_4 :: "(byte \<times> operation) list" where
  "frontier_ops_4 =
     [(OP_PUSH16, mk_op (Flow (OpPush 16 16)) GasFastestStep None (minStack 0 1) (maxStack 0 1) None),
      (OP_PUSH17, mk_op (Flow (OpPush 17 17)) GasFastestStep None (minStack 0 1) (maxStack 0 1) None),
      (OP_PUSH18, mk_op (Flow (OpPush 18 18)) GasFastestStep None (minStack 0 1) (maxStack 0 1) None),
      (OP_PUSH19, mk_op (Flow (OpPush 19 19)) GasFastestStep None (minStack 0 1) (maxStack 0 1) None),
      (OP_PUSH20, mk_op (Flow (OpPush 20 20)) GasFastestStep None (minStack 0 1) (maxStack 0 1) None),
      (OP_PUSH21, mk_op (Flow (OpPush 21 21)) GasFastestStep None (minStack 0 1) (maxStack 0 1) None),
      (OP_PUSH22, mk_op (Flow (OpPush 22 22)) GasFastestStep None (minStack 0 1) (maxStack 0 1) None),
      (OP_PUSH23, mk_op (Flow (OpPush 23 23)) GasFastestStep None (minStack 0 1) (maxStack 0 1) None),
      (OP_PUSH24, mk_op (Flow (OpPush 24 24)) GasFastestStep None (minStack 0 1) (maxStack 0 1) None),
      (OP_PUSH25, mk_op (Flow (OpPush 25 25)) GasFastestStep None (minStack 0 1) (maxStack 0 1) None),
      (OP_PUSH26, mk_op (Flow (OpPush 26 26)) GasFastestStep None (minStack 0 1) (maxStack 0 1) None),
      (OP_PUSH27, mk_op (Flow (OpPush 27 27)) GasFastestStep None (minStack 0 1) (maxStack 0 1) None),
      (OP_PUSH28, mk_op (Flow (OpPush 28 28)) GasFastestStep None (minStack 0 1) (maxStack 0 1) None),
      (OP_PUSH29, mk_op (Flow (OpPush 29 29)) GasFastestStep None (minStack 0 1) (maxStack 0 1) None),
      (OP_PUSH30, mk_op (Flow (OpPush 30 30)) GasFastestStep None (minStack 0 1) (maxStack 0 1) None),
      (OP_PUSH31, mk_op (Flow (OpPush 31 31)) GasFastestStep None (minStack 0 1) (maxStack 0 1) None),
      (OP_PUSH32, mk_op (Flow (OpPush 32 32)) GasFastestStep None (minStack 0 1) (maxStack 0 1) None),
      (OP_DUP1, mk_op (Flow (OpDup 1)) GasFastestStep None (minDupStack 1) (maxDupStack 1) None),
      (OP_DUP2, mk_op (Flow (OpDup 2)) GasFastestStep None (minDupStack 2) (maxDupStack 2) None),
      (OP_DUP3, mk_op (Flow (OpDup 3)) GasFastestStep None (minDupStack 3) (maxDupStack 3) None),
      (OP_DUP4, mk_op (Flow (OpDup 4)) GasFastestStep None (minDupStack 4) (maxDupStack 4) None),
      (OP_DUP5, mk_op (Flow (OpDup 5)) GasFastestStep None (minDupStack 5) (maxDupStack 5) None),
      (OP_DUP6, mk_op (Flow (OpDup 6)) GasFastestStep None (minDupStack 6) (maxDupStack 6) None),
      (OP_DUP7, mk_op (Flow (OpDup 7)) GasFastestStep None (minDupStack 7) (maxDupStack 7) None)]"

definition frontier_ops_5 :: "(byte \<times> operation) list" where
  "frontier_ops_5 =
     [(OP_DUP8, mk_op (Flow (OpDup 8)) GasFastestStep None (minDupStack 8) (maxDupStack 8) None),
      (OP_DUP9, mk_op (Flow (OpDup 9)) GasFastestStep None (minDupStack 9) (maxDupStack 9) None),
      (OP_DUP10, mk_op (Flow (OpDup 10)) GasFastestStep None (minDupStack 10) (maxDupStack 10) None),
      (OP_DUP11, mk_op (Flow (OpDup 11)) GasFastestStep None (minDupStack 11) (maxDupStack 11) None),
      (OP_DUP12, mk_op (Flow (OpDup 12)) GasFastestStep None (minDupStack 12) (maxDupStack 12) None),
      (OP_DUP13, mk_op (Flow (OpDup 13)) GasFastestStep None (minDupStack 13) (maxDupStack 13) None),
      (OP_DUP14, mk_op (Flow (OpDup 14)) GasFastestStep None (minDupStack 14) (maxDupStack 14) None),
      (OP_DUP15, mk_op (Flow (OpDup 15)) GasFastestStep None (minDupStack 15) (maxDupStack 15) None),
      (OP_DUP16, mk_op (Flow (OpDup 16)) GasFastestStep None (minDupStack 16) (maxDupStack 16) None),
      (OP_SWAP1, mk_op (Flow (OpSwap 1)) GasFastestStep None (minSwapStack 2) (maxSwapStack 2) None),
      (OP_SWAP2, mk_op (Flow (OpSwap 2)) GasFastestStep None (minSwapStack 3) (maxSwapStack 3) None),
      (OP_SWAP3, mk_op (Flow (OpSwap 3)) GasFastestStep None (minSwapStack 4) (maxSwapStack 4) None),
      (OP_SWAP4, mk_op (Flow (OpSwap 4)) GasFastestStep None (minSwapStack 5) (maxSwapStack 5) None),
      (OP_SWAP5, mk_op (Flow (OpSwap 5)) GasFastestStep None (minSwapStack 6) (maxSwapStack 6) None),
      (OP_SWAP6, mk_op (Flow (OpSwap 6)) GasFastestStep None (minSwapStack 7) (maxSwapStack 7) None),
      (OP_SWAP7, mk_op (Flow (OpSwap 7)) GasFastestStep None (minSwapStack 8) (maxSwapStack 8) None),
      (OP_SWAP8, mk_op (Flow (OpSwap 8)) GasFastestStep None (minSwapStack 9) (maxSwapStack 9) None),
      (OP_SWAP9, mk_op (Flow (OpSwap 9)) GasFastestStep None (minSwapStack 10) (maxSwapStack 10) None),
      (OP_SWAP10, mk_op (Flow (OpSwap 10)) GasFastestStep None (minSwapStack 11) (maxSwapStack 11) None),
      (OP_SWAP11, mk_op (Flow (OpSwap 11)) GasFastestStep None (minSwapStack 12) (maxSwapStack 12) None),
      (OP_SWAP12, mk_op (Flow (OpSwap 12)) GasFastestStep None (minSwapStack 13) (maxSwapStack 13) None),
      (OP_SWAP13, mk_op (Flow (OpSwap 13)) GasFastestStep None (minSwapStack 14) (maxSwapStack 14) None),
      (OP_SWAP14, mk_op (Flow (OpSwap 14)) GasFastestStep None (minSwapStack 15) (maxSwapStack 15) None),
      (OP_SWAP15, mk_op (Flow (OpSwap 15)) GasFastestStep None (minSwapStack 16) (maxSwapStack 16) None)]"

definition frontier_ops_6 :: "(byte \<times> operation) list" where
  "frontier_ops_6 =
     [(OP_SWAP16, mk_op (Flow (OpSwap 16)) GasFastestStep None (minSwapStack 17) (maxSwapStack 17) None),
      (OP_LOG0, mk_op (Access (OpLog 0)) 0 (Some (GasLog 0)) (minStack 2 0) (maxStack 2 0) (Some MemoryLog)),
      (OP_LOG1, mk_op (Access (OpLog 1)) 0 (Some (GasLog 1)) (minStack 3 0) (maxStack 3 0) (Some MemoryLog)),
      (OP_LOG2, mk_op (Access (OpLog 2)) 0 (Some (GasLog 2)) (minStack 4 0) (maxStack 4 0) (Some MemoryLog)),
      (OP_LOG3, mk_op (Access (OpLog 3)) 0 (Some (GasLog 3)) (minStack 5 0) (maxStack 5 0) (Some MemoryLog)),
      (OP_LOG4, mk_op (Access (OpLog 4)) 0 (Some (GasLog 4)) (minStack 6 0) (maxStack 6 0) (Some MemoryLog)),
      (OP_CREATE, mk_op (SubCall OpCreate) CreateGas (Some (GasPureMemory)) (minStack 3 1) (maxStack 3 1) (Some MemoryCreate)),
      (OP_CALL, mk_op (SubCall OpCall) CallGasFrontier (Some GasCall) (minStack 7 1) (maxStack 7 1) (Some MemoryCall)),
      (OP_CALLCODE, mk_op (SubCall OpCallCode) CallGasFrontier (Some GasCallCode) (minStack 7 1) (maxStack 7 1) (Some MemoryCall)),
      (OP_RETURN, mk_op (Flow OpReturn) 0 (Some (GasPureMemory)) (minStack 2 0) (maxStack 2 0) (Some MemoryReturn)),
      (OP_SELFDESTRUCT, mk_op (Access OpSelfdestruct) 0 (Some GasSelfdestruct) (minStack 1 0) (maxStack 1 0) None)]"

definition frontier_ops :: "(byte \<times> operation) list" where
  "frontier_ops = frontier_ops_1 @ frontier_ops_2 @ frontier_ops_3 @ frontier_ops_4 @ frontier_ops_5 @ frontier_ops_6"

definition undefined_op :: operation where
  "undefined_op = mk_op (Flow OpUndefined) 0 None 0 (maxStack 0 0) None"

definition all_opcodes :: "byte list" where
  "all_opcodes = map of_nat [0..<256]"

definition validate :: "JumpTable \<Rightarrow> JumpTable res" where
  "validate jt =
     (if list_all (\<lambda>b. case jt b of None \<Rightarrow> False
                       | Some o1 \<Rightarrow> \<not> (memorySize o1 \<noteq> None \<and> dynamicGas o1 = None)) all_opcodes
      then Ok jt else Panic)"

definition newFrontierInstructionSet :: "JumpTable res" where
  "newFrontierInstructionSet =
     validate (\<lambda>b. case map_of frontier_ops b of Some o1 \<Rightarrow> Some o1 | None \<Rightarrow> Some undefined_op)"

section \<open>Later forks\<close>

text \<open>Changing fields of an operation in place; the operation must exist.\<close>

definition amend :: "byte \<Rightarrow> (operation \<Rightarrow> operation) \<Rightarrow> JumpTable \<Rightarrow> JumpTable" where
  "amend b f jt = jt(b := map_option f (jt b))"

definition newHomesteadInstructionSet :: "JumpTable res" where
  "newHomesteadInstructionSet =
     rbind newFrontierInstructionSet (\<lambda>s. validate
       (s(OP_DELEGATECALL \<mapsto> mk_op (SubCall OpDelegateCall) CallGasFrontier (Some GasDelegateCall)
            (minStack 6 1) (maxStack 6 1) (Some MemoryDelegateCall))))"

definition set_gas :: "u64 \<Rightarrow> operation \<Rightarrow> operation" where
  "set_gas g o1 = o1\<lparr>constantGas := g\<rparr>"

definition set_dynamic :: "gasFunc \<Rightarrow> operation \<Rightarrow> operation" where
  "set_dynamic g o1 = o1\<lparr>dynamicGas := Some g\<rparr>"

definition newTangerineWhistleInstructionSet :: "JumpTable res" where
  "newTangerineWhistleInstructionSet =
     rbind newHomesteadInstructionSet (\<lambda>s. validate
       (amend OP_DELEGATECALL (set_gas CallGasEIP150)
       (amend OP_CALLCODE (set_gas CallGasEIP150)
       (amend OP_CALL (set_gas CallGasEIP150)
       (amend OP_EXTCODECOPY (set_gas ExtcodeCopyBaseEIP150)
       (amend OP_SLOAD (set_gas SloadGasEIP150)
       (amend OP_EXTCODESIZE (set_gas ExtcodeSizeGasEIP150)
       (amend OP_BALANCE (set_gas BalanceGasEIP150) s))))))))"

definition newSpuriousDragonInstructionSet :: "JumpTable res" where
  "newSpuriousDragonInstructionSet =
     rbind newTangerineWhistleInstructionSet (\<lambda>s. validate (amend OP_EXP (set_dynamic GasExpEIP158) s))"

definition newByzantiumInstructionSet :: "JumpTable res" where
  "newByzantiumInstructionSet =
     rbind newSpuriousDragonInstructionSet (\<lambda>s. validate
       (s(OP_STATICCALL \<mapsto> mk_op (SubCall OpStaticCall) CallGasEIP150 (Some GasStaticCall)
            (minStack 6 1) (maxStack 6 1) (Some MemoryStaticCall),
          OP_RETURNDATASIZE \<mapsto> mk_op (Env OpReturnDataSize) GasQuickStep None (minStack 0 1) (maxStack 0 1) None,
          OP_RETURNDATACOPY \<mapsto> mk_op (Flow OpReturnDataCopy) GasFastestStep (Some (GasMemoryCopier 2))
            (minStack 3 0) (maxStack 3 0) (Some MemoryReturnDataCopy),
          OP_REVERT \<mapsto> mk_op (Flow OpRevert) 0 (Some GasPureMemory) (minStack 2 0) (maxStack 2 0) (Some MemoryRevert))))"

definition newConstantinopleInstructionSet :: "JumpTable res" where
  "newConstantinopleInstructionSet =
     rbind newByzantiumInstructionSet (\<lambda>s. validate
       (s(OP_SHL \<mapsto> mk_op (Arith OpSHL) GasFastestStep None (minStack 2 1) (maxStack 2 1) None,
          OP_SHR \<mapsto> mk_op (Arith OpSHR) GasFastestStep None (minStack 2 1) (maxStack 2 1) None,
          OP_SAR \<mapsto> mk_op (Arith OpSAR) GasFastestStep None (minStack 2 1) (maxStack 2 1) None,
          OP_EXTCODEHASH \<mapsto> mk_op (Access OpExtCodeHash) ExtcodeHashGasConstantinople None
            (minStack 1 1) (maxStack 1 1) None,
          OP_CREATE2 \<mapsto> mk_op (SubCall OpCreate2) Create2Gas (Some GasCreate2)
            (minStack 4 1) (maxStack 4 1) (Some MemoryCreate2))))"

section \<open>EIPs (core/vm/eips.go)\<close>

definition enable1884 :: "JumpTable \<Rightarrow> JumpTable" where
  "enable1884 jt =
     (amend OP_EXTCODEHASH (set_gas ExtcodeHashGasEIP1884)
     (amend OP_BALANCE (set_gas BalanceGasEIP1884)
     (amend OP_SLOAD (set_gas SloadGasEIP1884) jt)))
       (OP_SELFBALANCE \<mapsto> mk_op (Access OpSelfBalance) GasFastStep None (minStack 0 1) (maxStack 0 1) None)"

definition enable1344 :: "JumpTable \<Rightarrow> JumpTable" where
  "enable1344 jt = jt(OP_CHAINID \<mapsto> mk_op (Env OpChainID) GasQuickStep None (minStack 0 1) (maxStack 0 1) None)"

definition enable2200 :: "JumpTable \<Rightarrow> JumpTable" where
  "enable2200 jt =
     amend OP_SSTORE (set_dynamic GasSStoreEIP2200) (amend OP_SLOAD (set_gas SloadGasEIP2200) jt)"

definition gasSStoreEIP2929 :: gasFunc where
  "gasSStoreEIP2929 = GasSStore2929 SstoreClearsScheduleRefundEIP2200"

definition gasSStoreEIP3529 :: gasFunc where
  "gasSStoreEIP3529 = GasSStore2929 SstoreClearsScheduleRefundEIP3529"

text \<open>The constant and the dynamic gas of an operation set together.\<close>

definition set_both :: "u64 \<Rightarrow> gasFunc \<Rightarrow> operation \<Rightarrow> operation" where
  "set_both c d o1 = o1\<lparr>constantGas := c, dynamicGas := Some d\<rparr>"

definition enable2929 :: "JumpTable \<Rightarrow> JumpTable" where
  "enable2929 jt =
     (amend OP_SELFDESTRUCT (set_both SelfdestructGasEIP150 (GasSelfdestructEIP True))
     (amend OP_DELEGATECALL (set_both WarmStorageReadCostEIP2929 (GasCallVariantEIP2929 GasDelegateCall))
     (amend OP_STATICCALL (set_both WarmStorageReadCostEIP2929 (GasCallVariantEIP2929 GasStaticCall))
     (amend OP_CALLCODE (set_both WarmStorageReadCostEIP2929 (GasCallVariantEIP2929 GasCallCode))
     (amend OP_CALL (set_both WarmStorageReadCostEIP2929 (GasCallVariantEIP2929 GasCall))
     (amend OP_BALANCE (set_both WarmStorageReadCostEIP2929 GasEip2929AccountCheck)
     (amend OP_EXTCODEHASH (set_both WarmStorageReadCostEIP2929 GasEip2929AccountCheck)
     (amend OP_EXTCODESIZE (set_both WarmStorageReadCostEIP2929 GasEip2929AccountCheck)
     (amend OP_EXTCODECOPY (set_both WarmStorageReadCostEIP2929 GasExtCodeCopyEIP2929)
     (amend OP_SLOAD (set_both 0 GasSLoadEIP2929)
     (amend OP_SSTORE (set_dynamic gasSStoreEIP2929) jt)))))))))))"

definition enable3529 :: "JumpTable \<Rightarrow> JumpTable" where
  "enable3529 jt =
     amend OP_SELFDESTRUCT (set_dynamic (GasSelfdestructEIP False))
       (amend OP_SSTORE (set_dynamic gasSStoreEIP3529) jt)"

definition enable3198 :: "JumpTable \<Rightarrow> JumpTable" where
  "enable3198 jt = jt(OP_BASEFEE \<mapsto> mk_op (Env OpBaseFee) GasQuickStep None (minStack 0 1) (maxStack 0 1) None)"

definition enable3855 :: "JumpTable \<Rightarrow> JumpTable" where
  "enable3855 jt = jt(OP_PUSH0 \<mapsto> mk_op (Flow OpPush0) GasQuickStep None (minStack 0 1) (maxStack 0 1) None)"

definition activators :: "(nat \<times> (JumpTable \<Rightarrow> JumpTable)) list" where
  "activators =
     [(3855, enable3855), (3529, enable3529), (3198, enable3198), (2929, enable2929), (2200, enable2200),
      (1884, enable1884), (1344, enable1344)]"

definition EnableEIP :: "nat \<Rightarrow> JumpTable \<Rightarrow> JumpTable option" where
  "EnableEIP eipNum jt = (case map_of activators eipNum of None \<Rightarrow> None | Some f \<Rightarrow> Some (f jt))"

definition ValidEip :: "nat \<Rightarrow> bool" where
  "ValidEip eipNum = (map_of activators eipNum \<noteq> None)"

section \<open>Istanbul and later\<close>

definition newIstanbulInstructionSet :: "JumpTable res" where
  "newIstanbulInstructionSet =
     rbind newConstantinopleInstructionSet (\<lambda>s. validate (enable2200 (enable1884 (enable1344 s))))"

definition newBerlinInstructionSet :: "JumpTable res" where
  "newBerlinInstructionSet = rbind newIstanbulInstructionSet (\<lambda>s. validate (enable2929 s))"

definition newLondonInstructionSet :: "JumpTable res" where
  "newLondonInstructionSet = rbind newBerlinInstructionSet (\<lambda>s. validate (enable3198 (enable3529 s)))"

definition newMergeInstructionSet :: "JumpTable res" where
  "newMergeInstructionSet =
     rbind newLondonInstructionSet (\<lambda>s. validate
       (s(OP_PREVRANDAO \<mapsto> mk_op (Env OpRandom) GasQuickStep None (minStack 0 1) (maxStack 0 1) None)))"

text \<open>The set \<^verbatim>\<open>NewEVMInterpreter\<close> chooses (core/vm/interpreter.go).\<close>

definition instruction_set :: "Rules \<Rightarrow> JumpTable res" where
  "instruction_set r =
     (if rIsMerge r then newMergeInstructionSet
      else if rIsLondon r then newLondonInstructionSet
      else if rIsBerlin r then newBerlinInstructionSet
      else if rIsIstanbul r then newIstanbulInstructionSet
      else if rIsConstantinople r then newConstantinopleInstructionSet
      else if rIsByzantium r then newByzantiumInstructionSet
      else if rIsEIP158 r then newSpuriousDragonInstructionSet
      else if rIsEIP150 r then newTangerineWhistleInstructionSet
      else if rIsHomestead r then newHomesteadInstructionSet
      else newFrontierInstructionSet)"

fun enable_extra :: "nat list \<Rightarrow> JumpTable \<Rightarrow> nat list \<times> JumpTable" where
  "enable_extra [] jt = ([], jt)"
| "enable_extra (e # es) jt =
     (case EnableEIP e jt of
        None \<Rightarrow> enable_extra es jt
      | Some jt' \<Rightarrow> (let (done, jt'') = enable_extra es jt' in (e # done, jt'')))"

end
