(* ===== verification/Evm.thy ===== *)
theory Evm
  imports JumpTable
begin

text \<open>
  Calls, contract creation and the interpreter loop (core/vm/evm.go, interpreter.go, the calling
  instructions of instructions.go), with the transfer functions of core/evm.go. The EVM and the
  interpreter call each other: the functions here take the interpreter's \<^verbatim>\<open>Run\<close> as an
  argument, and \<^verbatim>\<open>Run\<close> with fuel \<open>n + 1\<close> hands them \<^verbatim>\<open>Run\<close> with fuel \<open>n\<close>; the fuel also
  bounds the iterations of the loop.
\<close>

type_synonym run_fn = "Contract \<Rightarrow> bytes \<Rightarrow> bool \<Rightarrow> EVM \<Rightarrow> ((bytes \<times> vm_error option) \<times> Contract \<times> EVM) res"
type_synonym call_result = "bytes \<times> u64 \<times> vm_error option"

definition evm_read :: "(StateDB \<Rightarrow> 'a \<times> StateDB) \<Rightarrow> EVM \<Rightarrow> 'a \<times> EVM" where
  "evm_read f evm = (let (x, s) = f (sdb evm) in (x, evm\<lparr>sdb := s\<rparr>))"

definition evm_write :: "(StateDB \<Rightarrow> StateDB) \<Rightarrow> EVM \<Rightarrow> EVM" where
  "evm_write f evm = evm\<lparr>sdb := f (sdb evm)\<rparr>"

section \<open>Transfers (core/evm.go)\<close>

definition CanTransfer :: "address \<Rightarrow> int \<Rightarrow> StateDB \<Rightarrow> bool \<times> StateDB" where
  "CanTransfer addr amount s = (let (b, s) = GetBalance addr s in (b \<ge> amount, s))"

definition Transfer :: "address \<Rightarrow> address \<Rightarrow> int \<Rightarrow> EVM \<Rightarrow> EVM res" where
  "Transfer sender recipient amount evm =
     rbind (if \<not> Prefetch evm then
              rbind (AddTransferLog (hasher (sdb evm)) sender recipient amount (Depth evm) (logger evm))
                (\<lambda>l. Ok (evm\<lparr>logger := l\<rparr>))
            else Ok evm)
       (\<lambda>evm. Ok (evm_write (AddBalance recipient amount) (evm_write (SubBalance sender amount) evm)))"

section \<open>Tracing of a call frame\<close>

definition enter_trace :: "EVM \<Rightarrow> (int \<times> EVM) res" where
  "enter_trace evm =
     (let i = TraceIndex (logger evm) in
      if Prefetch evm then Ok (i, evm)
      else rbind (gindex (CallStack (logger evm)) (Depth evm)) (\<lambda>_.
        Ok (i, evm\<lparr>logger := (logger evm)\<lparr>TraceIndex := i + 1,
                     CallStack := (CallStack (logger evm))[Depth evm := nat (i mod 2 ^ 64)]\<rparr>,
                   CallIndex := of_int i\<rparr>)))"

text \<open>Every kind of call but \<^verbatim>\<open>Call\<close> takes the trace index back.\<close>

definition leave_trace ::
  "string \<Rightarrow> bool \<Rightarrow> int \<Rightarrow> address \<Rightarrow> address \<Rightarrow> int \<Rightarrow> u64 \<Rightarrow> bytes \<Rightarrow> bytes \<Rightarrow> EVM \<Rightarrow> EVM res" where
  "leave_trace calltype takeBack i src dst value gas input ret evm =
     (if Prefetch evm then Ok evm
      else rbind (AddFuncLog (hasher (sdb evm)) i calltype (Depth evm) src dst value gas input ret (logger evm)) (\<lambda>l.
        Ok (evm\<lparr>logger := (if takeBack then l\<lparr>TraceIndex := TraceIndex l - 1\<rparr> else l)\<rparr>)))"

section \<open>Message calls\<close>

text \<open>After an error the state is reverted, and the gas is gone unless the code reverted itself.\<close>

definition finish_call :: "nat \<Rightarrow> call_result \<times> EVM \<Rightarrow> (call_result \<times> EVM) res" where
  "finish_call snapshot r =
     (case r of ((ret, gas, err), evm) \<Rightarrow> case err of
        None \<Rightarrow> Ok ((ret, gas, None), evm)
      | Some e \<Rightarrow>
          rbind (RevertToSnapshot snapshot (sdb evm)) (\<lambda>s.
            Ok ((ret, if e \<noteq> ErrExecutionReverted then 0 else gas, Some e), evm\<lparr>sdb := s\<rparr>)))"

definition run_precompile :: "PrecompiledContract \<Rightarrow> bytes \<Rightarrow> u64 \<Rightarrow> EVM \<Rightarrow> (call_result \<times> EVM) res" where
  "run_precompile p input gas evm = rbind (RunPrecompiledContract (crypto evm) p input gas) (\<lambda>r. Ok (r, evm))"

text \<open>The code of an account with its hash, in the order in which they are looked up.\<close>

definition load_code :: "address \<Rightarrow> Contract \<Rightarrow> EVM \<Rightarrow> Contract \<times> EVM" where
  "load_code addr c evm =
     (let (h, evm) = evm_read (GetCodeHash addr) evm; (code, evm) = evm_read (GetCode addr) evm
      in (SetCallCode addr h code c, evm))"

definition new_contract :: "ContractRef \<Rightarrow> address \<Rightarrow> int option \<Rightarrow> u64 \<Rightarrow> EVM \<Rightarrow> Contract \<times> EVM" where
  "new_contract caller obj value gas evm =
     (let (c, js) = NewContract caller obj value gas (analyses evm) in (c, evm\<lparr>analyses := js\<rparr>))"

definition run_contract :: "run_fn \<Rightarrow> Contract \<Rightarrow> bytes \<Rightarrow> bool \<Rightarrow> EVM \<Rightarrow> (call_result \<times> EVM) res" where
  "run_contract run c input ro evm =
     rbind (run c input ro evm) (\<lambda>((ret, err), c, evm). Ok ((ret, Gas c, err), evm))"

definition EVM_Call ::
  "run_fn \<Rightarrow> ContractRef \<Rightarrow> address \<Rightarrow> bytes \<Rightarrow> u64 \<Rightarrow> int \<Rightarrow> EVM \<Rightarrow> (call_result \<times> EVM) res" where
  "EVM_Call run caller addr input gas value evm =
     (if Depth evm > CallCreateDepth then Ok (([], gas, Some ErrDepth), evm)
      else
        let src = ContractRef_Address caller;
            (can, evm) = (if value \<noteq> 0 then evm_read (CanTransfer src value) evm else (True, evm))
        in if \<not> can then Ok (([], gas, Some ErrInsufficientBalance), evm)
        else
          let (snapshot, evm) = evm_read Snapshot_op evm;
              p = precompile (chainRules evm) addr;
              (ex, evm) = evm_read (Exist addr) evm
          in if \<not> ex \<and> p = None \<and> rIsEIP158 (chainRules evm) \<and> value = 0 then Ok (([], gas, None), evm)
          else rbind (Transfer src addr value (if \<not> ex then evm_write (CreateAccount addr) evm else evm)) (\<lambda>evm.
            rbind (case p of
                Some pre \<Rightarrow> run_precompile pre input gas evm
              | None \<Rightarrow>
                  (let (code, evm) = evm_read (GetCode addr) evm in
                   rbind (enter_trace evm) (\<lambda>(i, evm).
                   rbind (if code = [] then Ok (([], gas, None), evm)
                          else
                            let (c, evm) = new_contract caller addr (Some value) gas evm;
                                (h, evm) = evm_read (GetCodeHash addr) evm
                            in run_contract run (SetCallCode addr h code c) input False evm)
                     (\<lambda>((ret, left, err), evm).
                   rbind (leave_trace ''CALL'' False i src addr value gas input ret evm) (\<lambda>evm.
                     Ok ((ret, left, err), evm))))))
              (finish_call snapshot)))"

definition EVM_CallCode ::
  "run_fn \<Rightarrow> ContractRef \<Rightarrow> address \<Rightarrow> bytes \<Rightarrow> u64 \<Rightarrow> int \<Rightarrow> EVM \<Rightarrow> (call_result \<times> EVM) res" where
  "EVM_CallCode run caller addr input gas value evm =
     (if Depth evm > CallCreateDepth then Ok (([], gas, Some ErrDepth), evm)
      else
        let src = ContractRef_Address caller; (can, evm) = evm_read (CanTransfer src value) evm
        in if \<not> can then Ok (([], gas, Some ErrInsufficientBalance), evm)
        else
          let (snapshot, evm) = evm_read Snapshot_op evm
          in rbind (case precompile (chainRules evm) addr of
                 Some pre \<Rightarrow> run_precompile pre input gas evm
               | None \<Rightarrow>
                   rbind (enter_trace evm) (\<lambda>(i, evm).
                   let (c, evm) = new_contract caller src (Some value) gas evm;
                       (c, evm) = load_code addr c evm
                   in rbind (run_contract run c input False evm) (\<lambda>((ret, left, err), evm).
                      rbind (leave_trace ''CALLCODE'' True i src addr value gas input ret evm) (\<lambda>evm.
                        Ok ((ret, left, err), evm)))))
               (finish_call snapshot))"

definition EVM_DelegateCall ::
  "run_fn \<Rightarrow> ContractRef \<Rightarrow> address \<Rightarrow> bytes \<Rightarrow> u64 \<Rightarrow> EVM \<Rightarrow> (call_result \<times> EVM) res" where
  "EVM_DelegateCall run caller addr input gas evm =
     (if Depth evm > CallCreateDepth then Ok (([], gas, Some ErrDepth), evm)
      else
        let src = ContractRef_Address caller; (snapshot, evm) = evm_read Snapshot_op evm
        in rbind (case precompile (chainRules evm) addr of
               Some pre \<Rightarrow> run_precompile pre input gas evm
             | None \<Rightarrow>
                 rbind (enter_trace evm) (\<lambda>(i, evm).
                 let (c, evm) = new_contract caller src None gas evm
                 in rbind (AsDelegate caller c) (\<lambda>c.
                    let (c, evm) = load_code addr c evm
                    in rbind (run_contract run c input False evm) (\<lambda>((ret, left, err), evm).
                       rbind (leave_trace ''DELEGATECALL'' True i src addr 0 gas input ret evm) (\<lambda>evm.
                         Ok ((ret, left, err), evm))))))
             (finish_call snapshot))"

definition EVM_StaticCall ::
  "run_fn \<Rightarrow> ContractRef \<Rightarrow> address \<Rightarrow> bytes \<Rightarrow> u64 \<Rightarrow> EVM \<Rightarrow> (call_result \<times> EVM) res" where
  "EVM_StaticCall run caller addr input gas evm =
     (if Depth evm > CallCreateDepth then Ok (([], gas, Some ErrDepth), evm)
      else
        let src = ContractRef_Address caller;
            (snapshot, evm) = evm_read Snapshot_op evm;
            evm = evm_write (AddBalance addr 0) evm
        in rbind (case precompile (chainRules evm) addr of
               Some pre \<Rightarrow> run_precompile pre input gas evm
             | None \<Rightarrow>
                 rbind (enter_trace evm) (\<lambda>(i, evm).
                 let (c, evm) = new_contract caller addr (Some 0) gas evm;
                     (c, evm) = load_code addr c evm
                 in rbind (run_contract run c input True evm) (\<lambda>((ret, left, err), evm).
                    rbind (leave_trace ''STATICCALL'' True i src addr 0 gas input ret evm) (\<lambda>evm.
                      Ok ((ret, left, err), evm)))))
             (finish_call snapshot))"

section \<open>Contract creation\<close>

definition CreateAddress :: "EVM \<Rightarrow> address \<Rightarrow> u64 \<Rightarrow> address" where
  "CreateAddress evm b nonce = ucast (Keccak256 evm (EncodeToBytes (RList [RBytes (addr_bytes b), RUint nonce])))"

definition CreateAddress2 :: "EVM \<Rightarrow> address \<Rightarrow> u256 \<Rightarrow> hash \<Rightarrow> address" where
  "CreateAddress2 evm b salt inithash =
     ucast (Keccak256 evm (0xff # addr_bytes b @ hash_bytes salt @ hash_bytes inithash))"

text \<open>What is wrong with the code that the constructor returned.\<close>

definition check_code :: "Rules \<Rightarrow> bytes \<Rightarrow> vm_error option \<Rightarrow> vm_error option" where
  "check_code r ret err =
     (let err = (if err = None \<and> rIsEIP158 r \<and> length ret > MaxCodeSize then Some ErrMaxCodeSizeExceeded else err)
      in if err = None \<and> length ret \<ge> 1 \<and> ret ! 0 = 0xEF \<and> rIsLondon r then Some ErrInvalidCode else err)"

definition store_code :: "address \<Rightarrow> bytes \<Rightarrow> Contract \<Rightarrow> EVM \<Rightarrow> vm_error option \<times> Contract \<times> EVM" where
  "store_code address ret c evm =
     (let (paid, c) = UseGas (of_nat (length ret) * CreateDataGas) c in
      if paid then (None, c, evm_write (SetCode address ret) evm) else (Some ErrCodeStoreOutOfGas, c, evm))"

definition EVM_create ::
  "run_fn \<Rightarrow> ContractRef \<Rightarrow> bytes \<times> hash \<Rightarrow> u64 \<Rightarrow> int \<Rightarrow> address \<Rightarrow> EVM \<Rightarrow>
   ((bytes \<times> address \<times> u64 \<times> vm_error option) \<times> EVM) res" where
  "EVM_create run caller codeAndHash gas value address evm =
     (if Depth evm > CallCreateDepth then Ok (([], 0, gas, Some ErrDepth), evm)
      else
        let src = ContractRef_Address caller; (can, evm) = evm_read (CanTransfer src value) evm
        in if \<not> can then Ok (([], 0, gas, Some ErrInsufficientBalance), evm)
        else
          let (nonce, evm) = evm_read (GetNonce src) evm
          in if nonce + 1 < nonce then Ok (([], 0, gas, Some ErrNonceUintOverflow), evm)
          else
            let evm = evm_write (SetNonce src (nonce + 1)) evm;
                evm = (if rIsBerlin (chainRules evm) then evm_write (AddAddressToAccessList address) evm else evm);
                (contractHash, evm) = evm_read (GetCodeHash address) evm;
                (nonce', evm) = evm_read (GetNonce address) evm
            in if nonce' \<noteq> 0 \<or> (contractHash \<noteq> 0 \<and> contractHash \<noteq> emptyCodeHash (sdb evm))
               then Ok (([], 0, 0, Some ErrContractAddressCollision), evm)
            else
              let (snapshot, evm) = evm_read Snapshot_op evm;
                  evm = evm_write (CreateAccount address) evm;
                  evm = (if rIsEIP158 (chainRules evm) then evm_write (SetNonce address 1) evm else evm)
              in rbind (Transfer src address value evm) (\<lambda>evm.
                 let (c, evm) = new_contract caller address (Some value) gas evm
                 in rbind (enter_trace evm) (\<lambda>(i, evm).
                    rbind (run (SetCodeOptionalHash address codeAndHash c) [] False evm) (\<lambda>((ret, err), c, evm).
                    let err = check_code (chainRules evm) ret err;
                        (err, c, evm) = (if err = None then store_code address ret c evm else (err, c, evm))
                    in rbind (if err \<noteq> None \<and> (rIsHomestead (chainRules evm) \<or> err \<noteq> Some ErrCodeStoreOutOfGas) then
                                rbind (RevertToSnapshot snapshot (sdb evm)) (\<lambda>s.
                                  Ok (if err \<noteq> Some ErrExecutionReverted then snd (UseGas (Gas c) c) else c,
                                      evm\<lparr>sdb := s\<rparr>))
                              else Ok (c, evm)) (\<lambda>(c, evm).
                       rbind (leave_trace ''CREATE'' True i src address 0 gas (fst codeAndHash) ret evm) (\<lambda>evm.
                         Ok ((ret, address, Gas c, err), evm)))))))"

definition EVM_Create ::
  "run_fn \<Rightarrow> ContractRef \<Rightarrow> bytes \<Rightarrow> u64 \<Rightarrow> int \<Rightarrow> EVM \<Rightarrow> ((bytes \<times> address \<times> u64 \<times> vm_error option) \<times> EVM) res" where
  "EVM_Create run caller code gas value evm =
     (let (nonce, evm) = evm_read (GetNonce (ContractRef_Address caller)) evm
      in EVM_create run caller (code, 0) gas value (CreateAddress evm (ContractRef_Address caller) nonce) evm)"

definition EVM_Create2 ::
  "run_fn \<Rightarrow> ContractRef \<Rightarrow> bytes \<Rightarrow> u64 \<Rightarrow> int \<Rightarrow> u256 \<Rightarrow> EVM \<Rightarrow>
   ((bytes \<times> address \<times> u64 \<times> vm_error option) \<times> EVM) res" where
  "EVM_Create2 run caller code gas endowment salt evm =
     (let h = Keccak256 evm code
      in EVM_create run caller (code, h) gas endowment
           (CreateAddress2 evm (ContractRef_Address caller) salt h) evm)"

section \<open>The calling instructions (core/vm/instructions.go)\<close>

definition lift_call :: "(EVM \<Rightarrow> ('a \<times> EVM) res) \<Rightarrow> frame \<Rightarrow> ('a \<times> frame) res" where
  "lift_call f fr = rbind (f (interp fr)) (\<lambda>(x, evm). Ok (x, fr\<lparr>interp := evm\<rparr>))"

definition add_gas :: "u64 \<Rightarrow> frame \<Rightarrow> frame" where
  "add_gas g fr = fr\<lparr>contract := (contract fr)\<lparr>Gas := Gas (contract fr) + g\<rparr>\<rparr>"

definition set_returnData :: "bytes \<Rightarrow> frame \<Rightarrow> frame" where
  "set_returnData d fr = fr\<lparr>interp := (interp fr)\<lparr>returnData := d\<rparr>\<rparr>"

definition after_create :: "bool \<Rightarrow> bytes \<times> address \<times> u64 \<times> vm_error option \<Rightarrow> op" where
  "after_create created r fr =
     (case r of (res, addr, returnGas, suberr) \<Rightarrow>
       let fr = add_gas returnGas (push1 (if created then addr_word addr else 0) fr)
       in if suberr = Some ErrExecutionReverted then Ok ((res, res, None), set_returnData res fr)
          else Ok (([], addr_bytes addr, None), set_returnData [] fr))"

definition opCreate :: "run_fn \<Rightarrow> op" where
  "opCreate run fr =
     (if readOnly (interp fr) then fail ErrWriteProtection fr
      else
        rbind (pop1 fr) (\<lambda>(value, fr). rbind (pop1 fr) (\<lambda>(offset, fr). rbind (pop1 fr) (\<lambda>(size, fr).
        rbind (GetCopy (int64 (Uint64 offset)) (int64 (Uint64 size)) (fmem fr)) (\<lambda>input.
          let g0 = Gas (contract fr);
              gas = (if rIsEIP150 (chainRules (interp fr)) then g0 - g0 div 64 else g0);
              fr = fr\<lparr>contract := snd (UseGas gas (contract fr))\<rparr>
          in rbind (lift_call (EVM_Create run (ContractObj (contract fr)) input gas (uint value)) fr) (\<lambda>(r, fr).
             let suberr = snd (snd (snd r));
                 created = (\<not> (rIsHomestead (chainRules (interp fr)) \<and> suberr = Some ErrCodeStoreOutOfGas) \<and>
                            (suberr = None \<or> suberr = Some ErrCodeStoreOutOfGas))
             in after_create created r fr))))))"

definition opCreate2 :: "run_fn \<Rightarrow> op" where
  "opCreate2 run fr =
     (if readOnly (interp fr) then fail ErrWriteProtection fr
      else
        rbind (pop1 fr) (\<lambda>(endowment, fr). rbind (pop1 fr) (\<lambda>(offset, fr). rbind (pop1 fr) (\<lambda>(size, fr).
        rbind (pop1 fr) (\<lambda>(salt, fr).
        rbind (GetCopy (int64 (Uint64 offset)) (int64 (Uint64 size)) (fmem fr)) (\<lambda>input.
          let g0 = Gas (contract fr);
              gas = g0 - g0 div 64;
              fr = fr\<lparr>contract := snd (UseGas gas (contract fr))\<rparr>
          in rbind (lift_call (EVM_Create2 run (ContractObj (contract fr)) input gas (uint endowment) salt) fr)
               (\<lambda>(r, fr). after_create (snd (snd (snd r)) = None) r fr)))))))"

text \<open>Push the success flag, copy the returned data to memory, take the remaining gas back.\<close>

definition after_call :: "u256 \<Rightarrow> u256 \<Rightarrow> call_result \<Rightarrow> op" where
  "after_call retOffset retSize r fr =
     (case r of (ret, returnGas, err) \<Rightarrow>
       let fr = push1 (if err = None then 1 else 0) fr
       in rbind (if err = None \<or> err = Some ErrExecutionReverted then
                   rbind (mem_Set (Uint64 retOffset) (Uint64 retSize) ret (fmem fr)) (\<lambda>m. Ok (fr\<lparr>fmem := m\<rparr>))
                 else Ok fr) (\<lambda>fr.
            Ok ((ret, ret, None), set_returnData ret (add_gas returnGas fr))))"

definition opCall :: "run_fn \<Rightarrow> op" where
  "opCall run fr =
     rbind (pop1 fr) (\<lambda>(_, fr). rbind (pop1 fr) (\<lambda>(addr, fr). rbind (pop1 fr) (\<lambda>(value, fr).
     rbind (pop1 fr) (\<lambda>(inOffset, fr). rbind (pop1 fr) (\<lambda>(inSize, fr). rbind (pop1 fr) (\<lambda>(retOffset, fr).
     rbind (pop1 fr) (\<lambda>(retSize, fr).
     rbind (GetPtr (int64 (Uint64 inOffset)) (int64 (Uint64 inSize)) (fmem fr)) (\<lambda>args.
       if readOnly (interp fr) \<and> value \<noteq> 0 then fail ErrWriteProtection fr
       else
         let gas = callGasTemp (interp fr) + (if value \<noteq> 0 then CallStipend else 0)
         in rbind (lift_call (EVM_Call run (ContractObj (contract fr)) (Bytes20 addr) args gas (uint value)) fr)
              (\<lambda>(r, fr). after_call retOffset retSize r fr)))))))))"

definition opCallCode :: "run_fn \<Rightarrow> op" where
  "opCallCode run fr =
     rbind (pop1 fr) (\<lambda>(_, fr). rbind (pop1 fr) (\<lambda>(addr, fr). rbind (pop1 fr) (\<lambda>(value, fr).
     rbind (pop1 fr) (\<lambda>(inOffset, fr). rbind (pop1 fr) (\<lambda>(inSize, fr). rbind (pop1 fr) (\<lambda>(retOffset, fr).
     rbind (pop1 fr) (\<lambda>(retSize, fr).
     rbind (GetPtr (int64 (Uint64 inOffset)) (int64 (Uint64 inSize)) (fmem fr)) (\<lambda>args.
       let gas = callGasTemp (interp fr) + (if value \<noteq> 0 then CallStipend else 0)
       in rbind (lift_call (EVM_CallCode run (ContractObj (contract fr)) (Bytes20 addr) args gas (uint value)) fr)
            (\<lambda>(r, fr). after_call retOffset retSize r fr)))))))))"

definition opDelegateCall :: "run_fn \<Rightarrow> op" where
  "opDelegateCall run fr =
     rbind (pop1 fr) (\<lambda>(_, fr). rbind (pop1 fr) (\<lambda>(addr, fr).
     rbind (pop1 fr) (\<lambda>(inOffset, fr). rbind (pop1 fr) (\<lambda>(inSize, fr). rbind (pop1 fr) (\<lambda>(retOffset, fr).
     rbind (pop1 fr) (\<lambda>(retSize, fr).
     rbind (GetPtr (int64 (Uint64 inOffset)) (int64 (Uint64 inSize)) (fmem fr)) (\<lambda>args.
       rbind (lift_call (EVM_DelegateCall run (ContractObj (contract fr)) (Bytes20 addr) args (callGasTemp (interp fr))) fr)
         (\<lambda>(r, fr). after_call retOffset retSize r fr))))))))"

definition opStaticCall :: "run_fn \<Rightarrow> op" where
  "opStaticCall run fr =
     rbind (pop1 fr) (\<lambda>(_, fr). rbind (pop1 fr) (\<lambda>(addr, fr).
     rbind (pop1 fr) (\<lambda>(inOffset, fr). rbind (pop1 fr) (\<lambda>(inSize, fr). rbind (pop1 fr) (\<lambda>(retOffset, fr).
     rbind (pop1 fr) (\<lambda>(retSize, fr).
     rbind (GetPtr (int64 (Uint64 inOffset)) (int64 (Uint64 inSize)) (fmem fr)) (\<lambda>args.
       rbind (lift_call (EVM_StaticCall run (ContractObj (contract fr)) (Bytes20 addr) args (callGasTemp (interp fr))) fr)
         (\<lambda>(r, fr). after_call retOffset retSize r fr))))))))"

section \<open>Dispatch\<close>

fun exec_arith :: "arithFunc \<Rightarrow> op" where
  "exec_arith OpAdd = opAdd"
| "exec_arith OpSub = opSub"
| "exec_arith OpMul = opMul"
| "exec_arith OpDiv = opDiv"
| "exec_arith OpSdiv = opSdiv"
| "exec_arith OpMod = opMod"
| "exec_arith OpSmod = opSmod"
| "exec_arith OpExp = opExp"
| "exec_arith OpSignExtend = opSignExtend"
| "exec_arith OpNot = opNot"
| "exec_arith OpLt = opLt"
| "exec_arith OpGt = opGt"
| "exec_arith OpSlt = opSlt"
| "exec_arith OpSgt = opSgt"
| "exec_arith OpEq = opEq"
| "exec_arith OpIszero = opIszero"
| "exec_arith OpAnd = opAnd"
| "exec_arith OpOr = opOr"
| "exec_arith OpXor = opXor"
| "exec_arith OpByte = opByte"
| "exec_arith OpAddmod = opAddmod"
| "exec_arith OpMulmod = opMulmod"
| "exec_arith OpSHL = opSHL"
| "exec_arith OpSHR = opSHR"
| "exec_arith OpSAR = opSAR"

fun exec_env :: "envFunc \<Rightarrow> op" where
  "exec_env OpAddress = opAddress"
| "exec_env OpOrigin = opOrigin"
| "exec_env OpCaller = opCaller"
| "exec_env OpCallValue = opCallValue"
| "exec_env OpCallDataLoad = opCallDataLoad"
| "exec_env OpCallDataSize = opCallDataSize"
| "exec_env OpReturnDataSize = opReturnDataSize"
| "exec_env OpCodeSize = opCodeSize"
| "exec_env OpGasprice = opGasprice"
| "exec_env OpBlockhash = opBlockhash"
| "exec_env OpCoinbase = opCoinbase"
| "exec_env OpTimestamp = opTimestamp"
| "exec_env OpNumber = opNumber"
| "exec_env OpDifficulty = opDifficulty"
| "exec_env OpRandom = opRandom"
| "exec_env OpGasLimit = opGasLimit"
| "exec_env OpChainID = opChainID"
| "exec_env OpBaseFee = opBaseFee"
| "exec_env OpPc = opPc"
| "exec_env OpMsize = opMsize"
| "exec_env OpGas = opGas"

fun exec_flow :: "flowFunc \<Rightarrow> op" where
  "exec_flow OpCallDataCopy = opCallDataCopy"
| "exec_flow OpReturnDataCopy = opReturnDataCopy"
| "exec_flow OpCodeCopy = opCodeCopy"
| "exec_flow OpPop = opPop"
| "exec_flow OpMload = opMload"
| "exec_flow OpMstore = opMstore"
| "exec_flow OpMstore8 = opMstore8"
| "exec_flow OpJump = opJump"
| "exec_flow OpJumpi = opJumpi"
| "exec_flow OpJumpdest = opJumpdest"
| "exec_flow OpReturn = opReturn"
| "exec_flow OpRevert = opRevert"
| "exec_flow OpUndefined = opUndefined"
| "exec_flow OpStop = opStop"
| "exec_flow OpPush0 = opPush0"
| "exec_flow OpPush1 = opPush1"
| "exec_flow (OpPush n m) = makePush n m"
| "exec_flow (OpDup n) = makeDup n"
| "exec_flow (OpSwap n) = makeSwap n"

fun exec_state :: "stateFunc \<Rightarrow> op" where
  "exec_state OpBalance = opBalance"
| "exec_state OpSelfBalance = opSelfBalance"
| "exec_state OpExtCodeSize = opExtCodeSize"
| "exec_state OpExtCodeCopy = opExtCodeCopy"
| "exec_state OpExtCodeHash = opExtCodeHash"
| "exec_state OpSload = opSload"
| "exec_state OpSstore = opSstore"
| "exec_state OpKeccak256 = opKeccak256"
| "exec_state (OpLog n) = makeLog n"
| "exec_state OpSelfdestruct = opSelfdestruct"

fun exec_call :: "run_fn \<Rightarrow> callFunc \<Rightarrow> op" where
  "exec_call run OpCreate = opCreate run"
| "exec_call run OpCreate2 = opCreate2 run"
| "exec_call run OpCall = opCall run"
| "exec_call run OpCallCode = opCallCode run"
| "exec_call run OpDelegateCall = opDelegateCall run"
| "exec_call run OpStaticCall = opStaticCall run"

fun exec_op :: "run_fn \<Rightarrow> executionFunc \<Rightarrow> op" where
  "exec_op run (Arith f) = exec_arith f"
| "exec_op run (Env f) = exec_env f"
| "exec_op run (Flow f) = exec_flow f"
| "exec_op run (Access f) = exec_state f"
| "exec_op run (SubCall f) = exec_call run f"

section \<open>The interpreter loop (core/vm/interpreter.go)\<close>

text \<open>The memory an operation needs, in whole words.\<close>

definition needed_memory :: "memorySizeFunc option \<Rightarrow> stack \<Rightarrow> gas_result res" where
  "needed_memory ms st = (case ms of
       None \<Rightarrow> Ok (Inr 0)
     | Some m \<Rightarrow>
         rbind (run_memorySize m st) (\<lambda>(memSize, overflow).
           if overflow then Ok (Inl ErrGasUintOverflow)
           else let (sz, overflow) = SafeMul (toWordSize memSize) 32
                in if overflow then Ok (Inl ErrGasUintOverflow) else Ok (Inr sz)))"

text \<open>Dynamic gas and memory expansion: the cost for the log, or the error that ends the run.\<close>

definition charge_dynamic :: "operation \<Rightarrow> frame \<Rightarrow> (gas_result \<times> frame) res" where
  "charge_dynamic o1 fr = (case dynamicGas o1 of
       None \<Rightarrow> Ok (Inr (constantGas o1), fr)
     | Some g \<Rightarrow>
         rbind (needed_memory (memorySize o1) (fstack fr)) (\<lambda>r. case r of
           Inl e \<Rightarrow> Ok (Inl e, fr)
         | Inr sz \<Rightarrow>
             rbind (run_gas g sz fr) (\<lambda>(r, fr). case r of
               Inl _ \<Rightarrow> Ok (Inl ErrOutOfGas, fr)
             | Inr dynamicCost \<Rightarrow>
                 (let (paid, c) = UseGas dynamicCost (contract fr); fr = fr\<lparr>contract := c\<rparr>
                  in if \<not> paid then Ok (Inl ErrOutOfGas, fr)
                     else Ok (Inr (constantGas o1 + dynamicCost),
                              if sz > 0 then fr\<lparr>fmem := Resize sz (fmem fr)\<rparr> else fr)))))"

definition log_op :: "u64 \<Rightarrow> byte \<Rightarrow> u64 \<Rightarrow> u64 \<Rightarrow> bytes \<Rightarrow> frame \<Rightarrow> frame" where
  "log_op pcCopy opcode gasCopy cost output fr =
     (let evm = interp fr in
      if Prefetch evm then fr
      else fr\<lparr>interp := evm\<lparr>logger := AddOpLog pcCopy (CallIndex evm) (of_nat (Depth evm)) (OpCode_String opcode)
                 gasCopy cost output (logger evm)\<rparr>\<rparr>)"

text \<open>One iteration: \<open>None\<close> to go on, or the result of the run.\<close>

definition step :: "run_fn \<Rightarrow> frame \<Rightarrow> ((bytes \<times> vm_error option) option \<times> frame) res" where
  "step run fr =
     (let opcode = GetOp (contract fr) (pc fr);
          gasCopy = (if Debug (evmConfig (interp fr)) then Gas (contract fr) else 0)
      in case jumpTable (interp fr) opcode of
           None \<Rightarrow> Panic
         | Some o1 \<Rightarrow>
             (let sLen = int (length (fstack fr)) in
              if sLen < minStack_of o1 then Ok (Some ([], Some (ErrStackUnderflow sLen (minStack_of o1))), fr)
              else if sLen > maxStack_of o1 then Ok (Some ([], Some (ErrStackOverflow sLen (maxStack_of o1))), fr)
              else
                let (paid, c) = UseGas (constantGas o1) (contract fr) in
                if \<not> paid then Ok (Some ([], Some ErrOutOfGas), fr)
                else rbind (charge_dynamic o1 (fr\<lparr>contract := c\<rparr>)) (\<lambda>(r, fr1). case r of
                    Inl e \<Rightarrow> Ok (Some ([], Some e), fr1)
                  | Inr cost \<Rightarrow>
                      rbind (exec_op run (execute o1) fr1) (\<lambda>((res, output, err), fr2).
                        let fr3 = log_op (pc fr) opcode gasCopy cost output fr2
                        in case err of
                             None \<Rightarrow> Ok (None, fr3\<lparr>pc := pc fr3 + 1\<rparr>)
                           | Some e \<Rightarrow> Ok (Some (res, if e = errStopToken then None else Some e), fr3)))))"

fun run_loop :: "nat \<Rightarrow> run_fn \<Rightarrow> frame \<Rightarrow> ((bytes \<times> vm_error option) \<times> frame) res" where
  "run_loop 0 run fr = NoFuel"
| "run_loop (Suc n) run fr =
     rbind (step run fr) (\<lambda>(r, fr'). case r of
       None \<Rightarrow> run_loop n run fr'
     | Some x \<Rightarrow> Ok (x, fr'))"

definition leave_run :: "bool \<Rightarrow> EVM \<Rightarrow> EVM" where
  "leave_run setReadOnly evm =
     evm\<lparr>Depth := Depth evm - 1, readOnly := (if setReadOnly then False else readOnly evm)\<rparr>"

fun Run :: "nat \<Rightarrow> run_fn" where
  "Run 0 c input ro evm = NoFuel"
| "Run (Suc n) c input ro evm =
     (let setReadOnly = (ro \<and> \<not> readOnly evm);
          evm1 = evm\<lparr>Depth := Depth evm + 1, readOnly := (readOnly evm \<or> setReadOnly), returnData := []\<rparr>
      in if Code c = [] then Ok (([], None), c, leave_run setReadOnly evm1)
         else rbind (run_loop n (Run n)
                  \<lparr>pc = 0, interp = evm1, fmem = NewMemory, fstack = newstack, contract = c\<lparr>cInput := input\<rparr>\<rparr>)
                (\<lambda>(r, fr). Ok (r, contract fr, leave_run setReadOnly (interp fr))))"

section \<open>A new EVM\<close>

definition NewEVM ::
  "BlockContext \<Rightarrow> TxContext \<Rightarrow> StateDB \<Rightarrow> ChainConfig \<Rightarrow> Config \<Rightarrow> crypto \<Rightarrow> Logger \<Rightarrow> EVM res" where
  "NewEVM blockCtx txCtx s cc config cr l =
     (let r = ChainRules cc (BlockNumber blockCtx) (Random blockCtx \<noteq> None) in
      rbind (instruction_set r) (\<lambda>jt.
        let (eips, jt) = enable_extra (ExtraEips config) jt
        in Ok \<lparr>Context = blockCtx, TxCtx = txCtx, sdb = s, Depth = 0, CallIndex = 0, chainConfig = cc,
               chainRules = r, evmConfig = config, abort = False, callGasTemp = 0,
               Prefetch = cPrefetch config, readOnly = False, returnData = [], jumpTable = jt, analyses = [],
               logger = l, crypto = cr\<rparr>))"

definition Reset :: "TxContext \<Rightarrow> StateDB \<Rightarrow> EVM \<Rightarrow> EVM" where
  "Reset txCtx s evm = evm\<lparr>TxCtx := txCtx, sdb := s\<rparr>"

definition Cancel :: "EVM \<Rightarrow> EVM" where
  "Cancel evm = evm\<lparr>abort := True\<rparr>"

end
