(* ===== verification/GasBounds.thy ===== *)
theory GasBounds
  imports GasTable
begin

text \<open>
  The 64-bit arithmetic of the gas computation is exact: sums and products that report no overflow,
  the rounding to words, the size of a memory region, the fee for expanding the memory, and the gas
  that is passed on to a call.
\<close>

section \<open>Checked sums and products\<close>

lemma SafeAdd_exact: "\<not> snd (SafeAdd x y) \<Longrightarrow> unat (fst (SafeAdd x y)) = unat x + unat y"
  by (simp add: SafeAdd_def unat_word_ariths)

lemma SafeMul_exact: "\<not> snd (SafeMul x y) \<Longrightarrow> unat (fst (SafeMul x y)) = unat x * unat y"
  by (simp add: SafeMul_def unat_word_ariths)

lemma SafeAdd_pos: "\<not> snd (SafeAdd x y) \<Longrightarrow> x \<noteq> 0 \<or> y \<noteq> 0 \<Longrightarrow> fst (SafeAdd x y) \<noteq> 0"
  using SafeAdd_exact [of x y] by (metis add_is_0 unat_0 unat_eq_zero)

lemma unat_toWordSize: "unat (toWordSize sz) = (unat sz + 31) div 32"
proof (cases "sz > 18446744073709551615 - 31")
  case True
  then have "unat sz > 18446744073709551584" by (simp add: word_less_nat_alt)
  moreover have "unat sz < 18446744073709551616" using u64_bound [of sz] by simp
  ultimately have "(unat sz + 31) div 32 = 576460752303423488" by (intro div_nat_eqI) simp_all
  then show ?thesis using True by (simp add: toWordSize_def unat_word_ariths)
next
  case False
  then have "unat sz \<le> 18446744073709551584" by (simp add: word_less_nat_alt)
  then have "unat (sz + 31) = unat sz + 31" by (simp add: unat_word_ariths)
  then show ?thesis using False by (simp add: toWordSize_def unat_div)
qed

section \<open>The size of a memory region\<close>

text \<open>
  The memory that an instruction asks for is exact. For an offset and a length on the stack the
  size is zero when the length is zero, and otherwise offset plus length; an overflow is reported
  exactly when the length, or for a length other than zero the offset or the end of the region, does
  not fit in 64 bits.
\<close>

theorem calcMemSize64_exact:
  "snd (calcMemSize64 off len) = (2 ^ 64 \<le> unat len \<or> (len \<noteq> 0 \<and> 2 ^ 64 \<le> unat off + unat len)) \<and>
   (snd (calcMemSize64 off len) \<or>
    unat (fst (calcMemSize64 off len)) = (if len = 0 then 0 else unat off + unat len))"
proof (cases "IsUint64 len \<and> len \<noteq> 0 \<and> IsUint64 off")
  case True
  then have l: "unat (Uint64 len) = unat len" "unat (Uint64 off) = unat off" "unat len < 2 ^ 64" "unat off < 2 ^ 64"
    by (simp_all add: unat_Uint64 IsUint64_iff)
  have "Uint64 len \<noteq> 0" using l(1) True by (metis unat_0 unat_eq_zero)
  moreover have "Uint64 off + Uint64 len < Uint64 off \<longleftrightarrow> 2 ^ 64 \<le> unat off + unat len"
    using l by (auto simp: word_less_nat_alt unat_word_ariths mod_if)
  ultimately show ?thesis
    using True l by (auto simp: calcMemSize64_def calcMemSize64WithUint_def Uint64WithOverflow_def unat_word_ariths)
next
  case False
  have "unat len \<noteq> 0" if "len \<noteq> 0" using that by (metis unat_0 unat_eq_zero)
  moreover have "Uint64 len = 0 \<longleftrightarrow> len = 0" if "unat len < 2 ^ 64"
    using unat_Uint64 [of len] that by (metis IsUint64_iff unat_0 unat_eq_zero)
  ultimately show ?thesis
    using False by (auto simp: calcMemSize64_def calcMemSize64WithUint_def Uint64WithOverflow_def IsUint64_iff)
qed

section \<open>The fee for memory\<close>

definition memory_fee :: "nat \<Rightarrow> nat" where
  "memory_fee w = 3 * w + w * w div 512"

definition mem_ok :: "Memory \<Rightarrow> bool" where
  "mem_ok m \<longleftrightarrow> 32 dvd mem_Len m \<and> mem_Len m \<le> 0x1FFFFFFFE0 \<and>
     unat (lastGasCost m) = memory_fee (mem_Len m div 32)"

lemma mem_ok_New: "mem_ok NewMemory"
  by (simp add: mem_ok_def NewMemory_def mem_Len_def memory_fee_def)

lemma memory_fee_mono: "v \<le> w \<Longrightarrow> memory_fee v \<le> memory_fee w"
  unfolding memory_fee_def by (intro add_mono div_le_mono mult_le_mono) auto

lemma memory_fee_bound: "w < 2 ^ 32 \<Longrightarrow> memory_fee w < 2 ^ 56"
proof -
  assume w: "w < 2 ^ 32"
  then have "w * w \<le> (2 ^ 32 - 1) * (2 ^ 32 - 1)" by (intro mult_le_mono) auto
  then have "w * w div 512 \<le> (2 ^ 32 - 1) * (2 ^ 32 - 1) div 512" by (rule div_le_mono)
  then show ?thesis using w by (simp add: memory_fee_def)
qed

text \<open>The words of a size that the code accepts, and the fee it computes for them.\<close>

lemma fee_words:
  assumes "sz \<le> 0x1FFFFFFFE0"
  shows "unat (toWordSize sz * 32) = 32 * ((unat sz + 31) div 32)" "(unat sz + 31) div 32 < 2 ^ 32"
    "unat (toWordSize sz * MemoryGas + toWordSize sz * toWordSize sz div QuadCoeffDiv) =
       memory_fee ((unat sz + 31) div 32)"
proof -
  let ?w = "(unat sz + 31) div 32"
  have "unat sz \<le> 0x1FFFFFFFE0" using assms by (simp add: word_le_nat_alt)
  then have "?w \<le> (0x1FFFFFFFE0 + 31) div 32" by (intro div_le_mono) simp
  then have w: "?w \<le> 2 ^ 32 - 1" by simp
  then show "?w < 2 ^ 32" by simp
  have "?w * ?w \<le> (2 ^ 32 - 1) * (2 ^ 32 - 1)" by (rule mult_le_mono [OF w w])
  then have sq: "unat (toWordSize sz * toWordSize sz) = ?w * ?w"
    by (simp add: unat_word_ariths unat_toWordSize)
  have "?w * ?w div 512 \<le> (2 ^ 32 - 1) * (2 ^ 32 - 1) div 512" by (rule div_le_mono) fact
  then have "3 * ?w + ?w * ?w div 512 < 2 ^ 64" using w by simp
  moreover have "unat (toWordSize sz * MemoryGas) = 3 * ?w" using w by (simp add: unat_word_ariths unat_toWordSize)
  moreover have "unat (toWordSize sz * toWordSize sz div QuadCoeffDiv) = ?w * ?w div 512"
    unfolding unat_div sq by simp
  ultimately show "unat (toWordSize sz * MemoryGas + toWordSize sz * toWordSize sz div QuadCoeffDiv) = memory_fee ?w"
    unfolding unat_word_ariths memory_fee_def by simp
  show "unat (toWordSize sz * 32) = 32 * ?w" using w by (simp add: unat_word_ariths unat_toWordSize)
qed

lemma of64: "n < 2 ^ 64 \<Longrightarrow> unat (of_nat n :: u64) = n"
  by (simp add: unat_of_nat_small)

lemma unat_is_of_nat: "unat w = n \<Longrightarrow> w = of_nat n"
  by auto

lemma memoryGasCost_fee:
  assumes "mem_ok m"
  shows "memoryGasCost m sz =
     (if 0x1FFFFFFFE0 < sz then (Inl ErrGasUintOverflow, m)
      else let w = max ((unat sz + 31) div 32) (mem_Len m div 32)
           in (Inr (of_nat (memory_fee w - memory_fee (mem_Len m div 32))), m\<lparr>lastGasCost := of_nat (memory_fee w)\<rparr>))"
proof (cases "0x1FFFFFFFE0 < sz")
  case True
  then have "sz \<noteq> 0" by auto
  with True show ?thesis by (simp add: memoryGasCost_def)
next
  case False
  let ?w = "(unat sz + 31) div 32" and ?v = "mem_Len m div 32"
  note fw = fee_words [of sz]
  have l: "32 * ?v = mem_Len m" "mem_Len m < 2 ^ 64" using assms by (auto simp: mem_ok_def)
  have last: "lastGasCost m = of_nat (memory_fee ?v)" 
    by (rule unat_is_of_nat) (use assms in \<open>simp add: mem_ok_def\<close>)
  have cmp: "of_nat (mem_Len m) < toWordSize sz * 32 \<longleftrightarrow> ?v < ?w"
  proof -
    have "unat (toWordSize sz * 32) = 32 * ?w" using fw(1) False by (simp add: not_less)
    then show ?thesis unfolding word_less_nat_alt of64 [OF l(2)] using l(1) by linarith
  qed
  have zero: "sz = 0 \<Longrightarrow> ?w = 0" by simp
  show ?thesis
  proof (cases "?v < ?w")
    case True
    have "toWordSize sz * MemoryGas + toWordSize sz * toWordSize sz div QuadCoeffDiv = of_nat (memory_fee ?w)"
      by (rule unat_is_of_nat [OF fw(3)]) (use False in \<open>simp only: not_less\<close>)
    moreover have "of_nat (memory_fee ?w) - lastGasCost m = of_nat (memory_fee ?w - memory_fee ?v)"
      using last memory_fee_mono [of ?v ?w] True by (simp add: of_nat_diff)
    moreover have "sz \<noteq> 0" "max ?w ?v = ?w" using True zero by auto
    ultimately show ?thesis using False True cmp by (simp only: memoryGasCost_def Let_def if_True if_False)
  next
    case le: False
    then have "max ?w ?v = ?v" by simp
    moreover have "m\<lparr>lastGasCost := of_nat (memory_fee ?v)\<rparr> = m" using last by simp
    ultimately show ?thesis using False le cmp by (simp add: memoryGasCost_def Let_def)
  qed
qed

text \<open>The memory after the fee is paid and the memory resized to whole words.\<close>

lemma mem_ok_Resize:
  assumes "mem_ok m" "fst (memoryGasCost m sz) = Inr g" "32 dvd unat sz"
  shows "mem_ok (if sz > 0 then Resize sz (snd (memoryGasCost m sz)) else snd (memoryGasCost m sz))" "unat g < 2 ^ 56"
proof -
  let ?w = "max ((unat sz + 31) div 32) (mem_Len m div 32)" and ?v = "mem_Len m div 32"
  have sz: "\<not> 0x1FFFFFFFE0 < sz" using assms(1,2) by (auto simp: memoryGasCost_fee split: if_splits)
  then have g: "g = of_nat (memory_fee ?w - memory_fee ?v)" and m': "snd (memoryGasCost m sz) = m\<lparr>lastGasCost := of_nat (memory_fee ?w)\<rparr>"
    using assms(2) by (simp_all add: memoryGasCost_fee [OF assms(1)] Let_def)
  have l: "32 * ?v = mem_Len m" "mem_Len m \<le> 0x1FFFFFFFE0" using assms(1) by (auto simp: mem_ok_def)
  have s: "32 * ((unat sz + 31) div 32) = unat sz" using assms(3) by auto
  have wlt: "?w < 2 ^ 32" using fee_words(2) [of sz] sz l by auto
  note b = memory_fee_bound [OF wlt]
  have "memory_fee ?w - memory_fee ?v < 2 ^ 56" using b by simp
  then show "unat g < 2 ^ 56" unfolding g by (simp add: unat_of_nat_small)
  have f: "unat (of_nat (memory_fee ?w) :: u64) = memory_fee ?w" using b by (simp add: unat_of_nat_small)
  have len: "mem_Len (if sz > 0 then Resize sz (snd (memoryGasCost m sz)) else snd (memoryGasCost m sz)) = 32 * ?w"
  proof (cases "mem_Len m < unat sz")
    case True
    then have "of_nat (mem_Len m) < sz" "unat (sz - of_nat (mem_Len m)) = unat sz - mem_Len m"
      using l by (simp_all add: word_less_nat_alt unat_of_nat_small unat_sub word_le_nat_alt)
    moreover have "0 < sz" using True by (simp add: word_less_nat_alt)
    ultimately show ?thesis using True l(1) s by (auto simp: Resize_def mem_Len_def m' max_def)
  next
    case False
    then have "\<not> of_nat (mem_Len m) < sz" using l by (simp add: word_less_nat_alt unat_of_nat_small)
    then show ?thesis using False l(1) s by (auto simp: Resize_def mem_Len_def m' max_def)
  qed
  have "lastGasCost (if sz > 0 then Resize sz (snd (memoryGasCost m sz)) else snd (memoryGasCost m sz)) = of_nat (memory_fee ?w)"
    unfolding m' by (simp add: Resize_def)
  then show "mem_ok (if sz > 0 then Resize sz (snd (memoryGasCost m sz)) else snd (memoryGasCost m sz))"
    using f len wlt unfolding mem_ok_def by (simp del: unsigned_of_nat)
qed

text \<open>
  The fee for memory never wraps around. Let the memory have been paid for, in whole words.
  A request for more than \<^verbatim>\<open>0x1FFFFFFFE0\<close> bytes is refused. Any other request costs exactly the
  fee of the words that the memory then has less the fee of the words it had, where \<open>w\<close> words cost
  \<open>3 w\<close> plus the square of \<open>w\<close> divided by 512; the fees stay below 2 to the 56. After
  \<^verbatim>\<open>Resize\<close> the memory has just these words and is paid for again.
\<close>

theorem memoryGasCost_exact:
  assumes "mem_ok m" "32 dvd unat sz"
  shows "if 0x1FFFFFFFE0 < unat sz then fst (memoryGasCost m sz) = Inl ErrGasUintOverflow
     else fst (memoryGasCost m sz) =
            Inr (of_nat (memory_fee (max (unat sz div 32) (mem_Len m div 32)) - memory_fee (mem_Len m div 32))) \<and>
          memory_fee (max (unat sz div 32) (mem_Len m div 32)) < 2 ^ 56 \<and>
          mem_ok (if sz > 0 then Resize sz (snd (memoryGasCost m sz)) else snd (memoryGasCost m sz))"
proof (cases "0x1FFFFFFFE0 < unat sz")
  case True
  then show ?thesis by (simp add: memoryGasCost_fee [OF assms(1)] word_less_nat_alt)
next
  case False
  then have le: "\<not> 0x1FFFFFFFE0 < sz" by (simp add: word_less_nat_alt)
  have w: "(unat sz + 31) div 32 = unat sz div 32" using assms(2) by auto
  have f: "fst (memoryGasCost m sz) =
      Inr (of_nat (memory_fee (max (unat sz div 32) (mem_Len m div 32)) - memory_fee (mem_Len m div 32)))"
    using le by (simp add: memoryGasCost_fee [OF assms(1)] Let_def w)
  have "max (unat sz div 32) (mem_Len m div 32) < 2 ^ 32"
    using False assms(1) by (auto simp: mem_ok_def)
  then show ?thesis using False f memory_fee_bound mem_ok_Resize(1) [OF assms(1) f assms(2)] by simp
qed

theorem memoryGasCost_exact_witness:
  "fst (memoryGasCost NewMemory 64) = Inr 6 \<and>
   mem_ok (Resize 64 (snd (memoryGasCost NewMemory 64)))"
  using memoryGasCost_exact [OF mem_ok_New, of 64] by (simp add: memory_fee_def NewMemory_def mem_Len_def)

section \<open>The gas of a call\<close>

lemma callGas_150:
  "callGas True available base want =
     (let left = available - base - (available - base) div 64
      in Inr (if unat want \<le> unat left then Uint64 want else left))"
proof (cases "IsUint64 want")
  case True
  then show ?thesis using unat_Uint64 [of want] by (simp add: callGas_def Let_def word_less_nat_alt)
next
  case False
  then have "\<not> unat want \<le> unat (x :: u64)" for x using u64_bound [of x] by (simp add: IsUint64_iff)
  then show ?thesis using False by (simp add: callGas_def Let_def)
qed

lemma unat_63_64: "unat (x - x div 64 :: u64) = unat x - unat x div 64"
  by (simp add: unat_sub_if' unat_div)

lemma callGas_bound: "callGas True available base want = Inr g \<Longrightarrow> unat g \<le> 2 ^ 64 - 2 ^ 58"
proof -
  assume a: "callGas True available base want = Inr g"
  let ?x = "available - base"
  have "unat g \<le> unat (?x - ?x div 64)"
    using a unat_Uint64 [of want] u64_bound [of "?x - ?x div 64"]
    by (auto simp: callGas_150 Let_def IsUint64_iff split: if_splits)
  moreover have "unat ?x - unat ?x div 64 \<le> 2 ^ 64 - 2 ^ 58" using u64_bound [of ?x] by simp
  ultimately show ?thesis by (simp add: unat_63_64)
qed

text \<open>
  Since EIP-150 a call gets what its operand asks for, but never more than all but one 64th of
  the gas left after the price of the call itself, and it cannot fail for asking too much; before
  EIP-150 it gets exactly what it asks for, and asking for more than 64 bits is an error.
\<close>

theorem callGas_limit:
  assumes "base \<le> available"
  shows "callGas eip150 available base want =
    (let left = unat available - unat base; cap = left - left div 64 in
     if eip150 then Inr (of_nat (min cap (unat want)))
     else if unat want < 2 ^ 64 then Inr (of_nat (unat want)) else Inl ErrGasUintOverflow)"
proof -
  have s: "unat (available - base) = unat available - unat base" using assms by (simp add: unat_sub)
  have U: "Uint64 want = of_nat (unat want)"
    by (simp add: Uint64_def)
  have left: "of_nat (unat available - unat base - (unat available - unat base) div 64) =
      available - base - (available - base) div 64"
    by (rule unat_is_of_nat [symmetric]) (simp add: unat_63_64 s)
  have "unat (available - base - (available - base) div 64) =
      unat available - unat base - (unat available - unat base) div 64" by (simp add: unat_63_64 s)
  then show ?thesis
    using left by (cases eip150) (simp_all add: callGas_150 Let_def U min_def, simp add: callGas_def Let_def IsUint64_iff U)
qed

theorem callGas_limit_witness:
  "callGas True 6500 100 1000000 = Inr 6300 \<and> callGas False 6500 100 1000000 = Inr 1000000"
  using callGas_limit [of 100 6500 True 1000000] callGas_limit [of 100 6500 False 1000000] by simp

end
