(* ===== verification/Tables.thy ===== *)
theory Tables
  imports Evm
begin

text \<open>
  The instruction sets of all forks are sound: every opcode has an operation, its stack bounds are
  those its implementation needs, an operation that expands memory charges for it, one that calls
  another contract uses the gas function of that call, and every operation that does not end the run
  has a price.
\<close>

section \<open>What the implementations need\<close>

text \<open>How many operands an instruction needs on the stack, and how many it leaves in their place.\<close>

fun pops :: "executionFunc \<Rightarrow> nat" where
  "pops (Arith f) = (if f \<in> {OpNot, OpIszero} then 1 else if f \<in> {OpAddmod, OpMulmod} then 3 else 2)"
| "pops (Env f) = (if f \<in> {OpCallDataLoad, OpBlockhash} then 1 else 0)"
| "pops (Flow (OpPush n m)) = 0"
| "pops (Flow (OpDup n)) = n"
| "pops (Flow (OpSwap n)) = n + 1"
| "pops (Flow f) =
     (if f \<in> {OpCallDataCopy, OpReturnDataCopy, OpCodeCopy} then 3
      else if f \<in> {OpPop, OpMload, OpJump} then 1
      else if f \<in> {OpMstore, OpMstore8, OpJumpi, OpReturn, OpRevert} then 2 else 0)"
| "pops (Access (OpLog n)) = n + 2"
| "pops (Access f) =
     (if f = OpSelfBalance then 0 else if f = OpExtCodeCopy then 4
      else if f \<in> {OpSstore, OpKeccak256} then 2 else 1)"
| "pops (SubCall f) =
     (if f = OpCreate then 3 else if f = OpCreate2 then 4 else if f \<in> {OpCall, OpCallCode} then 7 else 6)"

fun pushes :: "executionFunc \<Rightarrow> nat" where
  "pushes (Arith f) = 1"
| "pushes (Env f) = 1"
| "pushes (Flow (OpPush n m)) = 1"
| "pushes (Flow (OpDup n)) = n + 1"
| "pushes (Flow (OpSwap n)) = n + 1"
| "pushes (Flow f) = (if f \<in> {OpMload, OpPush0, OpPush1} then 1 else 0)"
| "pushes (Access f) = (if f \<in> {OpExtCodeCopy, OpSstore, OpSelfdestruct} \<or> (\<exists>n. f = OpLog n) then 0 else 1)"
| "pushes (SubCall f) = 1"

text \<open>The instructions after which a run never goes on.\<close>

definition halts :: "executionFunc \<Rightarrow> bool" where
  "halts e \<longleftrightarrow> e \<in> {Flow OpStop, Flow OpReturn, Flow OpRevert, Flow OpUndefined, Access OpSelfdestruct}"

text \<open>Gas functions: which charge for memory, which always ask for something, which are for calls.\<close>

definition plain_call :: "gasFunc \<Rightarrow> bool" where
  "plain_call g \<longleftrightarrow> g \<in> {GasCall, GasCallCode, GasDelegateCall, GasStaticCall}"

fun charges_memory :: "gasFunc \<Rightarrow> bool" where
  "charges_memory (GasCallVariantEIP2929 g) = charges_memory g"
| "charges_memory (GasSStore2929 r) = False"
| "charges_memory (GasSelfdestructEIP b) = False"
| "charges_memory g = (g \<notin> {GasSStore, GasSStoreEIP2200, GasExpFrontier, GasExpEIP158, GasSelfdestruct,
      GasSLoadEIP2929, GasEip2929AccountCheck})"

fun pays :: "gasFunc \<Rightarrow> bool" where
  "pays (GasSStore2929 r) = True"
| "pays (GasLog n) = True"
| "pays g = (g \<in> {GasSStore, GasSStoreEIP2200, GasExpFrontier, GasExpEIP158, GasSLoadEIP2929})"

fun call_gas :: "gasFunc \<Rightarrow> bool" where
  "call_gas (GasCallVariantEIP2929 g) = plain_call g"
| "call_gas g = plain_call g"

fun value_gas :: "gasFunc \<Rightarrow> bool" where
  "value_gas (GasCallVariantEIP2929 g) = value_gas g"
| "value_gas g = (g = GasCall \<or> g = GasCallCode)"

section \<open>Sound operations\<close>

definition gas_sound :: "bool \<Rightarrow> gasFunc \<Rightarrow> bool" where
  "gas_sound eip150 g \<longleftrightarrow> (\<forall>g'. g = GasCallVariantEIP2929 g' \<longrightarrow> plain_call g' \<and> eip150)"

definition operation_ok :: "bool \<Rightarrow> operation \<Rightarrow> bool" where
  "operation_ok eip150 o1 \<longleftrightarrow>
     minStack_of o1 = int (pops (execute o1)) \<and>
     maxStack_of o1 = int StackLimit + int (pops (execute o1)) - int (pushes (execute o1)) \<and>
     (memorySize o1 \<noteq> None \<longrightarrow> (\<exists>g. dynamicGas o1 = Some g \<and> charges_memory g)) \<and>
     (\<forall>g. dynamicGas o1 = Some g \<longrightarrow> gas_sound eip150 g) \<and>
     (halts (execute o1) \<or> constantGas o1 \<noteq> 0 \<or> (\<exists>g. dynamicGas o1 = Some g \<and> pays g)) \<and>
     (\<forall>f. execute o1 = SubCall f \<longrightarrow> constantGas o1 \<noteq> 0 \<and>
        (f \<notin> {OpCreate, OpCreate2} \<longrightarrow>
           (\<exists>g. dynamicGas o1 = Some g \<and> call_gas g \<and> (f \<in> {OpCall, OpCallCode} \<longrightarrow> value_gas g))))"

text \<open>The operations whose gas later forks change.\<close>

definition amended :: "(byte \<times> executionFunc \<times> memorySizeFunc option) list" where
  "amended =
     [(OP_SSTORE, Access OpSstore, None), (OP_SLOAD, Access OpSload, None), (OP_BALANCE, Access OpBalance, None),
      (OP_EXTCODESIZE, Access OpExtCodeSize, None), (OP_EXTCODECOPY, Access OpExtCodeCopy, Some MemoryExtCodeCopy),
      (OP_EXTCODEHASH, Access OpExtCodeHash, None), (OP_EXP, Arith OpExp, None),
      (OP_SELFDESTRUCT, Access OpSelfdestruct, None), (OP_CALL, SubCall OpCall, Some MemoryCall),
      (OP_CALLCODE, SubCall OpCallCode, Some MemoryCall), (OP_DELEGATECALL, SubCall OpDelegateCall, Some MemoryDelegateCall),
      (OP_STATICCALL, SubCall OpStaticCall, Some MemoryStaticCall)]"

definition entry_ok :: "bool \<Rightarrow> byte \<Rightarrow> operation \<Rightarrow> bool" where
  "entry_ok eip150 b o1 \<longleftrightarrow> operation_ok eip150 o1 \<and>
     (case map_of amended b of None \<Rightarrow> True
      | Some em \<Rightarrow> (execute o1, memorySize o1) \<in> {(Flow OpUndefined, None), em})"

definition table_ok :: "bool \<Rightarrow> JumpTable \<Rightarrow> bool" where
  "table_ok eip150 jt \<longleftrightarrow> (\<forall>b. \<exists>o1. jt b = Some o1 \<and> entry_ok eip150 b o1)"

lemma validate_ok: "table_ok e jt \<Longrightarrow> validate jt = Ok jt"
proof -
  assume t: "table_ok e jt"
  have "case jt b of None \<Rightarrow> False | Some o1 \<Rightarrow> \<not> (memorySize o1 \<noteq> None \<and> dynamicGas o1 = None)" for b
  proof -
    obtain o1 where "jt b = Some o1" "entry_ok e b o1" using t by (auto simp: table_ok_def)
    then show ?thesis by (auto simp: entry_ok_def operation_ok_def)
  qed
  then show ?thesis by (simp add: validate_def list_all_iff)
qed

lemma frontier_ok:
  "list_all (\<lambda>(b, o1). entry_ok e b o1) frontier_ops_1" "list_all (\<lambda>(b, o1). entry_ok e b o1) frontier_ops_2"
  "list_all (\<lambda>(b, o1). entry_ok e b o1) frontier_ops_3" "list_all (\<lambda>(b, o1). entry_ok e b o1) frontier_ops_4"
  "list_all (\<lambda>(b, o1). entry_ok e b o1) frontier_ops_5" "list_all (\<lambda>(b, o1). entry_ok e b o1) frontier_ops_6"
  by (simp_all add: frontier_ops_1_def frontier_ops_2_def frontier_ops_3_def frontier_ops_4_def frontier_ops_5_def
      frontier_ops_6_def entry_ok_def operation_ok_def amended_def halts_def gas_sound_def plain_call_def
      minStack_def maxStack_def minDupStack_def maxDupStack_def minSwapStack_def maxSwapStack_def)

lemma undefined_ok: "entry_ok e b undefined_op"
  by (simp add: undefined_op_def entry_ok_def operation_ok_def halts_def maxStack_def split: option.split)

lemma newFrontier_ok: "\<exists>jt. newFrontierInstructionSet = Ok jt \<and> table_ok e jt"
proof -
  let ?jt = "\<lambda>b. case map_of frontier_ops b of Some o1 \<Rightarrow> Some o1 | None \<Rightarrow> Some undefined_op"
  have "entry_ok e b o1" if "map_of frontier_ops b = Some o1" for b o1
    using map_of_SomeD [OF that] frontier_ok [of e] by (auto simp: frontier_ops_def list_all_iff)
  then have "table_ok e ?jt" using undefined_ok by (auto simp: table_ok_def split: option.split)
  with validate_ok [OF this] show ?thesis by (auto simp: newFrontierInstructionSet_def)
qed

section \<open>Changes to a table\<close>

lemma table_upd: "table_ok e jt \<Longrightarrow> entry_ok e b o1 \<Longrightarrow> table_ok e (jt(b \<mapsto> o1))"
  by (simp add: table_ok_def)

lemma table_amend:
  "table_ok e jt \<Longrightarrow> (\<And>o1. entry_ok e b o1 \<Longrightarrow> entry_ok e b (f o1)) \<Longrightarrow> table_ok e (amend b f jt)"
  by (fastforce simp: table_ok_def amend_def)

lemma set_gas_ok: "g \<noteq> 0 \<Longrightarrow> entry_ok e b o1 \<Longrightarrow> entry_ok e b (set_gas g o1)"
  by (cases "map_of amended b") (simp_all add: entry_ok_def operation_ok_def set_gas_def)

lemma set_both_ok:
  assumes "entry_ok e b o1" "map_of amended b = Some (ex, m)" "gas_sound e g" "m \<noteq> None \<longrightarrow> charges_memory g"
    "halts ex \<or> c \<noteq> 0 \<or> pays g"
    "\<forall>f. ex = SubCall f \<longrightarrow> c \<noteq> 0 \<and> call_gas g \<and> (f \<in> {OpCall, OpCallCode} \<longrightarrow> value_gas g)"
  shows "entry_ok e b (set_both c g o1)"
proof -
  from assms(1,2) consider "execute o1 = Flow OpUndefined" "memorySize o1 = None" | "execute o1 = ex" "memorySize o1 = m"
    by (auto simp: entry_ok_def)
  then show ?thesis
    by cases (use assms in \<open>auto simp: entry_ok_def operation_ok_def set_both_def halts_def\<close>)
qed

lemma set_dynamic_both: "set_dynamic g o1 = set_both (constantGas o1) g o1"
  by (simp add: set_dynamic_def set_both_def)

lemma set_dynamic_ok:
  assumes "entry_ok e b o1" "map_of amended b = Some (ex, m)" "gas_sound e g" "m \<noteq> None \<longrightarrow> charges_memory g"
    "halts ex \<or> pays g" "\<forall>f. ex \<noteq> SubCall f"
  shows "entry_ok e b (set_dynamic g o1)"
  unfolding set_dynamic_both by (rule set_both_ok) (use assms in auto)

lemma amended_at [simp]:
  "map_of amended OP_SSTORE = Some (Access OpSstore, None)" "map_of amended OP_SLOAD = Some (Access OpSload, None)"
  "map_of amended OP_BALANCE = Some (Access OpBalance, None)"
  "map_of amended OP_EXTCODESIZE = Some (Access OpExtCodeSize, None)"
  "map_of amended OP_EXTCODECOPY = Some (Access OpExtCodeCopy, Some MemoryExtCodeCopy)"
  "map_of amended OP_EXTCODEHASH = Some (Access OpExtCodeHash, None)"
  "map_of amended OP_EXP = Some (Arith OpExp, None)"
  "map_of amended OP_SELFDESTRUCT = Some (Access OpSelfdestruct, None)"
  "map_of amended OP_CALL = Some (SubCall OpCall, Some MemoryCall)"
  "map_of amended OP_CALLCODE = Some (SubCall OpCallCode, Some MemoryCall)"
  "map_of amended OP_DELEGATECALL = Some (SubCall OpDelegateCall, Some MemoryDelegateCall)"
  "map_of amended OP_STATICCALL = Some (SubCall OpStaticCall, Some MemoryStaticCall)"
  by (simp_all add: amended_def)

lemma amend_dynamic_ok:
  "entry_ok e OP_EXP o1 \<Longrightarrow> entry_ok e OP_EXP (set_dynamic GasExpEIP158 o1)"
  "entry_ok e OP_SSTORE o1 \<Longrightarrow> entry_ok e OP_SSTORE (set_dynamic GasSStoreEIP2200 o1)"
  "entry_ok e OP_SSTORE o1 \<Longrightarrow> entry_ok e OP_SSTORE (set_dynamic (GasSStore2929 r) o1)"
  "entry_ok e OP_SELFDESTRUCT o1 \<Longrightarrow> entry_ok e OP_SELFDESTRUCT (set_dynamic (GasSelfdestructEIP b) o1)"
  by (erule set_dynamic_ok, rule amended_at; simp add: gas_sound_def halts_def)+

lemma amend_2929_ok:
  "entry_ok e OP_SLOAD o1 \<Longrightarrow> entry_ok e OP_SLOAD (set_both 0 GasSLoadEIP2929 o1)"
  "g \<noteq> 0 \<Longrightarrow> entry_ok e OP_EXTCODECOPY o1 \<Longrightarrow> entry_ok e OP_EXTCODECOPY (set_both g GasExtCodeCopyEIP2929 o1)"
  "g \<noteq> 0 \<Longrightarrow> entry_ok e OP_EXTCODESIZE o1 \<Longrightarrow> entry_ok e OP_EXTCODESIZE (set_both g GasEip2929AccountCheck o1)"
  "g \<noteq> 0 \<Longrightarrow> entry_ok e OP_EXTCODEHASH o1 \<Longrightarrow> entry_ok e OP_EXTCODEHASH (set_both g GasEip2929AccountCheck o1)"
  "g \<noteq> 0 \<Longrightarrow> entry_ok e OP_BALANCE o1 \<Longrightarrow> entry_ok e OP_BALANCE (set_both g GasEip2929AccountCheck o1)"
  "g \<noteq> 0 \<Longrightarrow> entry_ok e OP_SELFDESTRUCT o1 \<Longrightarrow> entry_ok e OP_SELFDESTRUCT (set_both g (GasSelfdestructEIP b) o1)"
  by (erule set_both_ok, rule amended_at; simp add: gas_sound_def halts_def)+

lemma amend_call_ok:
  "g \<noteq> 0 \<Longrightarrow> entry_ok True OP_CALL o1 \<Longrightarrow> entry_ok True OP_CALL (set_both g (GasCallVariantEIP2929 GasCall) o1)"
  "g \<noteq> 0 \<Longrightarrow> entry_ok True OP_CALLCODE o1 \<Longrightarrow> entry_ok True OP_CALLCODE (set_both g (GasCallVariantEIP2929 GasCallCode) o1)"
  "g \<noteq> 0 \<Longrightarrow> entry_ok True OP_STATICCALL o1 \<Longrightarrow> entry_ok True OP_STATICCALL (set_both g (GasCallVariantEIP2929 GasStaticCall) o1)"
  "g \<noteq> 0 \<Longrightarrow> entry_ok True OP_DELEGATECALL o1 \<Longrightarrow> entry_ok True OP_DELEGATECALL (set_both g (GasCallVariantEIP2929 GasDelegateCall) o1)"
  by (erule set_both_ok, rule amended_at; simp add: gas_sound_def halts_def plain_call_def)+

lemmas entry_defs = entry_ok_def operation_ok_def amended_def halts_def gas_sound_def plain_call_def
  minStack_def maxStack_def

lemmas table_rules = table_upd table_amend set_gas_ok amend_dynamic_ok amend_2929_ok amend_call_ok

lemma eips_ok:
  "table_ok e jt \<Longrightarrow> table_ok e (enable1344 jt)" "table_ok e jt \<Longrightarrow> table_ok e (enable1884 jt)"
  "table_ok e jt \<Longrightarrow> table_ok e (enable2200 jt)" "table_ok e jt \<Longrightarrow> table_ok e (enable3198 jt)"
  "table_ok e jt \<Longrightarrow> table_ok e (enable3529 jt)" "table_ok e jt \<Longrightarrow> table_ok e (enable3855 jt)"
  unfolding enable1344_def enable1884_def enable2200_def enable3198_def enable3529_def enable3855_def gasSStoreEIP3529_def
  by (intro table_rules; simp add: entry_defs)+

lemma enable2929_ok: "table_ok True jt \<Longrightarrow> table_ok True (enable2929 jt)"
  unfolding enable2929_def gasSStoreEIP2929_def by (intro table_rules; simp)

lemma derived_ok:
  assumes "\<exists>jt. base = Ok jt \<and> table_ok e jt" "\<And>jt. table_ok e jt \<Longrightarrow> table_ok e (f jt)"
  shows "\<exists>jt. rbind base (\<lambda>s. validate (f s)) = Ok jt \<and> table_ok e jt"
  using assms validate_ok by fastforce

lemma newHomestead_ok: "\<exists>jt. newHomesteadInstructionSet = Ok jt \<and> table_ok e jt"
  unfolding newHomesteadInstructionSet_def
  by (rule derived_ok [OF newFrontier_ok]) (intro table_upd; simp add: entry_defs)

lemma newTangerineWhistle_ok: "\<exists>jt. newTangerineWhistleInstructionSet = Ok jt \<and> table_ok e jt"
  unfolding newTangerineWhistleInstructionSet_def
  by (rule derived_ok [OF newHomestead_ok]) (intro table_rules; simp)

lemma newSpuriousDragon_ok: "\<exists>jt. newSpuriousDragonInstructionSet = Ok jt \<and> table_ok e jt"
  unfolding newSpuriousDragonInstructionSet_def
  by (rule derived_ok [OF newTangerineWhistle_ok]) (intro table_rules; simp)

lemma newByzantium_ok: "\<exists>jt. newByzantiumInstructionSet = Ok jt \<and> table_ok e jt"
  unfolding newByzantiumInstructionSet_def
  by (rule derived_ok [OF newSpuriousDragon_ok]) (intro table_upd; simp add: entry_defs)

lemma newConstantinople_ok: "\<exists>jt. newConstantinopleInstructionSet = Ok jt \<and> table_ok e jt"
  unfolding newConstantinopleInstructionSet_def
  by (rule derived_ok [OF newByzantium_ok]) (intro table_upd; simp add: entry_defs)

lemma newIstanbul_ok: "\<exists>jt. newIstanbulInstructionSet = Ok jt \<and> table_ok e jt"
  unfolding newIstanbulInstructionSet_def
  by (rule derived_ok [OF newConstantinople_ok]) (intro eips_ok; simp)

lemma newBerlin_ok: "\<exists>jt. newBerlinInstructionSet = Ok jt \<and> table_ok True jt"
  unfolding newBerlinInstructionSet_def by (rule derived_ok [OF newIstanbul_ok enable2929_ok])

lemma newLondon_ok: "\<exists>jt. newLondonInstructionSet = Ok jt \<and> table_ok True jt"
  unfolding newLondonInstructionSet_def by (rule derived_ok [OF newBerlin_ok]) (intro eips_ok; simp)

lemma newMerge_ok: "\<exists>jt. newMergeInstructionSet = Ok jt \<and> table_ok True jt"
  unfolding newMergeInstructionSet_def
  by (rule derived_ok [OF newLondon_ok]) (intro table_upd; simp add: entry_defs)

text \<open>The rules of a later fork include EIP-150, as they do for an ordered configuration.\<close>

definition rules_ok :: "Rules \<Rightarrow> bool" where
  "rules_ok r \<longleftrightarrow> (rIsBerlin r \<or> rIsLondon r \<or> rIsMerge r \<longrightarrow> rIsEIP150 r)"

lemma instruction_set_table: "rules_ok r \<Longrightarrow> \<exists>jt. instruction_set r = Ok jt \<and> table_ok (rIsEIP150 r) jt"
  using newMerge_ok newLondon_ok newBerlin_ok newIstanbul_ok newConstantinople_ok newByzantium_ok
    newSpuriousDragon_ok newTangerineWhistle_ok newHomestead_ok newFrontier_ok
  by (simp add: instruction_set_def rules_ok_def)

end
