(* ===== verification/Effects.thy ===== *)
theory Effects
  imports Revert EvmTypes
begin

text \<open>
  What the virtual machine may do to the state database. Between two states of a run,
  \<^verbatim>\<open>evolves\<close> holds, so that the run can be reverted; in a run that may only read,
  \<^verbatim>\<open>quiet\<close> holds as well: accounts stay as they are, except that an absent account may
  become an empty one, and no logs are added. Both are collected in \<^verbatim>\<open>db_step\<close>, with one
  rule for each operation of the state database.
\<close>

section \<open>Views after an operation\<close>

lemma live_view_acc:
  "live_view s a = (case acc_view s a of None \<Rightarrow> None | Some v \<Rightarrow> if v_deleted v then None else Some v)"
  by (simp add: live_view_def live_def acc_view_def obj_view_def split: option.split)

lemma live_view_frame:
  "same_env t s \<Longrightarrow> stateObjects t = stateObjects s \<Longrightarrow> snapDestructs t = snapDestructs s \<Longrightarrow>
   live_view t = live_view s"
  using acc_view_frame [of t s] by (simp add: live_view_acc fun_eq_iff)

lemma read_eqv:
  assumes "sdb_ok s"
  shows "eqv (snd (Exist a s)) s" "eqv (snd (Empty a s)) s" "eqv (snd (GetBalance a s)) s"
    "eqv (snd (GetNonce a s)) s" "eqv (snd (GetCodeHash a s)) s" "eqv (snd (HasSuicided a s)) s"
    "eqv (snd (GetCode a s)) s" "eqv (snd (GetCodeSize a s)) s" "eqv (snd (GetState a k s)) s"
    "eqv (snd (GetCommittedState a k s)) s"
proof -
  obtain r s1 where g: "getStateObject a s = (r, s1)" by (cases "getStateObject a s")
  note e = getStateObject_held(3) [OF assms g]
  show "eqv (snd (Exist a s)) s" "eqv (snd (Empty a s)) s" "eqv (snd (GetBalance a s)) s"
    "eqv (snd (GetNonce a s)) s" "eqv (snd (GetCodeHash a s)) s" "eqv (snd (HasSuicided a s)) s"
    using e g by (simp_all add: Exist_def Empty_def GetBalance_def GetNonce_def GetCodeHash_def HasSuicided_def)
  note r = read_evolves(2) [OF assms]
  show "eqv (snd (GetCode a s)) s"
    using r [where f = GetCode, OF _ GetCode_def same_obj_Code, of a "fst (GetCode a s)"] by simp
  show "eqv (snd (GetCodeSize a s)) s"
    using r [where f = GetCodeSize and h = "\<lambda>n. n", OF _ GetCodeSize_def same_obj_CodeSize, of a "fst (GetCodeSize a s)"] by simp
  show "eqv (snd (GetState a k s)) s"
    using r [where f = "\<lambda>a. GetState a k" and h = "\<lambda>n. n", OF _ GetState_def same_obj_GetState, of a "fst (GetState a k s)"] by simp
  show "eqv (snd (GetCommittedState a k s)) s"
    using r [where f = "\<lambda>a. GetCommittedState a k" and h = "\<lambda>n. n", OF _ GetCommittedState_def same_obj_GetCommittedState, of a "fst (GetCommittedState a k s)"] by simp
qed

text \<open>An account that \<^verbatim>\<open>createObject\<close> has just put into the state.\<close>

definition blank :: "StateDB \<Rightarrow> obj_view \<Rightarrow> bool" where
  "blank s v \<longleftrightarrow> v_nonce v = 0 \<and> v_balance v = 0 \<and> v_codehash v = Some (emptyCodeHash s) \<and> v_code v = [] \<and>
     \<not> v_suicided v \<and> \<not> v_deleted v"

lemma blank_newObject:
  assumes "same_env s s0"
  shows "blank s0 (obj_view s (newObject s0 a emptyAccount))"
proof -
  have "emptyCodeHash s = emptyCodeHash s0" using assms by (simp add: emptyCodeHash_def same_env_def)
  then show ?thesis
    by (simp add: blank_def obj_view_def newObject_def emptyAccount_def code_bytes_def so_Code_def)
qed

lemma acc_view_marked:
  assumes "state_wf s" "\<And>p. prev = Some p \<Longrightarrow> obj_wf s a p" "b \<noteq> a"
  shows "acc_view (marked prev s) b = acc_view s b"
proof (cases prev)
  case (Some p)
  then show ?thesis
    using acc_view_destructs [OF assms(1) assms(2) [OF Some] _ assms(3)] by (simp add: marked_def split: option.split)
qed (simp add: marked_def split: option.split)

lemma createObject_view:
  assumes "sdb_ok s" "createObject a s = (obj, p, s')"
  shows "\<exists>v. acc_view s' = (acc_view s)(a \<mapsto> v) \<and> blank s v" "obj = newObject s a emptyAccount"
    "\<forall>h. logs_of h s' = logs_of h s" "same_env s' s" "accList s' = accList s"
    "p = live s a"
proof -
  obtain prev s1 where g: "getDeletedStateObject a s = (prev, s1)" by (cases "getDeletedStateObject a s")
  note d = getDeletedStateObject_spec [OF sdb_ok_wf [OF assms(1)] g]
  let ?m = "journal_append (creation a prev s1) (marked prev s1)" and ?n = "newObject s a emptyAccount"
  have s': "s' = setStateObject ?n ?m" and obj: "obj = ?n"
    and p: "p = (case prev of Some q \<Rightarrow> (if \<not> deleted q then Some q else None) | None \<Rightarrow> None)"
    using assms(2) createObject_eq [OF g] by auto
  show "obj = ?n" by (rule obj)
  show "p = live s a" using p d(1) by (simp add: live_def split: option.split)
  have env1: "same_env s1 s" using d(2) by (simp add: eqv_def)
  have envm: "same_env ?m s" by (rule same_env_trans [OF same_env_trans [OF journal_append_fields(1) marked_fields(1)] env1])
  show "same_env s' s" unfolding s' by (rule same_env_trans [OF same_env_set envm])
  have w1: "state_wf s1" using eqv_wf(1) [OF d(2)] .
  have pw: "prev = Some q \<Longrightarrow> obj_wf s1 a q" for q using d(4) state_wf_obj [OF w1] by blast
  have m: "acc_view ?m = acc_view (marked prev s1)" by (rule acc_view_frame) simp_all
  have mb: "acc_view ?m b = acc_view s b" if "b \<noteq> a" for b
  proof -
    have "acc_view (marked prev s1) b = acc_view s1 b" using acc_view_marked [OF w1 pw that] .
    then show ?thesis using m d(2) by (simp add: eqv_def)
  qed
  have "acc_view s' = (acc_view s)(a \<mapsto> obj_view ?m ?n)"
    unfolding s' acc_view_set using mb by (auto simp: fun_eq_iff)
  then show "\<exists>v. acc_view s' = (acc_view s)(a \<mapsto> v) \<and> blank s v"
    using blank_newObject [OF envm, of a] by blast
  show "\<forall>h. logs_of h s' = logs_of h s" using d(2) by (simp add: s' eqv_def logs_of_def)
  show "accList s' = accList s" using d(2) by (simp add: s' eqv_def)
qed

section \<open>Runs that may only read\<close>

definition quiet :: "StateDB \<Rightarrow> StateDB \<Rightarrow> bool" where
  "quiet s s' \<longleftrightarrow>
     (\<forall>a v. live_view s a = Some v \<longrightarrow> live_view s' a = Some v) \<and>
     (\<forall>a v. live_view s a = None \<longrightarrow> live_view s' a = Some v \<longrightarrow> blank s v) \<and>
     (\<forall>h. logs_of h s' = logs_of h s) \<and> same_env s s'"

lemma quiet_refl: "quiet s s"
  by (simp add: quiet_def)

lemma blank_env: "same_env s t \<Longrightarrow> blank s = blank t"
  by (simp add: fun_eq_iff blank_def emptyCodeHash_def same_env_def)

lemma quiet_trans:
  assumes "quiet s t" "quiet t u"
  shows "quiet s u"
proof -
  have env: "same_env s t" "same_env s u" using assms same_env_trans by (auto simp: quiet_def)
  have b: "blank s = blank t" by (rule blank_env [OF env(1)])
  have "blank s v" if "live_view s a = None" "live_view u a = Some v" for a v
  proof (cases "live_view t a")
    case None
    then show ?thesis using assms(2) that(2) b by (simp add: quiet_def)
  next
    case (Some w)
    then have "live_view u a = Some w" using assms(2) by (simp add: quiet_def)
    then show ?thesis using Some assms(1) that by (simp add: quiet_def)
  qed
  then show ?thesis using assms env(2) by (simp add: quiet_def)
qed

lemma quiet_same:
  "live_view s' = live_view s \<Longrightarrow> (\<forall>h. logs_of h s' = logs_of h s) \<Longrightarrow> same_env s' s \<Longrightarrow> quiet s s'"
  by (simp add: quiet_def same_env_sym)

lemma quiet_eqv: "eqv s' s \<Longrightarrow> quiet s s'"
  by (rule quiet_same) (auto simp: fun_eq_iff live_view_eqv eqv_def)

lemma quiet_frame:
  "same_env s' s \<Longrightarrow> stateObjects s' = stateObjects s \<Longrightarrow> snapDestructs s' = snapDestructs s \<Longrightarrow> logs s' = logs s \<Longrightarrow>
   quiet s s'"
  by (rule quiet_same [OF live_view_frame]) (simp_all add: logs_of_def)

lemma quiet_createObject:
  assumes "sdb_ok s" "createObject a s = (obj, p, s')" "live_view s a = None"
  shows "quiet s s'"
proof -
  obtain v where v: "acc_view s' = (acc_view s)(a \<mapsto> v)" "blank s v" using createObject_view(1) [OF assms(1,2)] by blast
  have "live_view s' = (live_view s)(a \<mapsto> v)"
    using v(2) by (auto simp: fun_eq_iff live_view_acc v(1) blank_def)
  then show ?thesis
    using assms(3) v(2) createObject_view(3,4) [OF assms(1,2)] by (auto simp: quiet_def same_env_sym)
qed

lemma live_view_None: "sdb_ok s \<Longrightarrow> live_view s a = None \<longleftrightarrow> fst (getStateObject a s) = None"
  using getStateObject_spec(1) [OF sdb_ok_wf, of s a "fst (getStateObject a s)" "snd (getStateObject a s)"]
  by (simp add: live_view_def)

lemma quiet_GetOrNew:
  assumes "sdb_ok s" "GetOrNewStateObject a s = (obj, s')"
  shows "quiet s s'"
proof -
  obtain r s1 where g: "getStateObject a s = (r, s1)" by (cases "getStateObject a s")
  note G = getStateObject_held [OF assms(1) g]
  show ?thesis
  proof (cases r)
    case None
    then obtain p where c: "createObject a s1 = (obj, p, s')"
      using assms(2) g by (auto simp: GetOrNewStateObject_def split: prod.splits)
    have "live_view s1 a = None"
      using live_view_None [OF assms(1), of a] g None live_view_eqv [OF G(3)] by simp
    then show ?thesis using quiet_trans [OF quiet_eqv [OF G(3)] quiet_createObject [OF G(2) c]] by simp
  next
    case (Some o1)
    then show ?thesis using assms(2) g quiet_eqv [OF G(3)] by (simp add: GetOrNewStateObject_def)
  qed
qed

lemma quiet_append: "quiet s (journal_append e s)"
  by (rule quiet_frame) simp_all

lemma quiet_touch: "quiet s (touch obj s)"
proof -
  let ?t = "journal_append (touchChange (so_address obj)) s"
  have 1: "quiet s ?t" by (rule quiet_append)
  have "quiet ?t (journal_dirty (so_address obj) ?t)"
    by (rule quiet_frame) (simp_all add: journal_dirty_def same_env_def)
  from quiet_trans [OF 1 this] 1 show ?thesis by (auto simp only: touch_def Let_def split: if_split)
qed

lemma quiet_AddBalance_0: "sdb_ok s \<Longrightarrow> quiet s (AddBalance a 0 s)"
proof -
  assume ok: "sdb_ok s"
  obtain obj s1 where g: "GetOrNewStateObject a s = (obj, s1)" by (cases "GetOrNewStateObject a s")
  have "quiet s1 (so_AddBalance obj 0 s1)" using quiet_touch quiet_refl by (simp add: so_AddBalance_def)
  then show ?thesis using quiet_trans [OF quiet_GetOrNew [OF ok g]] g by (simp add: AddBalance_def)
qed

lemma quiet_SubBalance_0: "sdb_ok s \<Longrightarrow> quiet s (SubBalance a 0 s)"
  using quiet_GetOrNew by (auto simp: SubBalance_def so_SubBalance_def split: prod.split)

lemma quiet_CreateAccount:
  assumes "sdb_ok s" "live_view s a = None"
  shows "quiet s (CreateAccount a s)"
proof -
  obtain obj p s' where c: "createObject a s = (obj, p, s')" by (cases "createObject a s")
  have "p = None" using createObject_view(6) [OF assms(1) c] assms(2) by (simp add: live_view_def)
  then show ?thesis using quiet_createObject [OF assms(1) c assms(2)] c by (simp add: CreateAccount_def)
qed

section \<open>Steps of the state database\<close>

definition db_step :: "bool \<Rightarrow> StateDB \<Rightarrow> StateDB \<Rightarrow> bool" where
  "db_step ro s s' \<longleftrightarrow> (sdb_ok s \<longrightarrow> evolves s s' \<and> (ro \<longrightarrow> quiet s s'))"

named_theorems db_intros \<open>one rule for each operation: it continues a step\<close>

lemma db_step_refl [simp, db_intros]: "db_step ro s s"
  by (simp add: db_step_def evolves_refl quiet_refl)

lemma db_step_ok: "db_step ro s t \<Longrightarrow> sdb_ok s \<Longrightarrow> sdb_ok t"
  using evolves_ok(2) by (auto simp: db_step_def)

lemma db_step_then:
  assumes "db_step ro s t" "sdb_ok t \<Longrightarrow> evolves t u" "sdb_ok t \<Longrightarrow> ro \<Longrightarrow> quiet t u"
  shows "db_step ro s u"
proof -
  have "evolves s u \<and> (ro \<longrightarrow> quiet s u)" if ok: "sdb_ok s"
  proof -
    have t: "evolves s t" "ro \<longrightarrow> quiet s t" using assms(1) ok by (simp_all add: db_step_def)
    note okt = evolves_ok(2) [OF t(1)]
    show ?thesis using evolves_trans [OF t(1) assms(2) [OF okt]] t(2) assms(3) [OF okt] quiet_trans by blast
  qed
  then show ?thesis by (simp add: db_step_def)
qed

lemma db_step_trans: "db_step ro s t \<Longrightarrow> db_step ro t u \<Longrightarrow> db_step ro s u"
  by (erule db_step_then) (simp_all add: db_step_def)

lemma db_step_weaken: "db_step ro s t \<Longrightarrow> (ro' \<Longrightarrow> ro) \<Longrightarrow> db_step ro' s t"
  by (auto simp: db_step_def)

lemma db_step_read:
  assumes "db_step ro s t" "sdb_ok t \<Longrightarrow> evolves t u" "sdb_ok t \<Longrightarrow> eqv u t"
  shows "db_step ro s u"
  using db_step_then [OF assms(1,2)] quiet_eqv [OF assms(3)] by blast

lemma db_step_reads [db_intros]:
  assumes "db_step ro s t"
  shows "db_step ro s (snd (Exist a t))"
    "db_step ro s (snd (Empty a t))"
    "db_step ro s (snd (GetBalance a t))"
    "db_step ro s (snd (GetNonce a t))"
    "db_step ro s (snd (GetCodeHash a t))"
    "db_step ro s (snd (HasSuicided a t))"
    "db_step ro s (snd (GetCode a t))"
    "db_step ro s (snd (GetCodeSize a t))"
    "db_step ro s (snd (GetState a k t))"
    "db_step ro s (snd (GetCommittedState a k t))"
  by (intro db_step_read [OF assms] read_op_evolves read_eqv; assumption)+

lemma db_step_writes [db_intros]:
  assumes "db_step False s t"
  shows "db_step False s (AddBalance a v t)"
    "db_step False s (SubBalance a v t)"
    "db_step False s (SetNonce a n t)"
    "db_step False s (SetCode a c t)"
    "db_step False s (SetState a k w t)"
    "db_step False s (CreateAccount a t)"
    "db_step False s (AddLog l t)"
    "db_step False s (snd (Suicide a t))"
  by (rule db_step_then [OF assms]; simp add: op_evolves read_op_evolves)+

lemma quiet_res: "sdb_ok s \<Longrightarrow> SubRefund g s = Ok t \<Longrightarrow> quiet s t"
  by (rule quiet_frame) (auto simp: SubRefund_def Let_def split: if_splits)

lemma quiet_append_accList: "quiet s (journal_append e (s\<lparr>accList := al\<rparr>))" "quiet s (s\<lparr>accList := al\<rparr>)"
  by (rule quiet_frame; simp add: append_accList)+

lemma quiet_AddAddress: "quiet s (AddAddressToAccessList a s)"
  using quiet_append_accList by (simp add: AddAddressToAccessList_def Let_def split: prod.split)

lemma quiet_AddSlot: "AddSlotToAccessList a k s = Ok t \<Longrightarrow> quiet s t"
  using quiet_append_accList quiet_trans [OF quiet_append_accList(1) quiet_append]
  by (auto simp: AddSlotToAccessList_def Let_def)

lemma db_step_notes [db_intros]:
  assumes "db_step ro s t"
  shows "db_step ro s (AddRefund g t)" "db_step ro s (AddPreimage h p t)" "db_step ro s (AddAddressToAccessList a t)"
    "db_step ro s (AddBalance a 0 t)" "db_step ro s (SubBalance a 0 t)" "db_step ro s (snd (Snapshot_op t))"
proof -
  show "db_step ro s (AddRefund g t)"
    by (rule db_step_then [OF assms AddRefund_evolves]) (auto intro!: quiet_frame simp: AddRefund_def)
  show "db_step ro s (AddPreimage h p t)"
    by (rule db_step_then [OF assms AddPreimage_evolves]) (auto intro!: quiet_frame quiet_refl simp: AddPreimage_def)
  show "db_step ro s (AddAddressToAccessList a t)"
    by (rule db_step_then [OF assms AddAddress_evolves quiet_AddAddress])
  show "db_step ro s (AddBalance a 0 t)"
    by (rule db_step_then [OF assms AddBalance_evolves quiet_AddBalance_0])
  show "db_step ro s (SubBalance a 0 t)"
    by (rule db_step_then [OF assms SubBalance_evolves quiet_SubBalance_0])
  show "db_step ro s (snd (Snapshot_op t))"
    by (rule db_step_read [OF assms Snapshot_op_facts(1,2)])
qed

lemma db_step_res:
  assumes "db_step ro s t"
  shows "SubRefund g t = Ok u \<Longrightarrow> db_step ro s u" "AddSlotToAccessList a k t = Ok u \<Longrightarrow> db_step ro s u"
  by (rule db_step_then [OF assms]; simp add: SubRefund_evolves quiet_res AddSlot_evolves quiet_AddSlot)+

text \<open>An account is created in a call only if it does not exist.\<close>

lemma db_step_create [db_intros]:
  assumes "db_step ro s t" "\<not> fst (Exist a t)"
  shows "db_step ro s (CreateAccount a (snd (Exist a t)))"
proof (rule db_step_then [OF assms(1)])
  assume ok: "sdb_ok t"
  have e: "evolves t (snd (Exist a t))" "eqv (snd (Exist a t)) t" by (rule read_op_evolves [OF ok] read_eqv [OF ok])+
  note ok' = evolves_ok(2) [OF e(1)]
  show "evolves t (CreateAccount a (snd (Exist a t)))"
    by (rule evolves_trans [OF e(1) CreateAccount_evolves [OF ok']])
  have "live_view t a = None" using assms(2) answers(1) [OF sdb_ok_wf [OF ok]] by simp
  then have "live_view (snd (Exist a t)) a = None" using live_view_eqv [OF e(2)] by simp
  then show "quiet t (CreateAccount a (snd (Exist a t)))"
    by (rule quiet_trans [OF quiet_eqv [OF e(2)] quiet_CreateAccount [OF ok']])
qed

text \<open>Going back to a snapshot is a step from the state in which it was taken.\<close>

lemma db_step_revert:
  assumes "db_step ro s t" "db_step ro' (snd (Snapshot_op t)) u" "RevertToSnapshot (fst (Snapshot_op t)) u = Ok v"
  shows "db_step ro s v"
proof (rule db_step_then [OF assms(1)])
  assume ok: "sdb_ok t"
  note sn = Snapshot_op_facts(1) [OF ok]
  have u: "evolves (snd (Snapshot_op t)) u" using assms(2) evolves_ok(2) [OF sn] by (simp add: db_step_def)
  show "evolves t v" by (rule reverted_evolves [OF ok u assms(3)])
  have "eqv v t" using RevertToSnapshot_evolves [OF ok u] assms(3) by auto
  then show "quiet t v" by (rule quiet_eqv)
qed

end
