(* ===== verification/Frames.thy ===== *)
theory Frames
  imports Effects Evm GasBounds
begin

text \<open>
  Postconditions of computations that may panic, and what an instruction or a gas function may do to
  the frame: the configuration of the EVM stays, the state database makes a step, the logger only
  grows, and the gas of the contract does not increase.
\<close>

section \<open>Postconditions\<close>

text \<open>
  \<^verbatim>\<open>post nf m Q\<close>: the result of \<open>m\<close>, if it is one, satisfies \<open>Q\<close>; the fuel may run out
  only if \<open>nf\<close>.
\<close>

definition post :: "bool \<Rightarrow> 'a res \<Rightarrow> ('a \<Rightarrow> bool) \<Rightarrow> bool" where
  "post nf m Q \<longleftrightarrow> (case m of Ok x \<Rightarrow> Q x | Panic \<Rightarrow> True | NoFuel \<Rightarrow> nf)"

named_theorems post_simps \<open>postconditions of the basic operations\<close>

lemma post_basic [simp]:
  "post nf (Ok x) Q = Q x" "post nf Panic Q = True" "post nf NoFuel Q = nf"
  "post nf (rbind m f) Q = post nf m (\<lambda>x. post nf (f x) Q)"
  by (cases m; simp add: post_def)+

lemma postD: "post nf m Q \<Longrightarrow> m = Ok x \<Longrightarrow> Q x"
  by (simp add: post_def)

lemma post_NoFuel: "post nf m Q \<Longrightarrow> m = NoFuel \<Longrightarrow> nf"
  by (simp add: post_def)

lemma post_mono: "post nf m Q \<Longrightarrow> (nf \<Longrightarrow> nf') \<Longrightarrow> (\<And>x. m = Ok x \<Longrightarrow> Q x \<Longrightarrow> Q' x) \<Longrightarrow> post nf' m Q'"
  by (cases m) (auto simp: post_def)

lemma post_nofuel: "m \<noteq> NoFuel \<Longrightarrow> post nf m Q = (\<forall>x. m = Ok x \<longrightarrow> Q x)"
  by (cases m) (auto simp: post_def)

lemma post_if [post_simps]: "post nf (if b then m else m') Q = ((b \<longrightarrow> post nf m Q) \<and> (\<not> b \<longrightarrow> post nf m' Q))"
  by simp

lemma post_prod [post_simps]: "post nf (case p of (x, y) \<Rightarrow> f x y) Q = (\<forall>x y. p = (x, y) \<longrightarrow> post nf (f x y) Q)"
  by (cases p) simp

lemma post_option [post_simps]:
  "post nf (case x of None \<Rightarrow> m | Some y \<Rightarrow> f y) Q = ((x = None \<longrightarrow> post nf m Q) \<and> (\<forall>y. x = Some y \<longrightarrow> post nf (f y) Q))"
  by (cases x) simp_all

lemma post_sum [post_simps]:
  "post nf (case x of Inl e \<Rightarrow> m e | Inr y \<Rightarrow> f y) Q =
     ((\<forall>e. x = Inl e \<longrightarrow> post nf (m e) Q) \<and> (\<forall>y. x = Inr y \<longrightarrow> post nf (f y) Q))"
  by (cases x) simp_all

lemma post_gindex [post_simps]: "post nf (gindex xs i) Q = (i < length xs \<longrightarrow> Q (xs ! i))"
  by (simp add: gindex_def)

lemma post_gslice [post_simps]:
  "post nf (gslice xs a b) Q = (a \<le> b \<and> b \<le> length xs \<longrightarrow> Q (take (b - a) (drop a xs)))"
  by (auto simp: gslice_def)

lemma neq_NoFuel_post: "m \<noteq> NoFuel \<longleftrightarrow> post False m (\<lambda>_. True)"
  by (cases m) simp_all

lemma neq_NoFuel [simp]:
  "getData d st n \<noteq> NoFuel" "GetPtr off l m \<noteq> NoFuel" "GetCopy off l m \<noteq> NoFuel" "mem_Set a n v m \<noteq> NoFuel"
  "mem_Set32 a w m \<noteq> NoFuel" "mem_Set8 a b m \<noteq> NoFuel" "SubRefund g s \<noteq> NoFuel" "AddSlotToAccessList x k s \<noteq> NoFuel"
  "SlotInAccessList x k s \<noteq> NoFuel" "swap i xs \<noteq> NoFuel" "dup i xs \<noteq> NoFuel"
  by (simp_all add: neq_NoFuel_post post_simps getData_def GetPtr_def GetCopy_def mem_Set_def mem_Set32_def mem_Set8_def
      SubRefund_def AddSlotToAccessList_def SlotInAccessList_def swap_def dup_def AddSlot_def Contains_def Let_def)

lemmas post_memory [post_simps] = neq_NoFuel [THEN post_nofuel]

section \<open>The stack\<close>

lemma post_stack [post_simps]:
  "post nf (pop1 fr) Q = (\<forall>x xs. fstack fr = x # xs \<longrightarrow> Q (x, fr\<lparr>fstack := xs\<rparr>))"
  "post nf (peek1 fr) Q' = (\<forall>x xs. fstack fr = x # xs \<longrightarrow> Q' x)"
  "post nf (poke1 w fr) Q'' = (\<forall>x xs. fstack fr = x # xs \<longrightarrow> Q'' (fr\<lparr>fstack := w # xs\<rparr>))"
  by (cases "fstack fr"; simp add: pop1_def peek1_def poke1_def pop_def peek_def poke_def gindex_def)+

lemma post_stack_back [post_simps]:
  "post nf (stack_back n fr) Q = (n < length (fstack fr) \<longrightarrow> Q (fstack fr ! n))"
  by (simp add: stack_back_def Back_def gindex_def)

lemma post_finish [post_simps]:
  "post nf (finish out fr) Q = Q (([], out, None), fr)" "post nf (fail e fr) Q = Q (([], [], Some e), fr)"
  by (simp_all add: finish_def fail_def)

lemma db_read_eq [post_simps]:
  "db_read f fr = (fst (f (sdb (interp fr))), fr\<lparr>interp := (interp fr)\<lparr>sdb := snd (f (sdb (interp fr)))\<rparr>\<rparr>)"
  by (simp add: db_read_def split_beta)

section \<open>What a frame may do\<close>

definition same_vm :: "EVM \<Rightarrow> EVM \<Rightarrow> bool" where
  "same_vm evm evm' \<longleftrightarrow> Context evm' = Context evm \<and> TxCtx evm' = TxCtx evm \<and> chainConfig evm' = chainConfig evm \<and>
     chainRules evm' = chainRules evm \<and> evmConfig evm' = evmConfig evm \<and> abort evm' = abort evm \<and>
     Prefetch evm' = Prefetch evm \<and> jumpTable evm' = jumpTable evm \<and> crypto evm' = crypto evm \<and>
     Depth evm' = Depth evm \<and> readOnly evm' = readOnly evm"

definition log_step :: "EVM \<Rightarrow> EVM \<Rightarrow> bool" where
  "log_step evm evm' \<longleftrightarrow> (Prefetch evm \<longrightarrow> logger evm' = logger evm \<and> CallIndex evm' = CallIndex evm) \<and>
     TraceIndex (logger evm) \<le> TraceIndex (logger evm') \<and>
     length (CallStack (logger evm')) = length (CallStack (logger evm))"

definition vm_step :: "EVM \<Rightarrow> EVM \<Rightarrow> bool" where
  "vm_step evm evm' \<longleftrightarrow> same_vm evm evm' \<and> log_step evm evm' \<and> db_step (readOnly evm) (sdb evm) (sdb evm')"

definition same_contract :: "Contract \<Rightarrow> Contract \<Rightarrow> bool" where
  "same_contract c c' \<longleftrightarrow> CallerAddress c' = CallerAddress c \<and> self c' = self c \<and> Code c' = Code c \<and>
     CodeHash c' = CodeHash c \<and> CodeAddr c' = CodeAddr c \<and> cInput c' = cInput c \<and> cvalue c' = cvalue c \<and>
     jumpdests c' = jumpdests c"

definition frame_step :: "frame \<Rightarrow> frame \<Rightarrow> bool" where
  "frame_step fr fr' \<longleftrightarrow> vm_step (interp fr) (interp fr') \<and> same_contract (contract fr) (contract fr') \<and>
     Gas (contract fr') \<le> Gas (contract fr)"

lemmas step_defs = frame_step_def vm_step_def same_vm_def log_step_def same_contract_def

lemma vm_step_refl [simp]: "vm_step evm evm"
  by (simp add: step_defs)

lemma vm_step_trans: "vm_step e1 e2 \<Longrightarrow> vm_step e2 e3 \<Longrightarrow> vm_step e1 e3"
  using db_step_trans [of "readOnly e1" "sdb e1" "sdb e2" "sdb e3"] by (simp add: step_defs)

lemma frame_step_refl [simp]: "frame_step fr fr"
  by (simp add: frame_step_def same_contract_def)

lemma frame_step_trans: "frame_step f1 f2 \<Longrightarrow> frame_step f2 f3 \<Longrightarrow> frame_step f1 f3"
  using vm_step_trans [of "interp f1" "interp f2" "interp f3"] by (auto simp: frame_step_def same_contract_def)

lemma frame_step_upd [simp]:
  "frame_step fr (fr'\<lparr>fstack := st\<rparr>) = frame_step fr fr'" "frame_step fr (fr'\<lparr>fmem := m\<rparr>) = frame_step fr fr'"
  "frame_step fr (fr'\<lparr>pc := p\<rparr>) = frame_step fr fr'"
  "frame_step fr (fr'\<lparr>interp := (interp fr')\<lparr>returnData := d\<rparr>\<rparr>) = frame_step fr fr'"
  "frame_step fr (fr'\<lparr>interp := (interp fr')\<lparr>callGasTemp := g\<rparr>\<rparr>) = frame_step fr fr'"
  "frame_step fr (fr'\<lparr>interp := (interp fr')\<lparr>analyses := js\<rparr>\<rparr>) = frame_step fr fr'"
  "frame_step (fr\<lparr>fstack := st\<rparr>) fr' = frame_step fr fr'" "frame_step (fr\<lparr>fmem := m\<rparr>) fr' = frame_step fr fr'"
  by (simp_all add: step_defs)

section \<open>Instructions\<close>

text \<open>An instruction that keeps to its frame, whatever the fuel.\<close>

definition op_step :: "frame \<Rightarrow> frame \<Rightarrow> bool" where
  "op_step fr fr' \<longleftrightarrow> frame_step fr fr' \<and> Gas (contract fr') = Gas (contract fr) \<and>
     length (store (fmem fr')) = length (store (fmem fr)) \<and> lastGasCost (fmem fr') = lastGasCost (fmem fr)"

definition keeps :: "op \<Rightarrow> bool" where
  "keeps f \<longleftrightarrow> (\<forall>fr. post False (f fr) (\<lambda>(r, fr'). op_step fr fr'))"

lemma mem_set_keeps:
  "mem_Set a n v m = Ok m' \<Longrightarrow> length (store m') = length (store m) \<and> lastGasCost m' = lastGasCost m"
  "mem_Set32 a w m = Ok m' \<Longrightarrow> length (store m') = length (store m) \<and> lastGasCost m' = lastGasCost m"
  "mem_Set8 a b m = Ok m' \<Longrightarrow> length (store m') = length (store m) \<and> lastGasCost m' = lastGasCost m"
  by (auto simp: mem_Set_def mem_Set32_def mem_Set8_def mem_Len_def split: if_splits)

lemma mem_set_lengths:
  "mem_Set a n v m = Ok m' \<Longrightarrow> length (store m') = length (store m)"
  "mem_Set32 a w m = Ok m' \<Longrightarrow> length (store m') = length (store m)"
  "mem_Set8 a b m = Ok m' \<Longrightarrow> length (store m') = length (store m)"
  "mem_Set a n v m = Ok m' \<Longrightarrow> lastGasCost m' = lastGasCost m"
  "mem_Set32 a w m = Ok m' \<Longrightarrow> lastGasCost m' = lastGasCost m"
  "mem_Set8 a b m = Ok m' \<Longrightarrow> lastGasCost m' = lastGasCost m"
  using mem_set_keeps by blast+

lemma keeps_operators:
  "keeps (unop f)" "keeps (binop g)" "keeps (triop h)"
  by (simp_all add: keeps_def op_step_def unop_def binop_def triop_def post_simps)

lemmas arith_defs =
  opAdd_def opSub_def opMul_def opDiv_def opSdiv_def opMod_def opSmod_def opExp_def opSignExtend_def
  opNot_def opLt_def opGt_def opSlt_def opSgt_def opEq_def opIszero_def opAnd_def opOr_def opXor_def
  opByte_def opAddmod_def opMulmod_def opSHL_def opSHR_def opSAR_def

lemmas env_defs =
  opAddress_def opOrigin_def opCaller_def opCallValue_def opCallDataLoad_def opCallDataSize_def
  opReturnDataSize_def opCodeSize_def opGasprice_def opBlockhash_def opCoinbase_def opTimestamp_def
  opNumber_def opDifficulty_def opRandom_def opGasLimit_def opChainID_def opBaseFee_def opPc_def
  opMsize_def opGas_def

lemmas flow_defs =
  opCallDataCopy_def opReturnDataCopy_def opCodeCopy_def opPop_def opMload_def opMstore_def opMstore8_def
  opJump_def opJumpi_def opJumpdest_def opReturn_def opRevert_def opUndefined_def opStop_def opPush0_def
  opPush1_def makePush_def makeDup_def makeSwap_def

lemmas state_defs =
  opBalance_def opSelfBalance_def opExtCodeSize_def opExtCodeCopy_def opExtCodeHash_def opSload_def
  opSstore_def opKeccak256_def makeLog_def opSelfdestruct_def

lemma keeps_arith: "keeps (exec_arith f)"
  by (cases f) (simp_all add: keeps_operators arith_defs)

lemma keeps_env: "keeps (exec_env f)"
  by (cases f) (simp_all add: keeps_def op_step_def env_defs push_out_def push1_def post_simps Let_def)

lemma codeBitmap_neq_NoFuel [simp]: "codeBitmap code \<noteq> NoFuel"
  using codeBitmap_lookup [of code] by auto

lemma isCode_neq_NoFuel [simp]: "isCode c js n \<noteq> NoFuel"
  by (simp add: neq_NoFuel_post isCode_def codeSegment_def post_simps Let_def post_nofuel [OF codeBitmap_neq_NoFuel])

lemma validJumpdest_keeps:
  "post False (validJumpdest c js d) (\<lambda>(ok, c', js'). same_contract c c' \<and> Gas c' = Gas c)"
  by (simp add: validJumpdest_def post_simps Let_def post_nofuel)
    (auto simp: same_contract_def isCode_def split: option.splits if_splits prod.splits)

lemma keeps_jump_to: "keeps (jump_to d)"
  unfolding keeps_def jump_to_def post_basic
proof (rule allI, rule post_mono [OF validJumpdest_keeps])
  fix fr :: frame and r
  assume r: "case r of (ok :: bool, c', js' :: jumpdest_store) \<Rightarrow> same_contract (contract fr) c' \<and> Gas c' = Gas (contract fr)"
  show "post False (case r of (ok, c, js) \<Rightarrow>
      let fr1 = fr\<lparr>contract := c, interp := (interp fr)\<lparr>analyses := js\<rparr>\<rparr>
      in if \<not> ok then fail ErrInvalidJump fr1 else finish [] (fr1\<lparr>pc := Uint64 d - 1\<rparr>))
    (\<lambda>(r, fr'). op_step fr fr')"
    using r by (simp add: op_step_def post_simps Let_def step_defs split: prod.splits)
qed

lemma jump_to_post: "post False (jump_to d (fr\<lparr>fstack := st\<rparr>)) (\<lambda>(r, fr'). op_step fr fr')"
  by (rule post_mono [OF keeps_jump_to [unfolded keeps_def, rule_format, of d "fr\<lparr>fstack := st\<rparr>"]])
    (auto simp: op_step_def)

lemma keeps_flow: "keeps (exec_flow f)"
  by (cases f) (simp_all add: keeps_def flow_defs push1_def copy_to_memory_def post_simps Let_def jump_to_post, simp_all add: op_step_def step_defs mem_set_lengths)

section \<open>Instructions on the state\<close>

lemma post_pop_topics [post_simps]:
  "post nf (pop_topics n fr) Q = (n \<le> length (fstack fr) \<longrightarrow> Q (take n (fstack fr), fr\<lparr>fstack := drop n (fstack fr)\<rparr>))"
proof (induction n arbitrary: fr Q)
  case (Suc n)
  show ?case by (cases "fstack fr") (simp_all add: post_simps Suc)
qed simp

lemma keeps_state: "keeps (exec_state f)"
  by (cases f)
    (simp_all add: keeps_def op_step_def state_defs push_out_def push1_def copy_to_memory_def db_write_def post_simps Let_def
      step_defs db_intros, simp_all add: mem_set_lengths)

section \<open>Gas functions\<close>

text \<open>
  A gas function leaves stack, program counter and the bytes of the memory alone. When it returns a
  price, the gas of the contract is what it was, the memory cost is noted if the function charges
  for memory, and the price is positive if the instruction has no constant price.
\<close>

definition gas_frame :: "frame \<Rightarrow> frame \<Rightarrow> bool" where
  "gas_frame fr fr' \<longleftrightarrow> frame_step fr fr' \<and> fstack fr' = fstack fr \<and> pc fr' = pc fr \<and>
     store (fmem fr') = store (fmem fr)"

definition priced :: "bool \<Rightarrow> bool \<Rightarrow> u64 \<Rightarrow> frame \<Rightarrow> gas_result \<times> frame \<Rightarrow> bool" where
  "priced memory pays sz fr p \<longleftrightarrow> gas_frame fr (snd p) \<and>
     (\<forall>c. fst p = Inr c \<longrightarrow> Gas (contract (snd p)) = Gas (contract fr) \<and> (pays \<longrightarrow> c \<noteq> 0) \<and>
        fmem (snd p) = (if memory then snd (memoryGasCost (fmem fr) sz) else fmem fr) \<and>
        (memory \<longrightarrow> (\<exists>g. fst (memoryGasCost (fmem fr) sz) = Inr g)))"

lemma store_memoryGasCost [simp]: "store (snd (memoryGasCost m sz)) = store m"
  by (simp add: memoryGasCost_def Let_def)

lemma post_mem_gas [post_simps]:
  "post nf (mem_gas sz fr k) Q = (let (r, m) = memoryGasCost (fmem fr) sz in
     (\<forall>e. r = Inl e \<longrightarrow> Q (Inl e, fr\<lparr>fmem := m\<rparr>)) \<and> (\<forall>g. r = Inr g \<longrightarrow> post nf (k g (fr\<lparr>fmem := m\<rparr>)) Q))"
  by (cases "memoryGasCost (fmem fr) sz") (auto simp: mem_gas_def split: sum.split)

lemma post_checked [post_simps]:
  "post nf (checked p fr k) Q = (if snd p then Q (Inl ErrGasUintOverflow, fr) else post nf (k (fst p)) Q)"
  by (simp add: checked_def)

lemma post_db_res [post_simps]:
  "post nf (db_res f fr) Q =
     post nf (f (sdb (interp fr))) (\<lambda>s. Q (fr\<lparr>interp := (interp fr)\<lparr>sdb := s\<rparr>\<rparr>))"
  by (simp add: db_res_def)

lemma gas_frame_trans: "gas_frame f1 f2 \<Longrightarrow> gas_frame f2 f3 \<Longrightarrow> gas_frame f1 f3"
  using frame_step_trans by (auto simp: gas_frame_def)

lemma gas_frame_refl [simp]: "gas_frame fr fr"
  by (simp add: gas_frame_def)

lemma SubRefund_step: "SubRefund a s = Ok u \<Longrightarrow> db_step ro s u"
  by (rule db_step_res(1) [OF db_step_refl])

lemma dirty_slot_refunds_priced:
  "post False (dirty_slot_refunds a b c orig cur val fr)
     (\<lambda>fr'. gas_frame fr fr' \<and> Gas (contract fr') = Gas (contract fr) \<and> fmem fr' = fmem fr)"
  by (simp add: dirty_slot_refunds_def post_simps db_write_def gas_frame_def step_defs db_intros SubRefund_step)

lemmas priced_defs = priced_def gas_frame_def step_defs

lemma priced_memory:
  "post False (memoryCopierGas n sz fr) (priced True False sz fr)"
  "post False (gasExtCodeCopy sz fr) (priced True False sz fr)"
  "post False (pureMemoryGascost sz fr) (priced True False sz fr)"
  "post False (word_gas n sz fr) (priced True False sz fr)"
  "post False (gasKeccak256 sz fr) (priced True False sz fr)"
  "post False (gasCreate2 sz fr) (priced True False sz fr)"
  by (simp_all add: memoryCopierGas_def gasExtCodeCopy_def pureMemoryGascost_def word_gas_def gasKeccak256_def
      gasCreate2_def post_simps split_beta Let_def priced_def gas_frame_def)

lemma priced_log_exp:
  "post False (makeGasLog k sz fr) (priced True True sz fr)"
  "post False (gasExpFrontier sz fr) (priced False True sz fr)"
  "post False (gasExpEIP158 sz fr) (priced False True sz fr)"
  by (simp_all add: makeGasLog_def gasExpFrontier_def gasExpEIP158_def post_simps split_beta Let_def priced_def
      gas_frame_def SafeAdd_pos)

text \<open>After the refunds of a dirty slot only the price is returned.\<close>

lemma post_dirty:
  assumes "gas_frame f0 fr" "Gas (contract fr) = Gas (contract f0)" "fmem fr = fmem f0" "g \<noteq> 0"
  shows "post False (dirty_slot_refunds a b c orig cur val fr) (\<lambda>fr'. priced False True sz f0 (Inr g, fr'))"
  by (rule post_mono [OF dirty_slot_refunds_priced]) (use assms gas_frame_trans in \<open>auto simp: priced_def\<close>)

lemma AddSlot_step:
  "AddSlotToAccessList a x s = Ok u \<Longrightarrow> db_step ro s u"
  "AddSlotToAccessList a x (snd (GetState b y s)) = Ok u \<Longrightarrow> db_step ro s u"
  by (erule db_step_res(2) [rotated], simp add: db_intros)+

lemma priced_store:
  "post False (gasSStore sz fr) (priced False True sz fr)"
  "post False (gasSStoreEIP2200 sz fr) (priced False True sz fr)"
  "post False (makeGasSStoreFunc k sz fr) (priced False True sz fr)"
  "post False (gasSLoadEIP2929 sz fr) (priced False True sz fr)"
  by (simp add: gasSStore_def gasSStoreEIP2200_def makeGasSStoreFunc_def gasSLoadEIP2929_def
      post_simps split_beta Let_def db_write_def,
      (intro allI impI conjI post_dirty)?, simp_all add: priced_defs db_intros AddSlot_step)+

lemma priced_account:
  "post False (gasExtCodeCopyEIP2929 sz fr) (priced True False sz fr)"
  "post False (gasEip2929AccountCheck sz fr) (priced False False sz fr)"
  "post False (gasSelfdestruct sz fr) (priced False False sz fr)"
  "post False (makeSelfdestructGasFn b sz fr) (priced False False sz fr)"
  by (simp_all add: gasExtCodeCopyEIP2929_def gasExtCodeCopy_def memoryCopierGas_def gasEip2929AccountCheck_def
      gasSelfdestruct_def makeSelfdestructGasFn_def post_simps split_beta Let_def db_write_def priced_defs db_intros)

subsection \<open>The gas of calls\<close>

text \<open>
  A call is charged at least the gas that it passes on, and the price of a transfer if there is one.
  The price cannot wrap around under EIP-150.
\<close>

definition call_priced :: "bool \<Rightarrow> bool \<Rightarrow> u64 \<Rightarrow> frame \<Rightarrow> gas_result \<times> frame \<Rightarrow> bool" where
  "call_priced bounded transfers sz fr p \<longleftrightarrow> priced True False sz fr p \<and>
     (\<forall>c. fst p = Inr c \<longrightarrow>
        unat (callGasTemp (interp (snd p))) + (if transfers then 9000 else 0) \<le> unat c \<and>
        (bounded \<and> rIsEIP150 (chainRules (interp fr)) \<and> mem_ok (fmem fr) \<and> 32 dvd unat sz \<longrightarrow>
           unat c \<le> 2 ^ 64 - 2 ^ 58 + 34000 + 2 ^ 56))"

lemma charge_call_raw:
  "post False (charge_call gas fr) (\<lambda>p. \<exists>t. snd p = set_callGasTemp t fr \<and>
     (\<forall>c. fst p = Inr c \<longrightarrow> unat c = unat gas + unat t \<and>
        (rIsEIP150 (chainRules (interp fr)) \<longrightarrow> unat t \<le> 2 ^ 64 - 2 ^ 58)))"
  using SafeAdd_exact [of gas] callGas_bound by (auto simp: charge_call_def post_simps split_beta Let_def)

lemma charge_call_priced:
  assumes "gas_frame f0 fr" "Gas (contract fr) = Gas (contract f0)"
    "fmem fr = snd (memoryGasCost (fmem f0) sz)" "fst (memoryGasCost (fmem f0) sz) = Inr g"
    "(if transfers then 9000 else 0) \<le> unat gas" "unat gas \<le> 34000 + unat g"
  shows "post False (charge_call gas fr) (call_priced True transfers sz f0)"
proof (rule post_mono [OF charge_call_raw])
  fix p :: "gas_result \<times> frame"
  assume "\<exists>t. snd p = set_callGasTemp t fr \<and> (\<forall>c. fst p = Inr c \<longrightarrow> unat c = unat gas + unat t \<and>
      (rIsEIP150 (chainRules (interp fr)) \<longrightarrow> unat t \<le> 2 ^ 64 - 2 ^ 58))"
  then obtain t where t: "snd p = set_callGasTemp t fr" "\<And>c. fst p = Inr c \<Longrightarrow> unat c = unat gas + unat t"
    "\<And>c. fst p = Inr c \<Longrightarrow> rIsEIP150 (chainRules (interp fr)) \<Longrightarrow> unat t \<le> 2 ^ 64 - 2 ^ 58" by blast
  have r: "chainRules (interp fr) = chainRules (interp f0)" using assms(1) by (simp add: gas_frame_def step_defs)
  have "gas_frame f0 (set_callGasTemp t fr)"
    using assms(1) by (simp add: gas_frame_def set_callGasTemp_def step_defs)
  moreover have "mem_ok (fmem f0) \<Longrightarrow> 32 dvd unat sz \<Longrightarrow> unat g < 2 ^ 56"
    using mem_ok_Resize(2) assms(4) by blast
  moreover have "Gas (contract (snd p)) = Gas (contract f0)" "fmem (snd p) = fmem fr" "callGasTemp (interp (snd p)) = t"
    by (simp_all add: t(1) set_callGasTemp_def assms(2))
  ultimately show "call_priced True transfers sz f0 p"
    using t r assms(3-6) by (fastforce simp: call_priced_def priced_def)
qed simp

text \<open>The rest of a call's gas function, once the memory is charged.\<close>

lemma after_mem_gas:
  assumes "fst (memoryGasCost (fmem f0) sz) = Inr g" "gas_frame f0 fr" "Gas (contract fr) = Gas (contract f0)"
    "fmem fr = snd (memoryGasCost (fmem f0) sz)" "(if transfers then 9000 else 0) \<le> unat base" "unat base \<le> 34000"
  shows "post False (checked (SafeAdd base g) fr (\<lambda>gas. charge_call gas fr)) (call_priced True transfers sz f0)"
  using charge_call_priced [OF assms(2-4,1), of transfers "fst (SafeAdd base g)"] SafeAdd_exact [of base g] assms
  by (auto simp: post_checked call_priced_def priced_def)

lemma call_gas_priced:
  "post False (gasCall sz fr) (call_priced True (fstack fr ! 2 \<noteq> 0) sz fr)"
  "post False (gasCallCode sz fr) (call_priced True (fstack fr ! 2 \<noteq> 0) sz fr)"
  "post False (gasDelegateCall sz fr) (call_priced True False sz fr)"
  "post False (gasStaticCall sz fr) (call_priced True False sz fr)"
proof -
  note gas_defs = gasCall_def gasCallCode_def gasDelegateCall_def gasStaticCall_def
  have m: "call_priced True b sz fr (Inl e, fr')" if "gas_frame fr fr'" for b e fr'
    using that by (simp add: call_priced_def priced_def)
  have plain: "post False (mem_gas sz fr charge_call) (call_priced True False sz fr)"
    using charge_call_priced [of fr "fr\<lparr>fmem := snd (memoryGasCost (fmem fr) sz)\<rparr>"]
    by (auto simp: post_mem_gas split_beta Let_def m gas_frame_def)
  then show "post False (gasDelegateCall sz fr) (call_priced True False sz fr)"
    "post False (gasStaticCall sz fr) (call_priced True False sz fr)" by (simp_all add: gas_defs)
  show "post False (gasCallCode sz fr) (call_priced True (fstack fr ! 2 \<noteq> 0) sz fr)"
    unfolding gas_defs post_mem_gas post_basic post_stack_back split_beta Let_def
    by (intro conjI allI impI after_mem_gas) (auto simp: m gas_frame_def)
  show "post False (gasCall sz fr) (call_priced True (fstack fr ! 2 \<noteq> 0) sz fr)"
    unfolding gas_defs post_mem_gas post_basic post_stack_back split_beta Let_def
    by (intro conjI allI impI after_mem_gas) (auto simp: m gas_frame_def step_defs post_simps db_intros split: if_split_asm)
qed

text \<open>The variant of EIP-2929 takes the price of a cold access first and gives it back.\<close>

lemma call_priced_cold:
  assumes "call_priced True b sz (fr\<lparr>interp := evm, contract := (contract fr)\<lparr>Gas := Gas (contract fr) - k\<rparr>\<rparr>) (Inr gas, f3)"
    "rIsEIP150 (chainRules (interp fr))" "mem_ok (fmem fr)" "32 dvd unat sz" "k \<le> 2500" "k \<le> Gas (contract fr)"
    "vm_step (interp fr) evm"
  shows "call_priced False b sz fr (Inr (gas + k), f3\<lparr>contract := (contract f3)\<lparr>Gas := Gas (contract f3) + k\<rparr>\<rparr>)"
proof -
  have r: "rIsEIP150 (chainRules evm)" using assms(2,7) by (simp add: step_defs)
  have "unat gas \<le> 2 ^ 64 - 2 ^ 58 + 34000 + 2 ^ 56" "unat k \<le> 2500"
    using assms(1,3-5) r by (simp_all add: call_priced_def word_le_nat_alt)
  then have g: "unat (gas + k) = unat gas + unat k" by (simp add: unat_word_ariths)
  have v: "vm_step (interp fr) (interp f3)"
    using assms(1) vm_step_trans [OF assms(7)] by (simp add: call_priced_def priced_def gas_frame_def frame_step_def)
  show ?thesis
    using assms(1) v by (simp add: call_priced_def priced_def gas_frame_def frame_step_def same_contract_def g trans_le_add1)
qed

lemma call_variant_priced:
  assumes "\<And>fr. post False (g sz fr) (call_priced True (t fr) sz fr)" "rIsEIP150 (chainRules (interp fr))"
    "mem_ok (fmem fr)" "32 dvd unat sz" "\<And>f1 f2. fstack f1 = fstack f2 \<Longrightarrow> t f1 = t f2"
  shows "post False (makeCallVariantGasCallEIP2929 g sz fr) (call_priced False (t fr) sz fr)"
proof -
  define k where "k = ColdAccountAccessCostEIP2929 - WarmStorageReadCostEIP2929"
  have k2500: "k \<le> 2500" by (simp add: k_def)
  define evm where "evm = (interp fr)\<lparr>sdb := AddAddressToAccessList (Bytes20 (fstack fr ! 1)) (sdb (interp fr))\<rparr>"
  let ?f2 = "fr\<lparr>interp := evm, contract := (contract fr)\<lparr>Gas := Gas (contract fr) - k\<rparr>\<rparr>"
  have v: "vm_step (interp fr) evm" by (simp add: evm_def step_defs db_intros)
  have warm: "post False (g sz fr) (call_priced False (t fr) sz fr)"
    by (rule post_mono [OF assms(1)]) (auto simp: call_priced_def)
  have t: "t ?f2 = t fr" by (rule assms(5)) simp
  have cold: "post False (g sz ?f2) (\<lambda>p. call_priced False (t fr) sz fr (case fst p of
      Inl e \<Rightarrow> (Inl e, snd p)
    | Inr gas \<Rightarrow> (Inr (gas + k), (snd p)\<lparr>contract := (contract (snd p))\<lparr>Gas := Gas (contract (snd p)) + k\<rparr>\<rparr>)))"
    if k: "k \<le> Gas (contract fr)"
  proof (rule post_mono [OF assms(1)])
    fix p :: "gas_result \<times> frame"
    assume p: "call_priced True (t ?f2) sz ?f2 p"
    show "call_priced False (t fr) sz fr (case fst p of
      Inl e \<Rightarrow> (Inl e, snd p)
    | Inr gas \<Rightarrow> (Inr (gas + k), (snd p)\<lparr>contract := (contract (snd p))\<lparr>Gas := Gas (contract (snd p)) + k\<rparr>\<rparr>))"
    proof (cases "fst p")
      case (Inl e)
      have "gas_frame fr ?f2" 
        unfolding gas_frame_def frame_step_def same_contract_def using v word_sub_le [OF k] by clarsimp
      then have "gas_frame fr (snd p)" using p gas_frame_trans by (auto simp: call_priced_def priced_def)
      then show ?thesis by (simp add: Inl call_priced_def priced_def)
    next
      case (Inr gas)
      then have "p = (Inr gas, snd p)" by (simp add: prod_eq_iff)
      then have "call_priced True (t fr) sz ?f2 (Inr gas, snd p)" using p t by simp
      from call_priced_cold [OF this assms(2-4) k2500 k v]
      show ?thesis unfolding Inr sum.case .
    qed
  qed simp
  have fin: "call_priced False (t fr) sz fr (Inl e, fr\<lparr>interp := evm\<rparr>)" for e
    using v by (simp add: call_priced_def priced_def gas_frame_def frame_step_def same_contract_def)
  have cold': "post False (g sz ?f2) (\<lambda>p. post False (case fst p of
      Inl e \<Rightarrow> Ok (Inl e, snd p)
    | Inr gas \<Rightarrow> Ok (Inr (gas + k), (snd p)\<lparr>contract := (contract (snd p))\<lparr>Gas := Gas (contract (snd p)) + k\<rparr>\<rparr>))
      (call_priced False (t fr) sz fr))" if k: "k \<le> Gas (contract fr)"
    by (rule post_mono [OF cold [OF k]]) (auto split: sum.splits)
  show ?thesis
    using warm cold' fin unfolding makeCallVariantGasCallEIP2929_def Let_def k_def [symmetric] UseGas_def db_write_def evm_def
    by (simp add: post_if post_prod post_stack_back split_beta not_less)
qed

end
