(* ===== verification/Calls.thy ===== *)
theory Calls
  imports Frames Tables
begin

text \<open>
  Message calls, contract creation and the interpreter loop, proved once in a locale over any
  interpreter that keeps its contract: enough fuel for the gas, no gas gained, the EVM's
  configuration unchanged, the state database a step further. \<open>Run\<close> with one unit of fuel more is
  then such an interpreter again.
\<close>

section \<open>Moves of the virtual machine\<close>

definition moves :: "bool \<Rightarrow> EVM \<Rightarrow> EVM \<Rightarrow> bool" where
  "moves ro evm evm' \<longleftrightarrow> same_vm evm evm' \<and> log_step evm evm' \<and> db_step ro (sdb evm) (sdb evm')"

lemma vm_step_moves: "vm_step evm evm' = moves (readOnly evm) evm evm'"
  by (simp add: vm_step_def moves_def)

lemma moves_refl [simp]: "moves ro evm evm"
  by (simp add: moves_def step_defs)

lemma moves_trans: "moves ro e1 e2 \<Longrightarrow> moves ro e2 e3 \<Longrightarrow> moves ro e1 e3"
  using db_step_trans [of ro "sdb e1" "sdb e2" "sdb e3"] by (auto simp: moves_def step_defs)

lemma moves_weaken: "moves ro evm evm' \<Longrightarrow> (ro' \<Longrightarrow> ro) \<Longrightarrow> moves ro' evm evm'"
  using db_step_weaken by (auto simp: moves_def)

lemma moves_upd [simp]:
  "moves ro evm (e\<lparr>sdb := s\<rparr>) = (same_vm evm e \<and> log_step evm e \<and> db_step ro (sdb evm) s)"
  "moves ro evm (e\<lparr>analyses := js\<rparr>) = moves ro evm e"
  "moves ro evm (e\<lparr>returnData := d\<rparr>) = moves ro evm e"
  by (simp_all add: moves_def step_defs)

lemma same_vm_upd [simp]:
  "same_vm evm (e\<lparr>sdb := s\<rparr>) = same_vm evm e" "same_vm evm (e\<lparr>analyses := js\<rparr>) = same_vm evm e" "same_vm evm evm"
  "same_vm (e\<lparr>sdb := s\<rparr>) evm = same_vm e evm"
  "log_step evm (e\<lparr>sdb := s\<rparr>) = log_step evm e" "log_step evm (e\<lparr>analyses := js\<rparr>) = log_step evm e" "log_step evm evm"
  "log_step (e\<lparr>sdb := s\<rparr>) evm = log_step e evm"
  by (simp_all add: step_defs)

lemma evm_read_eq: "evm_read f evm = (fst (f (sdb evm)), evm\<lparr>sdb := snd (f (sdb evm))\<rparr>)"
  by (simp add: evm_read_def split_beta)

lemma sdb_fields:
  "sdb (e\<lparr>sdb := s\<rparr>) = s" "e\<lparr>sdb := s, sdb := t\<rparr> = e\<lparr>sdb := t\<rparr>" "chainRules (e\<lparr>sdb := s\<rparr>) = chainRules e"
  "readOnly (e\<lparr>sdb := s\<rparr>) = readOnly e" "jumpTable (e\<lparr>sdb := s\<rparr>) = jumpTable e"
  by simp_all

lemma sdb_if: "(if b then e\<lparr>sdb := s\<rparr> else e\<lparr>sdb := t\<rparr>) = e\<lparr>sdb := if b then s else t\<rparr>"
  by simp

lemmas call_simps = Let_def split_beta evm_read_eq fst_conv snd_conv sdb_fields

text \<open>The operations of the jump table fit the rules.\<close>

definition wired :: "EVM \<Rightarrow> bool" where
  "wired evm \<longleftrightarrow> table_ok (rIsEIP150 (chainRules evm)) (jumpTable evm)"

lemma wired_same: "same_vm evm e \<Longrightarrow> wired e = wired evm"
  by (simp add: wired_def step_defs)

lemma same_vm_readOnly: "same_vm evm e \<Longrightarrow> readOnly e = readOnly evm"
  by (simp add: same_vm_def)

lemma wired_moves: "moves ro evm e \<Longrightarrow> wired e = wired evm"
  by (simp add: moves_def wired_same)

section \<open>Tracing\<close>

definition entered :: "EVM \<Rightarrow> int \<Rightarrow> EVM \<Rightarrow> bool" where
  "entered evm i e \<longleftrightarrow> i = TraceIndex (logger evm) \<and> same_vm evm e \<and> sdb e = sdb evm \<and>
     length (CallStack (logger e)) = length (CallStack (logger evm)) \<and>
     (if Prefetch evm then e = evm else TraceIndex (logger e) = i + 1)"

definition exited :: "EVM \<Rightarrow> EVM \<Rightarrow> bool" where
  "exited evm e \<longleftrightarrow> same_vm evm e \<and> sdb e = sdb evm \<and>
     length (CallStack (logger e)) = length (CallStack (logger evm)) \<and>
     (if Prefetch evm then e = evm else TraceIndex (logger evm) - 1 \<le> TraceIndex (logger e))"

lemma enter_trace_post: "post nf (enter_trace evm) (\<lambda>p. entered evm (fst p) (snd p))"
  by (simp add: enter_trace_def Let_def post_simps same_vm_def entered_def)

lemma AddFuncLog_post:
  "post nf (AddFuncLog k i t d a b v g x y l) (\<lambda>l'. TraceIndex l' = TraceIndex l \<and> CallStack l' = CallStack l)"
  by (simp add: AddFuncLog_def Let_def call_path_def post_simps)

lemma AddTransferLog_post:
  "post nf (AddTransferLog k a b v d l) (\<lambda>l'. TraceIndex l' = TraceIndex l \<and> CallStack l' = CallStack l)"
  by (simp add: AddTransferLog_def Let_def call_path_def post_simps)

lemma leave_trace_post: "post nf (leave_trace t tb i a b v g x y evm) (exited evm)"
proof (cases "Prefetch evm")
  case False
  then show ?thesis
    by (simp add: leave_trace_def, intro post_mono [OF AddFuncLog_post]) (simp_all add: same_vm_def exited_def)
qed (simp add: leave_trace_def exited_def)

lemma entered_sdb: "entered evm i e \<Longrightarrow> sdb e = sdb evm"
  by (simp add: entered_def)

text \<open>A call is traced around what it runs.\<close>

lemma traced_log:
  "entered evm i e1 \<Longrightarrow> same_vm e1 e2 \<Longrightarrow> log_step e1 e2 \<Longrightarrow> exited e2 e3 \<Longrightarrow>
   same_vm evm e3 \<and> log_step evm e3 \<and> sdb e3 = sdb e2"
  by (auto simp: entered_def exited_def step_defs split: if_splits)

lemma traced: "entered evm i e1 \<Longrightarrow> moves ro e1 e2 \<Longrightarrow> exited e2 e3 \<Longrightarrow> moves ro evm e3"
  by (auto simp: entered_def exited_def moves_def step_defs split: if_splits)

section \<open>The end of a call\<close>

lemma revert_all_neq_NoFuel: "revert_all es s \<noteq> NoFuel"
proof (induction es arbitrary: s)
  case (Cons e es)
  have "revert_entry e s \<noteq> NoFuel"
    by (auto simp: neq_NoFuel_post revert_entry_def modify_object_def DeleteSlot_def post_simps Let_def
        split: journalEntry.split prod.split option.split)
  then show ?case using Cons by (cases "revert_entry e s") simp_all
qed simp

lemma RevertToSnapshot_neq_NoFuel [simp]: "RevertToSnapshot i s \<noteq> NoFuel"
  using revert_all_neq_NoFuel by (simp add: neq_NoFuel_post RevertToSnapshot_def journal_revert_def Let_def)


definition called :: "bool \<Rightarrow> u64 \<Rightarrow> EVM \<Rightarrow> call_result \<times> EVM \<Rightarrow> bool" where
  "called ro gas evm r \<longleftrightarrow> (case r of ((ret, left, err), evm') \<Rightarrow> left \<le> gas \<and> moves ro evm evm' \<and>
     (err \<noteq> None \<longrightarrow> sdb_ok (sdb evm) \<longrightarrow> eqv (sdb evm') (sdb evm)) \<and>
     (err \<noteq> None \<and> err \<notin> Some ` {ErrExecutionReverted, ErrDepth, ErrInsufficientBalance} \<longrightarrow> left = 0))"

lemma finish_called:
  assumes e0: "moves ro evm e0" "sdb_ok (sdb evm) \<Longrightarrow> eqv (sdb e0) (sdb evm)"
    and e: "moves ro (e0\<lparr>sdb := snd (Snapshot_op (sdb e0))\<rparr>) e" "left \<le> gas"
  shows "post nf (finish_call (fst (Snapshot_op (sdb e0))) ((ret, left, err), e)) (called ro gas evm)"
proof (cases err)
  case None
  have "moves ro e0 (e0\<lparr>sdb := snd (Snapshot_op (sdb e0))\<rparr>)" by (simp add: db_intros)
  then have "moves ro evm e" using e0(1) e(1) moves_trans by blast
  then show ?thesis using None e(2) by (simp add: finish_call_def called_def)
next
  case (Some x)
  have s: "db_step ro (snd (Snapshot_op (sdb e0))) (sdb e)" "same_vm evm e" "log_step evm e"
    using e(1) e0(1) by (auto simp: moves_def step_defs)
  have v: "db_step ro (sdb evm) v" if "RevertToSnapshot (fst (Snapshot_op (sdb e0))) (sdb e) = Ok v" for v
    using db_step_revert [OF _ s(1) that] e0(1) by (simp add: moves_def)
  have w: "eqv v (sdb evm)" if "RevertToSnapshot (fst (Snapshot_op (sdb e0))) (sdb e) = Ok v" "sdb_ok (sdb evm)" for v
  proof -
    have ok: "sdb_ok (sdb e0)" using db_step_ok [OF _ that(2), of ro] e0(1) by (simp add: moves_def)
    have "evolves (snd (Snapshot_op (sdb e0))) (sdb e)"
      using s(1) evolves_ok(2) [OF Snapshot_op_facts(1) [OF ok]] by (simp add: db_step_def)
    from RevertToSnapshot_evolves [OF ok this] that(1) have "eqv v (sdb e0)" by auto
    then show ?thesis using eqv_trans e0(2) [OF that(2)] by blast
  qed
  show ?thesis
    using Some v w s(2,3) e(2) by (auto simp: finish_call_def called_def post_nofuel)
qed

section \<open>Interpreters\<close>

text \<open>What a run does to the contract and to the EVM.\<close>

definition ran :: "bool \<Rightarrow> Contract \<Rightarrow> EVM \<Rightarrow> (bytes \<times> vm_error option) \<times> Contract \<times> EVM \<Rightarrow> bool" where
  "ran ro c evm r \<longleftrightarrow> (case r of (x, c', evm') \<Rightarrow> Gas c' \<le> Gas c \<and> moves (readOnly evm \<or> ro) evm evm')"

lemma neq_NoFuel_intros:
  "(\<And>x. f x \<noteq> NoFuel) \<Longrightarrow> Let a f \<noteq> NoFuel" "g \<noteq> NoFuel \<Longrightarrow> h \<noteq> NoFuel \<Longrightarrow> (if b then g else h) \<noteq> NoFuel"
  "(\<And>x y. k x y \<noteq> NoFuel) \<Longrightarrow> case_prod k p \<noteq> NoFuel" "Ok z \<noteq> NoFuel" "m \<noteq> NoFuel \<Longrightarrow> (\<And>x. q x \<noteq> NoFuel) \<Longrightarrow> rbind m q \<noteq> NoFuel"
  by (auto simp: split_beta rbind_neq_NoFuel)

lemma bigModExp_neq_NoFuel: "bigModExp_RequiredGas b input \<noteq> NoFuel" "bigModExp_Run input \<noteq> NoFuel"
  unfolding bigModExp_RequiredGas_def bigModExp_Run_def modexp_args_def modexp_expHead_def
  by (intro neq_NoFuel_intros neq_NoFuel)+

lemma RequiredGas_neq_NoFuel [simp]: "RequiredGas p input \<noteq> NoFuel" "precompile_Run cr p input \<noteq> NoFuel"
  by (cases p; simp add: RequiredGas_def precompile_Run_def bigModExp_neq_NoFuel)+

lemma run_precompile_post:
  assumes "moves ro e0 evm"
  shows "post nf (run_precompile p input gas evm) (\<lambda>q. fst (snd (fst q)) \<le> gas \<and> moves ro e0 (snd q))"
proof -
  have "RunPrecompiledContract (crypto evm) p input gas \<noteq> NoFuel"
    unfolding RunPrecompiledContract_def by (intro neq_NoFuel_intros RequiredGas_neq_NoFuel)
  then show ?thesis using RunPrecompiledContract_gas assms by (auto simp: run_precompile_def post_nofuel)
qed

lemma new_contract_facts:
  "snd (new_contract caller obj v gas evm) = evm\<lparr>analyses := snd (NewContract caller obj v gas (analyses evm))\<rparr>"
  "Gas (fst (new_contract caller obj v gas evm)) = gas"
  by (simp_all add: new_contract_def NewContract_def split_beta Let_def split: ContractRef.split)

lemma load_code_facts:
  "snd (load_code addr c evm) = evm\<lparr>sdb := snd (GetCode addr (snd (GetCodeHash addr (sdb evm))))\<rparr>"
  "Gas (fst (load_code addr c evm)) = Gas c"
  by (simp_all add: load_code_def evm_read_eq SetCallCode_def)

lemma AsDelegate_post: "post nf (AsDelegate caller c) (\<lambda>c'. Gas c' = Gas c)"
  by (simp add: AsDelegate_def split: ContractRef.split)

lemma post_case:
  "(x = None \<Longrightarrow> post nf m Q) \<Longrightarrow> (\<And>p. x = Some p \<Longrightarrow> post nf (f p) Q) \<Longrightarrow> post nf (case x of None \<Rightarrow> m | Some p \<Rightarrow> f p) Q"
  by (simp split: option.split)

text \<open>The state is read, a snapshot taken, and the call ends with its result.\<close>

lemma call_body:
  assumes "db_step ro (sdb evm) t" "sdb_ok (sdb evm) \<Longrightarrow> eqv t (sdb evm)"
    "post nf body (\<lambda>q. fst (snd (fst q)) \<le> gas \<and> moves ro (evm\<lparr>sdb := snd (Snapshot_op t)\<rparr>) (snd q))"
  shows "post nf (rbind body (finish_call (fst (Snapshot_op t)))) (called ro gas evm)"
  unfolding post_basic
proof (rule post_mono [OF assms(3)])
  fix q :: "call_result \<times> EVM"
  assume "fst (snd (fst q)) \<le> gas \<and> moves ro (evm\<lparr>sdb := snd (Snapshot_op t)\<rparr>) (snd q)"
  then show "post nf (finish_call (fst (Snapshot_op t)) q) (called ro gas evm)"
    using finish_called [of ro evm "evm\<lparr>sdb := t\<rparr>" "snd q" "fst (snd (fst q))" gas nf "fst (fst q)" "snd (snd (fst q))"]
      assms(1,2) by simp
qed

lemma Transfer_post:
  assumes "moves ro e0 evm" "ro \<longrightarrow> v = 0"
  shows "post nf (Transfer a b v evm) (moves ro e0)"
proof -
  have d: "db_step ro (sdb e0) (AddBalance b v (SubBalance a v (sdb evm)))"
    using assms by (cases ro) (simp_all add: moves_def db_intros)
  have l: "post nf (AddTransferLog (hasher (sdb evm)) a b v (Depth evm) (logger evm))
      (\<lambda>l. \<not> Prefetch evm \<longrightarrow> moves ro e0 (evm\<lparr>logger := l, sdb := AddBalance b v (SubBalance a v (sdb evm))\<rparr>))"
    by (rule post_mono [OF AddTransferLog_post]) (use d assms(1) in \<open>auto simp: moves_def step_defs\<close>)
  show ?thesis
  proof (cases "Prefetch evm")
    case True
    then show ?thesis using d assms(1) by (simp add: Transfer_def evm_write_def moves_def)
  next
    case False
    then show ?thesis using l by (simp add: Transfer_def evm_write_def post_mono del: moves_upd)
  qed
qed

section \<open>What a calling instruction does to its frame\<close>

text \<open>At most \<open>n\<close> gas comes back to the contract.\<close>

definition call_step :: "nat \<Rightarrow> frame \<Rightarrow> frame \<Rightarrow> bool" where
  "call_step n fr fr' \<longleftrightarrow> vm_step (interp fr) (interp fr') \<and> same_contract (contract fr) (contract fr') \<and>
     unat (Gas (contract fr')) \<le> unat (Gas (contract fr)) + n \<and>
     length (store (fmem fr')) = length (store (fmem fr)) \<and> lastGasCost (fmem fr') = lastGasCost (fmem fr)"

lemma op_step_call: "op_step fr fr' \<Longrightarrow> call_step n fr fr'"
  by (simp add: op_step_def call_step_def frame_step_def)

lemma call_step_mono: "call_step m fr fr' \<Longrightarrow> m \<le> n \<Longrightarrow> call_step n fr fr'"
  by (simp add: call_step_def)

lemma unat_add_le: "unat (x + y) \<le> unat x + unat y"
  by (simp add: unat_word_ariths)

lemma same_contract_refl [simp]: "same_contract c c" "same_contract c (c\<lparr>Gas := g\<rparr>)"
  by (simp_all add: same_contract_def)

lemma vm_step_returnData [simp]: "vm_step evm (e\<lparr>returnData := d\<rparr>) = vm_step evm e"
  by (simp add: step_defs)

text \<open>How much gas an instruction hands to the contract it calls, and how much may come back.\<close>

fun given_gas :: "executionFunc \<Rightarrow> frame \<Rightarrow> nat" where
  "given_gas (SubCall f) fr =
     (if f \<in> {OpCreate, OpCreate2} then 0
      else unat (callGasTemp (interp fr)) + (if f \<in> {OpCall, OpCallCode} \<and> fstack fr ! 2 \<noteq> 0 then 2300 else 0))"
| "given_gas e fr = 0"

section \<open>Charging an operation\<close>

lemma run_gas_call:
  assumes "call_gas g" "gas_sound (rIsEIP150 (chainRules (interp fr))) g" "mem_ok (fmem fr)" "32 dvd unat sz"
  shows "post False (run_gas g sz fr) (call_priced False (value_gas g \<and> fstack fr ! 2 \<noteq> 0) sz fr)"
proof -
  have plain: "post False (run_gas g sz fr) (call_priced True (value_gas g \<and> fstack fr ! 2 \<noteq> 0) sz fr)"
    if "plain_call g" for g and fr :: frame
    using that call_gas_priced by (auto simp: plain_call_def)
  have weak: "call_priced True b sz fr p \<Longrightarrow> call_priced False b sz fr p" for b p
    by (simp add: call_priced_def)
  show ?thesis
  proof (cases "\<exists>g'. g = GasCallVariantEIP2929 g'")
    case True
    then obtain g' where g': "g = GasCallVariantEIP2929 g'" by blast
    then have ok: "plain_call g'" "rIsEIP150 (chainRules (interp fr))" using assms(2) by (auto simp: gas_sound_def)
    note v = call_variant_priced [where t = "\<lambda>fr. value_gas g' \<and> fstack fr ! 2 \<noteq> 0" and g = "run_gas g'" and sz = sz]
    show ?thesis unfolding g' run_gas.simps value_gas.simps by (rule v [OF plain [OF ok(1)] ok(2) assms(3,4)]) simp
  next
    case False
    then have "plain_call g" using assms(1) by (cases g) auto
    from plain [OF this, of fr] show ?thesis by (rule post_mono) (auto intro: weak)
  qed
qed

lemma run_gas_priced:
  assumes "gas_sound (rIsEIP150 (chainRules (interp fr))) g" "mem_ok (fmem fr)" "32 dvd unat sz"
  shows "post False (run_gas g sz fr) (priced (charges_memory g) (pays g) sz fr)"
proof (cases "call_gas g")
  case True
  have "charges_memory g" "\<not> pays g"
    using True assms(1) by (cases g; auto simp: plain_call_def gas_sound_def)+
  then show ?thesis
    using run_gas_call [OF True assms] by (auto elim!: post_mono simp: call_priced_def)
next
  case False
  then show ?thesis
    using priced_memory priced_log_exp priced_store priced_account assms(1)
    by (cases g) (simp_all add: plain_call_def gas_sound_def)
qed

lemma needed_memory_post: "post False (needed_memory ms st) (\<lambda>r. \<forall>sz. r = Inr sz \<longrightarrow> 32 dvd unat sz \<and> (ms = None \<longrightarrow> sz = 0))"
proof (cases ms)
  case (Some m)
  have b: "Back i st \<noteq> NoFuel" for i by (simp add: neq_NoFuel_post Back_def post_simps)
  have s: "size_at i j st \<noteq> NoFuel" for i j by (simp add: size_at_def rbind_neq_NoFuel b)
  have l: "larger_of p q st \<noteq> NoFuel" for p q
    unfolding larger_of_def by (intro neq_NoFuel_intros s)
  have n: "run_memorySize m st \<noteq> NoFuel"
    by (cases m; simp add: memoryKeccak256_def memoryCallDataCopy_def memoryReturnDataCopy_def memoryCodeCopy_def
        memoryExtCodeCopy_def memoryMLoad_def memoryMStore8_def memoryMStore_def memoryCreate_def memoryCreate2_def
        memoryCall_def memoryDelegateCall_def memoryStaticCall_def memoryReturn_def memoryRevert_def memoryLog_def s l b
        rbind_neq_NoFuel)
  show ?thesis
    using SafeMul_exact [of _ 32] by (auto simp: Some needed_memory_def post_nofuel [OF n] split_beta Let_def)
qed (simp add: needed_memory_def)

text \<open>
  The charge: the stack stays, the memory remains well formed, the gas covers what the instruction
  gives away, and an instruction without a constant price pays something here.
\<close>

definition charged :: "operation \<Rightarrow> frame \<Rightarrow> gas_result \<times> frame \<Rightarrow> bool" where
  "charged o1 fr p \<longleftrightarrow> frame_step fr (snd p) \<and> (\<forall>c. fst p = Inr c \<longrightarrow>
     fstack (snd p) = fstack fr \<and> pc (snd p) = pc fr \<and> mem_ok (fmem (snd p)) \<and>
     unat (Gas (contract (snd p))) + given_gas (execute o1) (snd p) \<le> unat (Gas (contract fr)) \<and>
     (halts (execute o1) \<or> constantGas o1 \<noteq> 0 \<or> Gas (contract (snd p)) < Gas (contract fr)))"

lemma post_conj: "post nf m P \<Longrightarrow> post nf m Q \<Longrightarrow> post nf m (\<lambda>x. P x \<and> Q x)"
  by (cases m) simp_all

lemma given_gas_paid:
  assumes "operation_ok e o1" "dynamicGas o1 = Some g"
    "call_gas g \<Longrightarrow> call_priced False (value_gas g \<and> fstack fr ! 2 \<noteq> 0) sz fr (Inr d, f1)"
    "interp f2 = interp f1" "fstack f2 = fstack fr"
  shows "given_gas (execute o1) f2 \<le> unat d"
proof (cases "execute o1")
  case (SubCall f)
  then have "f \<notin> {OpCreate, OpCreate2} \<Longrightarrow> call_gas g \<and> (f \<in> {OpCall, OpCallCode} \<longrightarrow> value_gas g)"
    using assms(1,2) by (auto simp: operation_ok_def)
  then show ?thesis using assms(3-5) SubCall by (auto simp: call_priced_def)
qed simp_all

lemma priced_charged:
  assumes "operation_ok e o1" "dynamicGas o1 = Some g" "mem_ok (fmem fr)" "32 dvd unat sz" "memorySize o1 = None \<Longrightarrow> sz = 0"
    "priced (charges_memory g) (pays g) sz fr (Inr d, f1)"
    "call_gas g \<Longrightarrow> call_priced False (value_gas g \<and> fstack fr ! 2 \<noteq> 0) sz fr (Inr d, f1)"
    "\<not> Gas (contract f1) < d" "f2 = f1\<lparr>contract := (contract f1)\<lparr>Gas := Gas (contract f1) - d\<rparr>\<rparr>"
  shows "charged o1 fr (Inr c, if sz > 0 then f2\<lparr>fmem := Resize sz (fmem f2)\<rparr> else f2)"
proof -
  let ?f = "if sz > 0 then f2\<lparr>fmem := Resize sz (fmem f2)\<rparr> else f2"
  have p: "gas_frame fr f1" "Gas (contract f1) = Gas (contract fr)" "pays g \<Longrightarrow> d \<noteq> 0"
    "fmem f1 = (if charges_memory g then snd (memoryGasCost (fmem fr) sz) else fmem fr)"
    "charges_memory g \<Longrightarrow> \<exists>h. fst (memoryGasCost (fmem fr) sz) = Inr h"
    using assms(6) by (simp_all add: priced_def)
  have le: "Gas (contract fr) - d \<le> Gas (contract fr)" "d \<le> Gas (contract fr)"
    using assms(8) p(2) by (simp_all add: word_sub_le)
  have f: "interp ?f = interp f1" "fstack ?f = fstack fr" "pc ?f = pc fr" "Gas (contract ?f) = Gas (contract fr) - d"
    using p(1,2) by (simp_all add: assms(9) gas_frame_def)
  have step: "frame_step fr ?f"
    using p(1) le by (auto simp: assms(9) gas_frame_def frame_step_def same_contract_def p(2))
  have "memorySize o1 \<noteq> None \<Longrightarrow> charges_memory g" using assms(1,2) by (auto simp: operation_ok_def)
  then have mem: "mem_ok (fmem ?f)"
    using mem_ok_Resize(1) [OF assms(3) _ assms(4)] p(4,5) assms(3,5,9) by (cases "charges_memory g") fastforce+
  have "given_gas (execute o1) ?f \<le> unat d"
    by (rule given_gas_paid [OF assms(1,2) _ f(1,2)]) (rule assms(7))
  then have gas: "unat (Gas (contract ?f)) + given_gas (execute o1) ?f \<le> unat (Gas (contract fr))"
    using le(2) f(4) by (simp add: unat_sub word_le_nat_alt)
  have "Gas (contract ?f) < Gas (contract fr)" if "pays g"
  proof -
    have "0 < unat d" using p(3) [OF that] by (simp add: unat_gt_0)
    then show ?thesis using le(2) f(4) by (simp add: unat_sub word_le_nat_alt word_less_nat_alt)
  qed
  moreover have "halts (execute o1) \<or> constantGas o1 \<noteq> 0 \<or> pays g" using assms(1,2) by (auto simp: operation_ok_def)
  ultimately have "halts (execute o1) \<or> constantGas o1 \<noteq> 0 \<or> Gas (contract ?f) < Gas (contract fr)" by blast
  then show ?thesis using step mem gas f(2,3) by (simp add: charged_def)
qed

lemma charge_dynamic_post:
  assumes "operation_ok (rIsEIP150 (chainRules (interp fr))) o1" "mem_ok (fmem fr)"
  shows "post False (charge_dynamic o1 fr) (charged o1 fr)"
proof (cases "dynamicGas o1")
  case None
  then have "given_gas (execute o1) fr = 0"
    using assms(1) by (cases "execute o1") (auto simp: operation_ok_def)
  then show ?thesis using None assms by (auto simp: charge_dynamic_def charged_def operation_ok_def)
next
  case (Some g)
  have g: "gas_sound (rIsEIP150 (chainRules (interp fr))) g" using assms(1) Some by (simp add: operation_ok_def)
  have paid: "post False (run_gas g sz fr) (\<lambda>p. priced (charges_memory g) (pays g) sz fr p \<and>
      (call_gas g \<longrightarrow> call_priced False (value_gas g \<and> fstack fr ! 2 \<noteq> 0) sz fr p))" if "32 dvd unat sz" for sz
    using run_gas_priced [OF g assms(2) that] run_gas_call [OF _ g assms(2) that]
    by (intro post_conj) (cases "call_gas g", auto simp: post_def split: res.split)
  have use: "post False (case p of (r, f1) \<Rightarrow> (case r of Inl _ \<Rightarrow> Ok (Inl ErrOutOfGas, f1)
      | Inr d \<Rightarrow> (let (paid, c) = UseGas d (contract f1); f2 = f1\<lparr>contract := c\<rparr>
          in if \<not> paid then Ok (Inl ErrOutOfGas, f2)
             else Ok (Inr (constantGas o1 + d), if sz > 0 then f2\<lparr>fmem := Resize sz (fmem f2)\<rparr> else f2)))) (charged o1 fr)"
    if sz: "32 dvd unat sz" "memorySize o1 = None \<longrightarrow> sz = 0" and p: "priced (charges_memory g) (pays g) sz fr p \<and>
      (call_gas g \<longrightarrow> call_priced False (value_gas g \<and> fstack fr ! 2 \<noteq> 0) sz fr p)" for sz p
  proof -
    obtain r f1 where rf: "p = (r, f1)" by (cases p)
    have f1: "frame_step fr f1" using p by (simp add: rf priced_def gas_frame_def)
    show ?thesis
    proof (cases r)
      case (Inr d)
      let ?f2 = "f1\<lparr>contract := (contract f1)\<lparr>Gas := Gas (contract f1) - d\<rparr>\<rparr>"
      have "charged o1 fr (Inr (constantGas o1 + d), if sz > 0 then ?f2\<lparr>fmem := Resize sz (fmem ?f2)\<rparr> else ?f2)"
        if "\<not> Gas (contract f1) < d"
        using priced_charged [OF assms(1) Some assms(2) sz(1) _ _ _ that refl] sz(2) p by (simp add: rf Inr)
      then show ?thesis using f1 by (auto simp: rf Inr UseGas_def Let_def charged_def [of _ _ "(Inl e, f)" for e f])
    qed (use f1 in \<open>simp add: rf charged_def\<close>)
  qed
  show ?thesis
    unfolding charge_dynamic_def Some option.case post_basic
    by (rule post_mono [OF needed_memory_post], simp, unfold post_sum, intro conjI allI impI)
      (simp add: charged_def, unfold post_basic, intro post_mono [OF paid] use, blast+)
qed

text \<open>A step goes on only if it has used gas.\<close>

definition progress :: "frame \<Rightarrow> (bytes \<times> vm_error option) option \<times> frame \<Rightarrow> bool" where
  "progress fr p \<longleftrightarrow> frame_step fr (snd p) \<and>
     (fst p = None \<longrightarrow> Gas (contract (snd p)) < Gas (contract fr) \<and> mem_ok (fmem (snd p)))"

locale interpreter =
  fixes run :: run_fn and fuel :: nat
  assumes run_ok: "wired evm \<Longrightarrow> post (fuel < unat (Gas c) + 2) (run c input ro evm) (ran ro c evm)"
begin

lemma run_contract_ok:
  assumes "wired evm" "Gas c = gas"
  shows "post (fuel < unat gas + 2) (run_contract run c input ro evm)
     (\<lambda>q. fst (snd (fst q)) \<le> gas \<and> moves (readOnly evm \<or> ro) evm (snd q))"
  unfolding run_contract_def post_basic
  by (rule post_mono [OF run_ok [OF assms(1), of c]]) (auto simp: ran_def assms(2))

text \<open>Code that is run in a fresh contract, after the state database was read.\<close>

lemma run_fresh:
  assumes "same_vm evm e" "wired evm" "log_step evm e" "db_step (readOnly evm \<or> ro) (sdb evm) (sdb e)" "Gas c = gas"
  shows "post (fuel < unat gas + 2) (run_contract run c input ro e)
     (\<lambda>q. fst (snd (fst q)) \<le> gas \<and> moves (readOnly evm \<or> ro) evm (snd q))"
proof (rule post_mono [OF run_contract_ok [OF _ assms(5)]])
  show "wired e" using assms(1,2) wired_same by blast
  have e: "readOnly e = readOnly evm" "moves (readOnly evm \<or> ro) evm e"
    using assms(1,3,4) by (simp_all add: moves_def) (simp add: step_defs)
  fix q :: "call_result \<times> EVM"
  assume "fst (snd (fst q)) \<le> gas \<and> moves (readOnly e \<or> ro) e (snd q)"
  then show "fst (snd (fst q)) \<le> gas \<and> moves (readOnly evm \<or> ro) evm (snd q)"
    using moves_trans [OF e(2)] by (simp add: e(1))
qed simp

lemma traced_run:
  assumes "entered evm i e1" "ro' = (readOnly evm \<or> ro)" "wired evm" "same_vm e1 e" "log_step e1 e"
    "db_step ro' (sdb evm) (sdb e)" "Gas c = gas" "moves ro' e0 evm" "fuel < unat gas + 2 \<Longrightarrow> nf"
  shows "post nf (run_contract run c input ro e) (\<lambda>q.
    post nf (leave_trace t tb i a b v g x (fst (fst q)) (snd q)) (\<lambda>e3. fst (snd (fst q)) \<le> gas \<and> moves ro' e0 e3))"
proof (rule post_mono [OF run_fresh [of e1 e ro c gas]])
  have e1: "same_vm evm e1" "sdb e1 = sdb evm" using assms(1) by (simp_all add: entered_def)
  note r = same_vm_readOnly [OF e1(1)]
  show "wired e1" using assms(3) wired_same [OF e1(1)] by simp
  show "db_step (readOnly e1 \<or> ro) (sdb e1) (sdb e)" using assms(6) unfolding r e1(2) assms(2) .
  fix q :: "call_result \<times> EVM"
  assume "fst (snd (fst q)) \<le> gas \<and> moves (readOnly e1 \<or> ro) e1 (snd q)"
  then have q: "fst (snd (fst q)) \<le> gas" "moves ro' e1 (snd q)" unfolding r assms(2) by blast+
  show "post nf (leave_trace t tb i a b v g x (fst (fst q)) (snd q)) (\<lambda>e3. fst (snd (fst q)) \<le> gas \<and> moves ro' e0 e3)"
    by (rule post_mono [OF leave_trace_post]) (use traced [OF assms(1) q(2)] q(1) moves_trans [OF assms(8)] in blast)+
qed (use assms(4,5,7,9) in simp_all)

lemma traced_nothing:
  assumes "entered evm i e1" "moves ro e0 evm"
  shows "post nf (leave_trace t tb i a b v g x y e1) (moves ro e0)"
  by (rule post_mono [OF leave_trace_post]) (use traced [OF assms(1) moves_refl] moves_trans [OF assms(2)] in blast)+

lemma EVM_CallCode_called:
  assumes "wired evm"
  shows "post (fuel < unat gas + 2) (EVM_CallCode run caller addr input gas value evm) (called (readOnly evm) gas evm)"
proof -
  let ?t = "snd (CanTransfer (ContractRef_Address caller) value (sdb evm))"
  have t: "db_step (readOnly evm) (sdb evm) ?t" "sdb_ok (sdb evm) \<Longrightarrow> eqv ?t (sdb evm)"
    by (simp_all add: CanTransfer_def split_beta Let_def db_intros read_eqv)
  let ?e = "evm\<lparr>sdb := snd (Snapshot_op ?t)\<rparr>"
  have w: "wired ?e" using assms by (simp add: wired_def)
  have depth: "called (readOnly evm) gas evm (([], gas, Some ErrDepth), evm)"
    "called (readOnly evm) gas evm (([], gas, Some ErrInsufficientBalance), evm\<lparr>sdb := ?t\<rparr>)"
    using t by (simp_all add: called_def eqv_refl sdb_ok_wf)
  show ?thesis
    unfolding EVM_CallCode_def call_simps post_if post_basic(1)
    apply (intro conjI impI call_body t post_case depth)
    apply assumption
    unfolding post_basic fst_conv snd_conv
    apply (rule post_mono [OF enter_trace_post], assumption, frule entered_sdb)
    apply (rule traced_run, assumption)
    apply (simp_all add: w new_contract_facts load_code_facts db_step_reads run_precompile_post)
    done
qed

lemma EVM_DelegateCall_called:
  assumes "wired evm"
  shows "post (fuel < unat gas + 2) (EVM_DelegateCall run caller addr input gas evm) (called (readOnly evm) gas evm)"
proof -
  let ?e = "evm\<lparr>sdb := snd (Snapshot_op (sdb evm))\<rparr>"
  have w: "wired ?e" using assms by (simp add: wired_def)
  have depth: "called (readOnly evm) gas evm (([], gas, Some ErrDepth), evm)"
    by (simp add: called_def eqv_refl sdb_ok_wf)
  show ?thesis
    unfolding EVM_DelegateCall_def call_simps post_if post_basic(1)
    apply (intro conjI impI call_body post_case depth db_step_refl eqv_refl)
    apply (erule sdb_ok_wf)
    unfolding post_basic fst_conv snd_conv
    apply (rule post_mono [OF enter_trace_post], assumption, frule entered_sdb)
    apply (rule post_mono [OF AsDelegate_post], assumption)
    apply (rule traced_run, assumption)
    apply (simp_all add: w new_contract_facts load_code_facts db_step_reads run_precompile_post)
    done
qed

text \<open>A static call only reads, whatever the caller may do.\<close>

lemma EVM_StaticCall_called:
  assumes "wired evm"
  shows "post (fuel < unat gas + 2) (EVM_StaticCall run caller addr input gas evm) (called True gas evm)"
proof -
  let ?e = "evm\<lparr>sdb := AddBalance addr 0 (snd (Snapshot_op (sdb evm)))\<rparr>"
  have w: "wired ?e" using assms by (simp add: wired_def)
  have depth: "called True gas evm (([], gas, Some ErrDepth), evm)"
    by (simp add: called_def eqv_refl sdb_ok_wf)
  show ?thesis
    unfolding EVM_StaticCall_def evm_write_def call_simps post_if post_basic(1)
    apply (intro conjI impI call_body post_case depth db_step_refl eqv_refl)
    apply (erule sdb_ok_wf)
    unfolding post_basic fst_conv snd_conv
    apply (rule post_mono [OF enter_trace_post], assumption, frule entered_sdb)
    apply (rule traced_run, assumption)
    apply (simp_all add: w new_contract_facts load_code_facts db_step_reads db_step_notes run_precompile_post)
    done
qed

lemma EVM_Call_called:
  assumes "wired evm" "readOnly evm \<longrightarrow> value = 0"
  shows "post (fuel < unat gas + 2) (EVM_Call run caller addr input gas value evm) (called (readOnly evm) gas evm)"
proof -
  let ?src = "ContractRef_Address caller"
  define t where "t = (if value \<noteq> 0 then snd (CanTransfer ?src value (sdb evm)) else sdb evm)"
  define can where "can = (value \<noteq> 0 \<longrightarrow> fst (CanTransfer ?src value (sdb evm)))"
  have funds: "(if value \<noteq> 0 then (fst (CanTransfer ?src value (sdb evm)), evm\<lparr>sdb := snd (CanTransfer ?src value (sdb evm))\<rparr>)
      else (True, evm)) = (can, evm\<lparr>sdb := t\<rparr>)"
    by (simp add: t_def can_def)
  have t: "db_step (readOnly evm) (sdb evm) t" "sdb_ok (sdb evm) \<Longrightarrow> eqv t (sdb evm)"
    by (simp_all add: t_def CanTransfer_def split_beta Let_def db_intros read_eqv eqv_refl sdb_ok_wf)
  have early: "called (readOnly evm) gas evm (([], gas, Some ErrDepth), evm)"
    "called (readOnly evm) gas evm (([], gas, Some ErrInsufficientBalance), evm\<lparr>sdb := t\<rparr>)"
    using t by (simp_all add: called_def eqv_refl sdb_ok_wf)
  let ?e = "evm\<lparr>sdb := snd (Snapshot_op t)\<rparr>"
  have none: "called (readOnly evm) gas evm (([], gas, None), evm\<lparr>sdb := snd (Exist addr (snd (Snapshot_op t)))\<rparr>)"
    using t by (simp add: called_def db_step_reads db_step_notes)
  have w: "wired ?e" using assms by (simp add: wired_def)
  have read: "moves (readOnly evm) ?e (x\<lparr>sdb := snd (GetCode addr (sdb x))\<rparr>)" if "moves (readOnly evm) ?e x" for x
    using that by (simp add: db_step_reads moves_def)
  have ro: "readOnly x = readOnly evm" "wired x" if "moves (readOnly evm) ?e x" for x
    using that w wired_moves [OF that] by (simp_all add: moves_def step_defs)
  show ?thesis
    unfolding EVM_Call_def evm_write_def call_simps funds post_if post_basic(1)
    apply (intro conjI impI early none)
    apply (subst rbind_assoc [symmetric], intro call_body t, assumption)
    unfolding post_basic fst_conv snd_conv
    apply (rule post_mono [OF Transfer_post [of "readOnly evm" ?e]])
    apply (simp_all add: assms db_intros)
    apply (intro impI post_case run_precompile_post, simp_all)
    apply (frule read, frule ro(1), frule ro(2))
    apply (rule post_mono [OF enter_trace_post], assumption, frule entered_sdb)
    apply (intro conjI impI traced_nothing traced_run, assumption, assumption, assumption)
    apply (simp_all add: new_contract_facts SetCallCode_def db_step_reads wired_def)
    done
qed

subsection \<open>Contract creation\<close>

lemma store_code_facts:
  "Gas (fst (snd (store_code a ret c evm))) \<le> Gas c"
  "\<exists>s. snd (snd (store_code a ret c evm)) = evm\<lparr>sdb := s\<rparr> \<and> db_step False (sdb evm) s"
  using word_sub_le [of "of_nat (length ret) * CreateDataGas" "Gas c"]
  by (auto simp: store_code_def UseGas_def evm_write_def not_less db_intros intro: exI [of _ "sdb evm"])

lemma settle_code:
  assumes "Gas c \<le> gas \<and> same_vm e1 e2 \<and> log_step e1 e2 \<and> db_step False (sdb e1) (sdb e2)"
  shows "Gas (fst (snd (if b then store_code a ret c e2 else (err, c, e2)))) \<le> gas"
    "same_vm e1 (snd (snd (if b then store_code a ret c e2 else (err, c, e2))))"
    "log_step e1 (snd (snd (if b then store_code a ret c e2 else (err, c, e2))))"
    "db_step False (sdb e1) (sdb (snd (snd (if b then store_code a ret c e2 else (err, c, e2)))))"
  using store_code_facts [of a ret c e2] assms db_step_trans by (auto intro: order_trans)

lemma create_run:
  assumes "moves False evm e7" "wired evm" "entered e7 i e1" "Gas c = gas"
  shows "post (fuel < unat gas + 2) (run c [] False e1) (\<lambda>q. Gas (fst (snd q)) \<le> gas \<and> same_vm e1 (snd (snd q)) \<and>
     log_step e1 (snd (snd q)) \<and> db_step False (sdb e1) (sdb (snd (snd q))))"
proof (rule post_mono [OF run_ok])
  have "same_vm e7 e1" using assms(3) by (simp add: entered_def)
  then show "wired e1" using assms(1,2) wired_same wired_moves by blast
  fix q
  assume "ran False c e1 q"
  then show "Gas (fst (snd q)) \<le> gas \<and> same_vm e1 (snd (snd q)) \<and> log_step e1 (snd (snd q)) \<and>
     db_step False (sdb e1) (sdb (snd (snd q)))"
    using assms(4) by (auto simp: ran_def moves_def split_beta intro: db_step_weaken)
qed (simp add: assms(4))

lemma settled:
  assumes "entered e7 i e1" "moves False (evm\<lparr>sdb := snd (Snapshot_op t5)\<rparr>) e7" "db_step False (sdb evm) t5"
    "same_vm e1 e2" "log_step e1 e2" "db_step False (sdb e1) (sdb e2)" "Gas c \<le> gas"
  shows "post nf (if b then rbind (RevertToSnapshot (fst (Snapshot_op t5)) (sdb e2)) (\<lambda>s.
        Ok (if d then snd (UseGas (Gas c) c) else c, e2\<lparr>sdb := s\<rparr>)) else Ok (c, e2))
      (\<lambda>p. post nf (leave_trace t tb i src dst v g x y (snd p)) (\<lambda>e. Gas (fst p) \<le> gas \<and> moves False evm e))"
proof -
  have e7: "same_vm evm e7" "log_step evm e7" "db_step False (snd (Snapshot_op t5)) (sdb e7)"
    using assms(2) by (simp_all add: moves_def)
  have db: "db_step False (snd (Snapshot_op t5)) (sdb e2)" "db_step False (sdb evm) (snd (Snapshot_op t5))"
    using e7(3) assms(6) entered_sdb [OF assms(1)] db_step_trans db_step_notes(6) [OF assms(3)] by auto
  have out: "post nf (leave_trace t tb i src dst v g x y (e2\<lparr>sdb := s\<rparr>)) (\<lambda>e. moves False evm e)"
    if "db_step False (sdb evm) s" for s
  proof (rule post_mono [OF leave_trace_post])
    fix e assume "exited (e2\<lparr>sdb := s\<rparr>) e"
    from traced_log [OF assms(1) _ _ this] have e: "same_vm e7 e \<and> log_step e7 e \<and> sdb e = s"
      using assms(4,5) by simp
    then have "moves False e7 (e\<lparr>sdb := sdb e7\<rparr>)" "moves False evm (e7\<lparr>sdb := sdb evm\<rparr>)" using e7(1,2) by simp_all
    then show "moves False evm e" using e7(1,2) e that by (auto simp: moves_def step_defs)
  qed simp
  have undone: "db_step False (sdb evm) s" if "RevertToSnapshot (fst (Snapshot_op t5)) (sdb e2) = Ok s" for s
    by (rule db_step_revert [OF assms(3) db(1) that])
  have gas: "Gas (if d then snd (UseGas (Gas c) c) else c) \<le> gas" using assms(7) by (simp add: UseGas_def)
  have "db_step False (sdb evm) (sdb e2)" by (rule db_step_trans [OF db(2,1)])
  from out [OF this] show ?thesis
    using out [OF undone] gas assms(7) by (auto simp: post_nofuel intro: post_mono)
qed

lemma EVM_create_ok:
  assumes "wired evm"
  shows "post (fuel < unat gas + 2) (EVM_create run caller ch gas value address evm)
     (\<lambda>q. fst (snd (snd (fst q))) \<le> gas \<and> moves False evm (snd q))"
proof -
  let ?src = "ContractRef_Address caller"
  define t0 where "t0 = snd (CanTransfer ?src value (sdb evm))"
  define t1 where "t1 = snd (GetNonce ?src t0)"
  define t2 where "t2 = SetNonce ?src (fst (GetNonce ?src t0) + 1) t1"
  define t3 where "t3 = (if rIsBerlin (chainRules evm) then AddAddressToAccessList address t2 else t2)"
  define t4 where "t4 = snd (GetCodeHash address t3)"
  define t5 where "t5 = snd (GetNonce address t4)"
  define t6 where "t6 = CreateAccount address (snd (Snapshot_op t5))"
  define t7 where "t7 = (if rIsEIP158 (chainRules evm) then SetNonce address 1 t6 else t6)"
  note fold_t = t0_def [symmetric] t1_def [symmetric] t2_def [symmetric] t3_def [symmetric] t4_def [symmetric]
    t5_def [symmetric] t6_def [symmetric] t7_def [symmetric]
  have t0: "db_step False (sdb evm) t0" by (simp add: t0_def CanTransfer_def split_beta Let_def db_intros)
  then have t1: "db_step False (sdb evm) t1" by (simp add: t1_def db_intros)
  then have t5: "db_step False (sdb evm) t5" by (simp add: t5_def t4_def t3_def t2_def db_intros)
  have t7: "db_step False (snd (Snapshot_op t5)) t7" by (simp add: t7_def t6_def db_intros)
  let ?e = "evm\<lparr>sdb := snd (Snapshot_op t5)\<rparr>"
  have w: "wired ?e" using assms by (simp add: wired_def)
  show ?thesis
    unfolding EVM_create_def evm_write_def call_simps post_if post_basic(1) sdb_if fold_t
    apply (intro conjI impI)
    apply (simp_all only: moves_refl moves_upd same_vm_upd t0 t1 t5 order_refl simp_thms word_coorder.extremum)
    unfolding post_basic
    apply (rule post_mono [OF Transfer_post [of False ?e]])
    apply (simp add: t7, simp, simp)
    apply (rule post_mono [OF enter_trace_post], assumption)
    apply (rule post_mono [OF create_run [of ?e]])
    apply (simp_all only: fst_conv snd_conv new_contract_facts moves_upd)
    apply (simp add: w)
    apply (simp add: SetCodeOptionalHash_def new_contract_facts)
    apply (rule settled, assumption)
    apply (simp_all only: moves_upd t5)
    apply (erule settle_code)+
    done
qed

subsection \<open>The calling instructions\<close>

lemma call_instruction:
  assumes "post (fuel < unat gas + 2) (f (interp fr)) (called ro gas (interp fr))" "readOnly (interp fr) \<longrightarrow> ro" "unat gas \<le> n"
    "fr = fr0\<lparr>fstack := st\<rparr>"
  shows "post (fuel < n + 2) (lift_call f fr) (\<lambda>x. post (fuel < n + 2) (case x of (r, fr) \<Rightarrow> after_call off len r fr)
     (\<lambda>(r, fr'). call_step n fr0 fr'))"
  unfolding lift_call_def post_basic
proof (rule post_mono [OF assms(1)])
  fix q :: "call_result \<times> EVM"
  obtain ret left err e where q: "q = ((ret, left, err), e)" by (metis prod.collapse)
  assume "called ro gas (interp fr) q"
  then have e: "left \<le> gas" "vm_step (interp fr0) e"
    using assms(2,4) by (auto simp: q called_def vm_step_moves intro: moves_weaken)
  have "unat (Gas (contract fr0) + left) \<le> unat (Gas (contract fr0)) + n"
    using unat_add_le [of "Gas (contract fr0)" left] e(1) assms(3) by (simp add: word_le_nat_alt)
  then show "post (fuel < n + 2) (case q of (x, evm) \<Rightarrow> Ok (x, fr\<lparr>interp := evm\<rparr>))
      (\<lambda>x. post (fuel < n + 2) (case x of (r, fr) \<Rightarrow> after_call off len r fr) (\<lambda>(r, fr'). call_step n fr0 fr'))"
    using e(2) by (auto simp: q after_call_def Let_def assms(4) push1_def add_gas_def set_returnData_def call_step_def
        post_simps mem_set_lengths)
qed (use assms(3) in simp)

lemma call_step_popped: "call_step n fr (fr\<lparr>fstack := st\<rparr>)"
  by (simp add: call_step_def)

lemmas call_op_simps = post_basic post_stack prod.case Let_def frame.simps post_if post_memory post_finish given_gas.simps

lemmas call_rules =
  call_instruction [where f = "EVM_Call run c a x g v" and gas = g and fr = fr, OF EVM_Call_called]
  call_instruction [where f = "EVM_CallCode run c a x g v" and gas = g and fr = fr, OF EVM_CallCode_called]
  call_instruction [where f = "EVM_DelegateCall run c a x g" and gas = g and fr = fr, OF EVM_DelegateCall_called]
  call_instruction [where f = "EVM_StaticCall run c a x g" and gas = g and fr = fr, OF EVM_StaticCall_called]
  for c a x g v fr

lemma calls_ok:
  assumes "wired (interp fr)"
  shows "post (fuel < given_gas (SubCall OpCall) fr + 2) (opCall run fr)
       (\<lambda>(r, fr'). call_step (given_gas (SubCall OpCall) fr) fr fr')"
    "post (fuel < given_gas (SubCall OpCallCode) fr + 2) (opCallCode run fr)
       (\<lambda>(r, fr'). call_step (given_gas (SubCall OpCallCode) fr) fr fr')"
    "post (fuel < given_gas (SubCall OpDelegateCall) fr + 2) (opDelegateCall run fr)
       (\<lambda>(r, fr'). call_step (given_gas (SubCall OpDelegateCall) fr) fr fr')"
    "post (fuel < given_gas (SubCall OpStaticCall) fr + 2) (opStaticCall run fr)
       (\<lambda>(r, fr'). call_step (given_gas (SubCall OpStaticCall) fr) fr fr')"
  unfolding opCall_def opCallCode_def opDelegateCall_def opStaticCall_def call_op_simps
  using unat_add_le [of "callGasTemp (interp fr)" 2300] assms
  by (intro allI impI conjI call_rules; simp add: call_step_popped)+

lemma EVM_Create_ok:
  assumes "wired evm"
  shows "post (fuel < unat gas + 2) (EVM_Create run caller code gas value evm)
       (\<lambda>q. fst (snd (snd (fst q))) \<le> gas \<and> moves False evm (snd q))"
    "post (fuel < unat gas + 2) (EVM_Create2 run caller code gas value salt evm)
       (\<lambda>q. fst (snd (snd (fst q))) \<le> gas \<and> moves False evm (snd q))"
proof -
  let ?e = "evm\<lparr>sdb := snd (GetNonce (ContractRef_Address caller) (sdb evm))\<rparr>"
  have m: "moves False evm ?e" by (simp add: db_intros)
  then have "wired ?e" using assms by (simp add: wired_def)
  from EVM_create_ok [OF this, of gas]
  show "post (fuel < unat gas + 2) (EVM_Create run caller code gas value evm)
       (\<lambda>q. fst (snd (snd (fst q))) \<le> gas \<and> moves False evm (snd q))"
    unfolding EVM_Create_def call_simps by (rule post_mono) (use moves_trans [OF m] in blast)+
  show "post (fuel < unat gas + 2) (EVM_Create2 run caller code gas value salt evm)
       (\<lambda>q. fst (snd (snd (fst q))) \<le> gas \<and> moves False evm (snd q))"
    unfolding EVM_Create2_def Let_def by (rule EVM_create_ok [OF assms])
qed

lemma create_instruction:
  assumes "post (fuel < unat gas + 2) (f (interp fr)) (\<lambda>q. fst (snd (snd (fst q))) \<le> gas \<and> moves False (interp fr) (snd q))"
    "\<not> readOnly (interp fr)" "gas \<le> Gas (contract fr0)"
    "fr = fr0\<lparr>fstack := st, contract := snd (UseGas gas (contract fr0))\<rparr>"
  shows "post (fuel < unat (Gas (contract fr0)) + 2) (lift_call f fr) (\<lambda>x. post (fuel < unat (Gas (contract fr0)) + 2)
     (case x of (r, fr) \<Rightarrow> after_create (cr r fr) r fr) (\<lambda>(r, fr'). call_step 0 fr0 fr'))"
  unfolding lift_call_def post_basic
proof (rule post_mono [OF assms(1)])
  fix q :: "(bytes \<times> address \<times> u64 \<times> vm_error option) \<times> EVM"
  obtain ret a left err e where q: "q = ((ret, a, left, err), e)" by (metis prod.collapse)
  assume "fst (snd (snd (fst q))) \<le> gas \<and> moves False (interp fr) (snd q)"
  then have e: "left \<le> gas" "vm_step (interp fr0) e"
    using assms(2,4) by (auto simp: q vm_step_moves)
  let ?g = "Gas (contract fr0) - gas + left"
  have "unat ?g \<le> unat (Gas (contract fr0))"
    using unat_add_le [of "Gas (contract fr0) - gas" left] e(1) assms(3) by (simp add: word_le_nat_alt unat_sub)
  then show "post (fuel < unat (Gas (contract fr0)) + 2) (case q of (x, evm) \<Rightarrow> Ok (x, fr\<lparr>interp := evm\<rparr>))
      (\<lambda>x. post (fuel < unat (Gas (contract fr0)) + 2) (case x of (r, fr) \<Rightarrow> after_create (cr r fr) r fr)
         (\<lambda>(r, fr'). call_step 0 fr0 fr'))"
    using e(2) assms(3) by (auto simp: q after_create_def Let_def assms(4) push1_def add_gas_def set_returnData_def
        call_step_def post_if UseGas_def not_less)
qed (use assms(3) in \<open>simp add: word_le_nat_alt\<close>)

lemmas create_rules =
  create_instruction [where f = "EVM_Create run c x g v" and gas = g and fr = fr, OF EVM_Create_ok(1)]
  create_instruction [where f = "EVM_Create2 run c x g v s" and gas = g and fr = fr, OF EVM_Create_ok(2)]
  for c x g v s fr

lemma creates_ok:
  assumes "wired (interp fr)"
  shows "post (fuel < unat (Gas (contract fr)) + 2) (opCreate run fr) (\<lambda>(r, fr'). call_step 0 fr fr')"
    "post (fuel < unat (Gas (contract fr)) + 2) (opCreate2 run fr) (\<lambda>(r, fr'). call_step 0 fr fr')"
proof -
  have g: "g - g div 64 \<le> g" for g :: u64
    by (rule word_sub_le) (simp add: word_le_nat_alt unat_div)
  have e: "call_step 0 fr fr" by (simp add: call_step_def)
  show "post (fuel < unat (Gas (contract fr)) + 2) (opCreate run fr) (\<lambda>(r, fr'). call_step 0 fr fr')"
    "post (fuel < unat (Gas (contract fr)) + 2) (opCreate2 run fr) (\<lambda>(r, fr'). call_step 0 fr fr')"
    unfolding opCreate_def opCreate2_def call_op_simps
    using assms g [of "Gas (contract fr)"] e
    by (intro allI impI conjI create_rules; simp)+
qed

lemma exec_op_ok:
  assumes "wired (interp fr)"
  shows "post (fuel < max (unat (Gas (contract fr))) (given_gas e fr) + 2 \<and> (\<exists>f. e = SubCall f)) (exec_op run e fr)
     (\<lambda>(r, fr'). call_step (given_gas e fr) fr fr')"
proof -
  have other: "post False (f fr) (\<lambda>(r, fr'). call_step n fr fr')" if "keeps f" for f n
    by (rule post_mono [OF that [unfolded keeps_def, rule_format, of fr]]) (auto intro: op_step_call)
  show ?thesis
  proof (cases e)
  case (SubCall f)
  then show ?thesis
    using calls_ok [OF assms] creates_ok [OF assms] by (cases f) (auto elim!: post_mono)
  qed (use other keeps_arith keeps_env keeps_flow keeps_state in simp_all)
qed

section \<open>The loop\<close>

lemma halts_stop: "halts e \<Longrightarrow> post nf (exec_op run e fr) (\<lambda>x. snd (snd (fst x)) \<noteq> None)"
  by (auto simp: halts_def opStop_def opReturn_def opRevert_def opUndefined_def opSelfdestruct_def post_simps Let_def
      split_beta)

lemma log_op_step: "frame_step fr f \<Longrightarrow> frame_step fr (log_op a b c d e f)"
  by (simp add: log_op_def Let_def step_defs AddOpLog_def)

lemma log_op_fields [simp]: "contract (log_op a b c d e f) = contract f" "fmem (log_op a b c d e f) = fmem f"
  by (simp_all add: log_op_def Let_def)

lemma call_step_mem: "call_step n fr fr' \<Longrightarrow> mem_ok (fmem fr) \<Longrightarrow> mem_ok (fmem fr')"
  by (simp add: call_step_def mem_ok_def mem_Len_def)

lemma call_step_frame:
  "call_step n f1 f2 \<Longrightarrow> frame_step fr f1 \<Longrightarrow> unat (Gas (contract f1)) + n \<le> unat (Gas (contract fr)) \<Longrightarrow> frame_step fr f2"
  using vm_step_trans [of "interp fr" "interp f1" "interp f2"]
  by (auto simp: call_step_def frame_step_def same_contract_def word_le_nat_alt)

lemma executed:
  assumes "wired (interp fr)" "operation_ok e o1" "constantGas o1 \<le> Gas (contract fr)"
    "charged o1 (fr\<lparr>contract := (contract fr)\<lparr>Gas := Gas (contract fr) - constantGas o1\<rparr>\<rparr>) (Inr cost, f1)"
  shows "post (fuel < unat (Gas (contract fr)) + 1) (exec_op run (execute o1) f1) (\<lambda>x.
     frame_step fr (snd x) \<and>
     (snd (snd (fst x)) = None \<longrightarrow> Gas (contract (snd x)) < Gas (contract fr) \<and> mem_ok (fmem (snd x))))"
proof -
  let ?g = "Gas (contract fr) - constantGas o1"
  let ?n = "given_gas (execute o1) f1"
  have g: "unat ?g + unat (constantGas o1) = unat (Gas (contract fr))"
    using assms(3) by (simp add: unat_sub word_le_nat_alt)
  have c: "vm_step (interp fr) (interp f1)" "same_contract (contract fr) (contract f1)" "mem_ok (fmem f1)"
    "unat (Gas (contract f1)) + ?n \<le> unat ?g"
    "halts (execute o1) \<or> constantGas o1 \<noteq> 0 \<or> unat (Gas (contract f1)) < unat ?g"
    using assms(4) by (auto simp: charged_def frame_step_def same_contract_def word_less_nat_alt)
  have f1: "frame_step fr f1" using c(1,2,4) g by (simp add: frame_step_def word_le_nat_alt)
  have w: "wired (interp f1)" using assms(1) c(1) wired_moves by (auto simp: vm_step_moves)
  have strict: "halts (execute o1) \<or> unat (Gas (contract f1)) + ?n < unat (Gas (contract fr))"
  proof (cases "constantGas o1 = 0")
    case True
    then have "?n = 0" using assms(2) by (cases "execute o1") (auto simp: operation_ok_def)
    then show ?thesis using c(5) True by auto
  next
    case False
    then have "0 < unat (constantGas o1)" by (simp add: unat_gt_0)
    then show ?thesis using c(4) g by linarith
  qed
  have sub: "0 < unat (constantGas o1)" if "execute o1 = SubCall f" for f
    using assms(2) that by (simp add: operation_ok_def unat_gt_0)
  show ?thesis
  proof (rule post_mono [OF post_conj [OF exec_op_ok [OF w, of "execute o1"]]])
    show "post (fuel < max (unat (Gas (contract f1))) ?n + 2 \<and> (\<exists>f. execute o1 = SubCall f)) (exec_op run (execute o1) f1)
        (\<lambda>x. halts (execute o1) \<longrightarrow> snd (snd (fst x)) \<noteq> None)"
      using halts_stop exec_op_ok [OF w, of "execute o1"]
      by (cases "halts (execute o1)") (auto elim: post_mono)
    show "fuel < unat (Gas (contract fr)) + 1"
      if "fuel < max (unat (Gas (contract f1))) ?n + 2 \<and> (\<exists>f. execute o1 = SubCall f)"
      using that sub c(4) g by fastforce
  next
    fix x
    assume "(case x of (r, fr') \<Rightarrow> call_step ?n f1 fr') \<and> (halts (execute o1) \<longrightarrow> snd (snd (fst x)) \<noteq> None)"
    then have x: "call_step ?n f1 (snd x)" "snd (snd (fst x)) = None \<Longrightarrow> \<not> halts (execute o1)" by (auto simp: split_beta)
    have "unat (Gas (contract (snd x))) \<le> unat (Gas (contract f1)) + ?n" using x(1) by (simp add: call_step_def)
    moreover have "frame_step fr (snd x)" by (rule call_step_frame [OF x(1) f1]) (use c(4) g in linarith)
    ultimately show "frame_step fr (snd x) \<and>
        (snd (snd (fst x)) = None \<longrightarrow> Gas (contract (snd x)) < Gas (contract fr) \<and> mem_ok (fmem (snd x)))"
      using strict x(2) call_step_mem [OF x(1) c(3)] by (auto simp: word_less_nat_alt)
  qed
qed

lemma step_ok:
  assumes "wired (interp fr)" "mem_ok (fmem fr)"
  shows "post (fuel < unat (Gas (contract fr)) + 1) (step run fr) (progress fr)"
proof -
  let ?b = "GetOp (contract fr) (pc fr)"
  obtain o1 where jt: "jumpTable (interp fr) ?b = Some o1" and ok: "operation_ok (rIsEIP150 (chainRules (interp fr))) o1"
    using assms(1) by (auto simp: wired_def table_ok_def entry_ok_def)
  have stop: "progress fr (Some x, fr)" for x by (simp add: progress_def)
  let ?fr = "fr\<lparr>contract := (contract fr)\<lparr>Gas := Gas (contract fr) - constantGas o1\<rparr>\<rparr>"
  have charge: "post (fuel < unat (Gas (contract fr)) + 1) (charge_dynamic o1 ?fr) (charged o1 ?fr)"
    by (rule post_mono [OF charge_dynamic_post]) (use assms ok in simp_all)
  have out: "post (fuel < unat (Gas (contract fr)) + 1) (case p of (Inl e, fr1) \<Rightarrow> Ok (Some ([], Some e), fr1)
      | (Inr cost, fr1) \<Rightarrow> rbind (exec_op run (execute o1) fr1) (\<lambda>((res, output, err), fr2).
          let fr3 = log_op (pc fr) ?b k cost output fr2
          in case err of None \<Rightarrow> Ok (None, fr3\<lparr>pc := pc fr3 + 1\<rparr>)
             | Some e \<Rightarrow> Ok (Some (res, if e = errStopToken then None else Some e), fr3))) (progress fr)"
    if c: "constantGas o1 \<le> Gas (contract fr)" and p: "charged o1 ?fr p" for p k
  proof (cases "fst p")
    case (Inl e)
    have "frame_step fr (snd p)"
      using p word_sub_le [OF c] by (auto simp: charged_def frame_step_def same_contract_def)
    then show ?thesis using Inl by (cases p) (simp add: progress_def)
  next
    case (Inr cost)
    then have "charged o1 ?fr (Inr cost, snd p)" using p by (cases p) simp
    from executed [OF assms(1) ok c this] show ?thesis
      using Inr by (cases p) (auto simp: Let_def progress_def log_op_step split: option.split elim!: post_mono)
  qed
  note main = post_mono [OF charge _ out [where k = "if Debug (evmConfig (interp fr)) then Gas (contract fr) else 0"]]
  show ?thesis
  proof (cases "constantGas o1 \<le> Gas (contract fr)")
    case True
    then show ?thesis
      using main [OF _ True] stop by (simp add: step_def jt UseGas_def Let_def not_less cong: if_cong)
  qed (simp add: step_def jt UseGas_def Let_def stop not_less)
qed

text \<open>The fuel that the loop needs beyond that of the interpreter it hands on is the gas.\<close>

lemma run_loop_ok:
  assumes "wired (interp fr)" "mem_ok (fmem fr)"
  shows "post (n < unat (Gas (contract fr)) + 1 \<or> fuel < unat (Gas (contract fr)) + 1) (run_loop n run fr)
     (\<lambda>(r, fr'). frame_step fr fr')"
  using assms
proof (induction n arbitrary: fr)
  case (Suc n)
  let ?nf = "Suc n < unat (Gas (contract fr)) + 1 \<or> fuel < unat (Gas (contract fr)) + 1"
  have again: "post ?nf (run_loop n run f) (\<lambda>(r, fr'). frame_step fr fr')" if p: "progress fr (None, f)" for f
  proof (rule post_mono [OF Suc.IH])
    have f: "frame_step fr f" "Gas (contract f) < Gas (contract fr)" "mem_ok (fmem f)"
      using p by (simp_all add: progress_def)
    show "wired (interp f)" using f(1) Suc.prems(1) wired_moves by (auto simp: frame_step_def vm_step_moves)
    show "mem_ok (fmem f)" by (rule f(3))
    show "?nf" if "n < unat (Gas (contract f)) + 1 \<or> fuel < unat (Gas (contract f)) + 1"
      using that f(2) by (auto simp: word_less_nat_alt)
    show "case x of (r, fr') \<Rightarrow> frame_step fr fr'" if "case x of (r, fr') \<Rightarrow> frame_step f fr'" for x
      using that frame_step_trans [OF f(1)] by auto
  qed
  show ?case
    unfolding run_loop.simps post_basic
    by (rule post_mono [OF step_ok [OF Suc.prems]]) (auto simp: progress_def again [unfolded progress_def, simplified] split: option.split)
qed simp

lemma run_code:
  assumes "wired evm" "e1 = evm\<lparr>Depth := Depth evm + 1, readOnly := (readOnly evm \<or> ro \<and> \<not> readOnly evm), returnData := []\<rparr>"
  shows "post (fuel < unat (Gas c) + 1) (rbind (run_loop fuel run
          \<lparr>pc = 0, interp = e1, fmem = NewMemory, fstack = newstack, contract = c\<lparr>cInput := input\<rparr>\<rparr>)
        (\<lambda>(r, fr). Ok (r, contract fr, leave_run (ro \<and> \<not> readOnly evm) (interp fr)))) (ran ro c evm)"
proof -
  let ?f = "\<lparr>pc = 0, interp = e1, fmem = NewMemory, fstack = newstack, contract = c\<lparr>cInput := input\<rparr>\<rparr>"
  have loop: "post (fuel < unat (Gas c) + 1) (run_loop fuel run ?f) (\<lambda>(r, fr'). frame_step ?f fr')"
    by (rule post_mono [OF run_loop_ok]) (use assms mem_ok_New in \<open>auto simp: wired_def\<close>)
  have leave: "ran ro c evm (r, contract fr, leave_run (ro \<and> \<not> readOnly evm) (interp fr))" if "frame_step ?f fr" for r fr
    using that by (auto simp: assms(2) ran_def leave_run_def moves_def step_defs)
  show ?thesis
    unfolding post_basic by (rule post_mono [OF loop]) (auto simp: leave)
qed

end

lemma run_empty:
  "ran ro c evm (x, c, leave_run (ro \<and> \<not> readOnly evm)
     (evm\<lparr>Depth := Depth evm + 1, readOnly := (readOnly evm \<or> ro \<and> \<not> readOnly evm), returnData := []\<rparr>))"
  by (auto simp: ran_def leave_run_def moves_def step_defs)

text \<open>
  \<^verbatim>\<open>Run\<close> with any fuel is an interpreter: with no fuel it only gives up, and each further unit is
  enough for one more nesting and one more instruction.
\<close>

lemma Run_interpreter: "interpreter (Run n) n"
proof (induction n)
  case 0
  show ?case by unfold_locales simp
next
  case (Suc n)
  note code = interpreter.run_code [OF Suc _ refl]
  show ?case
  proof (unfold_locales, unfold Run.simps Let_def post_if post_basic(1), intro conjI impI run_empty)
    fix evm :: EVM and c :: Contract and input :: bytes and ro :: bool
    assume "wired evm" "Code c \<noteq> []"
    from code [OF this(1), of c ro input]
    show "post (Suc n < unat (Gas c) + 2) (rbind (run_loop n (Run n)
        \<lparr>pc = 0, interp = evm\<lparr>Depth := Depth evm + 1, readOnly := (readOnly evm \<or> ro \<and> \<not> readOnly evm), returnData := []\<rparr>,
           fmem = NewMemory, fstack = newstack, contract = c\<lparr>cInput := input\<rparr>\<rparr>)
        (\<lambda>(r, fr). Ok (r, contract fr, leave_run (ro \<and> \<not> readOnly evm) (interp fr)))) (ran ro c evm)"
      by (rule post_mono) simp_all
  qed
qed

interpretation evm_run: interpreter "Run n" n for n
  by (rule Run_interpreter)

end
