(* ===== verification/Guarantees.thy ===== *)
theory Guarantees
  imports Calls
begin

text \<open>
  What the virtual machine guarantees to those who call it: a run ends within a fuel given by its
  gas, never gains gas, keeps the configuration of the EVM, leaves the answers of the state as they were
  after a failed call, and writes to no existing account in a static one. Everything rests on the interpretation of the locale \<open>interpreter\<close> by
  \<^verbatim>\<open>Run\<close>.
\<close>

section \<open>A new EVM\<close>

lemma activators_ok:
  assumes "map_of activators n = Some f" "table_ok True jt"
  shows "table_ok True (f jt)"
proof -
  have "(n, f) \<in> set activators" by (rule map_of_SomeD [OF assms(1)])
  then show ?thesis using eips_ok enable2929_ok assms(2) by (auto simp: activators_def)
qed

lemma enable_extra_ok: "table_ok True jt \<Longrightarrow> table_ok True (snd (enable_extra es jt))"
  by (induction es arbitrary: jt) (auto simp: EnableEIP_def activators_ok split_beta Let_def split: option.split)

lemma rules_ok_order:
  assumes "CheckConfigForkOrder cc = None" "m \<longrightarrow> IsEIP150 cc num"
  shows "rules_ok (ChainRules cc num m)"
proof -
  let ?xs = "config_forks cc"
  have loop: "fork_order_loop None ?xs = None" using assms(1) by (simp add: CheckConfigForkOrder_def)
  note pairs = fork_order_nth_le [OF loop, of 2 10] fork_order_nth_le [OF loop, of 2 11]
  show ?thesis
    using pairs assms(2)
    by (auto simp: rules_ok_def ChainRules_def config_forks_def IsBerlin_def IsLondon_def IsEIP150_def)
qed

lemma NewEVM_wired:
  assumes "CheckConfigForkOrder cc = None"
    "Random block \<noteq> None \<or> ExtraEips config \<noteq> [] \<longrightarrow> IsEIP150 cc (BlockNumber block)"
  shows "\<exists>evm. NewEVM block tx s cc config cr l = Ok evm \<and> wired evm"
proof -
  let ?r = "ChainRules cc (BlockNumber block) (Random block \<noteq> None)"
  have r: "rIsEIP150 ?r = IsEIP150 cc (BlockNumber block)" by (simp add: ChainRules_def Let_def)
  have "rules_ok ?r" by (rule rules_ok_order) (use assms in auto)
  from instruction_set_table [OF this] obtain jt where jt: "instruction_set ?r = Ok jt" "table_ok (rIsEIP150 ?r) jt" by blast
  have "table_ok (rIsEIP150 ?r) (snd (enable_extra (ExtraEips config) jt))"
    using jt(2) enable_extra_ok assms(2) r by (cases "ExtraEips config = []") auto
  then show ?thesis
    using jt(1) by (simp add: NewEVM_def Let_def split_beta wired_def)
qed

text \<open>
  Building an EVM for a configuration whose forks are in order never panics, and its jump table
  is sound: every opcode has an operation, whose stack bounds are what its implementation pops and
  pushes, which charges for the memory it expands, and which has a price unless it ends the run.
\<close>

theorem NewEVM_ready:
  assumes "CheckConfigForkOrder cc = None"
    "Random block \<noteq> None \<or> ExtraEips config \<noteq> [] \<longrightarrow> IsEIP150 cc (BlockNumber block)"
  shows "\<exists>evm. NewEVM block tx s cc config cr l = Ok evm \<and> sdb evm = s \<and> Depth evm = 0 \<and> \<not> readOnly evm \<and>
     (\<forall>b. \<exists>o1. jumpTable evm b = Some o1 \<and> operation_ok (IsEIP150 cc (BlockNumber block)) o1)"
proof -
  obtain evm where e: "NewEVM block tx s cc config cr l = Ok evm" "wired evm" using NewEVM_wired [OF assms] by blast
  then have f: "sdb evm = s" "Depth evm = 0" "\<not> readOnly evm" "rIsEIP150 (chainRules evm) = IsEIP150 cc (BlockNumber block)"
    by (auto simp: NewEVM_def Let_def split_beta ChainRules_def)
  have "\<exists>o1. jumpTable evm b = Some o1 \<and> operation_ok (IsEIP150 cc (BlockNumber block)) o1" for b
    using e(2) f(4) by (auto simp: wired_def table_ok_def entry_ok_def)
  then show ?thesis using e(1) f(1-3) by blast
qed

text \<open>A small world: no accounts, the fork schedule up to London, no tracing.\<close>

definition sample_block :: BlockContext where
  "sample_block = \<lparr>GetHash = (\<lambda>_. 0), Coinbase = 0, GasLimit = 30000000, BlockNumber = 5, Time = 0, Difficulty = 1,
     BaseFee = Some 7, Random = None\<rparr>"

definition sample_tx :: TxContext where
  "sample_tx = \<lparr>Origin = 1, GasPrice = 10\<rparr>"

definition sample_vm_config :: Config where
  "sample_vm_config = \<lparr>Debug = False, NoBaseFee = False, EnablePreimageRecording = False, ExtraEips = [3855], cPrefetch = True\<rparr>"

definition sample_new :: "EVM res" where
  "sample_new = NewEVM sample_block sample_tx (empty_db sample_hash) sample_config sample_vm_config (\<lambda>_ _. ([], None))
     (InitTrace InitLogger)"

theorem NewEVM_ready_witness:
  "\<exists>evm. sample_new = Ok evm \<and> (\<exists>o1. jumpTable evm 0x55 = Some o1 \<and> operation_ok True o1)"
proof -
  have c: "CheckConfigForkOrder sample_config = None" "IsEIP150 sample_config 5"
    by (simp_all add: CheckConfigForkOrder_def config_forks_def sample_config_def IsEIP150_def isForked_def)
  from NewEVM_ready [OF c(1), of sample_block sample_vm_config sample_tx "empty_db sample_hash" "\<lambda>_ _. ([], None)"
      "InitTrace InitLogger"]
  show ?thesis using c(2) by (auto simp: sample_new_def sample_block_def)
qed

lemma sample_evm:
  "\<exists>evm. sample_new = Ok evm \<and> wired evm \<and> sdb evm = empty_db sample_hash \<and> Depth evm = 0 \<and> \<not> readOnly evm \<and> Prefetch evm"
proof -
  have c: "CheckConfigForkOrder sample_config = None" "IsEIP150 sample_config 5"
    by (simp_all add: CheckConfigForkOrder_def config_forks_def sample_config_def IsEIP150_def isForked_def)
  from NewEVM_wired [OF c(1), of sample_block sample_vm_config sample_tx "empty_db sample_hash" "\<lambda>_ _. ([], None)"
      "InitTrace InitLogger"]
  show ?thesis
    using c(2) by (auto simp: sample_new_def NewEVM_def Let_def split_beta sample_block_def sample_vm_config_def)
qed

lemma sample_db_ok: "sdb_ok (empty_db sample_hash)"
  by (rule empty_db_ok [OF sample_hash_inj])

section \<open>Runs\<close>

text \<open>
  C24: A run always ends: with fuel for two steps more than its gas, \<^verbatim>\<open>Run\<close> never gives up, whatever
  the code, the input, the state and the depth, nested calls and creations included.
\<close>

theorem Run_terminates:
  assumes "wired evm" "unat (Gas c) + 2 \<le> n"
  shows "Run n c input ro evm \<noteq> NoFuel"
  using evm_run.run_ok [OF assms(1), of n c input ro] assms(2) by (auto dest: post_NoFuel)

definition small_contract :: "bytes \<Rightarrow> u64 \<Rightarrow> Contract" where
  "small_contract code gas = \<lparr>CallerAddress = 1, self = 2, jumpdests = 0, analysis = None, Code = code, CodeHash = 9,
     CodeAddr = Some 2, cInput = [], Gas = gas, cvalue = Some 0\<rparr>"

text \<open>An endless loop: \<^verbatim>\<open>JUMPDEST PUSH1 0 JUMP\<close>.\<close>

theorem Run_terminates_witness:
  "\<exists>evm. sample_new = Ok evm \<and> Run 1002 (small_contract [0x5b, 0x60, 0x00, 0x56] 1000) [] False evm \<noteq> NoFuel"
proof -
  obtain evm where e: "sample_new = Ok evm" "wired evm" using sample_evm by blast
  have "Run 1002 (small_contract [0x5b, 0x60, 0x00, 0x56] 1000) [] False evm \<noteq> NoFuel"
    by (rule Run_terminates [OF e(2)]) (simp add: small_contract_def)
  then show ?thesis using e(1) by blast
qed

section \<open>A world before the first fork\<close>

text \<open>Small enough to evaluate runs: the jump table is the one of Frontier.\<close>

definition frontier_config :: ChainConfig where
  "frontier_config = \<lparr>ChainID = Some 1, HomesteadBlock = None, DAOForkBlock = None,
     DAOForkSupport = False, EIP150Block = None, EIP150Hash = 0, EIP155Block = None, EIP158Block = None,
     ByzantiumBlock = None, ConstantinopleBlock = None, PetersburgBlock = None,
     IstanbulBlock = None, MuirGlacierBlock = None, BerlinBlock = None,
     LondonBlock = None, ArrowGlacierBlock = None, GrayGlacierBlock = None,
     MergeNetsplitBlock = None, ShanghaiBlock = None, CancunBlock = None,
     TerminalTotalDifficulty = None, TerminalTotalDifficultyPassed = False\<rparr>"

definition frontier_table :: JumpTable where
  "frontier_table b = (case map_of frontier_ops b of Some o1 \<Rightarrow> Some o1 | None \<Rightarrow> Some undefined_op)"

definition frontier_evm :: EVM where
  "frontier_evm = \<lparr>Context = sample_block, TxCtx = sample_tx, sdb = empty_db sample_hash, Depth = 0, CallIndex = 0,
     chainConfig = frontier_config, chainRules = ChainRules frontier_config 5 False,
     evmConfig = sample_vm_config, abort = False, callGasTemp = 0, Prefetch = True, readOnly = False, returnData = [],
     jumpTable = frontier_table, analyses = [], logger = InitTrace InitLogger, crypto = (\<lambda>_ _. ([], None))\<rparr>"

lemma frontier_at:
  "frontier_table 0x60 = Some (mk_op (Flow OpPush1) 3 None 0 1023 None)"
  "frontier_table 0x01 = Some (mk_op (Arith OpAdd) 3 None 2 1025 None)"
  "frontier_table 0x00 = Some (mk_op (Flow OpStop) 0 None 0 1024 None)"
  by (simp_all add: frontier_table_def frontier_ops_def frontier_ops_1_def frontier_ops_2_def frontier_ops_3_def
      frontier_ops_4_def frontier_ops_5_def frontier_ops_6_def minStack_def maxStack_def)

lemma frontier_fields:
  "jumpTable frontier_evm = frontier_table" "Prefetch frontier_evm" "\<not> Debug (evmConfig frontier_evm)"
  "Depth frontier_evm = 0" "\<not> readOnly frontier_evm" "sdb frontier_evm = empty_db sample_hash"
  by (simp_all add: frontier_evm_def sample_vm_config_def)

lemma frontier_wired: "wired frontier_evm"
proof -
  obtain jt where jt: "newFrontierInstructionSet = Ok jt" "table_ok False jt" using newFrontier_ok by blast
  have "jt = frontier_table"
    using jt(1) unfolding newFrontierInstructionSet_def frontier_table_def [abs_def] validate_def
    by (auto split: if_splits)
  moreover have "\<not> rIsEIP150 (chainRules frontier_evm)"
    by (simp add: frontier_evm_def ChainRules_def frontier_config_def IsEIP150_def isForked_def)
  ultimately show ?thesis using jt(2) by (simp add: wired_def frontier_fields)
qed

text \<open>Adding two numbers costs nine gas.\<close>

lemma sample_run:
  "Run (Suc (Suc (Suc (Suc (Suc n))))) (small_contract [0x60, 3, 0x60, 2, 0x01, 0x00] 100) [] ro frontier_evm =
   Ok (([], None), small_contract [0x60, 3, 0x60, 2, 0x01, 0x00] 91, frontier_evm)"
  by (cases ro; simp add: small_contract_def step_def frontier_at frontier_fields Let_def GetOp_def UseGas_def charge_dynamic_def
      mk_op_def log_op_def leave_run_def opPush1_def opAdd_def opStop_def binop_def newstack_def pop1_def peek1_def
      poke1_def push1_def pop_def peek_def poke_def push_def finish_def fail_def gindex_def del: rbind_eq_Ok)
    (simp_all add: frontier_evm_def)

section \<open>What a run leaves as it was\<close>

text \<open>
  C27: A run never ends with more gas than it had, and leaves the call depth, the read-only flag, the
  block and the transaction context, the rules and the jump table of the EVM as they were. (The call
  index, the return data, the gas of the last call, the trace and the state are what the code made them.)
\<close>

theorem Run_keeps_machine:
  assumes "wired evm" "Run n c input ro evm = Ok ((ret, err), c', evm')"
  shows "Gas c' \<le> Gas c \<and> Depth evm' = Depth evm \<and> readOnly evm' = readOnly evm \<and> Context evm' = Context evm \<and>
    TxCtx evm' = TxCtx evm \<and> chainRules evm' = chainRules evm \<and> jumpTable evm' = jumpTable evm"
  using postD [OF evm_run.run_ok [OF assms(1)] assms(2)] by (simp add: ran_def moves_def same_vm_def)

theorem Run_keeps_machine_witness:
  "\<exists>c' evm'. Run 5 (small_contract [0x60, 3, 0x60, 2, 0x01, 0x00] 100) [] True frontier_evm = Ok (([], None), c', evm') \<and>
     Gas c' = 91 \<and> Depth evm' = 0 \<and> \<not> readOnly evm'"
proof -
  have r: "Run 5 (small_contract [0x60, 3, 0x60, 2, 0x01, 0x00] 100) [] True frontier_evm =
      Ok (([], None), small_contract [0x60, 3, 0x60, 2, 0x01, 0x00] 91, frontier_evm)"
    using sample_run [of 0 True] by (simp only: numeral_eq_Suc pred_numeral_simps BitM.simps One_nat_def)
  from Run_keeps_machine [OF frontier_wired r] show ?thesis
    using r by (auto simp: small_contract_def frontier_fields)
qed

text \<open>
  While the EVM prefetches, neither a run nor a call touches the trace: the logger's buffers,
  index and stack and the call index are what they were.
\<close>

theorem prefetch_untraced:
  assumes "wired evm" "Prefetch evm" "EVM_Call (Run n) caller addr input gas value evm = Ok (r, evm')"
    "readOnly evm \<longrightarrow> value = 0"
  shows "logger evm' = logger evm \<and> CallIndex evm' = CallIndex evm"
  using postD [OF evm_run.EVM_Call_called [OF assms(1,4)] assms(3)] assms(2)
  by (auto simp: called_def moves_def log_step_def split: prod.splits)

section \<open>Calls\<close>

text \<open>
  C25: A failed call leaves no trace in the state database: every getter answers as before the call.
  Unless the code reverted itself, or the call was refused for its depth or for lack of funds, all its
  gas is gone. A call never returns more gas than it was given.
\<close>

theorem EVM_Call_failed:
  assumes "wired evm" "sdb_ok (sdb evm)" "readOnly evm \<longrightarrow> value = 0"
    "EVM_Call (Run n) caller addr input gas value evm = Ok ((ret, left, err), evm')"
  shows "left \<le> gas \<and>
    (err \<noteq> None \<longrightarrow> same_answers (sdb evm') (sdb evm) \<and>
       (err \<notin> Some ` {ErrExecutionReverted, ErrDepth, ErrInsufficientBalance} \<longrightarrow> left = 0))"
  using postD [OF evm_run.EVM_Call_called [OF assms(1,3)] assms(4)] assms(2) eqv_same_answers
  by (auto simp: called_def)

text \<open>
  C29: The same holds of \<^verbatim>\<open>CallCode\<close>, \<^verbatim>\<open>DelegateCall\<close> and \<^verbatim>\<open>StaticCall\<close>: when they fail, the state answers
  as before, and the gas is gone unless the code reverted itself or the call was refused for its depth or
  for lack of funds.
\<close>

theorem other_calls_failed:
  assumes "wired evm" "sdb_ok (sdb evm)"
    "EVM_CallCode (Run n) caller addr input gas value evm = Ok ((ret, left, err), evm') \<or>
     EVM_DelegateCall (Run n) caller addr input gas evm = Ok ((ret, left, err), evm') \<or>
     EVM_StaticCall (Run n) caller addr input gas evm = Ok ((ret, left, err), evm')"
  shows "left \<le> gas \<and>
    (err \<noteq> None \<longrightarrow> same_answers (sdb evm') (sdb evm) \<and>
       (err \<notin> Some ` {ErrExecutionReverted, ErrDepth, ErrInsufficientBalance} \<longrightarrow> left = 0))"
proof -
  have "\<exists>ro. called ro gas evm ((ret, left, err), evm')"
    using assms(3) postD [OF evm_run.EVM_CallCode_called [OF assms(1)]]
      postD [OF evm_run.EVM_DelegateCall_called [OF assms(1)]] postD [OF evm_run.EVM_StaticCall_called [OF assms(1)]]
    by blast
  then show ?thesis using assms(2) eqv_same_answers by (auto simp: called_def)
qed

text \<open>What a quiet step means for the getters.\<close>

lemma quiet_answers:
  assumes "quiet s t" "sdb_ok s" "sdb_ok t"
  shows "fst (GetBalance a t) = fst (GetBalance a s) \<and> fst (GetNonce a t) = fst (GetNonce a s) \<and>
    fst (GetCode a t) = fst (GetCode a s) \<and>
    (fst (Exist a s) \<longrightarrow> fst (Exist a t) \<and> fst (GetState a k t) = fst (GetState a k s) \<and>
       fst (HasSuicided a t) = fst (HasSuicided a s))"
proof -
  note q = assms(1) [unfolded quiet_def]
  show ?thesis
  proof (cases "live_view s a")
    case None
    show ?thesis
    proof (cases "live_view t a")
      case None
      then show ?thesis using \<open>live_view s a = None\<close> answers [OF sdb_ok_wf] assms(2,3) by simp
    next
      case (Some v)
      then have "blank s v" using q None by blast
      then show ?thesis using Some None answers [OF sdb_ok_wf] assms(2,3) by (simp add: blank_def)
    qed
  next
    case (Some v)
    then have "live_view t a = Some v" using q by blast
    then show ?thesis using Some answers [OF sdb_ok_wf] assms(2,3) by simp
  qed
qed

text \<open>
  C26: A static call writes nothing, whatever code it runs and whatever that code calls: the balance,
  nonce and code of every account and the logs are as before, and an account that existed still exists with
  the same storage and the same suicide flag. (An account that did not exist may be there afterwards, empty:
  the call touches its address.)
\<close>

theorem StaticCall_writes_nothing:
  assumes "wired evm" "sdb_ok (sdb evm)" "EVM_StaticCall (Run n) caller addr input gas evm = Ok (r, evm')"
  shows "fst (GetBalance a (sdb evm')) = fst (GetBalance a (sdb evm)) \<and>
    fst (GetNonce a (sdb evm')) = fst (GetNonce a (sdb evm)) \<and>
    fst (GetCode a (sdb evm')) = fst (GetCode a (sdb evm)) \<and>
    (fst (Exist a (sdb evm)) \<longrightarrow> fst (Exist a (sdb evm')) \<and>
       fst (GetState a k (sdb evm')) = fst (GetState a k (sdb evm)) \<and>
       fst (HasSuicided a (sdb evm')) = fst (HasSuicided a (sdb evm))) \<and>
    logs_of h (sdb evm') = logs_of h (sdb evm)"
proof -
  have "db_step True (sdb evm) (sdb evm')"
    using postD [OF evm_run.EVM_StaticCall_called [OF assms(1)] assms(3)]
    by (auto simp: called_def moves_def split: prod.splits)
  then have "quiet (sdb evm) (sdb evm')" "sdb_ok (sdb evm')"
    using assms(2) db_step_ok by (auto simp: db_step_def)
  then show ?thesis using quiet_answers [of "sdb evm" "sdb evm'" a k] assms(2) by (auto simp: quiet_def)
qed

section \<open>The guarantees at work\<close>

lemma revert_exists:
  assumes "sdb_ok t" "db_step ro (snd (Snapshot_op t)) u"
  shows "\<exists>v. RevertToSnapshot (fst (Snapshot_op t)) u = Ok v"
proof -
  have "evolves (snd (Snapshot_op t)) u"
    using assms(2) evolves_ok(2) [OF Snapshot_op_facts(1) [OF assms(1)]] by (simp add: db_step_def)
  then show ?thesis using RevertToSnapshot_evolves [OF assms(1)] by blast
qed

text \<open>One unit of gas is not enough for the data copy contract at address 4.\<close>

lemma sample_precompile:
  "precompile (chainRules frontier_evm) 4 = Some dataCopy" "\<not> rIsEIP158 (chainRules frontier_evm)"
  "run_precompile dataCopy [7] 1 evm = Ok (([], 0, Some ErrOutOfGas), evm)"
  by (simp_all add: frontier_evm_def precompile_def PrecompiledContractsHomestead_def ChainRules_def frontier_config_def
      IsBerlin_def IsIstanbul_def IsByzantium_def IsEIP158_def isForked_def run_precompile_def RunPrecompiledContract_def
      RequiredGas_def dataCopy_RequiredGas_def words_of_def)

lemma sample_static_call:
  "\<exists>evm'. EVM_StaticCall (Run 3) (AccountRef 1) 4 [7] 1 frontier_evm = Ok (([], 0, Some ErrOutOfGas), evm')"
  using revert_exists [OF sample_db_ok, of True "AddBalance 4 0 (snd (Snapshot_op (empty_db sample_hash)))"]
  by (simp add: EVM_StaticCall_def evm_read_eq evm_write_def frontier_fields sample_precompile finish_call_def Let_def db_intros)

lemma sample_call:
  "\<exists>evm'. EVM_Call (Run 3) (AccountRef 1) 4 [7] 1 0 frontier_evm = Ok (([], 0, Some ErrOutOfGas), evm')"
proof -
  let ?s = "snd (Snapshot_op (empty_db sample_hash))"
  let ?t = "if \<not> fst (Exist 4 ?s) then CreateAccount 4 (snd (Exist 4 ?s)) else snd (Exist 4 ?s)"
  have "db_step True ?s (AddBalance 4 0 (SubBalance 1 0 ?t))"
    by (simp add: db_intros)
  from revert_exists [OF sample_db_ok this] show ?thesis
    by (auto simp: EVM_Call_def Transfer_def evm_read_eq evm_write_def frontier_fields sample_precompile finish_call_def Let_def
        ContractRef_Address_def)
qed

theorem EVM_Call_failed_witness:
  "\<exists>evm'. EVM_Call (Run 3) (AccountRef 1) 4 [7] 1 0 frontier_evm = Ok (([], 0, Some ErrOutOfGas), evm') \<and>
     same_answers (sdb evm') (empty_db sample_hash)"
proof -
  obtain evm' where e: "EVM_Call (Run 3) (AccountRef 1) 4 [7] 1 0 frontier_evm = Ok (([], 0, Some ErrOutOfGas), evm')"
    using sample_call by blast
  from EVM_Call_failed [OF frontier_wired _ _ e] show ?thesis using e sample_db_ok by (simp add: frontier_fields)
qed

theorem other_calls_failed_witness:
  "\<exists>evm'. EVM_StaticCall (Run 3) (AccountRef 1) 4 [7] 1 frontier_evm = Ok (([], 0, Some ErrOutOfGas), evm') \<and>
     same_answers (sdb evm') (empty_db sample_hash)"
proof -
  obtain evm' where e: "EVM_StaticCall (Run 3) (AccountRef 1) 4 [7] 1 frontier_evm = Ok (([], 0, Some ErrOutOfGas), evm')"
    using sample_static_call by blast
  from other_calls_failed [OF frontier_wired _ disjI2 [OF disjI2 [OF e]]] show ?thesis
    using e sample_db_ok by (simp add: frontier_fields)
qed

theorem StaticCall_writes_nothing_witness:
  "\<exists>r evm'. EVM_StaticCall (Run 3) (AccountRef 1) 4 [7] 1 frontier_evm = Ok (r, evm') \<and>
     fst (GetBalance 4 (sdb evm')) = fst (GetBalance 4 (empty_db sample_hash)) \<and> logs_of 0 (sdb evm') = []"
proof -
  obtain evm' where e: "EVM_StaticCall (Run 3) (AccountRef 1) 4 [7] 1 frontier_evm = Ok (([], 0, Some ErrOutOfGas), evm')"
    using sample_static_call by blast
  have "logs_of 0 (empty_db sample_hash) = []" by (simp add: logs_of_def empty_db_def)
  then show ?thesis
    using StaticCall_writes_nothing [OF frontier_wired _ e, of 4 0 0] e sample_db_ok by (auto simp: frontier_fields)
qed

theorem prefetch_untraced_witness:
  "\<exists>r evm'. EVM_Call (Run 3) (AccountRef 1) 4 [7] 1 0 frontier_evm = Ok (r, evm') \<and> logger evm' = InitTrace InitLogger"
proof -
  obtain evm' where e: "EVM_Call (Run 3) (AccountRef 1) 4 [7] 1 0 frontier_evm = Ok (([], 0, Some ErrOutOfGas), evm')"
    using sample_call by blast
  from prefetch_untraced [OF frontier_wired _ e] have "logger evm' = logger frontier_evm" by (simp add: frontier_fields)
  then show ?thesis using e by (auto simp: frontier_evm_def)
qed

end
