(* ===== verification/StackBounds.thy ===== *)
theory StackBounds
  imports Guarantees
begin

text \<open>
  The stack during a run: each instruction changes its height by what the jump table says, and the
  height never leaves the bounds of the yellow paper.
\<close>

definition effect :: "nat \<Rightarrow> nat \<Rightarrow> frame \<Rightarrow> op_result \<times> frame \<Rightarrow> bool" where
  "effect n m fr p \<longleftrightarrow> (snd (snd (fst p)) = None \<longrightarrow> length (fstack (snd p)) + n = length (fstack fr) + m)"

lemma effect_arith: "post True (exec_arith f fr) (effect (pops (Arith f)) (pushes (Arith f)) fr)"
  by (cases f) (simp_all add: arith_defs unop_def binop_def triop_def post_simps effect_def)

lemma effect_env: "post True (exec_env f fr) (effect (pops (Env f)) (pushes (Env f)) fr)"
  by (cases f) (simp_all add: env_defs push_out_def push1_def push_def post_simps Let_def effect_def)

lemma jump_to_effect: "post True (jump_to d fr) (\<lambda>p. fstack (snd p) = fstack fr)"
  by (simp add: jump_to_def post_simps Let_def) (auto simp: post_def split: res.split)

lemma jump_to_pops:
  "length (fstack fr) = n + length st \<Longrightarrow> post True (jump_to d (fr\<lparr>fstack := st\<rparr>)) (effect n 0 fr)"
  by (rule post_mono [OF jump_to_effect]) (simp_all add: effect_def)

lemma effect_flow: "post True (exec_flow f fr) (effect (pops (Flow f)) (pushes (Flow f)) fr)"
  by (cases f)
    (simp_all add: flow_defs push1_def push_def copy_to_memory_def dup_def swap_def post_simps Let_def effect_def
      jump_to_pops)

lemma effect_state: "post True (exec_state f fr) (effect (pops (Access f)) (pushes (Access f)) fr)"
  by (cases f) (simp_all add: state_defs push_out_def push1_def push_def copy_to_memory_def db_write_def post_simps Let_def effect_def)

lemma lift_call_stack: "post True (lift_call g fr) (\<lambda>p. fstack (snd p) = fstack fr)"
  by (simp add: lift_call_def post_simps) (auto simp: post_def split: res.split)

lemma after_effects:
  "length (fstack fr) = length st + n \<Longrightarrow> fstack f = st \<Longrightarrow> post True (after_call off len r f) (effect n 1 fr)"
  "length (fstack fr) = length st + n \<Longrightarrow> fstack f = st \<Longrightarrow> post True (after_create b q f) (effect n 1 fr)"
  by (simp_all add: after_call_def after_create_def Let_def post_simps effect_def push1_def push_def add_gas_def set_returnData_def)

lemma call_effect:
  assumes "length (fstack fr) = length (fstack f) + n"
  shows "post True (lift_call g f) (\<lambda>x. post True (case x of (r, f) \<Rightarrow> after_call off len r f) (effect n 1 fr))"
    "post True (lift_call h f) (\<lambda>x. post True (case x of (r, f) \<Rightarrow> after_create (b r f) r f) (effect n 1 fr))"
proof -
  have "post True (case x of (r, f) \<Rightarrow> after_call off len r f) (effect n 1 fr)" if "fstack (snd x) = fstack f" for x
    using after_effects(1) [OF assms that] by (simp add: split_beta)
  then show "post True (lift_call g f) (\<lambda>x. post True (case x of (r, f) \<Rightarrow> after_call off len r f) (effect n 1 fr))"
    by (intro post_mono [OF lift_call_stack]) blast+
  have "post True (case x of (r, f) \<Rightarrow> after_create (b r f) r f) (effect n 1 fr)" if "fstack (snd x) = fstack f" for x
    using after_effects(2) [OF assms that] by (simp add: split_beta)
  then show "post True (lift_call h f) (\<lambda>x. post True (case x of (r, f) \<Rightarrow> after_create (b r f) r f) (effect n 1 fr))"
    by (intro post_mono [OF lift_call_stack]) blast+
qed

lemma effect_call: "post True (exec_call run f fr) (effect (pops (SubCall f)) (pushes (SubCall f)) fr)"
proof -
  have e: "effect n m fr ((x, y, Some e), f)" for n m x y e f by (simp add: effect_def)
  note d = opCreate_def opCreate2_def opCall_def opCallCode_def opDelegateCall_def opStaticCall_def
  note u = exec_call.simps d post_basic post_stack prod.case Let_def frame.simps post_if post_memory post_finish pushes.simps
  show ?thesis
    by (cases f; simp only: u; intro allI impI conjI call_effect; simp add: e)
qed

lemma exec_effect: "post True (exec_op run e fr) (effect (pops e) (pushes e) fr)"
  using effect_arith effect_env effect_flow effect_state effect_call by (cases e) simp_all

section \<open>One step\<close>

lemma step_stack:
  assumes "wired (interp fr)" "mem_ok (fmem fr)"
  shows "post True (step run fr) (\<lambda>p. fst p = None \<longrightarrow> length (fstack (snd p)) \<le> StackLimit)"
proof -
  let ?b = "GetOp (contract fr) (pc fr)"
  obtain o1 where jt: "jumpTable (interp fr) ?b = Some o1" and ok: "operation_ok (rIsEIP150 (chainRules (interp fr))) o1"
    using assms(1) by (auto simp: wired_def table_ok_def entry_ok_def)
  let ?e = "execute o1"
  let ?fr = "fr\<lparr>contract := (contract fr)\<lparr>Gas := Gas (contract fr) - constantGas o1\<rparr>\<rparr>"
  have charge: "post True (charge_dynamic o1 ?fr) (\<lambda>p. \<forall>c. fst p = Inr c \<longrightarrow> fstack (snd p) = fstack fr)"
    by (rule post_mono [OF charge_dynamic_post]) (use assms ok in \<open>auto simp: charged_def\<close>)
  have low: "int (pops ?e) \<le> int (length (fstack fr)) \<Longrightarrow> int (length (fstack fr)) \<le> int StackLimit + int (pops ?e) - int (pushes ?e) \<Longrightarrow>
      length st + pops ?e = length (fstack fr) + pushes ?e \<Longrightarrow> length st \<le> StackLimit" for st :: stack
    by linarith
  have run: "post True (case p of (Inl e, fr1) \<Rightarrow> Ok (Some ([], Some e), fr1)
      | (Inr cost, fr1) \<Rightarrow> rbind (exec_op run ?e fr1) (\<lambda>((res, output, err), fr2).
          let fr3 = log_op (pc fr) ?b k cost output fr2
          in case err of None \<Rightarrow> Ok (None, fr3\<lparr>pc := pc fr3 + 1\<rparr>)
             | Some e \<Rightarrow> Ok (Some (res, if e = errStopToken then None else Some e), fr3)))
      (\<lambda>p. fst p = None \<longrightarrow> length (fstack (snd p)) \<le> StackLimit)"
    if b: "int (pops ?e) \<le> int (length (fstack fr))" "int (length (fstack fr)) \<le> int StackLimit + int (pops ?e) - int (pushes ?e)"
      and p: "\<forall>c. fst p = Inr c \<longrightarrow> fstack (snd p) = fstack fr" for p k
  proof (cases "fst p")
    case (Inl e)
    then show ?thesis by (cases p) simp
  next
    case (Inr c)
    have l: "fstack (log_op x1 x2 x3 x4 x5 f) = fstack f" for x1 x2 x3 x4 x5 f by (simp add: log_op_def Let_def)
    show ?thesis
      using Inr p low [OF b] exec_effect [of run ?e "snd p"]
      by (cases p) (auto simp: Let_def effect_def l split: option.split elim!: post_mono)
  qed
  note main = post_mono [OF charge _ run [where k = "if Debug (evmConfig (interp fr)) then Gas (contract fr) else 0"]]
  show ?thesis
  proof (cases "minStack_of o1 \<le> int (length (fstack fr)) \<and> int (length (fstack fr)) \<le> maxStack_of o1")
    case True
    then show ?thesis
      using main ok by (simp add: step_def jt UseGas_def Let_def operation_ok_def not_less cong: if_cong)
  qed (auto simp: step_def jt Let_def not_le)
qed

section \<open>Frames that a run reaches\<close>

inductive reaches :: "run_fn \<Rightarrow> frame \<Rightarrow> frame \<Rightarrow> bool" for run where
  start: "reaches run fr fr"
| further: "reaches run fr f \<Longrightarrow> step run f = Ok (None, f') \<Longrightarrow> reaches run fr f'"

lemma reaches_step_first: "reaches run f f'' \<Longrightarrow> step run fr = Ok (None, f) \<Longrightarrow> reaches run fr f''"
  by (induction rule: reaches.induct) (auto intro: reaches.intros)

lemma reaches_loop: "reaches run fr f \<Longrightarrow> run_loop m run f = Ok r \<Longrightarrow> \<exists>n. run_loop n run fr = Ok r"
proof (induction arbitrary: m rule: reaches.induct)
  case (further fr f f')
  then have "run_loop (Suc m) run f = Ok r" by simp
  then show ?case by (rule further.IH)
qed blast

lemma loop_reaches: "run_loop n run fr = Ok (x, f') \<Longrightarrow> \<exists>f. reaches run fr f \<and> step run f = Ok (Some x, f')"
proof (induction n arbitrary: fr)
  case (Suc n)
  then obtain r f where s: "step run fr = Ok (r, f)" by auto
  show ?case
  proof (cases r)
    case None
    then have "run_loop n run f = Ok (x, f')" using Suc.prems s by simp
    from Suc.IH [OF this] show ?thesis using reaches_step_first s None by blast
  next
    case (Some y)
    then show ?thesis using Suc.prems s by (auto intro: reaches.start)
  qed
qed simp

text \<open>
  The loop of the interpreter is the repetition of its step: with enough fuel it returns a result
  exactly when a frame is reached whose step ends the run with that result.
\<close>

theorem run_loop_reaches:
  "(\<exists>n. run_loop n run fr = Ok (x, f')) = (\<exists>f. reaches run fr f \<and> step run f = Ok (Some x, f'))"
proof
  assume "\<exists>n. run_loop n run fr = Ok (x, f')"
  then show "\<exists>f. reaches run fr f \<and> step run f = Ok (Some x, f')" using loop_reaches by blast
next
  assume "\<exists>f. reaches run fr f \<and> step run f = Ok (Some x, f')"
  then obtain f where f: "reaches run fr f" "step run f = Ok (Some x, f')" by blast
  then have "run_loop 1 run f = Ok (x, f')" by simp
  with f(1) show "\<exists>n. run_loop n run fr = Ok (x, f')" by (rule reaches_loop)
qed

text \<open>
  C28: In every frame that a run reaches, the stack holds at most 1024 words, the memory is a whole
  number of words whose cost is the one last charged, and the gas has not grown.
\<close>

theorem reachable_frames:
  assumes "reaches (Run n) fr f" "wired (interp fr)" "mem_ok (fmem fr)" "length (fstack fr) \<le> StackLimit"
  shows "length (fstack f) \<le> StackLimit \<and> 32 dvd mem_Len (fmem f) \<and>
    unat (lastGasCost (fmem f)) = memory_fee (mem_Len (fmem f) div 32) \<and> Gas (contract f) \<le> Gas (contract fr)"
proof -
  have "length (fstack f) \<le> StackLimit \<and> mem_ok (fmem f) \<and> frame_step fr f"
    using assms
  proof (induction rule: reaches.induct)
    case (further fr f f')
    then have f: "length (fstack f) \<le> StackLimit" "mem_ok (fmem f)" "frame_step fr f" by auto
    have w: "wired (interp f)" using f(3) further.prems(1) wired_moves by (auto simp: frame_step_def vm_step_moves)
    have p: "progress f (None, f')" using postD [OF evm_run.step_ok [OF w f(2)] further.hyps(2)] .
    have "length (fstack f') \<le> StackLimit" using postD [OF step_stack [OF w f(2)] further.hyps(2)] by simp
    then show ?case using p frame_step_trans [OF f(3)] by (simp add: progress_def)
  qed simp
  then show ?thesis by (simp add: mem_ok_def frame_step_def)
qed

lemma sample_step:
  "step run \<lparr>pc = 0, interp = frontier_evm, fmem = NewMemory, fstack = [],
      contract = small_contract [0x60, 3, 0x60, 2, 0x01, 0x00] 100\<rparr> =
   Ok (None, \<lparr>pc = 2, interp = frontier_evm, fmem = NewMemory, fstack = [3],
      contract = small_contract [0x60, 3, 0x60, 2, 0x01, 0x00] 97\<rparr>)"
  by (simp add: small_contract_def step_def frontier_at frontier_fields Let_def GetOp_def UseGas_def charge_dynamic_def
      mk_op_def log_op_def opPush1_def newstack_def push1_def push_def finish_def del: rbind_eq_Ok)

theorem reachable_frames_witness:
  "\<exists>f. reaches (Run 3) \<lparr>pc = 0, interp = frontier_evm, fmem = NewMemory, fstack = [],
      contract = small_contract [0x60, 3, 0x60, 2, 0x01, 0x00] 100\<rparr> f \<and> fstack f = [3] \<and>
      length (fstack f) \<le> StackLimit \<and> Gas (contract f) \<le> 100"
proof -
  let ?f = "\<lparr>pc = 2, interp = frontier_evm, fmem = NewMemory, fstack = [3],
      contract = small_contract [0x60, 3, 0x60, 2, 0x01, 0x00] 97\<rparr>"
  note r = further [OF start sample_step, of "Run 3"]
  have "length (fstack ?f) \<le> StackLimit \<and> Gas (contract ?f) \<le> 100"
    using reachable_frames [OF r] frontier_wired mem_ok_New by (simp add: small_contract_def)
  then show ?thesis using r by (intro exI [of _ ?f]) simp
qed

end
