(* ===== verification/Accounts.thy ===== *)
theory Accounts
  imports Effects
begin

text \<open>
  What the setters of the state database write: each changes one field of one account, which it
  creates when it is absent, and every getter answers accordingly.
\<close>

section \<open>The account that is written\<close>

definition written :: "StateDB \<Rightarrow> address \<Rightarrow> (obj_view \<Rightarrow> obj_view) \<Rightarrow> StateDB \<Rightarrow> bool" where
  "written s a f s' \<longleftrightarrow> sdb_ok s' \<and> (\<exists>v. \<not> v_deleted v \<and> \<not> v_deleted (f v) \<and>
     (case live_view s a of Some w \<Rightarrow> v = w | None \<Rightarrow> blank s v) \<and> live_view s' = (live_view s)(a \<mapsto> f v))"

lemma GetOrNew_view:
  assumes "sdb_ok s" "GetOrNewStateObject a s = (obj, s1)"
  shows "held s1 a obj" "same_env s1 s" "case live_view s a of Some w \<Rightarrow> obj_view s1 obj = w | None \<Rightarrow> blank s (obj_view s1 obj)"
    "acc_view s1 = (acc_view s)(a \<mapsto> obj_view s1 obj)"
proof -
  show h: "held s1 a obj" by (rule GetOrNew_evolves [OF assms])
  note hf = held_facts [OF h]
  obtain r s0 where g: "getStateObject a s = (r, s0)" by (cases "getStateObject a s")
  note G = getStateObject_held [OF assms(1) g]
  have "same_env s1 s \<and> (case live_view s a of Some w \<Rightarrow> obj_view s1 obj = w | None \<Rightarrow> blank s (obj_view s1 obj)) \<and>
      acc_view s1 = (acc_view s)(a \<mapsto> obj_view s1 obj)"
  proof (cases r)
    case None
    then obtain p where c: "createObject a s0 = (obj, p, s1)"
      using assms(2) g by (auto simp: GetOrNewStateObject_def split: prod.splits)
    obtain v where v: "acc_view s1 = (acc_view s0)(a \<mapsto> v)" "blank s0 v" using createObject_view(1) [OF G(2) c] by blast
    have "v = obj_view s1 obj" using hf(6) v(1) by simp
    moreover have "live_view s a = None" using live_view_None [OF assms(1)] g None by simp
    moreover have "same_env s0 s" "acc_view s0 = acc_view s" using G(3) by (simp_all add: eqv_def)
    moreover have "blank s = blank s0" by (rule blank_env) (use G(3) in \<open>simp add: eqv_def same_env_sym\<close>)
    ultimately show ?thesis using v createObject_view(4) [OF G(2) c] same_env_trans by auto
  next
    case (Some o1)
    then have e: "obj = o1" "s1 = s0" using assms(2) g by (simp_all add: GetOrNewStateObject_def)
    have a: "acc_view s a = Some (obj_view s1 obj)" using G(6) Some e by simp
    moreover have "\<not> v_deleted (obj_view s1 obj)" using hf(7) by (simp add: obj_view_def)
    moreover have "acc_view s1 = acc_view s" "same_env s1 s" using G(3) e by (simp_all add: eqv_def)
    ultimately show ?thesis by (simp add: live_view_acc fun_upd_idem)
  qed
  then show "same_env s1 s" "case live_view s a of Some w \<Rightarrow> obj_view s1 obj = w | None \<Rightarrow> blank s (obj_view s1 obj)"
    "acc_view s1 = (acc_view s)(a \<mapsto> obj_view s1 obj)" by simp_all
qed

lemma written_object:
  assumes "sdb_ok s" "GetOrNewStateObject a s = (obj, s1)" "sdb_ok s'"
    "acc_view s' = (acc_view s1)(a \<mapsto> f (obj_view s1 obj))" "\<not> v_deleted (f (obj_view s1 obj))"
  shows "written s a f s'"
proof -
  note g = GetOrNew_view [OF assms(1,2)]
  have d: "\<not> v_deleted (obj_view s1 obj)" using held_facts(7) [OF g(1)] by (simp add: obj_view_def)
  have "live_view s' = (live_view s)(a \<mapsto> f (obj_view s1 obj))"
    using assms(5) by (auto simp: fun_eq_iff live_view_acc assms(4) g(4))
  then show ?thesis
    using assms(3,5) d g(3) unfolding written_def
    by (intro conjI exI [of _ "obj_view s1 obj"]) (auto split: option.splits)
qed

lemma written_same:
  assumes "sdb_ok s" "GetOrNewStateObject a s = (obj, s1)" "sdb_ok s'" "acc_view s' = acc_view s1" "f (obj_view s1 obj) = obj_view s1 obj"
  shows "written s a f s'"
proof (rule written_object [OF assms(1,2,3)])
  note h = held_facts [OF GetOrNew_view(1) [OF assms(1,2)]]
  show "acc_view s' = (acc_view s1)(a \<mapsto> f (obj_view s1 obj))" using h(6) assms(4,5) by (simp add: fun_upd_idem)
  show "\<not> v_deleted (f (obj_view s1 obj))" using h(7) assms(5) by (simp add: obj_view_def)
qed

section \<open>The setters\<close>

lemma acc_view_append: "sdb_ok s \<Longrightarrow> acc_view (setStateObject o1 (journal_append e s)) = (acc_view s)(so_address o1 \<mapsto> obj_view s o1)"
proof -
  assume "sdb_ok s"
  from eqv_append [OF sdb_ok_wf [OF this], of e] have e: "eqv (journal_append e s) s" .
  have "obj_view (journal_append e s) = obj_view s" using obj_view_eqv [OF eqv_sym [OF e]] .
  moreover have "acc_view (journal_append e s) = acc_view s" using e by (simp add: eqv_def)
  ultimately show ?thesis by (simp add: acc_view_set)
qed

lemma acc_view_SetState:
  assumes "held s a obj"
  shows "acc_view (so_SetState obj k w s) = (acc_view s)(a \<mapsto> (obj_view s obj)\<lparr>v_storage := (v_storage (obj_view s obj))(k := w)\<rparr>)"
proof -
  note h = held_facts [OF assms]
  have nf: "fakeStorage obj = None" using h(3) by (simp add: obj_wf_def)
  obtain prev obj1 where g: "so_GetState s obj k = (prev, obj1)" by (cases "so_GetState s obj k")
  have same: "same_obj s obj obj1" using same_obj_GetState [of s obj k] by (simp add: g)
  have a1: "so_address obj1 = a" "fakeStorage obj1 = None" "obj_view s obj1 = obj_view s obj"
    using same h(4) nf by (simp_all add: same_obj_def)
  have p: "v_storage (obj_view s obj) k = prev" by (simp add: obj_view_def g)
  show ?thesis
  proof (cases "prev = w")
    case True
    then show ?thesis using p nf g a1 by (simp add: so_SetState_def acc_view_set fun_upd_idem)
  next
    case False
    then show ?thesis
      using nf g a1 h(4) by (simp add: so_SetState_def acc_view_append [OF h(1)] view_setState)
  qed
qed

lemma acc_view_SetCode:
  assumes "held s a obj" "hh = hasher s c"
  shows "acc_view (so_SetCode obj hh (if c = [] then None else Some c) s) =
    (acc_view s)(a \<mapsto> (obj_view s obj)\<lparr>v_codehash := Some hh, v_code := c\<rparr>)"
proof -
  note h = held_facts [OF assms(1)]
  obtain pc obj1 where g: "so_Code s obj = (pc, obj1)" by (cases "so_Code s obj")
  have same: "same_obj s obj obj1" using same_obj_Code [of s obj] by (simp add: g)
  have a1: "so_address obj1 = a" "obj_view s obj1 = obj_view s obj" using same h(4) by (simp_all add: same_obj_def)
  have "code_of s (addrHash obj1) hh (if c = [] then None else Some c) = c"
    by (simp add: code_of_def emptyCodeHash_def assms(2))
  moreover have "so_address (so_setCode hh (if c = [] then None else Some c) obj1) = a" using a1(1) by simp
  ultimately show ?thesis
    using g a1 by (simp add: so_SetCode_def acc_view_append [OF h(1)] view_setCode del: if_split_eq1)
qed

lemma acc_view_touch: "sdb_ok s \<Longrightarrow> acc_view (touch obj s) = acc_view s"
proof -
  assume ok: "sdb_ok s"
  have e: "acc_view (journal_append e s) = acc_view s" for e
    using eqv_append [OF sdb_ok_wf [OF ok], of e] by (simp add: eqv_def)
  have "acc_view (journal_dirty b t) = acc_view t" for b t
    by (rule acc_view_frame) (simp_all add: journal_dirty_def same_env_def)
  then show ?thesis using e by (simp add: touch_def Let_def)
qed

lemma setters_written:
  assumes "sdb_ok s"
  shows "written s a (\<lambda>v. v\<lparr>v_balance := v_balance v + x\<rparr>) (AddBalance a x s)"
    "written s a (\<lambda>v. v\<lparr>v_balance := v_balance v - x\<rparr>) (SubBalance a x s)"
    "written s a (\<lambda>v. v\<lparr>v_balance := x\<rparr>) (SetBalance a x s)"
    "written s a (\<lambda>v. v\<lparr>v_nonce := n\<rparr>) (SetNonce a n s)"
    "written s a (\<lambda>v. v\<lparr>v_codehash := Some (hasher s c), v_code := c\<rparr>) (SetCode a c s)"
    "written s a (\<lambda>v. v\<lparr>v_storage := (v_storage v)(k := w)\<rparr>) (SetState a k w s)"
proof -
  obtain obj s1 where g: "GetOrNewStateObject a s = (obj, s1)" by (cases "GetOrNewStateObject a s")
  note G = GetOrNew_view [OF assms g]
  note h = held_facts [OF G(1)]
  have nd: "\<not> v_deleted (obj_view s1 obj)" using h(7) by (simp add: obj_view_def)
  have b: "aBalance (so_data obj) = v_balance (obj_view s1 obj)" by (simp add: obj_view_def)
  note ok = evolves_ok(2) [OF op_evolves(1) [OF assms]] evolves_ok(2) [OF op_evolves(2) [OF assms]]
    evolves_ok(2) [OF op_evolves(3) [OF assms]] evolves_ok(2) [OF op_evolves(4) [OF assms]]
    evolves_ok(2) [OF op_evolves(5) [OF assms]] evolves_ok(2) [OF SetState_evolves [OF assms]]
  show "written s a (\<lambda>v. v\<lparr>v_balance := v_balance v + x\<rparr>) (AddBalance a x s)"
  proof (cases "x = 0")
    case True
    show ?thesis
      by (rule written_same [OF assms g ok(1)])
        (use g in \<open>simp_all add: True AddBalance_def so_AddBalance_def acc_view_touch [OF h(1)]\<close>)
  next
    case False
    show ?thesis
      by (rule written_object [OF assms g ok(1)])
        (use False setBalance_logged(3) [OF G(1)] nd g b in \<open>simp_all add: AddBalance_def so_AddBalance_def\<close>)
  qed
  show "written s a (\<lambda>v. v\<lparr>v_balance := v_balance v - x\<rparr>) (SubBalance a x s)"
  proof (cases "x = 0")
    case True
    show ?thesis by (rule written_same [OF assms g ok(2)]) (use g in \<open>simp_all add: True SubBalance_def so_SubBalance_def\<close>)
  next
    case False
    show ?thesis
      by (rule written_object [OF assms g ok(2)])
        (use False setBalance_logged(3) [OF G(1)] nd g b in \<open>simp_all add: SubBalance_def so_SubBalance_def\<close>)
  qed
  show "written s a (\<lambda>v. v\<lparr>v_balance := x\<rparr>) (SetBalance a x s)"
    by (rule written_object [OF assms g ok(3)]) (use setBalance_logged(3) [OF G(1)] nd g in \<open>simp_all add: SetBalance_def\<close>)
  show "written s a (\<lambda>v. v\<lparr>v_nonce := n\<rparr>) (SetNonce a n s)"
    by (rule written_object [OF assms g ok(4)]) (use setNonce_logged(2) [OF G(1)] nd g in \<open>simp_all add: SetNonce_def\<close>)
  show "written s a (\<lambda>v. v\<lparr>v_codehash := Some (hasher s c), v_code := c\<rparr>) (SetCode a c s)"
    by (rule written_object [OF assms g ok(5)])
      (use acc_view_SetCode [OF G(1) refl, of c] G(2) nd g in \<open>simp_all add: SetCode_def same_env_def\<close>)
  show "written s a (\<lambda>v. v\<lparr>v_storage := (v_storage v)(k := w)\<rparr>) (SetState a k w s)"
    by (rule written_object [OF assms g ok(6)]) (use acc_view_SetState [OF G(1)] nd g in \<open>simp_all add: SetState_def\<close>)
qed

text \<open>What the getters answer after an account was written.\<close>

lemma written_answers:
  assumes "sdb_ok s" "written s a f s'" "b \<noteq> a"
  shows "fst (GetBalance b s') = fst (GetBalance b s)" "fst (GetNonce b s') = fst (GetNonce b s)"
    "fst (GetCode b s') = fst (GetCode b s)" "fst (GetState b k s') = fst (GetState b k s)"
    "fst (Exist b s') = fst (Exist b s)" "fst (HasSuicided b s') = fst (HasSuicided b s)"
proof -
  have "sdb_ok s'" "live_view s' b = live_view s b" using assms(2,3) by (auto simp: written_def)
  then show "fst (GetBalance b s') = fst (GetBalance b s)" "fst (GetNonce b s') = fst (GetNonce b s)"
    "fst (GetCode b s') = fst (GetCode b s)" "fst (GetState b k s') = fst (GetState b k s)"
    "fst (Exist b s') = fst (Exist b s)" "fst (HasSuicided b s') = fst (HasSuicided b s)"
    using assms(1) by (simp_all add: answers [OF sdb_ok_wf])
qed

lemma written_here:
  assumes "sdb_ok s" "written s a f s'"
  shows "\<exists>v. fst (GetBalance a s) = v_balance v \<and> fst (GetNonce a s) = v_nonce v \<and> fst (GetCode a s) = v_code v \<and>
      (\<forall>k. fst (Exist a s) \<longrightarrow> fst (GetState a k s) = v_storage v k) \<and>
      fst (GetBalance a s') = v_balance (f v) \<and> fst (GetNonce a s') = v_nonce (f v) \<and> fst (GetCode a s') = v_code (f v) \<and>
      (\<forall>k. fst (GetState a k s') = v_storage (f v) k) \<and> fst (Exist a s')"
proof -
  obtain v where v: "sdb_ok s'" "case live_view s a of Some w \<Rightarrow> v = w | None \<Rightarrow> blank s v" "live_view s' a = Some (f v)"
    using assms(2) by (auto simp: written_def)
  show ?thesis
    by (rule exI [of _ v])
      (use v assms(1) in \<open>auto simp: answers [OF sdb_ok_wf] blank_def split: option.splits\<close>)
qed

lemma balance_after:
  assumes "sdb_ok s"
  shows "fst (GetBalance b (AddBalance a x s)) = fst (GetBalance b s) + (if b = a then x else 0) \<and>
    fst (GetBalance b (SubBalance a x s)) = fst (GetBalance b s) - (if b = a then x else 0) \<and>
    fst (GetBalance b (SetBalance a x s)) = (if b = a then x else fst (GetBalance b s))"
proof (cases "b = a")
  case True
  show ?thesis
    using written_here [OF assms setters_written(1) [OF assms, where a = a and x = x]]
      written_here [OF assms setters_written(2) [OF assms, where a = a and x = x]]
      written_here [OF assms setters_written(3) [OF assms, where a = a and x = x]] by (auto simp: True)
next
  case False
  then show ?thesis
    using written_answers(1) [OF assms setters_written(1) [OF assms] False] written_answers(1) [OF assms setters_written(2) [OF assms] False]
      written_answers(1) [OF assms setters_written(3) [OF assms] False] by simp
qed

text \<open>
  The balance operations change the balance of their account by their amount, creating the account
  if need be, and leave all other balances alone.
\<close>

theorem balances_written:
  assumes "sdb_ok s"
  shows "fst (GetBalance b (AddBalance a x s)) = fst (GetBalance b s) + (if b = a then x else 0) \<and>
    fst (GetBalance b (SubBalance a x s)) = fst (GetBalance b s) - (if b = a then x else 0) \<and>
    fst (GetBalance b (SetBalance a x s)) = (if b = a then x else fst (GetBalance b s))"
  by (rule balance_after [OF assms])

theorem balances_written_witness:
  "fst (GetBalance 7 (AddBalance 7 100 (empty_db sample_hash))) = fst (GetBalance 7 (empty_db sample_hash)) + 100 \<and>
   fst (GetBalance 8 (AddBalance 7 100 (empty_db sample_hash))) = fst (GetBalance 8 (empty_db sample_hash))"
  using balances_written [OF empty_db_ok [OF sample_hash_inj], of 7 7 100]
    balances_written [OF empty_db_ok [OF sample_hash_inj], of 8 7 100] by simp

text \<open>
  C32: Nonce, code and storage are read back as they were written, and writing to one account or slot
  leaves the others alone. (The slots of an account that did not exist are those of the empty trie,
  which the database supplies.)
\<close>

theorem fields_written:
  assumes "sdb_ok s"
  shows "fst (GetNonce b (SetNonce a n s)) = (if b = a then n else fst (GetNonce b s)) \<and>
    fst (GetCode b (SetCode a c s)) = (if b = a then c else fst (GetCode b s)) \<and>
    fst (GetState a k (SetState a k w s)) = w \<and>
    (b \<noteq> a \<or> fst (Exist a s) \<and> k' \<noteq> k \<longrightarrow> fst (GetState b k' (SetState a k w s)) = fst (GetState b k' s))"
proof (cases "b = a")
  case True
  show ?thesis
    using written_here [OF assms setters_written(4) [OF assms, where a = a and n = n]]
      written_here [OF assms setters_written(5) [OF assms, where a = a and c = c]]
      written_here [OF assms setters_written(6) [OF assms, where a = a and k = k and w = w]]
    by (auto simp: True)
next
  case False
  then show ?thesis
    using written_answers(2) [OF assms setters_written(4) [OF assms] False] written_answers(3) [OF assms setters_written(5) [OF assms] False]
      written_answers(4) [OF assms setters_written(6) [OF assms] False] written_here [OF assms setters_written(6) [OF assms, where a = a and k = k and w = w]] by auto
qed

theorem fields_written_witness:
  "fst (GetNonce 7 (SetNonce 7 5 (empty_db sample_hash))) = 5 \<and>
   fst (GetCode 7 (SetCode 7 [0x60, 0x00] (empty_db sample_hash))) = [0x60, 0x00] \<and>
   fst (GetState 7 1 (SetState 7 1 42 (empty_db sample_hash))) = 42"
  using fields_written [OF empty_db_ok [OF sample_hash_inj], of 7 7 5 "[0x60, 0x00]" 1 42] by simp

section \<open>Creating an account\<close>

lemma CreateAccount_answers:
  assumes "sdb_ok s"
  shows "fst (GetBalance a (CreateAccount a s)) = fst (GetBalance a s) \<and> fst (GetNonce a (CreateAccount a s)) = 0 \<and>
    fst (GetCode a (CreateAccount a s)) = [] \<and> fst (Exist a (CreateAccount a s)) \<and> \<not> fst (HasSuicided a (CreateAccount a s)) \<and>
    (b \<noteq> a \<longrightarrow> fst (GetBalance b (CreateAccount a s)) = fst (GetBalance b s) \<and>
       fst (GetNonce b (CreateAccount a s)) = fst (GetNonce b s) \<and> fst (GetCode b (CreateAccount a s)) = fst (GetCode b s) \<and>
       fst (GetState b k (CreateAccount a s)) = fst (GetState b k s))"
proof -
  obtain obj p s' where c: "createObject a s = (obj, p, s')" by (cases "createObject a s")
  obtain v where v: "acc_view s' = (acc_view s)(a \<mapsto> v)" "blank s v" using createObject_view(1) [OF assms c] by blast
  note h = held_facts [OF createObject_evolves(2) [OF assms c]]
  have ov: "obj_view s' obj = v" using h(6) v(1) by simp
  have p: "p = live s a" by (rule createObject_view(6) [OF assms c])
  let ?t = "CreateAccount a s"
  have ok: "sdb_ok ?t" by (rule evolves_ok(2) [OF CreateAccount_evolves [OF assms]])
  define x where "x = (case p of None \<Rightarrow> 0 | Some q \<Rightarrow> aBalance (so_data q))"
  have x: "x = fst (GetBalance a s)"
    by (simp add: x_def p answers [OF sdb_ok_wf [OF assms]] live_view_def obj_view_def split: option.split)
  have "acc_view ?t = (acc_view s)(a \<mapsto> v\<lparr>v_balance := x\<rparr>)"
  proof (cases p)
    case None
    then show ?thesis using c v by (cases v) (simp add: CreateAccount_def x_def blank_def)
  next
    case (Some q)
    have "so_address (so_setBalance (aBalance (so_data q)) obj) = a" using h(4) by (simp add: so_setBalance_def)
    then show ?thesis using Some c v(1) by (simp add: CreateAccount_def x_def acc_view_set view_setBalance ov)
  qed
  then have l: "live_view ?t = (live_view s)(a \<mapsto> v\<lparr>v_balance := x\<rparr>)"
    using v(2) by (auto simp: fun_eq_iff live_view_acc blank_def)
  show ?thesis
    using v(2) x by (simp add: answers [OF sdb_ok_wf [OF ok]] answers(2-6,8) [OF sdb_ok_wf [OF assms]] l blank_def)
qed

text \<open>
  \<^verbatim>\<open>CreateAccount\<close> makes a fresh account that keeps only the balance of the one before: nonce zero,
  no code, not self-destructed. All other accounts stay as they are.
\<close>

theorem CreateAccount_carries_balance:
  assumes "sdb_ok s"
  shows "fst (GetBalance a (CreateAccount a s)) = fst (GetBalance a s) \<and> fst (GetNonce a (CreateAccount a s)) = 0 \<and>
    fst (GetCode a (CreateAccount a s)) = [] \<and> fst (Exist a (CreateAccount a s)) \<and> \<not> fst (HasSuicided a (CreateAccount a s)) \<and>
    (b \<noteq> a \<longrightarrow> fst (GetBalance b (CreateAccount a s)) = fst (GetBalance b s) \<and>
       fst (GetNonce b (CreateAccount a s)) = fst (GetNonce b s) \<and> fst (GetCode b (CreateAccount a s)) = fst (GetCode b s) \<and>
       fst (GetState b k (CreateAccount a s)) = fst (GetState b k s))"
  by (rule CreateAccount_answers [OF assms])

theorem CreateAccount_carries_balance_witness:
  "fst (GetBalance 7 (CreateAccount 7 (SetNonce 7 3 (AddBalance 7 100 (empty_db sample_hash))))) = 100 \<and>
   fst (GetNonce 7 (CreateAccount 7 (SetNonce 7 3 (AddBalance 7 100 (empty_db sample_hash))))) = 0"
proof -
  let ?s = "empty_db sample_hash"
  have ok: "sdb_ok ?s" by (rule empty_db_ok [OF sample_hash_inj])
  note ok1 = evolves_ok(2) [OF AddBalance_evolves [OF ok, of 7 100]]
  note ok2 = evolves_ok(2) [OF SetNonce_evolves [OF ok1]]
  have "fst (GetBalance 7 ?s) = 0"
    by (simp add: GetBalance_def getStateObject_def getDeletedStateObject_def load_account_def empty_db_def)
  moreover have "fst (GetBalance 7 (AddBalance 7 100 ?s)) = fst (GetBalance 7 ?s) + 100"
    using written_here [OF ok setters_written(1) [OF ok, where a = 7 and x = 100]] by auto
  moreover have "fst (GetBalance 7 (SetNonce 7 3 (AddBalance 7 100 ?s))) = fst (GetBalance 7 (AddBalance 7 100 ?s))"
    using written_here [OF ok1 setters_written(4) [OF ok1, where a = 7 and n = 3]] by auto
  ultimately show ?thesis using CreateAccount_carries_balance [OF ok2, of 7] by simp
qed

end
