(* ===== verification/Arithmetic.thy ===== *)
theory Arithmetic
  imports Guarantees
begin

text \<open>
  What the instructions compute: exponentiation, sign extension and arithmetic shift against their
  mathematical meaning, memory words written and read back, data copied with zero padding, push data,
  and modular exponentiation.
\<close>

text \<open>A frame to try instructions on.\<close>

definition sample_frame :: "stack \<Rightarrow> Memory \<Rightarrow> frame" where
  "sample_frame st m = \<lparr>pc = 0, interp = frontier_evm, fmem = m, fstack = st, contract = small_contract [] 100\<rparr>"

section \<open>Operations on words\<close>

lemma pow_word_power: "pow_word b e = b ^ e"
proof (induction b e rule: pow_word.induct)
  case (1 b e)
  show ?case
  proof (cases "e = 0")
    case False
    then have h: "pow_word (b * b) (e div 2) = (b * b) ^ (e div 2)" using 1 by simp
    have "b ^ e = b ^ (e mod 2) * (b * b) ^ (e div 2)"
      by (metis power_add power_mult power2_eq_square mod_mult_div_eq)
    then show ?thesis using False h by (auto simp: pow_word.simps [of b e] Let_def mod2_eq_if)
  qed (simp add: pow_word.simps)
qed

text \<open>Exponentiation by squaring is the power modulo 2 to the 256.\<close>

lemma u_exp_power: "u_exp b e = b ^ unat e"
  by (simp add: u_exp_def pow_word_power)

text \<open>
  \<^verbatim>\<open>SIGNEXTEND\<close> takes the low bytes of a word as a signed number: the bits above the sign bit
  become copies of it, and a size of 31 or more changes nothing.
\<close>

lemma u_extend_sign_signed:
  "u_extend_sign x k = (if k > 30 then x else signed_take_bit (8 * unat k + 7) x)"
proof -
  have "(if bit x n then x OR NOT (mask n) else x AND mask n) = signed_take_bit n x" if "n < 256" for n
    by (rule bit_word_eqI) (auto simp: bit_simps min_def split: if_splits)
  moreover have "8 * unat k + 7 < 256" if "\<not> k > 30" using that by (simp add: not_less word_le_nat_alt)
  ultimately show ?thesis by (simp add: u_extend_sign_def Let_def mult.commute)
qed

text \<open>\<^verbatim>\<open>SAR\<close> divides the signed val by a power of two, rounding down, for every shift count.\<close>

theorem opSAR_floor:
  assumes "fstack fr = shift # val # st"
  shows "\<exists>r. opSAR fr = Ok (([], [], None), fr\<lparr>fstack := r # st\<rparr>) \<and> sint r = sint val div 2 ^ unat shift"
proof -
  let ?r = "if shift > 256 then (if sint val \<ge> 0 then 0 else NOT 0) else u_srsh val (unat (Uint64 shift))"
  have "opSAR fr = Ok (([], [], None), fr\<lparr>fstack := ?r # st\<rparr>)"
    using assms by (simp add: opSAR_def binop_def pop1_def pop_def peek1_def peek_def poke1_def poke_def gindex_def finish_def)
  moreover have "sint ?r = sint val div 2 ^ unat shift"
  proof (cases "shift > 256")
    case True
    have "256 \<le> unat shift" using True by (simp add: word_less_nat_alt)
    then have p: "(2 :: int) ^ 256 \<le> 2 ^ unat shift" by (rule power_increasing) simp
    have "- (2 ^ 255) \<le> sint val" "sint val < 2 ^ 255" using sint_greater_eq [of val] sint_less [of val] by simp_all
    moreover have "a div k = - 1" if "- k \<le> a" "a < 0" "0 < k" for a k :: int
      by (rule int_div_pos_eq [where r = "a + k"]) (use that in simp_all)
    ultimately have "sint val div 2 ^ unat shift = (if sint val \<ge> 0 then 0 else - 1)"
      using p by (auto simp: div_pos_pos_trivial not_le)
    then show ?thesis using True by simp
  next
    case False
    then have "unat (Uint64 shift) = unat shift"
      by (simp add: Uint64_def unsigned_ucast_eq take_bit_nat_eq_self not_less word_le_nat_alt)
    then show ?thesis using False by (simp add: u_srsh_def sint_signed_drop_bit_eq drop_bit_eq_div)
  qed
  ultimately show ?thesis by blast
qed

text \<open>Minus eight shifted right by one is minus four; by 300, minus one.\<close>

theorem opSAR_floor_witness:
  "(\<exists>r. opSAR (sample_frame [1, - 8] NewMemory) = Ok (([], [], None), sample_frame [r] NewMemory) \<and> sint r = - 4) \<and>
   (\<exists>r. opSAR (sample_frame [300, - 8] NewMemory) = Ok (([], [], None), sample_frame [r] NewMemory) \<and> sint r = - 1)"
  using opSAR_floor [of "sample_frame [1, - 8] NewMemory" 1 "- 8" "[]"] opSAR_floor [of "sample_frame [300, - 8] NewMemory" 300 "- 8" "[]"]
  by (simp add: sample_frame_def)

section \<open>Data and memory\<close>

text \<open>The slice of data from a position, as long as asked for, zero where there is none.\<close>

definition padded :: "bytes \<Rightarrow> nat \<Rightarrow> nat \<Rightarrow> bytes" where
  "padded d start n = map (\<lambda>i. if start + i < length d then d ! (start + i) else 0) [0..<n]"

lemma sint_small: "unat (w :: u64) < 2 ^ 63 \<Longrightarrow> sint w = int (unat w)"
proof -
  assume "unat w < 2 ^ 63"
  then have "int (unat w) < int (2 ^ 63)" by (simp only: of_nat_less_iff)
  then have "uint w < 2 ^ 63" by simp
  moreover have "0 \<le> uint w" by simp
  ultimately have "signed_take_bit 63 (uint w) = uint w" by (intro signed_take_bit_int_eq_self) linarith+
  then show ?thesis by (simp add: sint_uint)
qed

lemma padded_slice:
  "s = min start (length d) \<Longrightarrow> e = min (s + n) (length d) \<Longrightarrow> RightPadBytes (take (e - s) (drop s d)) n = padded d start n"
  by (rule nth_equalityI) (auto simp: RightPadBytes_def padded_def nth_append min_def split: if_splits)

lemma getData_padded:
  assumes "length d < 2 ^ 63" "unat sz < 2 ^ 63"
  shows "getData d start sz = Ok (padded d (unat start) (unat sz))"
proof -
  let ?l = "of_nat (length d) :: u64"
  let ?s = "if start > ?l then ?l else start"
  let ?e = "if ?s + sz > ?l then ?l else ?s + sz"
  have l: "unat ?l = length d" using assms(1) by (simp add: of64)
  have s: "unat ?s = min (unat start) (length d)" using l by (auto simp: word_less_nat_alt min_def)
  have p: "unat (?s + sz) = unat ?s + unat sz" using s assms by (subst unat_add_lem [symmetric]) simp
  have e: "unat ?e = min (unat ?s + unat sz) (length d)" using l p by (auto simp: word_less_nat_alt min_def)
  have z: "nat (sint sz) = unat sz" using assms(2) by (simp add: sint_small)
  show ?thesis
    using padded_slice [OF s e] s e z by (auto simp: getData_def Let_def gslice_def)
qed

text \<open>
  \<^verbatim>\<open>getData\<close> returns the bytes of the data from the given position, padded with zeros
  to the given size, also when the position is behind the data, for sizes below 2 to the 63.
\<close>

theorem getData_pads:
  assumes "length d < 2 ^ 63" "unat sz < 2 ^ 63"
  shows "getData d start sz = Ok (map (\<lambda>i. if unat start + i < length d then d ! (unat start + i) else 0) [0..<unat sz])"
  using getData_padded [OF assms] by (simp add: padded_def)

theorem getData_pads_witness: "getData [1, 2, 3] 2 4 = Ok [3, 0, 0, 0]"
  using getData_pads [of "[1, 2, 3]" 4 2] by (simp add: upt_rec)

text \<open>
  The end of the slice is computed modulo 2 to the 64: for a size near that bound it wraps to a
  position before the start, and \<^verbatim>\<open>getData\<close> panics, though its comment calls it overflow safe.
\<close>

theorem getData_wraps: "getData [1, 2, 3] 2 0xFFFFFFFFFFFFFFFF = Panic"
  by (simp add: getData_def Let_def gslice_def)

text \<open>
  A word stored in memory is loaded back: \<^verbatim>\<open>MSTORE\<close> followed by \<^verbatim>\<open>MLOAD\<close> at the
  same offset returns the value, whatever happened to the stack in between.
\<close>

theorem opMload_opMstore:
  assumes "fstack fr = off # val # st" "unat off + 32 \<le> mem_Len (fmem fr)" "mem_Len (fmem fr) < 2 ^ 63"
  shows "\<exists>fr1 fr2. opMstore fr = Ok (([], [], None), fr1) \<and> fstack fr1 = st \<and>
    opMload (fr1\<lparr>fstack := off # st'\<rparr>) = Ok (([], word_bytes val, None), fr2) \<and> fstack fr2 = val # st'"
proof -
  have off: "unat off < 2 ^ 63" using assms(2,3) by linarith
  have u: "unat (Uint64 off) = unat off"
    using off by (simp add: Uint64_def unsigned_ucast_eq take_bit_nat_eq_self)
  have i: "int64 (Uint64 off) = int (unat off)"
    using off u by (simp add: int64_def sint_small)
  have p: "unat (Uint64 off + 32) = unat off + 32" using off u by (subst unat_add_lem [THEN iffD1]) simp_all
  have fits: "\<not> of_nat (mem_Len (fmem fr)) < Uint64 off + 32"
    using assms(2,3) p by (simp add: word_less_nat_alt of64)
  let ?m = "(fmem fr)\<lparr>store := copy_at (store (fmem fr)) (unat off) (be_bytes 32 val)\<rparr>"
  have st: "opMstore fr = Ok (([], [], None), fr\<lparr>fstack := st, fmem := ?m\<rparr>)"
    using assms(1,2) fits u by (simp add: opMstore_def pop1_def pop_def mem_Set32_def gslice_def mem_Len_def finish_def)
  have len: "mem_Len ?m = mem_Len (fmem fr)" using assms(2) by (simp add: mem_Len_def)
  have "take 32 (drop (unat off) (store ?m)) = be_bytes 32 val"
    using slice_copy_at [of "unat off" "be_bytes 32 val" "store (fmem fr)"] assms(2) by (simp add: mem_Len_def)
  then have ptr: "GetPtr (int64 (Uint64 off)) 32 ?m = Ok (be_bytes 32 val)"
    using assms(2) len i by (simp add: GetPtr_def gslice_def nat_add_distrib mem_Len_def del: of_nat_unat)
  show ?thesis
    using st by (auto simp: opMload_def peek1_def peek_def gindex_def ptr be_word_be_bytes poke1_def poke_def finish_def)
qed

text \<open>The number 7 through the second word of a memory of two words.\<close>

theorem opMload_opMstore_witness:
  "\<exists>fr1 fr2. opMstore (sample_frame [32, 7] (Resize 64 NewMemory)) = Ok (([], [], None), fr1) \<and> fstack fr1 = [] \<and>
     opMload (fr1\<lparr>fstack := [32, 9]\<rparr>) = Ok (([], word_bytes 7, None), fr2) \<and> fstack fr2 = [7, 9]"
proof -
  have "mem_Len (Resize 64 NewMemory) = 64" by (simp add: mem_Len_def Resize_def NewMemory_def)
  then show ?thesis
    using opMload_opMstore [of "sample_frame [32, 7] (Resize 64 NewMemory)" 32 7 "[]" "[9]"]
    by (simp add: sample_frame_def)
qed

end
