(* ===== verification/Transactions.thy ===== *)
theory Transactions
  imports Params Rlp Precompiles
begin

text \<open>
  Transactions and their senders (core/types: transaction.go, the three kinds of transaction data,
  transaction_signing.go). Big integers are \<open>int\<close>; the data handed to \<^verbatim>\<open>NewTx\<close> may hold nil
  pointers, so the record of each kind takes the type of its numbers as a parameter, and \<^verbatim>\<open>copy\<close>
  goes from \<open>int option\<close> to \<open>int\<close>. The hash function and the recovery of public keys
  (libsecp256k1) are parameters. The caches of hash, size and sender hold what the functions below
  compute and are left out.
\<close>

section \<open>Transaction data\<close>

type_synonym AccessTuple = "address \<times> hash list"
type_synonym AccessListT = "AccessTuple list option"

definition StorageKeys :: "AccessTuple list \<Rightarrow> nat" where
  "StorageKeys al = sum_list (map (\<lambda>t. length (snd t)) al)"

record 'i LegacyTx =
  lNonce :: u64
  lGasPrice :: 'i
  lGas :: u64
  lTo :: "address option"
  lValue :: 'i
  lData :: bytes
  lV :: 'i
  lR :: 'i
  lS :: 'i

record 'i AccessListTx =
  aChainID :: 'i
  aNonce :: u64
  aGasPrice :: 'i
  aGas :: u64
  aTo :: "address option"
  aValue :: 'i
  aData :: bytes
  aAccessList :: AccessListT
  aV :: 'i
  aR :: 'i
  aS :: 'i

record 'i DynamicFeeTx =
  dChainID :: 'i
  dNonce :: u64
  dGasTipCap :: 'i
  dGasFeeCap :: 'i
  dGas :: u64
  dTo :: "address option"
  dValue :: 'i
  dData :: bytes
  dAccessList :: AccessListT
  dV :: 'i
  dR :: 'i
  dS :: 'i

datatype 'i TxData = Legacy "'i LegacyTx" | AccessTx "'i AccessListTx" | DynamicFee "'i DynamicFeeTx"

text \<open>\<^verbatim>\<open>new(big.Int)\<close>, set to the number when there is one; \<^verbatim>\<open>make\<close> never gives nil.\<close>

definition copy_int :: "int option \<Rightarrow> int" where
  "copy_int x = (case x of None \<Rightarrow> 0 | Some i \<Rightarrow> i)"

definition copy_list :: "AccessListT \<Rightarrow> AccessListT" where
  "copy_list al = Some (case al of None \<Rightarrow> [] | Some l \<Rightarrow> l)"

definition LegacyTx_copy :: "int option LegacyTx \<Rightarrow> int LegacyTx" where
  "LegacyTx_copy tx =
     \<lparr>lNonce = lNonce tx, lGasPrice = copy_int (lGasPrice tx), lGas = lGas tx, lTo = lTo tx,
      lValue = copy_int (lValue tx), lData = lData tx,
      lV = copy_int (lV tx), lR = copy_int (lR tx), lS = copy_int (lS tx)\<rparr>"

definition AccessListTx_copy :: "int option AccessListTx \<Rightarrow> int AccessListTx" where
  "AccessListTx_copy tx =
     \<lparr>aChainID = copy_int (aChainID tx), aNonce = aNonce tx, aGasPrice = copy_int (aGasPrice tx), aGas = aGas tx,
      aTo = aTo tx, aValue = copy_int (aValue tx), aData = aData tx, aAccessList = copy_list (aAccessList tx),
      aV = copy_int (aV tx), aR = copy_int (aR tx), aS = copy_int (aS tx)\<rparr>"

definition DynamicFeeTx_copy :: "int option DynamicFeeTx \<Rightarrow> int DynamicFeeTx" where
  "DynamicFeeTx_copy tx =
     \<lparr>dChainID = copy_int (dChainID tx), dNonce = dNonce tx, dGasTipCap = copy_int (dGasTipCap tx),
      dGasFeeCap = copy_int (dGasFeeCap tx), dGas = dGas tx, dTo = dTo tx, dValue = copy_int (dValue tx),
      dData = dData tx, dAccessList = copy_list (dAccessList tx),
      dV = copy_int (dV tx), dR = copy_int (dR tx), dS = copy_int (dS tx)\<rparr>"

fun TxData_copy :: "int option TxData \<Rightarrow> int TxData" where
  "TxData_copy (Legacy t) = Legacy (LegacyTx_copy t)"
| "TxData_copy (AccessTx t) = AccessTx (AccessListTx_copy t)"
| "TxData_copy (DynamicFee t) = DynamicFee (DynamicFeeTx_copy t)"

record Transaction =
  inner :: "int TxData"
  seen :: nat

definition NewTx :: "int option TxData \<Rightarrow> nat \<Rightarrow> Transaction" where
  "NewTx data now = \<lparr>inner = TxData_copy data, seen = now\<rparr>"

section \<open>Accessors\<close>

definition LegacyTxType :: byte where [simp]: "LegacyTxType = 0"
definition AccessListTxType :: byte where [simp]: "AccessListTxType = 1"
definition DynamicFeeTxType :: byte where [simp]: "DynamicFeeTxType = 2"

fun txType :: "int TxData \<Rightarrow> byte" where
  "txType (Legacy t) = LegacyTxType"
| "txType (AccessTx t) = AccessListTxType"
| "txType (DynamicFee t) = DynamicFeeTxType"

text \<open>\<^verbatim>\<open>Uint64\<close> gives the low 64 bits of the absolute value.\<close>

definition big_Uint64 :: "int \<Rightarrow> u64" where
  "big_Uint64 v = of_int \<bar>v\<bar>"

definition deriveChainId :: "int \<Rightarrow> int" where
  "deriveChainId v =
     (if \<bar>v\<bar> < 2 ^ 64 then
        (let w = big_Uint64 v in if w = 27 \<or> w = 28 then 0 else uint ((w - 35) div 2))
      else (v - 35) div 2)"

definition isProtectedV :: "int \<Rightarrow> bool" where
  "isProtectedV v =
     (if \<bar>v\<bar> < 2 ^ 8 then let w = big_Uint64 v in w \<noteq> 27 \<and> w \<noteq> 28 \<and> w \<noteq> 1 \<and> w \<noteq> 0 else True)"

fun tx_chainID :: "int TxData \<Rightarrow> int" where
  "tx_chainID (Legacy t) = deriveChainId (lV t)"
| "tx_chainID (AccessTx t) = aChainID t"
| "tx_chainID (DynamicFee t) = dChainID t"

fun tx_accessList :: "int TxData \<Rightarrow> AccessListT" where
  "tx_accessList (Legacy t) = None"
| "tx_accessList (AccessTx t) = aAccessList t"
| "tx_accessList (DynamicFee t) = dAccessList t"

fun tx_data :: "int TxData \<Rightarrow> bytes" where
  "tx_data (Legacy t) = lData t"
| "tx_data (AccessTx t) = aData t"
| "tx_data (DynamicFee t) = dData t"

fun tx_gas :: "int TxData \<Rightarrow> u64" where
  "tx_gas (Legacy t) = lGas t"
| "tx_gas (AccessTx t) = aGas t"
| "tx_gas (DynamicFee t) = dGas t"

fun tx_gasPrice :: "int TxData \<Rightarrow> int" where
  "tx_gasPrice (Legacy t) = lGasPrice t"
| "tx_gasPrice (AccessTx t) = aGasPrice t"
| "tx_gasPrice (DynamicFee t) = dGasFeeCap t"

fun tx_gasTipCap :: "int TxData \<Rightarrow> int" where
  "tx_gasTipCap (Legacy t) = lGasPrice t"
| "tx_gasTipCap (AccessTx t) = aGasPrice t"
| "tx_gasTipCap (DynamicFee t) = dGasTipCap t"

fun tx_gasFeeCap :: "int TxData \<Rightarrow> int" where
  "tx_gasFeeCap (Legacy t) = lGasPrice t"
| "tx_gasFeeCap (AccessTx t) = aGasPrice t"
| "tx_gasFeeCap (DynamicFee t) = dGasFeeCap t"

fun tx_value :: "int TxData \<Rightarrow> int" where
  "tx_value (Legacy t) = lValue t"
| "tx_value (AccessTx t) = aValue t"
| "tx_value (DynamicFee t) = dValue t"

fun tx_nonce :: "int TxData \<Rightarrow> u64" where
  "tx_nonce (Legacy t) = lNonce t"
| "tx_nonce (AccessTx t) = aNonce t"
| "tx_nonce (DynamicFee t) = dNonce t"

fun tx_to :: "int TxData \<Rightarrow> address option" where
  "tx_to (Legacy t) = lTo t"
| "tx_to (AccessTx t) = aTo t"
| "tx_to (DynamicFee t) = dTo t"

fun rawSignatureValues :: "int TxData \<Rightarrow> int \<times> int \<times> int" where
  "rawSignatureValues (Legacy t) = (lV t, lR t, lS t)"
| "rawSignatureValues (AccessTx t) = (aV t, aR t, aS t)"
| "rawSignatureValues (DynamicFee t) = (dV t, dR t, dS t)"

fun setSignatureValues :: "int \<Rightarrow> int \<Rightarrow> int \<Rightarrow> int \<Rightarrow> int TxData \<Rightarrow> int TxData" where
  "setSignatureValues chainID v r s (Legacy t) = Legacy (t\<lparr>lV := v, lR := r, lS := s\<rparr>)"
| "setSignatureValues chainID v r s (AccessTx t) = AccessTx (t\<lparr>aChainID := chainID, aV := v, aR := r, aS := s\<rparr>)"
| "setSignatureValues chainID v r s (DynamicFee t) = DynamicFee (t\<lparr>dChainID := chainID, dV := v, dR := r, dS := s\<rparr>)"

fun Protected :: "int TxData \<Rightarrow> bool" where
  "Protected (Legacy t) = isProtectedV (lV t)"
| "Protected _ = True"

section \<open>Fees\<close>

definition BigMin :: "int \<Rightarrow> int \<Rightarrow> int" where
  "BigMin x y = (if x > y then y else x)"

definition BigMax :: "int \<Rightarrow> int \<Rightarrow> int" where
  "BigMax x y = (if x < y then y else x)"

definition Cost :: "int TxData \<Rightarrow> int" where
  "Cost tx = tx_gasPrice tx * uint (tx_gas tx) + tx_value tx"

text \<open>The flag says whether the error \<^verbatim>\<open>ErrGasFeeCapTooLow\<close> comes with the tip.\<close>

definition EffectiveGasTip :: "int option \<Rightarrow> int TxData \<Rightarrow> int \<times> bool" where
  "EffectiveGasTip baseFee tx = (case baseFee of
       None \<Rightarrow> (tx_gasTipCap tx, False)
     | Some b \<Rightarrow> (BigMin (tx_gasTipCap tx) (tx_gasFeeCap tx - b), tx_gasFeeCap tx < b))"

definition EffectiveGasTipValue :: "int option \<Rightarrow> int TxData \<Rightarrow> int" where
  "EffectiveGasTipValue baseFee tx = fst (EffectiveGasTip baseFee tx)"

definition big_Cmp :: "int \<Rightarrow> int \<Rightarrow> int" where
  "big_Cmp x y = (if x < y then - 1 else if x = y then 0 else 1)"

definition GasFeeCapCmp :: "int TxData \<Rightarrow> int TxData \<Rightarrow> int" where
  "GasFeeCapCmp tx other = big_Cmp (tx_gasFeeCap tx) (tx_gasFeeCap other)"

definition GasFeeCapIntCmp :: "int TxData \<Rightarrow> int \<Rightarrow> int" where
  "GasFeeCapIntCmp tx other = big_Cmp (tx_gasFeeCap tx) other"

definition GasTipCapCmp :: "int TxData \<Rightarrow> int TxData \<Rightarrow> int" where
  "GasTipCapCmp tx other = big_Cmp (tx_gasTipCap tx) (tx_gasTipCap other)"

definition GasTipCapIntCmp :: "int TxData \<Rightarrow> int \<Rightarrow> int" where
  "GasTipCapIntCmp tx other = big_Cmp (tx_gasTipCap tx) other"

definition EffectiveGasTipCmp :: "int TxData \<Rightarrow> int TxData \<Rightarrow> int option \<Rightarrow> int" where
  "EffectiveGasTipCmp tx other baseFee =
     (if baseFee = None then GasTipCapCmp tx other
      else big_Cmp (EffectiveGasTipValue baseFee tx) (EffectiveGasTipValue baseFee other))"

definition EffectiveGasTipIntCmp :: "int TxData \<Rightarrow> int \<Rightarrow> int option \<Rightarrow> int" where
  "EffectiveGasTipIntCmp tx other baseFee =
     (if baseFee = None then GasTipCapIntCmp tx other
      else big_Cmp (EffectiveGasTipValue baseFee tx) other)"

section \<open>Encoding\<close>

text \<open>Negative integers are refused by the encoder; the fields of a transaction are not negative.\<close>

definition big_item :: "int \<Rightarrow> item" where
  "big_item i = (if \<bar>i\<bar> < 2 ^ 64 then RUint (big_Uint64 i) else RBytes (bytes_of_nat (nat \<bar>i\<bar>)))"

definition to_item :: "address option \<Rightarrow> item" where
  "to_item a = RBytes (case a of None \<Rightarrow> [] | Some a \<Rightarrow> addr_bytes a)"

definition access_item :: "AccessListT \<Rightarrow> item" where
  "access_item al = RList (map (\<lambda>(a, ks). RList [RBytes (addr_bytes a), RList (map (\<lambda>k. RBytes (hash_bytes k)) ks)])
     (case al of None \<Rightarrow> [] | Some l \<Rightarrow> l))"

fun TxData_item :: "int TxData \<Rightarrow> item" where
  "TxData_item (Legacy t) =
     RList [RUint (lNonce t), big_item (lGasPrice t), RUint (lGas t), to_item (lTo t), big_item (lValue t),
            RBytes (lData t), big_item (lV t), big_item (lR t), big_item (lS t)]"
| "TxData_item (AccessTx t) =
     RList [big_item (aChainID t), RUint (aNonce t), big_item (aGasPrice t), RUint (aGas t), to_item (aTo t),
            big_item (aValue t), RBytes (aData t), access_item (aAccessList t),
            big_item (aV t), big_item (aR t), big_item (aS t)]"
| "TxData_item (DynamicFee t) =
     RList [big_item (dChainID t), RUint (dNonce t), big_item (dGasTipCap t), big_item (dGasFeeCap t),
            RUint (dGas t), to_item (dTo t), big_item (dValue t), RBytes (dData t),
            access_item (dAccessList t), big_item (dV t), big_item (dR t), big_item (dS t)]"

definition encodeTyped :: "int TxData \<Rightarrow> bytes" where
  "encodeTyped tx = txType tx # EncodeToBytes (TxData_item tx)"

definition MarshalBinary :: "int TxData \<Rightarrow> bytes" where
  "MarshalBinary tx = (if txType tx = LegacyTxType then EncodeToBytes (TxData_item tx) else encodeTyped tx)"

definition EncodeRLP :: "int TxData \<Rightarrow> bytes" where
  "EncodeRLP tx =
     (if txType tx = LegacyTxType then EncodeToBytes (TxData_item tx) else EncodeToBytes (RBytes (encodeTyped tx)))"

text \<open>The hash function and the recovery of the public key from a hash and a signature.\<close>

record sigCrypto =
  keccak :: "bytes \<Rightarrow> hash"
  Ecrecover :: "hash \<Rightarrow> bytes \<Rightarrow> string + bytes"

definition rlpHash :: "sigCrypto \<Rightarrow> item \<Rightarrow> hash" where
  "rlpHash k x = keccak k (EncodeToBytes x)"

definition prefixedRlpHash :: "sigCrypto \<Rightarrow> byte \<Rightarrow> item \<Rightarrow> hash" where
  "prefixedRlpHash k p x = keccak k (p # EncodeToBytes x)"

definition Tx_Hash :: "sigCrypto \<Rightarrow> int TxData \<Rightarrow> hash" where
  "Tx_Hash k tx =
     (if txType tx = LegacyTxType then rlpHash k (TxData_item tx) else prefixedRlpHash k (txType tx) (TxData_item tx))"

section \<open>Signers\<close>

datatype Signer = FrontierSigner | HomesteadSigner | EIP155Signer int | eip2930Signer int | londonSigner int

datatype tx_error = ErrInvalidSig | ErrInvalidChainId | ErrTxTypeNotSupported | RecoverFailed string | InvalidPublicKey

definition NewEIP155Signer :: "int option \<Rightarrow> Signer" where
  "NewEIP155Signer c = EIP155Signer (copy_int c)"

definition NewEIP2930Signer :: "int option \<Rightarrow> Signer" where
  "NewEIP2930Signer c = eip2930Signer (copy_int c)"

definition NewLondonSigner :: "int option \<Rightarrow> Signer" where
  "NewLondonSigner c = londonSigner (copy_int c)"

definition MakeSigner :: "ChainConfig \<Rightarrow> int \<Rightarrow> Signer" where
  "MakeSigner config blockNumber =
     (if IsLondon config blockNumber then NewLondonSigner (ChainID config)
      else if IsBerlin config blockNumber then NewEIP2930Signer (ChainID config)
      else if IsEIP155 config blockNumber then NewEIP155Signer (ChainID config)
      else if IsHomestead config blockNumber then HomesteadSigner
      else FrontierSigner)"

definition LatestSigner :: "ChainConfig \<Rightarrow> Signer" where
  "LatestSigner config =
     (if ChainID config \<noteq> None \<and> LondonBlock config \<noteq> None then NewLondonSigner (ChainID config)
      else if ChainID config \<noteq> None \<and> BerlinBlock config \<noteq> None then NewEIP2930Signer (ChainID config)
      else if ChainID config \<noteq> None \<and> EIP155Block config \<noteq> None then NewEIP155Signer (ChainID config)
      else HomesteadSigner)"

definition LatestSignerForChainID :: "int option \<Rightarrow> Signer" where
  "LatestSignerForChainID c = (if c = None then HomesteadSigner else NewLondonSigner c)"

definition frontier_Hash :: "sigCrypto \<Rightarrow> int TxData \<Rightarrow> hash" where
  "frontier_Hash k tx =
     rlpHash k (RList [RUint (tx_nonce tx), big_item (tx_gasPrice tx), RUint (tx_gas tx), to_item (tx_to tx),
       big_item (tx_value tx), RBytes (tx_data tx)])"

definition eip155_Hash :: "sigCrypto \<Rightarrow> int \<Rightarrow> int TxData \<Rightarrow> hash" where
  "eip155_Hash k chainId tx =
     rlpHash k (RList [RUint (tx_nonce tx), big_item (tx_gasPrice tx), RUint (tx_gas tx), to_item (tx_to tx),
       big_item (tx_value tx), RBytes (tx_data tx), big_item chainId, RUint 0, RUint 0])"

definition eip2930_Hash :: "sigCrypto \<Rightarrow> int \<Rightarrow> int TxData \<Rightarrow> hash" where
  "eip2930_Hash k chainId tx =
     (if txType tx = LegacyTxType then
        rlpHash k (RList [RUint (tx_nonce tx), big_item (tx_gasPrice tx), RUint (tx_gas tx), to_item (tx_to tx),
          big_item (tx_value tx), RBytes (tx_data tx), big_item chainId, RUint 0, RUint 0])
      else if txType tx = AccessListTxType then
        prefixedRlpHash k (txType tx) (RList [big_item chainId, RUint (tx_nonce tx), big_item (tx_gasPrice tx),
          RUint (tx_gas tx), to_item (tx_to tx), big_item (tx_value tx), RBytes (tx_data tx), access_item (tx_accessList tx)])
      else 0)"

definition london_Hash :: "sigCrypto \<Rightarrow> int \<Rightarrow> int TxData \<Rightarrow> hash" where
  "london_Hash k chainId tx =
     (if txType tx \<noteq> DynamicFeeTxType then eip2930_Hash k chainId tx
      else prefixedRlpHash k (txType tx) (RList [big_item chainId, RUint (tx_nonce tx), big_item (tx_gasTipCap tx),
          big_item (tx_gasFeeCap tx), RUint (tx_gas tx), to_item (tx_to tx), big_item (tx_value tx),
          RBytes (tx_data tx), access_item (tx_accessList tx)]))"

fun Signer_Hash :: "sigCrypto \<Rightarrow> Signer \<Rightarrow> int TxData \<Rightarrow> hash" where
  "Signer_Hash k FrontierSigner tx = frontier_Hash k tx"
| "Signer_Hash k HomesteadSigner tx = frontier_Hash k tx"
| "Signer_Hash k (EIP155Signer c) tx = eip155_Hash k c tx"
| "Signer_Hash k (eip2930Signer c) tx = eip2930_Hash k c tx"
| "Signer_Hash k (londonSigner c) tx = london_Hash k c tx"

fun Signer_ChainID :: "Signer \<Rightarrow> int option" where
  "Signer_ChainID FrontierSigner = None"
| "Signer_ChainID HomesteadSigner = None"
| "Signer_ChainID (EIP155Signer c) = Some c"
| "Signer_ChainID (eip2930Signer c) = Some c"
| "Signer_ChainID (londonSigner c) = Some c"

section \<open>Recovering the sender\<close>

definition secp256k1N :: int where
  "secp256k1N = 0xfffffffffffffffffffffffffffffffebaaedce6af48a03bbfd25e8cd0364141"

definition secp256k1halfN :: int where
  "secp256k1halfN = secp256k1N div 2"

definition ValidateSignatureValues :: "byte \<Rightarrow> int \<Rightarrow> int \<Rightarrow> bool \<Rightarrow> bool" where
  "ValidateSignatureValues v r s homestead =
     (if r < 1 \<or> s < 1 then False
      else if homestead \<and> s > secp256k1halfN then False
      else r < secp256k1N \<and> s < secp256k1N \<and> (v = 0 \<or> v = 1))"

text \<open>The address of the key that made a signature.\<close>

definition signature_address :: "sigCrypto \<Rightarrow> hash \<Rightarrow> bytes \<Rightarrow> tx_error + address" where
  "signature_address k sighash sig = (case Ecrecover k sighash sig of
       Inl e \<Rightarrow> Inl (RecoverFailed e)
     | Inr pub \<Rightarrow>
         if pub = [] \<or> hd pub \<noteq> 4 then Inl InvalidPublicKey
         else Inr (ucast (keccak k (tl pub))))"

definition recoverPlain :: "sigCrypto \<Rightarrow> hash \<Rightarrow> int \<Rightarrow> int \<Rightarrow> int \<Rightarrow> bool \<Rightarrow> tx_error + address" where
  "recoverPlain k sighash R S Vb homestead =
     (if \<not> \<bar>Vb\<bar> < 2 ^ 8 then Inl ErrInvalidSig
      else let V = ucast (big_Uint64 Vb - 27) :: byte in
        if \<not> ValidateSignatureValues V R S homestead then Inl ErrInvalidSig
        else signature_address k sighash
               (LeftPadBytes (bytes_of_nat (nat R)) 32 @ LeftPadBytes (bytes_of_nat (nat S)) 32 @ [V]))"

definition frontier_Sender :: "sigCrypto \<Rightarrow> int TxData \<Rightarrow> tx_error + address" where
  "frontier_Sender k tx =
     (if txType tx \<noteq> LegacyTxType then Inl ErrTxTypeNotSupported
      else let (v, r, s) = rawSignatureValues tx in recoverPlain k (frontier_Hash k tx) r s v False)"

definition homestead_Sender :: "sigCrypto \<Rightarrow> int TxData \<Rightarrow> tx_error + address" where
  "homestead_Sender k tx =
     (if txType tx \<noteq> LegacyTxType then Inl ErrTxTypeNotSupported
      else let (v, r, s) = rawSignatureValues tx in recoverPlain k (frontier_Hash k tx) r s v True)"

definition eip155_Sender :: "sigCrypto \<Rightarrow> int \<Rightarrow> int TxData \<Rightarrow> tx_error + address" where
  "eip155_Sender k chainId tx =
     (if txType tx \<noteq> LegacyTxType then Inl ErrTxTypeNotSupported
      else if \<not> Protected tx then homestead_Sender k tx
      else if tx_chainID tx \<noteq> chainId then Inl ErrInvalidChainId
      else let (v, r, s) = rawSignatureValues tx in
        recoverPlain k (eip155_Hash k chainId tx) r s (v - chainId * 2 - 8) True)"

definition eip2930_Sender :: "sigCrypto \<Rightarrow> int \<Rightarrow> int TxData \<Rightarrow> tx_error + address" where
  "eip2930_Sender k chainId tx =
     (let (v, r, s) = rawSignatureValues tx in
      if txType tx = LegacyTxType \<and> \<not> Protected tx then homestead_Sender k tx
      else if txType tx \<noteq> LegacyTxType \<and> txType tx \<noteq> AccessListTxType then Inl ErrTxTypeNotSupported
      else
        let v = (if txType tx = LegacyTxType then v - chainId * 2 - 8 else v + 27) in
        if tx_chainID tx \<noteq> chainId then Inl ErrInvalidChainId
        else recoverPlain k (eip2930_Hash k chainId tx) r s v True)"

definition london_Sender :: "sigCrypto \<Rightarrow> int \<Rightarrow> int TxData \<Rightarrow> tx_error + address" where
  "london_Sender k chainId tx =
     (if txType tx \<noteq> DynamicFeeTxType then eip2930_Sender k chainId tx
      else
        let (v, r, s) = rawSignatureValues tx in
        if tx_chainID tx \<noteq> chainId then Inl ErrInvalidChainId
        else recoverPlain k (london_Hash k chainId tx) r s (v + 27) True)"

fun Sender :: "sigCrypto \<Rightarrow> Signer \<Rightarrow> int TxData \<Rightarrow> tx_error + address" where
  "Sender k FrontierSigner tx = frontier_Sender k tx"
| "Sender k HomesteadSigner tx = homestead_Sender k tx"
| "Sender k (EIP155Signer c) tx = eip155_Sender k c tx"
| "Sender k (eip2930Signer c) tx = eip2930_Sender k c tx"
| "Sender k (londonSigner c) tx = london_Sender k c tx"

section \<open>Signing\<close>

definition decodeSignature :: "bytes \<Rightarrow> (int \<times> int \<times> int) res" where
  "decodeSignature sig =
     (if length sig \<noteq> 65 then Panic
      else Ok (int (big_of (take 32 sig)), int (big_of (take 32 (drop 32 sig))), int (big_of [sig ! 64 + 27])))"

definition frontier_SignatureValues :: "int TxData \<Rightarrow> bytes \<Rightarrow> (tx_error + int \<times> int \<times> int) res" where
  "frontier_SignatureValues tx sig =
     (if txType tx \<noteq> LegacyTxType then Ok (Inl ErrTxTypeNotSupported)
      else rbind (decodeSignature sig) (\<lambda>x. Ok (Inr x)))"

definition eip155_SignatureValues :: "int \<Rightarrow> int TxData \<Rightarrow> bytes \<Rightarrow> (tx_error + int \<times> int \<times> int) res" where
  "eip155_SignatureValues chainId tx sig =
     (if txType tx \<noteq> LegacyTxType then Ok (Inl ErrTxTypeNotSupported)
      else rbind (decodeSignature sig) (\<lambda>(r, s, v).
        Ok (Inr (r, s, if chainId \<noteq> 0 then uint (sig ! 64 + 35) + chainId * 2 else v))))"

definition eip2930_SignatureValues :: "int \<Rightarrow> int TxData \<Rightarrow> bytes \<Rightarrow> (tx_error + int \<times> int \<times> int) res" where
  "eip2930_SignatureValues chainId tx sig = (case tx of
       Legacy t \<Rightarrow> eip155_SignatureValues chainId tx sig
     | AccessTx t \<Rightarrow>
         if aChainID t \<noteq> 0 \<and> aChainID t \<noteq> chainId then Ok (Inl ErrInvalidChainId)
         else rbind (decodeSignature sig) (\<lambda>(r, s, _). Ok (Inr (r, s, uint (sig ! 64))))
     | DynamicFee t \<Rightarrow> Ok (Inl ErrTxTypeNotSupported))"

definition london_SignatureValues :: "int \<Rightarrow> int TxData \<Rightarrow> bytes \<Rightarrow> (tx_error + int \<times> int \<times> int) res" where
  "london_SignatureValues chainId tx sig = (case tx of
       DynamicFee t \<Rightarrow>
         if dChainID t \<noteq> 0 \<and> dChainID t \<noteq> chainId then Ok (Inl ErrInvalidChainId)
         else rbind (decodeSignature sig) (\<lambda>(r, s, _). Ok (Inr (r, s, uint (sig ! 64))))
     | _ \<Rightarrow> eip2930_SignatureValues chainId tx sig)"

fun SignatureValues :: "Signer \<Rightarrow> int TxData \<Rightarrow> bytes \<Rightarrow> (tx_error + int \<times> int \<times> int) res" where
  "SignatureValues FrontierSigner tx sig = frontier_SignatureValues tx sig"
| "SignatureValues HomesteadSigner tx sig = frontier_SignatureValues tx sig"
| "SignatureValues (EIP155Signer c) tx sig = eip155_SignatureValues c tx sig"
| "SignatureValues (eip2930Signer c) tx sig = eip2930_SignatureValues c tx sig"
| "SignatureValues (londonSigner c) tx sig = london_SignatureValues c tx sig"

text \<open>
  A signer without a chain id signs legacy transactions only, whose data does not keep the id.
\<close>

definition WithSignature :: "Signer \<Rightarrow> Transaction \<Rightarrow> bytes \<Rightarrow> (tx_error + Transaction) res" where
  "WithSignature signer tx sig =
     rbind (SignatureValues signer (inner tx) sig) (\<lambda>x. Ok (case x of
         Inl e \<Rightarrow> Inl e
       | Inr (r, s, v) \<Rightarrow>
           Inr (tx\<lparr>inner := setSignatureValues (copy_int (Signer_ChainID signer)) v r s (inner tx)\<rparr>)))"

section \<open>Messages\<close>

record Message =
  mTo :: "address option"
  mFrom :: address
  mNonce :: u64
  mAmount :: int
  mGasLimit :: u64
  mGasPrice :: int
  mGasFeeCap :: "int option"
  mGasTipCap :: "int option"
  mData :: bytes
  mAccessList :: AccessListT
  mIsFake :: bool

text \<open>Without a sender the error comes with the message from the zero address.\<close>

definition AsMessage :: "sigCrypto \<Rightarrow> Signer \<Rightarrow> int option \<Rightarrow> int TxData \<Rightarrow> tx_error + Message" where
  "AsMessage k s baseFee tx =
     (let price = (case baseFee of
          None \<Rightarrow> tx_gasPrice tx
        | Some b \<Rightarrow> BigMin (tx_gasTipCap tx + b) (tx_gasFeeCap tx))
      in case Sender k s tx of
           Inl e \<Rightarrow> Inl e
         | Inr from \<Rightarrow>
             Inr \<lparr>mTo = tx_to tx, mFrom = from, mNonce = tx_nonce tx, mAmount = tx_value tx, mGasLimit = tx_gas tx,
                  mGasPrice = price, mGasFeeCap = Some (tx_gasFeeCap tx), mGasTipCap = Some (tx_gasTipCap tx),
                  mData = tx_data tx, mAccessList = tx_accessList tx, mIsFake = False\<rparr>)"

end
