(* ===== verification/Signing.thy ===== *)
theory Signing
  imports Transactions
begin

text \<open>
  Signing and recovering: the sender of a signed transaction is the key that signed the signer's hash,
  and no signer of another chain accepts it.
\<close>

section \<open>Numbers and bytes\<close>

lemma big_of_snoc: "big_of (bs @ [b]) = 256 * big_of bs + unat b"
  by (simp add: big_of_def)

lemma bytes_of_nat_snoc: "bytes_of_nat (256 * m + unat (b :: byte)) = (if m = 0 \<and> b = 0 then [] else bytes_of_nat m @ [b])"
proof -
  have b: "unat b < 256" using unsigned_less [of b] by simp
  then have d: "(256 * m + unat b) div 256 = m" by simp
  have "(of_nat (256 * m + unat b) :: byte) = of_nat (unat b)"
    using b by (simp only: word_of_nat_eq_iff take_bit_eq_mod) simp
  then show ?thesis
    using b d by (auto simp: bytes_of_nat.simps [of "256 * m + unat b"] unat_eq_zero)
qed

lemma length_bytes_of_big: "length (bytes_of_nat (big_of bs)) \<le> length bs"
  by (induction bs rule: rev_induct) (auto simp: big_of_snoc bytes_of_nat_snoc big_of_def)

lemma pad_Nil: "LeftPadBytes [] n = replicate n 0"
  by (auto simp: LeftPadBytes_def)

lemma pad_snoc: "LeftPadBytes (xs @ [b]) (Suc n) = LeftPadBytes xs n @ [b]"
  by (simp add: LeftPadBytes_def)

lemma LeftPadBytes_big: "LeftPadBytes (bytes_of_nat (big_of bs)) (length bs) = bs"
proof (induction bs rule: rev_induct)
  case Nil
  then show ?case by (simp add: big_of_def LeftPadBytes_def)
next
  case (snoc b bs)
  show ?case
  proof (cases "big_of bs = 0 \<and> b = 0")
    case True
    have z: "bytes_of_nat (big_of (bs @ [b])) = []" using True by (simp only: big_of_snoc bytes_of_nat_snoc simp_thms if_True)
    have "bs = replicate (length bs) 0" using snoc True by (simp add: LeftPadBytes_def split: if_splits)
    then have "bs @ [b] = replicate (length bs) 0 @ [0]" using True by metis
    also have "\<dots> = replicate (length (bs @ [b])) 0" by (simp add: replicate_append_same)
    finally show ?thesis unfolding z pad_Nil by (rule sym)
  next
    case False
    then have "bytes_of_nat (big_of (bs @ [b])) = bytes_of_nat (big_of bs) @ [b]"
      by (simp only: big_of_snoc bytes_of_nat_snoc if_False)
    then show ?thesis by (simp only: length_append_singleton pad_snoc snoc)
  qed
qed

lemma signature_parts:
  assumes "length sig = 65"
  shows "LeftPadBytes (bytes_of_nat (big_of (take 32 sig))) 32 @
    LeftPadBytes (bytes_of_nat (big_of (take 32 (drop 32 sig)))) 32 @ [sig ! 64] = sig"
proof -
  have "drop 32 (drop 32 sig) = [sig ! 64]" using assms by (simp add: list_eq_iff_nth_eq)
  then have "take 32 sig @ take 32 (drop 32 sig) @ [sig ! 64] = sig"
    by (metis append_take_drop_id)
  then show ?thesis using LeftPadBytes_big [of "take 32 sig"] LeftPadBytes_big [of "take 32 (drop 32 sig)"] assms by simp
qed

section \<open>The recovery id\<close>

lemma recover_signature:
  assumes "ValidateSignatureValues (sig ! 64) (int (big_of (take 32 sig))) (int (big_of (take 32 (drop 32 sig)))) True"
    "length sig = 65"
  shows "recoverPlain k h (int (big_of (take 32 sig))) (int (big_of (take 32 (drop 32 sig)))) (27 + uint (sig ! 64)) hs =
     signature_address k h sig"
proof -
  have v: "sig ! 64 = 0 \<or> sig ! 64 = 1" using assms(1) by (auto simp: ValidateSignatureValues_def split: if_splits)
  then have "(ucast (big_Uint64 (27 + uint (sig ! 64)) - 27) :: byte) = sig ! 64" by (auto simp: big_Uint64_def)
  moreover have "ValidateSignatureValues (sig ! 64) (int (big_of (take 32 sig))) (int (big_of (take 32 (drop 32 sig)))) hs"
    using assms(1) by (auto simp: ValidateSignatureValues_def split: if_splits)
  ultimately show ?thesis using v signature_parts [OF assms(2)] by (auto simp: recoverPlain_def Let_def)
qed

lemma uint_big_Uint64: "0 \<le> v \<Longrightarrow> v < 2 ^ 64 \<Longrightarrow> uint (big_Uint64 v) = v"
  by (simp add: big_Uint64_def uint_word_of_int_eq take_bit_int_eq_self)

text \<open>The number \<^verbatim>\<open>V\<close> of a legacy signature for chain \<open>c\<close>.\<close>

lemma protected_V:
  assumes "c > 0" "b = 0 \<or> b = 1"
  shows "isProtectedV (35 + b + c * 2)" "deriveChainId (35 + b + c * 2) = c"
    "recoverPlain k h r s (35 + b + c * 2) hs = Inl ErrInvalidSig"
proof -
  let ?v = "35 + b + c * 2"
  have pos: "\<bar>?v\<bar> = ?v" "37 \<le> ?v" using assms by auto
  have small: "uint (big_Uint64 ?v) = ?v" if "?v < 2 ^ 64"
    using that pos by (intro uint_big_Uint64) simp_all
  have ne: "big_Uint64 ?v \<noteq> w" if "?v < 2 ^ 64" "uint w < 37" for w
    using small [OF that(1)] that(2) pos by auto
  show "isProtectedV ?v" using ne pos by (auto simp: isProtectedV_def Let_def)
  show "deriveChainId ?v = c"
  proof (cases "?v < 2 ^ 64")
    case True
    have "uint (big_Uint64 ?v - 35) = 2 * c + b"
      using small [OF True] pos(2) by (subst uint_sub_lem [THEN iffD1]) simp_all
    then have "uint ((big_Uint64 ?v - 35) div 2) = (2 * c + b) div 2" by (simp add: uint_div)
    then show ?thesis using True pos ne [OF True] assms(2) by (auto simp: deriveChainId_def Let_def)
  next
    case False
    then show ?thesis using pos assms(2) by (auto simp: deriveChainId_def)
  qed
  show "recoverPlain k h r s ?v hs = Inl ErrInvalidSig"
  proof (cases "?v < 256")
    case True
    have "unat (big_Uint64 ?v) = nat ?v" using small True by (simp add: unat_eq_nat_uint)
    moreover have "unat (big_Uint64 ?v - 27) = unat (big_Uint64 ?v) - 27"
      using calculation pos(2) by (subst unat_sub) (simp_all add: word_le_nat_alt)
    ultimately have "unat (ucast (big_Uint64 ?v - 27) :: byte) = nat ?v - 27"
      using True by (simp add: unsigned_ucast_eq take_bit_nat_eq_self)
    then have "(ucast (big_Uint64 ?v - 27) :: byte) \<notin> {0, 1}" using pos(2) by auto
    then show ?thesis by (auto simp: recoverPlain_def Let_def ValidateSignatureValues_def)
  next
    case False
    then show ?thesis using pos by (simp add: recoverPlain_def)
  qed
qed

section \<open>Signed transactions\<close>

text \<open>What \<^verbatim>\<open>WithSignature\<close> puts into the transaction, signer by signer.\<close>

definition signed_V :: "Signer \<Rightarrow> int TxData \<Rightarrow> byte \<Rightarrow> int" where
  "signed_V s tx b =
     (if txType tx \<noteq> LegacyTxType then uint b
      else case Signer_ChainID s of None \<Rightarrow> 27 + uint b | Some c \<Rightarrow> 35 + uint b + c * 2)"

lemma decodeSignature_Ok:
  "decodeSignature sig = Ok (r, s, v) \<longleftrightarrow>
     length sig = 65 \<and> r = int (big_of (take 32 sig)) \<and> s = int (big_of (take 32 (drop 32 sig))) \<and> v = uint (sig ! 64 + 27)"
  by (auto simp: decodeSignature_def big_of_def)

lemma recovery_byte: "b = 0 \<or> b = 1 \<Longrightarrow> uint (b + 35 :: byte) = 35 + uint b \<and> uint (b + 27 :: byte) = 27 + uint b"
  by auto

lemma signed:
  assumes "WithSignature s tx sig = Ok (Inr tx')" "sig ! 64 = 0 \<or> sig ! 64 = 1" "\<forall>c. Signer_ChainID s = Some c \<longrightarrow> c > 0"
  shows "length sig = 65"
    "inner tx' = setSignatureValues (copy_int (Signer_ChainID s)) (signed_V s (inner tx) (sig ! 64))
       (int (big_of (take 32 sig))) (int (big_of (take 32 (drop 32 sig)))) (inner tx)"
    "txType (inner tx) = LegacyTxType \<or> (\<exists>c. s = eip2930Signer c \<and> txType (inner tx) = AccessListTxType) \<or>
     (\<exists>c. s = londonSigner c \<and> txType (inner tx) \<noteq> LegacyTxType)"
  using assms recovery_byte [of "sig ! 64"]
  by (cases s; cases "inner tx"; auto simp: WithSignature_def frontier_SignatureValues_def eip155_SignatureValues_def
      eip2930_SignatureValues_def london_SignatureValues_def decodeSignature_Ok signed_V_def split: if_splits sum.splits)+

lemma txType_set [simp]: "txType (setSignatureValues c v r s tx) = txType tx"
  by (cases tx) simp_all

lemma Hash_unsigned: "Signer_Hash k s (setSignatureValues c v r ss tx) = Signer_Hash k s tx"
  by (cases s; cases tx; simp add: frontier_Hash_def eip155_Hash_def eip2930_Hash_def london_Hash_def)

lemma london_older: "london_Hash k c (Legacy t) = eip2930_Hash k c (Legacy t)"
  "london_Hash k c (AccessTx u) = eip2930_Hash k c (AccessTx u)"
  by (simp_all add: london_Hash_def)

lemma signed_here:
  assumes "ValidateSignatureValues (sig ! 64) (int (big_of (take 32 sig))) (int (big_of (take 32 (drop 32 sig)))) True"
    "length sig = 65" "\<forall>c. Signer_ChainID s = Some c \<longrightarrow> c > 0"
    "txType tx = LegacyTxType \<or> (\<exists>c. s = eip2930Signer c \<and> txType tx = AccessListTxType) \<or>
     (\<exists>c. s = londonSigner c \<and> txType tx \<noteq> LegacyTxType)"
    "tx' = setSignatureValues (copy_int (Signer_ChainID s)) (signed_V s tx (sig ! 64))
       (int (big_of (take 32 sig))) (int (big_of (take 32 (drop 32 sig)))) tx"
  shows "Sender k s tx' = signature_address k (Signer_Hash k s tx) sig"
proof -
  let ?b = "uint (sig ! 64)"
  have b: "?b = 0 \<or> ?b = 1" using assms(1) by (auto simp: ValidateSignatureValues_def split: if_splits)
  have h: "Signer_Hash k s tx' = Signer_Hash k s tx" using assms(5) Hash_unsigned by simp
  note rec = recover_signature [OF assms(1,2)]
  show ?thesis
    using assms(3,4) h b rec protected_V(1,2) [OF _ b]
    by (cases s; cases tx)
      (auto simp: assms(5) signed_V_def copy_int_def frontier_Sender_def homestead_Sender_def eip155_Sender_def
        eip2930_Sender_def london_Sender_def london_older Let_def add.commute [of _ 27])
qed

text \<open>
  C4: Signing and recovering agree. Whatever signer signs a transaction of a type it supports, for a
  positive chain id, the sender it then reads off the transaction is the address of the key that made
  the signature of the signer's hash of the unsigned transaction: the signature survives its encoding
  in \<^verbatim>\<open>V\<close>, \<^verbatim>\<open>R\<close> and \<^verbatim>\<open>S\<close>, and the hash does not depend on it.
\<close>

theorem Sender_WithSignature:
  assumes "WithSignature s tx sig = Ok (Inr tx')" "\<forall>c. Signer_ChainID s = Some c \<longrightarrow> c > 0"
    "ValidateSignatureValues (sig ! 64) (int (big_of (take 32 sig))) (int (big_of (take 32 (drop 32 sig)))) True"
  shows "Sender k s (inner tx') = signature_address k (Signer_Hash k s (inner tx)) sig"
proof -
  have "sig ! 64 = 0 \<or> sig ! 64 = 1" using assms(3) by (auto simp: ValidateSignatureValues_def split: if_splits)
  note facts = signed [OF assms(1) this assms(2)]
  show ?thesis by (rule signed_here [OF assms(3) facts(1) assms(2) facts(3,2)])
qed

text \<open>
  C5: A signature for one chain is worth nothing on another: a transaction signed for a positive chain
  id is refused by every signer with another chain id, and by those without one.
\<close>

theorem signature_of_other_chain:
  assumes "WithSignature s tx sig = Ok (Inr tx')" "Signer_ChainID s = Some c" "c > 0"
    "sig ! 64 = 0 \<or> sig ! 64 = 1" "Signer_ChainID s' \<noteq> Some c"
  shows "\<exists>e. Sender k s' (inner tx') = Inl e \<and> e \<in> {ErrInvalidChainId, ErrTxTypeNotSupported, ErrInvalidSig}"
proof -
  have "\<forall>c. Signer_ChainID s = Some c \<longrightarrow> c > 0" using assms(2,3) by simp
  note facts = signed [OF assms(1,4) this]
  have b: "uint (sig ! 64) = 0 \<or> uint (sig ! 64) = 1" using assms(4) by auto
  show ?thesis
    using assms(2,3,5) b protected_V [OF assms(3) b]
    by (cases s'; cases "inner tx")
      (auto simp: facts(2) signed_V_def copy_int_def frontier_Sender_def homestead_Sender_def eip155_Sender_def
        eip2930_Sender_def london_Sender_def Let_def)
qed

section \<open>An example\<close>

text \<open>A transfer signed for chain 1, with a toy recovery that reads the key off the signature.\<close>

definition sample_legacy :: Transaction where
  "sample_legacy = NewTx (Legacy \<lparr>lNonce = 0, lGasPrice = Some 10, lGas = 21000, lTo = Some 4, lValue = Some 1, lData = [],
     lV = None, lR = None, lS = None\<rparr>) 0"

definition sample_sig :: bytes where
  "sample_sig = replicate 31 0 @ [5] @ replicate 31 0 @ [6] @ [1]"

definition sample_crypto :: sigCrypto where
  "sample_crypto = \<lparr>keccak = be_word, Ecrecover = (\<lambda>h sig. Inr (4 # take 32 sig))\<rparr>"

definition sample_signed :: Transaction where
  "sample_signed = \<lparr>inner = Legacy \<lparr>lNonce = 0, lGasPrice = 10, lGas = 21000, lTo = Some 4, lValue = 1, lData = [],
     lV = 38, lR = 5, lS = 6\<rparr>, seen = 0\<rparr>"

lemma big_of_pad: "big_of (replicate n 0 @ xs) = big_of xs"
  by (induction n) (auto simp: big_of_def)

lemma be_word_pad: "be_word (replicate n 0 @ xs) = be_word xs"
  by (induction n) (auto simp: be_word_def)

lemma sample_sig_parts:
  "length sample_sig = 65" "take 32 sample_sig = replicate 31 0 @ [5]" "take 32 (drop 32 sample_sig) = replicate 31 0 @ [6]"
  "sample_sig ! 64 = 1"
  by (simp_all add: sample_sig_def nth_append take_append drop_append)

lemma sample_sig_numbers: "big_of (take 32 sample_sig) = 5" "big_of (take 32 (drop 32 sample_sig)) = 6"
  unfolding sample_sig_parts big_of_pad by (simp_all add: big_of_def)

lemma sample_WithSignature: "WithSignature (londonSigner 1) sample_legacy sample_sig = Ok (Inr sample_signed)"
  by (simp add: sample_legacy_def sample_signed_def NewTx_def LegacyTx_copy_def copy_int_def WithSignature_def
      london_SignatureValues_def eip2930_SignatureValues_def eip155_SignatureValues_def decodeSignature_def
      sample_sig_parts(1,4) sample_sig_numbers)

theorem Sender_WithSignature_witness: "Sender sample_crypto (londonSigner 1) (inner sample_signed) = Inr 5"
proof -
  have "signature_address sample_crypto (Signer_Hash sample_crypto (londonSigner 1) (inner sample_legacy)) sample_sig =
      Inr (ucast (be_word (replicate 31 0 @ [5 :: byte]) :: hash))"
    unfolding signature_address_def by (simp add: sample_crypto_def sample_sig_parts)
  also have "\<dots> = Inr 5" unfolding be_word_pad by (simp add: be_word_def)
  finally show ?thesis
    using Sender_WithSignature [OF sample_WithSignature, of sample_crypto]
    by (simp add: sample_sig_parts(4) sample_sig_numbers ValidateSignatureValues_def secp256k1N_def secp256k1halfN_def)
qed

theorem signature_of_other_chain_witness: "\<exists>e. Sender sample_crypto (EIP155Signer 2) (inner sample_signed) = Inl e"
  using signature_of_other_chain [OF sample_WithSignature _ _ _, of 1 "EIP155Signer 2" sample_crypto]
  by (auto simp: sample_sig_parts(4))

end
