(* ===== verification/StateTransition.thy ===== *)
theory StateTransition
  imports Guarantees Accounts Transactions
begin

text \<open>
  Applying a message to the state (core/state_transition.go, core/gaspool.go): buying gas, the checks
  before the execution, the execution by the virtual machine, the refund and the fee. The errors are
  those of core/error.go. The state database is the one inside the EVM, as \<^verbatim>\<open>st.state\<close> and
  \<^verbatim>\<open>st.evm.StateDB\<close> are the same object. Tracer callbacks are left out.
\<close>

section \<open>The gas pool (core/gaspool.go)\<close>

type_synonym GasPool = u64

definition GasPool_AddGas :: "u64 \<Rightarrow> GasPool \<Rightarrow> GasPool res" where
  "GasPool_AddGas amount gp = (if gp > - 1 - amount then Panic else Ok (gp + amount))"

definition GasPool_SubGas :: "u64 \<Rightarrow> GasPool \<Rightarrow> GasPool option" where
  "GasPool_SubGas amount gp = (if gp < amount then None else Some (gp - amount))"

section \<open>Errors and results\<close>

datatype core_error = ErrNonceTooLow | ErrNonceTooHigh | ErrNonceMax | ErrGasLimitReached
  | ErrInsufficientFundsForTransfer | ErrInsufficientFunds | CoreGasUintOverflow | ErrIntrinsicGas
  | ErrTipAboveFeeCap | ErrTipVeryHigh | ErrFeeCapVeryHigh | ErrFeeCapTooLow | ErrSenderNoEOA

record ExecutionResult =
  UsedGas :: u64
  Err :: "vm_error option"
  ReturnData :: bytes

definition Failed :: "ExecutionResult \<Rightarrow> bool" where
  "Failed r \<longleftrightarrow> Err r \<noteq> None"

definition Return :: "ExecutionResult \<Rightarrow> bytes" where
  "Return r = (if Err r \<noteq> None then [] else ReturnData r)"

definition Revert_data :: "ExecutionResult \<Rightarrow> bytes" where
  "Revert_data r = (if Err r \<noteq> Some ErrExecutionReverted then [] else ReturnData r)"

section \<open>Intrinsic gas\<close>

definition IntrinsicGas :: "bytes \<Rightarrow> AccessListT \<Rightarrow> bool \<Rightarrow> bool \<Rightarrow> bool \<Rightarrow> core_error + u64" where
  "IntrinsicGas data al isContractCreation isHomestead isEIP2028 =
     (let gas = (if isContractCreation \<and> isHomestead then TxGasContractCreation else TxGas);
          with_data =
            (if length data > 0 then
               let nz = fold (\<lambda>b nz. if b \<noteq> 0 then nz + 1 else nz) data (0 :: u64);
                   nonZeroGas = (if isEIP2028 then TxDataNonZeroGasEIP2028 else TxDataNonZeroGasFrontier)
               in if (- 1 - gas) div nonZeroGas < nz then None
                  else let gas = gas + nz * nonZeroGas; z = of_nat (length data) - nz
                       in if (- 1 - gas) div TxDataZeroGas < z then None else Some (gas + z * TxDataZeroGas)
             else Some gas)
      in case with_data of
           None \<Rightarrow> Inl CoreGasUintOverflow
         | Some gas \<Rightarrow> Inr (case al of
               None \<Rightarrow> gas
             | Some l \<Rightarrow> gas + of_nat (length l) * TxAccessListAddressGas + of_nat (StorageKeys l) * TxAccessListStorageKeyGas))"

section \<open>The state transition\<close>

record StateTransition =
  gp :: GasPool
  msg :: Message
  st_gas :: u64
  gasPrice :: int
  gasFeeCap :: "int option"
  gasTipCap :: "int option"
  initialGas :: u64
  st_value :: int
  st_data :: bytes
  evm_of :: EVM

definition NewStateTransition :: "EVM \<Rightarrow> Message \<Rightarrow> GasPool \<Rightarrow> StateTransition" where
  "NewStateTransition evm m g =
     \<lparr>gp = g, msg = m, st_gas = 0, gasPrice = mGasPrice m, gasFeeCap = mGasFeeCap m, gasTipCap = mGasTipCap m,
      initialGas = 0, st_value = mAmount m, st_data = mData m, evm_of = evm\<rparr>"

definition gasUsed :: "StateTransition \<Rightarrow> u64" where
  "gasUsed st = initialGas st - st_gas st"

definition st_to :: "StateTransition \<Rightarrow> address" where
  "st_to st = (case mTo (msg st) of None \<Rightarrow> 0 | Some a \<Rightarrow> a)"

definition st_read :: "(StateDB \<Rightarrow> 'a \<times> StateDB) \<Rightarrow> StateTransition \<Rightarrow> 'a \<times> StateTransition" where
  "st_read f st = (let (x, evm) = evm_read f (evm_of st) in (x, st\<lparr>evm_of := evm\<rparr>))"

definition st_write :: "(StateDB \<Rightarrow> StateDB) \<Rightarrow> StateTransition \<Rightarrow> StateTransition" where
  "st_write f st = st\<lparr>evm_of := evm_write f (evm_of st)\<rparr>"

text \<open>Following a nil pointer panics.\<close>

definition deref :: "'a option \<Rightarrow> 'a res" where
  "deref x = (case x of None \<Rightarrow> Panic | Some y \<Rightarrow> Ok y)"

definition buyGas :: "StateTransition \<Rightarrow> core_error option \<times> StateTransition" where
  "buyGas st =
     (let mgval = uint (mGasLimit (msg st)) * gasPrice st;
          balanceCheck = (case gasFeeCap st of
              None \<Rightarrow> mgval
            | Some cap \<Rightarrow> uint (mGasLimit (msg st)) * cap + st_value st);
          (have, st) = st_read (GetBalance (mFrom (msg st))) st
      in if have < balanceCheck then (Some ErrInsufficientFunds, st)
         else case GasPool_SubGas (mGasLimit (msg st)) (gp st) of
                None \<Rightarrow> (Some ErrGasLimitReached, st)
              | Some g \<Rightarrow>
                  (None, st_write (SubBalance (mFrom (msg st)) mgval)
                     (st\<lparr>gp := g, st_gas := st_gas st + mGasLimit (msg st), initialGas := mGasLimit (msg st)\<rparr>)))"

text \<open>The checks of a message that is not faked: its nonce, and that the sender has no code.\<close>

definition check_sender :: "StateTransition \<Rightarrow> core_error option \<times> StateTransition" where
  "check_sender st =
     (if mIsFake (msg st) then (None, st)
      else
        let (stNonce, st) = st_read (GetNonce (mFrom (msg st))) st; msgNonce = mNonce (msg st)
        in if stNonce < msgNonce then (Some ErrNonceTooHigh, st)
           else if stNonce > msgNonce then (Some ErrNonceTooLow, st)
           else if stNonce + 1 < stNonce then (Some ErrNonceMax, st)
           else
             let (codeHash, st) = st_read (GetCodeHash (mFrom (msg st))) st
             in if codeHash \<noteq> emptyCodeHash (sdb (evm_of st)) \<and> codeHash \<noteq> 0 then (Some ErrSenderNoEOA, st)
                else (None, st))"

text \<open>The checks of the fee caps since London.\<close>

definition check_fees :: "StateTransition \<Rightarrow> core_error option res" where
  "check_fees st =
     (let evm = evm_of st in
      if \<not> IsLondon (chainConfig evm) (BlockNumber (Context evm)) then Ok None
      else
        rbind (if \<not> NoBaseFee (evmConfig evm) then Ok True
               else rbind (deref (gasFeeCap st)) (\<lambda>cap.
                      if cap \<noteq> 0 then Ok True else rbind (deref (gasTipCap st)) (\<lambda>tip. Ok (tip \<noteq> 0))))
          (\<lambda>checked.
            if \<not> checked then Ok None
            else
              rbind (deref (gasFeeCap st)) (\<lambda>cap.
                if \<not> \<bar>cap\<bar> < 2 ^ 256 then Ok (Some ErrFeeCapVeryHigh)
                else rbind (deref (gasTipCap st)) (\<lambda>tip.
                  if \<not> \<bar>tip\<bar> < 2 ^ 256 then Ok (Some ErrTipVeryHigh)
                  else if cap < tip then Ok (Some ErrTipAboveFeeCap)
                  else rbind (deref (BaseFee (Context evm))) (\<lambda>base.
                    Ok (if cap < base then Some ErrFeeCapTooLow else None))))))"

definition preCheck :: "StateTransition \<Rightarrow> (core_error option \<times> StateTransition) res" where
  "preCheck st =
     (case check_sender st of
        (Some e, st) \<Rightarrow> Ok (Some e, st)
      | (None, st) \<Rightarrow>
          rbind (check_fees st) (\<lambda>e. case e of
              Some e \<Rightarrow> Ok (Some e, st)
            | None \<Rightarrow> Ok (buyGas st)))"

definition refundGas :: "u64 \<Rightarrow> StateTransition \<Rightarrow> StateTransition res" where
  "refundGas refundQuotient st =
     (let refund = gasUsed st div refundQuotient;
          refund = (if refund > GetRefund (sdb (evm_of st)) then GetRefund (sdb (evm_of st)) else refund);
          st = st\<lparr>st_gas := st_gas st + refund\<rparr>;
          st = st_write (AddBalance (mFrom (msg st)) (uint (st_gas st) * gasPrice st)) st
      in rbind (GasPool_AddGas (st_gas st) (gp st)) (\<lambda>g. Ok (st\<lparr>gp := g\<rparr>)))"

definition st_rules :: "StateTransition \<Rightarrow> Rules" where
  "st_rules st = (let evm = evm_of st in ChainRules (chainConfig evm) (BlockNumber (Context evm)) (Random (Context evm) \<noteq> None))"

text \<open>The execution: a contract is created or an account is called.\<close>

definition execute_msg :: "nat \<Rightarrow> StateTransition \<Rightarrow> ((bytes \<times> vm_error option) \<times> StateTransition) res" where
  "execute_msg n st =
     (let from = mFrom (msg st) in
      if mTo (msg st) = None then
        rbind (EVM_Create (Run n) (AccountRef from) (st_data st) (st_gas st) (st_value st) (evm_of st))
          (\<lambda>((ret, _, left, vmerr), evm). Ok ((ret, vmerr), st\<lparr>st_gas := left, evm_of := evm\<rparr>))
      else
        let (nonce, st) = st_read (GetNonce from) st;
            st = st_write (SetNonce from (nonce + 1)) st
        in rbind (EVM_Call (Run n) (AccountRef from) (st_to st) (st_data st) (st_gas st) (st_value st) (evm_of st))
             (\<lambda>((ret, left, vmerr), evm). Ok ((ret, vmerr), st\<lparr>st_gas := left, evm_of := evm\<rparr>)))"

text \<open>The tip that goes to the coinbase for each unit of gas, and the payment of the fee.\<close>

definition effectiveTip :: "StateTransition \<Rightarrow> int res" where
  "effectiveTip st =
     (if \<not> rIsLondon (st_rules st) then Ok (gasPrice st)
      else rbind (deref (gasTipCap st)) (\<lambda>tip. rbind (deref (gasFeeCap st)) (\<lambda>cap.
           rbind (deref (BaseFee (Context (evm_of st)))) (\<lambda>base. Ok (BigMin tip (cap - base))))))"

definition pay_fee :: "StateTransition \<Rightarrow> StateTransition res" where
  "pay_fee st =
     rbind (effectiveTip st) (\<lambda>tip.
     rbind (if \<not> NoBaseFee (evmConfig (evm_of st)) then Ok False
            else rbind (deref (gasFeeCap st)) (\<lambda>cap.
                   if cap \<noteq> 0 then Ok False else rbind (deref (gasTipCap st)) (\<lambda>tip. Ok (tip = 0))))
       (\<lambda>skipped.
         Ok (if skipped then st
             else st_write (AddBalance (Coinbase (Context (evm_of st))) (uint (gasUsed st) * tip)) st)))"

definition TransitionDb :: "nat \<Rightarrow> StateTransition \<Rightarrow> ((core_error + ExecutionResult) \<times> StateTransition) res" where
  "TransitionDb n st =
     rbind (preCheck st) (\<lambda>(err, st). case err of
       Some e \<Rightarrow> Ok (Inl e, st)
     | None \<Rightarrow>
         let rules = st_rules st; m = msg st in
         case IntrinsicGas (st_data st) (mAccessList m) (mTo m = None) (rIsHomestead rules) (rIsIstanbul rules) of
           Inl e \<Rightarrow> Ok (Inl e, st)
         | Inr gas \<Rightarrow>
             if st_gas st < gas then Ok (Inl ErrIntrinsicGas, st)
             else
               let st = st\<lparr>st_gas := st_gas st - gas\<rparr>;
                   (can, st) = (if mAmount m > 0 then st_read (CanTransfer (mFrom m) (mAmount m)) st else (True, st))
               in if \<not> can then Ok (Inl ErrInsufficientFundsForTransfer, st)
                  else
                    rbind (if rIsBerlin rules then
                             rbind (PrepareAccessList (mFrom m) (mTo m) (ActivePrecompiles rules)
                                      (case mAccessList m of None \<Rightarrow> [] | Some l \<Rightarrow> l) (sdb (evm_of st)))
                               (\<lambda>s. Ok (st\<lparr>evm_of := (evm_of st)\<lparr>sdb := s\<rparr>\<rparr>))
                           else Ok st) (\<lambda>st.
                    rbind (execute_msg n st) (\<lambda>((ret, vmerr), st).
                    rbind (refundGas (if \<not> rIsLondon rules then RefundQuotient else RefundQuotientEIP3529) st) (\<lambda>st.
                    rbind (pay_fee st) (\<lambda>st.
                      Ok (Inr \<lparr>UsedGas = gasUsed st, Err = vmerr, ReturnData = ret\<rparr>, st))))))"

definition ApplyMessage :: "nat \<Rightarrow> EVM \<Rightarrow> Message \<Rightarrow> GasPool \<Rightarrow> ((core_error + ExecutionResult) \<times> StateTransition) res" where
  "ApplyMessage n evm m g = TransitionDb n (NewStateTransition evm m g)"

definition NewEVMTxContext :: "Message \<Rightarrow> TxContext" where
  "NewEVMTxContext m = \<lparr>Origin = mFrom m, GasPrice = mGasPrice m\<rparr>"

end
