(* ===== verification/MessageGas.thy ===== *)
theory MessageGas
  imports StateTransition
begin

text \<open>
  What applying a message does to gas and to the state when it is refused: the gas bought from the
  block's pool is either used or given back, a refused message leaves no trace if it was refused
  before it bought gas, and applying a message ends within a fuel given by its gas limit.
\<close>

section \<open>Looking at the state\<close>

definition looked :: "StateDB \<Rightarrow> StateDB \<Rightarrow> bool" where
  "looked s s' \<longleftrightarrow> db_step True s s' \<and> (sdb_ok s \<longrightarrow> eqv s' s)"

lemma looked_refl [simp]: "looked s s"
  by (simp add: looked_def eqv_refl sdb_ok_wf)

lemma looked_trans: "looked s t \<Longrightarrow> looked t u \<Longrightarrow> looked s u"
  using db_step_trans [of True s t u] db_step_ok [of True s t] eqv_trans [of u t s] by (auto simp: looked_def)

lemma looked_reads [simp]:
  assumes "looked s t"
  shows "looked s (snd (GetBalance a t))" "looked s (snd (GetNonce a t))" "looked s (snd (GetCodeHash a t))"
    "looked s (snd (CanTransfer a v t))"
proof -
  have "looked t (snd (GetBalance a t))" "looked t (snd (GetNonce a t))" "looked t (snd (GetCodeHash a t))"
    "looked t (snd (CanTransfer a v t))"
    by (simp_all add: looked_def db_intros read_eqv CanTransfer_def split_beta Let_def)
  then show "looked s (snd (GetBalance a t))" "looked s (snd (GetNonce a t))" "looked s (snd (GetCodeHash a t))"
    "looked s (snd (CanTransfer a v t))"
    using looked_trans [OF assms] by blast+
qed

lemma looked_step: "looked s t \<Longrightarrow> db_step ro s t"
  using db_step_weaken [of True s t ro] by (simp add: looked_def)

definition with_db :: "StateTransition \<Rightarrow> StateDB \<Rightarrow> StateTransition" where
  "with_db st s = st\<lparr>evm_of := (evm_of st)\<lparr>sdb := s\<rparr>\<rparr>"

abbreviation db_of :: "StateTransition \<Rightarrow> StateDB" where
  "db_of st \<equiv> sdb (evm_of st)"

lemma with_db_fields [simp]:
  "db_of (with_db st s) = s" "msg (with_db st s) = msg st" "st_gas (with_db st s) = st_gas st" "gp (with_db st s) = gp st"
  "initialGas (with_db st s) = initialGas st" "gasPrice (with_db st s) = gasPrice st" "with_db (with_db st s) t = with_db st t"
  "gasFeeCap (with_db st s) = gasFeeCap st" "gasTipCap (with_db st s) = gasTipCap st" "st_value (with_db st s) = st_value st"
  "st_data (with_db st s) = st_data st" "evm_of (with_db st s) = (evm_of st)\<lparr>sdb := s\<rparr>" "with_db st (db_of st) = st"
  "gasUsed (with_db st s) = gasUsed st"
  by (simp_all add: with_db_def gasUsed_def)

lemma st_read_eq: "st_read f st = (fst (f (db_of st)), with_db st (snd (f (db_of st))))"
  by (simp add: st_read_def evm_read_eq with_db_def)

lemma st_write_eq: "st_write f st = with_db st (f (db_of st))"
  by (simp add: st_write_def evm_write_def with_db_def)

section \<open>The checks and the purchase of gas\<close>

definition looks :: "StateTransition \<Rightarrow> StateTransition \<Rightarrow> bool" where
  "looks st st1 \<longleftrightarrow> (\<exists>s. st1 = with_db st s \<and> looked (db_of st) s)"

lemma looks_intros [simp]: "looks st st" "looked (db_of st) s \<Longrightarrow> looks st (with_db st s)"
  unfolding looks_def by (metis looked_refl with_db_fields(13), blast)

lemma check_sender_looks: "check_sender st = (e, st1) \<Longrightarrow> looks st st1"
  by (auto simp: check_sender_def Let_def st_read_eq split: if_splits)

lemma buyGas_result:
  assumes "buyGas st = (e, st1)"
  shows "\<exists>s. looked (db_of st) s \<and> (case e of
      Some _ \<Rightarrow> st1 = with_db st s
    | None \<Rightarrow> \<not> gp st < mGasLimit (msg st) \<and>
        st1 = with_db (st\<lparr>gp := gp st - mGasLimit (msg st), st_gas := st_gas st + mGasLimit (msg st), initialGas := mGasLimit (msg st)\<rparr>)
                (SubBalance (mFrom (msg st)) (uint (mGasLimit (msg st)) * gasPrice st) s))"
  using assms
  by (intro exI [of _ "snd (GetBalance (mFrom (msg st)) (db_of st))"])
    (auto simp: buyGas_def Let_def st_read_eq st_write_eq GasPool_SubGas_def with_db_def split: if_splits)

lemma preCheck_result:
  assumes "preCheck st = Ok (e, st1)"
  shows "\<exists>s. looked (db_of st) s \<and> (case e of
      Some _ \<Rightarrow> st1 = with_db st s
    | None \<Rightarrow> \<not> gp st < mGasLimit (msg st) \<and>
        st1 = with_db (st\<lparr>gp := gp st - mGasLimit (msg st), st_gas := st_gas st + mGasLimit (msg st), initialGas := mGasLimit (msg st)\<rparr>)
                (SubBalance (mFrom (msg st)) (uint (mGasLimit (msg st)) * gasPrice st) s))"
proof -
  obtain e0 st0 where c: "check_sender st = (e0, st0)" by (cases "check_sender st")
  obtain s0 where s0: "st0 = with_db st s0" "looked (db_of st) s0" using check_sender_looks [OF c] by (auto simp: looks_def)
  show ?thesis
  proof (cases "e0 = None \<and> buyGas st0 = (e, st1)")
    case True
    then show ?thesis using buyGas_result [of st0 e st1] s0 looked_trans [OF s0(2)]
      by (fastforce simp: with_db_def split: option.splits)
  next
    case False
    then have "st1 = st0" "e \<noteq> None" using assms c by (auto simp: preCheck_def split: option.splits)
    then show ?thesis using s0 by auto
  qed
qed

section \<open>The execution\<close>

definition same_msg :: "StateTransition \<Rightarrow> StateTransition \<Rightarrow> bool" where
  "same_msg st st' \<longleftrightarrow> msg st' = msg st \<and> gasPrice st' = gasPrice st \<and> gasFeeCap st' = gasFeeCap st \<and>
     gasTipCap st' = gasTipCap st \<and> initialGas st' = initialGas st \<and> gp st' = gp st"

lemma execute_msg_post:
  assumes "wired (evm_of st)" "\<not> readOnly (evm_of st)"
  shows "post (n < unat (st_gas st) + 2) (execute_msg n st)
     (\<lambda>(r, st'). st_gas st' \<le> st_gas st \<and> same_msg st st' \<and> moves False (evm_of st) (evm_of st'))"
proof -
  let ?from = "mFrom (msg st)"
  let ?e = "(evm_of st)\<lparr>sdb := SetNonce ?from (fst (GetNonce ?from (db_of st)) + 1) (snd (GetNonce ?from (db_of st)))\<rparr>"
  have m: "moves False (evm_of st) ?e" by (simp add: db_intros)
  then have w: "wired ?e" "\<not> readOnly ?e" using assms by (simp_all add: wired_def)
  let ?Q = "\<lambda>(r, st'). st_gas st' \<le> st_gas st \<and> same_msg st st' \<and> moves False (evm_of st) (evm_of st')"
  have create: "post (n < unat (st_gas st) + 2) (execute_msg n st) ?Q" if "mTo (msg st) = None"
    by (simp add: execute_msg_def that Let_def, rule post_mono [OF evm_run.EVM_Create_ok(1) [OF assms(1)]])
      (auto simp: same_msg_def)
  have call: "post (n < unat (st_gas st) + 2) (execute_msg n st) ?Q" if "mTo (msg st) \<noteq> None"
    by (simp add: execute_msg_def that st_read_eq st_write_eq st_to_def Let_def, rule post_mono [OF evm_run.EVM_Call_called [OF w(1)]])
      (use w(2) moves_trans [OF m] in \<open>auto simp: same_msg_def called_def\<close>)
  show ?thesis
  proof (cases "mTo (msg st)")
    case None
    then show ?thesis by (rule create)
  next
    case (Some a)
    show ?thesis by (rule call) (simp add: Some)
  qed
qed

section \<open>Refund and fee\<close>

lemma refundGas_result:
  assumes "refundGas q st = Ok st'"
  shows "\<exists>r. r \<le> gasUsed st div q \<and> r \<le> GetRefund (db_of st) \<and>
    st' = with_db (st\<lparr>st_gas := st_gas st + r, gp := gp st + (st_gas st + r)\<rparr>)
            (AddBalance (mFrom (msg st)) (uint (st_gas st + r) * gasPrice st) (db_of st))"
  using assms
  by (intro exI [of _ "if gasUsed st div q > GetRefund (db_of st) then GetRefund (db_of st) else gasUsed st div q"])
    (auto simp: refundGas_def Let_def st_write_eq GasPool_AddGas_def with_db_def split: if_splits)

lemma pay_fee_result:
  assumes "pay_fee st = Ok st'"
  shows "st' = st \<or> (\<exists>tip. effectiveTip st = Ok tip \<and>
    st' = with_db st (AddBalance (Coinbase (Context (evm_of st))) (uint (gasUsed st) * tip) (db_of st)))"
  using assms by (auto simp: pay_fee_def st_write_eq split: if_splits)

text \<open>The stages of a message that was executed.\<close>

lemma TransitionDb_stages:
  assumes "TransitionDb n st = Ok (Inr r, st6)"
  obtains i st1 st2 s st3 st4 st5 where
    "preCheck st = Ok (None, st1)"
    "IntrinsicGas (st_data st1) (mAccessList (msg st1)) (mTo (msg st1) = None) (rIsHomestead (st_rules st1)) (rIsIstanbul (st_rules st1)) = Inr i"
    "\<not> st_gas st1 < i" "looks (st1\<lparr>st_gas := st_gas st1 - i\<rparr>) st2"
    "st3 = with_db st2 s"
    "if rIsBerlin (st_rules st1) then PrepareAccessList (mFrom (msg st1)) (mTo (msg st1)) (ActivePrecompiles (st_rules st1))
       (case mAccessList (msg st1) of None \<Rightarrow> [] | Some l \<Rightarrow> l) (db_of st2) = Ok s else s = db_of st2"
    "execute_msg n st3 = Ok ((ReturnData r, Err r), st4)"
    "refundGas (if \<not> rIsLondon (st_rules st1) then RefundQuotient else RefundQuotientEIP3529) st4 = Ok st5"
    "pay_fee st5 = Ok st6" "UsedGas r = gasUsed st6"
proof -
  obtain st1 where p: "preCheck st = Ok (None, st1)"
    using assms by (auto simp: TransitionDb_def split: option.splits)
  let ?g = "\<lambda>i. IntrinsicGas (st_data st1) (mAccessList (msg st1)) (mTo (msg st1) = None) (rIsHomestead (st_rules st1)) (rIsIstanbul (st_rules st1))"
  obtain i where i: "?g i = Inr i" "\<not> st_gas st1 < i"
    using assms p by (auto simp: TransitionDb_def Let_def split: sum.splits if_splits)
  let ?st = "st1\<lparr>st_gas := st_gas st1 - i\<rparr>"
  define st2 where "st2 = (if mAmount (msg st1) > 0 then with_db ?st (snd (CanTransfer (mFrom (msg st1)) (mAmount (msg st1)) (db_of ?st))) else ?st)"
  have l: "looks ?st st2" by (simp add: st2_def)
  define can where "can = (mAmount (msg st1) > 0 \<longrightarrow> fst (CanTransfer (mFrom (msg st1)) (mAmount (msg st1)) (db_of ?st)))"
  have r: "(if mAmount (msg st1) > 0 then st_read (CanTransfer (mFrom (msg st1)) (mAmount (msg st1))) ?st else (True, ?st)) = (can, st2)"
    by (simp add: st2_def can_def st_read_eq)
  define prep where "prep = (if rIsBerlin (st_rules st1) then
      rbind (PrepareAccessList (mFrom (msg st1)) (mTo (msg st1)) (ActivePrecompiles (st_rules st1))
         (case mAccessList (msg st1) of None \<Rightarrow> [] | Some l \<Rightarrow> l) (db_of st2)) (\<lambda>s. Ok (with_db st2 s)) else Ok st2)"
  obtain st3 ret vmerr st4 st5 where st3: "prep = Ok st3" and rest: "execute_msg n st3 = Ok ((ret, vmerr), st4)"
      "refundGas (if \<not> rIsLondon (st_rules st1) then RefundQuotient else RefundQuotientEIP3529) st4 = Ok st5"
      "pay_fee st5 = Ok st6" "r = \<lparr>UsedGas = gasUsed st6, Err = vmerr, ReturnData = ret\<rparr>"
    using assms unfolding TransitionDb_def p rbind.simps prod.case option.case Let_def i(1) sum.case if_not_P [OF i(2)] r
      prep_def [symmetric, unfolded with_db_def]
    by (auto split: if_splits)
  obtain s where s: "st3 = with_db st2 s" "if rIsBerlin (st_rules st1) then PrepareAccessList (mFrom (msg st1)) (mTo (msg st1)) (ActivePrecompiles (st_rules st1))
       (case mAccessList (msg st1) of None \<Rightarrow> [] | Some l \<Rightarrow> l) (db_of st2) = Ok s else s = db_of st2"
    using st3 by (auto simp: prep_def split: if_splits)
  show ?thesis by (rule that [OF p i l s]) (use rest in simp_all)
qed

section \<open>Gas is used or given back\<close>

lemma with_db_wired [simp]: "wired (e\<lparr>sdb := s\<rparr>) = wired e"
  by (simp add: wired_def)

lemma after_execution:
  assumes "wired evm" "\<not> readOnly evm" "ApplyMessage n evm m g = Ok (Inr r, st6)"
  obtains i rf :: u64 and st4 :: StateTransition where
    "IntrinsicGas (mData m) (mAccessList m) (mTo m = None) (IsHomestead (chainConfig evm) (BlockNumber (Context evm)))
       (IsIstanbul (chainConfig evm) (BlockNumber (Context evm))) = Inr i"
    "i \<le> mGasLimit m" "mGasLimit m \<le> g" "st_gas st4 \<le> mGasLimit m - i"
    "rf \<le> (mGasLimit m - st_gas st4) div (if IsLondon (chainConfig evm) (BlockNumber (Context evm)) then 5 else 2)"
    "st_gas st6 = st_gas st4 + rf" "gp st6 = (g - mGasLimit m) + st_gas st6" "UsedGas r = mGasLimit m - st_gas st6"
    "same_vm evm (evm_of st6)"
proof -
  let ?st = "NewStateTransition evm m g"
  from assms(3) [unfolded ApplyMessage_def] obtain i st1 st2 s st3 st4 st5 where
    p: "preCheck ?st = Ok (None, st1)"
    and i: "IntrinsicGas (st_data st1) (mAccessList (msg st1)) (mTo (msg st1) = None) (rIsHomestead (st_rules st1)) (rIsIstanbul (st_rules st1)) = Inr i"
    "\<not> st_gas st1 < i" and st2: "looks (st1\<lparr>st_gas := st_gas st1 - i\<rparr>) st2" and st3: "st3 = with_db st2 s"
    and ex: "execute_msg n st3 = Ok ((ReturnData r, Err r), st4)"
    and rf: "refundGas (if \<not> rIsLondon (st_rules st1) then RefundQuotient else RefundQuotientEIP3529) st4 = Ok st5"
    and fee: "pay_fee st5 = Ok st6" "UsedGas r = gasUsed st6"
    by (rule TransitionDb_stages)
  obtain s1 where s1: "\<not> g < mGasLimit m"
    "st1 = with_db (?st\<lparr>gp := g - mGasLimit m, st_gas := mGasLimit m, initialGas := mGasLimit m\<rparr>) s1"
    using preCheck_result [OF p] by (auto simp: NewStateTransition_def)
  obtain s3 where s3: "st3 = with_db (st1\<lparr>st_gas := st_gas st1 - i\<rparr>) s3"
    using st2 st3 by (auto simp: looks_def)
  have e3: "evm_of st3 = evm\<lparr>sdb := s3\<rparr>" by (simp add: s3 s1(2) NewStateTransition_def)
  have "wired (evm_of st3)" "\<not> readOnly (evm_of st3)" using assms(1,2) by (simp_all add: e3)
  from postD [OF execute_msg_post [OF this] ex]
  have x: "st_gas st4 \<le> mGasLimit m - i" "same_msg st3 st4" and vm: "same_vm evm (evm_of st4)"
    by (simp_all add: s3 s1(2) moves_def NewStateTransition_def)
  then have f4: "initialGas st4 = mGasLimit m" "gp st4 = g - mGasLimit m" by (simp_all add: same_msg_def s3 s1(2))
  obtain q where q: "q \<le> gasUsed st4 div (if \<not> rIsLondon (st_rules st1) then RefundQuotient else RefundQuotientEIP3529)"
    "st_gas st5 = st_gas st4 + q" "gp st5 = g - mGasLimit m + st_gas st5" "initialGas st5 = mGasLimit m" "same_vm evm (evm_of st5)"
    using refundGas_result [OF rf] f4 vm by auto
  have f6: "st_gas st6 = st_gas st5" "gp st6 = gp st5" "initialGas st6 = mGasLimit m" "same_vm evm (evm_of st6)"
    using pay_fee_result [OF fee(1)] q(4,5) by auto
  have rules: "rIsHomestead (st_rules st1) = IsHomestead (chainConfig evm) (BlockNumber (Context evm))"
    "rIsIstanbul (st_rules st1) = IsIstanbul (chainConfig evm) (BlockNumber (Context evm))"
    "rIsLondon (st_rules st1) = IsLondon (chainConfig evm) (BlockNumber (Context evm))"
    "st_data st1 = mData m" "msg st1 = m" "st_gas st1 = mGasLimit m"
    by (simp_all add: s1(2) NewStateTransition_def st_rules_def ChainRules_def Let_def)
  show ?thesis
    by (rule that [of i st4 q])
      (use i x(1) q f4 f6 fee(2) s1(1) in \<open>auto simp: rules gasUsed_def not_less split: if_splits\<close>)
qed

lemma settle_words:
  fixes i l g left rf q :: u64
  assumes "i \<le> l" "l \<le> g" "left \<le> l - i" "rf \<le> (l - left) div q" "unat q \<ge> 2"
  shows "unat (l - (left + rf)) \<le> unat l" "unat (g - l + (left + rf)) + unat (l - (left + rf)) = unat g"
    "unat i - unat i div unat q \<le> unat (l - (left + rf))"
proof -
  let ?q = "unat q"
  have le: "unat i \<le> unat l" "unat l \<le> unat g" using assms(1,2) by (simp_all add: word_le_nat_alt)
  have left: "unat left \<le> unat l - unat i" using assms(3) unat_sub [OF assms(1)] by (simp add: word_le_nat_alt)
  then have "left \<le> l" by (simp add: word_le_nat_alt)
  then have used: "unat (l - left) = unat l - unat left" by (rule unat_sub)
  have rf: "unat rf \<le> (unat l - unat left) div ?q" using assms(4) by (simp add: word_le_nat_alt unat_div used)
  also have "\<dots> \<le> unat l - unat left" by simp
  finally have fits: "unat left + unat rf \<le> unat l" using left by linarith
  have sum: "unat (left + rf) = unat left + unat rf"
    by (subst unat_add_lem [symmetric]) (use fits u64_bound [of l] in simp)
  have "left + rf \<le> l" using fits sum by (simp add: word_le_nat_alt)
  then have d: "unat (l - (left + rf)) = unat l - (unat left + unat rf)" using unat_sub sum by metis
  show "unat (l - (left + rf)) \<le> unat l" using d by simp
  have gl: "unat (g - l) = unat g - unat l" by (rule unat_sub [OF assms(2)])
  have "unat (g - l + (left + rf)) = unat (g - l) + unat (left + rf)"
    by (subst unat_add_lem [symmetric]) (use fits gl sum le u64_bound [of g] in simp)
  then show "unat (g - l + (left + rf)) + unat (l - (left + rf)) = unat g" using gl sum d fits le by linarith
  have mono: "a - a div ?q \<le> b - b div ?q" if "a \<le> b" for a b
  proof -
    have "b div ?q \<le> a div ?q + (b - a)"
    proof -
      have "b div ?q \<le> (a + (b - a) * ?q) div ?q" by (rule div_le_mono) (use that assms(5) in \<open>metis add_le_cancel_left le_add_diff_inverse mult.right_neutral mult_le_mono2 one_le_numeral order_trans\<close>)
      then show ?thesis using assms(5) by simp
    qed
    then show ?thesis using that by linarith
  qed
  have "unat i - unat i div ?q \<le> (unat l - unat left) - (unat l - unat left) div ?q"
    by (rule mono) (use left le in linarith)
  then show "unat i - unat i div ?q \<le> unat (l - (left + rf))" using d rf fits by linarith
qed

text \<open>What a message that was executed settles, with the machine it ran on.\<close>

lemma message_settled:
  assumes "wired evm" "\<not> readOnly evm" "ApplyMessage n evm m g = Ok (Inr r, st)"
  shows "unat (UsedGas r) \<le> unat (mGasLimit m)" "unat (gp st) + unat (UsedGas r) = unat g" "same_vm evm (evm_of st)"
    "\<exists>i. IntrinsicGas (mData m) (mAccessList m) (mTo m = None) (IsHomestead (chainConfig evm) (BlockNumber (Context evm)))
           (IsIstanbul (chainConfig evm) (BlockNumber (Context evm))) = Inr i \<and>
       unat i - unat i div (if IsLondon (chainConfig evm) (BlockNumber (Context evm)) then 5 else 2) \<le> unat (UsedGas r)"
proof -
  from after_execution [OF assms] obtain i rf st4 where i: "IntrinsicGas (mData m) (mAccessList m) (mTo m = None)
       (IsHomestead (chainConfig evm) (BlockNumber (Context evm))) (IsIstanbul (chainConfig evm) (BlockNumber (Context evm))) = Inr i"
    and w: "i \<le> mGasLimit m" "mGasLimit m \<le> g" "st_gas (st4 :: StateTransition) \<le> mGasLimit m - i"
    "rf \<le> (mGasLimit m - st_gas st4) div (if IsLondon (chainConfig evm) (BlockNumber (Context evm)) then 5 else 2)"
    and r: "st_gas st = st_gas st4 + rf" "gp st = (g - mGasLimit m) + st_gas st" "UsedGas r = mGasLimit m - st_gas st"
    and vm: "same_vm evm (evm_of st)"
    by metis
  let ?q = "if IsLondon (chainConfig evm) (BlockNumber (Context evm)) then 5 else 2 :: u64"
  have q: "unat ?q \<ge> 2" "unat ?q = (if IsLondon (chainConfig evm) (BlockNumber (Context evm)) then 5 else 2)" by simp_all
  note settled = settle_words [OF w q(1)]
  show "unat (UsedGas r) \<le> unat (mGasLimit m)" "unat (gp st) + unat (UsedGas r) = unat g" "same_vm evm (evm_of st)"
    using settled(1,2) r vm by simp_all
  show "\<exists>i. IntrinsicGas (mData m) (mAccessList m) (mTo m = None) (IsHomestead (chainConfig evm) (BlockNumber (Context evm)))
           (IsIstanbul (chainConfig evm) (BlockNumber (Context evm))) = Inr i \<and>
       unat i - unat i div (if IsLondon (chainConfig evm) (BlockNumber (Context evm)) then 5 else 2) \<le> unat (UsedGas r)"
    using settled(3) i r by (simp only: q(2)) blast
qed

text \<open>
  C1: Gas is conserved. A message that is executed uses at most its gas limit; what it uses, and nothing
  else, is missing from the block's pool afterwards; and however much it gets refunded, it pays for
  at least half of its intrinsic gas, since London for four fifths of it.
\<close>

theorem ApplyMessage_gas:
  assumes "wired evm" "\<not> readOnly evm" "ApplyMessage n evm m g = Ok (Inr r, st)"
  shows "unat (UsedGas r) \<le> unat (mGasLimit m) \<and> unat (gp st) + unat (UsedGas r) = unat g \<and>
    (\<exists>i. IntrinsicGas (mData m) (mAccessList m) (mTo m = None) (IsHomestead (chainConfig evm) (BlockNumber (Context evm)))
           (IsIstanbul (chainConfig evm) (BlockNumber (Context evm))) = Inr i \<and>
       unat i - unat i div (if IsLondon (chainConfig evm) (BlockNumber (Context evm)) then 5 else 2) \<le> unat (UsedGas r))"
proof -
  show ?thesis using message_settled [OF assms] by blast
qed

section \<open>Every message is settled\<close>

lemma neq_NoFuel_deref [simp]: "deref x \<noteq> NoFuel"
  by (simp add: deref_def split: option.split)

lemma deref_case [simp]: "deref (Some y) = Ok y" "deref None = Panic"
  by (simp_all add: deref_def)

lemma fees_neq_NoFuel: "check_fees st \<noteq> NoFuel" "pay_fee st \<noteq> NoFuel" "refundGas q st \<noteq> NoFuel" "preCheck st \<noteq> NoFuel"
proof -
  show f: "check_fees st \<noteq> NoFuel" for st
    by (cases "gasFeeCap st"; cases "gasTipCap st"; cases "BaseFee (Context (evm_of st))"; simp add: check_fees_def Let_def)
  show "pay_fee st \<noteq> NoFuel"
    by (cases "gasFeeCap st"; cases "gasTipCap st"; cases "BaseFee (Context (evm_of st))"; simp add: pay_fee_def effectiveTip_def)
  show "refundGas q st \<noteq> NoFuel" by (simp add: refundGas_def Let_def GasPool_AddGas_def)
  show "preCheck st \<noteq> NoFuel"
    by (cases "check_sender st"; cases "fst (check_sender st)")
      (auto simp: preCheck_def neq_NoFuel_post post_nofuel [OF f] split: option.split)
qed

lemma add_slots_neq_NoFuel: "add_slots a ks s \<noteq> NoFuel"
  by (induction ks arbitrary: s) (simp_all add: neq_NoFuel_post post_simps)

lemma PrepareAccessList_neq_NoFuel [simp]: "PrepareAccessList a d ps l s \<noteq> NoFuel"
proof -
  have "add_tuples l s \<noteq> NoFuel" for s
    by (induction l arbitrary: s) (auto simp: neq_NoFuel_post post_nofuel [OF add_slots_neq_NoFuel])
  then show ?thesis by (simp add: PrepareAccessList_def Let_def)
qed

lemma TransitionDb_fuel:
  assumes "preCheck st = Ok (None, st1)" "wired (evm_of st1)" "\<not> readOnly (evm_of st1)" "unat (st_gas st1) + 2 \<le> n"
  shows "TransitionDb n st \<noteq> NoFuel"
proof (cases "IntrinsicGas (st_data st1) (mAccessList (msg st1)) (mTo (msg st1) = None) (rIsHomestead (st_rules st1)) (rIsIstanbul (st_rules st1))")
  case (Inl e)
  then show ?thesis unfolding TransitionDb_def assms(1) rbind.simps prod.case option.case Let_def by simp
next
  case i: (Inr i)
  let ?st = "st1\<lparr>st_gas := st_gas st1 - i\<rparr>"
  obtain can st2 where r: "(if mAmount (msg st1) > 0 then st_read (CanTransfer (mFrom (msg st1)) (mAmount (msg st1))) ?st else (True, ?st)) = (can, st2)"
    by (meson surj_pair)
  then have "looks ?st st2" by (auto simp: st_read_eq split: if_splits)
  then have st2: "\<exists>s. st2 = with_db ?st s" by (auto simp: looks_def)
  have ex: "execute_msg n (st2\<lparr>evm_of := (evm_of st2)\<lparr>sdb := s\<rparr>\<rparr>) \<noteq> NoFuel" "execute_msg n st2 \<noteq> NoFuel"
    if "\<not> st_gas st1 < i" for s
  proof -
    have "unat (st_gas st1 - i) \<le> unat (st_gas st1)" using that unat_sub [of i "st_gas st1"] by (simp add: not_less)
    then have "execute_msg n (with_db ?st s) \<noteq> NoFuel" for s
      using post_NoFuel [OF execute_msg_post [of "with_db ?st s" n]] assms(2-4) by auto
    then show "execute_msg n (st2\<lparr>evm_of := (evm_of st2)\<lparr>sdb := s\<rparr>\<rparr>) \<noteq> NoFuel" "execute_msg n st2 \<noteq> NoFuel"
      using st2 by (auto simp flip: with_db_def)
  qed
  show ?thesis
    unfolding TransitionDb_def assms(1) rbind.simps prod.case option.case Let_def i sum.case r
    using ex by (auto simp: neq_NoFuel_post post_simps post_nofuel fees_neq_NoFuel split: prod.split)
qed

text \<open>
  Applying a message ends, with a result, a refusal or a Go panic, within a fuel of two more than its gas
  limit, whatever code it runs.
\<close>

lemma ApplyMessage_settles:
  assumes "wired evm" "\<not> readOnly evm" "unat (mGasLimit m) + 2 \<le> n"
  shows "ApplyMessage n evm m g \<noteq> NoFuel"
proof -
  let ?st = "NewStateTransition evm m g"
  obtain e st1 where p: "preCheck ?st = Ok (e, st1) \<or> preCheck ?st = Panic" using fees_neq_NoFuel(4) by (cases "preCheck ?st") auto
  show ?thesis
  proof (cases "preCheck ?st = Ok (None, st1)")
    case True
    from preCheck_result [OF True] obtain s where
      "st1 = with_db (?st\<lparr>gp := g - mGasLimit m, st_gas := mGasLimit m, initialGas := mGasLimit m\<rparr>) s"
      by (auto simp: NewStateTransition_def)
    then show ?thesis
      unfolding ApplyMessage_def using assms by (intro TransitionDb_fuel [OF True]) (simp_all add: NewStateTransition_def)
  next
    case False
    then show ?thesis using p by (auto simp: ApplyMessage_def TransitionDb_def split: option.split)
  qed
qed

section \<open>Refused messages\<close>

definition late_errors :: "core_error set" where
  "late_errors = {CoreGasUintOverflow, ErrIntrinsicGas, ErrInsufficientFundsForTransfer}"

lemma preCheck_early:
  assumes "preCheck st = Ok (Some e, st1)"
  shows "e \<notin> late_errors"
proof -
  have "e' \<notin> late_errors" if "check_sender st = (Some e', s)" for e' s
    using that by (auto simp: check_sender_def Let_def st_read_eq late_errors_def split: if_splits)
  moreover have "e' \<notin> late_errors" if "check_fees s = Ok (Some e')" for e' s
    using that by (auto simp: check_fees_def Let_def late_errors_def split: if_splits)
  moreover have "e' \<notin> late_errors" if "buyGas s = (Some e', s')" for e' s s'
    using that by (auto simp: buyGas_def Let_def st_read_eq late_errors_def split: if_splits option.splits)
  ultimately show ?thesis using assms by (auto simp: preCheck_def split: prod.splits option.splits)
qed

lemma TransitionDb_rejected:
  assumes "TransitionDb n st = Ok (Inl e, st')"
  shows "preCheck st = Ok (Some e, st') \<or>
    (\<exists>st1. preCheck st = Ok (None, st1) \<and> e \<in> late_errors \<and> gp st' = gp st1 \<and> looked (db_of st1) (db_of st'))"
proof -
  obtain e0 st1 where p: "preCheck st = Ok (e0, st1)" using assms by (auto simp: TransitionDb_def)
  show ?thesis
  proof (cases e0)
    case None
    show ?thesis
    proof (cases "IntrinsicGas (st_data st1) (mAccessList (msg st1)) (mTo (msg st1) = None) (rIsHomestead (st_rules st1)) (rIsIstanbul (st_rules st1))")
      case (Inl e1)
      then have "st' = st1" "e = e1" using assms p None by (simp_all add: TransitionDb_def Let_def)
      moreover have "e1 \<in> late_errors" using Inl by (auto simp: IntrinsicGas_def Let_def late_errors_def split: option.splits if_splits)
      ultimately show ?thesis using p None by auto
    next
      case i: (Inr i)
      let ?st = "st1\<lparr>st_gas := st_gas st1 - i\<rparr>"
      obtain can st2 where r: "(if mAmount (msg st1) > 0 then st_read (CanTransfer (mFrom (msg st1)) (mAmount (msg st1))) ?st else (True, ?st)) = (can, st2)"
        by (meson surj_pair)
      then have "looks ?st st2" by (auto simp: st_read_eq split: if_splits)
      moreover have "st' = st1 \<and> e = ErrIntrinsicGas \<or> st' = st2 \<and> e = ErrInsufficientFundsForTransfer"
        using assms unfolding TransitionDb_def p None rbind.simps prod.case option.case Let_def i sum.case r
        by (auto split: if_splits prod.splits)
      ultimately show ?thesis using p None by (auto simp: late_errors_def looks_def)
    qed
  next
    case (Some e1)
    then show ?thesis using assms p by (simp add: TransitionDb_def)
  qed
qed

text \<open>
  C3: A refused message. If it is refused before it bought gas, for its nonce, its sender, its fee caps,
  lack of funds or a full block, the block's pool and every answer of the state are as before. If its
  gas turns out not to cover the intrinsic gas, or its value exceeds the balance that is left, the
  gas limit stays out of the pool and the sender stays charged: the caller has to revert the state, and
  nothing returns the gas to the pool.
\<close>

theorem ApplyMessage_refused:
  assumes "sdb_ok (sdb evm)" "ApplyMessage n evm m g = Ok (Inl e, st)"
  shows "if e \<in> {CoreGasUintOverflow, ErrIntrinsicGas, ErrInsufficientFundsForTransfer}
    then unat (gp st) + unat (mGasLimit m) = unat g \<and>
      (\<forall>a. fst (GetBalance a (sdb (evm_of st))) =
         fst (GetBalance a (sdb evm)) - (if a = mFrom m then uint (mGasLimit m) * mGasPrice m else 0))
    else gp st = g \<and> same_answers (sdb (evm_of st)) (sdb evm)"
proof -
  let ?st = "NewStateTransition evm m g"
  note base = assms(2) [unfolded ApplyMessage_def]
  have start: "db_of ?st = sdb evm" "gp ?st = g" "msg ?st = m" "gasPrice ?st = mGasPrice m" by (simp_all add: NewStateTransition_def)
  from TransitionDb_rejected [OF base] show ?thesis
  proof (elim disjE exE conjE)
    assume p: "preCheck ?st = Ok (Some e, st)"
    from preCheck_result [OF p] obtain s where "st = with_db ?st s" "looked (sdb evm) s" by (auto simp: start)
    then show ?thesis
      using preCheck_early [OF p] assms(1) eqv_same_answers by (auto simp: late_errors_def looked_def start)
  next
    fix st1
    assume p: "preCheck ?st = Ok (None, st1)" and e: "e \<in> late_errors" and l: "gp st = gp st1" "looked (db_of st1) (db_of st)"
    let ?cost = "uint (mGasLimit m) * mGasPrice m"
    from preCheck_result [OF p] obtain s where s: "looked (sdb evm) s" "mGasLimit m \<le> g" "gp st1 = g - mGasLimit m"
      "db_of st1 = SubBalance (mFrom m) ?cost s"
      by (auto simp: start not_less)
    have ok: "sdb_ok s" "eqv s (sdb evm)" using s(1) assms(1) db_step_ok by (auto simp: looked_def)
    then have "sdb_ok (db_of st1)" unfolding s(4) by (intro evolves_ok(2) [OF SubBalance_evolves])
    then have "eqv (db_of st) (db_of st1)" using l(2) by (simp add: looked_def)
    then have b: "fst (GetBalance a (db_of st)) = fst (GetBalance a (db_of st1))" for a
      using eqv_same_answers by (auto simp: same_answers_def)
    moreover have "fst (GetBalance a s) = fst (GetBalance a (sdb evm))" for a
      using eqv_same_answers [OF ok(2)] by (auto simp: same_answers_def)
    moreover have "unat (g - mGasLimit m) + unat (mGasLimit m) = unat g"
      using unat_sub [OF s(2)] s(2) by (simp add: word_le_nat_alt)
    ultimately show ?thesis using e balance_after [OF ok(1)] l(1) s(3,4) by (simp add: late_errors_def)
  qed
qed

section \<open>Messages to the data copy contract\<close>

definition sample_message :: "u64 \<Rightarrow> Message" where
  "sample_message limit = \<lparr>mTo = Some 4, mFrom = 1, mNonce = 0, mAmount = 0, mGasLimit = limit, mGasPrice = 0,
     mGasFeeCap = Some 0, mGasTipCap = Some 0, mData = [], mAccessList = None, mIsFake = False\<rparr>"

text \<open>The machine before the first fork, in any block and for any transaction of the empty state.\<close>

definition start_evm :: "BlockContext \<Rightarrow> TxContext \<Rightarrow> Config \<Rightarrow> hash \<Rightarrow> nat \<Rightarrow> Logger \<Rightarrow> EVM" where
  "start_evm ctx tc cfg h i l = frontier_evm\<lparr>Context := ctx, TxCtx := tc, evmConfig := cfg,
     sdb := Prepare h i (empty_db sample_hash), logger := l\<rparr>"

lemma frontier_start: "frontier_evm = start_evm sample_block sample_tx sample_vm_config 0 0 (InitTrace InitLogger)"
  by (simp add: start_evm_def frontier_evm_def Prepare_def empty_db_def)

lemma start_fields:
  "Prefetch (start_evm ctx tc cfg h i l)" "Depth (start_evm ctx tc cfg h i l) = 0" "\<not> readOnly (start_evm ctx tc cfg h i l)"
  "sdb (start_evm ctx tc cfg h i l) = Prepare h i (empty_db sample_hash)"
  "chainConfig (start_evm ctx tc cfg h i l) = frontier_config" "evmConfig (start_evm ctx tc cfg h i l) = cfg"
  "Context (start_evm ctx tc cfg h i l) = ctx" "chainRules (start_evm ctx tc cfg h i l) = chainRules frontier_evm"
  "wired (start_evm ctx tc cfg h i l)"
proof -
  show "wired (start_evm ctx tc cfg h i l)" using frontier_wired by (simp add: start_evm_def wired_def)
qed (simp_all add: start_evm_def frontier_fields, simp add: frontier_evm_def)

lemma empty_answers: "fst (GetNonce a (Prepare h i (empty_db k))) = 0" "fst (GetBalance a (Prepare h i (empty_db k))) = 0"
  "fst (GetCodeHash a (Prepare h i (empty_db k))) = 0"
  "snd (GetNonce a (Prepare h i (empty_db k))) = Prepare h i (empty_db k)"
  "snd (GetBalance a (Prepare h i (empty_db k))) = Prepare h i (empty_db k)"
  "snd (GetCodeHash a (Prepare h i (empty_db k))) = Prepare h i (empty_db k)"
  by (simp_all add: GetNonce_def GetBalance_def GetCodeHash_def getStateObject_def getDeletedStateObject_def load_account_def
      empty_db_def Prepare_def Let_def)

lemma start_st: "evm_of (NewStateTransition evm m g) = evm"
  by (simp add: NewStateTransition_def)

lemma frontier_forks: "\<not> IsLondon frontier_config b" "\<not> IsBerlin frontier_config b" "\<not> IsHomestead frontier_config b"
  "\<not> IsIstanbul frontier_config b"
  by (simp_all add: frontier_config_def IsLondon_def IsBerlin_def IsHomestead_def IsIstanbul_def isForked_def)

lemma sample_preCheck:
  assumes "limit \<le> g" "evm = start_evm ctx tc cfg h i l"
  shows "preCheck (NewStateTransition evm (sample_message limit) g) =
    Ok (None, with_db (NewStateTransition evm (sample_message limit) g\<lparr>gp := g - limit, st_gas := limit, initialGas := limit\<rparr>)
      (SubBalance 1 0 (sdb evm)))"
  using assms
  by (simp add: preCheck_def check_sender_def check_fees_def buyGas_def Let_def st_read_eq st_write_eq start_st start_fields
      frontier_forks empty_answers with_db_def GasPool_SubGas_def not_less)
    (simp add: NewStateTransition_def sample_message_def start_fields empty_answers GasPool_SubGas_def not_less)

theorem ApplyMessage_refused_witness:
  "\<exists>st. ApplyMessage 5 frontier_evm (sample_message 100) 1000 = Ok (Inl ErrIntrinsicGas, st) \<and> unat (gp st) = 900"
proof -
  have "\<exists>st. ApplyMessage 5 frontier_evm (sample_message 100) 1000 = Ok (Inl ErrIntrinsicGas, st)"
    by (simp add: ApplyMessage_def TransitionDb_def sample_preCheck [OF _ frontier_start] Let_def)
      (simp add: NewStateTransition_def sample_message_def IntrinsicGas_def)
  then obtain st where st: "ApplyMessage 5 frontier_evm (sample_message 100) 1000 = Ok (Inl ErrIntrinsicGas, st)" ..
  from ApplyMessage_refused [OF _ st] show ?thesis using st sample_db_ok by (simp add: frontier_fields sample_message_def)
qed

lemma sample_data_copy: "run_precompile dataCopy [] 9000 evm = Ok (([], 8985, None), evm)"
  by (simp add: run_precompile_def RunPrecompiledContract_def RequiredGas_def dataCopy_RequiredGas_def words_of_def precompile_Run_def)

lemma pool_takes_back:
  assumes "gp st = g - initialGas st" "initialGas st \<le> g" "st_gas st \<le> initialGas st"
  shows "\<exists>st'. refundGas q st = Ok st'"
proof -
  let ?l = "initialGas st" and ?left = "st_gas st"
  let ?r = "if gasUsed st div q > GetRefund (db_of st) then GetRefund (db_of st) else gasUsed st div q"
  have "unat (gasUsed st div q) \<le> unat ?l - unat ?left"
    using unat_sub [OF assms(3)] by (simp add: gasUsed_def unat_div)
  then have r: "unat ?r \<le> unat ?l - unat ?left" by (auto simp: word_less_nat_alt)
  have le: "unat ?left \<le> unat ?l" "unat ?l \<le> unat g" using assms(2,3) by (simp_all add: word_le_nat_alt)
  have sum: "unat (?left + ?r) = unat ?left + unat ?r"
    by (subst unat_add_lem [symmetric]) (use r le u64_bound [of ?l] in simp)
  have "unat (- 1 - (?left + ?r)) = 2 ^ 64 - 1 - unat (?left + ?r)"
    using unat_sub [of "?left + ?r" "- 1"] by (simp add: word_order.extremum unsigned_minus_1_eq_mask mask_eq_exp_minus_1)
  moreover have "unat (g - ?l) = unat g - unat ?l" by (rule unat_sub [OF assms(2)])
  ultimately have "\<not> - 1 - (?left + ?r) < g - ?l"
    using sum r le u64_bound [of g] by (simp only: word_less_nat_alt)
  then show ?thesis by (simp add: refundGas_def Let_def GasPool_AddGas_def st_write_eq assms(1))
qed

lemma sample_inner_call:
  "\<exists>evm'. EVM_Call (Run 5) (AccountRef 1) 4 [] 9000 0 ((start_evm ctx tc cfg h i l)\<lparr>sdb := s\<rparr>) = Ok (([], 8985, None), evm')"
  by (simp add: EVM_Call_def Transfer_def evm_read_eq evm_write_def start_fields sample_precompile(1,2) sample_data_copy
      finish_call_def Let_def ContractRef_Address_def)

lemma sample_executed:
  assumes "evm = start_evm ctx tc cfg h i l" "\<not> NoBaseFee cfg"
  shows "\<exists>r st. ApplyMessage 5 evm (sample_message 30000) 100000 = Ok (Inr r, st)"
proof -
  let ?s = "SubBalance 1 0 (sdb evm)"
  let ?t = "SetNonce 1 (fst (GetNonce 1 ?s) + 1) (snd (GetNonce 1 ?s))"
  obtain evm' where c: "EVM_Call (Run 5) (AccountRef 1) 4 [] 9000 0 (evm\<lparr>sdb := ?t\<rparr>) = Ok (([], 8985, None), evm')"
    unfolding assms(1) using sample_inner_call by blast
  have "wired (evm\<lparr>sdb := ?t\<rparr>)" by (simp add: assms(1) start_fields)
  from postD [OF evm_run.EVM_Call_called [OF this] c]
  have vm: "chainConfig evm' = frontier_config" "evmConfig evm' = cfg"
    by (simp_all add: called_def moves_def same_vm_def assms(1) start_fields)
  define st where "st = NewStateTransition evm (sample_message 30000) 100000"
  define st3 where "st3 = with_db (st\<lparr>gp := 70000, st_gas := 9000, initialGas := 30000\<rparr>) ?s"
  define st4 where "st4 = st3\<lparr>st_gas := 8985, evm_of := evm'\<rparr>"
  have ex: "execute_msg 5 st3 = Ok (([], None), st4)"
    using c by (simp add: execute_msg_def st3_def st4_def st_def Let_def st_read_eq st_write_eq st_to_def with_db_def
        NewStateTransition_def sample_message_def)
  obtain st5 where r: "refundGas RefundQuotient st4 = Ok st5"
    using pool_takes_back [of st4 100000 2] by (auto simp: st4_def st3_def st_def)
  have "evmConfig (evm_of st5) = cfg" "chainConfig (evm_of st5) = frontier_config"
    using refundGas_result [OF r] vm by (auto simp: st4_def)
  then have "\<exists>st6. pay_fee st5 = Ok st6"
    using assms(2) by (simp add: pay_fee_def effectiveTip_def st_rules_def ChainRules_def Let_def frontier_forks)
  moreover have "preCheck st = Ok (None, st3\<lparr>st_gas := 30000\<rparr>)"
    using sample_preCheck [of 30000 100000, OF _ assms(1)] by (simp add: st_def st3_def with_db_def)
  ultimately show ?thesis
    using ex r
    by (simp add: ApplyMessage_def TransitionDb_def st_def [symmetric] Let_def)
      (simp add: st3_def st_def with_db_def NewStateTransition_def sample_message_def IntrinsicGas_def st_rules_def
        ChainRules_def Let_def assms(1) start_fields frontier_forks)
qed

theorem ApplyMessage_gas_witness:
  "\<exists>r st. ApplyMessage 5 frontier_evm (sample_message 30000) 100000 = Ok (Inr r, st) \<and>
     unat (gp st) + unat (UsedGas r) = 100000 \<and> unat (UsedGas r) \<le> 30000"
proof -
  obtain r st where e: "ApplyMessage 5 frontier_evm (sample_message 30000) 100000 = Ok (Inr r, st)"
    using sample_executed [OF frontier_start] by (auto simp: sample_vm_config_def)
  from ApplyMessage_gas [OF frontier_wired _ e] show ?thesis using e by (auto simp: frontier_fields sample_message_def)
qed

end
