(* ===== verification/Transfers.thy ===== *)
theory Transfers
  imports MessageGas
begin

text \<open>
  What a plain transfer does, a message to an account without code: it always goes through when its checks
  pass, costs its intrinsic gas, and moves the ether between the sender, the recipient and the coinbase.
\<close>

section \<open>The ledger of a state\<close>

text \<open>The balances change by \<open>d\<close>, the nonces by \<open>k\<close>, code and refund stay.\<close>

definition ledger :: "StateDB \<Rightarrow> (address \<Rightarrow> int) \<Rightarrow> (address \<Rightarrow> u64) \<Rightarrow> StateDB \<Rightarrow> bool" where
  "ledger s d k s' \<longleftrightarrow> sdb_ok s' \<and> refund s' = refund s \<and>
     (\<forall>a. fst (GetBalance a s') = fst (GetBalance a s) + d a \<and> fst (GetNonce a s') = fst (GetNonce a s) + k a \<and>
        fst (GetCode a s') = fst (GetCode a s))"

lemma ledger_trans:
  assumes "ledger s d k t" "ledger t d' k' u" "\<And>a. d'' a = d a + d' a" "\<And>a. k'' a = k a + k' a"
  shows "ledger s d'' k'' u"
  using assms by (simp add: ledger_def add.assoc)

lemma ledger_eqv:
  assumes "eqv s' s" "sdb_ok s'"
  shows "ledger s (\<lambda>_. 0) (\<lambda>_. 0) s'"
  using eqv_same_answers [OF assms(1)] assms by (simp add: ledger_def same_answers_def GetRefund_def)

lemma refund_object [simp]: "refund (snd (getDeletedStateObject a s)) = refund s" "refund (snd (getStateObject a s)) = refund s"
  "refund (snd (snd (createObject a s))) = refund s" "refund (snd (GetOrNewStateObject a s)) = refund s"
proof -
  show d: "refund (snd (getDeletedStateObject a s)) = refund s" for a s
    by (simp add: getDeletedStateObject_def StateDB_setError_def setStateObject_def Let_def split: option.split sum.split)
  show g: "refund (snd (getStateObject a s)) = refund s"
    using d [of a s] by (auto simp: getStateObject_def split: option.split prod.split)
  show c: "refund (snd (snd (createObject a s))) = refund s" for s
    using d [of a s] by (auto simp: createObject_def setStateObject_def Let_def split: option.split prod.split)
  show "refund (snd (GetOrNewStateObject a s)) = refund s"
    using g c by (auto simp: GetOrNewStateObject_def split: option.split prod.split) (metis snd_conv)+
qed

lemma refund_setters [simp]: "refund (AddBalance a x s) = refund s" "refund (SubBalance a x s) = refund s"
  "refund (SetNonce a n s) = refund s" "refund (CreateAccount a s) = refund s"
proof -
  have g: "refund (case GetOrNewStateObject a s of (obj, s') \<Rightarrow> f obj s') = refund s" if "\<And>obj s'. refund (f obj s') = refund s'" for f
    using refund_object(4) [of a s] that by (cases "GetOrNewStateObject a s") simp
  have t: "refund (touch obj s') = refund s'" for obj s'
    by (simp add: touch_def Let_def journal_dirty_def)
  show "refund (AddBalance a x s) = refund s" "refund (SubBalance a x s) = refund s" "refund (SetNonce a n s) = refund s"
    unfolding AddBalance_def SubBalance_def SetNonce_def Let_def
    by (rule g, simp add: so_AddBalance_def so_SubBalance_def so_SetBalance_def so_SetNonce_def t Let_def)+
  show "refund (CreateAccount a s) = refund s"
    using refund_object(3) [of a s] by (cases "createObject a s") (auto simp: CreateAccount_def setStateObject_def split: option.split)
qed

lemma ledger_balance:
  assumes "sdb_ok s"
  shows "ledger s (\<lambda>b. if b = a then x else 0) (\<lambda>_. 0) (AddBalance a x s)"
    "ledger s (\<lambda>b. if b = a then - x else 0) (\<lambda>_. 0) (SubBalance a x s)"
    "ledger s (\<lambda>_. 0) (\<lambda>b. if b = a then n - fst (GetNonce a s) else 0) (SetNonce a n s)"
proof -
  have one: "ledger s d k s'" if w: "written s a f s'" and r: "refund s' = refund s"
    and f: "\<And>v. v_balance (f v) = v_balance v + d a" "\<And>v. fst (GetNonce a s) = v_nonce v \<Longrightarrow> v_nonce (f v) = v_nonce v + k a"
      "\<And>v. v_code (f v) = v_code v"
    and o: "\<And>b. b \<noteq> a \<Longrightarrow> d b = 0 \<and> k b = 0" for d k f s'
  proof -
    have "fst (GetBalance b s') = fst (GetBalance b s) + d b \<and> fst (GetNonce b s') = fst (GetNonce b s) + k b \<and>
        fst (GetCode b s') = fst (GetCode b s)" for b
      using written_here [OF assms w] written_answers [OF assms w, of b] f o [of b] by (cases "b = a") auto
    then show ?thesis using r w by (simp add: ledger_def written_def)
  qed
  show "ledger s (\<lambda>b. if b = a then x else 0) (\<lambda>_. 0) (AddBalance a x s)"
    by (rule one [OF setters_written(1) [OF assms]]) simp_all
  show "ledger s (\<lambda>b. if b = a then - x else 0) (\<lambda>_. 0) (SubBalance a x s)"
    by (rule one [OF setters_written(2) [OF assms]]) simp_all
  show "ledger s (\<lambda>_. 0) (\<lambda>b. if b = a then n - fst (GetNonce a s) else 0) (SetNonce a n s)"
    by (rule one [OF setters_written(4) [OF assms]]) simp_all
qed

lemma ledger_create:
  assumes "sdb_ok s" "\<not> fst (Exist a s)"
  shows "ledger s (\<lambda>_. 0) (\<lambda>_. 0) (CreateAccount a s)"
proof -
  have "fst (GetNonce a s) = 0" "fst (GetCode a s) = []"
    using assms(2) by (simp_all add: answers [OF sdb_ok_wf [OF assms(1)]])
  then have "fst (GetBalance b (CreateAccount a s)) = fst (GetBalance b s) \<and> fst (GetNonce b (CreateAccount a s)) = fst (GetNonce b s) \<and>
      fst (GetCode b (CreateAccount a s)) = fst (GetCode b s)" for b
    using CreateAccount_answers [OF assms(1), where a = a and b = b] by (cases "b = a") auto
  then show ?thesis using evolves_ok(2) [OF CreateAccount_evolves [OF assms(1)]] by (simp add: ledger_def)
qed

lemma ledger_read:
  assumes "sdb_ok s"
  shows "ledger s (\<lambda>_. 0) (\<lambda>_. 0) (snd (Exist a s))" "ledger s (\<lambda>_. 0) (\<lambda>_. 0) (snd (GetCode a s))"
    "ledger s (\<lambda>_. 0) (\<lambda>_. 0) (snd (GetNonce a s))" "ledger s (\<lambda>_. 0) (\<lambda>_. 0) (snd (CanTransfer a v s))"
    "ledger s (\<lambda>_. 0) (\<lambda>_. 0) (snd (Snapshot_op s))"
proof -
  have r: "eqv s' s \<Longrightarrow> evolves s s' \<Longrightarrow> ledger s (\<lambda>_. 0) (\<lambda>_. 0) s'" for s' by (rule ledger_eqv [OF _ evolves_ok(2)])
  note e = read_eqv [OF assms] read_op_evolves [OF assms]
  show "ledger s (\<lambda>_. 0) (\<lambda>_. 0) (snd (Exist a s))" "ledger s (\<lambda>_. 0) (\<lambda>_. 0) (snd (GetCode a s))"
    "ledger s (\<lambda>_. 0) (\<lambda>_. 0) (snd (GetNonce a s))" 
    using r [OF e(1) e(12)] r [OF e(7) e(16)] r [OF e(4) e(15)] by simp_all
  show "ledger s (\<lambda>_. 0) (\<lambda>_. 0) (snd (CanTransfer a v s))" using r [OF e(3) e(14)] by (simp add: CanTransfer_def split_beta)
  show "ledger s (\<lambda>_. 0) (\<lambda>_. 0) (snd (Snapshot_op s))" by (rule r [OF Snapshot_op_facts(2,1) [OF assms]])
qed

lemma ledger_ok: "ledger s d k s' \<Longrightarrow> sdb_ok s'"
  by (simp add: ledger_def)

section \<open>The call of an account without code\<close>

definition moved :: "address \<Rightarrow> address \<Rightarrow> int \<Rightarrow> address \<Rightarrow> int" where
  "moved a b v = (\<lambda>x. (if x = b then v else 0) - (if x = a then v else 0))"

definition after_transfer :: "address \<Rightarrow> address \<Rightarrow> int \<Rightarrow> StateDB \<Rightarrow> StateDB" where
  "after_transfer a b v s =
     AddBalance b v (SubBalance a v (if \<not> fst (Exist b s) then CreateAccount b (snd (Exist b s)) else snd (Exist b s)))"

lemma ledger_transfer:
  assumes "sdb_ok s"
  shows "ledger s (moved a b v) (\<lambda>_. 0) (after_transfer a b v s)"
proof -
  let ?s2 = "snd (Exist b s)"
  define s3 where "s3 = (if \<not> fst (Exist b s) then CreateAccount b ?s2 else ?s2)"
  have l2: "ledger s (\<lambda>_. 0) (\<lambda>_. 0) ?s2" by (rule ledger_read(1) [OF assms])
  have "fst (Exist b ?s2) = fst (Exist b s)"
    using eqv_same_answers [OF read_eqv(1) [OF assms]] by (simp add: same_answers_def)
  then have "ledger ?s2 (\<lambda>_. 0) (\<lambda>_. 0) s3"
    using ledger_create [OF ledger_ok [OF l2]] ledger_eqv [OF eqv_refl [OF sdb_ok_wf [OF ledger_ok [OF l2]]] ledger_ok [OF l2]]
    by (auto simp: s3_def)
  then have l3: "ledger s (\<lambda>_. 0) (\<lambda>_. 0) s3" by (rule ledger_trans [OF l2]) simp_all
  have sub: "ledger s (\<lambda>x. if x = a then - v else 0) (\<lambda>_. 0) (SubBalance a v s3)"
    by (rule ledger_trans [OF l3 ledger_balance(2) [OF ledger_ok [OF l3]]]) simp_all
  show ?thesis
    unfolding after_transfer_def s3_def [symmetric]
    by (rule ledger_trans [OF sub ledger_balance(1) [OF ledger_ok [OF sub]]]) (simp_all add: moved_def)
qed

text \<open>At depth 0 nothing that is written to the trace can fail.\<close>

lemma Transfer_traced:
  assumes "Depth evm = 0"
  shows "\<exists>l. Transfer a b v evm = Ok (evm\<lparr>logger := l, sdb := AddBalance b v (SubBalance a v (sdb evm))\<rparr>) \<and>
    CallStack l = CallStack (logger evm)"
  using assms by (cases "Prefetch evm") (auto simp: Transfer_def AddTransferLog_def evm_write_def Let_def intro: exI [of _ "logger evm"])

lemma enter_traced:
  assumes "Depth evm = 0" "CallStack (logger evm) \<noteq> []"
  shows "\<exists>i l c. enter_trace evm = Ok (i, evm\<lparr>logger := l, CallIndex := c\<rparr>)"
proof (cases "Prefetch evm")
  case True
  then have "enter_trace evm = Ok (TraceIndex (logger evm), evm\<lparr>logger := logger evm, CallIndex := CallIndex evm\<rparr>)"
    by (simp add: enter_trace_def)
  then show ?thesis by blast
next
  case False
  then show ?thesis using assms by (simp add: enter_trace_def Let_def gindex_def) blast
qed

lemma leave_traced:
  assumes "Depth evm = 0"
  shows "\<exists>l. leave_trace t tb i a b v gas input ret evm = Ok (evm\<lparr>logger := l\<rparr>)"
proof (cases "Prefetch evm")
  case True
  then have "leave_trace t tb i a b v gas input ret evm = Ok (evm\<lparr>logger := logger evm\<rparr>)" by (simp add: leave_trace_def)
  then show ?thesis by blast
next
  case False
  have r: "\<exists>l. Ok (evm\<lparr>logger := x\<rparr>) = Ok (evm\<lparr>logger := l\<rparr>)" for x by blast
  obtain l0 where "AddFuncLog (hasher (sdb evm)) i t (Depth evm) a b v gas input ret (logger evm) = Ok l0"
    using assms by (simp add: AddFuncLog_def Let_def)
  then show ?thesis using False r by (simp add: leave_trace_def)
qed

lemma plain_call:
  assumes "sdb_ok (sdb evm)" "fst (GetCode b (sdb evm)) = []" "precompile (chainRules evm) b = None" "Depth evm = 0"
    "CallStack (logger evm) \<noteq> []" "v \<le> fst (GetBalance a (sdb evm))"
  shows "\<exists>evm'. EVM_Call run (AccountRef a) b input gas v evm = Ok (([], gas, None), evm') \<and>
    ledger (sdb evm) (moved a b v) (\<lambda>_. 0) (sdb evm')"
proof -
  define s0 where "s0 = (if v \<noteq> 0 then snd (CanTransfer a v (sdb evm)) else sdb evm)"
  have l0: "ledger (sdb evm) (\<lambda>_. 0) (\<lambda>_. 0) s0"
    using ledger_read(4) [OF assms(1)] ledger_eqv [OF eqv_refl [OF sdb_ok_wf [OF assms(1)]] assms(1)] by (simp add: s0_def)
  define s1 where "s1 = snd (Snapshot_op s0)"
  have l1: "ledger (sdb evm) (\<lambda>_. 0) (\<lambda>_. 0) s1"
    unfolding s1_def by (rule ledger_trans [OF l0 ledger_read(5) [OF ledger_ok [OF l0]]]) simp_all
  have l2: "ledger (sdb evm) (\<lambda>_. 0) (\<lambda>_. 0) (snd (Exist b s1))"
    by (rule ledger_trans [OF l1 ledger_read(1) [OF ledger_ok [OF l1]]]) simp_all
  define s5 where "s5 = after_transfer a b v s1"
  have l5: "ledger (sdb evm) (moved a b v) (\<lambda>_. 0) s5"
    unfolding s5_def by (rule ledger_trans [OF l1 ledger_transfer [OF ledger_ok [OF l1]]]) simp_all
  have l: "ledger (sdb evm) (moved a b v) (\<lambda>_. 0) (snd (GetCode b s5))"
    by (rule ledger_trans [OF l5 ledger_read(2) [OF ledger_ok [OF l5]]]) simp_all
  have code: "fst (GetCode b s5) = []" using l5 assms(2) by (simp add: ledger_def)
  have can: "fst (CanTransfer a v (sdb evm))" using assms(6) by (simp add: CanTransfer_def split_beta)
  show ?thesis
  proof (cases "\<not> fst (Exist b s1) \<and> rIsEIP158 (chainRules evm) \<and> v = 0")
    case True
    have "EVM_Call run (AccountRef a) b input gas v evm = Ok (([], gas, None), evm\<lparr>sdb := snd (Exist b s1)\<rparr>)"
      using True by (auto simp: EVM_Call_def Let_def evm_read_eq assms(3,4) s0_def s1_def)
    moreover have "ledger (sdb evm) (moved a b v) (\<lambda>_. 0) (snd (Exist b s1))" using l2 True by (simp add: moved_def)
    ultimately show ?thesis by auto
  next
    case False
    define e0 where "e0 = (if \<not> fst (Exist b s1) then evm_write (CreateAccount b) (evm\<lparr>sdb := snd (Exist b s1)\<rparr>) else evm\<lparr>sdb := snd (Exist b s1)\<rparr>)"
    have e0: "Depth e0 = 0" "CallStack (logger e0) \<noteq> []" "AddBalance b v (SubBalance a v (sdb e0)) = s5"
      using assms(4,5) by (auto simp: e0_def evm_write_def s5_def after_transfer_def)
    obtain l1 where t: "Transfer a b v e0 = Ok (e0\<lparr>logger := l1, sdb := s5\<rparr>)" "CallStack l1 \<noteq> []"
      using Transfer_traced [OF e0(1), of a b v] e0(2,3) by auto
    define e1 where "e1 = e0\<lparr>logger := l1, sdb := snd (GetCode b s5)\<rparr>"
    have e1: "Depth e1 = 0" "CallStack (logger e1) \<noteq> []" using e0(1) t(2) by (simp_all add: e1_def)
    obtain i l2 c where t2: "enter_trace e1 = Ok (i, e1\<lparr>logger := l2, CallIndex := c\<rparr>)" using enter_traced [OF e1] by blast
    obtain l3 where t3: "leave_trace ''CALL'' False i a b v gas input [] (e1\<lparr>logger := l2, CallIndex := c\<rparr>) =
        Ok (e1\<lparr>logger := l2, CallIndex := c, logger := l3\<rparr>)"
      using leave_traced [of "e1\<lparr>logger := l2, CallIndex := c\<rparr>" "''CALL''" False i a b v gas input "[]"] e1(1) by auto
    have can2: "(if v \<noteq> 0 then (fst (CanTransfer a v (sdb evm)), evm\<lparr>sdb := snd (CanTransfer a v (sdb evm))\<rparr>) else (True, evm)) =
        (True, evm\<lparr>sdb := s0\<rparr>)"
      using can by (simp add: s0_def)
    have deep: "(Depth evm > CallCreateDepth) = False" using assms(4) by simp
    have stay: "(\<not> fst (Exist b s1) \<and> rIsEIP158 (chainRules evm) \<and> v = 0) = False" using False by simp
    have e1_sdb: "e0\<lparr>logger := l1, sdb := snd (GetCode b s5)\<rparr> = e1" "sdb (e0\<lparr>logger := l1, sdb := s5\<rparr>) = s5"
      by (simp_all add: e1_def)
    have "EVM_Call run (AccountRef a) b input gas v evm = Ok (([], gas, None), e1\<lparr>logger := l2, CallIndex := c, logger := l3\<rparr>)"
      by (simp only: EVM_Call_def Let_def ContractRef_Address_def ContractRef.case can2 prod.case evm_read_eq sdb_fields assms(3)
          deep stay simp_thms if_False if_True s1_def [symmetric] e0_def [symmetric] t(1) rbind.simps option.case e1_sdb code t2 t3
          finish_call_def)
    then show ?thesis using l by (simp add: e1_def)
  qed
qed

section \<open>A plain transfer\<close>

lemma ledger_frame:
  assumes "sdb_ok s" "same_env s' s" "stateObjects s' = stateObjects s" "snapDestructs s' = snapDestructs s" "refund s' = refund s" "sdb_ok s'"
  shows "ledger s (\<lambda>_. 0) (\<lambda>_. 0) s'"
  using live_view_frame [OF assms(2-4)] assms(1,5,6) by (simp add: ledger_def answers [OF sdb_ok_wf])

lemma ledger_AddAddress:
  assumes "sdb_ok s"
  shows "ledger s (\<lambda>_. 0) (\<lambda>_. 0) (AddAddressToAccessList a s)"
proof (rule ledger_frame [OF assms _ _ _ _ evolves_ok(2) [OF AddAddress_evolves [OF assms]]])
  show "same_env (AddAddressToAccessList a s) s"
    using AddAddress_evolves [OF assms, of a] by (simp add: evolves_def same_env_sym)
qed (simp_all add: AddAddressToAccessList_def Let_def split: prod.split)

lemma ledger_prepare:
  assumes "sdb_ok s"
  shows "\<exists>t. PrepareAccessList a d ps [] s = Ok t \<and> ledger s (\<lambda>_. 0) (\<lambda>_. 0) t"
proof -
  let ?s = "s\<lparr>accList := newAccessList\<rparr>"
  have ok: "sdb_ok ?s"
    using assms state_wf_frame [of ?s s] by (simp add: sdb_ok_def revs_wf_def same_env_def)
  have l: "ledger s (\<lambda>_. 0) (\<lambda>_. 0) ?s" by (rule ledger_frame [OF assms _ _ _ _ ok]) (simp_all add: same_env_def)
  have add: "ledger s (\<lambda>_. 0) (\<lambda>_. 0) (AddAddressToAccessList a t)" if "ledger s (\<lambda>_. 0) (\<lambda>_. 0) t" for a t
    by (rule ledger_trans [OF that ledger_AddAddress [OF ledger_ok [OF that]]]) simp_all
  have "ledger s (\<lambda>_. 0) (\<lambda>_. 0) (fold AddAddressToAccessList ps t)" if "ledger s (\<lambda>_. 0) (\<lambda>_. 0) t" for t
    using that by (induction ps arbitrary: t) (simp_all add: add)
  then show ?thesis using l by (auto simp: PrepareAccessList_def Let_def intro!: add split: option.split)
qed

definition cost :: "address \<Rightarrow> int \<Rightarrow> address \<Rightarrow> int" where
  "cost a v = (\<lambda>x. if x = a then - v else 0)"

text \<open>Up to the execution: the sender has bought the gas, and the access list is prepared.\<close>

lemma transfer_prepared:
  assumes "sdb_ok (sdb evm)" "preCheck (NewStateTransition evm m g) = Ok (None, st1)"
    "IntrinsicGas (mData m) (mAccessList m) (mTo m = None) (IsHomestead (chainConfig evm) (BlockNumber (Context evm)))
       (IsIstanbul (chainConfig evm) (BlockNumber (Context evm))) = Inr i"
    "i \<le> mGasLimit m" "mAccessList m = None"
    "mAmount m \<le> fst (GetBalance (mFrom m) (sdb evm)) - uint (mGasLimit m) * mGasPrice m"
  shows "\<exists>s. ledger (sdb evm) (cost (mFrom m) (uint (mGasLimit m) * mGasPrice m)) (\<lambda>_. 0) s \<and> mGasLimit m \<le> g \<and>
    (let st3 = with_db ((NewStateTransition evm m g)\<lparr>gp := g - mGasLimit m, st_gas := mGasLimit m - i, initialGas := mGasLimit m\<rparr>) s
     in ApplyMessage n evm m g =
       rbind (execute_msg n st3) (\<lambda>((ret, vmerr), st).
       rbind (refundGas (if \<not> rIsLondon (st_rules st1) then RefundQuotient else RefundQuotientEIP3529) st) (\<lambda>st.
       rbind (pay_fee st) (\<lambda>st.
         Ok (Inr \<lparr>UsedGas = gasUsed st, Err = vmerr, ReturnData = ret\<rparr>, st)))))"
proof -
  let ?st = "NewStateTransition evm m g" and ?cost = "cost (mFrom m) (uint (mGasLimit m) * mGasPrice m)"
  obtain s0 where s0: "looked (sdb evm) s0" "mGasLimit m \<le> g"
    "st1 = with_db (?st\<lparr>gp := g - mGasLimit m, st_gas := mGasLimit m, initialGas := mGasLimit m\<rparr>)
       (SubBalance (mFrom m) (uint (mGasLimit m) * mGasPrice m) s0)"
    using preCheck_result [OF assms(2)] by (auto simp: NewStateTransition_def not_less)
  have "sdb_ok s0" "eqv s0 (sdb evm)" using s0(1) assms(1) db_step_ok by (auto simp: looked_def)
  then have l0: "ledger (sdb evm) (\<lambda>_. 0) (\<lambda>_. 0) s0" by (intro ledger_eqv)
  let ?s1 = "SubBalance (mFrom m) (uint (mGasLimit m) * mGasPrice m) s0"
  have l1: "ledger (sdb evm) ?cost (\<lambda>_. 0) ?s1"
    by (rule ledger_trans [OF l0 ledger_balance(2) [OF ledger_ok [OF l0]]]) (simp_all add: cost_def)
  define s2 where "s2 = (if mAmount m > 0 then snd (CanTransfer (mFrom m) (mAmount m) ?s1) else ?s1)"
  have l2: "ledger (sdb evm) ?cost (\<lambda>_. 0) s2"
    using l1 ledger_trans [OF l1 ledger_read(4) [OF ledger_ok [OF l1]]] by (simp add: s2_def)
  have "fst (GetBalance (mFrom m) ?s1) = fst (GetBalance (mFrom m) (sdb evm)) - uint (mGasLimit m) * mGasPrice m"
    using l1 by (simp add: ledger_def cost_def)
  then have can: "fst (CanTransfer (mFrom m) (mAmount m) ?s1)" using assms(6) by (simp add: CanTransfer_def split_beta)
  obtain s3 where s3: "PrepareAccessList (mFrom m) (mTo m) (ActivePrecompiles (st_rules st1)) [] s2 = Ok s3" "ledger s2 (\<lambda>_. 0) (\<lambda>_. 0) s3"
    using ledger_prepare [OF ledger_ok [OF l2]] by blast
  define s where "s = (if rIsBerlin (st_rules st1) then s3 else s2)"
  have l: "ledger (sdb evm) ?cost (\<lambda>_. 0) s"
    using l2 ledger_trans [OF l2 s3(2)] by (simp add: s_def)
  have f: "st_data st1 = mData m" "msg st1 = m" "st_gas st1 = mGasLimit m" "db_of st1 = ?s1"
    "rIsHomestead (st_rules st1) = IsHomestead (chainConfig evm) (BlockNumber (Context evm))"
    "rIsIstanbul (st_rules st1) = IsIstanbul (chainConfig evm) (BlockNumber (Context evm))"
    by (simp_all add: s0(3) NewStateTransition_def st_rules_def ChainRules_def Let_def)
  let ?st2 = "with_db (st1\<lparr>st_gas := mGasLimit m - i\<rparr>) s2"
  have r: "(if 0 < mAmount m then st_read (CanTransfer (mFrom m) (mAmount m)) (st1\<lparr>st_gas := mGasLimit m - i\<rparr>)
      else (True, st1\<lparr>st_gas := mGasLimit m - i\<rparr>)) = (True, ?st2)"
    using can f(4) by (simp add: s2_def st_read_eq)
  have p: "(if rIsBerlin (st_rules st1) then rbind (PrepareAccessList (mFrom m) (mTo m) (ActivePrecompiles (st_rules st1)) [] (db_of ?st2))
         (\<lambda>s. Ok (?st2\<lparr>evm_of := (evm_of ?st2)\<lparr>sdb := s\<rparr>\<rparr>)) else Ok ?st2) =
      Ok (with_db (?st\<lparr>gp := g - mGasLimit m, st_gas := mGasLimit m - i, initialGas := mGasLimit m\<rparr>) s)"
    using s3(1) by (simp add: s_def) (simp add: s0(3) with_db_def)
  have "\<not> mGasLimit m < i" using assms(4) by (simp add: not_less)
  then have "ApplyMessage n evm m g =
      rbind (Ok (with_db (?st\<lparr>gp := g - mGasLimit m, st_gas := mGasLimit m - i, initialGas := mGasLimit m\<rparr>) s)) (\<lambda>st3.
       rbind (execute_msg n st3) (\<lambda>((ret, vmerr), st).
       rbind (refundGas (if \<not> rIsLondon (st_rules st1) then RefundQuotient else RefundQuotientEIP3529) st) (\<lambda>st.
       rbind (pay_fee st) (\<lambda>st.
         Ok (Inr \<lparr>UsedGas = gasUsed st, Err = vmerr, ReturnData = ret\<rparr>, st)))))"
    unfolding ApplyMessage_def TransitionDb_def assms(2) rbind.simps(1) prod.case option.case Let_def f assms(5) assms(3) [unfolded assms(5)] sum.case r p [symmetric]
    by simp
  then show ?thesis using l s0(2) by (auto simp: Let_def)
qed

lemma transfer_executed:
  assumes "st = with_db st0 s" "mTo (msg st) = Some b" "sdb_ok s" "fst (GetCode b s) = []"
    "precompile (chainRules (evm_of st0)) b = None" "Depth (evm_of st0) = 0" "CallStack (logger (evm_of st0)) \<noteq> []"
    "st_value st \<le> fst (GetBalance (mFrom (msg st)) s)" "wired (evm_of st0)" "\<not> readOnly (evm_of st0)"
  shows "\<exists>evm'. execute_msg n st = Ok (([], None), st\<lparr>evm_of := evm'\<rparr>) \<and> same_vm (evm_of st0) evm' \<and>
    ledger s (moved (mFrom (msg st)) b (st_value st)) (\<lambda>x. if x = mFrom (msg st) then 1 else 0) (sdb evm')"
proof -
  let ?a = "mFrom (msg st)"
  define t where "t = SetNonce ?a (fst (GetNonce ?a s) + 1) (snd (GetNonce ?a s))"
  have l0: "ledger s (\<lambda>_. 0) (\<lambda>_. 0) (snd (GetNonce ?a s))" by (rule ledger_read(3) [OF assms(3)])
  then have "fst (GetNonce ?a (snd (GetNonce ?a s))) = fst (GetNonce ?a s)" by (simp add: ledger_def)
  then have lt: "ledger s (\<lambda>_. 0) (\<lambda>x. if x = ?a then 1 else 0) t"
    unfolding t_def by (intro ledger_trans [OF l0 ledger_balance(3) [OF ledger_ok [OF l0]]]) simp_all
  let ?e = "(evm_of st0)\<lparr>sdb := t\<rparr>"
  have "\<exists>evm'. EVM_Call (Run n) (AccountRef ?a) b (st_data st) (st_gas st) (st_value st) ?e = Ok (([], st_gas st, None), evm') \<and>
      ledger t (moved ?a b (st_value st)) (\<lambda>_. 0) (sdb evm')"
    using plain_call [of ?e b "st_value st" ?a "Run n" "st_data st" "st_gas st"] ledger_ok [OF lt] lt assms(4-8)
    by (simp add: ledger_def)
  then obtain evm' where c: "EVM_Call (Run n) (AccountRef ?a) b (st_data st) (st_gas st) (st_value st) ?e = Ok (([], st_gas st, None), evm')"
    and l: "ledger t (moved ?a b (st_value st)) (\<lambda>_. 0) (sdb evm')" by blast
  have "wired ?e" "readOnly ?e \<longrightarrow> st_value st = 0" using assms(9,10) by simp_all
  from postD [OF evm_run.EVM_Call_called [OF this] c] have "same_vm (evm_of st0) evm'"
    by (simp add: called_def moves_def same_vm_def)
  moreover have "ledger s (moved ?a b (st_value st)) (\<lambda>x. if x = ?a then 1 else 0) (sdb evm')"
    by (rule ledger_trans [OF lt l]) simp_all
  moreover have "execute_msg n st = Ok (([], None), st\<lparr>evm_of := evm'\<rparr>)"
    using c assms(2) by (simp add: execute_msg_def Let_def st_read_eq st_write_eq st_to_def t_def assms(1))
  ultimately show ?thesis by blast
qed

lemma effectiveTip_same:
  assumes "same_vm (evm_of st) (evm_of st')" "gasPrice st' = gasPrice st" "gasFeeCap st' = gasFeeCap st" "gasTipCap st' = gasTipCap st"
  shows "effectiveTip st' = effectiveTip st"
  using assms by (simp add: effectiveTip_def st_rules_def Let_def same_vm_def)

text \<open>
  C2: A plain transfer. When the checks of a message pass, its recipient is an account without code, and the sender can pay the
  value after buying the gas, the message goes through whatever the fuel. It uses exactly its intrinsic gas; the sender pays
  that gas at the gas price and the value, the recipient gets the value, the coinbase the tip for the gas used, and no other
  balance moves; the nonce of the sender grows by one, and no other nonce and no code changes.
\<close>

theorem ApplyMessage_transfer:
  assumes "wired evm" "\<not> readOnly evm" "sdb_ok (sdb evm)" "Depth evm = 0" "CallStack (logger evm) \<noteq> []" "GetRefund (sdb evm) = 0"
    "\<not> NoBaseFee (evmConfig evm)" "mTo m = Some b" "mAccessList m = None"
    "precompile (chainRules evm) b = None" "fst (GetCode b (sdb evm)) = []"
    "preCheck (NewStateTransition evm m g) = Ok (None, st1)" "effectiveTip (NewStateTransition evm m g) = Ok tip"
    "IntrinsicGas (mData m) (mAccessList m) (mTo m = None) (IsHomestead (chainConfig evm) (BlockNumber (Context evm)))
       (IsIstanbul (chainConfig evm) (BlockNumber (Context evm))) = Inr i" "i \<le> mGasLimit m"
    "mAmount m \<le> fst (GetBalance (mFrom m) (sdb evm)) - uint (mGasLimit m) * mGasPrice m"
  shows "\<exists>st. ApplyMessage n evm m g = Ok (Inr \<lparr>UsedGas = i, Err = None, ReturnData = []\<rparr>, st) \<and>
    (\<forall>a. fst (GetBalance a (sdb (evm_of st))) = fst (GetBalance a (sdb evm))
         - (if a = mFrom m then uint i * mGasPrice m + mAmount m else 0)
         + (if a = b then mAmount m else 0) + (if a = Coinbase (Context evm) then uint i * tip else 0)) \<and>
    (\<forall>a. fst (GetNonce a (sdb (evm_of st))) = fst (GetNonce a (sdb evm)) + (if a = mFrom m then 1 else 0)) \<and>
    (\<forall>a. fst (GetCode a (sdb (evm_of st))) = fst (GetCode a (sdb evm)))"
proof -
  let ?st = "NewStateTransition evm m g" and ?a = "mFrom m" and ?p = "uint (mGasLimit m) * mGasPrice m" and ?left = "mGasLimit m - i"
  let ?q = "if \<not> rIsLondon (st_rules st1) then RefundQuotient else RefundQuotientEIP3529"
  obtain s where s: "ledger (sdb evm) (cost ?a ?p) (\<lambda>_. 0) s" "mGasLimit m \<le> g"
    "ApplyMessage n evm m g =
       rbind (execute_msg n (with_db (?st\<lparr>gp := g - mGasLimit m, st_gas := ?left, initialGas := mGasLimit m\<rparr>) s)) (\<lambda>((ret, vmerr), st).
       rbind (refundGas ?q st) (\<lambda>st. rbind (pay_fee st) (\<lambda>st. Ok (Inr \<lparr>UsedGas = gasUsed st, Err = vmerr, ReturnData = ret\<rparr>, st))))"
    using transfer_prepared [OF assms(3,12,14,15,9,16), of n] by (auto simp: Let_def)
  define st3 where "st3 = with_db (?st\<lparr>gp := g - mGasLimit m, st_gas := ?left, initialGas := mGasLimit m\<rparr>) s"
  have f3: "msg st3 = m" "st_value st3 = mAmount m" "st_gas st3 = ?left" "gp st3 = g - mGasLimit m" "initialGas st3 = mGasLimit m"
    "gasPrice st3 = mGasPrice m" "gasFeeCap st3 = mGasFeeCap m" "gasTipCap st3 = mGasTipCap m" "evm_of st3 = evm\<lparr>sdb := s\<rparr>"
    by (simp_all add: st3_def NewStateTransition_def)
  have "fst (GetCode b s) = []" "mAmount m \<le> fst (GetBalance ?a s)" using s(1) assms(11,16) by (simp_all add: ledger_def cost_def)
  then obtain evm' where x: "execute_msg n st3 = Ok (([], None), st3\<lparr>evm_of := evm'\<rparr>)" "same_vm evm evm'"
    "ledger s (moved ?a b (mAmount m)) (\<lambda>x. if x = ?a then 1 else 0) (sdb evm')"
    using transfer_executed [OF st3_def, of b n] f3 assms(1,2,4,5,8,10) ledger_ok [OF s(1)] by (auto simp: NewStateTransition_def)
  define st4 where "st4 = st3\<lparr>evm_of := evm'\<rparr>"
  have l4: "ledger (sdb evm) (\<lambda>x. cost ?a ?p x + moved ?a b (mAmount m) x) (\<lambda>x. if x = ?a then 1 else 0) (db_of st4)"
    unfolding st4_def by simp (rule ledger_trans [OF s(1) x(3)], simp_all)
  have left: "?left \<le> mGasLimit m" "uint ?left = uint (mGasLimit m) - uint i" "mGasLimit m - ?left = i"
    by (rule word_sub_le [OF assms(15)], rule uint_minus_simple_alt [THEN iffD1, OF assms(15)], simp)
  obtain st5 where r: "refundGas ?q st4 = Ok st5" using pool_takes_back [of st4 g ?q] f3 s(2) left(1) by (auto simp: st4_def)
  have "GetRefund (db_of st4) = 0" using l4 assms(6) by (simp add: ledger_def GetRefund_def)
  then have st5: "st5 = with_db (st4\<lparr>gp := g - mGasLimit m + ?left\<rparr>) (AddBalance ?a (uint ?left * mGasPrice m) (db_of st4))"
    using refundGas_result [OF r] f3 by (auto simp: st4_def with_db_def)
  have tip: "effectiveTip st5 = Ok tip" "evmConfig (evm_of st5) = evmConfig evm" "Coinbase (Context (evm_of st5)) = Coinbase (Context evm)"
    "gasUsed st5 = i"
  proof -
    have "same_vm (evm_of ?st) (evm_of st5)" using x(2) by (simp add: st5 st4_def start_st same_vm_def)
    then show "effectiveTip st5 = Ok tip" using assms(13) effectiveTip_same [of ?st st5] f3 by (simp add: st5 st4_def NewStateTransition_def)
  qed (use x(2) f3 left(3) in \<open>simp_all add: st5 st4_def same_vm_def gasUsed_def\<close>)
  let ?s6 = "AddBalance (Coinbase (Context evm)) (uint i * tip) (db_of st5)"
  have pay: "pay_fee st5 = Ok (with_db st5 ?s6)" using tip assms(7) by (simp add: pay_fee_def st_write_eq)
  have d5: "db_of st5 = AddBalance ?a (uint ?left * mGasPrice m) (db_of st4)" by (simp add: st5)
  have l5: "ledger (sdb evm) (\<lambda>x. cost ?a ?p x + moved ?a b (mAmount m) x + (if x = ?a then uint ?left * mGasPrice m else 0))
      (\<lambda>x. if x = ?a then 1 else 0) (db_of st5)"
    unfolding d5 by (rule ledger_trans [OF l4 ledger_balance(1) [OF ledger_ok [OF l4]]]) simp_all
  have l6: "ledger (sdb evm) (\<lambda>x. cost ?a ?p x + moved ?a b (mAmount m) x + (if x = ?a then uint ?left * mGasPrice m else 0)
      + (if x = Coinbase (Context evm) then uint i * tip else 0)) (\<lambda>x. if x = ?a then 1 else 0) ?s6"
    by (rule ledger_trans [OF l5 ledger_balance(1) [OF ledger_ok [OF l5]]]) simp_all
  have "ApplyMessage n evm m g = Ok (Inr \<lparr>UsedGas = i, Err = None, ReturnData = []\<rparr>, with_db st5 ?s6)"
    using s(3) x(1) r pay tip(4) by (simp add: st3_def [symmetric] st4_def [symmetric])
  moreover have "fst (GetBalance x ?s6) = fst (GetBalance x (sdb evm)) - (if x = ?a then uint i * mGasPrice m + mAmount m else 0)
         + (if x = b then mAmount m else 0) + (if x = Coinbase (Context evm) then uint i * tip else 0)" for x
  proof -
    have "cost ?a ?p x + moved ?a b (mAmount m) x + (if x = ?a then uint ?left * mGasPrice m else 0) =
        (if x = b then mAmount m else 0) - (if x = ?a then uint i * mGasPrice m + mAmount m else 0)"
      unfolding cost_def moved_def left(2) by (simp add: left_diff_distrib)
    then show ?thesis using l6 by (simp add: ledger_def)
  qed
  moreover have "fst (GetNonce x ?s6) = fst (GetNonce x (sdb evm)) + (if x = ?a then 1 else 0)"
    "fst (GetCode x ?s6) = fst (GetCode x (sdb evm))" for x
    using l6 by (simp_all add: ledger_def)
  ultimately show ?thesis by (intro exI [of _ "with_db st5 ?s6"]) simp
qed

section \<open>A transfer before the first fork\<close>

lemma preCheck_passes:
  assumes "sdb_ok (sdb evm)" "fst (GetNonce (mFrom m) (sdb evm)) = mNonce m" "\<not> mNonce m + 1 < mNonce m"
    "fst (GetCodeHash (mFrom m) (sdb evm)) = emptyCodeHash (sdb evm)" "\<not> IsLondon (chainConfig evm) (BlockNumber (Context evm))"
    "mGasFeeCap m = Some cap" "uint (mGasLimit m) * cap + mAmount m \<le> fst (GetBalance (mFrom m) (sdb evm))" "mGasLimit m \<le> g"
  shows "\<exists>st1. preCheck (NewStateTransition evm m g) = Ok (None, st1)"
proof -
  let ?s1 = "snd (GetNonce (mFrom m) (sdb evm))"
  let ?s2 = "snd (GetCodeHash (mFrom m) ?s1)"
  have l: "looked (sdb evm) ?s1" "looked (sdb evm) ?s2" by simp_all
  then have e: "eqv ?s1 (sdb evm)" "eqv ?s2 (sdb evm)" using assms(1) by (simp_all add: looked_def)
  have h: "fst (GetCodeHash (mFrom m) ?s1) = emptyCodeHash (sdb evm)" "emptyCodeHash ?s2 = emptyCodeHash (sdb evm)"
    "fst (GetBalance (mFrom m) ?s1) = fst (GetBalance (mFrom m) (sdb evm))" "fst (GetBalance (mFrom m) ?s2) = fst (GetBalance (mFrom m) (sdb evm))"
    using eqv_same_answers [OF e(1)] eqv_same_answers [OF e(2)] e assms(4)
    by (simp_all add: same_answers_def emptyCodeHash_def eqv_def same_env_def)
  have c: "\<exists>s. check_sender (NewStateTransition evm m g) = (None, with_db (NewStateTransition evm m g) s) \<and>
      fst (GetBalance (mFrom m) s) = fst (GetBalance (mFrom m) (sdb evm))"
    using assms(2,3) h
    by (cases "mIsFake m")
      (auto simp: check_sender_def Let_def st_read_eq NewStateTransition_def with_db_def intro: exI [of _ "sdb evm"] exI [of _ ?s2])
  then show ?thesis using assms(5-8)
    by (auto simp: preCheck_def check_fees_def buyGas_def Let_def st_read_eq st_write_eq GasPool_SubGas_def NewStateTransition_def not_less with_db_def)
qed

definition rich_evm :: EVM where
  "rich_evm = frontier_evm\<lparr>sdb := AddBalance 1 100000 (empty_db sample_hash)\<rparr>"

definition transfer_message :: Message where
  "transfer_message = \<lparr>mTo = Some 9, mFrom = 1, mNonce = 0, mAmount = 1000, mGasLimit = 30000, mGasPrice = 2,
     mGasFeeCap = Some 2, mGasTipCap = Some 2, mData = [], mAccessList = None, mIsFake = False\<rparr>"

lemma rich_state:
  "sdb_ok (sdb rich_evm)" "fst (GetNonce a (sdb rich_evm)) = 0" "fst (GetCodeHash 1 (sdb rich_evm)) = emptyCodeHash (sdb rich_evm)"
  "fst (GetBalance a (sdb rich_evm)) = (if a = 1 then 100000 else 0)" "fst (GetCode a (sdb rich_evm)) = []" "GetRefund (sdb rich_evm) = 0"
proof -
  let ?e = "empty_db sample_hash" and ?s = "sdb rich_evm"
  have s: "?s = AddBalance 1 100000 ?e" by (simp add: rich_evm_def)
  have l: "ledger ?e (\<lambda>b. if b = 1 then 100000 else 0) (\<lambda>_. 0) ?s" unfolding s by (rule ledger_balance(1) [OF sample_db_ok])
  show ok: "sdb_ok ?s" by (rule ledger_ok [OF l])
  have none: "live_view ?e a = None" for a
    using answers(1) [OF sdb_ok_wf [OF sample_db_ok]]
    by (simp add: Exist_def getStateObject_def getDeletedStateObject_def load_account_def empty_db_def Let_def)
  have e: "fst (GetNonce a ?e) = 0" "fst (GetBalance a ?e) = 0" "fst (GetCode a ?e) = []" for a
    by (simp_all add: answers [OF sdb_ok_wf [OF sample_db_ok]] none)
  show "fst (GetNonce a ?s) = 0" "fst (GetBalance a ?s) = (if a = 1 then 100000 else 0)" "fst (GetCode a ?s) = []" "GetRefund ?s = 0"
    using l e by (simp_all add: ledger_def GetRefund_def empty_db_def)
  obtain v where v: "blank ?e v" "live_view ?s 1 = Some (v\<lparr>v_balance := v_balance v + 100000\<rparr>)"
    using setters_written(1) [OF sample_db_ok, of 1 100000] none by (auto simp: written_def s)
  have "emptyCodeHash ?s = emptyCodeHash ?e"
    using AddBalance_evolves [OF sample_db_ok, of 1 100000] by (simp add: s evolves_def emptyCodeHash_def same_env_def)
  then show "fst (GetCodeHash 1 ?s) = emptyCodeHash ?s"
    using v by (simp add: answers [OF sdb_ok_wf [OF ok]] blank_def BytesToHash_def)
qed

theorem ApplyMessage_transfer_witness:
  "\<exists>st. ApplyMessage 0 rich_evm transfer_message 50000 = Ok (Inr \<lparr>UsedGas = 21000, Err = None, ReturnData = []\<rparr>, st) \<and>
     fst (GetBalance 1 (sdb (evm_of st))) = 57000 \<and> fst (GetBalance 9 (sdb (evm_of st))) = 1000 \<and>
     fst (GetBalance 0 (sdb (evm_of st))) = 42000 \<and> fst (GetNonce 1 (sdb (evm_of st))) = 1"
proof -
  have f: "wired rich_evm" "\<not> readOnly rich_evm" "Depth rich_evm = 0" "\<not> NoBaseFee (evmConfig rich_evm)" "chainConfig rich_evm = frontier_config"
    "Context rich_evm = sample_block" "precompile (chainRules rich_evm) 9 = None" "CallStack (logger rich_evm) \<noteq> []"
    using frontier_wired by (simp_all add: rich_evm_def frontier_fields wired_def)
      (simp_all add: frontier_evm_def sample_vm_config_def precompile_def PrecompiledContractsHomestead_def ChainRules_def frontier_config_def
        IsBerlin_def IsIstanbul_def IsByzantium_def isForked_def InitTrace_def InitLogger_def)
  have m: "mTo transfer_message = Some 9" "mFrom transfer_message = 1" "mAmount transfer_message = 1000" "mGasLimit transfer_message = 30000"
    "mGasPrice transfer_message = 2" "mAccessList transfer_message = None" "mNonce transfer_message = 0" "mGasFeeCap transfer_message = Some 2"
    "mData transfer_message = []"
    by (simp_all add: transfer_message_def)
  obtain st1 where p: "preCheck (NewStateTransition rich_evm transfer_message 50000) = Ok (None, st1)"
    using preCheck_passes [of rich_evm transfer_message 2 50000] by (auto simp: rich_state m f frontier_forks)
  have t: "effectiveTip (NewStateTransition rich_evm transfer_message 50000) = Ok 2"
    by (simp add: effectiveTip_def st_rules_def Let_def NewStateTransition_def f ChainRules_def frontier_forks m)
  have i: "IntrinsicGas (mData transfer_message) (mAccessList transfer_message) (mTo transfer_message = None)
      (IsHomestead (chainConfig rich_evm) (BlockNumber (Context rich_evm))) (IsIstanbul (chainConfig rich_evm) (BlockNumber (Context rich_evm))) = Inr 21000"
    by (simp add: m IntrinsicGas_def)
  obtain st where st: "ApplyMessage 0 rich_evm transfer_message 50000 = Ok (Inr \<lparr>UsedGas = 21000, Err = None, ReturnData = []\<rparr>, st)"
    "\<forall>a. fst (GetBalance a (sdb (evm_of st))) = fst (GetBalance a (sdb rich_evm))
         - (if a = 1 then uint (21000 :: u64) * 2 + 1000 else 0) + (if a = 9 then 1000 else 0) +
         (if a = Coinbase (Context rich_evm) then uint (21000 :: u64) * 2 else 0)"
    "\<forall>a. fst (GetNonce a (sdb (evm_of st))) = fst (GetNonce a (sdb rich_evm)) + (if a = 1 then 1 else 0)"
    using ApplyMessage_transfer [OF f(1,2) rich_state(1) f(3,8) rich_state(6) f(4) m(1,6) f(7) rich_state(5) p t i, of 0]
    by (auto simp: m rich_state)
  then show ?thesis by (intro exI [of _ st]) (simp add: rich_state f sample_block_def)
qed

end
