(* ===== verification/Receipts.thy ===== *)
theory Receipts
  imports State Transactions
begin

text \<open>
  Bloom filters and receipts (core/types/bloom9.go, receipt.go): the filter of a list of logs, the
  consensus encoding of receipts, and the fields that are derived from the block. A \<^verbatim>\<open>Bloom\<close> is a list
  of 256 bytes; the hash function is a parameter.
\<close>

section \<open>Bloom filters (core/types/bloom9.go)\<close>

type_synonym Bloom = bytes

definition BloomByteLength :: nat where [simp]: "BloomByteLength = 256"

definition empty_bloom :: Bloom where
  "empty_bloom = replicate BloomByteLength 0"

definition Bloom_SetBytes :: "bytes \<Rightarrow> Bloom \<Rightarrow> Bloom res" where
  "Bloom_SetBytes d b =
     (if length b < length d then Panic else Ok (copy_at b (BloomByteLength - length d) d))"

definition BytesToBloom :: "bytes \<Rightarrow> Bloom res" where
  "BytesToBloom b = Bloom_SetBytes b empty_bloom"

text \<open>The byte and the bit that two bytes of the hash stand for.\<close>

definition bloom_value :: "byte \<Rightarrow> byte \<Rightarrow> nat \<times> byte" where
  "bloom_value hi lo =
     (BloomByteLength - unat (drop_bit 3 ((be_word [hi, lo] :: 16 word) AND 0x7ff)) - 1, push_bit (unat (lo AND 7)) 1)"

definition bloomValues :: "(bytes \<Rightarrow> hash) \<Rightarrow> bytes \<Rightarrow> (nat \<times> byte) \<times> (nat \<times> byte) \<times> (nat \<times> byte)" where
  "bloomValues k data =
     (let h = hash_bytes (k data)
      in (bloom_value (h ! 0) (h ! 1), bloom_value (h ! 2) (h ! 3), bloom_value (h ! 4) (h ! 5)))"

definition or_byte :: "nat \<times> byte \<Rightarrow> Bloom \<Rightarrow> Bloom" where
  "or_byte iv b = b[fst iv := (b ! fst iv) OR snd iv]"

definition Bloom_add :: "(bytes \<Rightarrow> hash) \<Rightarrow> bytes \<Rightarrow> Bloom \<Rightarrow> Bloom" where
  "Bloom_add k d b = (case bloomValues k d of (x1, x2, x3) \<Rightarrow> or_byte x3 (or_byte x2 (or_byte x1 b)))"

definition has_bits :: "Bloom \<Rightarrow> nat \<times> byte \<Rightarrow> bool" where
  "has_bits b iv \<longleftrightarrow> snd iv = snd iv AND (b ! fst iv)"

definition Bloom_Test :: "(bytes \<Rightarrow> hash) \<Rightarrow> Bloom \<Rightarrow> bytes \<Rightarrow> bool" where
  "Bloom_Test k b topic = (case bloomValues k topic of (x1, x2, x3) \<Rightarrow> has_bits b x1 \<and> has_bits b x2 \<and> has_bits b x3)"

definition BloomLookup :: "(bytes \<Rightarrow> hash) \<Rightarrow> Bloom \<Rightarrow> bytes \<Rightarrow> bool" where
  "BloomLookup k bin topic = Bloom_Test k bin topic"

definition add_log :: "(bytes \<Rightarrow> hash) \<Rightarrow> Log \<Rightarrow> Bloom \<Rightarrow> Bloom" where
  "add_log k l b = fold (\<lambda>t. Bloom_add k (hash_bytes t)) (lTopics l) (Bloom_add k (addr_bytes (lAddress l)) b)"

definition LogsBloom :: "(bytes \<Rightarrow> hash) \<Rightarrow> Log list \<Rightarrow> Bloom" where
  "LogsBloom k ls = fold (add_log k) ls empty_bloom"

definition Bloom_Big :: "Bloom \<Rightarrow> int" where
  "Bloom_Big b = int (big_of b)"

section \<open>Receipts (core/types/receipt.go)\<close>

definition ReceiptStatusFailed :: u64 where [simp]: "ReceiptStatusFailed = 0"
definition ReceiptStatusSuccessful :: u64 where [simp]: "ReceiptStatusSuccessful = 1"

record Receipt =
  rType :: byte
  PostState :: bytes
  Status :: u64
  CumulativeGasUsed :: u64
  rBloom :: Bloom
  rLogs :: "Log list"
  rTxHash :: hash
  ContractAddress :: address
  GasUsed :: u64
  rBlockHash :: hash
  rBlockNumber :: "int option"
  TransactionIndex :: nat

definition zero_receipt :: Receipt where
  "zero_receipt = \<lparr>rType = 0, PostState = [], Status = 0, CumulativeGasUsed = 0, rBloom = empty_bloom, rLogs = [],
     rTxHash = 0, ContractAddress = 0, GasUsed = 0, rBlockHash = 0, rBlockNumber = None, TransactionIndex = 0\<rparr>"

definition CreateBloom :: "(bytes \<Rightarrow> hash) \<Rightarrow> Receipt list \<Rightarrow> Bloom" where
  "CreateBloom k rs = fold (\<lambda>r. fold (add_log k) (rLogs r)) rs empty_bloom"

definition NewReceipt :: "bytes \<Rightarrow> bool \<Rightarrow> u64 \<Rightarrow> Receipt" where
  "NewReceipt root failed cumulativeGasUsed =
     zero_receipt\<lparr>rType := LegacyTxType, PostState := root, CumulativeGasUsed := cumulativeGasUsed,
       Status := (if failed then ReceiptStatusFailed else ReceiptStatusSuccessful)\<rparr>"

definition receiptStatusFailedRLP :: bytes where
  "receiptStatusFailedRLP = []"

definition receiptStatusSuccessfulRLP :: bytes where
  "receiptStatusSuccessfulRLP = [0x01]"

definition statusEncoding :: "Receipt \<Rightarrow> bytes" where
  "statusEncoding r =
     (if length (PostState r) = 0 then
        (if Status r = ReceiptStatusFailed then receiptStatusFailedRLP else receiptStatusSuccessfulRLP)
      else PostState r)"

text \<open>\<open>None\<close> is the error of an invalid receipt status.\<close>

definition setStatus :: "bytes \<Rightarrow> Receipt \<Rightarrow> Receipt option" where
  "setStatus b r =
     (if b = receiptStatusSuccessfulRLP then Some (r\<lparr>Status := ReceiptStatusSuccessful\<rparr>)
      else if b = receiptStatusFailedRLP then Some (r\<lparr>Status := ReceiptStatusFailed\<rparr>)
      else if length b = 32 then Some (r\<lparr>PostState := b\<rparr>)
      else None)"

text \<open>A log is encoded with its consensus fields only (\<^verbatim>\<open>rlpLog\<close>).\<close>

definition log_item :: "Log \<Rightarrow> item" where
  "log_item l = RList [RBytes (addr_bytes (lAddress l)), RList (map (\<lambda>t. RBytes (hash_bytes t)) (lTopics l)), RBytes (Log.lData l)]"

definition receipt_item :: "Receipt \<Rightarrow> item" where
  "receipt_item r =
     RList [RBytes (statusEncoding r), RUint (CumulativeGasUsed r), RBytes (rBloom r), RList (map log_item (rLogs r))]"

definition Receipt_encodeTyped :: "Receipt \<Rightarrow> bytes" where
  "Receipt_encodeTyped r = rType r # EncodeToBytes (receipt_item r)"

definition Receipt_EncodeRLP :: "Receipt \<Rightarrow> bytes" where
  "Receipt_EncodeRLP r =
     (if rType r = LegacyTxType then EncodeToBytes (receipt_item r)
      else EncodeToBytes (RBytes (Receipt_encodeTyped r)))"

definition Receipt_MarshalBinary :: "Receipt \<Rightarrow> bytes" where
  "Receipt_MarshalBinary r =
     (if rType r = LegacyTxType then EncodeToBytes (receipt_item r) else Receipt_encodeTyped r)"

definition Receipts_EncodeIndex :: "Receipt list \<Rightarrow> nat \<Rightarrow> bytes res" where
  "Receipts_EncodeIndex rs i =
     rbind (gindex rs i) (\<lambda>r. Ok
       (if rType r = LegacyTxType then EncodeToBytes (receipt_item r)
        else if rType r = AccessListTxType \<or> rType r = DynamicFeeTxType then Receipt_encodeTyped r
        else []))"

text \<open>
  What the database keeps of a receipt, \<^verbatim>\<open>storedReceiptRLP\<close>: the status or the state root, not both, the cumulative gas and the
  consensus fields of the logs (\<^verbatim>\<open>rlpLog\<close>, which \<^verbatim>\<open>LogForStorage\<close> writes). The bloom filter is left out.
\<close>

record rlpLog =
  rlAddress :: address
  rlTopics :: "hash list"
  rlData :: bytes

definition rlpLog_of :: "Log \<Rightarrow> rlpLog" where
  "rlpLog_of l = \<lparr>rlAddress = lAddress l, rlTopics = lTopics l, rlData = Log.lData l\<rparr>"

definition rlpLog_item :: "rlpLog \<Rightarrow> item" where
  "rlpLog_item l = RList [RBytes (addr_bytes (rlAddress l)), RList (map (\<lambda>t. RBytes (hash_bytes t)) (rlTopics l)), RBytes (rlData l)]"

text \<open>A decoded log has its consensus fields; the others are zero until they are derived.\<close>

definition LogForStorage_DecodeRLP :: "rlpLog \<Rightarrow> Log" where
  "LogForStorage_DecodeRLP dec = \<lparr>lAddress = rlAddress dec, lTopics = rlTopics dec, lData = rlData dec,
     lBlockNumber = 0, lTxHash = 0, lTxIndex = 0, lBlockHash = 0, lIndex = 0\<rparr>"

record storedReceiptRLP =
  PostStateOrStatus :: bytes
  srCumulativeGasUsed :: u64
  srLogs :: "rlpLog list"

definition storedReceipt :: "Receipt \<Rightarrow> storedReceiptRLP" where
  "storedReceipt r = \<lparr>PostStateOrStatus = statusEncoding r, srCumulativeGasUsed = CumulativeGasUsed r,
     srLogs = map rlpLog_of (rLogs r)\<rparr>"

definition storedReceipt_item :: "storedReceiptRLP \<Rightarrow> item" where
  "storedReceipt_item st =
     RList [RBytes (PostStateOrStatus st), RUint (srCumulativeGasUsed st), RList (map rlpLog_item (srLogs st))]"

definition ReceiptForStorage_EncodeRLP :: "Receipt \<Rightarrow> bytes" where
  "ReceiptForStorage_EncodeRLP r = EncodeToBytes (storedReceipt_item (storedReceipt r))"

text \<open>
  Reading a stored receipt, from the record that \<^verbatim>\<open>rlp.DecodeBytes\<close> fills: the status is put into an empty receipt, the logs
  are copied and the filter is computed again. \<open>None\<close> is the error of an invalid status.
\<close>

definition decodeStoredReceiptRLP :: "(bytes \<Rightarrow> hash) \<Rightarrow> storedReceiptRLP \<Rightarrow> Receipt option" where
  "decodeStoredReceiptRLP k st =
     (case setStatus (PostStateOrStatus st) zero_receipt of
        None \<Rightarrow> None
      | Some r \<Rightarrow>
          let r = r\<lparr>CumulativeGasUsed := srCumulativeGasUsed st, rLogs := map LogForStorage_DecodeRLP (srLogs st)\<rparr>
          in Some (r\<lparr>rBloom := CreateBloom k [r]\<rparr>))"

section \<open>Derived fields\<close>

definition crypto_CreateAddress :: "(bytes \<Rightarrow> hash) \<Rightarrow> address \<Rightarrow> u64 \<Rightarrow> address" where
  "crypto_CreateAddress k b nonce = ucast (k (EncodeToBytes (RList [RBytes (addr_bytes b), RUint nonce])))"

definition derive_log :: "u64 \<Rightarrow> hash \<Rightarrow> hash \<Rightarrow> nat \<Rightarrow> nat \<times> Log \<Rightarrow> Log" where
  "derive_log number hash txHash i = (\<lambda>(logIndex, l).
     l\<lparr>lBlockNumber := number, lBlockHash := hash, lTxHash := txHash, lTxIndex := i, lIndex := logIndex\<rparr>)"

text \<open>
  The loop of \<^verbatim>\<open>DeriveFields\<close>: the receipts and transactions from number \<open>i\<close> on, the gas used up to
  there (zero at the start, where the code does not subtract anything) and the index of the next log.
\<close>

fun derive_loop ::
  "sigCrypto \<Rightarrow> Signer \<Rightarrow> hash \<Rightarrow> u64 \<Rightarrow> nat \<Rightarrow> u64 \<Rightarrow> nat \<Rightarrow> Receipt list \<Rightarrow> int TxData list \<Rightarrow> Receipt list" where
  "derive_loop k signer hash number i before logIndex (r # rs) (tx # txs) =
     (let txHash = Tx_Hash k tx;
          r1 = r\<lparr>rType := txType tx, rTxHash := txHash, rBlockHash := hash, rBlockNumber := Some (uint number),
                 TransactionIndex := i\<rparr>;
          from = (case Sender k signer tx of Inl _ \<Rightarrow> 0 | Inr a \<Rightarrow> a);
          r2 = (if tx_to tx = None then r1\<lparr>ContractAddress := crypto_CreateAddress (keccak k) from (tx_nonce tx)\<rparr> else r1);
          r3 = r2\<lparr>GasUsed := CumulativeGasUsed r - before,
                  rLogs := map (derive_log number hash txHash i) (enumerate logIndex (rLogs r))\<rparr>
      in r3 # derive_loop k signer hash number (i + 1) (CumulativeGasUsed r) (logIndex + length (rLogs r)) rs txs)"
| "derive_loop k signer hash number i before logIndex _ _ = []"

text \<open>\<open>None\<close> is the error of a count mismatch.\<close>

definition DeriveFields ::
  "sigCrypto \<Rightarrow> ChainConfig \<Rightarrow> hash \<Rightarrow> u64 \<Rightarrow> int TxData list \<Rightarrow> Receipt list \<Rightarrow> Receipt list option" where
  "DeriveFields k config hash number txs rs =
     (if length txs \<noteq> length rs then None
      else Some (derive_loop k (MakeSigner config (uint number)) hash number 0 0 0 rs txs))"

section \<open>No false negatives\<close>

lemma length_bloom [simp]: "length (or_byte iv b) = length b" "length (Bloom_add k d b) = length b" "length (add_log k l b) = length b"
  "length empty_bloom = 256"
proof -
  show a: "length (or_byte iv b) = length b" for iv b by (simp add: or_byte_def)
  show f: "length (Bloom_add k d b) = length b" for d b by (simp add: Bloom_add_def a split: prod.split)
  have "length (fold (\<lambda>t. Bloom_add k (hash_bytes t)) ts b) = length b" for ts b by (induction ts arbitrary: b) (simp_all add: f)
  then show "length (add_log k l b) = length b" by (simp add: add_log_def f)
  show "length empty_bloom = 256" by (simp add: empty_bloom_def)
qed

lemma bloom_index: "fst (bloom_value hi lo) < 256"
  by (simp add: bloom_value_def)

text \<open>Bits are only ever set.\<close>

definition below :: "Bloom \<Rightarrow> Bloom \<Rightarrow> bool" where
  "below b b' \<longleftrightarrow> length b' = length b \<and> (\<forall>i < length b. (b ! i) AND (b' ! i) = b ! i)"

lemma below_refl [simp]: "below b b"
  by (simp add: below_def)

lemma and_trans: "x AND y = x \<Longrightarrow> y AND z = y \<Longrightarrow> x AND z = (x :: byte)"
  by (metis and.assoc)

lemma below_trans: "below a b \<Longrightarrow> below b c \<Longrightarrow> below a c"
  unfolding below_def using and_trans by auto

lemma and_or: "x AND (x OR y) = (x :: byte)"
  by (rule bit_word_eqI) (auto simp: bit_simps)

lemma below_or: "below b (or_byte iv b)"
proof -
  have "b ! i AND or_byte iv b ! i = b ! i" if "i < length b" for i
    using that by (cases "fst iv = i") (auto simp: or_byte_def and_or)
  then show ?thesis by (simp add: below_def)
qed

lemma below_add: "below b (Bloom_add k d b)"
  using below_or below_trans by (simp add: Bloom_add_def split: prod.split) blast

lemma below_fold: "(\<And>x b. below b (f x b)) \<Longrightarrow> below b (fold f xs b)"
proof (induction xs arbitrary: b)
  case (Cons x xs)
  have "below (f x b) (fold f xs (f x b))" by (rule Cons.IH [OF Cons.prems])
  then show ?case using below_trans [OF Cons.prems] by simp
qed simp

lemma below_log: "below b (add_log k l b)"
  unfolding add_log_def by (rule below_trans [OF below_add below_fold]) (rule below_add)

lemma has_bits_below:
  assumes "below b b'" "has_bits b iv" "fst iv < length b"
  shows "has_bits b' iv"
  using assms and_trans [of "snd iv" "b ! fst iv" "b' ! fst iv"] by (simp add: below_def has_bits_def)

lemma has_bits_or: "fst iv < length b \<Longrightarrow> has_bits (or_byte iv b) iv"
  by (auto simp: has_bits_def or_byte_def intro!: bit_word_eqI simp: bit_simps)

lemma Test_below: "below b b' \<Longrightarrow> length b = 256 \<Longrightarrow> Bloom_Test k b d \<Longrightarrow> Bloom_Test k b' d"
  using has_bits_below bloom_index by (auto simp: Bloom_Test_def bloomValues_def Let_def split: prod.splits)

lemma Test_add: "length b = 256 \<Longrightarrow> Bloom_Test k (Bloom_add k d b) d"
proof -
  assume len: "length b = 256"
  have keep: "has_bits (or_byte y b') x" if "has_bits b' x" "fst x < length b'" for b' x y
    by (rule has_bits_below [OF below_or that])
  have "has_bits (or_byte x3 (or_byte x2 (or_byte x1 b))) y" if "y \<in> {x1, x2, x3}" "fst x1 < 256" "fst x2 < 256" "fst x3 < 256"
    for x1 x2 x3 y
    using that len has_bits_or [of x1 b] has_bits_or [of x2 "or_byte x1 b"] has_bits_or [of x3 "or_byte x2 (or_byte x1 b)"]
      keep [of "or_byte x1 b" x1 x2] keep [of "or_byte x2 (or_byte x1 b)" x1 x3] keep [of "or_byte x2 (or_byte x1 b)" x2 x3]
    by auto
  then show ?thesis using bloom_index by (auto simp: Bloom_Test_def Bloom_add_def bloomValues_def Let_def)
qed

lemma length_fold_log [simp]: "length (fold (add_log k) ls b) = length b"
  by (induction ls arbitrary: b) simp_all

lemma CreateBloom_logs: "CreateBloom k rs = LogsBloom k (concat (map rLogs rs))"
proof -
  have "fold (\<lambda>r. fold (add_log k) (rLogs r)) rs b = fold (add_log k) (concat (map rLogs rs)) b" for b
    by (induction rs arbitrary: b) (simp_all add: fold_append)
  then show ?thesis by (simp add: CreateBloom_def LogsBloom_def)
qed

lemma fold_topic: "t \<in> set ts \<Longrightarrow> length b = 256 \<Longrightarrow> Bloom_Test k (fold (\<lambda>t. Bloom_add k (hash_bytes t)) ts b) (hash_bytes t)"
proof (induction ts arbitrary: b)
  case (Cons x ts)
  show ?case
  proof (cases "t = x")
    case True
    show ?thesis
      unfolding fold_simps True by (rule Test_below [OF below_fold [OF below_add] _ Test_add]) (simp_all add: Cons.prems(2))
  next
    case False
    then show ?thesis using Cons by simp
  qed
qed simp

lemma log_tested:
  assumes "length b = 256"
  shows "Bloom_Test k (add_log k l b) (addr_bytes (lAddress l))" "t \<in> set (lTopics l) \<Longrightarrow> Bloom_Test k (add_log k l b) (hash_bytes t)"
proof -
  show "Bloom_Test k (add_log k l b) (addr_bytes (lAddress l))"
    unfolding add_log_def by (rule Test_below [OF below_fold [OF below_add] _ Test_add]) (simp_all add: assms)
  show "Bloom_Test k (add_log k l b) (hash_bytes t)" if "t \<in> set (lTopics l)"
    unfolding add_log_def by (rule fold_topic [OF that]) (simp add: assms)
qed

lemma in_LogsBloom:
  assumes "l \<in> set ls" "\<And>b. length b = 256 \<Longrightarrow> Bloom_Test k (add_log k l b) d"
  shows "Bloom_Test k (LogsBloom k ls) d"
proof -
  obtain xs ys where ls: "ls = xs @ l # ys" using split_list [OF assms(1)] by blast
  show ?thesis
    unfolding LogsBloom_def ls fold_append o_apply fold_simps
    by (rule Test_below [OF below_fold [OF below_log] _ assms(2)]) simp_all
qed

text \<open>
  C23: A bloom filter has no false negatives: the filter of a block's receipts answers yes for the address
  and for every topic of every log in them.
\<close>

theorem CreateBloom_finds:
  assumes "r \<in> set rs" "l \<in> set (rLogs r)"
  shows "BloomLookup k (CreateBloom k rs) (addr_bytes (lAddress l)) \<and>
    (\<forall>t \<in> set (lTopics l). BloomLookup k (CreateBloom k rs) (hash_bytes t))"
proof -
  have "l \<in> set (concat (map rLogs rs))" using assms by auto
  then show ?thesis
    unfolding BloomLookup_def CreateBloom_logs using in_LogsBloom log_tested by (metis (no_types))
qed

definition sample_log :: Log where
  "sample_log = \<lparr>lAddress = 7, lTopics = [42], lData = [], lBlockNumber = 0, lTxHash = 0, lTxIndex = 0, lBlockHash = 0, lIndex = 0\<rparr>"

theorem CreateBloom_finds_witness:
  "BloomLookup be_word (CreateBloom be_word [zero_receipt, zero_receipt\<lparr>rLogs := [sample_log]\<rparr>]) (hash_bytes 42)"
  using CreateBloom_finds [of "zero_receipt\<lparr>rLogs := [sample_log]\<rparr>" "[zero_receipt, zero_receipt\<lparr>rLogs := [sample_log]\<rparr>]" sample_log be_word]
  by (simp add: sample_log_def)

section \<open>A stored receipt read back\<close>

text \<open>
  A log without its place in the chain, the receipt that is read back, and the receipts for which that works: a state root of
  32 bytes or none, one of the two statuses, and the filter of its own logs.
\<close>

definition log_core :: "Log \<Rightarrow> Log" where
  "log_core l = l\<lparr>lBlockNumber := 0, lTxHash := 0, lTxIndex := 0, lBlockHash := 0, lIndex := 0\<rparr>"

lemma log_core_decoded [simp]: "LogForStorage_DecodeRLP (rlpLog_of l) = log_core l"
  by (simp add: LogForStorage_DecodeRLP_def rlpLog_of_def log_core_def)

lemma log_core_same [simp]: "log_core (log_core l) = log_core l" "log_core (derive_log number h th i jl) = log_core (snd jl)"
  "add_log k (log_core l) b = add_log k l b"
  by (simp_all add: log_core_def derive_log_def add_log_def split: prod.split)

definition read_back :: "Receipt \<Rightarrow> Receipt" where
  "read_back r = zero_receipt\<lparr>PostState := PostState r, Status := (if PostState r = [] then Status r else 0),
     CumulativeGasUsed := CumulativeGasUsed r, rLogs := map log_core (rLogs r), rBloom := rBloom r\<rparr>"

definition storable :: "(bytes \<Rightarrow> hash) \<Rightarrow> Receipt \<Rightarrow> bool" where
  "storable k r \<longleftrightarrow> (Status r = ReceiptStatusFailed \<or> Status r = ReceiptStatusSuccessful) \<and>
     length (PostState r) \<in> {0, 32} \<and> rBloom r = CreateBloom k [r]"

lemma fold_log_core: "fold (\<lambda>x. add_log k (log_core x)) ls b = fold (add_log k) ls b"
  by (induction ls arbitrary: b) simp_all

lemma decodeStoredReceiptRLP_stored:
  assumes "storable k r"
  shows "decodeStoredReceiptRLP k (storedReceipt r) = Some (read_back r)"
proof -
  have bloom: "CreateBloom k [r'\<lparr>rLogs := map log_core (rLogs r)\<rparr>] = rBloom r" for r'
    using assms by (simp add: storable_def CreateBloom_def fold_map comp_def fold_log_core)
  have s: "setStatus (statusEncoding r) zero_receipt =
      Some (zero_receipt\<lparr>PostState := PostState r, Status := (if PostState r = [] then Status r else 0)\<rparr>)"
    using assms by (auto simp: storable_def setStatus_def statusEncoding_def receiptStatusSuccessfulRLP_def receiptStatusFailedRLP_def
        zero_receipt_def)
  show ?thesis
    by (simp add: decodeStoredReceiptRLP_def storedReceipt_def s comp_def Let_def bloom read_back_def)
qed

end
