(* ===== verification/Headers.thy ===== *)
theory Headers
  imports Params Transactions Receipts "HOL-Library.Multiset"
begin

text \<open>
  Block headers and blocks (core/types/block.go) and the hash of a list of transactions or receipts
  (core/types/hashing.go). \<^verbatim>\<open>Difficulty\<close> and \<^verbatim>\<open>Number\<close> are never nil in a header that was decoded,
  copied or prepared, and are plain numbers here; \<^verbatim>\<open>BaseFee\<close> is nil before London. Values are not
  shared, so \<^verbatim>\<open>CopyHeader\<close> is the identity. The trie that hashes a list (\<^verbatim>\<open>TrieHasher\<close>) is a parameter, a
  function of the updates it is given.
\<close>

section \<open>Headers\<close>

record Header =
  ParentHash :: hash
  UncleHash :: hash
  hCoinbase :: address
  Root :: hash
  TxHash :: hash
  ReceiptHash :: hash
  hBloom :: Bloom
  hDifficulty :: int
  hNumber :: int
  hGasLimit :: u64
  hGasUsed :: u64
  hTime :: u64
  Extra :: bytes
  MixDigest :: hash
  hNonce :: u64
  hBaseFee :: "int option"

text \<open>The fields in the order of the encoding; a negative number is an error of the encoder.\<close>

definition header_fields :: "Header \<Rightarrow> item list" where
  "header_fields h =
     [RBytes (hash_bytes (ParentHash h)), RBytes (hash_bytes (UncleHash h)), RBytes (addr_bytes (hCoinbase h)),
      RBytes (hash_bytes (Root h)), RBytes (hash_bytes (TxHash h)), RBytes (hash_bytes (ReceiptHash h)),
      RBytes (hBloom h), big_item (hDifficulty h), big_item (hNumber h), RUint (hGasLimit h), RUint (hGasUsed h),
      RUint (hTime h), RBytes (Extra h)]"

definition base_fee_item :: "Header \<Rightarrow> item list" where
  "base_fee_item h = (case hBaseFee h of None \<Rightarrow> [] | Some f \<Rightarrow> [big_item f])"

definition Header_EncodeRLP :: "Header \<Rightarrow> item option" where
  "Header_EncodeRLP h =
     (if hDifficulty h < 0 \<or> hNumber h < 0 \<or> (\<exists>f \<in> set_option (hBaseFee h). f < 0) then None
      else Some (RList (header_fields h @
             [RBytes (hash_bytes (MixDigest h)), RBytes (be_bytes 8 (hNonce h))] @ base_fee_item h)))"

text \<open>\<^verbatim>\<open>rlpHash\<close> ignores the error of the encoder, which then has written nothing.\<close>

definition rlpHash_of :: "sigCrypto \<Rightarrow> item option \<Rightarrow> hash" where
  "rlpHash_of k x = (case x of None \<Rightarrow> keccak k [] | Some i \<Rightarrow> rlpHash k i)"

definition Header_Hash :: "sigCrypto \<Rightarrow> Header \<Rightarrow> hash" where
  "Header_Hash k h = rlpHash_of k (Header_EncodeRLP h)"

definition EmptyRootHash :: hash where
  "EmptyRootHash = 0x56e81f171bcc55a6ff8345e692c0f86e5b48e01b996cadc001622fb5e363b421"

definition EmptyUncleHash :: "sigCrypto \<Rightarrow> hash" where
  "EmptyUncleHash k = rlpHash k (RList [])"

text \<open>\<^verbatim>\<open>SanityCheck\<close>: whether the fields of unbounded size are within reason.\<close>

definition SanityCheck :: "Header \<Rightarrow> bool" where
  "SanityCheck h \<longleftrightarrow>
     0 \<le> hNumber h \<and> hNumber h < 2 ^ 64 \<and> \<bar>hDifficulty h\<bar> < 2 ^ 80 \<and> length (Extra h) \<le> 100 * 1024 \<and>
     (case hBaseFee h of None \<Rightarrow> True | Some f \<Rightarrow> \<bar>f\<bar> < 2 ^ 256)"

definition EmptyBody :: "sigCrypto \<Rightarrow> Header \<Rightarrow> bool" where
  "EmptyBody k h \<longleftrightarrow> TxHash h = EmptyRootHash \<and> UncleHash h = EmptyUncleHash k"

definition EmptyReceipts :: "Header \<Rightarrow> bool" where
  "EmptyReceipts h \<longleftrightarrow> ReceiptHash h = EmptyRootHash"

text \<open>The hash of a list of headers.\<close>

definition CalcUncleHash :: "sigCrypto \<Rightarrow> Header list \<Rightarrow> hash" where
  "CalcUncleHash k uncles =
     (if uncles = [] then EmptyUncleHash k
      else rlpHash_of k (if None \<in> set (map Header_EncodeRLP uncles) then None
                         else Some (RList (map (\<lambda>h. the (Header_EncodeRLP h)) uncles))))"

definition HeaderParentHashFromRLP :: "bytes \<Rightarrow> hash res" where
  "HeaderParentHashFromRLP header =
     rbind (SplitList header) (\<lambda>r. case r of
       Inl _ \<Rightarrow> Ok 0
     | Inr (listContent, _) \<Rightarrow>
         rbind (SplitString listContent) (\<lambda>r. case r of
           Inl _ \<Rightarrow> Ok 0
         | Inr (parentHash, _) \<Rightarrow> if length parentHash \<noteq> 32 then Ok 0 else Ok (be_word parentHash)))"

section \<open>The hash of a list (core/types/hashing.go)\<close>

text \<open>
  The indices in the order in which \<^verbatim>\<open>DeriveSha\<close> gives them to the trie, and the hash. The length of the
  list and the encoding of its elements are what \<^verbatim>\<open>DerivableList\<close> offers.
\<close>

definition derive_order :: "nat \<Rightarrow> nat list" where
  "derive_order n = [1..<min n 0x80] @ (if n > 0 then [0] else []) @ [0x80..<n]"

definition derive_key :: "nat \<Rightarrow> bytes" where
  "derive_key i = AppendUint64 [] (of_nat i)"

definition DeriveSha :: "((bytes \<times> bytes) list \<Rightarrow> 'h) \<Rightarrow> nat \<Rightarrow> (nat \<Rightarrow> bytes) \<Rightarrow> 'h" where
  "DeriveSha trie len encodeIndex = trie (map (\<lambda>i. (derive_key i, encodeIndex i)) (derive_order len))"

definition Transactions_EncodeIndex :: "int TxData list \<Rightarrow> nat \<Rightarrow> bytes" where
  "Transactions_EncodeIndex txs i =
     (let tx = txs ! i in if txType tx = LegacyTxType then EncodeToBytes (TxData_item tx) else encodeTyped tx)"

definition receipts_index :: "Receipt list \<Rightarrow> nat \<Rightarrow> bytes" where
  "receipts_index rs i = (case Receipts_EncodeIndex rs i of Ok b \<Rightarrow> b | _ \<Rightarrow> [])"

section \<open>Blocks\<close>

record Block =
  bHeader :: Header
  bUncles :: "Header list"
  bTransactions :: "int TxData list"

definition NewBlock ::
  "sigCrypto \<Rightarrow> ((bytes \<times> bytes) list \<Rightarrow> hash) \<Rightarrow> Header \<Rightarrow> int TxData list \<Rightarrow> Header list \<Rightarrow> Receipt list \<Rightarrow> Block" where
  "NewBlock k trie header txs uncles receipts =
     (let h = header\<lparr>TxHash := (if txs = [] then EmptyRootHash
                                else DeriveSha trie (length txs) (Transactions_EncodeIndex txs))\<rparr>;
          h = (if receipts = [] then h\<lparr>ReceiptHash := EmptyRootHash\<rparr>
               else h\<lparr>ReceiptHash := DeriveSha trie (length receipts) (receipts_index receipts),
                      hBloom := CreateBloom (keccak k) receipts\<rparr>);
          h = h\<lparr>UncleHash := (if uncles = [] then EmptyUncleHash k else CalcUncleHash k uncles)\<rparr>
      in \<lparr>bHeader = h, bUncles = uncles, bTransactions = txs\<rparr>)"

definition NewBlockWithHeader :: "Header \<Rightarrow> Block" where
  "NewBlockWithHeader header = \<lparr>bHeader = header, bUncles = [], bTransactions = []\<rparr>"

definition WithSeal :: "Header \<Rightarrow> Block \<Rightarrow> Block" where
  "WithSeal header b = b\<lparr>bHeader := header\<rparr>"

definition WithBody :: "int TxData list \<Rightarrow> Header list \<Rightarrow> Block \<Rightarrow> Block" where
  "WithBody txs uncles b = \<lparr>bHeader = bHeader b, bUncles = uncles, bTransactions = txs\<rparr>"

definition Block_Hash :: "sigCrypto \<Rightarrow> Block \<Rightarrow> hash" where
  "Block_Hash k b = Header_Hash k (bHeader b)"

definition Block_Transaction :: "sigCrypto \<Rightarrow> hash \<Rightarrow> Block \<Rightarrow> int TxData option" where
  "Block_Transaction k hash b = find (\<lambda>tx. Tx_Hash k tx = hash) (bTransactions b)"

definition NumberU64 :: "Block \<Rightarrow> u64" where
  "NumberU64 b = big_Uint64 (hNumber (bHeader b))"

section \<open>The order of the updates\<close>

lemma set_derive_order: "set (derive_order n) = {0..<n}" "distinct (derive_order n)"
  by (auto simp: derive_order_def)

text \<open>
  The keys are the encodings of the indices, and they come in increasing order: one byte for 1 to 127,
  the byte \<^verbatim>\<open>0x80\<close> for 0, and a length before the bytes of the others.
\<close>

definition bytes_less :: "bytes \<Rightarrow> bytes \<Rightarrow> bool" where
  "bytes_less = ord_class.lexordp"

lemma of_nat_u64: "i < 2 ^ 64 \<Longrightarrow> unat (of_nat i :: u64) = i"
  by (simp add: unat_of_nat take_bit_nat_eq_self)

lemma derive_key_cases:
  assumes "i < 2 ^ 64"
  shows "derive_key i =
    (if i = 0 then [0x80] else if i < 128 then [of_nat i]
     else (0x80 + of_nat (length (putint (of_nat i)))) # putint (of_nat i))"
proof -
  have u: "unat (of_nat i :: u64) = i" using assms by (rule of_nat_u64)
  then have "(of_nat i :: u64) = 0 \<longleftrightarrow> i = 0" "(of_nat i :: u64) < 128 \<longleftrightarrow> i < 128"
    by (auto simp: unat_eq_zero word_less_nat_alt)
  moreover have "(ucast (of_nat i :: u64) :: byte) = of_nat i" using u by (metis of_nat_unat)
  ultimately show ?thesis by (simp add: derive_key_def AppendUint64_putint)
qed

lemma lexord_conv: "bytes_less xs ys \<longleftrightarrow> (xs, ys) \<in> lexord {(x, y). x < y}"
  by (simp add: bytes_less_def lexordp_conv_lexord)

lemma be_bytes_less:
  fixes v w :: u64
  shows "unat v < unat w \<Longrightarrow> unat w < 256 ^ n \<Longrightarrow> bytes_less (be_bytes n v) (be_bytes n w)"
proof (induction n arbitrary: v w)
  case (Suc n)
  have div: "unat (drop_bit 8 x) = unat x div 256" for x :: u64 by (subst unat_drop_bit_eq) (simp add: drop_bit_eq_div)
  have byte: "unat (ucast x :: byte) = unat x mod 256" for x :: u64 by (simp add: unsigned_ucast_eq take_bit_eq_mod)
  show ?case
  proof (cases "unat v div 256 < unat w div 256")
    case True
    then have "bytes_less (be_bytes n (drop_bit 8 v)) (be_bytes n (drop_bit 8 w))"
      using Suc.prems by (intro Suc.IH) (auto simp: div less_mult_imp_div_less)
    then show ?thesis using lexord_sufI by (fastforce simp: lexord_conv)
  next
    case False
    then have eq: "unat v div 256 = unat w div 256" using Suc.prems(1) div_le_mono [of "unat v" "unat w" 256] by simp
    then have "drop_bit 8 v = drop_bit 8 w" using div by (metis word_unat_eq_iff)
    moreover have "unat v mod 256 < unat w mod 256"
      using Suc.prems(1) eq by (metis div_mult_mod_eq nat_add_left_cancel_less)
    then have "(ucast v :: byte) < ucast w" by (simp add: word_less_nat_alt byte)
    ultimately show ?thesis by (simp add: lexord_conv lexord_append_leftI)
  qed
qed simp

lemma derive_key_mono:
  assumes "128 \<le> i" "i < j" "j < 2 ^ 64"
  shows "bytes_less (derive_key i) (derive_key j)"
proof -
  let ?i = "of_nat i :: u64" and ?j = "of_nat j :: u64"
  have u: "unat ?i = i" "unat ?j = j" using assms of_nat_u64 by auto
  then have nz: "?i \<noteq> 0" "?j \<noteq> 0" using assms by auto
  obtain ki where ki: "1 \<le> ki" "ki \<le> 8" "putint ?i = be_bytes ki ?i" "i < 256 ^ ki" "256 ^ (ki - 1) \<le> i"
    using putint_shape [OF nz(1)] u by metis
  obtain kj where kj: "1 \<le> kj" "kj \<le> 8" "putint ?j = be_bytes kj ?j" "j < 256 ^ kj" "256 ^ (kj - 1) \<le> j"
    using putint_shape [OF nz(2)] u by metis
  have k: "derive_key i = (0x80 + of_nat ki) # be_bytes ki ?i" "derive_key j = (0x80 + of_nat kj) # be_bytes kj ?j"
    using assms ki(3) kj(3) by (simp_all add: derive_key_cases)
  have "ki \<le> kj"
  proof (rule ccontr)
    assume "\<not> ki \<le> kj"
    then have "(256 :: nat) ^ kj \<le> 256 ^ (ki - 1)" by (intro power_increasing) auto
    then show False using ki kj assms by linarith
  qed
  then consider "ki = kj" | "ki < kj" by linarith
  then show ?thesis
  proof cases
    case 1
    then have "bytes_less (be_bytes ki ?i) (be_bytes kj ?j)" using be_bytes_less [of ?i ?j kj] u assms kj by simp
    then show ?thesis using 1 k by (simp add: lexord_conv)
  next
    case 2
    then have "unat (0x80 + of_nat ki :: byte) < unat (0x80 + of_nat kj :: byte)"
      using ki kj by (simp add: unat_word_ariths unat_of_nat)
    then show ?thesis using k by (simp add: lexord_conv word_less_nat_alt)
  qed
qed

lemma derive_key_first:
  assumes "1 \<le> i" "i < 128" "i < j" "j < 2 ^ 64"
  shows "bytes_less (derive_key i) (derive_key j)" "bytes_less (derive_key i) (derive_key 0)"
    "128 \<le> j \<Longrightarrow> bytes_less (derive_key 0) (derive_key j)"
proof -
  have small: "unat (of_nat m :: byte) = m" if "m < 128" for m :: nat using that by (simp add: unat_of_nat take_bit_nat_eq_self)
  have len: "unat (0x80 + of_nat (length (putint (of_nat j))) :: byte) = 128 + length (putint (of_nat j))"
    using length_putint_bounds [of "of_nat j"] by (simp add: unat_word_ariths unat_of_nat)
  show "bytes_less (derive_key i) (derive_key j)" "bytes_less (derive_key i) (derive_key 0)"
    using assms small [of i] small [of j] len by (auto simp: derive_key_cases lexord_conv word_less_nat_alt)
  have "(128 :: byte) < 0x80 + of_nat (length (putint (of_nat j)))"
    using len length_putint_bounds [of "of_nat j"] by (simp add: word_less_nat_alt)
  then show "128 \<le> j \<Longrightarrow> bytes_less (derive_key 0) (derive_key j)"
    using assms by (simp add: derive_key_cases lexord_conv)
qed

text \<open>
  The updates of \<^verbatim>\<open>DeriveSha\<close> come in the order its trie needs: however long the list, the keys are
  strictly increasing byte strings, and every element is handed over exactly once.
\<close>

theorem DeriveSha_sorted:
  assumes "n < 2 ^ 64"
  shows "sorted_wrt bytes_less (map derive_key (derive_order n)) \<and> mset (derive_order n) = mset [0..<n]"
proof
  have "sorted_wrt (\<lambda>i j. bytes_less (derive_key i) (derive_key j)) [1..<min n 128]"
    by (rule sorted_wrt_mono_rel [OF _ sorted_wrt_upt]) (use assms derive_key_first(1) in auto)
  moreover have "sorted_wrt (\<lambda>i j. bytes_less (derive_key i) (derive_key j)) [128..<n]"
    by (rule sorted_wrt_mono_rel [OF _ sorted_wrt_upt]) (use assms derive_key_mono in auto)
  moreover have "bytes_less (derive_key i) (derive_key 0)" if "1 \<le> i" "i < 128" for i
    using derive_key_first(2) [of i 128] that by simp
  moreover have "bytes_less (derive_key 0) (derive_key j)" if "128 \<le> j" "j < n" for j
    using derive_key_first(3) [of 1 j] that assms by simp
  moreover have "bytes_less (derive_key i) (derive_key j)" if "1 \<le> i" "i < 128" "128 \<le> j" "j < n" for i j
    using derive_key_first(1) [of i j] that assms by simp
  ultimately show "sorted_wrt bytes_less (map derive_key (derive_order n))"
    by (auto simp: derive_order_def sorted_wrt_append sorted_wrt_map)
  show "mset (derive_order n) = mset [0..<n]"
    using set_derive_order [of n] by (subst set_eq_iff_mset_eq_distinct [symmetric]) auto
qed

text \<open>A list of 200 elements.\<close>

theorem DeriveSha_sorted_witness:
  "sorted_wrt bytes_less (map derive_key (derive_order 200)) \<and> mset (derive_order 200) = mset [0..<200]"
  by (rule DeriveSha_sorted) simp

section \<open>The parent hash of an encoded header\<close>

text \<open>The parent hash is read off the encoding of a header without decoding the rest.\<close>

lemma length_hash_bytes [simp]: "length (hash_bytes h) = 32"
  by (simp add: hash_bytes_def)

lemma HeaderParentHash_encoded:
  assumes "Header_EncodeRLP h = Some x" "length (rlp_spec x) < 2 ^ 64"
  shows "HeaderParentHashFromRLP (EncodeToBytes x) = Ok (ParentHash h)"
proof -
  obtain xs where x: "x = RList (RBytes (hash_bytes (ParentHash h)) # xs)"
    using assms(1) by (auto simp: Header_EncodeRLP_def header_fields_def split: if_splits)
  have enc: "EncodeToBytes x = rlp_spec x" using assms(2) by (simp add: EncodeToBytes_def write_item_makeBytes)
  have split: "Split (rlp_spec x) = Ok (Inr (KList, rlp_specs (RBytes (hash_bytes (ParentHash h)) # xs), []))"
    using Split_rlp_spec [of x "[]"] assms(2) by (simp add: x)
  have "length (rlp_spec (RBytes (hash_bytes (ParentHash h))) @ rlp_specs xs) < 2 ^ 64"
    using assms(2) by (simp add: x)
  from Split_rlp_spec [OF this]
  have "Split (rlp_specs (RBytes (hash_bytes (ParentHash h)) # xs)) = Ok (Inr (KString, hash_bytes (ParentHash h), rlp_specs xs))"
    by simp
  then show ?thesis
    by (simp add: HeaderParentHashFromRLP_def SplitList_def SplitString_def enc split be_word_be_bytes hash_bytes_def)
qed

end
