(* ===== verification/HeaderRules.thy ===== *)
theory HeaderRules
  imports Headers
begin

text \<open>
  The checks of headers that all consensus engines share (consensus/misc: gaslimit.go, eip1559.go,
  dao.go, forks.go). Big integers are \<open>int\<close>, and \<^verbatim>\<open>Div\<close> with a positive divisor is \<open>div\<close>.
\<close>

section \<open>Constants (params/protocol_params.go, params/dao.go)\<close>

definition GasLimitBoundDivisor :: u64 where [simp]: "GasLimitBoundDivisor = 1024"
definition MinGasLimit :: u64 where [simp]: "MinGasLimit = 5000"
definition MaxGasLimit :: u64 where [simp]: "MaxGasLimit = 0x7fffffffffffffff"
definition MaximumExtraDataSize :: u64 where [simp]: "MaximumExtraDataSize = 32"
definition BaseFeeChangeDenominator :: u64 where [simp]: "BaseFeeChangeDenominator = 8"
definition ElasticityMultiplier :: u64 where [simp]: "ElasticityMultiplier = 2"
definition InitialBaseFee :: u64 where [simp]: "InitialBaseFee = 1000000000"

definition DAOForkBlockExtra :: bytes where
  "DAOForkBlockExtra = [0x64, 0x61, 0x6f, 0x2d, 0x68, 0x61, 0x72, 0x64, 0x2d, 0x66, 0x6f, 0x72, 0x6b]"

definition DAOForkExtraRange :: int where [simp]: "DAOForkExtraRange = 10"

datatype misc_error = GasLimitOutOfBounds | GasLimitTooLow | MissingBaseFee | InvalidBaseFee
  | ErrBadProDAOExtra | ErrBadNoDAOExtra | WrongForkHash

section \<open>The gas limit\<close>

text \<open>The difference is taken on signed 64-bit numbers.\<close>

definition VerifyGaslimit :: "u64 \<Rightarrow> u64 \<Rightarrow> misc_error option" where
  "VerifyGaslimit parentGasLimit headerGasLimit =
     (let diff = parentGasLimit - headerGasLimit;
          diff = (if diff <s 0 then diff * - 1 else diff);
          limit = parentGasLimit div GasLimitBoundDivisor
      in if diff \<ge> limit then Some GasLimitOutOfBounds
         else if headerGasLimit < MinGasLimit then Some GasLimitTooLow
         else None)"

section \<open>The base fee\<close>

definition BigDiv :: "int \<Rightarrow> int \<Rightarrow> int res" where
  "BigDiv x y = (if y = 0 then Panic else Ok (x div y))"

text \<open>What the base fee changes by when the gas used is off the target.\<close>

definition base_fee_delta :: "u64 \<Rightarrow> int \<Rightarrow> u64 \<Rightarrow> int res" where
  "base_fee_delta delta baseFee target =
     rbind (BigDiv (uint delta * baseFee) (uint target)) (\<lambda>q. BigDiv q (uint BaseFeeChangeDenominator))"

definition CalcBaseFee :: "ChainConfig \<Rightarrow> Header \<Rightarrow> int res" where
  "CalcBaseFee config parent =
     (if \<not> IsLondon config (hNumber parent) then Ok (uint InitialBaseFee)
      else
        let target = hGasLimit parent div ElasticityMultiplier in
        rbind (case hBaseFee parent of None \<Rightarrow> Panic | Some b \<Rightarrow> Ok b) (\<lambda>baseFee.
        if hGasUsed parent = target then Ok baseFee
        else if hGasUsed parent > target then
          rbind (base_fee_delta (hGasUsed parent - target) baseFee target) (\<lambda>d. Ok (baseFee + BigMax d 1))
        else
          rbind (base_fee_delta (target - hGasUsed parent) baseFee target) (\<lambda>d. Ok (BigMax (baseFee - d) 0))))"

definition VerifyEip1559Header :: "ChainConfig \<Rightarrow> Header \<Rightarrow> Header \<Rightarrow> misc_error option res" where
  "VerifyEip1559Header config parent header =
     (let parentGasLimit = (if \<not> IsLondon config (hNumber parent) then hGasLimit parent * ElasticityMultiplier
                            else hGasLimit parent)
      in case VerifyGaslimit parentGasLimit (hGasLimit header) of
           Some e \<Rightarrow> Ok (Some e)
         | None \<Rightarrow> (case hBaseFee header of
             None \<Rightarrow> Ok (Some MissingBaseFee)
           | Some f \<Rightarrow> rbind (CalcBaseFee config parent) (\<lambda>expected.
               Ok (if f \<noteq> expected then Some InvalidBaseFee else None))))"

section \<open>The forks\<close>

definition VerifyDAOHeaderExtraData :: "ChainConfig \<Rightarrow> Header \<Rightarrow> misc_error option" where
  "VerifyDAOHeaderExtraData config header = (case DAOForkBlock config of
       None \<Rightarrow> None
     | Some dao \<Rightarrow>
         (let limit = dao + DAOForkExtraRange in
          if hNumber header < dao \<or> hNumber header \<ge> limit then None
          else if DAOForkSupport config then
            (if Extra header \<noteq> DAOForkBlockExtra then Some ErrBadProDAOExtra else None)
          else (if Extra header = DAOForkBlockExtra then Some ErrBadNoDAOExtra else None)))"

definition VerifyForkHashes :: "sigCrypto \<Rightarrow> ChainConfig \<Rightarrow> Header \<Rightarrow> bool \<Rightarrow> misc_error option" where
  "VerifyForkHashes k config header uncle =
     (if uncle then None
      else if EIP150Block config = Some (hNumber header) \<and> EIP150Hash config \<noteq> 0 \<and> EIP150Hash config \<noteq> Header_Hash k header
      then Some WrongForkHash
      else None)"

section \<open>What the gas limit check accepts\<close>

lemma sint_neg: "(w :: u64) <s 0 \<longleftrightarrow> 2 ^ 63 \<le> uint w"
proof -
  have "0 \<le> uint w" "uint w < 2 ^ 64" using uint_bounded [of w] by auto
  then have "uint w div 2 ^ 63 = (if 2 ^ 63 \<le> uint w then 1 else 0)" by (auto intro: int_div_pos_eq [where r = "uint w - 2 ^ 63"])
  then have "bit (uint w) 63 \<longleftrightarrow> 2 ^ 63 \<le> uint w" by (simp add: bit_iff_odd)
  then show ?thesis by (simp add: word_sless_alt word_size sint_uint signed_take_bit_eq_if_positive)
qed

text \<open>The distance of two 64-bit numbers on the circle.\<close>

definition circle_distance :: "u64 \<Rightarrow> u64 \<Rightarrow> int" where
  "circle_distance p h = min \<bar>uint p - uint h\<bar> (2 ^ 64 - \<bar>uint p - uint h\<bar>)"

lemma abs_diff_circle: "uint (if p - h <s 0 then (p - h) * - 1 else p - h) = circle_distance p h"
proof -
  have sub: "uint (x - y) = (if uint y \<le> uint x then uint x - uint y else uint x - uint y + 2 ^ 64)" for x y :: u64
    by (simp add: uint_sub_if' )
  have "(p - h) * - 1 = h - p" by simp
  then show ?thesis using sub [of p h] sub [of h p] uint_bounded [of p] uint_bounded [of h]
    unfolding circle_distance_def sint_neg by (simp add: min_def)
qed

text \<open>
  Which gas limits are accepted: those of at least 5000 whose distance to the parent's limit is below
  its 1024th part. The distance is that of the circle of 64-bit numbers, which is the plain one unless
  the two limits are 2 to the 63 or more apart.
\<close>

theorem VerifyGaslimit_exact:
  "VerifyGaslimit p h = None \<longleftrightarrow> 5000 \<le> uint h \<and> circle_distance p h < uint p div 1024"
  using abs_diff_circle [of p h]
  by (auto simp: VerifyGaslimit_def Let_def word_le_def word_less_def uint_div)

section \<open>How the base fee moves\<close>

lemma base_fee_delta_bound:
  assumes "0 \<le> b" "0 < target" "uint delta \<le> uint target + e" "0 \<le> e"
  shows "\<exists>d. base_fee_delta delta b target = Ok d \<and> 0 \<le> d \<and> d \<le> (b + e * b div uint target) div 8"
proof -
  have t: "0 < uint target" using assms(2) by (simp add: word_less_def)
  have "uint delta * b \<le> b * uint target + e * b"
    using mult_right_mono [OF assms(3,1)] by (simp add: algebra_simps)
  then have "uint delta * b div uint target \<le> (b * uint target + e * b) div uint target" by (rule zdiv_mono1 [OF _ t])
  also have "\<dots> = b + e * b div uint target" using t by simp
  finally have "uint delta * b div uint target \<le> b + e * b div uint target" .
  moreover have "0 \<le> uint delta * b div uint target" using t assms(1) by (simp add: pos_imp_zdiv_nonneg_iff)
  ultimately show ?thesis
    using t by (auto simp: base_fee_delta_def BigDiv_def zdiv_mono1 pos_imp_zdiv_nonneg_iff)
qed

lemma gas_over_target:
  fixes used limit :: u64
  assumes "used \<le> limit" "limit div 2 < used"
  shows "uint (used - limit div 2) \<le> uint (limit div 2) + (if used \<le> 2 * (limit div 2) then 0 else 1)"
proof -
  have le: "unat (2 * (limit div 2)) = 2 * unat (limit div 2)" "unat (limit div 2) = unat limit div 2"
    using u64_bound [of limit] by (simp_all add: unat_word_ariths unat_div)
  have "unat (used - limit div 2) = unat used - unat (limit div 2)" using assms(2) by (simp add: unat_sub)
  moreover have "unat used \<le> unat limit" using assms(1) by (simp add: word_le_nat_alt)
  ultimately have "unat (used - limit div 2) \<le> unat (limit div 2) + (if used \<le> 2 * (limit div 2) then 0 else 1)"
    using le by (auto simp: word_le_nat_alt)
  then have "int (unat (used - limit div 2)) \<le> int (unat (limit div 2) + (if used \<le> 2 * (limit div 2) then 0 else 1))"
    by (simp only: of_nat_le_iff)
  then show ?thesis by (simp split: if_splits)
qed

text \<open>
  C18: The base fee after London. If the parent has a base fee and used no more than its gas limit, the next base fee exists,
  is not negative, falls by at most an eighth and rises by at most an eighth or 1. Only a parent that used more than twice its
  gas target, a full block with an odd gas limit, can push it further: the eighth is then taken of the base fee and its share
  of one unit of the target. The fee rises exactly when the parent used more than its target, and stays when it used the target.
\<close>

theorem CalcBaseFee_bounds:
  assumes "IsLondon config (hNumber parent)" "hBaseFee parent = Some b" "0 \<le> b" "2 \<le> hGasLimit parent"
    "hGasUsed parent \<le> hGasLimit parent"
  shows "\<exists>f. CalcBaseFee config parent = Ok f \<and> 0 \<le> f \<and> b - b div 8 \<le> f \<and>
    f \<le> b + max 1 ((b + (if hGasUsed parent \<le> 2 * (hGasLimit parent div 2) then 0 else b div uint (hGasLimit parent div 2))) div 8) \<and>
    (b < f \<longleftrightarrow> hGasLimit parent div 2 < hGasUsed parent) \<and> (hGasUsed parent = hGasLimit parent div 2 \<longrightarrow> f = b)"
proof -
  let ?t = "hGasLimit parent div 2" and ?u = "hGasUsed parent"
  let ?e = "if ?u \<le> 2 * ?t then 0 else 1 :: int"
  have t: "0 < ?t" using assms(4) by (simp add: word_less_nat_alt word_le_nat_alt unat_div)
  have half: "b div 8 \<le> b" "0 \<le> b div 8" using assms(3) by auto
  have q: "0 \<le> b div uint ?t" using assms(3) t by (simp add: pos_imp_zdiv_nonneg_iff word_less_def)
  consider "?u = ?t" | "?u > ?t" | "?u < ?t" by (metis linorder_neqE)
  then show ?thesis
  proof cases
    case 1
    have "0 \<le> (b + b div uint ?t) div 8" using assms(3) q by simp
    then show ?thesis using 1 assms(1,2,3) half by (simp add: CalcBaseFee_def Let_def)
  next
    case 2
    have e: "0 \<le> ?e" by simp
    obtain d where d: "base_fee_delta (?u - ?t) b ?t = Ok d" "0 \<le> d" "d \<le> (b + ?e * b div uint ?t) div 8"
      using base_fee_delta_bound [OF assms(3) t gas_over_target [OF assms(5) 2] e] by blast
    have "CalcBaseFee config parent = Ok (b + BigMax d 1)"
      using 2 assms(1,2) d(1) by (auto simp: CalcBaseFee_def Let_def)
    then show ?thesis using 2 d half assms(3) by (auto simp: BigMax_def split: if_splits)
  next
    case 3
    have "?t - ?u \<le> ?t" using 3 by (simp add: word_le_nat_alt word_less_nat_alt unat_sub)
    then obtain d where d: "base_fee_delta (?t - ?u) b ?t = Ok d" "0 \<le> d" "d \<le> b div 8"
      using base_fee_delta_bound [OF assms(3) t, of "?t - ?u" 0] by (auto simp: word_le_def)
    have "CalcBaseFee config parent = Ok (BigMax (b - d) 0)"
      using 3 assms(1,2) d(1) by (auto simp: CalcBaseFee_def Let_def)
    moreover have "0 \<le> (b + b div uint ?t) div 8" using assms(3) q by simp
    ultimately show ?thesis using 3 d half assms(3) by (auto simp: BigMax_def)
  qed
qed

text \<open>A stand-in for the hash function, and a parent that used all of its 20000 gas.\<close>

definition sample_keccak :: sigCrypto where
  "sample_keccak = \<lparr>keccak = (\<lambda>b. be_word (rev b)), Ecrecover = (\<lambda>_ _. Inl [])\<rparr>"

definition sample_header :: Header where
  "sample_header = \<lparr>ParentHash = 0, UncleHash = 0, hCoinbase = 1, Root = 0, TxHash = 0, ReceiptHash = 0,
     hBloom = empty_bloom, hDifficulty = 0x20000, hNumber = 9, hGasLimit = 20000, hGasUsed = 20000, hTime = 100,
     Extra = [], MixDigest = 0, hNonce = 0, hBaseFee = Some 800\<rparr>"

text \<open>The full parent with an odd gas limit raises 80000 by 10001, more than an eighth.\<close>

theorem CalcBaseFee_bounds_witness:
  "CalcBaseFee sample_config (sample_header\<lparr>hGasLimit := 20001, hGasUsed := 20001, hBaseFee := Some 80000\<rparr>) = Ok 90001 \<and>
   (\<exists>f. CalcBaseFee sample_config sample_header = Ok f \<and> 700 \<le> f \<and> f \<le> 900 \<and> 800 < f)"
proof -
  have l: "IsLondon sample_config (hNumber sample_header)"
    by (simp add: sample_header_def IsLondon_def isForked_def sample_config_def)
  have h: "hBaseFee sample_header = Some 800" "hGasLimit sample_header = 20000" "hGasUsed sample_header = 20000"
    by (simp_all add: sample_header_def)
  obtain f where "CalcBaseFee sample_config sample_header = Ok f" "800 - 800 div 8 \<le> f" "f \<le> 800 + max 1 (800 div 8)"
    "800 < f \<longleftrightarrow> hGasLimit sample_header div 2 < hGasUsed sample_header"
    using CalcBaseFee_bounds [OF l h(1)] unfolding h by auto
  moreover have "CalcBaseFee sample_config (sample_header\<lparr>hGasLimit := 20001, hGasUsed := 20001, hBaseFee := Some 80000\<rparr>) = Ok 90001"
    using l by (simp add: CalcBaseFee_def Let_def base_fee_delta_def BigDiv_def BigMax_def)
  ultimately show ?thesis by (auto simp: h)
qed

end
