(* ===== verification/Difficulty.thy ===== *)
theory Difficulty
  imports HeaderRules
begin

text \<open>
  The difficulty of a proof-of-work block (consensus/ethash): the calculators on big integers
  (consensus.go), which the consensus rules use, and their 256-bit versions (difficulty.go), and the
  choice of the calculator by the fork.
\<close>

section \<open>Big integers (consensus/ethash/consensus.go)\<close>

definition DifficultyBoundDivisor :: int where [simp]: "DifficultyBoundDivisor = 2048"
definition MinimumDifficulty :: int where [simp]: "MinimumDifficulty = 131072"
definition DurationLimit :: int where [simp]: "DurationLimit = 13"
definition expDiffPeriod :: int where [simp]: "expDiffPeriod = 100000"

text \<open>The lower bound and the exponential part, which the three calculators share.\<close>

definition at_least_minimum :: "int \<Rightarrow> int" where
  "at_least_minimum x = (if x < MinimumDifficulty then MinimumDifficulty else x)"

definition add_bomb :: "int \<Rightarrow> int \<Rightarrow> int" where
  "add_bomb periodCount x = (if periodCount > 1 then x + 2 ^ nat (periodCount - 2) else x)"

definition calcDifficultyFrontier :: "u64 \<Rightarrow> Header \<Rightarrow> int" where
  "calcDifficultyFrontier time parent =
     (let adjust = hDifficulty parent div DifficultyBoundDivisor;
          diff = (if uint time - uint (hTime parent) < DurationLimit then hDifficulty parent + adjust
                  else hDifficulty parent - adjust);
          diff = at_least_minimum diff;
          periodCount = (hNumber parent + 1) div expDiffPeriod
      in if periodCount > 1 then BigMax (diff + 2 ^ nat (periodCount - 2)) MinimumDifficulty else diff)"

definition calcDifficultyHomestead :: "u64 \<Rightarrow> Header \<Rightarrow> int" where
  "calcDifficultyHomestead time parent =
     (let x = 1 - (uint time - uint (hTime parent)) div 10;
          x = (if x < - 99 then - 99 else x);
          y = hDifficulty parent div DifficultyBoundDivisor;
          x = at_least_minimum (hDifficulty parent + y * x);
          periodCount = (hNumber parent + 1) div expDiffPeriod
      in add_bomb periodCount x)"

definition makeDifficultyCalculator :: "sigCrypto \<Rightarrow> int \<Rightarrow> u64 \<Rightarrow> Header \<Rightarrow> int" where
  "makeDifficultyCalculator k bombDelay time parent =
     (let bombDelayFromParent = bombDelay - 1;
          x = (uint time - uint (hTime parent)) div 9;
          x = (if UncleHash parent = EmptyUncleHash k then 1 - x else 2 - x);
          x = (if x < - 99 then - 99 else x);
          y = hDifficulty parent div DifficultyBoundDivisor;
          x = at_least_minimum (hDifficulty parent + y * x);
          fakeBlockNumber = (if hNumber parent \<ge> bombDelayFromParent then hNumber parent - bombDelayFromParent else 0)
      in add_bomb (fakeBlockNumber div expDiffPeriod) x)"

definition CalcDifficulty :: "sigCrypto \<Rightarrow> ChainConfig \<Rightarrow> u64 \<Rightarrow> Header \<Rightarrow> int" where
  "CalcDifficulty k config time parent =
     (let next = hNumber parent + 1 in
      if IsGrayGlacier config next then makeDifficultyCalculator k 11400000 time parent
      else if IsArrowGlacier config next then makeDifficultyCalculator k 10700000 time parent
      else if IsLondon config next then makeDifficultyCalculator k 9700000 time parent
      else if IsMuirGlacier config next then makeDifficultyCalculator k 9000000 time parent
      else if IsConstantinople config next then makeDifficultyCalculator k 5000000 time parent
      else if IsByzantium config next then makeDifficultyCalculator k 3000000 time parent
      else if IsHomestead config next then calcDifficultyHomestead time parent
      else calcDifficultyFrontier time parent)"

section \<open>256-bit integers (consensus/ethash/difficulty.go)\<close>

definition frontierDurationLimit :: u64 where [simp]: "frontierDurationLimit = 13"
definition minimumDifficulty :: u64 where [simp]: "minimumDifficulty = 131072"
definition expDiffPeriodUint :: u64 where [simp]: "expDiffPeriodUint = 100000"
definition difficultyBoundDivisor :: nat where [simp]: "difficultyBoundDivisor = 11"

text \<open>\<^verbatim>\<open>FromBig\<close> keeps the low 256 bits; the flag that bits were lost is dropped by the callers.\<close>

definition FromBig :: "int \<Rightarrow> u256" where
  "FromBig i = of_int i"

definition at_least_minimum_u256 :: "u256 \<Rightarrow> u256" where
  "at_least_minimum_u256 d = (if d < ucast minimumDifficulty then ucast minimumDifficulty else d)"

definition CalcDifficultyFrontierU256 :: "u64 \<Rightarrow> Header \<Rightarrow> int" where
  "CalcDifficultyFrontierU256 time parent =
     (let pDiff = FromBig (hDifficulty parent);
          adjust = drop_bit difficultyBoundDivisor pDiff;
          pDiff = (if time - hTime parent < frontierDurationLimit then pDiff + adjust else pDiff - adjust);
          pDiff = at_least_minimum_u256 pDiff;
          periodCount = (big_Uint64 (hNumber parent) + 1) div expDiffPeriodUint;
          pDiff = (if periodCount > 1 then pDiff + push_bit (unat (periodCount - 2)) 1 else pDiff)
      in uint pDiff)"

definition CalcDifficultyHomesteadU256 :: "u64 \<Rightarrow> Header \<Rightarrow> int" where
  "CalcDifficultyHomesteadU256 time parent =
     (let pDiff = FromBig (hDifficulty parent);
          adjust = drop_bit difficultyBoundDivisor pDiff;
          x = (time - hTime parent) div 10;
          (x, neg) = (if x = 0 then (1, False) else if x \<ge> 100 then (99, True) else (x - 1, True));
          adjust = adjust * ucast x;
          pDiff = (if neg then pDiff - adjust else pDiff + adjust);
          pDiff = at_least_minimum_u256 pDiff;
          periodCount = (1 + big_Uint64 (hNumber parent)) div expDiffPeriodUint;
          pDiff = (if periodCount > 1 then pDiff + push_bit (unat (periodCount - 2)) 1 else pDiff)
      in uint pDiff)"

definition MakeDifficultyCalculatorU256 :: "sigCrypto \<Rightarrow> int \<Rightarrow> u64 \<Rightarrow> Header \<Rightarrow> int" where
  "MakeDifficultyCalculatorU256 k bombDelay time parent =
     (let bombDelayFromParent = big_Uint64 bombDelay - 1;
          x = (time - hTime parent) div 9;
          c = (if UncleHash parent \<noteq> EmptyUncleHash k then 2 else 1);
          xNeg = (x \<ge> c);
          x = (if xNeg then x - c else c - x);
          x = (if x > 99 then 99 else x);
          pDiff = FromBig (hDifficulty parent);
          z = drop_bit difficultyBoundDivisor pDiff * ucast x;
          y = (if xNeg then pDiff - z else pDiff + z);
          y = at_least_minimum_u256 y;
          pNum = big_Uint64 (hNumber parent);
          y = (if pNum \<ge> bombDelayFromParent \<and> pNum - bombDelayFromParent \<ge> 2 * expDiffPeriodUint
               then push_bit (unat ((pNum - bombDelayFromParent) div expDiffPeriodUint - 2)) 1 + y else y)
      in uint y)"

section \<open>The minimum\<close>

lemma minimum_le: "131072 \<le> at_least_minimum x" "131072 \<le> add_bomb p (at_least_minimum x)"
proof -
  show a: "131072 \<le> at_least_minimum x" by (simp add: at_least_minimum_def)
  have "0 \<le> (2 :: int) ^ nat (p - 2)" by simp
  then show "131072 \<le> add_bomb p (at_least_minimum x)" using a by (simp add: add_bomb_def add_increasing2)
qed

lemma minimum_difficulty: "131072 \<le> CalcDifficulty k config time parent"
proof -
  have "131072 \<le> calcDifficultyFrontier time parent"
    using minimum_le(1) by (simp add: calcDifficultyFrontier_def Let_def BigMax_def)
  moreover have "131072 \<le> calcDifficultyHomestead time parent"
    using minimum_le(2) by (simp add: calcDifficultyHomestead_def Let_def)
  moreover have "131072 \<le> makeDifficultyCalculator k d time parent" for d
    using minimum_le(2) by (simp add: makeDifficultyCalculator_def Let_def)
  ultimately show ?thesis by (simp add: CalcDifficulty_def Let_def)
qed

section \<open>The two versions agree\<close>

lemma uint_small_add: "uint (x :: 'a::len word) + uint y < 2 ^ LENGTH('a) \<Longrightarrow> uint (x + y) = uint x + uint y"
  by (simp add: uint_add_lem)

lemma uint_small_sub: "uint (y :: 'a::len word) \<le> uint x \<Longrightarrow> uint (x - y) = uint x - uint y"
  by (simp add: uint_sub_lem)

lemma uint_FromBig: "0 \<le> d \<Longrightarrow> d < 2 ^ 256 \<Longrightarrow> uint (FromBig d) = d"
  by (simp add: FromBig_def unsigned_of_int take_bit_int_eq_self)

text \<open>The step up or down from a difficulty, by some 2048ths of it.\<close>

lemma uint_adjust:
  fixes z :: u64
  assumes "0 \<le> d" "d < 2 ^ 255" "z \<le> 99"
  defines "a \<equiv> drop_bit 11 (FromBig d) * ucast z"
  shows "uint a = d div 2048 * uint z" "uint (FromBig d - a) = d - d div 2048 * uint z"
    "uint (FromBig d + a) = d + d div 2048 * uint z" "0 \<le> d - d div 2048 * uint z" "d + d div 2048 * uint z < 2 ^ 255 + 2 ^ 251"
proof -
  have z: "uint z \<le> 99" "0 \<le> uint z" using assms(3) by (simp_all add: word_le_def)
  have q: "0 \<le> d div 2048" "d div 2048 * uint z \<le> d div 2048 * 99"
    using assms(1) z by (auto intro: mult_left_mono simp: pos_imp_zdiv_nonneg_iff)
  have q99: "d div 2048 * 99 \<le> d" "d div 2048 * 99 < 2 ^ 251" using assms(1,2) by auto
  have "uint (drop_bit 11 (FromBig d)) = d div 2048"
    using assms(1,2) by (simp add: drop_bit_eq_div uint_div uint_FromBig)
  moreover have "uint (ucast z :: u256) = uint z" by (rule uint_up_ucast) (simp add: is_up)
  ultimately show a: "uint a = d div 2048 * uint z"
    unfolding a_def using q q99(2) by (subst uint_mult_lem [THEN iffD1]) auto
  have b: "uint (FromBig d) = d" using assms(1,2) by (simp add: uint_FromBig)
  show "uint (FromBig d - a) = d - d div 2048 * uint z" using a b q q99 by (simp add: uint_small_sub)
  show "uint (FromBig d + a) = d + d div 2048 * uint z" using a b q q99 assms(2) by (simp add: uint_small_add)
  show "0 \<le> d - d div 2048 * uint z" "d + d div 2048 * uint z < 2 ^ 255 + 2 ^ 251" using q q99 assms(2) by auto
qed

lemma uint_at_least_minimum: "uint (at_least_minimum_u256 d) = at_least_minimum (uint d)"
  by (simp add: at_least_minimum_u256_def at_least_minimum_def word_less_def)

lemma at_least_minimum_bound: "x < 2 ^ 255 + 2 ^ 251 \<Longrightarrow> at_least_minimum x < 2 ^ 255 + 2 ^ 251"
  by (simp add: at_least_minimum_def)

text \<open>The bomb of 25 million blocks is a number of 249 bits.\<close>

lemma uint_bomb:
  assumes "uint x < 2 ^ 255 + 2 ^ 251" "n < 250"
  shows "uint (x + push_bit n 1 :: u256) = uint x + 2 ^ n"
proof -
  have p: "uint (push_bit n 1 :: u256) = 2 ^ n"
    using assms(2) by (subst unsigned_push_bit_eq) (simp add: push_bit_eq_mult take_bit_of_exp)
  have "(2 :: int) ^ n \<le> 2 ^ 249" using assms(2) by (intro power_increasing) auto
  then show ?thesis using assms(1) p by (subst uint_small_add) auto
qed

lemma uint_Uint64: "0 \<le> n \<Longrightarrow> n < 2 ^ 64 \<Longrightarrow> uint (big_Uint64 n) = n"
  by (simp add: big_Uint64_def unsigned_of_int take_bit_int_eq_self)

lemma uint_elapsed: "hTime parent \<le> time \<Longrightarrow> uint (time - hTime parent) = uint time - uint (hTime parent)"
  by (simp add: uint_small_sub word_le_def)

text \<open>The exponential part, from the count of periods as a 64-bit number.\<close>

lemma bomb_agrees:
  assumes "0 \<le> n" "n < 25000000" "uint x < 2 ^ 255 + 2 ^ 251"
  shows "uint (if big_Uint64 n div 100000 > 1 then x + push_bit (unat (big_Uint64 n div 100000 - 2)) 1 else x :: u256)
    = add_bomb (n div 100000) (uint x)"
proof -
  let ?p = "big_Uint64 n div 100000"
  have p: "uint ?p = n div 100000" using assms by (simp add: uint_div uint_Uint64)
  show ?thesis
  proof (cases "?p > 1")
    case True
    then have "2 \<le> n div 100000" using p by (simp add: word_less_def)
    then have "uint (?p - 2) = n div 100000 - 2" using p by (subst uint_small_sub) simp_all
    then have u: "unat (?p - 2) = nat (n div 100000 - 2)" by (simp add: unat_eq_nat_uint)
    then have "unat (?p - 2) < 250" using assms by linarith
    then show ?thesis using True u p uint_bomb [OF assms(3)] by (simp add: add_bomb_def word_less_def)
  next
    case False
    then show ?thesis using p by (simp add: add_bomb_def word_less_def)
  qed
qed

lemmas u256_constants = frontierDurationLimit_def minimumDifficulty_def expDiffPeriodUint_def difficultyBoundDivisor_def

lemma frontier_agrees:
  assumes "0 \<le> hDifficulty parent" "hDifficulty parent < 2 ^ 255" "0 \<le> hNumber parent" "hNumber parent < 24999999"
    "hTime parent \<le> time"
  shows "CalcDifficultyFrontierU256 time parent = calcDifficultyFrontier time parent"
proof -
  let ?d = "hDifficulty parent" and ?n = "hNumber parent + 1"
  let ?dir = "time - hTime parent < 13"
  have n: "big_Uint64 (hNumber parent) + 1 = big_Uint64 ?n" using assms(3) by (simp add: big_Uint64_def)
  have dir: "?dir \<longleftrightarrow> uint time - uint (hTime parent) < 13"
    using uint_elapsed [OF assms(5)] by (simp add: word_less_def)
  note adj = uint_adjust [OF assms(1,2), of 1, simplified]
  define x where "x = at_least_minimum_u256 (if ?dir then FromBig ?d + drop_bit 11 (FromBig ?d) else FromBig ?d - drop_bit 11 (FromBig ?d))"
  have x: "uint x = at_least_minimum (if ?dir then ?d + ?d div 2048 else ?d - ?d div 2048)"
    using adj by (simp add: x_def uint_at_least_minimum)
  then have "uint x < 2 ^ 255 + 2 ^ 251"
    unfolding x using adj(4,5) assms(1) by (intro at_least_minimum_bound) (auto split: if_splits)
  moreover have "CalcDifficultyFrontierU256 time parent
      = uint (if big_Uint64 ?n div 100000 > 1 then x + push_bit (unat (big_Uint64 ?n div 100000 - 2)) 1 else x)"
    unfolding CalcDifficultyFrontierU256_def Let_def x_def n by (simp only: u256_constants)
  ultimately have "CalcDifficultyFrontierU256 time parent = add_bomb (?n div 100000) (uint x)"
    using bomb_agrees [of ?n x] assms(3,4) by simp
  also have "\<dots> = calcDifficultyFrontier time parent"
  proof -
    have "BigMax (y + 2 ^ m) 131072 = y + 2 ^ m" if "131072 \<le> y" for y m
    proof -
      have "0 \<le> (2 :: int) ^ m" by simp
      then have "\<not> y + 2 ^ m < 131072" using that by linarith
      then show ?thesis by (simp add: BigMax_def)
    qed
    then show ?thesis using minimum_le(1) x dir by (simp add: calcDifficultyFrontier_def Let_def add_bomb_def)
  qed
  finally show ?thesis .
qed

lemma homestead_agrees:
  assumes "0 \<le> hDifficulty parent" "hDifficulty parent < 2 ^ 255" "0 \<le> hNumber parent" "hNumber parent < 24999999"
    "hTime parent \<le> time"
  shows "CalcDifficultyHomesteadU256 time parent = calcDifficultyHomestead time parent"
proof -
  let ?d = "hDifficulty parent" and ?n = "hNumber parent + 1" and ?e = "(time - hTime parent) div 10"
  have n: "1 + big_Uint64 (hNumber parent) = big_Uint64 ?n" using assms(3) by (simp add: big_Uint64_def)
  define z where "z = (if ?e = 0 then 1 else if ?e \<ge> 100 then 99 else ?e - 1)"
  define neg where "neg = (?e \<noteq> 0)"
  have zn: "(if ?e = 0 then (1, False) else if ?e \<ge> 100 then (99, True) else (?e - 1, True)) = (z, neg)"
    by (simp add: z_def neg_def)
  define e where "e = (uint time - uint (hTime parent)) div 10"
  have ue: "uint ?e = e" using uint_elapsed [OF assms(5)] by (simp add: e_def uint_div)
  have e0: "0 \<le> e" using ue uint_nonnegative [of ?e] by simp
  have cond: "?e = 0 \<longleftrightarrow> e = 0" "?e \<ge> 100 \<longleftrightarrow> 100 \<le> e" using ue by (auto simp: word_le_def word_uint_eq_iff)
  have "uint (?e - 1) = e - 1" if "e \<noteq> 0" using that ue e0 by (subst uint_small_sub) auto
  then have uz: "uint z = (if e = 0 then 1 else if 100 \<le> e then 99 else e - 1)" by (simp add: z_def cond)
  then have z99: "z \<le> 99" by (simp add: word_le_def)
  have step: "(if neg then - uint z else uint z) = (if 1 - e < - 99 then - 99 else 1 - e)"
    using uz e0 cond by (auto simp: neg_def)
  note adj = uint_adjust [OF assms(1,2) z99]
  define x where "x = at_least_minimum_u256 (if neg then FromBig ?d - drop_bit 11 (FromBig ?d) * ucast z
                                             else FromBig ?d + drop_bit 11 (FromBig ?d) * ucast z)"
  have x: "uint x = at_least_minimum (?d + ?d div 2048 * (if neg then - uint z else uint z))"
    using adj by (simp add: x_def uint_at_least_minimum)
  then have "uint x < 2 ^ 255 + 2 ^ 251"
    unfolding x using adj(1,4,5) uint_nonnegative [of "drop_bit 11 (FromBig ?d) * ucast z"]
    by (intro at_least_minimum_bound) auto
  moreover have "CalcDifficultyHomesteadU256 time parent
      = uint (if big_Uint64 ?n div 100000 > 1 then x + push_bit (unat (big_Uint64 ?n div 100000 - 2)) 1 else x)"
    unfolding CalcDifficultyHomesteadU256_def Let_def x_def n zn by (simp only: u256_constants prod.case)
  ultimately have "CalcDifficultyHomesteadU256 time parent = add_bomb (?n div 100000) (uint x)"
    using bomb_agrees [of ?n x] assms(3,4) by simp
  then show ?thesis using x step by (simp add: calcDifficultyHomestead_def Let_def e_def)
qed

lemma dynamic_agrees:
  assumes "0 \<le> hDifficulty parent" "hDifficulty parent < 2 ^ 255" "0 \<le> hNumber parent" "hNumber parent < 24999999"
    "hTime parent \<le> time" "1 \<le> bombDelay" "bombDelay < 2 ^ 64"
  shows "MakeDifficultyCalculatorU256 k bombDelay time parent = makeDifficultyCalculator k bombDelay time parent"
proof -
  let ?d = "hDifficulty parent" and ?e = "(time - hTime parent) div 9" and ?num = "big_Uint64 (hNumber parent)"
  define c where "c = (if UncleHash parent \<noteq> EmptyUncleHash k then 2 else 1 :: u64)"
  define z where "z = (let x = (if ?e \<ge> c then ?e - c else c - ?e) in if x > 99 then 99 else x)"
  define e where "e = (uint time - uint (hTime parent)) div 9"
  have ue: "uint ?e = e" using uint_elapsed [OF assms(5)] by (simp add: e_def uint_div)
  have e0: "0 \<le> e" using ue uint_nonnegative [of ?e] by simp
  have neg: "?e \<ge> c \<longleftrightarrow> e \<ge> uint c" using ue by (simp add: word_le_def)
  have "uint (?e - c) = e - uint c" if "e \<ge> uint c" using that ue by (subst uint_small_sub) auto
  moreover have "uint (c - ?e) = uint c - e" if "\<not> e \<ge> uint c" using that ue by (subst uint_small_sub) auto
  ultimately have uz: "uint z = min 99 \<bar>uint c - e\<bar>" by (auto simp: z_def Let_def neg word_less_def)
  then have z99: "z \<le> 99" by (simp add: word_le_def)
  have c: "uint c = (if UncleHash parent = EmptyUncleHash k then 1 else 2)" by (simp add: c_def)
  have step: "(if ?e \<ge> c then - uint z else uint z) = (if uint c - e < - 99 then - 99 else uint c - e)"
    using uz e0 neg c by (auto split: if_splits)
  note adj = uint_adjust [OF assms(1,2) z99]
  define x where "x = at_least_minimum_u256 (if ?e \<ge> c then FromBig ?d - drop_bit 11 (FromBig ?d) * ucast z
                                             else FromBig ?d + drop_bit 11 (FromBig ?d) * ucast z)"
  have x: "uint x = at_least_minimum (?d + ?d div 2048 * (if ?e \<ge> c then - uint z else uint z))"
    using adj by (simp add: x_def uint_at_least_minimum)
  then have bound: "uint x < 2 ^ 255 + 2 ^ 251"
    unfolding x using adj(1,4,5) uint_nonnegative [of "drop_bit 11 (FromBig ?d) * ucast z"]
    by (intro at_least_minimum_bound) auto
  let ?late = "hNumber parent \<ge> bombDelay - 1"
  define fake where "fake = (if ?late then hNumber parent - (bombDelay - 1) else 0)"
  have num: "uint ?num = hNumber parent" "uint (big_Uint64 bombDelay - 1) = bombDelay - 1"
    using assms by (simp_all add: uint_Uint64 uint_small_sub)
  then have late: "?num \<ge> big_Uint64 bombDelay - 1 \<longleftrightarrow> ?late" by (simp add: word_le_def)
  have ufake: "?num - (big_Uint64 bombDelay - 1) = big_Uint64 fake" if ?late
    using that num assms(3,4,6) by (simp add: word_uint_eq_iff uint_small_sub uint_Uint64 fake_def)
  have two: "v \<ge> 2 * 100000 \<longleftrightarrow> v div 100000 > 1" for v :: u64
    by (simp add: word_le_nat_alt word_less_nat_alt unat_div) linarith
  let ?f = "?num - (big_Uint64 bombDelay - 1)"
  have "MakeDifficultyCalculatorU256 k bombDelay time parent
      = uint (if ?num \<ge> big_Uint64 bombDelay - 1 \<and> ?f \<ge> 2 * 100000 then push_bit (unat (?f div 100000 - 2)) 1 + x else x)"
    unfolding MakeDifficultyCalculatorU256_def Let_def x_def z_def c_def u256_constants by (rule refl)
  also have "\<dots> = uint (if ?late \<and> big_Uint64 fake div 100000 > 1
      then x + push_bit (unat (big_Uint64 fake div 100000 - 2)) 1 else x)"
  proof (cases ?late)
    case True
    show ?thesis unfolding late two ufake [OF True] by (simp only: True simp_thms add.commute [of x])
  next
    case False
    then show ?thesis unfolding late by (simp only: simp_thms if_False)
  qed
  also have "\<dots> = uint (if big_Uint64 fake div 100000 > 1 then x + push_bit (unat (big_Uint64 fake div 100000 - 2)) 1 else x)"
  proof -
    have "big_Uint64 fake div 100000 \<le> 1" if "\<not> ?late" using that by (simp add: fake_def big_Uint64_def)
    then have "(?late \<and> big_Uint64 fake div 100000 > 1) = (big_Uint64 fake div 100000 > 1)" using not_less by blast
    then show ?thesis by (simp only:)
  qed
  also have "\<dots> = add_bomb (fake div 100000) (uint x)"
    using assms by (intro bomb_agrees bound) (auto simp: fake_def)
  also have "\<dots> = makeDifficultyCalculator k bombDelay time parent"
    using x step c by (simp add: makeDifficultyCalculator_def Let_def e_def fake_def)
  finally show ?thesis .
qed

text \<open>
  C17: The fast calculators on 256-bit words compute the difficulties of the consensus rules, which are
  stated on unbounded integers: for a parent of at most 255 bits of difficulty among the first 25
  million blocks and a block that is not older, nothing wraps around and no flag that was dropped
  mattered, whichever delay of the bomb.
\<close>

theorem difficulty_U256:
  assumes "0 \<le> hDifficulty parent" "hDifficulty parent < 2 ^ 255" "0 \<le> hNumber parent" "hNumber parent < 24999999"
    "hTime parent \<le> time" "1 \<le> bombDelay" "bombDelay < 2 ^ 64"
  shows "CalcDifficultyFrontierU256 time parent = calcDifficultyFrontier time parent \<and>
    CalcDifficultyHomesteadU256 time parent = calcDifficultyHomestead time parent \<and>
    MakeDifficultyCalculatorU256 k bombDelay time parent = makeDifficultyCalculator k bombDelay time parent"
  using frontier_agrees [OF assms(1-5)] homestead_agrees [OF assms(1-5)] dynamic_agrees [OF assms] by simp

text \<open>The child, 20 seconds later, of a parent with the least difficulty, at the delay of Byzantium.\<close>

theorem difficulty_U256_witness:
  "CalcDifficultyHomesteadU256 120 sample_header = 131072 \<and>
   MakeDifficultyCalculatorU256 sample_keccak 3000000 120 sample_header =
     makeDifficultyCalculator sample_keccak 3000000 120 sample_header"
proof -
  have "calcDifficultyHomestead 120 sample_header = 131072"
    by (simp add: calcDifficultyHomestead_def Let_def sample_header_def at_least_minimum_def add_bomb_def)
  then show ?thesis
    using difficulty_U256 [of sample_header 120 3000000 sample_keccak] by (simp add: sample_header_def)
qed

end
