(* ===== verification/Ethash.thy ===== *)
theory Ethash
  imports Difficulty
begin

text \<open>
  The proof-of-work engine (consensus/ethash/consensus.go): verifying a header against its parent, a
  batch of headers and the uncles of a block, preparing a header and paying the rewards. The chain is
  what the engine asks of it: its configuration, headers and blocks by hash and number. Computing the
  digest and the result of a nonce from the cache of an epoch (algorithm.go) is a parameter.
\<close>

section \<open>The engine\<close>

datatype Mode = ModeNormal | ModeShared | ModeTest | ModeFake | ModeFullFake

text \<open>
  Of an engine with a shared instance the record is that instance, as \<^verbatim>\<open>verifySeal\<close> only asks that one.
\<close>

record Ethash =
  PowMode :: Mode
  fakeFail :: u64
  hashimoto :: "u64 \<Rightarrow> hash \<Rightarrow> u64 \<Rightarrow> bytes \<times> bytes"

record Chain =
  ch_config :: ChainConfig
  GetHeader :: "hash \<Rightarrow> u64 \<Rightarrow> Header option"
  GetBlock :: "hash \<Rightarrow> u64 \<Rightarrow> Block option"

datatype ethash_error = ExtraTooLong | ErrFutureBlock | errOlderBlockTime | InvalidDifficulty | GasLimitTooHigh
  | GasUsedTooHigh | BaseFeeBeforeFork | MiscError misc_error | ErrInvalidNumber | errInvalidDifficulty
  | errInvalidMixDigest | errInvalidPoW | ErrUnknownAncestor | errTooManyUncles | errDuplicateUncle
  | errUncleIsAncestor | errDanglingUncle

definition allowedFutureBlockTimeSeconds :: u64 where [simp]: "allowedFutureBlockTimeSeconds = 15"

section \<open>The seal\<close>

definition SealHash :: "sigCrypto \<Rightarrow> Header \<Rightarrow> hash" where
  "SealHash k h =
     rlpHash_of k (if hDifficulty h < 0 \<or> hNumber h < 0 \<or> (\<exists>f \<in> set_option (hBaseFee h). f < 0) then None
                   else Some (RList (header_fields h @ base_fee_item h)))"

definition verifySeal :: "sigCrypto \<Rightarrow> Ethash \<Rightarrow> Header \<Rightarrow> ethash_error option" where
  "verifySeal k e header =
     (let number = big_Uint64 (hNumber header) in
      if PowMode e = ModeFake \<or> PowMode e = ModeFullFake then
        (if fakeFail e = number then Some errInvalidPoW else None)
      else if hDifficulty header \<le> 0 then Some errInvalidDifficulty
      else
        let (digest, result) = hashimoto e number (SealHash k header) (hNonce header) in
        if hash_bytes (MixDigest header) \<noteq> digest then Some errInvalidMixDigest
        else if int (big_of result) > 2 ^ 256 div hDifficulty header then Some errInvalidPoW
        else None)"

section \<open>Verifying a header\<close>

text \<open>The rules on the gas limit and the base fee, by the fork of the header.\<close>

definition verify_fees :: "ChainConfig \<Rightarrow> Header \<Rightarrow> Header \<Rightarrow> ethash_error option res" where
  "verify_fees config header parent =
     (if \<not> IsLondon config (hNumber header) then
        Ok (if hBaseFee header \<noteq> None then Some BaseFeeBeforeFork
            else map_option MiscError (VerifyGaslimit (hGasLimit parent) (hGasLimit header)))
      else rbind (VerifyEip1559Header config parent header) (\<lambda>err. Ok (map_option MiscError err)))"

definition verifyHeader ::
  "sigCrypto \<Rightarrow> Ethash \<Rightarrow> ChainConfig \<Rightarrow> Header \<Rightarrow> Header \<Rightarrow> bool \<Rightarrow> bool \<Rightarrow> u64 \<Rightarrow> ethash_error option res" where
  "verifyHeader k e config header parent uncle seal unixNow =
     (if (of_nat (length (Extra header)) :: u64) > MaximumExtraDataSize then Ok (Some ExtraTooLong)
      else if \<not> uncle \<and> hTime header > unixNow + allowedFutureBlockTimeSeconds then Ok (Some ErrFutureBlock)
      else if hTime header \<le> hTime parent then Ok (Some errOlderBlockTime)
      else if CalcDifficulty k config (hTime header) parent \<noteq> hDifficulty header then Ok (Some InvalidDifficulty)
      else if hGasLimit header > MaxGasLimit then Ok (Some GasLimitTooHigh)
      else if hGasUsed header > hGasLimit header then Ok (Some GasUsedTooHigh)
      else
        rbind (verify_fees config header parent) (\<lambda>err.
        if err \<noteq> None then Ok err
        else if hNumber header - hNumber parent \<noteq> 1 then Ok (Some ErrInvalidNumber)
        else
          let err = (if seal then verifySeal k e header else None) in
          if err \<noteq> None then Ok err
          else case VerifyDAOHeaderExtraData config header of
                 Some err \<Rightarrow> Ok (Some (MiscError err))
               | None \<Rightarrow> Ok (map_option MiscError (VerifyForkHashes k config header uncle))))"

definition VerifyHeader :: "sigCrypto \<Rightarrow> Ethash \<Rightarrow> Chain \<Rightarrow> u64 \<Rightarrow> Header \<Rightarrow> bool \<Rightarrow> ethash_error option res" where
  "VerifyHeader k e chain unixNow header seal =
     (if PowMode e = ModeFullFake then Ok None
      else
        let number = big_Uint64 (hNumber header) in
        if GetHeader chain (Header_Hash k header) number \<noteq> None then Ok None
        else case GetHeader chain (ParentHash header) (number - 1) of
               None \<Rightarrow> Ok (Some ErrUnknownAncestor)
             | Some parent \<Rightarrow> verifyHeader k e (ch_config chain) header parent False seal unixNow)"

text \<open>One header of a batch: its parent is the one before it, if the hashes match.\<close>

definition batch_parent :: "sigCrypto \<Rightarrow> Chain \<Rightarrow> Header list \<Rightarrow> nat \<Rightarrow> Header option" where
  "batch_parent k chain headers index =
     (if index = 0 then GetHeader chain (ParentHash (headers ! 0)) (big_Uint64 (hNumber (headers ! 0)) - 1)
      else if Header_Hash k (headers ! (index - 1)) = ParentHash (headers ! index) then Some (headers ! (index - 1))
      else None)"

definition verifyHeaderWorker ::
  "sigCrypto \<Rightarrow> Ethash \<Rightarrow> Chain \<Rightarrow> Header list \<Rightarrow> bool list \<Rightarrow> u64 \<Rightarrow> nat \<Rightarrow> ethash_error option res" where
  "verifyHeaderWorker k e chain headers seals unixNow index =
     (case batch_parent k chain headers index of
        None \<Rightarrow> Ok (Some ErrUnknownAncestor)
      | Some parent \<Rightarrow> verifyHeader k e (ch_config chain) (headers ! index) parent False (seals ! index) unixNow)"

section \<open>Verifying uncles\<close>

definition maxUncles :: nat where [simp]: "maxUncles = 2"

text \<open>
  The ancestors of a block up to the seventh, by the hash under which each was asked for, and the hashes
  of their uncles.
\<close>

fun gather :: "sigCrypto \<Rightarrow> Chain \<Rightarrow> nat \<Rightarrow> hash \<Rightarrow> u64 \<Rightarrow> (hash \<times> Header) list \<Rightarrow> hash list \<Rightarrow> (hash \<times> Header) list \<times> hash list" where
  "gather k chain 0 parent number ancestors uncles = (ancestors, uncles)"
| "gather k chain (Suc n) parent number ancestors uncles =
     (case GetHeader chain parent number of
        None \<Rightarrow> (ancestors, uncles)
      | Some h \<Rightarrow>
          let ancestors = (parent, h) # ancestors in
          if UncleHash h \<noteq> EmptyUncleHash k then
            (case GetBlock chain parent number of
               None \<Rightarrow> (ancestors, uncles)
             | Some b \<Rightarrow> gather k chain n (ParentHash h) (number - 1) ancestors (map (Header_Hash k) (bUncles b) @ uncles))
          else gather k chain n (ParentHash h) (number - 1) ancestors uncles)"

fun check_uncles ::
  "sigCrypto \<Rightarrow> Ethash \<Rightarrow> Chain \<Rightarrow> u64 \<Rightarrow> Block \<Rightarrow> (hash \<times> Header) list \<Rightarrow> hash list \<Rightarrow> Header list \<Rightarrow> ethash_error option res" where
  "check_uncles k e chain unixNow block ancestors uncles [] = Ok None"
| "check_uncles k e chain unixNow block ancestors uncles (uncle # rest) =
     (let hash = Header_Hash k uncle in
      if hash \<in> set uncles then Ok (Some errDuplicateUncle)
      else if map_of ancestors hash \<noteq> None then Ok (Some errUncleIsAncestor)
      else case map_of ancestors (ParentHash uncle) of
             None \<Rightarrow> Ok (Some errDanglingUncle)
           | Some parent \<Rightarrow>
               if ParentHash uncle = ParentHash (bHeader block) then Ok (Some errDanglingUncle)
               else rbind (verifyHeader k e (ch_config chain) uncle parent True True unixNow) (\<lambda>err.
                      if err \<noteq> None then Ok err
                      else check_uncles k e chain unixNow block ancestors (hash # uncles) rest))"

definition VerifyUncles :: "sigCrypto \<Rightarrow> Ethash \<Rightarrow> Chain \<Rightarrow> u64 \<Rightarrow> Block \<Rightarrow> ethash_error option res" where
  "VerifyUncles k e chain unixNow block =
     (if PowMode e = ModeFullFake then Ok None
      else if length (bUncles block) > maxUncles then Ok (Some errTooManyUncles)
      else if length (bUncles block) = 0 then Ok None
      else
        let (ancestors, uncles) = gather k chain 7 (ParentHash (bHeader block)) (NumberU64 block - 1) [] [];
            ancestors = (Block_Hash k block, bHeader block) # ancestors;
            uncles = Block_Hash k block # uncles
        in check_uncles k e chain unixNow block ancestors uncles (bUncles block))"

section \<open>Preparing and rewarding\<close>

text \<open>\<open>None\<close> is the error of an unknown ancestor.\<close>

definition ethash_Prepare :: "sigCrypto \<Rightarrow> Chain \<Rightarrow> Header \<Rightarrow> Header option" where
  "ethash_Prepare k chain header =
     map_option (\<lambda>parent. header\<lparr>hDifficulty := CalcDifficulty k (ch_config chain) (hTime header) parent\<rparr>)
       (GetHeader chain (ParentHash header) (big_Uint64 (hNumber header) - 1))"

definition Author :: "Header \<Rightarrow> address" where
  "Author header = hCoinbase header"

definition FrontierBlockReward :: int where [simp]: "FrontierBlockReward = 5000000000000000000"
definition ByzantiumBlockReward :: int where [simp]: "ByzantiumBlockReward = 3000000000000000000"
definition ConstantinopleBlockReward :: int where [simp]: "ConstantinopleBlockReward = 2000000000000000000"

definition block_reward :: "ChainConfig \<Rightarrow> Header \<Rightarrow> int" where
  "block_reward config header =
     (let r = FrontierBlockReward;
          r = (if IsByzantium config (hNumber header) then ByzantiumBlockReward else r)
      in if IsConstantinople config (hNumber header) then ConstantinopleBlockReward else r)"

definition uncle_reward :: "int \<Rightarrow> Header \<Rightarrow> Header \<Rightarrow> int" where
  "uncle_reward blockReward header uncle = (hNumber uncle + 8 - hNumber header) * blockReward div 8"

definition accumulateRewards :: "ChainConfig \<Rightarrow> Header \<Rightarrow> Header list \<Rightarrow> StateDB \<Rightarrow> StateDB" where
  "accumulateRewards config header uncles s =
     (let blockReward = block_reward config header;
          (s, reward) = fold (\<lambda>uncle (s, reward).
              (AddBalance (hCoinbase uncle) (uncle_reward blockReward header uncle) s, reward + blockReward div 32))
            uncles (s, blockReward)
      in AddBalance (hCoinbase header) reward s)"

section \<open>Chains of accepted headers\<close>

text \<open>
  What an accepted header guarantees about itself and its parent, and when a header is fit to be a
  parent: since London it has a base fee that is not negative.
\<close>

definition sound_parent :: "ChainConfig \<Rightarrow> Header \<Rightarrow> bool" where
  "sound_parent config p \<longleftrightarrow> IsLondon config (hNumber p) \<longrightarrow> (\<exists>b. hBaseFee p = Some b \<and> 0 \<le> b)"

definition follows :: "sigCrypto \<Rightarrow> ChainConfig \<Rightarrow> Header \<Rightarrow> Header \<Rightarrow> bool" where
  "follows k config p h \<longleftrightarrow>
     hNumber h = hNumber p + 1 \<and> hTime p < hTime h \<and> hGasUsed h \<le> hGasLimit h \<and> 5000 \<le> hGasLimit h \<and>
     hGasLimit h \<le> 0x7fffffffffffffff \<and> 131072 \<le> hDifficulty h \<and>
     hDifficulty h = CalcDifficulty k config (hTime h) p \<and>
     (if IsLondon config (hNumber h) then \<exists>f. hBaseFee h = Some f \<and> CalcBaseFee config p = Ok f else hBaseFee h = None)"

lemma CalcBaseFee_nonneg:
  assumes "sound_parent config p" "CalcBaseFee config p = Ok f"
  shows "0 \<le> f"
proof (cases "IsLondon config (hNumber p)")
  case False
  then show ?thesis using assms(2) by (auto simp: CalcBaseFee_def)
next
  case True
  then obtain b where b: "hBaseFee p = Some b" "0 \<le> b" using assms(1) by (auto simp: sound_parent_def)
  have "0 \<le> d" if "base_fee_delta x b y = Ok d" for x y d
    using that b(2) uint_nonnegative [of x] uint_nonnegative [of y]
    by (auto simp: base_fee_delta_def BigDiv_def pos_imp_zdiv_nonneg_iff order_less_le split: if_splits)
  then show ?thesis using assms(2) b True by (auto simp: CalcBaseFee_def Let_def BigMax_def split: if_splits)
qed

lemma gaslimit_minimum: "VerifyGaslimit p h = None \<Longrightarrow> 5000 \<le> h"
  by (simp add: VerifyGaslimit_def Let_def not_less split: if_splits)

lemma accepted_follows:
  assumes "verifyHeader k e config h p uncle seal now = Ok None"
  shows "follows k config p h"
proof -
  note fees = verify_fees_def VerifyEip1559Header_def
  have v: "verify_fees config h p = Ok None" "\<not> hTime h \<le> hTime p" "CalcDifficulty k config (hTime h) p = hDifficulty h"
    "\<not> hGasLimit h > MaxGasLimit" "\<not> hGasUsed h > hGasLimit h" "hNumber h - hNumber p = 1"
    using assms unfolding verifyHeader_def by (auto split: if_splits)
  have "5000 \<le> hGasLimit h \<and> (if IsLondon config (hNumber h) then \<exists>f. hBaseFee h = Some f \<and> CalcBaseFee config p = Ok f else hBaseFee h = None)"
    using v(1) gaslimit_minimum unfolding fees Let_def by (auto split: if_splits option.splits)
  then show ?thesis using v minimum_difficulty [of k config "hTime h" p]
    unfolding follows_def by (auto simp: not_le not_less)
qed

lemma follows_sound: "sound_parent config p \<Longrightarrow> follows k config p h \<Longrightarrow> sound_parent config h"
  using CalcBaseFee_nonneg [of config p] by (cases "IsLondon config (hNumber h)") (auto simp: follows_def sound_parent_def [of _ h])

text \<open>
  Verifying a header panics only on a parent without base fee: its gas target is not zero, because a
  gas limit below 1024 has no successor.
\<close>

lemma gaslimit_parent: "VerifyGaslimit p h = None \<Longrightarrow> 1024 \<le> p"
  by (auto simp: VerifyGaslimit_def Let_def not_le word_le_nat_alt word_less_nat_alt unat_div split: if_splits)

lemma CalcBaseFee_Ok:
  assumes "sound_parent config p" "VerifyGaslimit (hGasLimit p) x = None"
  shows "\<exists>f. CalcBaseFee config p = Ok f"
proof (cases "IsLondon config (hNumber p)")
  case True
  then obtain b where b: "hBaseFee p = Some b" using assms(1) by (auto simp: sound_parent_def)
  have "0 < uint (hGasLimit p div 2)"
    using gaslimit_parent [OF assms(2)] by (simp add: word_le_def uint_div)
  then have "base_fee_delta d b (hGasLimit p div 2) = Ok (uint d * b div uint (hGasLimit p div 2) div 8)" for d
    by (simp add: base_fee_delta_def BigDiv_def)
  then show ?thesis using b True by (simp add: CalcBaseFee_def Let_def)
qed (simp add: CalcBaseFee_def)

lemma verifyHeader_total:
  assumes "sound_parent config p"
  shows "\<exists>r. verifyHeader k e config h p uncle seal now = Ok r"
proof -
  have "\<exists>r. VerifyEip1559Header config p h = Ok r"
  proof (cases "IsLondon config (hNumber p)")
    case True
    show ?thesis
      using CalcBaseFee_Ok [OF assms, of "hGasLimit h"] True
      by (fastforce simp: VerifyEip1559Header_def split: option.split)
  next
    case False
    then show ?thesis by (auto simp: VerifyEip1559Header_def CalcBaseFee_def split: option.split)
  qed
  then obtain r where "verify_fees config h p = Ok r"
    by (cases "IsLondon config (hNumber h)") (auto simp: verify_fees_def)
  then show ?thesis by (auto simp: verifyHeader_def Let_def split: option.split)
qed

text \<open>
  C14: A batch of headers that all pass is a chain on top of the header it starts from: the numbers are
  consecutive, the times increase, each hash is the parent hash of the next, every header keeps the gas
  and difficulty rules, and every header is fit to be a parent, so that verifying never panics on an
  accepted chain.
\<close>

theorem verified_batch_is_chain:
  assumes "batch_parent k chain hs 0 = Some p" "sound_parent (ch_config chain) p"
    "\<forall>i < length hs. verifyHeaderWorker k e chain hs seals now i = Ok None"
  shows "\<forall>i < length hs. follows k (ch_config chain) ((p # hs) ! i) (hs ! i) \<and> sound_parent (ch_config chain) (hs ! i) \<and>
    hNumber (hs ! i) = hNumber p + int i + 1 \<and> hTime p < hTime (hs ! i) \<and>
    (0 < i \<longrightarrow> ParentHash (hs ! i) = Header_Hash k (hs ! (i - 1)))"
proof -
  let ?P = "\<lambda>i. follows k (ch_config chain) ((p # hs) ! i) (hs ! i) \<and> sound_parent (ch_config chain) (hs ! i) \<and>
    hNumber (hs ! i) = hNumber p + int i + 1 \<and> hTime p < hTime (hs ! i) \<and>
    (0 < i \<longrightarrow> ParentHash (hs ! i) = Header_Hash k (hs ! (i - 1)))"
  have "?P i" if "i < length hs" for i
    using that
  proof (induction i)
    case 0
    then have "follows k (ch_config chain) p (hs ! 0)"
      using assms(1,3) accepted_follows by (fastforce simp: verifyHeaderWorker_def)
    then show ?case using follows_sound [OF assms(2)] by (simp add: follows_def)
  next
    case (Suc i)
    have w: "verifyHeaderWorker k e chain hs seals now (Suc i) = Ok None" using assms(3) Suc.prems by blast
    have hash: "Header_Hash k (hs ! i) = ParentHash (hs ! Suc i)"
      using w by (auto simp: verifyHeaderWorker_def batch_parent_def split: if_splits)
    then have f: "follows k (ch_config chain) (hs ! i) (hs ! Suc i)"
      using w accepted_follows by (fastforce simp: verifyHeaderWorker_def batch_parent_def)
    then show ?case using Suc follows_sound hash by (auto simp: follows_def intro: less_trans)
  qed
  then show ?thesis by blast
qed

text \<open>The child of the sample header 20 seconds later, without a seal.\<close>

definition sample_child :: Header where
  "sample_child = sample_header\<lparr>hNumber := 10, hTime := 120, hGasUsed := 0, hBaseFee := Some 900,
     hDifficulty := CalcDifficulty sample_keccak sample_config 120 sample_header\<rparr>"

definition sample_chain :: Chain where
  "sample_chain = \<lparr>ch_config = sample_config, GetHeader = (\<lambda>_ _. Some sample_header), GetBlock = (\<lambda>_ _. None)\<rparr>"

definition sample_engine :: Ethash where
  "sample_engine = \<lparr>PowMode = ModeNormal, fakeFail = 0, hashimoto = (\<lambda>_ _ _. ([], []))\<rparr>"

lemma sample_forks: "IsLondon sample_config 9" "IsLondon sample_config 10" "DAOForkBlock sample_config = None"
  "EIP150Block sample_config = Some 0"
  by (simp_all add: IsLondon_def isForked_def sample_config_def)

lemma sample_child_verified:
  "verifyHeader sample_keccak sample_engine sample_config sample_child sample_header False False 1000 = Ok None"
proof -
  have base: "CalcBaseFee sample_config sample_header = Ok 900"
    by (simp add: CalcBaseFee_def Let_def sample_header_def sample_forks base_fee_delta_def BigDiv_def BigMax_def)
  have limit: "VerifyGaslimit (hGasLimit sample_header) (hGasLimit sample_child) = None"
    by (simp add: VerifyGaslimit_def Let_def sample_header_def sample_child_def)
  show ?thesis
    using base limit
    by (simp add: verifyHeader_def verify_fees_def VerifyEip1559Header_def VerifyDAOHeaderExtraData_def VerifyForkHashes_def
        sample_forks sample_child_def sample_header_def Let_def)
qed

theorem verified_batch_is_chain_witness:
  "follows sample_keccak sample_config sample_header sample_child \<and> sound_parent sample_config sample_child"
proof -
  have p: "batch_parent sample_keccak sample_chain [sample_child] 0 = Some sample_header"
    by (simp add: batch_parent_def sample_chain_def)
  have s: "sound_parent (ch_config sample_chain) sample_header"
    by (simp add: sound_parent_def sample_chain_def sample_header_def)
  have v: "\<forall>i < length [sample_child]. verifyHeaderWorker sample_keccak sample_engine sample_chain [sample_child] [False] 1000 i = Ok None"
    using p sample_child_verified by (simp add: verifyHeaderWorker_def) (simp add: sample_chain_def)
  have c: "ch_config sample_chain = sample_config" by (simp add: sample_chain_def)
  show ?thesis using verified_batch_is_chain [OF p s v] unfolding c by simp
qed

section \<open>A header that breaks the verification of the next\<close>

text \<open>
  C16: The workers of a batch do not wait for the verdict on the header before. If that one has a number
  since London but no base fee, which the check of its own refuses, a next header exists with which the
  verification does not return an error but panics.
\<close>

theorem batch_panics:
  assumes "IsLondon (ch_config chain) (hNumber bad)" "hBaseFee bad = None" "5000 \<le> hGasLimit bad"
    "hGasLimit bad \<le> 0x7fffffffffffffff" "hTime bad < now" "now < 2 ^ 63"
  shows "\<exists>succ_h. verifyHeaderWorker k e chain [bad, succ_h] seals now 1 = Panic"
proof
  let ?c = "ch_config chain"
  define succ_h where "succ_h = bad\<lparr>ParentHash := Header_Hash k bad, hNumber := hNumber bad + 1, hTime := hTime bad + 1,
    hDifficulty := CalcDifficulty k ?c (hTime bad + 1) bad, hGasUsed := 0, Extra := [], hBaseFee := Some 0\<rparr>"
  have parent: "batch_parent k chain [bad, succ_h] 1 = Some bad"
    by (simp add: batch_parent_def succ_h_def)
  have "unat (hTime bad) + 1 < 2 ^ 64" "unat now + 15 < 2 ^ 64" using assms(5,6) by (auto simp: word_less_nat_alt)
  then have time: "unat (hTime bad + 1) = unat (hTime bad) + 1" "unat (now + 15) = unat now + 15"
    by (simp_all add: unat_word_ariths)
  have london: "IsLondon ?c (hNumber bad + 1)"
    using assms(1) by (auto simp: IsLondon_def isForked_def split: option.splits)
  have limit: "VerifyGaslimit (hGasLimit bad) (hGasLimit bad) = None"
    using assms(3) by (auto simp: VerifyGaslimit_def Let_def word_le_nat_alt word_less_nat_alt unat_div)
  have "CalcBaseFee ?c bad = Panic" using assms(1,2) by (simp add: CalcBaseFee_def Let_def)
  then have "verify_fees ?c succ_h bad = Panic"
    using london limit assms(1) by (simp add: verify_fees_def VerifyEip1559Header_def succ_h_def)
  moreover have "\<not> hTime succ_h > now + 15" "\<not> hTime succ_h \<le> hTime bad"
    using time assms(5) by (simp_all add: succ_h_def word_less_nat_alt word_le_nat_alt not_le not_less)
  ultimately have "verifyHeader k e ?c succ_h bad False (seals ! 1) now = Panic"
    using assms(4) by (simp add: verifyHeader_def) (simp add: succ_h_def not_less)
  then show "verifyHeaderWorker k e chain [bad, succ_h] seals now 1 = Panic"
    unfolding verifyHeaderWorker_def parent by simp
qed

theorem batch_panics_witness:
  "\<exists>succ_h. verifyHeaderWorker sample_keccak sample_engine sample_chain
     [sample_header\<lparr>hBaseFee := None\<rparr>, succ_h] [False, False] 1000 1 = Panic"
  by (rule batch_panics) (simp_all add: sample_chain_def sample_header_def sample_forks)

end
