(* ===== verification/BlockGas.thy ===== *)
theory BlockGas
  imports Processor
begin

text \<open>
  What processing a block guarantees: the gas of its receipts, the agreement of the receipts with those
  that are derived again from the database, and the block hashes the machine sees.
\<close>

section \<open>One transaction\<close>

lemma Reset_fields [simp]:
  "wired (Reset tc s evm) = wired evm" "readOnly (Reset tc s evm) = readOnly evm" "TxCtx (Reset tc s evm) = tc"
  "wired (evm\<lparr>logger := l\<rparr>) = wired evm"
  by (simp_all add: Reset_def wired_def)

lemma make_receipt_fields:
  assumes "make_receipt P m blockNumber blockHash tx root result used origin s = (r, s')"
  shows "rType r = txType tx" "CumulativeGasUsed r = used" "rTxHash r = Tx_Hash (pHashes P) tx" "GasUsed r = UsedGas result"
    "ContractAddress r = (if mTo m = None then crypto_CreateAddress (keccak (pHashes P)) origin (tx_nonce tx) else 0)"
    "rBlockHash r = blockHash" "rBlockNumber r = Some blockNumber" "rBloom r = CreateBloom (keccak (pHashes P)) [r]"
  using assms by (auto simp: make_receipt_def Let_def CreateBloom_def split: prod.splits)

lemma applyTransaction_done:
  assumes "wired (ps_evm ps)" "\<not> readOnly (ps_evm ps)"
    "applyTransaction n P m blockNumber blockHash tx ps = Ok (Inr r, ps')"
  shows "unat (ps_gp ps') + unat (GasUsed r) = unat (ps_gp ps)" "ps_used ps' = ps_used ps + GasUsed r"
    "CumulativeGasUsed r = ps_used ps'" "wired (ps_evm ps')" "\<not> readOnly (ps_evm ps')"
    "rType r = txType tx" "rTxHash r = Tx_Hash (pHashes P) tx"
    "ContractAddress r = (if mTo m = None then crypto_CreateAddress (keccak (pHashes P)) (mFrom m) (tx_nonce tx) else 0)"
    "rBlockHash r = blockHash" "rBlockNumber r = Some blockNumber" "rBloom r = CreateBloom (keccak (pHashes P)) [r]"
proof -
  let ?evm = "(Reset (NewEVMTxContext m) (sdb (ps_evm ps)) (ps_evm ps))
    \<lparr>logger := InitTrace (logger (Reset (NewEVMTxContext m) (sdb (ps_evm ps)) (ps_evm ps)))\<rparr>"
  have w: "wired ?evm" "\<not> readOnly ?evm" using assms(1,2) by simp_all
  from assms(3) obtain x st where a0: "ApplyMessage n ?evm m (ps_gp ps) = Ok (x, st)"
    by (auto simp: applyTransaction_def Let_def)
  then obtain result where a: "ApplyMessage n ?evm m (ps_gp ps) = Ok (Inr result, st)"
    using assms(3) by (cases x) (auto simp: applyTransaction_def Let_def)
  note settled = message_settled [OF w a]
  have vm: "Origin (TxCtx (evm_of st)) = mFrom m" "wired (evm_of st)" "\<not> readOnly (evm_of st)"
    using settled(3) w wired_same [OF settled(3)] same_vm_readOnly [OF settled(3)]
    by (simp_all add: same_vm_def NewEVMTxContext_def)
  obtain root s where s: "settle_state P blockNumber (sdb (evm_of st)) = (root, s)" by fastforce
  obtain r0 s' where r: "make_receipt P m blockNumber blockHash tx root result (ps_used ps + UsedGas result) (mFrom m) s = (r0, s')"
    by fastforce
  have e: "r0 = r" "ps_gp ps' = gp st" "ps_used ps' = ps_used ps + UsedGas result" "ps_evm ps' = (evm_of st)\<lparr>sdb := s'\<rparr>"
    using assms(3) by (auto simp: applyTransaction_def Let_def a s r vm(1))
  note f = make_receipt_fields [OF r [unfolded e(1)]]
  show "unat (ps_gp ps') + unat (GasUsed r) = unat (ps_gp ps)" "ps_used ps' = ps_used ps + GasUsed r"
    "CumulativeGasUsed r = ps_used ps'" "wired (ps_evm ps')" "\<not> readOnly (ps_evm ps')"
    using settled(2) f(2,4) e vm by simp_all
  show "rType r = txType tx" "rTxHash r = Tx_Hash (pHashes P) tx"
    "ContractAddress r = (if mTo m = None then crypto_CreateAddress (keccak (pHashes P)) (mFrom m) (tx_nonce tx) else 0)"
    "rBlockHash r = blockHash" "rBlockNumber r = Some blockNumber" "rBloom r = CreateBloom (keccak (pHashes P)) [r]"
    using f by simp_all
qed

section \<open>All transactions of a block\<close>

lemma AsMessage_fields:
  assumes "AsMessage k sg b tx = Inr m"
  shows "Sender k sg tx = Inr (mFrom m)" "mTo m = tx_to tx"
  using assms by (auto simp: AsMessage_def Let_def split: sum.splits)

text \<open>The loop, one transaction at a time.\<close>

lemma process_txs_step:
  assumes "process_txs n P header blockHash i (tx # txs) ps = Ok (Inr rs, ps')" "wired (ps_evm ps)" "\<not> readOnly (ps_evm ps)"
  obtains m ps1 ps2 r rs2 where
    "AsMessage (pHashes P) (MakeSigner (pConfig P) (hNumber header)) (hBaseFee header) tx = Inr m"
    "ps_gp ps1 = ps_gp ps" "ps_used ps1 = ps_used ps" "wired (ps_evm ps1)" "\<not> readOnly (ps_evm ps1)"
    "applyTransaction n P m (hNumber header) blockHash tx ps1 = Ok (Inr r, ps2)"
    "process_txs n P header blockHash (i + 1) txs ps2 = Ok (Inr rs2, ps')" "rs = r # rs2"
proof -
  let ?ps = "ps\<lparr>ps_evm := (ps_evm ps)\<lparr>sdb := Prepare (Tx_Hash (pHashes P) tx) i (sdb (ps_evm ps))\<rparr>\<rparr>"
  obtain m where m: "AsMessage (pHashes P) (MakeSigner (pConfig P) (hNumber header)) (hBaseFee header) tx = Inr m"
    using assms(1) by (cases "AsMessage (pHashes P) (MakeSigner (pConfig P) (hNumber header)) (hBaseFee header) tx") auto
  from assms(1) obtain x ps2 where x: "applyTransaction n P m (hNumber header) blockHash tx ?ps = Ok (x, ps2)"
    by (auto simp: m Let_def)
  then obtain r where r: "applyTransaction n P m (hNumber header) blockHash tx ?ps = Ok (Inr r, ps2)"
    using assms(1) by (cases x) (auto simp: m Let_def)
  from assms(1) obtain y ps3 where y: "process_txs n P header blockHash (i + 1) txs ps2 = Ok (y, ps3)"
    by (auto simp: m r Let_def)
  then obtain rs2 where rs2: "process_txs n P header blockHash (i + 1) txs ps2 = Ok (Inr rs2, ps')" "rs = r # rs2"
    using assms(1) by (cases y) (auto simp: m r Let_def)
  show ?thesis by (rule that [OF m _ _ _ _ r rs2]) (use assms(2,3) in simp_all)
qed

text \<open>The gas used by a list of receipts.\<close>

definition gas_sum :: "Receipt list \<Rightarrow> nat" where
  "gas_sum rs = sum_list (map (\<lambda>r. unat (GasUsed r)) rs)"

lemma process_txs_gas:
  assumes "process_txs n P header blockHash i txs ps = Ok (Inr rs, ps')" "wired (ps_evm ps)" "\<not> readOnly (ps_evm ps)"
    "unat (ps_gp ps) + unat (ps_used ps) \<le> G" "G < 2 ^ 64"
  shows "length rs = length txs \<and> unat (ps_used ps') = unat (ps_used ps) + gas_sum rs \<and>
    unat (ps_gp ps') + gas_sum rs = unat (ps_gp ps) \<and>
    (\<forall>j < length rs. unat (CumulativeGasUsed (rs ! j)) = unat (ps_used ps) + gas_sum (take (Suc j) rs) \<and>
       rBloom (rs ! j) = CreateBloom (keccak (pHashes P)) [rs ! j] \<and>
       rTxHash (rs ! j) = Tx_Hash (pHashes P) (txs ! j))"
  using assms
proof (induction txs arbitrary: i ps rs)
  case Nil
  then show ?case by (simp add: gas_sum_def)
next
  case (Cons tx txs)
  obtain m ps1 ps2 r rs2 where s: "ps_gp ps1 = ps_gp ps" "ps_used ps1 = ps_used ps"
    "wired (ps_evm ps1)" "\<not> readOnly (ps_evm ps1)"
    "applyTransaction n P m (hNumber header) blockHash tx ps1 = Ok (Inr r, ps2)"
    "process_txs n P header blockHash (i + 1) txs ps2 = Ok (Inr rs2, ps')" "rs = r # rs2"
    by (rule process_txs_step [OF Cons.prems(1-3)])
  note d = applyTransaction_done [OF s(3-5)]
  have "unat (ps_used ps + GasUsed r) = unat (ps_used ps) + unat (GasUsed r)"
    using d(1) s(1) Cons.prems(4,5) by (simp add: unat_add_lem [symmetric])
  then have u: "unat (ps_used ps2) = unat (ps_used ps) + unat (GasUsed r)" using d(2) s(2) by simp
  then have "unat (ps_gp ps2) + unat (ps_used ps2) \<le> G" using d(1) s(1) Cons.prems(4) by simp
  note IH = Cons.IH [OF s(6) d(4,5) this Cons.prems(5)]
  have "unat (CumulativeGasUsed (rs ! j)) = unat (ps_used ps) + gas_sum (take (Suc j) rs) \<and>
       rBloom (rs ! j) = CreateBloom (keccak (pHashes P)) [rs ! j] \<and>
       rTxHash (rs ! j) = Tx_Hash (pHashes P) ((tx # txs) ! j)" if "j < length rs" for j
  proof (cases j)
    case 0
    then show ?thesis using d(3,7,11) u by (simp add: s(7) gas_sum_def)
  next
    case (Suc l)
    then show ?thesis using IH that u by (simp add: s(7) gas_sum_def)
  qed
  moreover have "gas_sum rs = unat (GasUsed r) + gas_sum rs2" by (simp add: s(7) gas_sum_def)
  ultimately show ?case using IH d(1) u s(1,7) by simp
qed

text \<open>The machine a block starts with.\<close>

lemma Process_start:
  assumes "CheckConfigForkOrder (pConfig P) = None"
    "hDifficulty (bHeader block) = 0 \<or> ExtraEips cfg \<noteq> [] \<longrightarrow> IsEIP150 (pConfig P) (hNumber (bHeader block))"
    "Process n P block cfg l s = Ok (Inr (rs, ls, used), ps)"
  obtains evm ps' where "wired evm" "\<not> readOnly evm" "ls = concat (map rLogs rs)" "used = ps_used ps'"
    "ps_gp ps = ps_gp ps'"
    "process_txs n P (bHeader block) (Block_Hash (pHashes P) block) 0 (bTransactions block)
       \<lparr>ps_gp = hGasLimit (bHeader block), ps_used = 0, ps_evm = evm, ps_written = []\<rparr> = Ok (Inr rs, ps')"
proof -
  let ?h = "bHeader block" and ?c = "pConfig P"
  let ?s = "if DAOForkSupport ?c \<and> DAOForkBlock ?c = Some (hNumber ?h) then ApplyDAOHardFork s else s"
  let ?ctx = "NewEVMBlockContext P ?h None"
  have "Random ?ctx \<noteq> None \<or> ExtraEips cfg \<noteq> [] \<longrightarrow> IsEIP150 ?c (BlockNumber ?ctx)"
    using assms(2) by (simp add: NewEVMBlockContext_def)
  from NewEVM_wired [OF assms(1) this]
  obtain evm where evm: "NewEVM ?ctx \<lparr>Origin = 0, GasPrice = 0\<rparr> ?s ?c cfg (pPrecompiles P) l = Ok evm" "wired evm" by metis
  have ro: "\<not> readOnly evm" using evm(1) by (auto simp: NewEVM_def Let_def split_beta)
  have g: "GasPool_AddGas (hGasLimit ?h) 0 = Ok (hGasLimit ?h)" by (simp add: GasPool_AddGas_def)
  let ?ps = "\<lparr>ps_gp = hGasLimit ?h, ps_used = 0, ps_evm = evm, ps_written = []\<rparr>"
  from assms(3) obtain x ps' where x: "process_txs n P ?h (Block_Hash (pHashes P) block) 0 (bTransactions block) ?ps = Ok (x, ps')"
    unfolding Process_def Let_def g rbind.simps evm(1) by auto
  then have "x = Inr rs \<and> ls = concat (map rLogs rs) \<and> used = ps_used ps' \<and> ps_gp ps = ps_gp ps'"
    using assms(3) unfolding Process_def Let_def g rbind.simps evm(1) x prod.case by (cases x) auto
  then show ?thesis using that [OF evm(2) ro] x by simp
qed

text \<open>
  C6: The gas of a block. Every transaction of a processed block has a receipt with its hash and the
  filter of its logs; the cumulative gas of a receipt is the gas of the receipts up to it, without
  wrapping around; the gas used by the block is that of all, and with what is left in the pool it makes
  up the gas limit.
\<close>

theorem Process_gas:
  assumes "CheckConfigForkOrder (pConfig P) = None"
    "hDifficulty (bHeader block) = 0 \<or> ExtraEips cfg \<noteq> [] \<longrightarrow> IsEIP150 (pConfig P) (hNumber (bHeader block))"
    "Process n P block cfg l s = Ok (Inr (rs, ls, used), ps)"
  shows "length rs = length (bTransactions block) \<and> unat used = gas_sum rs \<and>
    unat (ps_gp ps) + unat used = unat (hGasLimit (bHeader block)) \<and> ls = concat (map rLogs rs) \<and>
    (\<forall>j < length rs. unat (CumulativeGasUsed (rs ! j)) = gas_sum (take (Suc j) rs) \<and>
       rBloom (rs ! j) = CreateBloom (keccak (pHashes P)) [rs ! j] \<and>
       rTxHash (rs ! j) = Tx_Hash (pHashes P) (bTransactions block ! j))"
proof -
  obtain evm ps' where p: "wired evm" "\<not> readOnly evm" "ls = concat (map rLogs rs)" "used = ps_used ps'" "ps_gp ps = ps_gp ps'"
    "process_txs n P (bHeader block) (Block_Hash (pHashes P) block) 0 (bTransactions block)
       \<lparr>ps_gp = hGasLimit (bHeader block), ps_used = 0, ps_evm = evm, ps_written = []\<rparr> = Ok (Inr rs, ps')"
    by (rule Process_start [OF assms])
  from process_txs_gas [OF p(6), of "unat (hGasLimit (bHeader block))"] show ?thesis
    using p(1-5) u64_bound [of "hGasLimit (bHeader block)"] by simp
qed

section \<open>Receipts read back\<close>

text \<open>
  What is compared of a receipt before and after the database: everything but the status beside a state root, which is not
  stored, and the places in the block, the index of the transaction and the five derived fields of each log. Those are stated
  by themselves: the logs of transaction \<open>j\<close> carry the block, the transaction and their running number in the block.
\<close>

definition stored_part :: "Receipt \<Rightarrow> Receipt" where
  "stored_part r = r\<lparr>Status := (if PostState r = [] then Status r else 0), TransactionIndex := 0, rLogs := map log_core (rLogs r)\<rparr>"

definition placed_logs :: "u64 \<Rightarrow> hash \<Rightarrow> hash \<Rightarrow> nat \<Rightarrow> nat \<Rightarrow> Log list \<Rightarrow> bool" where
  "placed_logs number blockHash txHash j before ls \<longleftrightarrow> (\<forall>m < length ls. lBlockNumber (ls ! m) = number \<and> lBlockHash (ls ! m) = blockHash \<and>
     lTxHash (ls ! m) = txHash \<and> lTxIndex (ls ! m) = j \<and> lIndex (ls ! m) = before + m)"

lemma derive_loop_places:
  assumes "length txs = length rs" "j < length rs"
  shows "let r = derive_loop k sg blockHash number i before li rs txs ! j
    in TransactionIndex r = i + j \<and> placed_logs number blockHash (rTxHash r) (i + j) (li + length (concat (map rLogs (take j rs)))) (rLogs r)"
  using assms
proof (induction rs arbitrary: txs i before li j)
  case Nil
  then show ?case by simp
next
  case (Cons r rs)
  then obtain tx txs' where tx: "txs = tx # txs'" "length txs' = length rs" by (cases txs) auto
  show ?case
  proof (cases j)
    case 0
    then show ?thesis by (simp add: tx Let_def placed_logs_def derive_log_def nth_enumerate_eq)
  next
    case (Suc j')
    then show ?thesis
      using Cons.IH [OF tx(2), of j' "i + 1" "CumulativeGasUsed r" "li + length (rLogs r)"] Cons.prems(2)
      by (simp add: tx(1) Let_def ac_simps)
  qed
qed

lemma length_derive_loop: "length (derive_loop k sg h number i b li rs txs) = min (length rs) (length txs)"
  by (induction k sg h number i b li rs txs rule: derive_loop.induct) (simp_all add: Let_def)

text \<open>The receipts of the processor can be stored.\<close>

lemma make_receipt_storable:
  assumes "make_receipt P m blockNumber blockHash tx root result used origin s = (r, s')" "length root \<in> {0, 32}"
  shows "storable (keccak (pHashes P)) r"
  using assms by (auto simp: storable_def make_receipt_def Let_def CreateBloom_def split: prod.splits if_splits)

lemma settle_state_root: "length (fst (settle_state P b s)) \<in> {0, 32}"
  by (simp add: settle_state_def split: prod.split)

lemma applyTransaction_storable:
  assumes "applyTransaction n P m blockNumber blockHash tx ps = Ok (Inr r, ps')"
  shows "storable (keccak (pHashes P)) r"
proof -
  let ?evm = "(Reset (NewEVMTxContext m) (sdb (ps_evm ps)) (ps_evm ps))
    \<lparr>logger := InitTrace (logger (Reset (NewEVMTxContext m) (sdb (ps_evm ps)) (ps_evm ps)))\<rparr>"
  from assms obtain y st where y: "ApplyMessage n ?evm m (ps_gp ps) = Ok (y, st)" by (auto simp: applyTransaction_def Let_def)
  then obtain x where a: "ApplyMessage n ?evm m (ps_gp ps) = Ok (Inr x, st)"
    using assms by (cases y) (auto simp: applyTransaction_def Let_def)
  obtain root s where s: "settle_state P blockNumber (sdb (evm_of st)) = (root, s)" by fastforce
  obtain r0 s' where r: "make_receipt P m blockNumber blockHash tx root x (ps_used ps + UsedGas x) (Origin (TxCtx (evm_of st))) s = (r0, s')"
    by fastforce
  have "r0 = r" using assms by (auto simp: applyTransaction_def Let_def a s r)
  then show ?thesis using make_receipt_storable [OF r] settle_state_root [of P blockNumber "sdb (evm_of st)"] s by simp
qed

lemma derive_loop_kept:
  assumes "process_txs n P header blockHash i txs ps = Ok (Inr rs, ps')" "wired (ps_evm ps)" "\<not> readOnly (ps_evm ps)"
    "hNumber header = uint (number :: u64)"
  shows "(\<forall>r \<in> set rs. storable (keccak (pHashes P)) r) \<and>
    map stored_part (derive_loop (pHashes P) (MakeSigner (pConfig P) (hNumber header)) blockHash number j (ps_used ps) li
      (map read_back rs) txs) = map stored_part rs"
  using assms(1-3)
proof (induction txs arbitrary: i ps rs j li)
  case Nil
  then show ?case by simp
next
  case (Cons tx txs)
  obtain m ps1 ps2 r rs2 where s: "AsMessage (pHashes P) (MakeSigner (pConfig P) (hNumber header)) (hBaseFee header) tx = Inr m"
    "ps_gp ps1 = ps_gp ps" "ps_used ps1 = ps_used ps"
    "wired (ps_evm ps1)" "\<not> readOnly (ps_evm ps1)"
    "applyTransaction n P m (hNumber header) blockHash tx ps1 = Ok (Inr r, ps2)"
    "process_txs n P header blockHash (i + 1) txs ps2 = Ok (Inr rs2, ps')" "rs = r # rs2"
    by (rule process_txs_step [OF Cons.prems])
  note d = applyTransaction_done [OF s(4-6)]
  have cum: "CumulativeGasUsed r - ps_used ps = GasUsed r" using d(2,3) s(3) by simp
  note f = AsMessage_fields [OF s(1)]
  have c: "CumulativeGasUsed (read_back r) = ps_used ps2" "length (rLogs (read_back r)) = length (rLogs r)"
    using d(3) by (simp_all add: read_back_def)
  have l: "map (log_core \<circ> derive_log number h t a) (enumerate b (map log_core ls)) = map log_core ls" for h t a b ls
    by (simp add: comp_def) (simp add: map_snd_enumerate [unfolded comp_def] flip: map_map [of log_core snd, unfolded comp_def])
  show ?case
    using Cons.IH [OF s(7) d(4,5)] applyTransaction_storable [OF s(6)] cum c f d(6-10) assms(4)
    by (simp add: s(8) Let_def l) (cases r; auto simp: stored_part_def read_back_def zero_receipt_def l)
qed

text \<open>
  C22: Receipts survive the database. Every receipt of a processed block, written in the storage form, is read back, and
  deriving the fields that are not stored (type, transaction hash, block, gas, address of a created contract) from the
  transactions of the block gives the receipt of the processor again, except that a receipt with a state root has lost its
  status; the place of a receipt and of its logs is derived too: receipt \<open>j\<close> has index \<open>j\<close>, and its logs carry the
  number and hash of the block, the hash and index of the transaction, and their number among all logs of the block.
\<close>

theorem DeriveFields_restores:
  assumes "CheckConfigForkOrder (pConfig P) = None"
    "hDifficulty (bHeader block) = 0 \<or> ExtraEips cfg \<noteq> [] \<longrightarrow> IsEIP150 (pConfig P) (hNumber (bHeader block))"
    "Process n P block cfg l s = Ok (Inr (rs, ls, used), ps)" "hNumber (bHeader block) = uint (number :: u64)"
  shows "\<exists>ds rs'. map (\<lambda>r. decodeStoredReceiptRLP (keccak (pHashes P)) (storedReceipt r)) rs = map Some ds \<and>
    DeriveFields (pHashes P) (pConfig P) (Block_Hash (pHashes P) block) number (bTransactions block) ds = Some rs' \<and>
    map stored_part rs' = map stored_part rs \<and>
    (\<forall>j < length rs. TransactionIndex (rs' ! j) = j \<and>
       placed_logs number (Block_Hash (pHashes P) block) (rTxHash (rs ! j)) j (length (concat (map rLogs (take j rs)))) (rLogs (rs' ! j)))"
proof -
  let ?K = "keccak (pHashes P)" and ?bh = "Block_Hash (pHashes P) block"
  obtain evm ps' where p: "wired evm" "\<not> readOnly evm" "ls = concat (map rLogs rs)" "used = ps_used ps'" "ps_gp ps = ps_gp ps'"
    "process_txs n P (bHeader block) ?bh 0 (bTransactions block)
       \<lparr>ps_gp = hGasLimit (bHeader block), ps_used = 0, ps_evm = evm, ps_written = []\<rparr> = Ok (Inr rs, ps')"
    by (rule Process_start [OF assms(1-3)])
  have len: "length rs = length (bTransactions block)"
    using process_txs_gas [OF p(6), of "unat (hGasLimit (bHeader block))"] p(1,2) u64_bound by simp
  let ?rs' = "derive_loop (pHashes P) (MakeSigner (pConfig P) (uint number)) ?bh number 0 0 0 (map read_back rs) (bTransactions block)"
  have k: "\<forall>r \<in> set rs. storable ?K r" "map stored_part ?rs' = map stored_part rs"
    using derive_loop_kept [OF p(6) _ _ assms(4), of 0 0] p(1,2) assms(4) by simp_all
  have hash: "rTxHash (?rs' ! j) = rTxHash (rs ! j)" if "j < length rs" for j
    using arg_cong [OF k(2), of "\<lambda>x. rTxHash (x ! j)"] that len by (simp add: length_derive_loop stored_part_def)
  have logs: "length (concat (map rLogs (take j (map read_back rs)))) = length (concat (map rLogs (take j rs)))" for j
    by (simp add: length_concat comp_def read_back_def take_map)
  have place: "TransactionIndex (?rs' ! j) = j \<and>
      placed_logs number ?bh (rTxHash (rs ! j)) j (length (concat (map rLogs (take j rs)))) (rLogs (?rs' ! j))" if "j < length rs" for j
    using derive_loop_places [of "bTransactions block" "map read_back rs" j "pHashes P" "MakeSigner (pConfig P) (uint number)" ?bh number 0 0 0]
      hash [OF that] that len by (simp add: Let_def logs)
  have reads: "map (\<lambda>r. decodeStoredReceiptRLP ?K (storedReceipt r)) rs = map Some (map read_back rs)"
    using k(1) decodeStoredReceiptRLP_stored by simp
  have "DeriveFields (pHashes P) (pConfig P) ?bh number (bTransactions block) (map read_back rs) = Some ?rs'"
    using len by (simp add: DeriveFields_def)
  then show ?thesis using reads k(2) place by blast
qed

text \<open>A block before the first fork with one transaction, which sends 30000 gas to the identity contract.\<close>

definition sample_env :: ProcessorEnv where
  "sample_env = \<lparr>pConfig = frontier_config, pHashes = \<lparr>keccak = (\<lambda>_. 1), Ecrecover = (\<lambda>_ _. Inr [4])\<rparr>,
     pPrecompiles = (\<lambda>_ _. ([], None)), pGetHeader = (\<lambda>_ _. None), pAuthor = hCoinbase, pFinalize = (\<lambda>_ _ s. s),
     pIntermediateRoot = (\<lambda>_ s. (0, s))\<rparr>"

definition sample_block_tx :: "int TxData" where
  "sample_block_tx = Legacy \<lparr>lNonce = 0, lGasPrice = 0, lGas = 30000, lTo = Some 4, lValue = 0, lData = [],
     lV = 27, lR = 1, lS = 1\<rparr>"

definition sample_full_block :: Block where
  "sample_full_block = \<lparr>bHeader = sample_header\<lparr>hNumber := 5, hGasLimit := 100000, hBaseFee := None\<rparr>, bUncles = [],
     bTransactions = [sample_block_tx]\<rparr>"

definition plain_config :: Config where
  "plain_config = \<lparr>Debug = False, NoBaseFee = False, EnablePreimageRecording = False, ExtraEips = [], cPrefetch = True\<rparr>"

lemma frontier_NewEVM:
  assumes "BlockNumber ctx = 5" "Random ctx = None"
  shows "NewEVM ctx tc (empty_db sample_hash) frontier_config plain_config (\<lambda>_ _. ([], None)) l =
    Ok (start_evm ctx tc plain_config 0 0 l)"
proof -
  have r: "ChainRules frontier_config 5 False = chainRules frontier_evm" by (simp add: frontier_evm_def)
  obtain jt where "newFrontierInstructionSet = Ok jt" using newFrontier_ok by blast
  then have "newFrontierInstructionSet = Ok frontier_table"
    unfolding newFrontierInstructionSet_def frontier_table_def [abs_def] validate_def by (auto split: if_splits)
  then have "instruction_set (chainRules frontier_evm) = Ok frontier_table"
    by (simp add: instruction_set_def frontier_evm_def ChainRules_def frontier_config_def IsCancun_def IsShanghai_def IsLondon_def
        IsBerlin_def IsIstanbul_def IsConstantinople_def IsByzantium_def IsEIP158_def IsEIP150_def IsHomestead_def isForked_def)
  then show ?thesis
    by (simp add: NewEVM_def assms r Let_def plain_config_def)
      (simp add: start_evm_def frontier_evm_def Prepare_def empty_db_def)
qed

lemma sample_sender: "frontier_Sender (pHashes sample_env) sample_block_tx = Inr 1"
proof -
  have v: "ucast (big_Uint64 27 - 27) = (0 :: byte)" by (simp add: big_Uint64_def)
  show ?thesis
    by (simp add: frontier_Sender_def sample_block_tx_def recoverPlain_def v ValidateSignatureValues_def secp256k1N_def
        signature_address_def Let_def) (simp add: sample_env_def)
qed

lemma sample_AsMessage: "AsMessage (pHashes sample_env) (MakeSigner frontier_config 5) None sample_block_tx = Inr (sample_message 30000)"
proof -
  have "MakeSigner frontier_config 5 = FrontierSigner"
    by (simp add: MakeSigner_def frontier_config_def IsLondon_def IsBerlin_def IsEIP155_def IsHomestead_def isForked_def)
  then show ?thesis
    using sample_sender by (simp add: AsMessage_def) (simp add: sample_block_tx_def sample_message_def)
qed

lemma sample_processed:
  "\<exists>r ls used ps. Process 5 sample_env sample_full_block plain_config (InitTrace InitLogger) (empty_db sample_hash) =
     Ok (Inr ([r], ls, used), ps)"
proof -
  let ?P = sample_env and ?h = "bHeader sample_full_block" and ?l = "InitTrace InitLogger"
  have P: "pConfig ?P = frontier_config" "pPrecompiles ?P = (\<lambda>_ _. ([], None))"
    "pIntermediateRoot ?P = (\<lambda>_ s. (0, s))" by (simp_all add: sample_env_def)
  have h: "hNumber ?h = 5" "hBaseFee ?h = None" "hGasLimit ?h = 100000" "bTransactions sample_full_block = [sample_block_tx]"
    by (simp_all add: sample_full_block_def)
  let ?ctx = "NewEVMBlockContext ?P ?h None"
  have ctx: "BlockNumber ?ctx = 5" "Random ?ctx = None"
    by (simp_all add: NewEVMBlockContext_def sample_full_block_def sample_header_def)
  let ?e0 = "start_evm ?ctx \<lparr>Origin = 0, GasPrice = 0\<rparr> plain_config 0 0 ?l"
  let ?th = "Tx_Hash (pHashes ?P) sample_block_tx"
  define tc where "tc = NewEVMTxContext (sample_message 30000)"
  have e: "Reset tc (Prepare ?th 0 (sdb ?e0)) (?e0\<lparr>sdb := Prepare ?th 0 (sdb ?e0)\<rparr>)\<lparr>logger := InitTrace ?l\<rparr>
      = start_evm ?ctx tc plain_config ?th 0 (InitTrace ?l)"
    by (simp add: Reset_def start_evm_def Prepare_def empty_db_def)
  have dao: "\<not> DAOForkSupport frontier_config" by (simp add: frontier_config_def)
  have plain: "\<not> NoBaseFee plain_config" by (simp add: plain_config_def)
  obtain r st where m: "ApplyMessage 5 (start_evm ?ctx tc plain_config ?th 0 (InitTrace ?l)) (sample_message 30000) 100000 = Ok (Inr r, st)"
    using sample_executed [OF refl plain] by blast
  have l: "logger ?e0 = ?l" by (simp add: start_evm_def)
  let ?ps = "\<lparr>ps_gp = 100000, ps_used = 0, ps_evm = ?e0\<lparr>sdb := Prepare ?th 0 (sdb ?e0)\<rparr>, ps_written = []\<rparr>"
  have "\<exists>receipt ps'. applyTransaction 5 ?P (sample_message 30000) 5 (Block_Hash (pHashes ?P) sample_full_block) sample_block_tx ?ps
      = Ok (Inr receipt, ps')"
    using m e by (simp add: applyTransaction_def Let_def tc_def [symmetric] l Reset_def split: prod.split)
  then obtain receipt ps' where a: "applyTransaction 5 ?P (sample_message 30000) 5 (Block_Hash (pHashes ?P) sample_full_block)
      sample_block_tx ?ps = Ok (Inr receipt, ps')" by blast
  have "process_txs 5 ?P ?h (Block_Hash (pHashes ?P) sample_full_block) 0 [sample_block_tx]
      \<lparr>ps_gp = 100000, ps_used = 0, ps_evm = ?e0, ps_written = []\<rparr> = Ok (Inr [receipt], ps')"
    using a by (simp add: P h sample_AsMessage Let_def)
  then show ?thesis
    by (simp add: Process_def P h Let_def GasPool_AddGas_def frontier_NewEVM [OF ctx] dao del: process_txs.simps)
qed

lemma sample_start: "CheckConfigForkOrder (pConfig sample_env) = None"
  "hDifficulty (bHeader sample_full_block) = 0 \<or> ExtraEips plain_config \<noteq> [] \<longrightarrow>
     IsEIP150 (pConfig sample_env) (hNumber (bHeader sample_full_block))"
  by (simp_all add: sample_env_def CheckConfigForkOrder_def config_forks_def frontier_config_def sample_full_block_def
      sample_header_def plain_config_def)

theorem Process_gas_witness:
  "\<exists>r ls used ps. Process 5 sample_env sample_full_block plain_config (InitTrace InitLogger) (empty_db sample_hash) =
     Ok (Inr ([r], ls, used), ps) \<and> unat used = gas_sum [r] \<and> unat (ps_gp ps) + unat used = 100000"
proof -
  obtain r ls used ps where p: "Process 5 sample_env sample_full_block plain_config (InitTrace InitLogger) (empty_db sample_hash) =
     Ok (Inr ([r], ls, used), ps)" using sample_processed by blast
  from Process_gas [OF sample_start p] show ?thesis using p by (auto simp: sample_full_block_def)
qed

theorem DeriveFields_restores_witness:
  "\<exists>r ls used ps d r'. Process 5 sample_env sample_full_block plain_config (InitTrace InitLogger) (empty_db sample_hash) =
     Ok (Inr ([r], ls, used), ps) \<and>
   decodeStoredReceiptRLP (keccak (pHashes sample_env)) (storedReceipt r) = Some d \<and>
   DeriveFields (pHashes sample_env) (pConfig sample_env) (Block_Hash (pHashes sample_env) sample_full_block) 5
      (bTransactions sample_full_block) [d] = Some [r'] \<and> stored_part r' = stored_part r \<and> TransactionIndex r' = 0"
proof -
  obtain r ls used ps where p: "Process 5 sample_env sample_full_block plain_config (InitTrace InitLogger) (empty_db sample_hash) =
     Ok (Inr ([r], ls, used), ps)" using sample_processed by blast
  have "hNumber (bHeader sample_full_block) = uint (5 :: u64)" by (simp add: sample_full_block_def)
  from DeriveFields_restores [OF sample_start p this] show ?thesis using p by (auto simp: map_eq_Cons_conv)
qed

end
