(* ===== verification/BlockHashes.thy ===== *)
theory BlockHashes
  imports Processor
begin

text \<open>
  The block hashes that contracts read: the closure of \<^verbatim>\<open>GetHashFn\<close> with its cache answers every query
  like a walk down the chain from the block, whatever was asked before.
\<close>

section \<open>The reference\<close>

text \<open>The hash of the ancestor at a distance: the parent hash, then the parent hash of each header found.\<close>

fun ancestor_hash :: "(hash \<Rightarrow> u64 \<Rightarrow> Header option) \<Rightarrow> Header \<Rightarrow> nat \<Rightarrow> hash option" where
  "ancestor_hash get ref 0 = Some (ParentHash ref)"
| "ancestor_hash get ref (Suc d) = (case ancestor_hash get ref d of
       None \<Rightarrow> None
     | Some h \<Rightarrow> map_option ParentHash (get h (of_nat (unat (big_Uint64 (hNumber ref)) - Suc d))))"

definition block_hash :: "(hash \<Rightarrow> u64 \<Rightarrow> Header option) \<Rightarrow> Header \<Rightarrow> u64 \<Rightarrow> hash" where
  "block_hash get ref n =
     (let number = unat (big_Uint64 (hNumber ref)) in
      if number \<le> unat n then 0
      else case ancestor_hash get ref (number - unat n - 1) of None \<Rightarrow> 0 | Some h \<Rightarrow> h)"

text \<open>The answers to a sequence of queries, each with the cache that the one before left.\<close>

fun hash_answers :: "Header \<Rightarrow> (hash \<Rightarrow> u64 \<Rightarrow> Header option) \<Rightarrow> hash list \<Rightarrow> u64 list \<Rightarrow> hash list res" where
  "hash_answers ref get cache [] = Ok []"
| "hash_answers ref get cache (n # ns) =
     rbind (GetHashFn ref get cache n) (\<lambda>(h, cache). rbind (hash_answers ref get cache ns) (\<lambda>hs. Ok (h # hs)))"

text \<open>The chain gives a header the number it was asked for by.\<close>

definition numbered :: "(hash \<Rightarrow> u64 \<Rightarrow> Header option) \<Rightarrow> bool" where
  "numbered get \<longleftrightarrow> (\<forall>h n hd. get h n = Some hd \<longrightarrow> hNumber hd = uint n)"

section \<open>The cache\<close>

definition cache_ok :: "(hash \<Rightarrow> u64 \<Rightarrow> Header option) \<Rightarrow> Header \<Rightarrow> hash list \<Rightarrow> bool" where
  "cache_ok get ref cache \<longleftrightarrow> length cache \<le> unat (big_Uint64 (hNumber ref)) \<and>
     (\<forall>i < length cache. ancestor_hash get ref i = Some (cache ! i))"

lemma ancestor_hash_None: "ancestor_hash get ref d = None \<Longrightarrow> d \<le> e \<Longrightarrow> ancestor_hash get ref e = None"
  by (induction e) (auto simp: le_Suc_eq)

lemma big_Uint64_uint [simp]: "big_Uint64 (uint n) = n"
  by (simp add: big_Uint64_def)

lemma hash_walk_correct:
  assumes "numbered get" "cache_ok get ref cache" "cache \<noteq> []"
    "unat num = unat (big_Uint64 (hNumber ref)) - length cache" "unat n < unat num" "unat num - unat n \<le> f"
  shows "\<exists>cache'. hash_walk get n f (last cache) num cache = Ok (block_hash get ref n, cache') \<and> cache_ok get ref cache'"
  using assms(2-6)
proof (induction f arbitrary: cache num)
  case 0
  then show ?case by simp
next
  case (Suc f)
  let ?N = "unat (big_Uint64 (hNumber ref))" and ?len = "length cache"
  have len: "?len < ?N" using Suc.prems(3,4) by simp
  have d: "?N - unat n - 1 \<ge> ?len" "\<not> ?N \<le> unat n" using Suc.prems(3,4) by simp_all
  obtain l where l: "?len = Suc l" using Suc.prems(2) by (cases cache) auto
  have num: "num = of_nat (?N - ?len)" using Suc.prems(3) by (metis of_nat_unat ucast_id)
  have "ancestor_hash get ref l = Some (last cache)"
    using Suc.prems(1,2) l by (simp add: cache_ok_def last_conv_nth)
  then have next_anc: "ancestor_hash get ref ?len = map_option ParentHash (get (last cache) num)"
    using l num by simp
  show ?case
  proof (cases "get (last cache) num")
    case None
    then have "ancestor_hash get ref (?N - unat n - 1) = None" using ancestor_hash_None [OF _ d(1)] next_anc by simp
    then show ?thesis using None d(2) Suc.prems(1) by (simp add: block_hash_def Let_def)
  next
    case (Some hd)
    then have u: "big_Uint64 (hNumber hd) = num" using assms(1) by (simp add: numbered_def)
    have un: "unat (num - 1) = unat num - 1" using Suc.prems(4) by (intro unat_minus_one) auto
    let ?c = "cache @ [ParentHash hd]"
    have ok: "cache_ok get ref ?c"
      using Suc.prems(1) next_anc Some len by (auto simp: cache_ok_def nth_append less_Suc_eq)
    show ?thesis
    proof (cases "n = num - 1")
      case True
      then have "?N - unat n - 1 = ?len" using un Suc.prems(3,4) len by simp
      then have "block_hash get ref n = ParentHash hd"
        using next_anc Some d(2) by (simp add: block_hash_def Let_def)
      then show ?thesis using Some u True ok by simp
    next
      case False
      then have "unat n < unat (num - 1)" using un Suc.prems(4) by (metis Suc_pred' less_antisym not_less_zero gr0I word_unat_eq_iff)
      then have "\<exists>cache'. hash_walk get n f (last ?c) (num - 1) ?c = Ok (block_hash get ref n, cache') \<and> cache_ok get ref cache'"
        by (intro Suc.IH ok) (use un Suc.prems(3,5) in auto)
      then show ?thesis using Some u False by simp
    qed
  qed
qed

lemma GetHashFn_step:
  assumes "numbered get" "cache_ok get ref cache"
  shows "\<exists>cache'. GetHashFn ref get cache n = Ok (block_hash get ref n, cache') \<and> cache_ok get ref cache'"
proof -
  let ?num = "big_Uint64 (hNumber ref)"
  show ?thesis
  proof (cases "?num \<le> n")
    case True
    then show ?thesis using assms(2) by (simp add: GetHashFn_def block_hash_def word_le_nat_alt)
  next
    case False
    let ?c = "if length cache = 0 then [ParentHash ref] else cache"
    have n: "unat n < unat ?num" using False by (simp add: word_le_nat_alt)
    have c: "cache_ok get ref ?c" "?c \<noteq> []" using assms(2) n by (auto simp: cache_ok_def)
    have idx: "unat (?num - n - 1) = unat ?num - unat n - 1"
      using n by (subst unat_minus_one) (auto simp: unat_sub word_le_nat_alt)
    have ref: "block_hash get ref n = (case ancestor_hash get ref (unat ?num - unat n - 1) of None \<Rightarrow> 0 | Some h \<Rightarrow> h)"
      using n by (simp add: block_hash_def Let_def)
    show ?thesis
    proof (cases "unat (?num - n - 1) < length ?c")
      case True
      have g: "GetHashFn ref get cache n = Ok (?c ! unat (?num - n - 1), ?c)"
        unfolding GetHashFn_def Let_def if_not_P [OF False] if_P [OF True] by (rule refl)
      have "block_hash get ref n = ?c ! unat (?num - n - 1)"
        using True c(1) ref unfolding idx cache_ok_def by simp
      then show ?thesis by (intro exI [of _ ?c] conjI c(1)) (simp only: g)
    next
      case out: False
      have g: "GetHashFn ref get cache n = hash_walk get n (unat ?num) (last ?c) (?num - of_nat (length ?c)) ?c"
        unfolding GetHashFn_def Let_def if_not_P [OF False] if_not_P [OF out] by (rule refl)
      have "unat (?num - of_nat (length ?c)) = unat ?num - length ?c"
        using c(1) u64_bound [of ?num] by (subst unat_sub) (auto simp: cache_ok_def word_le_nat_alt unat_of_nat take_bit_nat_eq_self)
      then show ?thesis
        unfolding g using out idx n by (intro hash_walk_correct [OF assms(1) c]) auto
    qed
  qed
qed

text \<open>
  C20: The hashes a contract reads do not depend on what was read before: with a chain that knows headers
  by their numbers, every answer of the closure with its growing cache is the hash of the ancestor with
  that number, found by walking down from the block, or zero when there is none. The search always ends.
\<close>

theorem GetHashFn_cache:
  assumes "numbered get"
  shows "hash_answers ref get [] ns = Ok (map (block_hash get ref) ns)"
proof -
  have "hash_answers ref get cache ns = Ok (map (block_hash get ref) ns)" if "cache_ok get ref cache" for cache
    using that
  proof (induction ns arbitrary: cache)
    case (Cons n ns)
    then show ?case using GetHashFn_step [OF assms Cons.prems, of n] by auto
  qed simp
  then show ?thesis by (simp add: cache_ok_def)
qed

text \<open>Block 9 of a chain in which the parent hash of block \<open>n\<close> is \<open>n + 100\<close>.\<close>

definition sample_get :: "hash \<Rightarrow> u64 \<Rightarrow> Header option" where
  "sample_get h n = Some (sample_header\<lparr>hNumber := uint n, ParentHash := ucast n + 100\<rparr>)"

lemma sample_ancestors: "ancestor_hash sample_get sample_header (Suc d) = Some (ucast (of_nat (8 - d) :: u64) + 100)"
proof -
  have n: "unat (big_Uint64 (hNumber sample_header)) = 9" by (simp add: sample_header_def big_Uint64_def)
  have get: "map_option ParentHash (sample_get h m) = Some (ucast m + 100)" for h m by (simp add: sample_get_def)
  have diff: "9 - Suc d = 8 - d" for d by simp
  show ?thesis by (induction d) (simp_all only: ancestor_hash.simps option.case get n diff)
qed

theorem GetHashFn_cache_witness: "hash_answers sample_header sample_get [] [7, 3, 6, 12] = Ok [108, 104, 107, 0]"
proof -
  have "numbered sample_get" by (simp add: numbered_def sample_get_def)
  then have "hash_answers sample_header sample_get [] [7, 3, 6, 12] = Ok (map (block_hash sample_get sample_header) [7, 3, 6, 12])"
    by (rule GetHashFn_cache)
  also have "map (block_hash sample_get sample_header) [7, 3, 6, 12] = [108, 104, 107, 0]"
  proof -
    have n: "unat (big_Uint64 (hNumber sample_header)) = 9" by (simp add: sample_header_def big_Uint64_def)
    have d: "9 - unat (7 :: u64) - 1 = Suc 0" "9 - unat (3 :: u64) - 1 = Suc 4" "9 - unat (6 :: u64) - 1 = Suc 1" by simp_all
    have le: "\<not> 9 \<le> unat (7 :: u64)" "\<not> 9 \<le> unat (3 :: u64)" "\<not> 9 \<le> unat (6 :: u64)" "9 \<le> unat (12 :: u64)" by simp_all
    show ?thesis
      by (simp only: list.map block_hash_def Let_def n d le if_True if_False sample_ancestors option.case) simp
  qed
  finally show ?thesis .
qed

section \<open>The DAO fork\<close>

text \<open>All ether of a state.\<close>

definition total_balance :: "StateDB \<Rightarrow> int" where
  "total_balance s = (\<Sum>a \<in> UNIV. fst (GetBalance a s))"

lemma total_balance_eq: "(\<And>a. fst (GetBalance a s) = fst (GetBalance a t)) \<Longrightarrow> total_balance s = total_balance t"
  by (simp add: total_balance_def)

text \<open>What one account hands over.\<close>

lemma drain_account_balances:
  assumes "sdb_ok s" "addr \<noteq> DAORefundContract"
  shows "sdb_ok (drain_account addr s)"
    "fst (GetBalance b (drain_account addr s)) =
       (if b = addr then 0
        else fst (GetBalance b s) + (if b = DAORefundContract then fst (GetBalance addr s) else 0))"
proof -
  let ?s = "snd (GetBalance addr s)"
  have ok: "sdb_ok ?s" using db_step_ok [OF _ assms(1), of True] by (simp add: db_intros)
  have same: "fst (GetBalance b ?s) = fst (GetBalance b s)" for b
    using eqv_same_answers [OF read_eqv(3) [OF assms(1)]] by (simp add: same_answers_def)
  let ?t = "AddBalance DAORefundContract (fst (GetBalance addr s)) ?s"
  have ok2: "sdb_ok ?t" by (rule evolves_ok(2) [OF AddBalance_evolves [OF ok]])
  have eq: "drain_account addr s = SetBalance addr 0 ?t" by (simp add: drain_account_def split_beta Let_def)
  show "sdb_ok (drain_account addr s)" unfolding eq by (rule evolves_ok(2) [OF SetBalance_evolves [OF ok2]])
  show "fst (GetBalance b (drain_account addr s)) =
       (if b = addr then 0
        else fst (GetBalance b s) + (if b = DAORefundContract then fst (GetBalance addr s) else 0))"
    unfolding eq using balance_after [OF ok2] balance_after [OF ok] assms(2) by (simp add: same)
qed

lemma drain_total:
  assumes "sdb_ok s" "addr \<noteq> DAORefundContract"
  shows "total_balance (drain_account addr s) = total_balance s"
proof -
  let ?b = "\<lambda>t a. fst (GetBalance a t)" and ?rest = "UNIV - {addr} - {DAORefundContract}"
  have split: "total_balance t = ?b t addr + ?b t DAORefundContract + (\<Sum>a \<in> ?rest. ?b t a)" for t
  proof -
    have "total_balance t = ?b t addr + (\<Sum>a \<in> UNIV - {addr}. ?b t a)"
      unfolding total_balance_def by (rule sum.remove) auto
    also have "(\<Sum>a \<in> UNIV - {addr}. ?b t a) = ?b t DAORefundContract + (\<Sum>a \<in> ?rest. ?b t a)"
      by (rule sum.remove) (use assms(2) in auto)
    finally show ?thesis by simp
  qed
  have "(\<Sum>a \<in> ?rest. ?b (drain_account addr s) a) = (\<Sum>a \<in> ?rest. ?b s a)"
    by (rule sum.cong) (auto simp: drain_account_balances(2) [OF assms])
  then show ?thesis unfolding split by (simp add: drain_account_balances(2) [OF assms] assms(2) [symmetric] assms(2))
qed

lemma drain_accounts:
  assumes "sdb_ok s" "DAORefundContract \<notin> set addrs"
  shows "sdb_ok (fold drain_account addrs s) \<and> total_balance (fold drain_account addrs s) = total_balance s \<and>
    (\<forall>a. a \<noteq> DAORefundContract \<longrightarrow> fst (GetBalance a (fold drain_account addrs s)) = (if a \<in> set addrs then 0 else fst (GetBalance a s)))"
  using assms
proof (induction addrs arbitrary: s)
  case (Cons x xs)
  have x: "x \<noteq> DAORefundContract" using Cons.prems(2) by auto
  note d = drain_account_balances [OF Cons.prems(1) x]
  from Cons.IH [OF d(1)] Cons.prems(2) show ?case
    using d(2) drain_total [OF Cons.prems(1) x] by (auto simp: x)
qed simp

lemma refund_not_drained: "DAORefundContract \<notin> set DAODrainList"
  unfolding DAORefundContract_def DAODrainList_def by simp

text \<open>
  C21: The DAO fork moves ether and makes none: the total of all balances stays what it was, the drained
  accounts end with nothing, and no other account but the refund contract changes its balance.
\<close>

theorem ApplyDAOHardFork_moves:
  assumes "sdb_ok s"
  shows "total_balance (ApplyDAOHardFork s) = total_balance s \<and>
    (\<forall>a. a \<noteq> DAORefundContract \<longrightarrow>
       fst (GetBalance a (ApplyDAOHardFork s)) = (if a \<in> set DAODrainList then 0 else fst (GetBalance a s)))"
proof -
  let ?s = "snd (Exist DAORefundContract s)"
  have ok: "sdb_ok ?s" using db_step_ok [OF _ assms, of True] by (simp add: db_intros)
  have same: "fst (GetBalance b ?s) = fst (GetBalance b s)" for b
    using eqv_same_answers [OF read_eqv(1) [OF assms]] by (simp add: same_answers_def)
  define t where "t = (if \<not> fst (Exist DAORefundContract s) then CreateAccount DAORefundContract ?s else ?s)"
  have t: "sdb_ok t" "fst (GetBalance b t) = fst (GetBalance b s)" for b
    using ok evolves_ok(2) [OF CreateAccount_evolves [OF ok]] CreateAccount_answers [OF ok, of DAORefundContract b] same
    by (auto simp: t_def)
  have "ApplyDAOHardFork s = fold drain_account DAODrainList t"
    by (simp add: ApplyDAOHardFork_def t_def split_beta Let_def)
  then show ?thesis using drain_accounts [OF t(1) refund_not_drained] t(2) total_balance_eq [of t s] by simp
qed

text \<open>One of the accounts has 100.\<close>

theorem ApplyDAOHardFork_moves_witness:
  "fst (GetBalance 0xd4fe7bc31cedb7bfb8a345f31e668033056b2728
     (ApplyDAOHardFork (AddBalance 0xd4fe7bc31cedb7bfb8a345f31e668033056b2728 100 (empty_db sample_hash)))) = 0"
proof -
  have ok: "sdb_ok (AddBalance 0xd4fe7bc31cedb7bfb8a345f31e668033056b2728 100 (empty_db sample_hash))"
    by (rule evolves_ok(2) [OF AddBalance_evolves [OF sample_db_ok]])
  have "(0xd4fe7bc31cedb7bfb8a345f31e668033056b2728 :: address) \<noteq> DAORefundContract" "0xd4fe7bc31cedb7bfb8a345f31e668033056b2728 \<in> set DAODrainList"
    by (simp_all add: DAORefundContract_def DAODrainList_def)
  then show ?thesis using ApplyDAOHardFork_moves [OF ok] by simp
qed

end
