(* ===== verification/HeaderBatch.thy ===== *)
theory HeaderBatch
  imports Ethash
begin

text \<open>
  The concurrent part of \<^verbatim>\<open>VerifyHeaders\<close> (consensus/ethash/consensus.go): workers that take indices from
  an unbuffered channel, verify the header and report the index on a buffered channel, and a coordinator
  that hands out the indices and sends the results on in the order of the headers. A step relation
  interleaves them in every way the channels allow.
\<close>

section \<open>States and steps\<close>

text \<open>
  \<open>next_in\<close> is the index handed out next (\<^verbatim>\<open>in\<close>), \<open>busy\<close> the indices the workers hold, \<open>doneq\<close> the content
  of the channel \<^verbatim>\<open>done\<close>, \<open>errors\<close> the shared array, all nil at first, and \<open>outq\<close> what was sent on
  \<^verbatim>\<open>errorsOut\<close>, whose length is the variable \<^verbatim>\<open>out\<close>.
\<close>

record 'e batch =
  next_in :: nat
  busy :: "nat list"
  doneq :: "nat list"
  checked :: "nat set"
  errors :: "nat \<Rightarrow> 'e option"
  outq :: "'e option list"
  returned :: bool

definition batch_init :: "'e batch" where
  "batch_init = \<lparr>next_in = 0, busy = [], doneq = [], checked = {}, errors = (\<lambda>_. None), outq = [], returned = False\<rparr>"

text \<open>The loop that sends the results that are next in order; the flag tells that it was the last.\<close>

function emit :: "nat \<Rightarrow> nat set \<Rightarrow> (nat \<Rightarrow> 'e option) \<Rightarrow> 'e option list \<Rightarrow> 'e option list \<times> bool" where
  "emit n ok errs out =
     (if length out < n \<and> length out \<in> ok then
        (if length out = n - 1 then (out @ [errs (length out)], True)
         else emit n ok errs (out @ [errs (length out)]))
      else (out, False))"
  by auto
termination by (relation "measure (\<lambda>(n, _, _, out). n - length out)") auto

text \<open>
  One step of the \<^verbatim>\<open>n\<close> headers with \<^verbatim>\<open>w\<close> workers and the verdicts \<open>verdict\<close>: the coordinator hands an index
  to an idle worker, a worker stores its verdict and reports, the coordinator takes a report.
\<close>

inductive batch_step :: "nat \<Rightarrow> nat \<Rightarrow> (nat \<Rightarrow> 'e option) \<Rightarrow> 'e batch \<Rightarrow> 'e batch \<Rightarrow> bool" for n w verdict where
  hand_out: "\<not> returned s \<Longrightarrow> next_in s < n \<Longrightarrow> length (busy s) < w \<Longrightarrow>
     batch_step n w verdict s (s\<lparr>busy := next_in s # busy s, next_in := next_in s + 1\<rparr>)"
| finish: "i \<in> set (busy s) \<Longrightarrow> length (doneq s) < w \<Longrightarrow>
     batch_step n w verdict s
       (s\<lparr>errors := (errors s)(i := verdict i), busy := remove1 i (busy s), doneq := doneq s @ [i]\<rparr>)"
| take: "\<not> returned s \<Longrightarrow> doneq s = i # q \<Longrightarrow> emit n (insert i (checked s)) (errors s) (outq s) = (out, final) \<Longrightarrow>
     batch_step n w verdict s (s\<lparr>doneq := q, checked := insert i (checked s), outq := out, returned := final\<rparr>)"

inductive_cases batch_stepE: "batch_step n w verdict s s'"

definition batch_workers :: "nat \<Rightarrow> nat \<Rightarrow> nat" where
  "batch_workers procs n = (if n < procs then n else procs)"

section \<open>Every interleaving gives the results in order\<close>

declare emit.simps [simp del]

definition batch_inv :: "nat \<Rightarrow> nat \<Rightarrow> (nat \<Rightarrow> 'e option) \<Rightarrow> 'e batch \<Rightarrow> bool" where
  "batch_inv n w verdict s \<longleftrightarrow>
     distinct (busy s @ doneq s) \<and> set (busy s) \<union> set (doneq s) \<union> checked s = {0..<next_in s} \<and>
     checked s \<inter> (set (busy s) \<union> set (doneq s)) = {} \<and> next_in s \<le> n \<and>
     (\<forall>i \<in> set (doneq s) \<union> checked s. errors s i = verdict i) \<and>
     outq s = map verdict [0..<length (outq s)] \<and>
     (if returned s then length (outq s) = n
      else length (outq s) < n \<and> length (outq s) \<notin> checked s)"

lemma emit_result:
  assumes "emit n ok errs out = (out', final)" "out = map verdict [0..<length out]" "length out < n"
    "\<forall>i \<in> ok. errs i = verdict i"
  shows "out' = map verdict [0..<length out'] \<and> (if final then length out' = n else length out' < n \<and> length out' \<notin> ok)"
  using assms
proof (induction n ok errs out arbitrary: out' final rule: emit.induct)
  case (1 n ok errs out)
  have grow: "out @ [errs (length out)] = map verdict [0..<length (out @ [errs (length out)])]" if "length out \<in> ok"
    using 1(3,5) that by simp
  show ?case
  proof (cases "length out \<in> ok")
    case False
    then show ?thesis using 1(2,3,4) by (simp add: emit.simps)
  next
    case True
    show ?thesis
    proof (cases "length out = n - 1")
      case t: True
      then show ?thesis using 1(2,4) True grow by (auto simp: emit.simps)
    next
      case f: False
      have "emit n ok errs (out @ [errs (length out)]) = (out', final)"
        using 1(2,4) True f by (subst (asm) emit.simps) simp
      then show ?thesis by (intro 1(1)) (use True f 1(4,5) grow in auto)
    qed
  qed
qed

lemma batch_step_inv:
  assumes "batch_step n w verdict s s'" "batch_inv n w verdict s"
  shows "batch_inv n w verdict s'"
  using assms
proof cases
  case hand_out
  then show ?thesis using assms(2) by (auto simp: batch_inv_def)
next
  case (finish i)
  have "insert i (set (remove1 i (busy s))) = set (busy s)" "i \<notin> set (remove1 i (busy s))"
    using finish assms(2) by (auto simp: batch_inv_def)
  then show ?thesis using finish assms(2) by (auto simp: batch_inv_def)
next
  case (take i q out final)
  have "out = map verdict [0..<length out] \<and>
    (if final then length out = n else length out < n \<and> length out \<notin> insert i (checked s))"
    by (rule emit_result [OF take(4)]) (use take(2,3) assms(2) in \<open>auto simp: batch_inv_def\<close>)
  then show ?thesis using take assms(2) by (auto simp: batch_inv_def)
qed

definition batch_measure :: "nat \<Rightarrow> 'e batch \<Rightarrow> nat" where
  "batch_measure n s = 3 * (n - next_in s) + 2 * length (busy s) + length (doneq s)"

lemma batch_step_measure: "batch_step n w verdict s s' \<Longrightarrow> Suc (batch_measure n s') = batch_measure n s"
proof (induction rule: batch_step.induct)
  case (finish i s)
  then obtain x where "length (busy s) = Suc x" using length_pos_if_in_set gr0_implies_Suc by metis
  then show ?case using finish by (simp add: batch_measure_def length_remove1)
qed (auto simp: batch_measure_def)

lemma batch_progress:
  assumes "batch_inv n w verdict s" "\<not> returned s" "0 < w"
  shows "\<exists>s'. batch_step n w verdict s s'"
proof -
  consider i q where "doneq s = i # q" | i where "doneq s = []" "i \<in> set (busy s)" | "doneq s = []" "busy s = []"
    by (cases "doneq s"; cases "busy s") auto
  then show ?thesis
  proof cases
    case 1
    then show ?thesis using take [OF assms(2)] by (metis surj_pair)
  next
    case 2
    then have "length (doneq s) < w" using assms(3) by simp
    from batch_step.finish [OF 2(2) this] show ?thesis by blast
  next
    case 3
    then have c: "checked s = {0..<next_in s}" "next_in s \<le> n" "length (outq s) < n" "length (outq s) \<notin> checked s"
      using assms(1,2) by (auto simp: batch_inv_def)
    then have "next_in s < n" by auto
    moreover have "length (busy s) < w" using 3 assms(3) by simp
    ultimately show ?thesis using batch_step.hand_out [OF assms(2)] by blast
  qed
qed

text \<open>
  C15: However the workers are scheduled, the results of a batch come out in the order of the headers,
  each the verdict on its own header and none before it was reached; the coordinator never gets stuck,
  and after at most three steps for each header it has sent all of them and returned.
\<close>

theorem VerifyHeaders_in_order:
  assumes "0 < n" "0 < w" "(batch_step n w verdict ^^ m) batch_init s"
  shows "outq s = map verdict [0..<length (outq s)] \<and> m \<le> 3 * n \<and>
    (if returned s then length (outq s) = n else \<exists>s'. batch_step n w verdict s s')"
proof -
  have "batch_inv n w verdict s \<and> m + batch_measure n s = 3 * n"
    using assms(3)
  proof (induction m arbitrary: s)
    case 0
    then show ?case using assms(1) by (auto simp: batch_inv_def batch_init_def batch_measure_def)
  next
    case (Suc m)
    then obtain s0 where s: "(batch_step n w verdict ^^ m) batch_init s0" "batch_step n w verdict s0 s" by auto
    from Suc.IH [OF s(1)] have "batch_inv n w verdict s0" "m + batch_measure n s0 = 3 * n" by auto
    then show ?case using batch_step_inv [OF s(2)] batch_step_measure [OF s(2)] by simp
  qed
  then have inv: "batch_inv n w verdict s" and "m \<le> 3 * n" by simp_all
  moreover have "outq s = map verdict [0..<length (outq s)]" "returned s \<Longrightarrow> length (outq s) = n"
    using inv by (simp_all add: batch_inv_def)
  ultimately show ?thesis using batch_progress [OF inv _ assms(2)] by simp
qed

text \<open>Two headers and two workers; the second header is done first, and the first report brings nothing yet.\<close>

definition sample_verdict :: "nat \<Rightarrow> ethash_error option" where
  "sample_verdict i = (if i = 1 then Some errOlderBlockTime else None)"

lemma six_steps: "R a b \<Longrightarrow> R b c \<Longrightarrow> R c d \<Longrightarrow> R d e \<Longrightarrow> R e f \<Longrightarrow> R f g \<Longrightarrow> (R ^^ 6) a g"
proof -
  assume "R a b" "R b c" "R c d" "R d e" "R e f" "R f g"
  then have "(R ^^ Suc (Suc (Suc (Suc (Suc (Suc 0)))))) a g"
    by (rule relpowp_Suc_I [OF relpowp_Suc_I [OF relpowp_Suc_I [OF relpowp_Suc_I [OF relpowp_Suc_I [OF relpowp_Suc_I [OF relpowp_0_I]]]]]])
  then show ?thesis by (simp only: numeral_eq_Suc pred_numeral_simps BitM.simps)
qed

lemma sample_batch: "\<exists>s. (batch_step 2 2 sample_verdict ^^ 6) batch_init s"
proof -
  note mk = batch_step.intros [where n = 2 and w = 2 and verdict = sample_verdict]
  let ?s1 = "batch_init\<lparr>busy := [0], next_in := 1\<rparr> :: ethash_error batch"
  let ?s2 = "?s1\<lparr>busy := [1, 0], next_in := 2\<rparr>"
  let ?s3 = "?s2\<lparr>errors := (\<lambda>_. None)(1 := sample_verdict 1), busy := [0], doneq := [1]\<rparr>"
  let ?s4 = "?s3\<lparr>doneq := [], checked := {1}\<rparr>"
  let ?s5 = "?s4\<lparr>errors := (\<lambda>_. None)(1 := sample_verdict 1, 0 := sample_verdict 0), busy := [], doneq := [0]\<rparr>"
  let ?s6 = "?s5\<lparr>doneq := [], checked := {0, 1}, outq := [sample_verdict 0, sample_verdict 1], returned := True\<rparr>"
  have "batch_step 2 2 sample_verdict batch_init ?s1"
    using mk(1) [of batch_init] by (simp add: batch_init_def)
  moreover have "batch_step 2 2 sample_verdict ?s1 ?s2"
    using mk(1) [of ?s1] by (simp add: batch_init_def numeral_2_eq_2)
  moreover have "batch_step 2 2 sample_verdict ?s2 ?s3"
    using mk(2) [of 1 ?s2] by (simp add: batch_init_def)
  moreover have "batch_step 2 2 sample_verdict ?s3 ?s4"
    using mk(3) [of ?s3 1 "[]" "[]" False] by (simp add: batch_init_def emit.simps)
  moreover have "batch_step 2 2 sample_verdict ?s4 ?s5"
    using mk(2) [of 0 ?s4] by (simp add: batch_init_def)
  moreover have "batch_step 2 2 sample_verdict ?s5 ?s6"
    using mk(3) [of ?s5 0 "[]" "[sample_verdict 0, sample_verdict 1]" True] by (simp add: batch_init_def emit.simps)
  ultimately have "(batch_step 2 2 sample_verdict ^^ 6) batch_init ?s6" by (rule six_steps)
  then show ?thesis by (rule exI)
qed

text \<open>
  Two headers and two workers; the second is done first, and its report alone brings nothing. After six
  steps both verdicts are out.
\<close>

theorem VerifyHeaders_in_order_witness:
  "\<exists>s. (batch_step 2 2 sample_verdict ^^ 6) batch_init s \<and>
    outq s = map sample_verdict [0..<length (outq s)]"
  using sample_batch VerifyHeaders_in_order [of 2 2 6 sample_verdict] by auto

end
