(* ===== verification/TrieKeys.thy ===== *)
theory TrieKeys
  imports Prelude
begin

text \<open>
  The three encodings of trie keys (trie/encoding.go): bytes, nibbles with an optional terminator, and
  the compact form of the nodes in the database. A slice that the code writes into is the list it was
  with the positions updated; an index out of range is a panic.
\<close>

text \<open>The children of a branching are smaller than it.\<close>

lemma size_take [termination_simp]: "x \<in> set (take m cs) \<Longrightarrow> f x < Suc (size_list f cs)"
  by (meson in_set_takeD less_Suc_eq_le order_refl size_list_estimation')

lemma size_nth [termination_simp]: "i < length cs \<Longrightarrow> f (cs ! i) < Suc (size_list f cs)"
  by (meson nth_mem less_Suc_eq_le order_refl size_list_estimation')

section \<open>The encodings\<close>

definition hasTerm :: "bytes \<Rightarrow> bool" where
  "hasTerm s \<longleftrightarrow> length s > 0 \<and> s ! (length s - 1) = 16"

text \<open>Two nibbles make a byte. The loop writes one byte for each pair.\<close>

definition pack :: "byte \<Rightarrow> byte \<Rightarrow> byte" where
  "pack hi lo = push_bit 4 hi OR lo"

fun decodeNibbles :: "bytes \<Rightarrow> bytes \<Rightarrow> nat \<Rightarrow> bytes res" where
  "decodeNibbles [] bytes bi = Ok bytes"
| "decodeNibbles [x] bytes bi = Panic"
| "decodeNibbles (x # y # nibbles) bytes bi =
     (if bi < length bytes then decodeNibbles nibbles (bytes[bi := pack x y]) (bi + 1) else Panic)"

definition hexToCompact :: "bytes \<Rightarrow> bytes res" where
  "hexToCompact hex =
     (let terminator = (if hasTerm hex then 1 else 0 :: byte);
          hex = (if hasTerm hex then take (length hex - 1) hex else hex);
          buf = (replicate (length hex div 2 + 1) 0)[0 := push_bit 5 terminator];
          (buf, hex) = (if odd (length hex) then (buf[0 := buf ! 0 OR push_bit 4 1 OR hex ! 0], drop 1 hex) else (buf, hex))
      in decodeNibbles hex buf 1)"

text \<open>The loop of \<^verbatim>\<open>hexToCompactInPlace\<close> reads and writes the same slice.\<close>

function compact_loop :: "nat \<Rightarrow> nat \<Rightarrow> nat \<Rightarrow> bytes \<Rightarrow> bytes res" where
  "compact_loop hexLen bi ni hex =
     (if ni < hexLen then
        rbind (gindex hex ni) (\<lambda>x. rbind (gindex hex (ni + 1)) (\<lambda>y.
          if bi < length hex then compact_loop hexLen (bi + 1) (ni + 2) (hex[bi := pack x y]) else Panic))
      else Ok hex)"
  by auto
termination by (relation "measure (\<lambda>(hexLen, _, ni, _). hexLen - ni)") auto

declare compact_loop.simps [simp del]

text \<open>The buffer afterwards and the length of the compact key at its front.\<close>

definition hexToCompactInPlace :: "bytes \<Rightarrow> (bytes \<times> nat) res" where
  "hexToCompactInPlace hex =
     (let term = length hex > 0 \<and> hex ! (length hex - 1) = 16;
          firstByte = (if term then push_bit 5 1 else 0 :: byte);
          hexLen = (if term then length hex - 1 else length hex);
          binLen = hexLen div 2 + 1;
          (firstByte, ni) = (if odd hexLen then (firstByte OR push_bit 4 1 OR hex ! 0, 1) else (firstByte, 0))
      in rbind (compact_loop hexLen 1 ni hex) (\<lambda>hex.
         if hex = [] then Panic else Ok (hex[0 := firstByte], binLen)))"

definition keybytesToHex :: "bytes \<Rightarrow> bytes" where
  "keybytesToHex str = concat (map (\<lambda>b. [b div 16, b mod 16]) str) @ [16]"

definition compactToHex :: "bytes \<Rightarrow> bytes res" where
  "compactToHex compact =
     (if length compact = 0 then Ok compact
      else
        let base = keybytesToHex compact;
            base = (if base ! 0 < 2 then take (length base - 1) base else base);
            chop = 2 - (base ! 0 AND 1)
        in gslice base (unat chop) (length base))"

definition hexToKeybytes :: "bytes \<Rightarrow> bytes res" where
  "hexToKeybytes hex =
     (let hex = (if hasTerm hex then take (length hex - 1) hex else hex) in
      if odd (length hex) then Panic
      else decodeNibbles hex (replicate (length hex div 2) 0) 0)"

fun prefixLen :: "bytes \<Rightarrow> bytes \<Rightarrow> nat" where
  "prefixLen (x # xs) (y # ys) = (if x = y then Suc (prefixLen xs ys) else 0)"
| "prefixLen _ _ = 0"

section \<open>Nibbles\<close>

text \<open>A key in hex form: nibbles, with a terminator or without.\<close>

definition nibbles :: "bytes \<Rightarrow> bool" where
  "nibbles ns \<longleftrightarrow> (\<forall>x \<in> set ns. x < 16)"

lemma nibbles_simps [simp]:
  "nibbles []" "nibbles (x # ns) \<longleftrightarrow> x < 16 \<and> nibbles ns" "nibbles (xs @ ys) \<longleftrightarrow> nibbles xs \<and> nibbles ys"
  by (auto simp: nibbles_def)

fun pairs :: "bytes \<Rightarrow> bytes" where
  "pairs (x # y # ns) = pack x y # pairs ns"
| "pairs _ = []"

lemma nibble_unat: "(x :: byte) < 16 \<longleftrightarrow> unat x < 16"
  by (simp add: word_less_nat_alt)

lemma nibble_take_bit: "(x :: byte) < 16 \<Longrightarrow> take_bit 4 x = x"
  by (rule unat_eqI) (simp add: nibble_unat unsigned_take_bit_eq take_bit_nat_eq_self)

lemma nibble_bits: "(x :: byte) < 16 \<Longrightarrow> bit x n \<Longrightarrow> n < 4"
  by (metis bit_take_bit_iff nibble_take_bit)

lemma pack_parts:
  assumes "x < 16" "y < 16"
  shows "pack x y div 16 = x \<and> pack x y mod 16 = y"
proof -
  have "drop_bit 4 (pack x y) = x"
    by (rule bit_word_eqI) (auto simp: pack_def bit_simps dest: nibble_bits [OF assms(1)] nibble_bits [OF assms(2)])
  moreover have "take_bit 4 (pack x y) = y"
    by (rule bit_word_eqI) (auto simp: pack_def bit_simps dest: nibble_bits [OF assms(2)])
  ultimately show ?thesis
    by (simp add: drop_bit_eq_div take_bit_eq_mod)
qed

lemma pack_of_parts: "pack (b div 16) (b mod 16) = (b :: byte)"
proof -
  have "push_bit 4 (drop_bit 4 b) OR take_bit 4 b = b"
    by (rule bit_word_eqI) (auto simp: bit_simps)
  then show ?thesis
    by (simp add: pack_def drop_bit_eq_div take_bit_eq_mod)
qed

lemma decodeNibbles_pairs:
  "even (length ns) \<Longrightarrow> length ns div 2 = length zs \<Longrightarrow> decodeNibbles ns (xs @ zs) (length xs) = Ok (xs @ pairs ns)"
proof (induction ns arbitrary: xs zs rule: pairs.induct)
  case (1 x y ns)
  then obtain z zs' where z: "zs = z # zs'" by (cases zs) auto
  have "decodeNibbles ns ((xs @ [pack x y]) @ zs') (length (xs @ [pack x y])) = Ok ((xs @ [pack x y]) @ pairs ns)"
    by (rule 1(1)) (use 1(2,3) z in auto)
  then show ?case by (simp add: z)
qed auto

lemma length_pairs: "length (pairs ns) = length ns div 2"
  by (induction ns rule: pairs.induct) auto

lemma keybytesToHex_simps [simp]:
  "keybytesToHex [] = [16]" "keybytesToHex (b # bs) = b div 16 # b mod 16 # keybytesToHex bs"
  by (simp_all add: keybytesToHex_def)

lemma keybytesToHex_pairs: "nibbles ns \<Longrightarrow> even (length ns) \<Longrightarrow> keybytesToHex (pairs ns) = ns @ [16]"
  by (induction ns rule: pairs.induct) (auto simp: pack_parts)

lemma unat_bound8: "unat (b :: byte) < 16 * 16"
  using unsigned_less [of b] by simp

lemma keybytesToHex_key: "\<exists>ns. keybytesToHex str = ns @ [16] \<and> nibbles ns \<and> length ns = 2 * length str \<and> pairs ns = str"
proof (induction str)
  case (Cons b str)
  then obtain ns where ns: "keybytesToHex str = ns @ [16]" "nibbles ns" "length ns = 2 * length str" "pairs ns = str"
    by blast
  have "b div 16 < 16" "b mod 16 < 16"
    using unat_bound8 [of b] by (simp_all add: nibble_unat unat_div unat_mod less_mult_imp_div_less)
  with ns show ?case
    by (intro exI [of _ "b div 16 # b mod 16 # ns"]) (simp add: pack_of_parts)
qed simp

lemma hasTerm_key [simp]: "hasTerm (ns @ [16])"
  by (simp add: hasTerm_def)

lemma hasTerm_nibbles [simp]: "nibbles ns \<Longrightarrow> \<not> hasTerm ns"
  by (cases ns rule: rev_cases) (auto simp: hasTerm_def)

section \<open>The compact form\<close>

text \<open>A hex key is nibbles and a flag for the terminator; in the compact form the first byte holds both the flag and the parity.\<close>

definition hexkey :: "bytes \<Rightarrow> bool \<Rightarrow> bytes" where
  "hexkey ns t = ns @ (if t then [16] else [])"

definition compact_of :: "bytes \<Rightarrow> bool \<Rightarrow> bytes" where
  "compact_of ns t =
     (let f = (if t then 2 else 0 :: byte) in
      if even (length ns) then pack f 0 # pairs ns else pack (f + 1) (hd ns) # pairs (tl ns))"

lemma hexToCompact_of: "nibbles ns \<Longrightarrow> hexToCompact (hexkey ns t) = Ok (compact_of ns t)"
proof -
  assume ns: "nibbles ns"
  then have t: "hasTerm (hexkey ns t) = t"
    by (simp add: hexkey_def)
  have body: "(if t then take (length (hexkey ns t) - 1) (hexkey ns t) else hexkey ns t) = ns"
    by (simp add: hexkey_def)
  have unf: "hexToCompact (hexkey ns t) =
     (let buf = (replicate (length ns div 2 + 1) 0)[0 := push_bit 5 (if t then 1 else 0)];
          (buf, hex) = (if odd (length ns) then (buf[0 := buf ! 0 OR push_bit 4 1 OR ns ! 0], drop 1 ns) else (buf, ns))
      in decodeNibbles hex buf 1)"
    by (simp only: hexToCompact_def t body Let_def)
  show ?thesis
  proof (cases "even (length ns)")
    case True
    then show ?thesis
      using decodeNibbles_pairs [of ns "replicate (length ns div 2) 0" "[pack (if t then 2 else 0) 0]"]
      unfolding unf by (cases t) (simp_all add: Let_def compact_of_def pack_def)
  next
    case False
    then obtain x xs where x: "ns = x # xs" by (cases ns) auto
    show ?thesis
      using False decodeNibbles_pairs [of xs "replicate (length xs div 2) 0" "[pack ((if t then 2 else 0) + 1) x]"]
      unfolding unf by (cases t) (simp_all add: Let_def compact_of_def pack_def x or.assoc [symmetric])
  qed
qed

lemma compactToHex_compact: "nibbles ns \<Longrightarrow> compactToHex (compact_of ns t) = Ok (hexkey ns t)"
proof -
  assume ns: "nibbles ns"
  show ?thesis
  proof (cases "even (length ns)")
    case True
    then show ?thesis
      using ns pack_parts [of "if t then 2 else 0" 0] keybytesToHex_pairs [OF ns True]
      by (simp add: compactToHex_def compact_of_def Let_def hexkey_def gslice_def)
  next
    case False
    then obtain x xs where x: "ns = x # xs" by (cases ns) auto
    then show ?thesis
      using ns False pack_parts [of "(if t then 2 else 0) + 1" x] keybytesToHex_pairs [of xs]
      by (simp add: compactToHex_def compact_of_def Let_def hexkey_def gslice_def)
  qed
qed

lemma hexToKeybytes_key: "nibbles ns \<Longrightarrow> even (length ns) \<Longrightarrow> hexToKeybytes (hexkey ns t) = Ok (pairs ns)"
  using decodeNibbles_pairs [of ns "replicate (length ns div 2) 0" "[]"]
  by (auto simp: hexToKeybytes_def hexkey_def)

section \<open>The compact form in place\<close>

lemma take_pairs:
  "ni + 1 < length hex \<Longrightarrow> 2 \<le> m \<Longrightarrow> pairs (take m (drop ni hex)) = pack (hex ! ni) (hex ! (ni + 1)) # pairs (take (m - 2) (drop (ni + 2) hex))"
proof -
  assume a: "ni + 1 < length hex" "2 \<le> m"
  then have "drop ni hex = hex ! ni # hex ! (ni + 1) # drop (ni + 2) hex"
    by (simp add: Cons_nth_drop_Suc)
  moreover obtain m' where "m = Suc (Suc m')"
    using a(2) by (metis Suc_le_D numeral_2_eq_2 Suc_le_mono)
  ultimately show ?thesis by simp
qed

lemma compact_loop_pairs:
  assumes "ni \<le> hexLen" "hexLen \<le> length hex" "even (hexLen - ni)" "1 \<le> bi" "bi \<le> ni + 1" "ni < length hex \<or> ni = hexLen"
  shows "compact_loop hexLen bi ni hex =
    Ok (take bi hex @ pairs (take (hexLen - ni) (drop ni hex)) @ drop (bi + (hexLen - ni) div 2) hex)"
  using assms
proof (induction hexLen bi ni hex rule: compact_loop.induct)
  case (1 hexLen bi ni hex)
  show ?case
  proof (cases "ni < hexLen")
    case False
    then show ?thesis
      using 1(2) by (simp add: compact_loop.simps [of hexLen])
  next
    case True
    then have two: "2 \<le> hexLen - ni"
      using 1(4) by (metis One_nat_def Suc_leI even_diff_nat less_diff_conv odd_one le_antisym not_less_eq_eq numeral_2_eq_2 zero_less_diff)
    then have rd: "ni + 1 < length hex" "bi < length hex"
      using 1(3,6) by linarith+
    let ?hex = "hex[bi := pack (hex ! ni) (hex ! (ni + 1))]"
    have "compact_loop hexLen (bi + 1) (ni + 2) ?hex =
      Ok (take (bi + 1) ?hex @ pairs (take (hexLen - (ni + 2)) (drop (ni + 2) ?hex)) @ drop (bi + 1 + (hexLen - (ni + 2)) div 2) ?hex)"
      by (rule 1(1) [OF True]) (use 1 two rd in auto)
    moreover have "drop (ni + 2) ?hex = drop (ni + 2) hex" "drop (bi + 1 + k) ?hex = drop (bi + 1 + k) hex" for k
      using 1(6) by (simp_all add: drop_update_cancel)
    moreover have "take (bi + 1) ?hex = take bi hex @ [pack (hex ! ni) (hex ! (ni + 1))]"
      using rd by (simp add: take_Suc_conv_app_nth)
    moreover have "(hexLen - ni) div 2 = 1 + (hexLen - (ni + 2)) div 2"
      using two by (simp add: le_div_geq)
    ultimately show ?thesis
      using True rd take_pairs [of ni hex "hexLen - ni"] two
      by (simp add: compact_loop.simps [of hexLen bi ni] gindex_def)
  qed
qed

lemma hexToCompactInPlace_key:
  assumes "nibbles ns" "hexkey ns t \<noteq> []"
  shows "\<exists>buf. hexToCompactInPlace (hexkey ns t) = Ok (buf, length (compact_of ns t)) \<and>
    take (length (compact_of ns t)) buf = compact_of ns t \<and> length buf = length (hexkey ns t)"
proof -
  let ?hex = "hexkey ns t" and ?n = "length ns"
  have trm: "(length ?hex > 0 \<and> ?hex ! (length ?hex - 1) = 16) = t"
    using assms hasTerm_nibbles [of ns] by (auto simp: hexkey_def hasTerm_def)
  have len: "(if t then length ?hex - 1 else length ?hex) = ?n"
    by (simp add: hexkey_def)
  have unf: "hexToCompactInPlace ?hex =
     (let firstByte = (if t then push_bit 5 1 else 0 :: byte);
          (firstByte, ni) = (if odd ?n then (firstByte OR push_bit 4 1 OR ?hex ! 0, 1) else (firstByte, 0))
      in rbind (compact_loop ?n 1 ni ?hex) (\<lambda>hex. if hex = [] then Panic else Ok (hex[0 := firstByte], ?n div 2 + 1)))"
    by (simp only: hexToCompactInPlace_def trm len Let_def)
  obtain h hs where h: "?hex = h # hs" using assms(2) by (cases ?hex) auto
  then have "length ?hex = Suc (length hs)" by simp
  then have half: "?n div 2 \<le> length hs"
    by (auto simp: hexkey_def split: if_splits)
  have body: "take ?n ?hex = ns"
    by (simp add: hexkey_def)
  have n: "?n \<le> length ?hex"
    by (simp add: hexkey_def)
  show ?thesis
  proof (cases "even ?n")
    case True
    have "compact_loop ?n 1 0 ?hex = Ok (h # pairs ns @ drop (?n div 2) hs)"
      using compact_loop_pairs [of 0 ?n ?hex 1] body n True h by auto
    then show ?thesis
      using True half unfolding h unf [unfolded h]
      by (cases t) (auto simp: length_pairs compact_of_def pack_def)
  next
    case False
    then obtain x xs where x: "ns = x # xs" by (cases ns) auto
    then have hx: "h = x" using h by (simp add: hexkey_def)
    have "compact_loop ?n 1 1 ?hex = Ok (h # pairs xs @ drop (length xs div 2) hs)"
      using compact_loop_pairs [of 1 ?n ?hex 1] body n False h x by (cases "hs = []") auto
    then show ?thesis
      using False half unfolding h unf [unfolded h]
      by (cases t) (auto simp: length_pairs compact_of_def pack_def x hx or.assoc [symmetric])
  qed
qed

end
