(* ===== verification/Trie.thy ===== *)
theory Trie
  imports TrieKeys Transactions
begin

text \<open>
  The Merkle Patricia trie (trie/trie.go, trie/node.go, trie/hasher.go, trie/node_enc.go,
  trie/trie_reader.go, trie/trie_id.go). A node is the interface of the code with its four implementations and nil; a
  slice of children has 17 entries. The database behind the reader is a parameter, a function from path
  and hash to the encoded node. The tracer is nil in this program (its creation is commented out in
  \<^verbatim>\<open>New\<close>), so its calls do nothing. Paths only name nodes in the database: the code builds them with
  append on shared slices, but no path is read after a deeper one was built from it.
\<close>

section \<open>Nodes (trie/node.go)\<close>

record nodeFlag =
  fl_hash :: "bytes option"
  fl_dirty :: bool

datatype node = NilNode
  | FullNode "node list" nodeFlag
  | ShortNode bytes node nodeFlag
  | HashNode bytes
  | ValueNode bytes

definition newFlag :: nodeFlag where
  "newFlag = \<lparr>fl_hash = None, fl_dirty = True\<rparr>"

fun node_cache :: "node \<Rightarrow> bytes option \<times> bool" where
  "node_cache (FullNode cs fl) = (fl_hash fl, fl_dirty fl)"
| "node_cache (ShortNode k v fl) = (fl_hash fl, fl_dirty fl)"
| "node_cache _ = (None, True)"

section \<open>Decoding (trie/node.go)\<close>

datatype decode_ctx = CtxShort | CtxFull | CtxVal | CtxIndex nat

datatype node_error = UnexpectedEOF | RlpError rlp_error | InvalidValue rlp_error | ElementCount nat
  | OversizedNode nat | InvalidStringSize nat

text \<open>What went wrong and the path to it. A result is an error or a value, or a panic.\<close>

type_synonym 'a decoded = "((node_error \<times> decode_ctx list) + 'a) res"

definition wrapError :: "decode_ctx \<Rightarrow> 'a decoded \<Rightarrow> 'a decoded" where
  "wrapError ctx m = rbind m (\<lambda>r. Ok (case r of Inl (what, stack) \<Rightarrow> Inl (what, stack @ [ctx]) | Inr x \<Rightarrow> Inr x))"

definition ebind :: "('e + 'a) res \<Rightarrow> ('a \<Rightarrow> ('e + 'b) res) \<Rightarrow> ('e + 'b) res" where
  "ebind m f = rbind m (\<lambda>r. case r of Inl e \<Rightarrow> Ok (Inl e) | Inr x \<Rightarrow> f x)"

definition rlp_try :: "(rlp_error \<Rightarrow> node_error) \<Rightarrow> (rlp_error + 'a) res \<Rightarrow> 'a decoded" where
  "rlp_try f m = rbind m (\<lambda>r. Ok (case r of Inl e \<Rightarrow> Inl (f e, []) | Inr x \<Rightarrow> Inr x))"

text \<open>The next three are given the decoder for embedded nodes.\<close>

definition decodeRef :: "(bytes \<Rightarrow> node decoded) \<Rightarrow> bytes \<Rightarrow> (node \<times> bytes) decoded" where
  "decodeRef dec buf =
     ebind (rlp_try RlpError (Split buf)) (\<lambda>(kind, val, rest).
       if kind = KList then
         (if length buf - length rest > 32 then Ok (Inl (OversizedNode (length buf - length rest), []))
          else ebind (dec buf) (\<lambda>n. Ok (Inr (n, rest))))
       else if kind = KString \<and> length val = 0 then Ok (Inr (NilNode, rest))
       else if kind = KString \<and> length val = 32 then Ok (Inr (HashNode val, rest))
       else Ok (Inl (InvalidStringSize (length val), [])))"

definition decodeShort :: "(bytes \<Rightarrow> node decoded) \<Rightarrow> bytes option \<Rightarrow> bytes \<Rightarrow> node decoded" where
  "decodeShort dec hash elems =
     ebind (rlp_try RlpError (SplitString elems)) (\<lambda>(kbuf, rest).
     rbind (compactToHex kbuf) (\<lambda>key.
       let flag = \<lparr>fl_hash = hash, fl_dirty = False\<rparr> in
       if hasTerm key then
         ebind (rlp_try InvalidValue (SplitString rest)) (\<lambda>(val, _). Ok (Inr (ShortNode key (ValueNode val) flag)))
       else ebind (wrapError CtxVal (decodeRef dec rest)) (\<lambda>(r, _). Ok (Inr (ShortNode key r flag)))))"

text \<open>\<^verbatim>\<open>i\<close> counts the children decoded so far.\<close>

fun decode_children :: "(bytes \<Rightarrow> node decoded) \<Rightarrow> nat \<Rightarrow> nat \<Rightarrow> bytes \<Rightarrow> (node list \<times> bytes) decoded" where
  "decode_children dec 0 i elems = Ok (Inr ([], elems))"
| "decode_children dec (Suc m) i elems =
     ebind (wrapError (CtxIndex i) (decodeRef dec elems)) (\<lambda>(cld, rest).
     ebind (decode_children dec m (i + 1) rest) (\<lambda>(cs, rest). Ok (Inr (cld # cs, rest))))"

definition decodeFull :: "(bytes \<Rightarrow> node decoded) \<Rightarrow> bytes option \<Rightarrow> bytes \<Rightarrow> node decoded" where
  "decodeFull dec hash elems =
     ebind (decode_children dec 16 0 elems) (\<lambda>(cs, rest).
     ebind (rlp_try RlpError (SplitString rest)) (\<lambda>(val, _).
       Ok (Inr (FullNode (cs @ [if length val > 0 then ValueNode val else NilNode]) \<lparr>fl_hash = hash, fl_dirty = False\<rparr>))))"

text \<open>An embedded node is shorter than the node that holds it, so the length of the encoding is enough fuel.\<close>

primrec decodeNode :: "nat \<Rightarrow> bytes option \<Rightarrow> bytes \<Rightarrow> node decoded" where
  "decodeNode 0 = (\<lambda>hash buf. NoFuel)"
| "decodeNode (Suc f) = (\<lambda>hash buf.
     if length buf = 0 then Ok (Inl (UnexpectedEOF, []))
     else ebind (rlp_try RlpError (SplitList buf)) (\<lambda>(elems, _).
       rbind (CountValues elems) (\<lambda>r.
         let c = (case r of Inl _ \<Rightarrow> 0 | Inr c \<Rightarrow> c) in
         if c = 2 then wrapError CtxShort (decodeShort (decodeNode f None) hash elems)
         else if c = 17 then wrapError CtxFull (decodeFull (decodeNode f None) hash elems)
         else Ok (Inl (ElementCount c, [])))))"

definition mustDecodeNode :: "bytes \<Rightarrow> bytes \<Rightarrow> node res" where
  "mustDecodeNode hash buf =
     rbind (decodeNode (length buf + 1) (Some hash) buf) (\<lambda>r. case r of Inl _ \<Rightarrow> Panic | Inr n \<Rightarrow> Ok n)"

section \<open>Reading nodes (trie/trie_reader.go)\<close>

text \<open>
  The reader of a trie: nil, or what the database answers to a path and a hash. \<^verbatim>\<open>None\<close> stands for an
  error of the database.
\<close>

type_synonym reader = "(bytes \<Rightarrow> hash \<Rightarrow> bytes option) option"

datatype trie_error = MissingNodeError bytes hash

definition nodeBlob :: "reader \<Rightarrow> bytes \<Rightarrow> hash \<Rightarrow> trie_error + bytes" where
  "nodeBlob R path hash =
     (case R of None \<Rightarrow> Inl (MissingNodeError path hash)
      | Some get \<Rightarrow>
          (case get path hash of
             None \<Rightarrow> Inl (MissingNodeError path hash)
           | Some blob \<Rightarrow> if length blob = 0 then Inl (MissingNodeError path hash) else Inr blob))"

definition resolveAndTrack :: "reader \<Rightarrow> bytes \<Rightarrow> bytes \<Rightarrow> (trie_error + node) res" where
  "resolveAndTrack R n prefix =
     (case nodeBlob R prefix (be_word n) of
        Inl e \<Rightarrow> Ok (Inl e)
      | Inr blob \<Rightarrow> rbind (mustDecodeNode n blob) (\<lambda>n. Ok (Inr n)))"

definition resolve :: "reader \<Rightarrow> node \<Rightarrow> bytes \<Rightarrow> (trie_error + node) res" where
  "resolve R n prefix = (case n of HashNode h \<Rightarrow> resolveAndTrack R h prefix | _ \<Rightarrow> Ok (Inr n))"

section \<open>Lookup (trie/trie.go)\<close>

text \<open>\<^verbatim>\<open>n.Children[i]\<close> and its assignment.\<close>

definition child :: "node list \<Rightarrow> byte \<Rightarrow> node res" where
  "child cs i = gindex cs (unat i)"

definition set_child :: "node list \<Rightarrow> byte \<Rightarrow> node \<Rightarrow> node list res" where
  "set_child cs i n = (if unat i < length cs then Ok (cs[unat i := n]) else Panic)"

text \<open>
  Value, new node, whether a node was resolved, and the error. Fuel: every step consumes a nibble of the
  key or resolves a node.
\<close>

fun tryGet :: "nat \<Rightarrow> reader \<Rightarrow> node \<Rightarrow> bytes \<Rightarrow> nat \<Rightarrow> (bytes option \<times> node \<times> bool \<times> trie_error option) res" where
  "tryGet 0 R n key pos = NoFuel"
| "tryGet (Suc f) R NilNode key pos = Ok (None, NilNode, False, None)"
| "tryGet (Suc f) R (ValueNode v) key pos = Ok (Some v, ValueNode v, False, None)"
| "tryGet (Suc f) R (ShortNode k v fl) key pos =
     (if length key - pos < length k \<or> k \<noteq> take (length k) (drop pos key)
      then Ok (None, ShortNode k v fl, False, None)
      else rbind (tryGet f R v key (pos + length k)) (\<lambda>(val, newnode, didResolve, err).
        Ok (val, if err = None \<and> didResolve then ShortNode k newnode fl else ShortNode k v fl, didResolve, err)))"
| "tryGet (Suc f) R (FullNode cs fl) key pos =
     rbind (gindex key pos) (\<lambda>i. rbind (child cs i) (\<lambda>c.
     rbind (tryGet f R c key (pos + 1)) (\<lambda>(val, newnode, didResolve, err).
       if err = None \<and> didResolve then
         rbind (set_child cs i newnode) (\<lambda>cs'. Ok (val, FullNode cs' fl, didResolve, err))
       else Ok (val, FullNode cs fl, didResolve, err))))"
| "tryGet (Suc f) R (HashNode h) key pos =
     rbind (resolveAndTrack R h (take pos key)) (\<lambda>r. case r of
         Inl e \<Rightarrow> Ok (None, HashNode h, True, Some e)
       | Inr c \<Rightarrow> rbind (tryGet f R c key pos) (\<lambda>(val, newnode, _, err). Ok (val, newnode, True, err)))"

text \<open>A node by its path: the blob, the new node, how many nodes were resolved, and the error.\<close>

datatype getnode_error = NonConsensusNode | GetMissing trie_error

fun tryGetNode :: "nat \<Rightarrow> reader \<Rightarrow> node \<Rightarrow> bytes \<Rightarrow> nat \<Rightarrow> (bytes option \<times> node \<times> nat \<times> getnode_error option) res" where
  "tryGetNode 0 R n path pos = NoFuel"
| "tryGetNode (Suc f) R n path pos =
     (if n = NilNode then Ok (None, NilNode, 0, None)
      else if pos \<ge> length path then
        (case (case n of HashNode h \<Rightarrow> Some h | _ \<Rightarrow> fst (node_cache n)) of
           None \<Rightarrow> Ok (None, n, 0, Some NonConsensusNode)
         | Some h \<Rightarrow>
             (case nodeBlob R path (be_word h) of
                Inl e \<Rightarrow> Ok (None, n, 1, Some (GetMissing e))
              | Inr blob \<Rightarrow> Ok (Some blob, n, 1, None)))
      else case n of
        NilNode \<Rightarrow> Panic
      | ValueNode v \<Rightarrow> Ok (None, NilNode, 0, None)
      | ShortNode k v fl \<Rightarrow>
          (if length path - pos < length k \<or> k \<noteq> take (length k) (drop pos path) then Ok (None, n, 0, None)
           else rbind (tryGetNode f R v path (pos + length k)) (\<lambda>(item, newnode, resolved, err).
             Ok (item, if err = None \<and> resolved > 0 then ShortNode k newnode fl else n, resolved, err)))
      | FullNode cs fl \<Rightarrow>
          rbind (child cs (path ! pos)) (\<lambda>c.
          rbind (tryGetNode f R c path (pos + 1)) (\<lambda>(item, newnode, resolved, err).
            if err = None \<and> resolved > 0 then
              rbind (set_child cs (path ! pos) newnode) (\<lambda>cs'. Ok (item, FullNode cs' fl, resolved, err))
            else Ok (item, n, resolved, err)))
      | HashNode h \<Rightarrow>
          rbind (resolveAndTrack R h (take pos path)) (\<lambda>r. case r of
              Inl e \<Rightarrow> Ok (None, n, 1, Some (GetMissing e))
            | Inr c \<Rightarrow> rbind (tryGetNode f R c path pos) (\<lambda>(item, newnode, resolved, err).
                Ok (item, newnode, resolved + 1, err))))"

section \<open>Insertion\<close>

text \<open>Whether the trie changed, the new node, and the error.\<close>

type_synonym change = "(bool \<times> node \<times> trie_error option) res"

fun trie_insert :: "nat \<Rightarrow> reader \<Rightarrow> node \<Rightarrow> bytes \<Rightarrow> bytes \<Rightarrow> node \<Rightarrow> change" where
  "trie_insert 0 R n prefix key val = NoFuel"
| "trie_insert (Suc f) R n prefix key val =
     (if length key = 0 then
        (case n of
           ValueNode v \<Rightarrow> (case val of ValueNode w \<Rightarrow> Ok (v \<noteq> w, val, None) | _ \<Rightarrow> Panic)
         | _ \<Rightarrow> Ok (True, val, None))
      else case n of
        ShortNode k v fl \<Rightarrow>
          (let matchlen = prefixLen key k in
           if matchlen = length k then
             rbind (trie_insert f R v (prefix @ take matchlen key) (drop matchlen key) val) (\<lambda>(dirty, nn, err).
               Ok (if \<not> dirty \<or> err \<noteq> None then (False, n, err) else (True, ShortNode k nn newFlag, None)))
           else
             rbind (gindex k matchlen) (\<lambda>a.
             rbind (trie_insert f R NilNode (prefix @ take (matchlen + 1) k) (drop (matchlen + 1) k) v) (\<lambda>(_, old, err).
             rbind (set_child (replicate 17 NilNode) a old) (\<lambda>branch.
             if err \<noteq> None then Ok (False, NilNode, err)
             else
               rbind (gindex key matchlen) (\<lambda>b.
               rbind (trie_insert f R NilNode (prefix @ take (matchlen + 1) key) (drop (matchlen + 1) key) val) (\<lambda>(_, new, err).
               rbind (set_child branch b new) (\<lambda>branch.
               if err \<noteq> None then Ok (False, NilNode, err)
               else if matchlen = 0 then Ok (True, FullNode branch newFlag, None)
               else Ok (True, ShortNode (take matchlen key) (FullNode branch newFlag) newFlag, None))))))))
      | FullNode cs fl \<Rightarrow>
          rbind (child cs (key ! 0)) (\<lambda>c.
          rbind (trie_insert f R c (prefix @ [key ! 0]) (drop 1 key) val) (\<lambda>(dirty, nn, err).
            if \<not> dirty \<or> err \<noteq> None then Ok (False, n, err)
            else rbind (set_child cs (key ! 0) nn) (\<lambda>cs'. Ok (True, FullNode cs' newFlag, None))))
      | NilNode \<Rightarrow> Ok (True, ShortNode key val newFlag, None)
      | HashNode h \<Rightarrow>
          rbind (resolveAndTrack R h prefix) (\<lambda>r. case r of
              Inl e \<Rightarrow> Ok (False, NilNode, Some e)
            | Inr rn \<Rightarrow> rbind (trie_insert f R rn prefix key val) (\<lambda>(dirty, nn, err).
                Ok (if \<not> dirty \<or> err \<noteq> None then (False, rn, err) else (True, nn, None))))
      | ValueNode v \<Rightarrow> Panic)"

section \<open>Deletion\<close>

text \<open>The scan over the children: the index of the only one that is not nil, -1 for none, -2 for more.\<close>

fun only_child :: "node list \<Rightarrow> int \<Rightarrow> int \<Rightarrow> int" where
  "only_child [] i pos = pos"
| "only_child (c # cs) i pos =
     (if c \<noteq> NilNode then (if pos = -1 then only_child cs (i + 1) i else -2)
      else only_child cs (i + 1) pos)"

text \<open>A full node of which a child has gone: with a single child left it becomes a short node.\<close>

definition reduce_node :: "reader \<Rightarrow> bytes \<Rightarrow> node list \<Rightarrow> change" where
  "reduce_node R prefix cs =
     (let pos = only_child cs 0 (-1) in
      if pos \<ge> 0 then
        rbind (gindex cs (nat pos)) (\<lambda>c.
        if pos \<noteq> 16 then
          rbind (resolve R c (prefix @ [word_of_int pos])) (\<lambda>r. case r of
              Inl e \<Rightarrow> Ok (False, NilNode, Some e)
            | Inr cnode \<Rightarrow>
                (case cnode of
                   ShortNode ck cv _ \<Rightarrow> Ok (True, ShortNode (word_of_int pos # ck) cv newFlag, None)
                 | _ \<Rightarrow> Ok (True, ShortNode [word_of_int pos] c newFlag, None)))
        else Ok (True, ShortNode [word_of_int pos] c newFlag, None))
      else Ok (True, FullNode cs newFlag, None))"

fun trie_delete :: "nat \<Rightarrow> reader \<Rightarrow> node \<Rightarrow> bytes \<Rightarrow> bytes \<Rightarrow> change" where
  "trie_delete 0 R n prefix key = NoFuel"
| "trie_delete (Suc f) R (ShortNode k v fl) prefix key =
     (let matchlen = prefixLen key k in
      if matchlen < length k then Ok (False, ShortNode k v fl, None)
      else if matchlen = length key then Ok (True, NilNode, None)
      else
        rbind (trie_delete f R v (prefix @ take (length k) key) (drop (length k) key)) (\<lambda>(dirty, c, err).
          if \<not> dirty \<or> err \<noteq> None then Ok (False, ShortNode k v fl, err)
          else case c of
                 ShortNode ck cv _ \<Rightarrow> Ok (True, ShortNode (k @ ck) cv newFlag, None)
               | _ \<Rightarrow> Ok (True, ShortNode k c newFlag, None)))"
| "trie_delete (Suc f) R (FullNode cs fl) prefix key =
     rbind (gindex key 0) (\<lambda>i. rbind (child cs i) (\<lambda>c.
     rbind (trie_delete f R c (prefix @ [i]) (drop 1 key)) (\<lambda>(dirty, nn, err).
       if \<not> dirty \<or> err \<noteq> None then Ok (False, FullNode cs fl, err)
       else
         rbind (set_child cs i nn) (\<lambda>cs.
         if nn \<noteq> NilNode then Ok (True, FullNode cs newFlag, None)
         else reduce_node R prefix cs))))"
| "trie_delete (Suc f) R (ValueNode v) prefix key = Ok (True, NilNode, None)"
| "trie_delete (Suc f) R NilNode prefix key = Ok (False, NilNode, None)"
| "trie_delete (Suc f) R (HashNode h) prefix key =
     rbind (resolveAndTrack R h prefix) (\<lambda>r. case r of
         Inl e \<Rightarrow> Ok (False, NilNode, Some e)
       | Inr rn \<Rightarrow> rbind (trie_delete f R rn prefix key) (\<lambda>(dirty, nn, err).
           Ok (if \<not> dirty \<or> err \<noteq> None then (False, rn, err) else (True, nn, None))))"

section \<open>Encoding and hashing (trie/node_enc.go, trie/hasher.go)\<close>

text \<open>
  What \<^verbatim>\<open>encode\<close> writes into the encoder buffer. A key that reaches it is compact already, and the
  compact form exists for every key, so the panic of an index out of range is no case of it.
\<close>

fun node_item :: "node \<Rightarrow> item" where
  "node_item NilNode = RBytes []"
| "node_item (HashNode h) = RBytes h"
| "node_item (ValueNode v) = RBytes v"
| "node_item (ShortNode k v fl) = RList [RBytes k, node_item v]"
| "node_item (FullNode cs fl) = RList (map node_item cs)"

definition nodeToBytes :: "node \<Rightarrow> bytes" where
  "nodeToBytes n = EncodeToBytes (node_item n)"

definition compact_key :: "bytes \<Rightarrow> bytes" where
  "compact_key k = (case hexToCompact k of Ok c \<Rightarrow> c | _ \<Rightarrow> [])"

text \<open>
  \<^verbatim>\<open>shortnodeToHash\<close> and \<^verbatim>\<open>fullnodeToHash\<close>: the collapsed node, or the hash of its encoding when that has
  at least 32 bytes or is forced.
\<close>

definition nodeToHash :: "(bytes \<Rightarrow> hash) \<Rightarrow> node \<Rightarrow> bool \<Rightarrow> node" where
  "nodeToHash K n force =
     (let enc = nodeToBytes n in
      if length enc < 32 \<and> \<not> force then n else HashNode (hash_bytes (K enc)))"

definition cached_flags :: "node \<Rightarrow> nodeFlag \<Rightarrow> nodeFlag" where
  "cached_flags hashed fl = fl\<lparr>fl_hash := (case hashed of HashNode h \<Rightarrow> Some h | _ \<Rightarrow> None)\<rparr>"

text \<open>
  The hashed or collapsed node, and the node with the hashes it now caches. The sixteen goroutines of a
  parallel hasher each write a slot of their own, so the result is that of the loop.
\<close>

fun hash_node :: "(bytes \<Rightarrow> hash) \<Rightarrow> node \<Rightarrow> bool \<Rightarrow> node \<times> node" where
  "hash_node K (ShortNode k v fl) force =
     (case fl_hash fl of
        Some h \<Rightarrow> (HashNode h, ShortNode k v fl)
      | None \<Rightarrow>
          let (cv, hv) = (case v of FullNode _ _ \<Rightarrow> hash_node K v False | ShortNode _ _ _ \<Rightarrow> hash_node K v False | _ \<Rightarrow> (v, v));
              hashed = nodeToHash K (ShortNode (compact_key k) cv fl) force
          in (hashed, ShortNode k hv (cached_flags hashed fl)))"
| "hash_node K (FullNode cs fl) force =
     (case fl_hash fl of
        Some h \<Rightarrow> (HashNode h, FullNode cs fl)
      | None \<Rightarrow>
          let hs = map (\<lambda>c. if c = NilNode then (ValueNode [], NilNode) else hash_node K c False) (take 16 cs);
              hashed = nodeToHash K (FullNode (map fst hs @ drop 16 cs) fl) force
          in (hashed, FullNode (map snd hs @ drop 16 cs) (cached_flags hashed fl)))"
| "hash_node K n force = (n, n)"

section \<open>The trie\<close>

text \<open>The reader of a trie answers for the owner it was created with.\<close>

record Trie =
  root :: node
  t_owner :: hash
  unhashed :: nat
  t_reader :: reader

record ID =
  StateRoot :: hash
  Owner :: hash
  Root :: hash

definition emptyRoot :: hash where
  "emptyRoot = 0x56e81f171bcc55a6ff8345e692c0f86e5b48e01b996cadc001622fb5e363b421"

definition StateTrieID :: "hash \<Rightarrow> ID" where
  "StateTrieID h = \<lparr>StateRoot = h, Owner = 0, Root = h\<rparr>"

definition StorageTrieID :: "hash \<Rightarrow> hash \<Rightarrow> hash \<Rightarrow> ID" where
  "StorageTrieID stateRoot owner h = \<lparr>StateRoot = stateRoot, Owner = owner, Root = h\<rparr>"

definition TrieID :: "hash \<Rightarrow> ID" where
  "TrieID h = \<lparr>StateRoot = h, Owner = 0, Root = h\<rparr>"

text \<open>
  What answers for the nodes: for a state root that is available, a function from owner, path and hash to
  the encoded node.
\<close>

type_synonym NodeReader = "hash \<Rightarrow> (hash \<Rightarrow> bytes \<Rightarrow> hash \<Rightarrow> bytes option) option"

datatype new_error = StateNotFound hash | NewMissing trie_error

definition newTrieReader :: "hash \<Rightarrow> hash \<Rightarrow> NodeReader \<Rightarrow> new_error + reader" where
  "newTrieReader stateRoot owner db =
     (case db stateRoot of None \<Rightarrow> Inl (StateNotFound stateRoot) | Some get \<Rightarrow> Inr (Some (get owner)))"

definition newEmptyReader :: reader where
  "newEmptyReader = None"

definition Trie_New :: "ID \<Rightarrow> NodeReader \<Rightarrow> (new_error + Trie) res" where
  "Trie_New i db =
     (case newTrieReader (StateRoot i) (Owner i) db of
        Inl e \<Rightarrow> Ok (Inl e)
      | Inr R \<Rightarrow>
          if Root i \<noteq> 0 \<and> Root i \<noteq> emptyRoot then
            rbind (resolveAndTrack R (hash_bytes (Root i)) []) (\<lambda>r. Ok (case r of
                Inl e \<Rightarrow> Inl (NewMissing e)
              | Inr n \<Rightarrow> Inr \<lparr>root = n, t_owner = Owner i, unhashed = 0, t_reader = R\<rparr>))
          else Ok (Inr \<lparr>root = NilNode, t_owner = Owner i, unhashed = 0, t_reader = R\<rparr>))"

definition Trie_Copy :: "Trie \<Rightarrow> Trie" where
  "Trie_Copy t = \<lparr>root = root t, t_owner = t_owner t, unhashed = unhashed t, t_reader = t_reader t\<rparr>"

definition trie_fuel :: "bytes \<Rightarrow> nat" where
  "trie_fuel k = 2 * length k + 3"

definition TryGet :: "bytes \<Rightarrow> Trie \<Rightarrow> ((trie_error + bytes option) \<times> Trie) res" where
  "TryGet key t =
     (let k = keybytesToHex key in
      rbind (tryGet (trie_fuel k) (t_reader t) (root t) k 0) (\<lambda>(val, newroot, didResolve, err).
        Ok (case err of
              None \<Rightarrow> (Inr val, if didResolve then t\<lparr>root := newroot\<rparr> else t)
            | Some e \<Rightarrow> (Inl e, t))))"

definition TryGetNode :: "bytes \<Rightarrow> Trie \<Rightarrow> ((getnode_error + bytes option) \<times> nat \<times> Trie) res" where
  "TryGetNode path t =
     rbind (compactToHex path) (\<lambda>p.
     rbind (tryGetNode (trie_fuel p) (t_reader t) (root t) p 0) (\<lambda>(item, newroot, resolved, err).
       Ok (case err of
             Some e \<Rightarrow> (Inl e, resolved, t)
           | None \<Rightarrow> (Inr item, resolved, if resolved > 0 then t\<lparr>root := newroot\<rparr> else t))))"

definition set_root :: "Trie \<Rightarrow> change \<Rightarrow> (trie_error option \<times> Trie) res" where
  "set_root t m = rbind m (\<lambda>(_, n, err). Ok (case err of None \<Rightarrow> (None, t\<lparr>root := n\<rparr>) | Some e \<Rightarrow> (Some e, t)))"

definition TryUpdate :: "bytes \<Rightarrow> bytes \<Rightarrow> Trie \<Rightarrow> (trie_error option \<times> Trie) res" where
  "TryUpdate key val t =
     (let t = t\<lparr>unhashed := unhashed t + 1\<rparr>; k = keybytesToHex key in
      if length val \<noteq> 0 then set_root t (trie_insert (trie_fuel k) (t_reader t) (root t) [] k (ValueNode val))
      else set_root t (trie_delete (trie_fuel k) (t_reader t) (root t) [] k))"

text \<open>\<^verbatim>\<open>Update\<close> writes an error to the log and goes on.\<close>

definition Trie_Update :: "bytes \<Rightarrow> bytes \<Rightarrow> Trie \<Rightarrow> Trie res" where
  "Trie_Update key value t = rbind (TryUpdate key value t) (\<lambda>(_, t). Ok t)"

definition TryDelete :: "bytes \<Rightarrow> Trie \<Rightarrow> (trie_error option \<times> Trie) res" where
  "TryDelete key t =
     (let t = t\<lparr>unhashed := unhashed t + 1\<rparr>; k = keybytesToHex key in
      set_root t (trie_delete (trie_fuel k) (t_reader t) (root t) [] k))"

definition hashRoot :: "(bytes \<Rightarrow> hash) \<Rightarrow> Trie \<Rightarrow> node \<times> node \<times> Trie" where
  "hashRoot K t =
     (if root t = NilNode then (HashNode (hash_bytes emptyRoot), NilNode, t)
      else let (hashed, cached) = hash_node K (root t) True in (hashed, cached, t\<lparr>unhashed := 0\<rparr>))"

definition Trie_Hash :: "(bytes \<Rightarrow> hash) \<Rightarrow> Trie \<Rightarrow> (hash \<times> Trie) res" where
  "Trie_Hash K t =
     (let (hashed, cached, t) = hashRoot K t; t = t\<lparr>root := cached\<rparr> in
      case hashed of HashNode h \<Rightarrow> Ok (be_word h, t) | _ \<Rightarrow> Panic)"

definition Trie_Reset :: "Trie \<Rightarrow> Trie" where
  "Trie_Reset t = t\<lparr>root := NilNode, t_owner := 0, unhashed := 0\<rparr>"

end
