(* ===== verification/TrieSpec.thy ===== *)
theory TrieSpec
  imports TrieKeys Rlp
begin

text \<open>
  The trie as the protocol defines it: a tree without caches and without nodes left in a database, its
  canonical form, lookup, insertion and deletion, and the encoding that the root hash is taken of. The
  main lemma is that a canonical trie is determined by what it maps the keys to.
\<close>

section \<open>Trees\<close>

datatype etrie = ENil | EValue bytes | EShort bytes etrie | EFull "etrie list"

text \<open>A key as it enters the trie: nibbles and the terminator.\<close>

fun hexterm :: "bytes \<Rightarrow> bool" where
  "hexterm [] = False"
| "hexterm (x # ks) = (if x = 16 then ks = [] else x < 16 \<and> hexterm ks)"

definition value_ok :: "bytes \<Rightarrow> bool" where
  "value_ok v \<longleftrightarrow> v \<noteq> [] \<and> length v < 2 ^ 32"

definition is_leaf :: "etrie \<Rightarrow> bool" where
  "is_leaf t \<longleftrightarrow> (\<exists>v. t = EValue v \<and> value_ok v)"

text \<open>
  The canonical form: an extension leads to a branching, a leaf has the rest of the key with the
  terminator, a branching has at least two children, its last one being the value that ends here.
\<close>

fun canon :: "etrie \<Rightarrow> bool" where
  "canon ENil = False"
| "canon (EValue v) = False"
| "canon (EShort ks c) \<longleftrightarrow>
     hexterm ks \<and> is_leaf c \<or> ks \<noteq> [] \<and> nibbles ks \<and> (\<exists>cs. c = EFull cs) \<and> canon c"
| "canon (EFull cs) \<longleftrightarrow> length cs = 17 \<and> (\<forall>c \<in> set (take 16 cs). c = ENil \<or> canon c) \<and>
     (cs ! 16 = ENil \<or> is_leaf (cs ! 16)) \<and> (\<exists>i < 17. \<exists>j < 17. i \<noteq> j \<and> cs ! i \<noteq> ENil \<and> cs ! j \<noteq> ENil)"

text \<open>What stands under the rest of a key: a value at its end, a canonical trie or nothing before.\<close>

definition stands :: "etrie \<Rightarrow> bytes \<Rightarrow> bool" where
  "stands t k \<longleftrightarrow> t = ENil \<or> (if k = [] then is_leaf t else canon t)"

section \<open>Operations\<close>

fun elookup :: "etrie \<Rightarrow> bytes \<Rightarrow> bytes option" where
  "elookup ENil k = None"
| "elookup (EValue v) k = (if k = [] then Some v else None)"
| "elookup (EShort ks c) k = (if take (length ks) k = ks then elookup c (drop (length ks) k) else None)"
| "elookup (EFull cs) k =
     (case k of [] \<Rightarrow> None | x # k \<Rightarrow> if unat x < length cs then elookup (cs ! unat x) k else None)"

definition put :: "bytes \<Rightarrow> etrie \<Rightarrow> etrie" where
  "put k c = (if k = [] then c else EShort k c)"

fun einsert :: "etrie \<Rightarrow> bytes \<Rightarrow> bytes \<Rightarrow> etrie" where
  "einsert ENil k v = put k (EValue v)"
| "einsert (EValue w) k v = EValue v"
| "einsert (EShort ks c) k v =
     (let m = prefixLen k ks in
      if m = length ks then EShort ks (einsert c (drop m k) v)
      else put (take m k) (EFull ((replicate 17 ENil)
             [unat (ks ! m) := put (drop (m + 1) ks) c, unat (k ! m) := put (drop (m + 1) k) (EValue v)])))"
| "einsert (EFull cs) k v =
     (case k of [] \<Rightarrow> EFull cs
      | x # k \<Rightarrow> if unat x < length cs then EFull (cs[unat x := einsert (cs ! unat x) k v]) else EFull cs)"

definition children :: "etrie list \<Rightarrow> nat list" where
  "children cs = filter (\<lambda>i. cs ! i \<noteq> ENil) [0..<length cs]"

text \<open>A branching with one child left becomes a short node, joined with a short child.\<close>

definition reduce :: "etrie list \<Rightarrow> etrie" where
  "reduce cs = (case children cs of
       [i] \<Rightarrow> (case cs ! i of EShort ks c \<Rightarrow> EShort (of_nat i # ks) c | c \<Rightarrow> EShort [of_nat i] c)
     | _ \<Rightarrow> EFull cs)"

definition join :: "bytes \<Rightarrow> etrie \<Rightarrow> etrie" where
  "join ks c = (case c of EShort ks' c' \<Rightarrow> EShort (ks @ ks') c' | c' \<Rightarrow> EShort ks c')"

fun edelete :: "etrie \<Rightarrow> bytes \<Rightarrow> etrie" where
  "edelete ENil k = ENil"
| "edelete (EValue w) k = ENil"
| "edelete (EShort ks c) k =
     (let m = prefixLen k ks in
      if m < length ks then EShort ks c
      else if m = length k then ENil
      else join ks (edelete c (drop m k)))"
| "edelete (EFull cs) k =
     (case k of [] \<Rightarrow> EFull cs
      | x # k \<Rightarrow>
          if unat x < length cs then
            (let c = edelete (cs ! unat x) k in
             if c \<noteq> ENil \<or> cs ! unat x = ENil then EFull (cs[unat x := c]) else reduce (cs[unat x := c]))
          else EFull cs)"

section \<open>Encoding\<close>

definition is_node :: "etrie \<Rightarrow> bool" where
  "is_node t \<longleftrightarrow> t \<noteq> ENil \<and> (\<forall>v. t \<noteq> EValue v)"

text \<open>A node of less than 32 bytes stands in its parent, a larger one is replaced by its hash.\<close>

definition shrink :: "(bytes \<Rightarrow> hash) \<Rightarrow> item \<Rightarrow> item" where
  "shrink K it = (if length (rlp_spec it) < 32 then it else RBytes (hash_bytes (K (rlp_spec it))))"

fun eitem :: "(bytes \<Rightarrow> hash) \<Rightarrow> etrie \<Rightarrow> item" where
  "eitem K ENil = RBytes []"
| "eitem K (EValue v) = RBytes v"
| "eitem K (EShort ks c) = RList [RBytes (compact_of (if hasTerm ks then butlast ks else ks) (hasTerm ks)),
     if is_node c then shrink K (eitem K c) else eitem K c]"
| "eitem K (EFull cs) = RList (map (\<lambda>c. if is_node c then shrink K (eitem K c) else eitem K c) cs)"

definition encode :: "(bytes \<Rightarrow> hash) \<Rightarrow> etrie \<Rightarrow> bytes" where
  "encode K t = rlp_spec (eitem K t)"

section \<open>Keys\<close>

lemma hexterm_snoc: "hexterm k \<longleftrightarrow> (\<exists>ns. k = ns @ [16] \<and> nibbles ns)"
proof (induction k)
  case (Cons x k)
  show ?case
  proof
    assume "hexterm (x # k)"
    then show "\<exists>ns. x # k = ns @ [16] \<and> nibbles ns"
      using Cons by (auto split: if_splits intro: exI [of _ "[]"] exI [of _ "x # ns" for ns])
  next
    assume "\<exists>ns. x # k = ns @ [16] \<and> nibbles ns"
    then obtain ns where ns: "x # k = ns @ [16]" "nibbles ns" by blast
    then show "hexterm (x # k)" using Cons by (cases ns) (auto split: if_splits)
  qed
qed simp

lemma hexterm_keybytes: "hexterm (keybytesToHex key)"
  using keybytesToHex_key [of key] by (auto simp: hexterm_snoc)

lemma hexterm_not_Nil: "hexterm k \<Longrightarrow> k \<noteq> []"
  by auto

lemma hexterm_head: "hexterm (x # k) \<Longrightarrow> unat x < 17 \<and> (unat x = 16 \<longleftrightarrow> k = []) \<and> (k \<noteq> [] \<longrightarrow> hexterm k)"
proof -
  assume a: "hexterm (x # k)"
  have "unat x = 16 \<longleftrightarrow> x = 16" using unat_eqI [of x 16] by auto
  with a show ?thesis by (auto simp: nibble_unat split: if_splits)
qed

lemma hexterm_append: "k \<noteq> [] \<Longrightarrow> hexterm (ns @ k) \<longleftrightarrow> nibbles ns \<and> hexterm k"
  by (induction ns) auto

lemma hexterm_drop: "hexterm k \<Longrightarrow> m < length k \<Longrightarrow> nibbles (take m k) \<and> hexterm (drop m k)"
  using hexterm_append [of "drop m k" "take m k"] by simp

lemma nibbles_drop: "nibbles k \<Longrightarrow> nibbles (take m k) \<and> nibbles (drop m k)"
  by (metis append_take_drop_id nibbles_simps(3))

lemma prefixLen_le: "prefixLen xs ys \<le> length xs \<and> prefixLen xs ys \<le> length ys"
  by (induction xs ys rule: prefixLen.induct) auto

lemma prefixLen_take: "take (prefixLen xs ys) xs = take (prefixLen xs ys) ys"
  by (induction xs ys rule: prefixLen.induct) auto

lemma prefixLen_differ:
  "prefixLen xs ys < length xs \<Longrightarrow> prefixLen xs ys < length ys \<Longrightarrow> xs ! prefixLen xs ys \<noteq> ys ! prefixLen xs ys"
  by (induction xs ys rule: prefixLen.induct) (auto split: if_splits)

lemma prefixLen_all: "prefixLen xs ys = length ys \<longleftrightarrow> take (length ys) xs = ys"
  by (induction xs ys rule: prefixLen.induct) (auto split: if_splits)

text \<open>The segment of a short node, and when it is short enough to end inside a key.\<close>

lemma prefix_inside:
  assumes "hexterm k" "hexterm ks \<or> nibbles ks" "prefixLen k ks < length ks"
  shows "prefixLen k ks < length k"
proof (rule ccontr)
  assume "\<not> ?thesis"
  then have "prefixLen k ks = length k"
    using prefixLen_le [of k ks] by simp
  then have k: "k = take (length k) ks"
    using prefixLen_take [of k ks] by simp
  with assms(1) have "hexterm (take (length k) ks)" "length k < length ks"
    using assms(3) \<open>prefixLen k ks = length k\<close> by auto
  then show False
    using assms(2) hexterm_drop [of ks "length k"] nibbles_drop [of ks "length k"]
    by (auto simp: hexterm_snoc)
qed

lemma leaf_segment: "hexterm k \<Longrightarrow> hexterm ks \<Longrightarrow> take (length ks) k = ks \<Longrightarrow> k = ks"
  using hexterm_drop [of k "length ks"] by (cases "length ks < length k") (auto simp: hexterm_snoc)

lemma ext_segment: "hexterm k \<Longrightarrow> nibbles ks \<Longrightarrow> take (length ks) k = ks \<Longrightarrow> length ks < length k \<and> hexterm (drop (length ks) k)"
proof -
  assume a: "hexterm k" "nibbles ks" "take (length ks) k = ks"
  have "length ks < length k"
  proof (rule ccontr)
    assume "\<not> length ks < length k"
    then show False using a by (auto simp: hexterm_snoc)
  qed
  then show ?thesis using a hexterm_drop by blast
qed

section \<open>Branchings and short nodes\<close>

definition slot_ok :: "nat \<Rightarrow> etrie \<Rightarrow> bool" where
  "slot_ok i t \<longleftrightarrow> t = ENil \<or> (if i = 16 then is_leaf t else canon t)"

lemma slot_below: "i < 16 \<Longrightarrow> slot_ok i t \<longleftrightarrow> t = ENil \<or> canon t"
  by (simp add: slot_ok_def)

lemma canon_full:
  "canon (EFull cs) \<longleftrightarrow> length cs = 17 \<and> (\<forall>i < 17. slot_ok i (cs ! i)) \<and> (\<exists>i < 17. \<exists>j < 17. i \<noteq> j \<and> cs ! i \<noteq> ENil \<and> cs ! j \<noteq> ENil)"
proof -
  have "(\<forall>i < 17. slot_ok i (cs ! i)) \<longleftrightarrow> (\<forall>c \<in> set (take 16 cs). c = ENil \<or> canon c) \<and> (cs ! 16 = ENil \<or> is_leaf (cs ! 16))"
    if "length cs = 17"
  proof -
    have "(\<forall>i < 17. slot_ok i (cs ! i)) \<longleftrightarrow> (\<forall>i < 16. slot_ok i (cs ! i)) \<and> slot_ok 16 (cs ! 16)"
      by (metis (no_types, lifting) eval_nat_numeral(3) less_Suc_eq semiring_norm(26,27))
    moreover have "(\<forall>i < 16. slot_ok i (cs ! i)) \<longleftrightarrow> (\<forall>c \<in> set (take 16 cs). c = ENil \<or> canon c)"
      using that by (simp add: all_set_conv_all_nth slot_below)
    ultimately show ?thesis by (simp add: slot_ok_def)
  qed
  then show ?thesis by auto
qed

declare canon.simps(4) [simp del]

text \<open>What a short node may hold, also with no segment left.\<close>

definition segment_ok :: "bytes \<Rightarrow> etrie \<Rightarrow> bool" where
  "segment_ok ks c \<longleftrightarrow> hexterm ks \<and> is_leaf c \<or> nibbles ks \<and> (\<exists>cs. c = EFull cs) \<and> canon c"

lemma canon_short: "canon (EShort ks c) \<longleftrightarrow> ks \<noteq> [] \<and> segment_ok ks c"
  by (auto simp: segment_ok_def)

declare canon.simps(3) [simp del]

lemma put_slot: "segment_ok (x # ks) c \<Longrightarrow> unat x < 17 \<and> slot_ok (unat x) (put ks c) \<and> put ks c \<noteq> ENil"
proof -
  assume a: "segment_ok (x # ks) c"
  show ?thesis
  proof (cases "hexterm (x # ks) \<and> is_leaf c")
    case True
    then have h: "unat x < 17" "unat x = 16 \<longleftrightarrow> ks = []" "ks \<noteq> [] \<longrightarrow> hexterm ks"
      using hexterm_head by blast+
    have "canon (EShort ks c)" if "ks \<noteq> []"
      using that True h a by (simp add: canon_short segment_ok_def)
    then show ?thesis
      using h True by (auto simp: slot_ok_def put_def is_leaf_def)
  next
    case False
    then have n: "x < 16" "nibbles ks" "\<exists>cs. c = EFull cs" "canon c"
      using a by (auto simp: segment_ok_def)
    then have "unat x < 16" by (simp add: nibble_unat)
    moreover have "canon (EShort ks c)" if "ks \<noteq> []"
      using that n by (simp add: canon_short segment_ok_def)
    ultimately show ?thesis
      using n by (auto simp: slot_ok_def put_def)
  qed
qed

lemma segment_drop: "segment_ok ks c \<Longrightarrow> m < length ks \<Longrightarrow> segment_ok (drop m ks) c"
  using hexterm_drop [of ks m] nibbles_drop [of ks m] by (auto simp: segment_ok_def)

lemma elookup_put: "elookup (put ks c) j = (if take (length ks) j = ks then elookup c (drop (length ks) j) else None)"
  by (simp add: put_def)

lemma elookup_put_append:
  "elookup (put (p @ q) c) j = (if take (length p) j = p then elookup (put q c) (drop (length p) j) else None)"
proof -
  have "take (length p + length q) j = p @ q \<longleftrightarrow> take (length p) j = p \<and> take (length q) (drop (length p) j) = q"
    by (cases "length p \<le> length j") (auto simp: take_add)
  then show ?thesis by (simp add: elookup_put add.commute)
qed

lemma elookup_put_value: "elookup (put s (EValue v)) j = (if j = s then Some v else None)"
  by (auto simp: elookup_put)

section \<open>Insertion\<close>

definition key_ok :: "bytes \<Rightarrow> bool" where
  "key_ok k \<longleftrightarrow> k = [] \<or> hexterm k"

lemma key_ok_tail: "key_ok (x # k) \<Longrightarrow> unat x < 17 \<and> key_ok k \<and> (unat x = 16 \<longleftrightarrow> k = [])"
  using hexterm_head [of x k] by (auto simp: key_ok_def)

lemma slot_stands: "key_ok (x # k) \<Longrightarrow> slot_ok (unat x) t \<longleftrightarrow> stands t k"
  using key_ok_tail [of x k] by (auto simp: slot_ok_def stands_def)

text \<open>Where a key leaves a segment: the two children of the new branching.\<close>

lemma branch_off:
  assumes k: "hexterm k" and v: "value_ok v" and s: "segment_ok ks c" and m: "prefixLen k ks = m" "m < length ks"
  defines "br \<equiv> EFull ((replicate 17 ENil)
    [unat (ks ! m) := put (drop (m + 1) ks) c, unat (k ! m) := put (drop (m + 1) k) (EValue v)])"
  shows "m < length k" "canon (put (take m k) br)"
    "hexterm j \<Longrightarrow> elookup (put (take m k) br) j = (if j = k then Some v else elookup (EShort ks c) j)"
proof -
  have seg: "hexterm ks \<or> nibbles ks" using s by (auto simp: segment_ok_def)
  show ml: "m < length k" using prefix_inside [OF k seg] m by simp
  have d: "ks ! m \<noteq> k ! m" using prefixLen_differ [of k ks] ml m by auto
  let ?old = "put (drop (m + 1) ks) c" and ?new = "put (drop (m + 1) k) (EValue v)"
  have ks: "ks = take m ks @ ks ! m # drop (m + 1) ks" and kk: "k = take m k @ k ! m # drop (m + 1) k"
    using m(2) ml id_take_nth_drop by (metis Suc_eq_plus1)+
  have tk: "take m k = take m ks" using prefixLen_take [of k ks] m by simp
  have "segment_ok (ks ! m # drop (m + 1) ks) c"
    using segment_drop [OF s m(2)] by (simp add: Cons_nth_drop_Suc m(2))
  note old = put_slot [OF this]
  have "segment_ok k (EValue v)"
    using k v by (simp add: segment_ok_def is_leaf_def)
  then have "segment_ok (k ! m # drop (m + 1) k) (EValue v)"
    using segment_drop [of k "EValue v" m] ml by (simp add: Cons_nth_drop_Suc)
  note new = put_slot [OF this]
  have ne: "unat (ks ! m) \<noteq> unat (k ! m)" using d unat_eqI by blast
  have "\<exists>i < 17. \<exists>j < 17. i \<noteq> j \<and> (replicate 17 ENil)[unat (ks ! m) := ?old, unat (k ! m) := ?new] ! i \<noteq> ENil \<and>
      (replicate 17 ENil)[unat (ks ! m) := ?old, unat (k ! m) := ?new] ! j \<noteq> ENil"
    by (rule exI [of _ "unat (ks ! m)"], use old in simp, rule exI [of _ "unat (k ! m)"]) (use old new ne in simp)
  then have br: "canon br"
    unfolding br_def canon_full using old new by (auto simp: nth_list_update slot_ok_def)
  have "nibbles (take m k)" using hexterm_drop [OF k ml] by blast
  then show "canon (put (take m k) br)"
    using br by (auto simp: put_def canon_short segment_ok_def br_def)
  have look: "elookup br (z # j') = (if z # j' = drop m k then Some v else elookup (put (drop m ks) c) (z # j'))"
    if "unat z < 17" for z j'
  proof -
    have "drop m ks = ks ! m # drop (m + 1) ks" "drop m k = k ! m # drop (m + 1) k"
      using m(2) ml by (simp_all add: Cons_nth_drop_Suc)
    then show ?thesis
      using that ne old new unat_eqI [of z "ks ! m"] unat_eqI [of z "k ! m"]
      by (auto simp: br_def elookup_put nth_list_update elookup_put_value)
  qed
  show "elookup (put (take m k) br) j = (if j = k then Some v else elookup (EShort ks c) j)" if "hexterm j"
  proof (cases "take m j = take m k")
    case False
    then have "j \<noteq> k" by auto
    then show ?thesis
      using False ml tk elookup_put_append [of "take m ks" "drop m ks" c j] m(2)
      by (cases ks) (auto simp: elookup_put)
  next
    case True
    then have "m < length j \<and> hexterm (drop m j)"
      using ext_segment [of j "take m k"] that hexterm_drop [OF k ml] ml by simp
    then obtain z j' where z: "drop m j = z # j'" "hexterm (z # j')" by (cases "drop m j") auto
    have "j = k \<longleftrightarrow> drop m j = drop m k" using True by (metis append_take_drop_id)
    moreover have "elookup (EShort ks c) j = elookup (put (drop m ks) c) (drop m j)"
      using elookup_put_append [of "take m ks" "drop m ks" c j] True tk m(2) by (cases ks) (auto simp: put_def)
    ultimately show ?thesis
      using True look [of z j'] z hexterm_head [of z j'] ml by (simp add: elookup_put)
  qed
qed

text \<open>Keys that can stand at the same place.\<close>

definition key_like :: "bytes \<Rightarrow> bytes \<Rightarrow> bool" where
  "key_like k j \<longleftrightarrow> (k = [] \<longleftrightarrow> j = []) \<and> (j \<noteq> [] \<longrightarrow> hexterm j)"

definition maps_as :: "bytes \<Rightarrow> etrie \<Rightarrow> (bytes \<Rightarrow> bytes option) \<Rightarrow> bool" where
  "maps_as k t f \<longleftrightarrow> (\<forall>j. key_like k j \<longrightarrow> elookup t j = f j)"

lemma segment_match:
  assumes "segment_ok ks c" "hexterm k" "take (length ks) k = ks"
  shows "(drop (length ks) k = [] \<longleftrightarrow> is_leaf c) \<and> (is_leaf c \<longleftrightarrow> hexterm ks) \<and> (drop (length ks) k \<noteq> [] \<longrightarrow> hexterm (drop (length ks) k))"
proof (cases "hexterm ks \<and> is_leaf c")
  case True
  then show ?thesis using leaf_segment [OF assms(2) _ assms(3)] by auto
next
  case False
  then have "nibbles ks" "\<exists>cs. c = EFull cs" using assms(1) by (auto simp: segment_ok_def)
  then show ?thesis using ext_segment [OF assms(2) _ assms(3)] by (auto simp: is_leaf_def hexterm_snoc)
qed

lemma segment_stands:
  assumes "segment_ok ks c" "key_ok k" "k \<noteq> []" "take (length ks) k = ks"
  shows "stands c (drop (length ks) k) \<and> key_ok (drop (length ks) k) \<and>
    (stands c' (drop (length ks) k) \<and> c' \<noteq> ENil \<and> ((\<exists>cs. c = EFull cs) \<longrightarrow> (\<exists>cs. c' = EFull cs)) \<longrightarrow> segment_ok ks c') \<and>
    (\<forall>j. key_like k j \<and> take (length ks) j = ks \<longrightarrow> key_like (drop (length ks) k) (drop (length ks) j) \<and>
       (j = k \<longleftrightarrow> drop (length ks) j = drop (length ks) k))"
proof -
  have k: "hexterm k" using assms by (auto simp: key_ok_def)
  note m = segment_match [OF assms(1) k assms(4)]
  have "key_like (drop (length ks) k) (drop (length ks) j) \<and> (j = k \<longleftrightarrow> drop (length ks) j = drop (length ks) k)"
    if "key_like k j" "take (length ks) j = ks" for j
  proof -
    have "hexterm j" using that(1) assms(3) by (auto simp: key_like_def)
    then have "(drop (length ks) j = [] \<longleftrightarrow> is_leaf c) \<and> (drop (length ks) j \<noteq> [] \<longrightarrow> hexterm (drop (length ks) j))"
      using segment_match [OF assms(1) _ that(2)] by blast
    moreover have "j = k \<longleftrightarrow> drop (length ks) j = drop (length ks) k"
      using that(2) assms(4) by (metis append_take_drop_id)
    ultimately show ?thesis using m by (auto simp: key_like_def)
  qed
  then show ?thesis
    using m assms(1,2) by (auto simp: stands_def segment_ok_def key_ok_def is_leaf_def split: if_splits)
qed

lemma full_update:
  assumes "canon (EFull cs)" "key_ok (x # k)" "stands c k" "c \<noteq> ENil"
  shows "canon (EFull (cs[unat x := c]))"
proof -
  obtain i j where ij: "i < 17" "j < 17" "i \<noteq> j" "cs ! i \<noteq> ENil" "cs ! j \<noteq> ENil"
    using assms(1) by (auto simp: canon_full)
  have x: "unat x < 17" using key_ok_tail [OF assms(2)] by blast
  then have "cs[unat x := c] ! i \<noteq> ENil" "cs[unat x := c] ! j \<noteq> ENil"
    using ij assms(1,4) by (auto simp: nth_list_update canon_full)
  moreover have "slot_ok n (cs[unat x := c] ! n)" if "n < 17" for n
    using that x assms slot_stands [of x k c] by (auto simp: nth_list_update canon_full)
  ultimately show ?thesis
    using ij assms(1) unfolding canon_full by auto
qed

lemma full_update_lookup:
  assumes "maps_as k c (\<lambda>j. if j = k then w else elookup (cs ! unat x) j)" "key_ok (x # k)" "length cs = 17"
  shows "maps_as (x # k) (EFull (cs[unat x := c])) (\<lambda>j. if j = x # k then w else elookup (EFull cs) j)"
  unfolding maps_as_def
proof (intro allI impI)
  fix j assume "key_like (x # k) j"
  then obtain y j' where j: "j = y # j'" "hexterm (y # j')" by (cases j) (auto simp: key_like_def)
  note y = hexterm_head [OF j(2)]
  have x: "unat x < 17" using key_ok_tail [OF assms(2)] by blast
  have "key_like k j'" if "unat x = unat y"
    using that y key_ok_tail [OF assms(2)] by (auto simp: key_like_def)
  then show "elookup (EFull (cs[unat x := c])) j = (if j = x # k then w else elookup (EFull cs) j)"
    using x y j(1) assms(1,3) unat_eqI [of x y] by (cases "x = y") (auto simp: maps_as_def nth_list_update)
qed

lemma einsert_correct:
  assumes "stands t k" "key_ok k" "value_ok v"
  shows "stands (einsert t k v) k \<and> einsert t k v \<noteq> ENil \<and> ((\<exists>cs. t = EFull cs) \<longrightarrow> (\<exists>cs. einsert t k v = EFull cs)) \<and>
    maps_as k (einsert t k v) (\<lambda>j. if j = k then Some v else elookup t j)"
  using assms
proof (induction t k v rule: einsert.induct)
  case (1 k v)
  then show ?case
    by (auto simp: put_def stands_def is_leaf_def canon_short segment_ok_def key_ok_def maps_as_def key_like_def)
next
  case (2 w k v)
  then show ?case by (auto simp: stands_def is_leaf_def maps_as_def key_like_def split: if_splits)
next
  case (3 ks c k v)
  then have k: "k \<noteq> []" "hexterm k" "ks \<noteq> []" "segment_ok ks c"
    by (auto simp: stands_def is_leaf_def key_ok_def canon_short split: if_splits)
  show ?case
  proof (cases "prefixLen k ks = length ks")
    case True
    then have t: "take (length ks) k = ks" by (simp add: prefixLen_all)
    let ?c = "einsert c (drop (length ks) k) v"
    note s = segment_stands [OF k(4) 3(3) k(1) t, of ?c]
    have IH: "stands ?c (drop (length ks) k) \<and> ?c \<noteq> ENil \<and> ((\<exists>cs. c = EFull cs) \<longrightarrow> (\<exists>cs. ?c = EFull cs)) \<and>
        maps_as (drop (length ks) k) ?c (\<lambda>j. if j = drop (length ks) k then Some v else elookup c j)"
      using 3(1) [OF refl True] s 3(4) True by simp
    have "segment_ok ks ?c" using IH s by blast
    moreover have "maps_as k (EShort ks ?c) (\<lambda>j. if j = k then Some v else elookup (EShort ks c) j)"
      using IH s t by (auto simp: maps_as_def)
    ultimately show ?thesis
      using True k by (simp add: Let_def stands_def canon_short)
  next
    case False
    then have m: "prefixLen k ks < length ks" using prefixLen_le [of k ks] by simp
    show ?thesis
      using branch_off [OF k(2) 3(4) k(4) refl m] False 3(3) k
      by (auto simp: Let_def stands_def key_ok_def maps_as_def key_like_def)
  qed
next
  case (4 cs k v)
  then have c: "canon (EFull cs)" and k: "k \<noteq> []" by (auto simp: stands_def is_leaf_def split: if_splits)
  obtain x k' where x: "k = x # k'" using k by (cases k) auto
  have l: "unat x < length cs" "length cs = 17" using c key_ok_tail [of x k'] 4(3) x by (simp_all add: canon_full)
  let ?c = "einsert (cs ! unat x) k' v"
  have "slot_ok (unat x) (cs ! unat x)" using c l by (simp add: canon_full)
  then have st: "stands (cs ! unat x) k'" using slot_stands [of x k'] 4(3) x by blast
  have IH: "stands ?c k' \<and> ?c \<noteq> ENil \<and> maps_as k' ?c (\<lambda>j. if j = k' then Some v else elookup (cs ! unat x) j)"
    using 4(1) [OF x l(1) st _ 4(4)] key_ok_tail [of x k'] 4(3) x by simp
  have "canon (EFull (cs[unat x := ?c]))"
    by (rule full_update) (use c 4(3) x IH in auto)
  moreover have "maps_as k (EFull (cs[unat x := ?c])) (\<lambda>j. if j = k then Some v else elookup (EFull cs) j)"
    unfolding x by (rule full_update_lookup) (use l 4(3) x IH in auto)
  ultimately show ?case using x l by (simp add: stands_def)
qed

section \<open>Deletion\<close>

lemma slot_put:
  assumes "slot_ok i t" "t \<noteq> ENil" "i < 17"
  obtains ks c where "t = put ks c" "segment_ok (of_nat i # ks) c"
    "(case t of EShort ks c \<Rightarrow> EShort (of_nat i # ks) c | c \<Rightarrow> EShort [of_nat i] c) = EShort (of_nat i # ks) c"
proof (cases "i = 16")
  case True
  then show ?thesis
    using that [of "[]" t] assms by (auto simp: slot_ok_def segment_ok_def put_def is_leaf_def)
next
  case False
  then have c: "canon t" and i: "i < 16" "(of_nat i :: byte) < 16" "(of_nat i :: byte) \<noteq> 16"
    using assms by (auto simp: slot_ok_def word_less_nat_alt word_unat_eq_iff unat_of_nat_small)
  show ?thesis
  proof (cases t)
    case (EShort ks c')
    then show ?thesis
      using that [of ks c'] c i by (auto simp: canon_short segment_ok_def put_def)
  next
    case (EFull cs)
    then show ?thesis
      using that [of "[]" t] c i by (auto simp: segment_ok_def put_def)
  qed (use c in auto)
qed

lemma reduce_correct:
  assumes "length cs = 17" "\<forall>i < 17. slot_ok i (cs ! i)" "i < 17" "cs ! i \<noteq> ENil"
  shows "canon (reduce cs) \<and> (\<forall>j. hexterm j \<longrightarrow> elookup (reduce cs) j = elookup (EFull cs) j) \<and>
    ((\<exists>cs'. reduce cs = EFull cs') \<or> (\<exists>ks c. reduce cs = EShort ks c))"
proof -
  have set: "set (children cs) = {i. i < 17 \<and> cs ! i \<noteq> ENil}" and d: "distinct (children cs)"
    using assms(1) by (auto simp: children_def)
  consider (one) i where "children cs = [i]" | (more) i j ns where "children cs = i # j # ns"
    using set assms(3,4) by (cases "children cs" rule: remdups_adj.cases) auto
  then show ?thesis
  proof cases
    case (one i)
    then have i: "i < 17" "cs ! i \<noteq> ENil" and others: "\<And>j. j < 17 \<Longrightarrow> j \<noteq> i \<Longrightarrow> cs ! j = ENil"
      using set by auto
    obtain ks c where p: "cs ! i = put ks c" "segment_ok (of_nat i # ks) c" and r: "reduce cs = EShort (of_nat i # ks) c"
      using slot_put [of i "cs ! i"] assms(2) i one by (auto simp: reduce_def)
    have ui: "unat (of_nat i :: byte) = i" using i(1) by (simp add: unat_of_nat_small)
    have "elookup (reduce cs) j = elookup (EFull cs) j" if "hexterm j" for j
    proof (cases j)
      case (Cons y j')
      then have "unat y < 17" using hexterm_head [of y j'] that by simp
      then show ?thesis
        using Cons r p(1) ui others [of "unat y"] assms(1) by (cases "unat y = i") (auto simp: elookup_put)
    qed (use that in simp)
    then show ?thesis using p(2) r by (simp add: canon_short)
  next
    case (more i j ns)
    then have "i \<noteq> j" "i < 17" "j < 17" "cs ! i \<noteq> ENil" "cs ! j \<noteq> ENil"
      using set d by auto
    then show ?thesis using more assms(1,2) by (auto simp: reduce_def canon_full)
  qed
qed

lemma join_correct:
  assumes "nibbles ks" "ks \<noteq> []" "canon c"
  shows "canon (join ks c) \<and> (\<forall>j. elookup (join ks c) j = elookup (EShort ks c) j) \<and> (\<exists>ks' c'. join ks c = EShort ks' c')"
proof (cases c)
  case (EShort ks' c')
  then have c: "ks' \<noteq> []" "segment_ok ks' c'" using assms(3) by (auto simp: canon_short)
  then have "segment_ok (ks @ ks') c'" using assms(1) by (auto simp: segment_ok_def hexterm_append)
  then show ?thesis
    using EShort assms(2) c(1) elookup_put_append [of ks ks' c'] by (simp add: join_def canon_short put_def)
next
  case (EFull cs)
  then show ?thesis using assms by (auto simp: join_def canon_short segment_ok_def)
qed (use assms in auto)

lemma edelete_correct:
  assumes "stands t k" "key_ok k"
  shows "stands (edelete t k) k \<and>
    ((\<exists>cs. t = EFull cs) \<longrightarrow> (\<exists>cs. edelete t k = EFull cs) \<or> (\<exists>ks c. edelete t k = EShort ks c)) \<and>
    maps_as k (edelete t k) (\<lambda>j. if j = k then None else elookup t j)"
  using assms
proof (induction t k rule: edelete.induct)
  case (1 k)
  then show ?case by (simp add: stands_def maps_as_def)
next
  case (2 w k)
  then show ?case by (auto simp: stands_def maps_as_def key_like_def is_leaf_def split: if_splits)
next
  case (3 ks c k)
  then have k: "k \<noteq> []" "hexterm k" "ks \<noteq> []" "segment_ok ks c"
    by (auto simp: stands_def is_leaf_def key_ok_def canon_short split: if_splits)
  show ?case
  proof (cases "prefixLen k ks = length ks")
    case False
    then have "prefixLen k ks < length ks" "take (length ks) k \<noteq> ks"
      using prefixLen_le [of k ks] False by (auto simp: prefixLen_all le_neq_implies_less)
    then show ?thesis using 3(2) by (auto simp: maps_as_def)
  next
    case True
    then have t: "take (length ks) k = ks" by (simp add: prefixLen_all)
    note m = segment_match [OF k(4,2) t]
    show ?thesis
    proof (cases "length k = length ks")
      case l: True
      then have "k = ks" "drop (length ks) k = []" using t by auto
      then have "hexterm ks" using m by blast
      then have "take (length ks) j = ks \<longleftrightarrow> j = k" if "hexterm j" for j
        using leaf_segment [OF that \<open>hexterm ks\<close>] \<open>k = ks\<close> by auto
      then show ?thesis
        using True l k(1) \<open>k = ks\<close> by (simp add: stands_def maps_as_def key_like_def)
    next
      case False
      let ?c = "edelete c (drop (length ks) k)"
      have "length ks \<le> length k" using arg_cong [OF t, of length] by simp
      then have ne: "drop (length ks) k \<noteq> []" using False by simp
      then have "\<not> is_leaf c" using m by blast
      then have e: "nibbles ks" "\<exists>cs. c = EFull cs" using k(4) unfolding segment_ok_def by blast+
      note s = segment_stands [OF k(4) 3(3) k(1) t, of ?c]
      have IH: "stands ?c (drop (length ks) k) \<and> ((\<exists>cs. ?c = EFull cs) \<or> (\<exists>ks c. ?c = EShort ks c)) \<and>
          maps_as (drop (length ks) k) ?c (\<lambda>j. if j = drop (length ks) k then None else elookup c j)"
        using 3(1) [OF refl] True False s e(2) by simp
      then have "canon ?c" using ne by (auto simp: stands_def)
      then have j: "canon (join ks ?c) \<and> (\<forall>j. elookup (join ks ?c) j = elookup (EShort ks ?c) j) \<and> (\<exists>ks' c'. join ks ?c = EShort ks' c')"
        using join_correct e(1) k(3) IH by blast
      have "maps_as k (EShort ks ?c) (\<lambda>j. if j = k then None else elookup (EShort ks c) j)"
        using IH s t unfolding maps_as_def by auto
      then have "maps_as k (join ks ?c) (\<lambda>j. if j = k then None else elookup (EShort ks c) j)"
        using j unfolding maps_as_def by simp
      then show ?thesis
        using j True False k(1) by (simp add: Let_def stands_def)
    qed
  qed
next
  case (4 cs k)
  then have c: "canon (EFull cs)" and k: "k \<noteq> []" by (auto simp: stands_def is_leaf_def split: if_splits)
  obtain x k' where x: "k = x # k'" using k by (cases k) auto
  have l: "unat x < length cs" "length cs = 17" using c key_ok_tail [of x k'] 4(3) x by (simp_all add: canon_full)
  let ?c = "edelete (cs ! unat x) k'" and ?cs = "cs[unat x := edelete (cs ! unat x) k']"
  have "slot_ok (unat x) (cs ! unat x)" using c l by (simp add: canon_full)
  then have st: "stands (cs ! unat x) k'" using slot_stands [of x k'] 4(3) x by blast
  have IH: "stands ?c k' \<and> maps_as k' ?c (\<lambda>j. if j = k' then None else elookup (cs ! unat x) j)"
    using 4(1) [OF x l(1) st] key_ok_tail [of x k'] 4(3) x by simp
  have maps: "maps_as k (EFull ?cs) (\<lambda>j. if j = k then None else elookup (EFull cs) j)"
    unfolding x by (rule full_update_lookup) (use l 4(3) x IH in auto)
  show ?case
  proof (cases "?c \<noteq> ENil \<or> cs ! unat x = ENil")
    case True
    then have "canon (EFull ?cs)"
    proof (cases "cs ! unat x = ENil")
      case True
      then have "?cs = cs" by (metis edelete.simps(1) list_update_id)
      then show ?thesis using c by simp
    next
      case False
      then show ?thesis using full_update [OF c, of x k' ?c] 4(3) x IH True by auto
    qed
    then show ?thesis using True maps x l by (simp add: Let_def stands_def)
  next
    case False
    obtain i where i: "i < 17" "i \<noteq> unat x" "cs ! i \<noteq> ENil"
      using c by (auto simp: canon_full)
    have "slot_ok n (?cs ! n)" if "n < 17" for n
      using that c l False by (auto simp: nth_list_update canon_full slot_ok_def)
    then have r: "canon (reduce ?cs) \<and> (\<forall>j. hexterm j \<longrightarrow> elookup (reduce ?cs) j = elookup (EFull ?cs) j) \<and>
        ((\<exists>cs'. reduce ?cs = EFull cs') \<or> (\<exists>ks c. reduce ?cs = EShort ks c))"
      using reduce_correct [of ?cs i] i l by simp
    then have "maps_as k (reduce ?cs) (\<lambda>j. if j = k then None else elookup (EFull cs) j)"
      using maps k unfolding maps_as_def key_like_def by metis
    then show ?thesis using False r x l by (simp add: Let_def stands_def)
  qed
qed

section \<open>A canonical trie is determined by its contents\<close>

lemma slot_lookup:
  assumes "slot_ok i t" "t \<noteq> ENil" "i < 17" "canon t \<Longrightarrow> i < 16 \<Longrightarrow> \<exists>j. hexterm j \<and> elookup t j \<noteq> None"
  shows "\<exists>j. hexterm (of_nat i # j) \<and> elookup t j \<noteq> None"
proof (cases "i = 16")
  case True
  then show ?thesis using assms by (intro exI [of _ "[]"]) (auto simp: slot_ok_def is_leaf_def)
next
  case False
  then have "canon t" "i < 16" using assms by (auto simp: slot_ok_def)
  then obtain j where "hexterm j" "elookup t j \<noteq> None" using assms(4) by blast
  then show ?thesis
    using \<open>i < 16\<close> by (intro exI [of _ j]) (auto simp: word_less_nat_alt word_unat_eq_iff unat_of_nat_small)
qed

lemma full_lookup: "i < 17 \<Longrightarrow> length cs = 17 \<Longrightarrow> elookup (EFull cs) (of_nat i # j) = elookup (cs ! i) j"
  by (simp add: unat_of_nat_small)

lemma canon_nonempty: "canon t \<Longrightarrow> \<exists>j. hexterm j \<and> elookup t j \<noteq> None"
proof (induction t rule: canon.induct)
  case (3 ks c)
  then consider "hexterm ks" "is_leaf c" | "nibbles ks" "canon c" by (auto simp: canon_short segment_ok_def)
  then show ?case
  proof cases
    case 1
    then show ?thesis by (intro exI [of _ ks]) (auto simp: is_leaf_def)
  next
    case 2
    then obtain j where "hexterm j" "elookup c j \<noteq> None" using 3(1) by blast
    then show ?thesis using 2 hexterm_append [of j ks] by (intro exI [of _ "ks @ j"]) (cases "j = []", auto)
  qed
next
  case (4 cs)
  then obtain i where i: "i < 17" "cs ! i \<noteq> ENil" "slot_ok i (cs ! i)" "length cs = 17"
    by (auto simp: canon_full)
  have "cs ! i \<in> set (take 16 cs)" if "i < 16"
    using that i(4) by (auto simp: in_set_conv_nth intro!: exI [of _ i])
  then have "\<exists>j. hexterm (of_nat i # j) \<and> elookup (cs ! i) j \<noteq> None"
    by (intro slot_lookup [OF i(3,2,1)] 4(1)) auto
  then show ?case
    using full_lookup [OF i(1,4)] by metis
qed auto

lemma full_heads:
  assumes "canon (EFull cs)"
  shows "\<exists>x y j j'. x \<noteq> y \<and> hexterm (x # j) \<and> hexterm (y # j') \<and> elookup (EFull cs) (x # j) \<noteq> None \<and> elookup (EFull cs) (y # j') \<noteq> None"
proof -
  obtain m n where mn: "m < 17" "n < 17" "m \<noteq> n" "cs ! m \<noteq> ENil" "cs ! n \<noteq> ENil"
    using assms by (auto simp: canon_full)
  then obtain j j' where "hexterm (of_nat m # j)" "elookup (cs ! m) j \<noteq> None" "hexterm (of_nat n # j')" "elookup (cs ! n) j' \<noteq> None"
    using slot_lookup [OF _ _ _ canon_nonempty] assms unfolding canon_full by metis
  moreover have "(of_nat m :: byte) \<noteq> of_nat n"
    using mn by (simp add: of_nat_eq_word)
  ultimately show ?thesis
    using mn assms full_lookup [of _ cs] unfolding canon_full by metis
qed

lemma segment_prefix:
  assumes "canon (EFull cs)" "nibbles ks" "\<forall>j. hexterm j \<longrightarrow> elookup (EShort ks (EFull cs)) j \<noteq> None \<longrightarrow> take (length ks') j = ks'"
  shows "length ks' \<le> length ks \<and> take (length ks') ks = ks'"
proof -
  obtain x y j j' where h: "x \<noteq> y" "hexterm (x # j)" "hexterm (y # j')"
      "elookup (EFull cs) (x # j) \<noteq> None" "elookup (EFull cs) (y # j') \<noteq> None"
    using full_heads [OF assms(1)] by blast
  have "take (length ks') (ks @ x # j) = ks'" "take (length ks') (ks @ y # j') = ks'"
    using assms(2,3) h hexterm_append [of "x # j" ks] hexterm_append [of "y # j'" ks]
    by (auto simp del: hexterm.simps elookup.simps(4))
  then show ?thesis
  proof (cases "length ks' \<le> length ks")
    case False
    then have "ks @ x # take (length ks' - Suc (length ks)) j = ks @ y # take (length ks' - Suc (length ks)) j'"
      using \<open>take (length ks') (ks @ x # j) = ks'\<close> \<open>take (length ks') (ks @ y # j') = ks'\<close> by (simp add: take_Cons')
    then show ?thesis using h(1) by simp
  qed simp
qed

lemma short_dom: "elookup (EShort ks c) j \<noteq> None \<Longrightarrow> take (length ks) j = ks"
  by (auto split: if_splits)

lemma leaf_dom: "is_leaf c \<Longrightarrow> hexterm ks \<Longrightarrow> hexterm j \<Longrightarrow> elookup (EShort ks c) j \<noteq> None \<longleftrightarrow> j = ks"
  using leaf_segment [of j ks] by (auto simp: is_leaf_def)

lemma full_not_short:
  assumes "canon (EFull cs)" "ks \<noteq> []" "\<forall>j. hexterm j \<longrightarrow> elookup (EFull cs) j = elookup (EShort ks c) j"
  shows False
proof -
  obtain x y j j' where h: "x \<noteq> y" "hexterm (x # j)" "hexterm (y # j')"
      "elookup (EFull cs) (x # j) \<noteq> None" "elookup (EFull cs) (y # j') \<noteq> None"
    using full_heads [OF assms(1)] by blast
  then have "take (length ks) (x # j) = ks" "take (length ks) (y # j') = ks"
    using assms(3) short_dom by metis+
  then show False using h(1) assms(2) by (cases ks) auto
qed

lemma ext_not_leaf:
  assumes "canon (EFull cs)" "nibbles ks" "is_leaf c" "hexterm ks'"
    "\<forall>j. hexterm j \<longrightarrow> elookup (EShort ks (EFull cs)) j = elookup (EShort ks' c) j"
  shows False
proof -
  have "\<forall>j. hexterm j \<longrightarrow> elookup (EShort ks (EFull cs)) j \<noteq> None \<longrightarrow> take (length ks') j = ks'"
    using assms(5) short_dom by metis
  then have "length ks' \<le> length ks \<and> take (length ks') ks = ks'"
    using segment_prefix [OF assms(1,2)] by blast
  then have "nibbles ks'" using nibbles_drop [OF assms(2), of "length ks'"] by metis
  then show False using assms(4) by (auto simp: hexterm_snoc)
qed

theorem canon_unique:
  "canon t \<Longrightarrow> canon t' \<Longrightarrow> \<forall>j. hexterm j \<longrightarrow> elookup t j = elookup t' j \<Longrightarrow> t = t'"
proof (induction t arbitrary: t' rule: canon.induct)
  case (3 ks c)
  then obtain ks' c' where t': "t' = EShort ks' c'"
  proof (cases t')
    case (EFull cs)
    then show ?thesis using full_not_short [of cs ks c] 3(2,3,4) canon_short by metis
  qed (use 3(3) in auto)
  have s: "segment_ok ks c" "ks \<noteq> []" "segment_ok ks' c'" "ks' \<noteq> []"
    using 3(2,3) t' by (auto simp: canon_short)
  have look: "\<forall>j. hexterm j \<longrightarrow> elookup (EShort ks c) j = elookup (EShort ks' c') j"
    using 3(4) t' by blast
  consider (leaf) "hexterm ks" "is_leaf c" "hexterm ks'" "is_leaf c'"
    | (ext) cs cs' where "nibbles ks" "canon c" "c = EFull cs" "nibbles ks'" "canon c'" "c' = EFull cs'"
    using s(1,3) look ext_not_leaf by (metis segment_ok_def)
  then show ?case
  proof cases
    case leaf
    then have "ks = ks'" using leaf_dom look by metis
    moreover have "c = c'" using leaf look calculation by (force simp: is_leaf_def)
    ultimately show ?thesis using t' by simp
  next
    case (ext cs cs')
    have "length ks' \<le> length ks \<and> take (length ks') ks = ks'"
      using segment_prefix [of cs ks ks'] ext look short_dom by metis
    moreover have "length ks \<le> length ks' \<and> take (length ks) ks' = ks"
      using segment_prefix [of cs' ks' ks] ext look short_dom by metis
    ultimately have k: "ks = ks'" by simp
    have "elookup c j = elookup c' j" if "hexterm j" for j
      using look [rule_format, of "ks @ j"] that ext(1) k hexterm_append [of j ks] by (cases "j = []") auto
    then show ?thesis using 3(1) ext k t' by blast
  qed
next
  case (4 cs)
  obtain cs' where t': "t' = EFull cs'"
  proof (cases t')
    case (EShort ks c)
    then show ?thesis using full_not_short [of cs ks c] 4(2,3,4) canon_short by metis
  qed (use 4(3) in auto)
  have l: "length cs = 17" "length cs' = 17" using 4(2,3) t' by (auto simp: canon_full)
  have "cs ! i = cs' ! i" if i: "i < 17" for i
  proof -
    have s: "slot_ok i (cs ! i)" "slot_ok i (cs' ! i)" using 4(2,3) t' i by (auto simp: canon_full)
    have look: "elookup (cs ! i) j = elookup (cs' ! i) j" if "hexterm (of_nat i # j)" for j
      using 4(4) that t' full_lookup [OF i l(1)] full_lookup [OF i l(2)] by metis
    have nil: "cs ! i = ENil \<longleftrightarrow> cs' ! i = ENil"
      using slot_lookup [OF s(1) _ i canon_nonempty] slot_lookup [OF s(2) _ i canon_nonempty] look elookup.simps(1) by metis
    show ?thesis
    proof (cases "cs ! i = ENil")
      case False
      show ?thesis
      proof (cases "i = 16")
        case True
        then show ?thesis using s False nil look [of "[]"] by (auto simp: slot_ok_def is_leaf_def)
      next
        case n: False
        then have c: "canon (cs ! i)" "canon (cs' ! i)" "i < 16" using s False nil i by (auto simp: slot_ok_def)
        then have "hexterm (of_nat i # j)" if "hexterm j" for j
          using that by (auto simp: word_less_nat_alt word_unat_eq_iff unat_of_nat_small)
        moreover have "cs ! i \<in> set (take 16 cs)"
          using c(3) l by (auto simp: in_set_conv_nth intro!: exI [of _ i])
        ultimately show ?thesis
          using 4(1) [of "cs ! i" "cs' ! i"] c look by blast
      qed
    qed (use nil in simp)
  qed
  then show ?case using t' l by (auto intro: nth_equalityI)
qed auto

end
