(* ===== verification/TrieStore.thy ===== *)
theory TrieStore
  imports Trie TrieSpec
begin

text \<open>
  What a node of the code stands for. \<^verbatim>\<open>stored\<close> says that a database holds a canonical trie, \<^verbatim>\<open>loads\<close>
  that a node, with its caches and with parts left in the database, is a given trie. Decoding what was
  encoded gives such a node back.
\<close>

section \<open>The encoding of a canonical trie\<close>

definition ref :: "(bytes \<Rightarrow> hash) \<Rightarrow> etrie \<Rightarrow> item" where
  "ref K t = (if is_node t then shrink K (eitem K t) else eitem K t)"

lemma eitem_ref [simp]:
  "eitem K (EShort ks c) = RList [RBytes (compact_of (if hasTerm ks then butlast ks else ks) (hasTerm ks)), ref K c]"
  "eitem K (EFull cs) = RList (map (ref K) cs)"
  by (simp_all add: ref_def [abs_def])

declare eitem.simps(3,4) [simp del]

lemma is_node_simps [simp]: "is_node (EShort ks c)" "is_node (EFull cs)" "\<not> is_node ENil" "\<not> is_node (EValue v)"
  by (auto simp: is_node_def)

lemma canon_is_node: "canon t \<Longrightarrow> is_node t"
  by (cases t) auto


lemma length_hash [simp]: "length (hash_bytes h) = 32"
  by (simp add: hash_bytes_def)

lemma hash_bytes_not_Nil [simp]: "hash_bytes h \<noteq> []"
  using length_hash [of h] by (metis list.size(3) zero_neq_numeral)

lemma be_word_hash_bytes [simp]: "be_word (hash_bytes h) = h"
  by (simp add: hash_bytes_def be_word_be_bytes)

lemma intsize_le: "intsize i \<le> 8"
  using length_putint [of i] length_putint_bounds [of i]
  by (cases "i = 0") (simp_all add: intsize_def intsize_loop.simps)

lemma length_rlp_bytes: "length (rlp_spec (RBytes b)) \<le> 9 + length b"
  using intsize_le by (auto simp: enc_string_def length_puthead headsize_def)

lemma length_rlp_list: "length (rlp_spec (RList xs)) \<le> 9 + length (rlp_specs xs)"
  using intsize_le by (auto simp: length_puthead headsize_def)

lemma rlp_specs_append [simp]: "rlp_specs (xs @ ys) = rlp_specs xs @ rlp_specs ys"
  by (induction xs) auto

lemma length_rlp_specs_map: "\<forall>x \<in> set xs. length (rlp_spec (f x)) \<le> n \<Longrightarrow> length (rlp_specs (map f xs)) \<le> n * length xs"
  by (induction xs) auto

text \<open>All keys below a trie are shorter than four gigabytes, as are the values.\<close>

definition sized :: "etrie \<Rightarrow> bool" where
  "sized t \<longleftrightarrow> (\<forall>j. hexterm j \<longrightarrow> elookup t j \<noteq> None \<longrightarrow> length j < 2 ^ 32)"

lemma leaf_none: "is_leaf c \<Longrightarrow> hexterm j \<Longrightarrow> elookup c j = None"
  by (auto simp: is_leaf_def)

lemma sized_short:
  assumes "canon (EShort ks c)" "sized (EShort ks c)"
  shows "length ks < 2 ^ 32 \<and> sized c"
proof -
  consider "hexterm ks" "is_leaf c" | "nibbles ks" "canon c" using assms(1) by (auto simp: canon_short segment_ok_def)
  then show ?thesis
  proof cases
    case 1
    then have "elookup (EShort ks c) ks \<noteq> None" by (auto simp: is_leaf_def)
    with 1 assms(2) leaf_none show ?thesis unfolding sized_def by metis
  next
    case 2
    have l: "length (ks @ j) < 2 ^ 32" if "hexterm j" "elookup c j \<noteq> None" for j
    proof -
      have "hexterm (ks @ j)" using that 2 hexterm_append [of j ks] by (cases "j = []") auto
      moreover have "elookup (EShort ks c) (ks @ j) \<noteq> None" using that by simp
      ultimately show ?thesis using assms(2) unfolding sized_def by blast
    qed
    then show ?thesis
      using canon_nonempty [OF 2(2)] by (fastforce simp: sized_def)
  qed
qed

lemma sized_full:
  assumes "canon (EFull cs)" "sized (EFull cs)" "i < 17"
  shows "sized (cs ! i)"
  unfolding sized_def
proof (intro allI impI)
  fix j assume j: "hexterm j" "elookup (cs ! i) j \<noteq> None"
  have c: "length cs = 17" "slot_ok i (cs ! i)" using assms by (auto simp: canon_full)
  have "i \<noteq> 16" using j c(2) leaf_none [OF _ j(1)] by (auto simp: slot_ok_def)
  then have "hexterm (of_nat i # j)"
    using j(1) assms(3) by (auto simp: word_less_nat_alt word_unat_eq_iff unat_of_nat_small)
  then have "length (of_nat i # j) < 2 ^ 32"
    using assms(2) j(2) full_lookup [OF assms(3) c(1)] unfolding sized_def by metis
  then show "length j < 2 ^ 32" by simp
qed

lemma length_ref: "t = ENil \<or> is_leaf t \<or> canon t \<Longrightarrow> length (rlp_spec (ref K t)) \<le> 9 + 2 ^ 32"
proof -
  assume t: "t = ENil \<or> is_leaf t \<or> canon t"
  show ?thesis
  proof (cases "is_node t")
    case True
    then show ?thesis
      using length_rlp_bytes [of "hash_bytes (K (rlp_spec (eitem K t)))"] by (auto simp: ref_def shrink_def simp del: rlp_spec.simps)
  next
    case False
    then consider "t = ENil" | v where "t = EValue v" "length v < 2 ^ 32"
      using t canon_is_node by (auto simp: is_leaf_def value_ok_def)
    then show ?thesis
    proof cases
      case 1
      then show ?thesis using length_rlp_bytes [of "[]"] by (simp add: ref_def del: rlp_spec.simps)
    next
      case (2 v)
      then show ?thesis using length_rlp_bytes [of v] by (simp add: ref_def del: rlp_spec.simps)
    qed
  qed
qed

lemma segment_key: "segment_ok ks c \<Longrightarrow> \<exists>ns t. ks = hexkey ns t \<and> nibbles ns \<and> t = is_leaf c \<and> t = hasTerm ks \<and>
   (if hasTerm ks then butlast ks else ks) = ns"
proof -
  assume s: "segment_ok ks c"
  show ?thesis
  proof (cases "hexterm ks \<and> is_leaf c")
    case True
    then obtain ns where "ks = ns @ [16]" "nibbles ns" by (auto simp: hexterm_snoc)
    then show ?thesis using True by (intro exI [of _ ns] exI [of _ True]) (simp add: hexkey_def)
  next
    case False
    then have "nibbles ks" "\<not> is_leaf c" using s by (auto simp: segment_ok_def is_leaf_def)
    then show ?thesis by (intro exI [of _ ks] exI [of _ False]) (simp add: hexkey_def)
  qed
qed

lemma length_compact: "length (compact_of ns t) \<le> 1 + length ns"
  by (auto simp: compact_of_def length_pairs Let_def)

lemma length_encode: "canon t \<Longrightarrow> sized t \<Longrightarrow> length (encode K t) < 2 ^ 40"
proof (cases t)
  case (EShort ks c)
  assume a: "canon t" "sized t"
  then have s: "segment_ok ks c" "length ks < 2 ^ 32" using EShort sized_short by (auto simp: canon_short)
  then obtain ns b where k: "(if hasTerm ks then butlast ks else ks) = ns" "length ns \<le> length ks"
    by (metis diff_le_self length_butlast order_refl)
  have "length (rlp_spec (ref K c)) \<le> 9 + 2 ^ 32"
    using s(1) by (intro length_ref) (auto simp: segment_ok_def)
  moreover have "length (rlp_spec (RBytes (compact_of ns (hasTerm ks)))) \<le> 10 + 2 ^ 32"
    using length_rlp_bytes [of "compact_of ns (hasTerm ks)"] length_compact [of ns "hasTerm ks"] k(2) s(2) by linarith
  ultimately show ?thesis
    using length_rlp_list [of "[RBytes (compact_of ns (hasTerm ks)), ref K c]"] k(1) EShort
    by (simp add: encode_def del: rlp_spec.simps)
next
  case (EFull cs)
  assume a: "canon t" "sized t"
  have "c = ENil \<or> is_leaf c \<or> canon c" if "c \<in> set cs" for c
    using that a(1) EFull by (auto simp: canon_full in_set_conv_nth slot_ok_def) metis
  then have "\<forall>c \<in> set cs. length (rlp_spec (ref K c)) \<le> 9 + 2 ^ 32"
    using length_ref by blast
  then have "length (rlp_specs (map (ref K) cs)) \<le> (9 + 2 ^ 32) * 17"
    using length_rlp_specs_map [of cs "ref K" "9 + 2 ^ 32"] a(1) EFull by (simp add: canon_full)
  then show ?thesis
    using length_rlp_list [of "map (ref K) cs"] EFull by (simp add: encode_def del: rlp_spec.simps)
qed auto

section \<open>Stored tries and loaded nodes\<close>

definition in_db :: "(bytes \<Rightarrow> hash) \<Rightarrow> reader \<Rightarrow> bool \<Rightarrow> bytes \<Rightarrow> etrie \<Rightarrow> bool" where
  "in_db K R atop p t \<longleftrightarrow> (atop \<or> 32 \<le> length (encode K t) \<longrightarrow> nodeBlob R p (K (encode K t)) = Inr (encode K t))"

fun stored :: "(bytes \<Rightarrow> hash) \<Rightarrow> reader \<Rightarrow> bool \<Rightarrow> bytes \<Rightarrow> etrie \<Rightarrow> bool" where
  "stored K R atop p (EShort ks c) \<longleftrightarrow> stored K R False (p @ ks) c \<and> in_db K R atop p (EShort ks c)"
| "stored K R atop p (EFull cs) \<longleftrightarrow> (\<forall>i < length cs. stored K R False (p @ [of_nat i]) (cs ! i)) \<and> in_db K R atop p (EFull cs)"
| "stored K R atop p _ \<longleftrightarrow> True"

text \<open>
  A cached hash is the hash of the encoding, of a node that stands on its own; a clean node is stored,
  or it is embedded in its parent.
\<close>

definition flag_ok :: "(bytes \<Rightarrow> hash) \<Rightarrow> reader \<Rightarrow> bool \<Rightarrow> bytes \<Rightarrow> nodeFlag \<Rightarrow> etrie \<Rightarrow> bool" where
  "flag_ok K R atop p fl t \<longleftrightarrow>
     (\<forall>h. fl_hash fl = Some h \<longrightarrow> h = hash_bytes (K (encode K t)) \<and> (atop \<or> 32 \<le> length (encode K t))) \<and>
     (\<not> fl_dirty fl \<longrightarrow> stored K R atop p t \<and> (fl_hash fl = None \<longrightarrow> \<not> atop \<and> length (encode K t) < 32))"

text \<open>
  What is to be stored of a node is known from its flags: it has no hash only if it is embedded. So it is
  below every node that has its hash.
\<close>

fun settled :: "(bytes \<Rightarrow> hash) \<Rightarrow> node \<Rightarrow> etrie \<Rightarrow> bool" where
  "settled K (ShortNode ks n fl) (EShort ks' t) \<longleftrightarrow>
     settled K n t \<and> (fl_hash fl = None \<longrightarrow> length (encode K (EShort ks' t)) < 32)"
| "settled K (FullNode ns fl) (EFull ts) \<longleftrightarrow>
     (\<forall>i < length ns. settled K (ns ! i) (ts ! i)) \<and> (fl_hash fl = None \<longrightarrow> length (encode K (EFull ts)) < 32)"
| "settled K _ _ \<longleftrightarrow> True"

definition cached_ok :: "(bytes \<Rightarrow> hash) \<Rightarrow> nodeFlag \<Rightarrow> node list \<Rightarrow> etrie list \<Rightarrow> bool" where
  "cached_ok K fl ns ts \<longleftrightarrow> (fl_hash fl \<noteq> None \<longrightarrow> (\<forall>i < length ns. settled K (ns ! i) (ts ! i)))"

inductive loads :: "(bytes \<Rightarrow> hash) \<Rightarrow> reader \<Rightarrow> bool \<Rightarrow> bytes \<Rightarrow> node \<Rightarrow> etrie \<Rightarrow> bool" for K R where
  loads_nil: "loads K R atop p NilNode ENil"
| loads_value: "loads K R atop p (ValueNode v) (EValue v)"
| loads_short: "loads K R False (p @ ks) n t \<Longrightarrow> flag_ok K R atop p fl (EShort ks t) \<Longrightarrow>
     cached_ok K fl [n] [t] \<Longrightarrow> loads K R atop p (ShortNode ks n fl) (EShort ks t)"
| loads_full: "length ns = length ts \<Longrightarrow> (\<And>i. i < length ns \<Longrightarrow> loads K R False (p @ [of_nat i]) (ns ! i) (ts ! i)) \<Longrightarrow>
     flag_ok K R atop p fl (EFull ts) \<Longrightarrow> cached_ok K fl ns ts \<Longrightarrow> loads K R atop p (FullNode ns fl) (EFull ts)"
| loads_hash: "stored K R atop p t \<Longrightarrow> is_node t \<Longrightarrow> atop \<or> 32 \<le> length (encode K t) \<Longrightarrow>
     loads K R atop p (HashNode (hash_bytes (K (encode K t)))) t"

inductive_cases loads_nilE: "loads K R atop p NilNode t"
inductive_cases loads_valueE: "loads K R atop p (ValueNode v) t"
inductive_cases loads_shortE: "loads K R atop p (ShortNode ks n fl) t"
inductive_cases loads_fullE: "loads K R atop p (FullNode ns fl) t"
inductive_cases loads_hashE: "loads K R atop p (HashNode h) t"

inductive_cases loads_ENil: "loads K R atop p n ENil"
inductive_cases loads_EValue: "loads K R atop p n (EValue v)"

lemma newFlag_ok [simp]: "flag_ok K R atop p newFlag t"
  by (simp add: flag_ok_def newFlag_def)

lemma newFlag_cached [simp]: "cached_ok K newFlag ns ts"
  by (simp add: cached_ok_def newFlag_def)

lemma settled_unloaded [simp]: "settled K NilNode t" "settled K (ValueNode v) t" "settled K (HashNode h) t"
  by (cases t, simp_all)+

section \<open>Decoding what was encoded\<close>

lemma SplitString_rlp:
  "length (rlp_spec (RBytes b) @ rest) < 2 ^ 64 \<Longrightarrow> SplitString (rlp_spec (RBytes b) @ rest) = Ok (Inr (b, rest))"
  using Split_rlp_spec [of "RBytes b" rest] by (simp add: SplitString_def)

lemma SplitList_rlp:
  "length (rlp_spec (RList xs) @ rest) < 2 ^ 64 \<Longrightarrow> SplitList (rlp_spec (RList xs) @ rest) = Ok (Inr (rlp_specs xs, rest))"
  using Split_rlp_spec [of "RList xs" rest] by (simp add: SplitList_def)

lemma rlp_specs_shorter: "length (rlp_specs xs) < length (rlp_spec (RList xs))"
  by (simp add: puthead_not_Nil)

text \<open>
  What a decoder gives loads the trie and is settled. A decoder that reads the node of a trie from the
  front of a buffer.
\<close>

definition loaded :: "(bytes \<Rightarrow> hash) \<Rightarrow> reader \<Rightarrow> bool \<Rightarrow> bytes \<Rightarrow> node \<Rightarrow> etrie \<Rightarrow> bool" where
  "loaded K R atop p n t \<longleftrightarrow> loads K R atop p n t \<and> settled K n t"

lemma loaded_simple [simp]: "loaded K R atop p NilNode ENil" "loaded K R atop p (ValueNode v) (EValue v)"
  by (simp_all add: loaded_def loads_nil loads_value)

lemma loaded_parts: "loaded K R atop p n t \<Longrightarrow> loads K R atop p n t \<and> settled K n t"
  by (simp add: loaded_def)

definition decodes :: "(bytes \<Rightarrow> node decoded) \<Rightarrow> (bytes \<Rightarrow> hash) \<Rightarrow> reader \<Rightarrow> bool \<Rightarrow> bytes \<Rightarrow> etrie \<Rightarrow> bool" where
  "decodes dec K R atop p t \<longleftrightarrow>
     (\<forall>rest. length (encode K t @ rest) < 2 ^ 64 \<longrightarrow> (\<exists>n. dec (encode K t @ rest) = Ok (Inr n) \<and> loaded K R atop p n t \<and>
        (\<forall>h. n \<noteq> HashNode h)))"

lemma decodeRef_ref:
  assumes "t = ENil \<or> canon t" "stored K R False p t" "length (rlp_spec (ref K t) @ rest) < 2 ^ 64"
    "canon t \<Longrightarrow> length (encode K t) < 32 \<Longrightarrow> decodes dec K R False p t"
  shows "\<exists>n. decodeRef dec (rlp_spec (ref K t) @ rest) = Ok (Inr (n, rest)) \<and> loaded K R False p n t"
proof -
  note split = Split_rlp_spec [OF assms(3)]
  show ?thesis
  proof (cases "canon t")
    case False
    then show ?thesis
      using assms(1) split loads_nil by (auto simp: decodeRef_def ref_def rlp_try_def ebind_def loaded_def)
  next
    case True
    then have node: "is_node t" by (rule canon_is_node)
    show ?thesis
    proof (cases "length (encode K t) < 32")
      case True
      then have r: "ref K t = eitem K t" using node by (simp add: ref_def shrink_def encode_def)
      then obtain n where "dec (encode K t @ rest) = Ok (Inr n)" "loaded K R False p n t"
        using assms(3,4) \<open>canon t\<close> True unfolding decodes_def encode_def by metis
      moreover have "item_kind (eitem K t) = KList"
        using node by (cases t) auto
      ultimately show ?thesis
        using split r True by (auto simp: decodeRef_def rlp_try_def ebind_def encode_def)
    next
      case False
      then have r: "ref K t = RBytes (hash_bytes (K (encode K t)))" using node by (simp add: ref_def shrink_def encode_def)
      then have "decodeRef dec (rlp_spec (ref K t) @ rest) = Ok (Inr (HashNode (hash_bytes (K (encode K t))), rest))"
        using split by (simp add: decodeRef_def rlp_try_def ebind_def)
      moreover have "loaded K R False p (HashNode (hash_bytes (K (encode K t)))) t"
        using loads_hash [OF assms(2) node] False by (simp add: loaded_def)
      ultimately show ?thesis by blast
    qed
  qed
qed

lemma decode_children_refs:
  assumes "\<forall>k < length cs. (cs ! k = ENil \<or> canon (cs ! k)) \<and> stored K R False (p @ [of_nat (i + k)]) (cs ! k) \<and>
      (canon (cs ! k) \<and> length (encode K (cs ! k)) < 32 \<longrightarrow> decodes dec K R False (p @ [of_nat (i + k)]) (cs ! k))"
    "length (rlp_specs (map (ref K) cs) @ rest) < 2 ^ 64"
  shows "\<exists>ns. decode_children dec (length cs) i (rlp_specs (map (ref K) cs) @ rest) = Ok (Inr (ns, rest)) \<and>
      length ns = length cs \<and> (\<forall>k < length cs. loaded K R False (p @ [of_nat (i + k)]) (ns ! k) (cs ! k))"
  using assms
proof (induction cs arbitrary: i)
  case (Cons c cs)
  let ?rest = "rlp_specs (map (ref K) cs) @ rest"
  have "(c = ENil \<or> canon c) \<and> stored K R False (p @ [of_nat i]) c \<and>
      (canon c \<and> length (encode K c) < 32 \<longrightarrow> decodes dec K R False (p @ [of_nat i]) c)"
    using Cons(2) [rule_format, of 0] by simp
  then obtain n where n: "decodeRef dec (rlp_spec (ref K c) @ ?rest) = Ok (Inr (n, ?rest))" "loaded K R False (p @ [of_nat i]) n c"
    using decodeRef_ref [of c K R "p @ [of_nat i]" ?rest dec] Cons(3) by auto
  have "\<forall>k < length cs. (cs ! k = ENil \<or> canon (cs ! k)) \<and> stored K R False (p @ [of_nat (i + 1 + k)]) (cs ! k) \<and>
      (canon (cs ! k) \<and> length (encode K (cs ! k)) < 32 \<longrightarrow> decodes dec K R False (p @ [of_nat (i + 1 + k)]) (cs ! k))"
    using Cons(2) [rule_format, of "Suc k" for k] by (simp add: add.assoc)
  then obtain ns where ns: "decode_children dec (length cs) (i + 1) ?rest = Ok (Inr (ns, rest))"
      "length ns = length cs" "\<forall>k < length cs. loaded K R False (p @ [of_nat (i + 1 + k)]) (ns ! k) (cs ! k)"
    using Cons(1) [of "i + 1"] Cons(3) by auto
  have "loaded K R False (p @ [of_nat (i + k)]) ((n # ns) ! k) ((c # cs) ! k)" if "k < length (c # cs)" for k
    using that n(2) ns(3) by (cases k) (auto simp: add.assoc)
  moreover have "decode_children dec (length (c # cs)) i (rlp_specs (map (ref K) (c # cs)) @ rest) = Ok (Inr (n # ns, rest))"
    using n(1) ns(1) by (simp add: ebind_def wrapError_def)
  ultimately show ?case using ns(2) by (intro exI [of _ "n # ns"]) simp
qed simp

text \<open>The hash a decoded node is told: its own where it is not embedded.\<close>

definition told :: "(bytes \<Rightarrow> hash) \<Rightarrow> bool \<Rightarrow> etrie \<Rightarrow> bytes option" where
  "told K atop t = (if atop \<or> 32 \<le> length (encode K t) then Some (hash_bytes (K (encode K t))) else None)"

lemma told_ok: "stored K R atop p t \<Longrightarrow> flag_ok K R atop p \<lparr>fl_hash = told K atop t, fl_dirty = False\<rparr> t"
  by (auto simp: flag_ok_def told_def)

lemma told_none: "told K atop t = None \<Longrightarrow> length (encode K t) < 32"
  by (simp add: told_def split: if_splits)

lemma loaded_told:
  "loaded K R False (p @ ks) n t \<Longrightarrow> stored K R atop p (EShort ks t) \<Longrightarrow>
     loaded K R atop p (ShortNode ks n \<lparr>fl_hash = told K atop (EShort ks t), fl_dirty = False\<rparr>) (EShort ks t)"
  "length ns = length ts \<Longrightarrow> (\<And>i. i < length ns \<Longrightarrow> loaded K R False (p @ [of_nat i]) (ns ! i) (ts ! i)) \<Longrightarrow>
     stored K R atop p (EFull ts) \<Longrightarrow>
     loaded K R atop p (FullNode ns \<lparr>fl_hash = told K atop (EFull ts), fl_dirty = False\<rparr>) (EFull ts)"
  by (auto simp: loaded_def cached_ok_def simp del: stored.simps dest: told_none intro!: loads_short loads_full told_ok)

lemma decodeShort_short:
  assumes t: "canon (EShort ks c)" "stored K R atop p (EShort ks c)"
    and dec: "canon c \<Longrightarrow> length (encode K c) < 32 \<Longrightarrow> decodes dec K R False (p @ ks) c"
    and l: "length (rlp_specs [RBytes (compact_of (if hasTerm ks then butlast ks else ks) (hasTerm ks)), ref K c]) < 2 ^ 64"
  shows "\<exists>n. decodeShort dec (told K atop (EShort ks c))
      (rlp_specs [RBytes (compact_of (if hasTerm ks then butlast ks else ks) (hasTerm ks)), ref K c]) = Ok (Inr n) \<and>
      loaded K R atop p n (EShort ks c) \<and> (\<forall>h. n \<noteq> HashNode h)"
proof -
  let ?fl = "\<lparr>fl_hash = told K atop (EShort ks c), fl_dirty = False\<rparr>"
  have s: "segment_ok ks c" using t by (simp add: canon_short)
  obtain ns b where k: "ks = hexkey ns b" "nibbles ns" "b = is_leaf c" "b = hasTerm ks"
      "(if hasTerm ks then butlast ks else ks) = ns"
    using segment_key [OF s] by blast
  let ?elems = "rlp_spec (RBytes (compact_of ns b)) @ rlp_spec (ref K c)"
  have l': "length ?elems < 2 ^ 64" using l unfolding k(5) by (simp add: k(4) del: rlp_spec.simps)
  have head: "SplitString ?elems = Ok (Inr (compact_of ns b, rlp_spec (ref K c)))" "compactToHex (compact_of ns b) = Ok ks"
    using SplitString_rlp [OF l'] compactToHex_compact [OF k(2)] k(1) by simp_all
  have "\<exists>n. decodeShort dec (told K atop (EShort ks c)) ?elems = Ok (Inr (ShortNode ks n ?fl)) \<and> loaded K R False (p @ ks) n c"
  proof (cases b)
    case True
    then obtain v where v: "c = EValue v" using k(3) by (auto simp: is_leaf_def)
    then have "SplitString (rlp_spec (RBytes v)) = Ok (Inr (v, []))"
      using SplitString_rlp [of v "[]"] l' by (simp add: ref_def del: rlp_spec.simps)
    then show ?thesis
      using head k(4) True v by (intro exI [of _ "ValueNode v"])
        (auto simp: decodeShort_def ebind_def rlp_try_def ref_def Let_def simp del: rlp_spec.simps)
  next
    case False
    then have "canon c" "stored K R False (p @ ks) c" using s k(3) t(2) by (auto simp: segment_ok_def)
    then obtain n where "decodeRef dec (rlp_spec (ref K c)) = Ok (Inr (n, []))" "loaded K R False (p @ ks) n c"
      using decodeRef_ref [of c K R "p @ ks" "[]" dec] dec l' by auto
    then show ?thesis
      using head k(4) False by (intro exI [of _ n])
        (auto simp: decodeShort_def ebind_def rlp_try_def wrapError_def Let_def simp del: rlp_spec.simps)
  qed
  then obtain n where n: "decodeShort dec (told K atop (EShort ks c)) ?elems = Ok (Inr (ShortNode ks n ?fl))" "loaded K R False (p @ ks) n c"
    by blast
  have "rlp_specs [RBytes (compact_of (if hasTerm ks then butlast ks else ks) (hasTerm ks)), ref K c] = ?elems"
    unfolding k(5) by (simp add: k(4) del: rlp_spec.simps)
  then show ?thesis
    using n loaded_told(1) [OF n(2) t(2)] by (intro exI [of _ "ShortNode ks n ?fl"]) (simp del: rlp_spec.simps rlp_specs.simps)
qed

lemma encode_list: "canon t \<Longrightarrow> \<exists>xs. eitem K t = RList xs \<and> xs \<noteq> []"
  by (cases t) (auto simp: canon_full)

lemma encode_short: "encode K (EShort ks c) =
   rlp_spec (RList [RBytes (compact_of (if hasTerm ks then butlast ks else ks) (hasTerm ks)), ref K c])"
  by (simp add: encode_def)

lemma encode_full: "encode K (EFull cs) = rlp_spec (RList (map (ref K) cs))"
  by (simp add: encode_def)

lemma encode_inside:
  "length (encode K c) < 32 \<Longrightarrow> canon c \<Longrightarrow> ref K c \<in> set xs \<Longrightarrow> length (encode K c) < length (rlp_spec (RList xs))"
proof -
  assume a: "length (encode K c) < 32" "canon c" "ref K c \<in> set xs"
  then have "ref K c = eitem K c" by (simp add: ref_def shrink_def encode_def canon_is_node)
  then obtain ys zs where "xs = ys @ eitem K c # zs" using a(3) by (auto simp: in_set_conv_decomp)
  then have "length (encode K c) \<le> length (rlp_specs xs)" by (simp add: encode_def)
  then show ?thesis using rlp_specs_shorter [of xs] by (rule le_less_trans)
qed

lemma decodeNode_list:
  assumes "length (rlp_spec (RList xs) @ rest) < 2 ^ 64" "length xs = 2 \<or> length xs = 17"
  shows "decodeNode (Suc f) hs (rlp_spec (RList xs) @ rest) =
    (if length xs = 2 then wrapError CtxShort (decodeShort (decodeNode f None) hs (rlp_specs xs))
     else wrapError CtxFull (decodeFull (decodeNode f None) hs (rlp_specs xs)))"
proof -
  have "CountValues (rlp_specs xs) = Ok (Inr (length xs))"
    using CountValues_loop_specs [of xs "length (rlp_specs xs)" 0] assms(1) by (simp add: CountValues_def)
  then show ?thesis
    using assms(2) SplitList_rlp [OF assms(1)] by (auto simp: ebind_def rlp_try_def Let_def)
qed

lemma decodeNode_encode:
  assumes "canon t" "sized t" "stored K R atop p t" "length (encode K t) \<le> f" "length (encode K t @ rest) < 2 ^ 64"
  shows "\<exists>n. decodeNode (Suc f) (told K atop t) (encode K t @ rest) = Ok (Inr n) \<and> loaded K R atop p n t \<and> (\<forall>h. n \<noteq> HashNode h)"
  using assms
proof (induction t arbitrary: f atop p rest rule: canon.induct)
  case (3 ks c)
  let ?xs = "[RBytes (compact_of (if hasTerm ks then butlast ks else ks) (hasTerm ks)), ref K c]"
  have enc: "encode K (EShort ks c) = rlp_spec (RList ?xs)" by (rule encode_short)
  have "decodes (decodeNode f None) K R False (p @ ks) c" if c: "canon c" "length (encode K c) < 32"
  proof -
    have l: "length (encode K c) < f"
      using encode_inside [of K c ?xs] c 3(5) enc by simp
    then obtain f' where f: "f = Suc f'" by (cases f) auto
    have "stored K R False (p @ ks) c" "sized c" using 3(4) sized_short [OF 3(2,3)] by simp_all
    then show ?thesis
      using 3(1) [OF c(1), of False "p @ ks" f'] f l c(2) by (simp add: decodes_def told_def)
  qed
  then obtain n where "decodeShort (decodeNode f None) (told K atop (EShort ks c)) (rlp_specs ?xs) = Ok (Inr n)"
      "loaded K R atop p n (EShort ks c)" "\<forall>h. n \<noteq> HashNode h"
    using decodeShort_short [OF 3(2,4)] 3(6) rlp_specs_shorter [of ?xs] unfolding enc by fastforce
  then show ?case
    using decodeNode_list [of ?xs rest f "told K atop (EShort ks c)"] 3(6) unfolding enc
    by (simp add: wrapError_def del: rlp_spec.simps rlp_specs.simps)
next
  case (4 cs)
  let ?xs = "map (ref K) cs" and ?hs = "told K atop (EFull cs)" and ?last = "rlp_spec (ref K (cs ! 16))"
  have cs: "length cs = 17" "cs = take 16 cs @ [cs ! 16]"
    using 4(2) by (simp_all add: canon_full take_Suc_conv_app_nth [symmetric])
  have enc: "encode K (EFull cs) = rlp_spec (RList ?xs)" by (rule encode_full)
  have l: "length (rlp_specs ?xs) < 2 ^ 64" using 4(6) rlp_specs_shorter [of ?xs] unfolding enc by simp
  have xs: "rlp_specs ?xs = rlp_specs (map (ref K) (take 16 cs)) @ ?last"
    by (subst cs(2)) simp
  have kids: "(c = ENil \<or> canon c) \<and> stored K R False (p @ [of_nat (0 + k)]) c \<and>
      (canon c \<and> length (encode K c) < 32 \<longrightarrow> decodes (decodeNode f None) K R False (p @ [of_nat (0 + k)]) c)"
    if k: "k < length (take 16 cs)" "c = take 16 cs ! k" for k c
  proof -
    have k': "k < 16" "c = cs ! k" "c \<in> set (take 16 cs)" "c \<in> set cs"
      using k cs(1) by (auto simp: in_set_conv_nth intro!: exI [of _ k])
    then have c: "c = ENil \<or> canon c" "stored K R False (p @ [of_nat k]) c" "sized c"
      using 4(4) sized_full [OF 4(2,3), of k] canon.simps(4) [of cs] 4(2) cs(1) by auto
    have "decodes (decodeNode f None) K R False (p @ [of_nat k]) c" if s: "canon c" "length (encode K c) < 32"
    proof -
      have "length (encode K c) < f"
        using encode_inside [of K c ?xs] s k'(4) 4(5) enc by simp
      moreover then obtain f' where "f = Suc f'" by (cases f) auto
      ultimately show ?thesis
        using 4(1) [OF k'(3) s(1), of False "p @ [of_nat k]" f'] c s(2) by (simp add: decodes_def told_def)
    qed
    then show ?thesis using c by simp
  qed
  obtain ns where ns: "decode_children (decodeNode f None) 16 0 (rlp_specs ?xs) = Ok (Inr (ns, ?last))"
      "length ns = 16" "\<forall>k < 16. loaded K R False (p @ [of_nat k]) (ns ! k) (cs ! k)"
    using decode_children_refs [of "take 16 cs" K R p 0 "decodeNode f None" ?last] kids l cs(1) xs by auto
  obtain v where v: "ref K (cs ! 16) = RBytes v" "loaded K R False (p @ [16]) (if length v > 0 then ValueNode v else NilNode) (cs ! 16)"
  proof -
    have "cs ! 16 = ENil \<or> is_leaf (cs ! 16)" using canon.simps(4) [of cs] 4(2) by simp
    then show ?thesis
      using that [of "[]"] that by (auto simp: is_leaf_def value_ok_def ref_def)
  qed
  have "SplitString ?last = Ok (Inr (v, []))"
    using SplitString_rlp [of v "[]"] v(1) l xs by (simp del: rlp_spec.simps)
  then have d: "decodeFull (decodeNode f None) ?hs (rlp_specs ?xs) =
      Ok (Inr (FullNode (ns @ [if length v > 0 then ValueNode v else NilNode]) \<lparr>fl_hash = ?hs, fl_dirty = False\<rparr>))"
    using ns(1) by (simp add: decodeFull_def ebind_def rlp_try_def)
  have "loaded K R False (p @ [of_nat k]) ((ns @ [if length v > 0 then ValueNode v else NilNode]) ! k) (cs ! k)" if "k < 17" for k
    using that ns v(2) by (cases "k = 16") (auto simp: nth_append)
  then have "loaded K R atop p (FullNode (ns @ [if length v > 0 then ValueNode v else NilNode]) \<lparr>fl_hash = ?hs, fl_dirty = False\<rparr>) (EFull cs)"
    using ns(2) cs(1) 4(4) by (intro loaded_told) auto
  then show ?case
    using decodeNode_list [of ?xs rest f ?hs] d 4(6) cs(1) unfolding enc
    by (simp add: wrapError_def del: rlp_spec.simps rlp_specs.simps)
qed auto

lemma stored_blob: "stored K R atop p t \<Longrightarrow> is_node t \<Longrightarrow> in_db K R atop p t"
  by (cases t) auto

text \<open>A hash in a trie resolves to a node that loads the same trie.\<close>

lemma resolve_stored:
  assumes "stored K R atop p t" "canon t" "sized t" "atop \<or> 32 \<le> length (encode K t)"
  shows "\<exists>n. resolveAndTrack R (hash_bytes (K (encode K t))) p = Ok (Inr n) \<and> loaded K R atop p n t \<and> (\<forall>h. n \<noteq> HashNode h)"
proof -
  have db: "nodeBlob R p (K (encode K t)) = Inr (encode K t)"
    using stored_blob [OF assms(1) canon_is_node [OF assms(2)]] assms(4) by (simp add: in_db_def)
  have "length (encode K t @ []) < 2 ^ 64"
    using length_encode [OF assms(2,3), of K] by simp
  then obtain n where "decodeNode (Suc (length (encode K t))) (told K atop t) (encode K t @ []) = Ok (Inr n)"
      "loaded K R atop p n t" "\<forall>h. n \<noteq> HashNode h"
    using decodeNode_encode [OF assms(2,3,1) order_refl] by blast
  then show ?thesis
    using db assms(4) by (simp add: resolveAndTrack_def mustDecodeNode_def told_def del: decodeNode.simps)
qed

end
