(* ===== verification/TrieRefine.thy ===== *)
theory TrieRefine
  imports TrieStore
begin

text \<open>
  The operations of the code refine those of the trie as the protocol defines it: lookup, insertion and
  deletion on nodes that load a canonical trie give nodes that load the result, and hashing gives the
  hash of its encoding.
\<close>

section \<open>Fuel\<close>

text \<open>Every step takes a nibble of the key or resolves a node that then takes one.\<close>

definition need :: "node \<Rightarrow> bytes \<Rightarrow> nat" where
  "need n k = 2 * length k + (case n of HashNode _ \<Rightarrow> 2 | _ \<Rightarrow> 1)"

lemma need_le: "need n k \<le> 2 * length k + 2"
  by (auto simp: need_def split: node.splits)

lemma need_pos: "0 < need n k"
  by (auto simp: need_def split: node.splits)

lemma need_tail: "need n k \<le> Suc f \<Longrightarrow> \<forall>h. n \<noteq> HashNode h \<Longrightarrow> length k' < length k \<Longrightarrow> need n' k' \<le> f"
  using need_le [of n' k'] by (cases n) (auto simp: need_def)

lemma need_resolved: "need (HashNode h) k \<le> Suc f \<Longrightarrow> \<forall>h. n \<noteq> HashNode h \<Longrightarrow> need n k \<le> f"
  by (cases n) (auto simp: need_def)

section \<open>Shapes\<close>

lemma loads_shape:
  assumes "loads K R atop p n t" "\<forall>h. n \<noteq> HashNode h"
  shows "n = NilNode \<longleftrightarrow> t = ENil" "(\<exists>v. n = ValueNode v) \<longleftrightarrow> (\<exists>v. t = EValue v)"
    "(\<exists>ks m fl. n = ShortNode ks m fl) \<longleftrightarrow> (\<exists>ks c. t = EShort ks c)" "(\<exists>ns fl. n = FullNode ns fl) \<longleftrightarrow> (\<exists>cs. t = EFull cs)"
  using assms by (auto elim: loads.cases)

lemma loads_nil_iff: "loads K R atop p n ENil \<longleftrightarrow> n = NilNode"
  by (auto elim: loads_ENil intro: loads_nil simp: is_node_def)

lemma stands_short:
  assumes "stands (EShort ks c) k" "key_ok k"
  shows "k \<noteq> []" "hexterm k" "ks \<noteq> []" "segment_ok ks c" "canon (EShort ks c)"
  using assms by (auto simp: stands_def is_leaf_def key_ok_def canon_short split: if_splits)

lemma stands_full:
  assumes "stands (EFull cs) k" "key_ok k"
  obtains x k' where "k = x # k'" "unat x < 17" "length cs = 17" "canon (EFull cs)" "stands (cs ! unat x) k'" "key_ok k'"
proof -
  have c: "canon (EFull cs)" and "k \<noteq> []" using assms(1) by (auto simp: stands_def is_leaf_def split: if_splits)
  then obtain x k' where k: "k = x # k'" by (cases k) auto
  note x = key_ok_tail [of x k']
  have x17: "unat x < 17" "length cs = 17" using c x assms(2) k by (simp_all add: canon_full)
  then have "slot_ok (unat x) (cs ! unat x)" using c by (simp add: canon_full)
  then have "stands (cs ! unat x) k'" using slot_stands [of x k'] assms(2) k by blast
  then show ?thesis
    using that [of x k'] x17 x assms(2) k c by blast
qed

lemma stands_node: "stands t k \<Longrightarrow> is_node t \<Longrightarrow> canon t"
  by (auto simp: stands_def is_leaf_def split: if_splits)

lemma drop_Cons_parts: "drop i xs = x # ys \<Longrightarrow> i < length xs \<and> xs ! i = x \<and> drop (i + 1) xs = ys"
  by (cases "i < length xs") (simp_all add: Cons_nth_drop_Suc [symmetric])

section \<open>Lookup\<close>

lemma tryGet_refines:
  assumes "loads K R atop (take pos key) n t" "stands t (drop pos key)" "key_ok (drop pos key)" "canon t \<longrightarrow> sized t"
    "pos \<le> length key" "need n (drop pos key) \<le> f"
  shows "\<exists>n' d. tryGet f R n key pos = Ok (elookup t (drop pos key), n', d, None) \<and> loads K R atop (take pos key) n' t \<and>
    (settled K n t \<longrightarrow> settled K n' t)"
  using assms
proof (induction f arbitrary: n t pos atop)
  case 0
  then show ?case using need_pos [of n "drop pos key"] by simp
next
  case (Suc f)
  let ?k = "drop pos key" and ?p = "take pos key"
  show ?case
  proof (cases n)
    case NilNode
    then show ?thesis using Suc(2) by (auto elim: loads_nilE intro: loads_nil)
  next
    case (ValueNode v)
    then have "t = EValue v" using Suc(2) by (auto elim: loads_valueE)
    then show ?thesis using ValueNode Suc(3) by (auto simp: stands_def is_leaf_def loads_value split: if_splits)
  next
    case (ShortNode ks m fl)
    then obtain c where c: "t = EShort ks c" "loads K R False (?p @ ks) m c" "flag_ok K R atop ?p fl (EShort ks c)"
        "cached_ok K fl [m] [c]"
      using Suc(2) by (auto elim: loads_shortE)
    note st = stands_short [OF Suc(3) [unfolded c(1)] Suc(4)]
    have match: "(length key - pos < length ks \<or> ks \<noteq> take (length ks) ?k) \<longleftrightarrow> take (length ks) ?k \<noteq> ks"
      using arg_cong [of "take (length ks) ?k" ks length] by auto
    show ?thesis
    proof (cases "take (length ks) ?k = ks")
      case False
      then show ?thesis using ShortNode Suc(2) c(1) match by (simp add: exI [of _ False])
    next
      case True
      note s = segment_stands [OF st(4) Suc(4) st(1) True]
      have len: "pos + length ks \<le> length key" "length (drop (pos + length ks) key) < length ?k"
      proof -
        have "min (length ks) (length ?k) = length ks" using arg_cong [OF True, of length] by (simp add: min.commute)
        moreover have "0 < length ks" "0 < length ?k" using st(1,3) by (simp_all only: length_greater_0_conv) simp_all
        ultimately show "pos + length ks \<le> length key" "length (drop (pos + length ks) key) < length ?k"
          unfolding length_drop by linarith+
      qed
      have path: "take (pos + length ks) key = ?p @ ks"
        using True by (simp add: take_add)
      obtain m' d where m': "tryGet f R m key (pos + length ks) = Ok (elookup c (drop (pos + length ks) key), m', d, None)"
          "loads K R False (?p @ ks) m' c" "settled K m c \<longrightarrow> settled K m' c"
        using Suc(1) [of False "pos + length ks" m c] c(2) s len need_tail [OF Suc(7), of "drop (pos + length ks) key" m]
          ShortNode sized_short st(5) Suc(5) c(1) by (auto simp: path add.commute)
      then show ?thesis
        using ShortNode c match True loads_short [OF m'(2) c(3)] loads_short [OF c(2,3)] by (auto simp: add.commute cached_ok_def)
    qed
  next
    case (FullNode ns fl)
    then obtain cs where c: "t = EFull cs" "length ns = length cs" "\<forall>i < length ns. loads K R False (?p @ [of_nat i]) (ns ! i) (cs ! i)"
        "flag_ok K R atop ?p fl (EFull cs)" "cached_ok K fl ns cs"
      using Suc(2) by (auto elim: loads_fullE)
    obtain x k' where x: "?k = x # k'" "unat x < 17" "length cs = 17" "canon (EFull cs)" "stands (cs ! unat x) k'" "key_ok k'"
      using stands_full [OF Suc(3) [unfolded c(1)] Suc(4)] by blast
    have pos: "pos < length key" "key ! pos = x" "drop (pos + 1) key = k'"
      using drop_Cons_parts [OF x(1)] by simp_all
    have path: "take (pos + 1) key = ?p @ [x]" using pos by (simp add: take_Suc_conv_app_nth)
    have kid: "loads K R False (?p @ [x]) (ns ! unat x) (cs ! unat x)"
      using c(3) [rule_format, of "unat x"] c(2) x(2,3) by simp
    obtain m' d where m': "tryGet f R (ns ! unat x) key (pos + 1) = Ok (elookup (cs ! unat x) k', m', d, None)"
        "loads K R False (?p @ [x]) m' (cs ! unat x)" "settled K (ns ! unat x) (cs ! unat x) \<longrightarrow> settled K m' (cs ! unat x)"
      using Suc(1) [of False "pos + 1" "ns ! unat x" "cs ! unat x"] kid x pos sized_full [OF x(4) _ x(2)] Suc(5) c(1)
        need_tail [OF Suc(7), of k' "ns ! unat x"] FullNode path by auto
    have upd: "loads K R atop ?p (FullNode (ns[unat x := m']) fl) (EFull cs)"
      using c(2,3,5) m'(2,3) x(2,3) by (intro loads_full [OF _ _ c(4)]) (auto simp: nth_list_update cached_ok_def)
    have "settled K (FullNode ns fl) t \<longrightarrow> settled K (FullNode (ns[unat x := m']) fl) t"
      using c(1,2) m'(3) x(2,3) by (auto simp: nth_list_update)
    then show ?thesis
      using FullNode c(1,2) x pos m' upd Suc(2)
      by (auto simp: gindex_def child_def set_child_def)
  next
    case (HashNode h)
    then have t: "stored K R atop ?p t" "is_node t" "atop \<or> 32 \<le> length (encode K t)" "h = hash_bytes (K (encode K t))"
      using Suc(2) by (auto elim: loads_hashE)
    have "canon t" using stands_node [OF Suc(3) t(2)] .
    then obtain m where m: "resolveAndTrack R h ?p = Ok (Inr m)" "loads K R atop ?p m t" "settled K m t" "\<forall>h. m \<noteq> HashNode h"
      using resolve_stored [OF t(1) _ _ t(3)] Suc(5) t(4) loaded_parts by blast
    then obtain m' d where "tryGet f R m key pos = Ok (elookup t ?k, m', d, None)" "loads K R atop ?p m' t" "settled K m t \<longrightarrow> settled K m' t"
      using Suc(1) [OF m(2) Suc(3,4,5,6)] need_resolved [of h ?k f m] Suc(7) HashNode by auto
    then show ?thesis using HashNode m(1,3) by auto
  qed
qed

section \<open>Insertion\<close>

lemma insert_end:
  "trie_insert (Suc f) R NilNode p [] n = Ok (True, n, None)"
  "trie_insert (Suc f) R (ValueNode w) p [] (ValueNode v) = Ok (w \<noteq> v, ValueNode v, None)"
  by simp_all

lemma insert_nodes:
  assumes "k \<noteq> []"
  shows "trie_insert (Suc f) R NilNode p k n = Ok (True, ShortNode k n newFlag, None)"
    "prefixLen k ks = length ks \<Longrightarrow> trie_insert (Suc f) R (ShortNode ks m fl) p k n =
       rbind (trie_insert f R m (p @ take (length ks) k) (drop (length ks) k) n) (\<lambda>(dirty, nn, err).
         Ok (if \<not> dirty \<or> err \<noteq> None then (False, ShortNode ks m fl, err) else (True, ShortNode ks nn newFlag, None)))"
    "trie_insert (Suc f) R (FullNode cs fl) p k n =
       rbind (child cs (k ! 0)) (\<lambda>c.
       rbind (trie_insert f R c (p @ [k ! 0]) (drop 1 k) n) (\<lambda>(dirty, nn, err).
         if \<not> dirty \<or> err \<noteq> None then Ok (False, FullNode cs fl, err)
         else rbind (set_child cs (k ! 0) nn) (\<lambda>cs'. Ok (True, FullNode cs' newFlag, None))))"
    "trie_insert (Suc f) R (HashNode h) p k n =
       rbind (resolveAndTrack R h p) (\<lambda>r. case r of
           Inl e \<Rightarrow> Ok (False, NilNode, Some e)
         | Inr rn \<Rightarrow> rbind (trie_insert f R rn p k n) (\<lambda>(dirty, nn, err).
             Ok (if \<not> dirty \<or> err \<noteq> None then (False, rn, err) else (True, nn, None))))"
  using assms by (simp_all add: Let_def) (rule arg_cong2 [where f = rbind], simp, rule ext, simp split: sum.split)

lemma insert_nil:
  "0 < f \<Longrightarrow> trie_insert f R NilNode p k n = Ok (True, if k = [] then n else ShortNode k n newFlag, None)"
  by (cases f) auto

declare trie_insert.simps(2) [simp del]

lemma loads_put: "loads K R False (p @ k) n t \<Longrightarrow> loads K R False p (if k = [] then n else ShortNode k n newFlag) (put k t)"
  by (auto simp: put_def intro: loads_short)

lemma loads_branch:
  assumes "unat a < 17" "unat b < 17" "a \<noteq> b" "loads K R False (p @ [a]) n t" "loads K R False (p @ [b]) n' t'"
  shows "loads K R atop p (FullNode ((replicate 17 NilNode)[unat a := n, unat b := n']) newFlag)
    (EFull ((replicate 17 ENil)[unat a := t, unat b := t']))"
proof -
  have "unat a \<noteq> unat b" using assms(3) unat_eqI by blast
  then show ?thesis
    using assms by (intro loads_full) (auto simp: nth_list_update loads_nil)
qed

lemma insert_branch:
  assumes "hexterm k" "segment_ok ks c" "prefixLen k ks = m" "m < length ks" "loads K R False (p @ ks) n c" "0 < f"
  shows "\<exists>n'. trie_insert (Suc f) R (ShortNode ks n fl) p k (ValueNode v) = Ok (True, n', None) \<and>
    loads K R atop p n' (einsert (EShort ks c) k v)"
proof -
  have seg: "hexterm ks \<or> nibbles ks" using assms(2) by (auto simp: segment_ok_def)
  have ml: "m < length k" using prefix_inside [OF assms(1) seg] assms(3,4) by simp
  have d: "ks ! m \<noteq> k ! m" using prefixLen_differ [of k ks] ml assms(3,4) by auto
  have tk: "take m k = take m ks" using prefixLen_take [of k ks] assms(3) by simp
  have "unat (ks ! m) < 17"
    using put_slot [of "ks ! m" "drop (m + 1) ks" c] segment_drop [OF assms(2,4)] assms(4) by (simp add: Cons_nth_drop_Suc)
  moreover have "unat (k ! m) < 17"
    using hexterm_head [of "k ! m" "drop (m + 1) k"] hexterm_drop [OF assms(1) ml] ml by (simp add: Cons_nth_drop_Suc)
  ultimately have u: "unat (ks ! m) < 17" "unat (k ! m) < 17" by simp_all
  let ?old = "if drop (m + 1) ks = [] then n else ShortNode (drop (m + 1) ks) n newFlag"
  let ?new = "if drop (m + 1) k = [] then ValueNode v else ShortNode (drop (m + 1) k) (ValueNode v) newFlag"
  let ?br = "FullNode ((replicate 17 NilNode)[unat (ks ! m) := ?old, unat (k ! m) := ?new]) newFlag"
  have p: "p @ ks = ((p @ take m k) @ [ks ! m]) @ drop (m + 1) ks"
    using id_take_nth_drop [OF assms(4)] tk by simp
  have br: "loads K R atop (p @ take m k) ?br (EFull ((replicate 17 ENil)[unat (ks ! m) := put (drop (m + 1) ks) c,
      unat (k ! m) := put (drop (m + 1) k) (EValue v)]))" for atop
    using u d assms(5) p by (intro loads_branch loads_put loads_value) auto
  have ne: "k \<noteq> []" "m \<noteq> length ks" using ml assms(4) by auto
  then have "trie_insert (Suc f) R (ShortNode ks n fl) p k (ValueNode v) =
      Ok (True, if m = 0 then ?br else ShortNode (take m k) ?br newFlag, None)"
    using assms(3,4,6) ml u by (simp add: insert_nil gindex_def set_child_def Let_def trie_insert.simps(2))
  moreover have "loads K R atop p (if m = 0 then ?br else ShortNode (take m k) ?br newFlag) (einsert (EShort ks c) k v)"
  proof (cases "m = 0")
    case True
    then show ?thesis using br [of atop] assms(3) ne by (simp add: put_def)
  next
    case False
    then show ?thesis
      using loads_short [OF br [of False] newFlag_ok newFlag_cached] assms(3) ne by (simp add: put_def)
  qed
  ultimately show ?thesis by blast
qed

lemma loads_key_end:
  assumes "loads K R atop p n t" "stands t []"
  shows "n = NilNode \<and> t = ENil \<or> (\<exists>w. n = ValueNode w \<and> t = EValue w \<and> value_ok w)"
  using assms by (auto simp: stands_def is_leaf_def elim: loads_ENil loads_EValue)

lemma trie_insert_refines:
  assumes "loads K R atop p n t" "stands t k" "key_ok k" "canon t \<longrightarrow> sized t" "value_ok v" "need n k \<le> f"
  shows "\<exists>d n'. trie_insert f R n p k (ValueNode v) = Ok (d, n', None) \<and> loads K R atop p n' (einsert t k v) \<and>
    (\<not> d \<longrightarrow> einsert t k v = t)"
  using assms
proof (induction f arbitrary: n t p k atop)
  case 0
  then show ?case using need_pos [of n k] by simp
next
  case (Suc f)
  show ?case
  proof (cases "k = []")
    case True
    then show ?thesis
      using loads_key_end [OF Suc(2)] Suc(3) by (auto simp: put_def loads_value insert_end)
  next
    case k: False
    have hex: "hexterm k" using Suc(4) k by (simp add: key_ok_def)
    show ?thesis
    proof (cases n)
      case NilNode
      then have "t = ENil" using Suc(2) by (auto elim: loads_nilE)
      then show ?thesis
        using NilNode k loads_short [OF loads_value newFlag_ok newFlag_cached] by (auto simp: put_def insert_nodes)
    next
      case (ValueNode w)
      then show ?thesis using Suc(2,3) k by (auto elim!: loads_valueE simp: stands_def)
    next
      case (ShortNode ks m fl)
      then obtain c where c: "t = EShort ks c" "loads K R False (p @ ks) m c" "flag_ok K R atop p fl (EShort ks c)"
        "cached_ok K fl [m] [c]"
        using Suc(2) by (auto elim: loads_shortE)
      note st = stands_short [OF Suc(3) [unfolded c(1)] Suc(4)]
      show ?thesis
      proof (cases "prefixLen k ks = length ks")
        case True
        then have t: "take (length ks) k = ks" by (simp add: prefixLen_all)
        note s = segment_stands [OF st(4) Suc(4) k t]
        have "length (drop (length ks) k) < length k" using st(3) k by (cases ks; cases k) auto
        then have fuel: "need m (drop (length ks) k) \<le> f"
          using need_tail [OF Suc(7)] ShortNode by simp
        have kid: "stands c (drop (length ks) k)" "key_ok (drop (length ks) k)" "canon c \<longrightarrow> sized c"
          using s sized_short [OF st(5)] st(5) Suc(5) c(1) by simp_all
        obtain d m' where m': "trie_insert f R m (p @ ks) (drop (length ks) k) (ValueNode v) = Ok (d, m', None)"
            "loads K R False (p @ ks) m' (einsert c (drop (length ks) k) v)" "\<not> d \<longrightarrow> einsert c (drop (length ks) k) v = c"
          using Suc(1) [OF c(2) kid Suc(6) fuel] by blast
        have "einsert t k v = EShort ks (einsert c (drop (length ks) k) v)"
          using c(1) True by (simp add: Let_def)
        then show ?thesis
          using ShortNode c(1) True t k Suc(2) m' loads_short [OF m'(2) newFlag_ok newFlag_cached, of atop]
          by (cases d) (auto simp: insert_nodes)
      next
        case False
        then have m: "prefixLen k ks < length ks" using prefixLen_le [of k ks] by simp
        have f: "0 < f" using Suc(7) k ShortNode by (cases k) (auto simp: need_def)
        show ?thesis
          using insert_branch [OF hex st(4) refl m c(2) f, where atop = atop and v = v] ShortNode c(1) by blast
      qed
    next
      case (FullNode ns fl)
      then obtain cs where c: "t = EFull cs" "length ns = length cs" "\<forall>i < length ns. loads K R False (p @ [of_nat i]) (ns ! i) (cs ! i)"
        using Suc(2) by (auto elim: loads_fullE)
      obtain x k' where x: "k = x # k'" "unat x < 17" "length cs = 17" "canon (EFull cs)" "stands (cs ! unat x) k'" "key_ok k'"
        using stands_full [OF Suc(3) [unfolded c(1)] Suc(4)] by blast
      have kid: "loads K R False (p @ [x]) (ns ! unat x) (cs ! unat x)"
        using c(3) [rule_format, of "unat x"] c(2) x(2,3) by simp
      obtain d m' where m': "trie_insert f R (ns ! unat x) (p @ [x]) k' (ValueNode v) = Ok (d, m', None)"
          "loads K R False (p @ [x]) m' (einsert (cs ! unat x) k' v)" "\<not> d \<longrightarrow> einsert (cs ! unat x) k' v = cs ! unat x"
        using Suc(1) [of False "p @ [x]" "ns ! unat x" "cs ! unat x" k'] kid x sized_full [OF x(4) _ x(2)] Suc(5,6) c(1)
          need_tail [OF Suc(7), of k' "ns ! unat x"] FullNode by auto
      have upd: "loads K R atop p (FullNode (ns[unat x := m']) newFlag) (EFull (cs[unat x := einsert (cs ! unat x) k' v]))"
        using c(2,3) m'(2) x(2,3) by (intro loads_full) (auto simp: nth_list_update)
      show ?thesis
        using FullNode c(1,2) x m' upd Suc(2)
        by (cases d) (auto simp: gindex_def child_def set_child_def insert_nodes)
    next
      case (HashNode h)
      then have t: "stored K R atop p t" "is_node t" "atop \<or> 32 \<le> length (encode K t)" "h = hash_bytes (K (encode K t))"
        using Suc(2) by (auto elim: loads_hashE)
      have "canon t" using stands_node [OF Suc(3) t(2)] .
      then obtain m where m: "resolveAndTrack R h p = Ok (Inr m)" "loads K R atop p m t" "\<forall>h. m \<noteq> HashNode h"
        using resolve_stored [OF t(1) _ _ t(3)] Suc(5) t(4) loaded_parts by blast
      then obtain d m' where "trie_insert f R m p k (ValueNode v) = Ok (d, m', None)" "loads K R atop p m' (einsert t k v)"
          "\<not> d \<longrightarrow> einsert t k v = t"
        using Suc(1) [OF m(2) Suc(3,4,5,6)] need_resolved [of h k f m] Suc(7) HashNode by auto
      then show ?thesis using HashNode m(1,2) k by (cases d) (auto simp: insert_nodes)
    qed
  qed
qed

section \<open>Deletion\<close>

lemma only_child_later:
  "pos \<noteq> -1 \<Longrightarrow> only_child ns j pos = (if \<forall>c \<in> set ns. c = NilNode then pos else -2)"
  by (induction ns arbitrary: j) auto

lemma only_child_cases:
  "only_child ns j (-1) = -1 \<and> (\<forall>i < length ns. ns ! i = NilNode) \<or>
   (\<exists>i < length ns. only_child ns j (-1) = j + int i \<and> ns ! i \<noteq> NilNode \<and> (\<forall>i' < length ns. i' \<noteq> i \<longrightarrow> ns ! i' = NilNode)) \<or>
   only_child ns j (-1) = -2 \<and> (\<exists>i < length ns. \<exists>i' < length ns. i \<noteq> i' \<and> ns ! i \<noteq> NilNode \<and> ns ! i' \<noteq> NilNode)"
  if "0 \<le> j"
  using that
proof (induction ns arbitrary: j)
  case (Cons c ns)
  show ?case
  proof (cases "c = NilNode")
    case True
    have all: "(\<forall>i < Suc (length ns). P i) \<longleftrightarrow> P 0 \<and> (\<forall>i < length ns. P (Suc i))" for P
      by (auto simp: less_Suc_eq_0_disj)
    consider "only_child ns (j + 1) (-1) = -1" "\<forall>i < length ns. ns ! i = NilNode"
      | i where "i < length ns" "only_child ns (j + 1) (-1) = j + 1 + int i" "ns ! i \<noteq> NilNode" "\<forall>i' < length ns. i' \<noteq> i \<longrightarrow> ns ! i' = NilNode"
      | i i' where "only_child ns (j + 1) (-1) = -2" "i < length ns" "i' < length ns" "i \<noteq> i'" "ns ! i \<noteq> NilNode" "ns ! i' \<noteq> NilNode"
    proof -
      have "0 \<le> j + 1" using Cons(2) by simp
      from Cons(1) [OF this] that show ?thesis by (elim disjE exE conjE) assumption+
    qed
    then show ?thesis
    proof cases
      case 1
      then show ?thesis using True by (simp add: all)
    next
      case (2 i)
      then show ?thesis
        using True by (intro disjI2 disjI1 exI [of _ "Suc i"]) (simp add: all)
    next
      case (3 i i')
      then show ?thesis
        using True by (intro disjI2 conjI exI [of _ "Suc i"] exI [of _ "Suc i'"]) simp_all
    qed
  next
    case False
    show ?thesis
    proof (cases "\<forall>c \<in> set ns. c = NilNode")
      case True
      then show ?thesis
        using False Cons(2) by (intro disjI2 disjI1 exI [of _ 0]) (auto simp: only_child_later nth_Cons split: nat.splits)
    next
      case other: False
      then obtain i where "i < length ns" "ns ! i \<noteq> NilNode" by (auto simp: in_set_conv_nth)
      then show ?thesis
        using False other Cons(2)
        by (intro disjI2 conjI exI [of _ 0] exI [of _ "Suc i"]) (auto simp: only_child_later)
    qed
  qed
qed simp

lemma resolve_loaded:
  assumes "loads K R atop p n t" "canon t" "sized t"
  shows "\<exists>m. resolve R n p = Ok (Inr m) \<and> loads K R atop p m t \<and> (\<forall>h. m \<noteq> HashNode h)"
proof (cases n)
  case (HashNode h)
  then show ?thesis
    using assms resolve_stored [of K R atop p t] loaded_parts by (auto simp: resolve_def elim!: loads_hashE)
qed (use assms in \<open>auto simp: resolve_def\<close>)

lemma reduce_one: "children ts = [i] \<Longrightarrow> reduce ts = (case ts ! i of EShort ks c \<Rightarrow> EShort (of_nat i # ks) c | c \<Rightarrow> EShort [of_nat i] c)"
  by (simp add: reduce_def)

lemma children_one: "i < length ts \<Longrightarrow> ts ! i \<noteq> ENil \<Longrightarrow> \<forall>j < length ts. j \<noteq> i \<longrightarrow> ts ! j = ENil \<Longrightarrow> children ts = [i]"
proof -
  assume a: "i < length ts" "ts ! i \<noteq> ENil" "\<forall>j < length ts. j \<noteq> i \<longrightarrow> ts ! j = ENil"
  then have "set (children ts) = {i}" "distinct (children ts)" by (auto simp: children_def)
  then show ?thesis by (cases "children ts"; cases "tl (children ts)") auto
qed

lemma reduce_not_one: "(\<forall>i. children ts \<noteq> [i]) \<Longrightarrow> reduce ts = EFull ts"
  by (auto simp: reduce_def split: list.splits)

lemma reduce_refines:
  assumes len: "length ns = 17" "length ts = 17"
    and kids: "\<forall>i < 17. loads K R False (p @ [of_nat i]) (ns ! i) (ts ! i) \<and> slot_ok i (ts ! i) \<and> sized (ts ! i)"
  shows "\<exists>n'. reduce_node R p ns = Ok (True, n', None) \<and> loads K R atop p n' (reduce ts) \<and> (\<forall>h. n' \<noteq> HashNode h)"
proof -
  have nil: "ns ! i = NilNode \<longleftrightarrow> ts ! i = ENil" if "i < 17" for i
    using kids that by (metis loads_nilE loads_nil_iff)
  have full: "loads K R atop p (FullNode ns newFlag) (EFull ts)"
    using kids len by (intro loads_full) auto
  consider (none) "only_child ns 0 (-1) = -1" "\<forall>i < 17. ts ! i = ENil"
    | (one) i where "i < 17" "only_child ns 0 (-1) = int i" "ts ! i \<noteq> ENil" "\<forall>j < 17. j \<noteq> i \<longrightarrow> ts ! j = ENil"
    | (more) i j where "only_child ns 0 (-1) = -2" "i < 17" "j < 17" "i \<noteq> j" "ts ! i \<noteq> ENil" "ts ! j \<noteq> ENil"
  proof -
    note only_child_cases [of 0 ns, OF order_refl, unfolded len]
    then show ?thesis using that nil by (elim disjE exE conjE) (metis add_0)+
  qed
  then show ?thesis
  proof cases
    case none
    then have "children ts = []" using len by (simp add: children_def filter_empty_conv)
    then have "reduce ts = EFull ts" by (simp add: reduce_def)
    then show ?thesis using none full by (simp add: reduce_node_def)
  next
    case more
    then have "{i, j} \<subseteq> set (children ts)" using len by (auto simp: children_def)
    then have "reduce ts = EFull ts" using more(4) by (intro reduce_not_one) auto
    then show ?thesis using more full by (simp add: reduce_node_def)
  next
    case (one i)
    have r: "reduce ts = (case ts ! i of EShort ks c \<Rightarrow> EShort (of_nat i # ks) c | c \<Rightarrow> EShort [of_nat i] c)"
      using one len by (intro reduce_one children_one) auto
    have kid: "loads K R False (p @ [of_nat i]) (ns ! i) (ts ! i)" "slot_ok i (ts ! i)" "sized (ts ! i)"
      using kids one(1) by auto
    show ?thesis
    proof (cases "i = 16")
      case True
      then obtain v where "ts ! i = EValue v" using kid(2) one(3) by (auto simp: slot_ok_def is_leaf_def)
      then show ?thesis
        using one(2) len True r kid(1) by (auto simp: reduce_node_def Let_def gindex_def intro!: loads_short)
    next
      case False
      then have c: "canon (ts ! i)" using kid(2) one(3) by (simp add: slot_ok_def)
      obtain m where m: "resolve R (ns ! i) (p @ [of_nat i]) = Ok (Inr m)" "loads K R False (p @ [of_nat i]) m (ts ! i)" "\<forall>h. m \<noteq> HashNode h"
        using resolve_loaded [OF kid(1) c kid(3)] by blast
      show ?thesis
      proof (cases "ts ! i")
        case (EShort ks c')
        then obtain m' fl where s: "m = ShortNode ks m' fl" "loads K R False ((p @ [of_nat i]) @ ks) m' c'"
          using loads_shape(3) [OF m(2,3)] m(2) by (auto elim: loads_shortE)
        then show ?thesis
          using m(1) one(1,2) len False r EShort
          by (auto simp: reduce_node_def Let_def gindex_def intro!: loads_short)
      next
        case (EFull cs)
        then obtain ns' fl where "m = FullNode ns' fl"
          using loads_shape(4) [OF m(2,3)] by auto
        then show ?thesis
          using m(1) one(1,2) len False r EFull kid(1)
          by (auto simp: reduce_node_def Let_def gindex_def intro!: loads_short)
      qed (use c in auto)
    qed
  qed
qed

lemma edelete_ext: "\<exists>cs. c = EFull cs \<Longrightarrow> join ks c = EShort ks c"
  by (auto simp: join_def)

lemma loads_join:
  assumes "loads K R False (p @ ks) n t" "\<forall>h. n \<noteq> HashNode h"
  shows "loads K R atop p (case n of ShortNode ck cv _ \<Rightarrow> ShortNode (ks @ ck) cv newFlag | _ \<Rightarrow> ShortNode ks n newFlag) (join ks t)"
proof (cases n)
  case (ShortNode ck cv fl)
  then show ?thesis using assms(1) by (auto elim!: loads_shortE simp: join_def intro!: loads_short)
next
  case (FullNode ns fl)
  then have "join ks t = EShort ks t" using loads_shape(4) [OF assms] by (auto simp: join_def)
  then show ?thesis using FullNode assms(1) by (auto intro: loads_short)
next
  case NilNode
  then have "join ks t = EShort ks t" using loads_shape(1) [OF assms] by (auto simp: join_def)
  then show ?thesis using NilNode assms(1) by (auto intro: loads_short)
next
  case (ValueNode v)
  then have "join ks t = EShort ks t" using loads_shape(2) [OF assms] by (auto simp: join_def)
  then show ?thesis using ValueNode assms(1) by (auto intro: loads_short)
qed (use assms(2) in simp)

lemma delete_short:
  assumes c: "loads K R False (p @ ks) m c" "flag_ok K R atop p fl (EShort ks c)" "cached_ok K fl [m] [c]"
    and st: "segment_ok ks c" "hexterm k"
    and IH: "take (length ks) k = ks \<Longrightarrow> length ks < length k \<Longrightarrow> \<exists>d m'. trie_delete f R m (p @ ks) (drop (length ks) k) = Ok (d, m', None) \<and>
      loads K R False (p @ ks) m' (edelete c (drop (length ks) k)) \<and> (\<not> d \<longrightarrow> edelete c (drop (length ks) k) = c) \<and> (d \<longrightarrow> (\<forall>h. m' \<noteq> HashNode h))"
  shows "\<exists>d n'. trie_delete (Suc f) R (ShortNode ks m fl) p k = Ok (d, n', None) \<and> loads K R atop p n' (edelete (EShort ks c) k) \<and>
    (\<not> d \<longrightarrow> edelete (EShort ks c) k = EShort ks c) \<and> (d \<longrightarrow> (\<forall>h. n' \<noteq> HashNode h))"
proof -
  have here: "loads K R atop p (ShortNode ks m fl) (EShort ks c)" using c by (rule loads_short)
  consider (off) "prefixLen k ks < length ks" | (leaf) "prefixLen k ks = length ks" "length k = length ks"
    | (below) "prefixLen k ks = length ks" "take (length ks) k = ks" "length ks < length k"
    using prefixLen_le [of k ks] prefixLen_all [of k ks] by linarith
  then show ?thesis
  proof cases
    case off
    then show ?thesis using here by auto
  next
    case leaf
    then show ?thesis by (auto intro: loads_nil)
  next
    case below
    then have "drop (length ks) k \<noteq> []" by simp
    then have "\<not> is_leaf c" using segment_match [OF st below(2)] by blast
    then have ext: "\<exists>cs. c = EFull cs" using st(1) by (auto simp: segment_ok_def)
    obtain d m' where m': "trie_delete f R m (p @ ks) (drop (length ks) k) = Ok (d, m', None)"
      "loads K R False (p @ ks) m' (edelete c (drop (length ks) k))" "\<not> d \<longrightarrow> edelete c (drop (length ks) k) = c"
      "d \<longrightarrow> (\<forall>h. m' \<noteq> HashNode h)"
      using IH [OF below(2,3)] by blast
    have e: "edelete (EShort ks c) k = join ks (edelete c (drop (length ks) k))"
      using below by (simp add: Let_def)
    show ?thesis
    proof (cases d)
      case False
      then show ?thesis using m' e edelete_ext [OF ext] here below by (auto simp: Let_def)
    next
      case True
      let ?n = "case m' of ShortNode ck cv _ \<Rightarrow> ShortNode (ks @ ck) cv newFlag | _ \<Rightarrow> ShortNode ks m' newFlag"
      have "trie_delete (Suc f) R (ShortNode ks m fl) p k = Ok (True, ?n, None)"
        using m'(1) True below by (auto simp: Let_def split: node.splits)
      moreover have "\<forall>h. ?n \<noteq> HashNode h" by (auto split: node.splits)
      ultimately show ?thesis
        using loads_join [OF m'(2)] m'(4) True e by (intro exI [of _ True] exI [of _ ?n]) simp
    qed
  qed
qed

lemma delete_full:
  assumes c: "length ns = length cs" "\<forall>i < length ns. loads K R False (p @ [of_nat i]) (ns ! i) (cs ! i)" "flag_ok K R atop p fl (EFull cs)"
      "cached_ok K fl ns cs"
    and x: "unat x < 17" "length cs = 17" "canon (EFull cs)" "sized (EFull cs)"
    and IH: "\<exists>d m'. trie_delete f R (ns ! unat x) (p @ [x]) k = Ok (d, m', None) \<and> stands (edelete (cs ! unat x) k) k \<and> key_ok (x # k) \<and>
      sized (edelete (cs ! unat x) k) \<and>
      loads K R False (p @ [x]) m' (edelete (cs ! unat x) k) \<and> (\<not> d \<longrightarrow> edelete (cs ! unat x) k = cs ! unat x) \<and> (d \<longrightarrow> (\<forall>h. m' \<noteq> HashNode h) \<and> cs ! unat x \<noteq> ENil)"
  shows "\<exists>d n'. trie_delete (Suc f) R (FullNode ns fl) p (x # k) = Ok (d, n', None) \<and> loads K R atop p n' (edelete (EFull cs) (x # k)) \<and>
    (\<not> d \<longrightarrow> edelete (EFull cs) (x # k) = EFull cs) \<and> (d \<longrightarrow> (\<forall>h. n' \<noteq> HashNode h))"
proof -
  obtain d m' where m': "trie_delete f R (ns ! unat x) (p @ [x]) k = Ok (d, m', None)" "stands (edelete (cs ! unat x) k) k" "key_ok (x # k)"
      "sized (edelete (cs ! unat x) k)"
      "loads K R False (p @ [x]) m' (edelete (cs ! unat x) k)" "\<not> d \<longrightarrow> edelete (cs ! unat x) k = cs ! unat x"
      "d \<longrightarrow> (\<forall>h. m' \<noteq> HashNode h) \<and> cs ! unat x \<noteq> ENil"
    using IH by blast
  let ?c = "edelete (cs ! unat x) k"
  let ?ns = "ns[unat x := m']" and ?cs = "cs[unat x := ?c]"
  have kids: "\<forall>i < 17. loads K R False (p @ [of_nat i]) (?ns ! i) (?cs ! i) \<and> slot_ok i (?cs ! i) \<and> sized (?cs ! i)"
    using c(1,2) x m'(2,4,5) slot_stands [OF m'(3)] sized_full [OF x(3,4)] by (auto simp: nth_list_update canon_full)
  show ?thesis
  proof (cases d)
    case False
    then have "edelete (EFull cs) (x # k) = EFull cs" using m'(6) x by (simp add: Let_def)
    then show ?thesis using False m'(1) c x loads_full [OF c(1) _ c(3,4)] by (auto simp: gindex_def child_def)
  next
    case True
    then have nn: "m' = NilNode \<longleftrightarrow> ?c = ENil" "cs ! unat x \<noteq> ENil"
      using loads_shape(1) [OF m'(5)] m'(7) by auto
    show ?thesis
    proof (cases "m' = NilNode")
      case False
      then show ?thesis
        using True nn m'(1) x c(1) kids by (auto simp: gindex_def child_def set_child_def Let_def intro!: loads_full)
    next
      case nil: True
      obtain n' where "reduce_node R p ?ns = Ok (True, n', None)" "loads K R atop p n' (reduce ?cs)" "\<forall>h. n' \<noteq> HashNode h"
        using reduce_refines [OF _ _ kids] c(1) x(2) by auto
      then show ?thesis
        using True nil nn m'(1) x c(1) by (auto simp: gindex_def child_def set_child_def Let_def)
    qed
  qed
qed

lemma sized_edelete:
  assumes "stands t k" "key_ok k" "sized t"
  shows "sized (edelete t k)"
proof (cases "k = []")
  case True
  then have "edelete t k = ENil" using assms(1) by (auto simp: stands_def is_leaf_def)
  then show ?thesis by (simp add: sized_def)
next
  case False
  then have "elookup (edelete t k) j = (if j = k then None else elookup t j)" if "hexterm j" for j
  proof -
    have "key_like k j" using that False by (auto simp: key_like_def)
    then show ?thesis using edelete_correct [OF assms(1,2)] unfolding maps_as_def by blast
  qed
  then show ?thesis using assms(3) by (simp add: sized_def)
qed

lemma trie_delete_refines:
  assumes "loads K R atop p n t" "stands t k" "key_ok k" "sized t" "need n k \<le> f"
  shows "\<exists>d n'. trie_delete f R n p k = Ok (d, n', None) \<and> loads K R atop p n' (edelete t k) \<and>
    (\<not> d \<longrightarrow> edelete t k = t) \<and> (d \<longrightarrow> (\<forall>h. n' \<noteq> HashNode h) \<and> t \<noteq> ENil)"
  using assms
proof (induction f arbitrary: n t p k atop)
  case 0
  then show ?case using need_pos [of n k] by simp
next
  case (Suc f)
  show ?case
  proof (cases n)
    case NilNode
    then have "loads K R atop p NilNode t" using Suc(2) by simp
    then have "t = ENil" by (rule loads_nilE)
    then show ?thesis using NilNode by (intro exI [of _ False] exI [of _ NilNode]) (simp add: loads_nil)
  next
    case (ValueNode w)
    then have "loads K R atop p (ValueNode w) t" using Suc(2) by simp
    then have "t = EValue w" by (rule loads_valueE)
    then show ?thesis using ValueNode by (intro exI [of _ True] exI [of _ NilNode]) (simp add: loads_nil)
  next
    case (ShortNode ks m fl)
    then obtain c where c: "t = EShort ks c" "loads K R False (p @ ks) m c" "flag_ok K R atop p fl (EShort ks c)"
        "cached_ok K fl [m] [c]"
      using Suc(2) by (auto elim: loads_shortE)
    note st = stands_short [OF Suc(3) [unfolded c(1)] Suc(4)]
    have "\<exists>d m'. trie_delete f R m (p @ ks) (drop (length ks) k) = Ok (d, m', None) \<and>
        loads K R False (p @ ks) m' (edelete c (drop (length ks) k)) \<and> (\<not> d \<longrightarrow> edelete c (drop (length ks) k) = c) \<and>
        (d \<longrightarrow> (\<forall>h. m' \<noteq> HashNode h))" if t: "take (length ks) k = ks" "length ks < length k"
    proof -
      have "length (drop (length ks) k) < length k" using st(3) t(2) by (cases ks) auto
      then have fuel: "need m (drop (length ks) k) \<le> f"
        using need_tail [OF Suc(6)] ShortNode by simp
      have kid: "stands c (drop (length ks) k)" "key_ok (drop (length ks) k)" "sized c"
        using segment_stands [OF st(4) Suc(4) st(1) t(1)] sized_short [OF st(5)] Suc(5) c(1) by simp_all
      show ?thesis using Suc(1) [OF c(2) kid fuel] by blast
    qed
    then show ?thesis
      using delete_short [OF c(2,3,4) st(4,2), of f] ShortNode c(1) by blast
  next
    case (FullNode ns fl)
    then obtain cs where c: "t = EFull cs" "length ns = length cs" "\<forall>i < length ns. loads K R False (p @ [of_nat i]) (ns ! i) (cs ! i)"
        "flag_ok K R atop p fl (EFull cs)" "cached_ok K fl ns cs"
      using Suc(2) by (auto elim: loads_fullE)
    obtain x k' where x: "k = x # k'" "unat x < 17" "length cs = 17" "canon (EFull cs)" "stands (cs ! unat x) k'" "key_ok k'"
      using stands_full [OF Suc(3) [unfolded c(1)] Suc(4)] by blast
    have kid: "loads K R False (p @ [x]) (ns ! unat x) (cs ! unat x)"
      using c(3) [rule_format, of "unat x"] c(2) x(2,3) by simp
    have sz: "sized (EFull cs)" "sized (cs ! unat x)" using Suc(5) c(1) sized_full [OF x(4) _ x(2)] by auto
    have fuel: "need (ns ! unat x) k' \<le> f"
      using need_tail [OF Suc(6), of k' "ns ! unat x"] FullNode x(1) by simp
    have "stands (edelete (cs ! unat x) k') k'" using edelete_correct [OF x(5,6)] by blast
    then have "\<exists>d m'. trie_delete f R (ns ! unat x) (p @ [x]) k' = Ok (d, m', None) \<and> stands (edelete (cs ! unat x) k') k' \<and> key_ok (x # k') \<and>
      sized (edelete (cs ! unat x) k') \<and>
      loads K R False (p @ [x]) m' (edelete (cs ! unat x) k') \<and> (\<not> d \<longrightarrow> edelete (cs ! unat x) k' = cs ! unat x) \<and>
      (d \<longrightarrow> (\<forall>h. m' \<noteq> HashNode h) \<and> cs ! unat x \<noteq> ENil)"
      using Suc(1) [OF kid x(5,6) sz(2) fuel] sized_edelete [OF x(5,6) sz(2)] Suc(4) x(1) by blast
    then show ?thesis
      using delete_full [OF c(2,3,4,5) x(2,3,4) sz(1)] FullNode c(1) x(1) by blast
  next
    case (HashNode h)
    then have t: "stored K R atop p t" "is_node t" "atop \<or> 32 \<le> length (encode K t)" "h = hash_bytes (K (encode K t))"
      using Suc(2) by (auto elim: loads_hashE)
    have "canon t" using stands_node [OF Suc(3) t(2)] .
    then obtain m where m: "resolveAndTrack R h p = Ok (Inr m)" "loads K R atop p m t" "\<forall>h. m \<noteq> HashNode h"
      using resolve_stored [OF t(1) _ _ t(3)] Suc(5) t(4) loaded_parts by blast
    have fuel: "need m k \<le> f" using need_resolved [of h k f m] Suc(6) HashNode m(3) by simp
    obtain d m' where "trie_delete f R m p k = Ok (d, m', None)" "loads K R atop p m' (edelete t k)"
        "\<not> d \<longrightarrow> edelete t k = t" "d \<longrightarrow> (\<forall>h. m' \<noteq> HashNode h) \<and> t \<noteq> ENil"
      using Suc(1) [OF m(2) Suc(3,4,5) fuel] by blast
    then show ?thesis using HashNode m(1,2) by (cases d) auto
  qed
qed

section \<open>Hashing\<close>

lemma compact_key_segment: "segment_ok ks c \<Longrightarrow>
   compact_key ks = compact_of (if hasTerm ks then butlast ks else ks) (hasTerm ks)"
proof -
  assume "segment_ok ks c"
  then obtain ns b where k: "ks = hexkey ns b" "nibbles ns" "b = hasTerm ks" "(if hasTerm ks then butlast ks else ks) = ns"
    using segment_key by blast
  have "hexToCompact ks = Ok (compact_of ns b)" using hexToCompact_of [OF k(2)] k(1) by simp
  then show ?thesis unfolding k(4) using k(3) by (simp add: compact_key_def)
qed

lemma nodeToBytes_encode: "canon t \<Longrightarrow> sized t \<Longrightarrow> node_item n = eitem K t \<Longrightarrow> nodeToBytes n = encode K t"
  using length_encode [of t K] by (simp add: nodeToBytes_def EncodeToBytes_def write_item_makeBytes encode_def)

text \<open>What a hashed node is to its parent, or as the root.\<close>

definition hashed_as :: "(bytes \<Rightarrow> hash) \<Rightarrow> bool \<Rightarrow> node \<Rightarrow> etrie \<Rightarrow> bool" where
  "hashed_as K atop h t \<longleftrightarrow> (if atop then h = HashNode (hash_bytes (K (encode K t))) else node_item h = ref K t)"

lemma nodeToHash_collapsed:
  assumes "canon t" "sized t" "node_item n = eitem K t" "\<forall>h. n \<noteq> HashNode h"
  shows "hashed_as K atop (nodeToHash K n atop) t"
    "flag_ok K R atop p fl t \<Longrightarrow> fl_hash fl = None \<Longrightarrow> flag_ok K R atop p (cached_flags (nodeToHash K n atop) fl) t"
proof -
  have e: "nodeToBytes n = encode K t" using nodeToBytes_encode [OF assms(1-3)] .
  show "hashed_as K atop (nodeToHash K n atop) t"
    using assms(1,3) e by (auto simp: hashed_as_def nodeToHash_def ref_def shrink_def encode_def canon_is_node Let_def)
  show "flag_ok K R atop p (cached_flags (nodeToHash K n atop) fl) t" if "flag_ok K R atop p fl t" "fl_hash fl = None"
    using that assms(4) e by (auto simp: flag_ok_def cached_flags_def nodeToHash_def Let_def split: node.splits)
qed

lemma cached_hash:
  "flag_ok K R atop p fl t \<Longrightarrow> fl_hash fl = Some h \<Longrightarrow> is_node t \<Longrightarrow> hashed_as K atop (HashNode h) t"
  by (auto simp: flag_ok_def hashed_as_def ref_def shrink_def encode_def)

definition hashes :: "(bytes \<Rightarrow> hash) \<Rightarrow> reader \<Rightarrow> bool \<Rightarrow> bytes \<Rightarrow> node \<times> node \<Rightarrow> etrie \<Rightarrow> bool" where
  "hashes K R atop p hc t \<longleftrightarrow> hashed_as K atop (fst hc) t \<and> loads K R atop p (snd hc) t \<and> settled K (snd hc) t"

lemma cached_small:
  assumes "canon t" "sized t" "node_item n = eitem K t" "\<forall>h. n \<noteq> HashNode h"
    "fl_hash (cached_flags (nodeToHash K n atop) fl) = None"
  shows "length (encode K t) < 32"
  using nodeToBytes_encode [OF assms(1-3)] assms(5) by (auto simp: cached_flags_def nodeToHash_def Let_def split: if_splits)

lemma hash_node_refines:
  assumes "loads K R atop p n t" "canon t" "sized t"
  shows "hashes K R atop p (hash_node K n atop) t"
  using assms
proof (induction n arbitrary: t p atop)
  case NilNode
  then show ?case by (auto elim!: loads_nilE)
next
  case (ValueNode v)
  then show ?case by (auto elim!: loads_valueE)
next
  case (HashNode h)
  then show ?case
    by (auto simp: hashes_def hashed_as_def ref_def shrink_def encode_def elim!: loads_hashE intro: loads_hash)
next
  case (ShortNode ks m fl)
  then obtain c where c: "t = EShort ks c" "loads K R False (p @ ks) m c" "flag_ok K R atop p fl (EShort ks c)"
      "cached_ok K fl [m] [c]"
    by (auto elim: loads_shortE)
  have seg: "segment_ok ks c" and sz: "sized c" using ShortNode(3,4) c(1) sized_short by (auto simp: canon_short)
  show ?case
  proof (cases "fl_hash fl")
    case (Some h)
    then show ?thesis
      using c ShortNode(2) cached_hash [OF c(3) Some] Some by (simp add: hashes_def cached_ok_def)
  next
    case None
    let ?k = "case m of FullNode _ _ \<Rightarrow> hash_node K m False | ShortNode _ _ _ \<Rightarrow> hash_node K m False | _ \<Rightarrow> (m, m)"
    have kid: "node_item (fst ?k) = ref K c \<and> loads K R False (p @ ks) (snd ?k) c \<and> settled K (snd ?k) c"
    proof (cases "canon c")
      case True
      then have "hashes K R False (p @ ks) (hash_node K m False) c" using ShortNode(1) c(2) sz by blast
      moreover have "m \<noteq> NilNode" "\<forall>v. m \<noteq> ValueNode v" using True c(2) by (auto elim: loads_nilE loads_valueE)
      ultimately show ?thesis by (cases m) (auto simp: hashes_def hashed_as_def)
    next
      case False
      then obtain v where "c = EValue v" using seg by (auto simp: segment_ok_def is_leaf_def)
      then show ?thesis using c(2) by (auto elim!: loads_EValue simp: ref_def loads_value)
    qed
    obtain cv hv where k: "?k = (cv, hv)" by (cases ?k) auto
    have item: "node_item (ShortNode (compact_key ks) cv fl) = eitem K t"
      using kid k c(1) compact_key_segment [OF seg] by simp
    note h = nodeToHash_collapsed [OF ShortNode(3,4) item]
    have "hash_node K (ShortNode ks m fl) atop =
        (nodeToHash K (ShortNode (compact_key ks) cv fl) atop,
         ShortNode ks hv (cached_flags (nodeToHash K (ShortNode (compact_key ks) cv fl) atop) fl))"
      using None k by (simp add: Let_def)
    then show ?thesis
      using h c kid k None cached_small [OF ShortNode(3,4) item, where fl = fl and atop = atop]
      by (auto simp: hashes_def cached_ok_def simp del: hash_node.simps intro!: loads_short)
  qed
next
  case (FullNode ns fl)
  then obtain cs where c: "t = EFull cs" "length ns = length cs" "\<forall>i < length ns. loads K R False (p @ [of_nat i]) (ns ! i) (cs ! i)"
      "flag_ok K R atop p fl (EFull cs)" "cached_ok K fl ns cs"
    by (auto elim: loads_fullE)
  have l: "length cs = 17" using FullNode(3) c(1) by (simp add: canon_full)
  show ?case
  proof (cases "fl_hash fl")
    case (Some h)
    then show ?thesis
      using c FullNode(2) cached_hash [OF c(4) Some] Some by (simp add: hashes_def cached_ok_def)
  next
    case None
    let ?f = "\<lambda>c. if c = NilNode then (ValueNode [], NilNode) else hash_node K c False"
    let ?hs = "map ?f (take 16 ns)"
    let ?col = "map fst ?hs @ drop 16 ns" and ?new = "map snd ?hs @ drop 16 ns"
    have len: "length ?col = 17" "length ?new = 17" using c(2) l by simp_all
    have kid: "node_item (?col ! i) = ref K (cs ! i) \<and> loads K R False (p @ [of_nat i]) (?new ! i) (cs ! i) \<and>
        settled K (?new ! i) (cs ! i)" if i: "i < 17" for i
    proof -
      have ld: "loads K R False (p @ [of_nat i]) (ns ! i) (cs ! i)" using c(2,3) l i by simp
      have slot: "slot_ok i (cs ! i)" "sized (cs ! i)"
        using FullNode(3,4) c(1) i sized_full [of cs i] by (auto simp: canon_full)
      show ?thesis
      proof (cases "i = 16")
        case True
        have "?col ! 16 = ns ! 16" "?new ! 16 = ns ! 16" using c(2) l by (simp_all add: nth_append)
        moreover have "node_item (ns ! 16) = ref K (cs ! 16)"
          using ld slot(1) True by (auto simp: slot_ok_def is_leaf_def ref_def elim!: loads_EValue loads_ENil)
        moreover have "settled K (ns ! 16) (cs ! 16)"
          using ld slot(1) True by (auto simp: slot_ok_def is_leaf_def elim!: loads_EValue loads_ENil)
        ultimately show ?thesis using ld True by simp
      next
        case False
        then have at: "?col ! i = fst (?f (ns ! i))" "?new ! i = snd (?f (ns ! i))"
          using i c(2) l by (simp_all add: nth_append)
        show ?thesis
        proof (cases "cs ! i = ENil")
          case True
          then show ?thesis using at ld by (auto simp: ref_def loads_nil_iff)
        next
          case ne: False
          then have "canon (cs ! i)" "ns ! i \<noteq> NilNode" "ns ! i \<in> set ns"
            using slot False ld i c(2) l by (auto simp: slot_ok_def elim: loads_nilE)
          then have "hashes K R False (p @ [of_nat i]) (hash_node K (ns ! i) False) (cs ! i)"
            using FullNode(1) ld slot(2) by blast
          then show ?thesis using at \<open>ns ! i \<noteq> NilNode\<close> by (simp add: hashes_def hashed_as_def)
        qed
      qed
    qed
    have "map node_item ?col = map (ref K) cs"
    proof (rule nth_equalityI)
      show "length (map node_item ?col) = length (map (ref K) cs)" by (simp only: length_map len l)
      fix i assume "i < length (map node_item ?col)"
      then have "i < 17" by (simp only: length_map len)
      then show "map node_item ?col ! i = map (ref K) cs ! i"
        using kid [of i] by (simp only: nth_map len l)
    qed
    then have item: "node_item (FullNode ?col fl) = eitem K t"
      using c(1) by simp
    note h = nodeToHash_collapsed [OF FullNode(3,4) item]
    have "hash_node K (FullNode ns fl) atop =
        (nodeToHash K (FullNode ?col fl) atop, FullNode ?new (cached_flags (nodeToHash K (FullNode ?col fl) atop) fl))"
      using None by (simp add: Let_def)
    moreover have "loads K R atop p (FullNode ?new fl') (EFull cs)" if "flag_ok K R atop p fl' (EFull cs)" for fl'
      using that kid len l by (intro loads_full) (auto simp: cached_ok_def)
    moreover have "settled K (FullNode ?new (cached_flags (nodeToHash K (FullNode ?col fl) atop) fl)) (EFull cs)"
      using cached_small [OF FullNode(3,4) item, where fl = fl and atop = atop] kid len c(1) by simp
    ultimately show ?thesis
      using h c None by (simp add: hashes_def)
  qed
qed

end
