(* ===== verification/TrieContents.thy ===== *)
theory TrieContents
  imports TrieRefine
begin

text \<open>
  The trie as a map from keys to values: what lookup, update and deletion do to the contents, and that
  the root hash depends on the contents alone.
\<close>

section \<open>Contents\<close>

definition contents :: "etrie \<Rightarrow> (bytes \<Rightarrow> bytes option) \<Rightarrow> bool" where
  "contents T m \<longleftrightarrow> (\<forall>key. elookup T (keybytesToHex key) = m key) \<and>
     (\<forall>j. hexterm j \<and> elookup T j \<noteq> None \<longrightarrow> (\<exists>key. j = keybytesToHex key))"

text \<open>
  A trie of the code holds a map: its root loads a canonical trie with these contents from the database
  behind it, and all its keys are shorter than two gigabytes.
\<close>

definition trie_is :: "(bytes \<Rightarrow> hash) \<Rightarrow> Trie \<Rightarrow> (bytes \<Rightarrow> bytes option) \<Rightarrow> bool" where
  "trie_is K t m \<longleftrightarrow> (\<exists>T. loads K (t_reader t) True [] (root t) T \<and> (T = ENil \<or> canon T) \<and> sized T \<and> contents T m)"

lemma keybytesToHex_inj: "keybytesToHex k = keybytesToHex k' \<longleftrightarrow> k = k'"
  using keybytesToHex_key [of k] keybytesToHex_key [of k'] by (metis append_same_eq)

lemma length_keybytesToHex: "length (keybytesToHex k) = 2 * length k + 1"
  using keybytesToHex_key [of k] by auto

lemma key_ok_keybytes [simp]: "key_ok (keybytesToHex k)" "keybytesToHex k \<noteq> []" "hexterm (keybytesToHex k)"
  using hexterm_keybytes [of k] hexterm_not_Nil by (auto simp: key_ok_def)

lemma stands_root: "T = ENil \<or> canon T \<Longrightarrow> stands T (keybytesToHex k)"
  by (auto simp: stands_def)

lemma need_fuel: "need n k \<le> trie_fuel k"
  using need_le [of n k] by (simp add: trie_fuel_def)

lemma contents_unique:
  assumes "contents T m" "contents T' m" "T = ENil \<or> canon T" "T' = ENil \<or> canon T'"
  shows "T = T'"
proof -
  have look: "elookup T j = elookup T' j" if "hexterm j" for j
    using assms(1,2) that unfolding contents_def by metis
  show ?thesis
    using assms(3,4) look canon_nonempty canon_unique by (metis elookup.simps(1))
qed

lemma update_contents:
  assumes "contents T m" "maps_as (keybytesToHex key) T' (\<lambda>j. if j = keybytesToHex key then w else elookup T j)" "sized T"
    "w \<noteq> None \<longrightarrow> length key < 2 ^ 31 - 1"
  shows "contents T' (m(key := w)) \<and> sized T'"
proof -
  have look: "elookup T' j = (if j = keybytesToHex key then w else elookup T j)" if "hexterm j" for j
  proof -
    have "key_like (keybytesToHex key) j" using that by (auto simp: key_like_def)
    then show ?thesis using assms(2) unfolding maps_as_def by blast
  qed
  have "contents T' (m(key := w))"
    using assms(1) look keybytesToHex_inj by (auto simp: contents_def split: if_splits)
  moreover have "sized T'"
    using assms(3,4) look by (auto simp: sized_def length_keybytesToHex split: if_splits)
  ultimately show ?thesis ..
qed

section \<open>One operation\<close>

lemma TryGet_contents:
  assumes "trie_is K t m"
  shows "\<exists>t'. TryGet key t = Ok (Inr (m key), t') \<and> trie_is K t' m"
proof -
  obtain T where T: "loads K (t_reader t) True [] (root t) T" "T = ENil \<or> canon T" "sized T" "contents T m"
    using assms by (auto simp: trie_is_def)
  obtain n' d where g: "tryGet (trie_fuel (keybytesToHex key)) (t_reader t) (root t) (keybytesToHex key) 0 =
      Ok (elookup T (keybytesToHex key), n', d, None)" "loads K (t_reader t) True [] n' T"
    using tryGet_refines [of K "t_reader t" True 0 "keybytesToHex key" "root t" T "trie_fuel (keybytesToHex key)"]
      T need_fuel stands_root by auto
  have "trie_is K (if d then t\<lparr>root := n'\<rparr> else t) m"
    using T g(2) by (auto simp: trie_is_def)
  then show ?thesis
    using g(1) T(4) by (simp add: TryGet_def Let_def contents_def)
qed

lemma set_root_contents:
  assumes "change = Ok (d, n', None)" "loads K (t_reader t) True [] n' T" "T = ENil \<or> canon T" "sized T" "contents T m"
  shows "\<exists>t'. set_root t change = Ok (None, t') \<and> trie_is K t' m \<and> t_reader t' = t_reader t"
  using assms by (auto simp: set_root_def trie_is_def)

lemma delete_contents:
  assumes "trie_is K t m"
  shows "\<exists>t'. set_root t (trie_delete (trie_fuel (keybytesToHex key)) (t_reader t) (root t) [] (keybytesToHex key)) = Ok (None, t') \<and>
    trie_is K t' (m(key := None)) \<and> t_reader t' = t_reader t"
proof -
  obtain T where T: "loads K (t_reader t) True [] (root t) T" "T = ENil \<or> canon T" "sized T" "contents T m"
    using assms by (auto simp: trie_is_def)
  note st = stands_root [OF T(2), of key]
  note e = edelete_correct [OF st key_ok_keybytes(1)]
  obtain d n' where d: "trie_delete (trie_fuel (keybytesToHex key)) (t_reader t) (root t) [] (keybytesToHex key) = Ok (d, n', None)"
      "loads K (t_reader t) True [] n' (edelete T (keybytesToHex key))"
    using trie_delete_refines [OF T(1) st key_ok_keybytes(1) T(3) need_fuel] by blast
  have "edelete T (keybytesToHex key) = ENil \<or> canon (edelete T (keybytesToHex key))"
    using e by (simp add: stands_def)
  then show ?thesis
    using set_root_contents [OF d] update_contents [OF T(4) _ T(3), of key _ None] e by blast
qed

lemma insert_contents:
  assumes "trie_is K t m" "value_ok v" "length key < 2 ^ 31 - 1"
  shows "\<exists>t'. set_root t (trie_insert (trie_fuel (keybytesToHex key)) (t_reader t) (root t) [] (keybytesToHex key) (ValueNode v)) = Ok (None, t') \<and>
    trie_is K t' (m(key := Some v)) \<and> t_reader t' = t_reader t"
proof -
  obtain T where T: "loads K (t_reader t) True [] (root t) T" "T = ENil \<or> canon T" "sized T" "contents T m"
    using assms by (auto simp: trie_is_def)
  note st = stands_root [OF T(2), of key]
  note e = einsert_correct [OF st key_ok_keybytes(1) assms(2)]
  obtain d n' where d: "trie_insert (trie_fuel (keybytesToHex key)) (t_reader t) (root t) [] (keybytesToHex key) (ValueNode v) = Ok (d, n', None)"
      "loads K (t_reader t) True [] n' (einsert T (keybytesToHex key) v)"
    using trie_insert_refines [OF T(1) st key_ok_keybytes(1) _ assms(2) need_fuel] T(3) by blast
  have "einsert T (keybytesToHex key) v = ENil \<or> canon (einsert T (keybytesToHex key) v)"
    using e by (auto simp: stands_def)
  then show ?thesis
    using set_root_contents [OF d] update_contents [OF T(4) _ T(3), of key _ "Some v"] e assms(3) by blast
qed

lemma trie_is_unhashed [simp]: "trie_is K (t\<lparr>unhashed := u\<rparr>) m \<longleftrightarrow> trie_is K t m"
  by (simp add: trie_is_def)

lemma Hash_contents:
  assumes "trie_is K t m"
  shows "\<exists>T t'. (T = ENil \<or> canon T) \<and> contents T m \<and> trie_is K t' m \<and>
    Trie_Hash K t = Ok (if T = ENil then emptyRoot else K (encode K T), t')"
proof -
  obtain T where T: "loads K (t_reader t) True [] (root t) T" "T = ENil \<or> canon T" "sized T" "contents T m"
    using assms by (auto simp: trie_is_def)
  show ?thesis
  proof (cases "T = ENil")
    case True
    then have "root t = NilNode" using T(1) by (simp add: loads_nil_iff)
    then have "Trie_Hash K t = Ok (emptyRoot, t\<lparr>root := NilNode\<rparr>)"
      by (simp add: Trie_Hash_def hashRoot_def)
    moreover have "trie_is K (t\<lparr>root := NilNode\<rparr>) m"
      using T True by (auto simp: trie_is_def intro: loads_nil)
    ultimately show ?thesis using T True by auto
  next
    case False
    then have c: "canon T" using T(2) by simp
    obtain h n where h: "hash_node K (root t) True = (h, n)" by (cases "hash_node K (root t) True") auto
    have "hashes K (t_reader t) True [] (h, n) T"
      using hash_node_refines [OF T(1) c T(3)] h by simp
    then have hn: "h = HashNode (hash_bytes (K (encode K T)))" "loads K (t_reader t) True [] n T"
      by (simp_all add: hashes_def hashed_as_def)
    have "root t \<noteq> NilNode" using T(1) False by (auto elim: loads_nilE)
    then have "Trie_Hash K t = Ok (K (encode K T), t\<lparr>unhashed := 0, root := n\<rparr>)"
      using h hn(1) by (simp add: Trie_Hash_def hashRoot_def Let_def)
    moreover have "trie_is K (t\<lparr>unhashed := 0, root := n\<rparr>) m"
      using T hn(2) c by (auto simp: trie_is_def)
    ultimately show ?thesis using T False by auto
  qed
qed

end
