(* ===== verification/TrieCommit.thy ===== *)
theory TrieCommit
  imports Trie
begin

text \<open>
  Committing a trie (trie/committer.go, trie/nodeset.go, \<open>Commit\<close> of trie/trie.go): the dirty nodes are
  collected in a set by their paths, in the form in which the database keeps them (\<open>simplifyNode\<close> and the
  raw nodes of trie/database.go). The tracer of the committer is the one of the trie, which is nil, so the
  previous values of the nodes are nil and it lists no deletions.
\<close>

section \<open>Nodes without flags (trie/database.go, trie/node_enc.go)\<close>

datatype rawnode = RawNone
  | RawFull "rawnode list"
  | RawShort bytes rawnode
  | RawHash bytes
  | RawValue bytes

fun simplifyNode :: "node \<Rightarrow> rawnode res"
  and simplify_children :: "node list \<Rightarrow> rawnode list res" where
  "simplifyNode (ShortNode k v fl) = rbind (simplifyNode v) (\<lambda>r. Ok (RawShort k r))"
| "simplifyNode (FullNode cs fl) = rbind (simplify_children cs) (\<lambda>rs. Ok (RawFull rs))"
| "simplifyNode (ValueNode v) = Ok (RawValue v)"
| "simplifyNode (HashNode h) = Ok (RawHash h)"
| "simplifyNode NilNode = Panic"
| "simplify_children [] = Ok []"
| "simplify_children (c # cs) =
     rbind (if c \<noteq> NilNode then simplifyNode c else Ok RawNone) (\<lambda>r.
     rbind (simplify_children cs) (\<lambda>rs. Ok (r # rs)))"

fun raw_item :: "rawnode \<Rightarrow> item" where
  "raw_item RawNone = RBytes []"
| "raw_item (RawHash h) = RBytes h"
| "raw_item (RawValue v) = RBytes v"
| "raw_item (RawShort k v) = RList [RBytes k, raw_item v]"
| "raw_item (RawFull cs) = RList (map raw_item cs)"

text \<open>A raw node with its keys and nodes expanded again, with the hash it is stored under.\<close>

fun expandNode :: "bytes option \<Rightarrow> rawnode \<Rightarrow> node res"
  and expand_children :: "rawnode list \<Rightarrow> node list res" where
  "expandNode hash (RawShort k v) =
     rbind (compactToHex k) (\<lambda>k. rbind (expandNode None v) (\<lambda>v. Ok (ShortNode k v \<lparr>fl_hash = hash, fl_dirty = False\<rparr>)))"
| "expandNode hash (RawFull rs) =
     rbind (expand_children rs) (\<lambda>cs. Ok (FullNode cs \<lparr>fl_hash = hash, fl_dirty = False\<rparr>))"
| "expandNode hash (RawValue v) = Ok (ValueNode v)"
| "expandNode hash (RawHash h) = Ok (HashNode h)"
| "expandNode hash RawNone = Panic"
| "expand_children [] = Ok []"
| "expand_children (r # rs) =
     rbind (if r \<noteq> RawNone then expandNode None r else Ok NilNode) (\<lambda>c.
     rbind (expand_children rs) (\<lambda>cs. Ok (c # cs)))"

section \<open>Sets of nodes (trie/nodeset.go)\<close>

text \<open>No raw blob ever is the node of a \<open>memoryNode\<close> in this program, only its collapsed form.\<close>

record memoryNode =
  mn_hash :: hash
  mn_size :: "16 word"
  mn_node :: rawnode

definition memoryNode_rlp :: "memoryNode \<Rightarrow> bytes" where
  "memoryNode_rlp n = EncodeToBytes (raw_item (mn_node n))"

definition memoryNode_obj :: "memoryNode \<Rightarrow> node res" where
  "memoryNode_obj n = expandNode (Some (hash_bytes (mn_hash n))) (mn_node n)"

record nodeWithPrev =
  np_node :: memoryNode
  np_prev :: "bytes option"

record trie_leaf =
  lf_blob :: bytes
  lf_parent :: hash

record NodeSet =
  ns_owner :: hash
  ns_order :: "bytes list"
  ns_nodes :: "bytes \<rightharpoonup> nodeWithPrev"
  ns_deletes :: "bytes \<rightharpoonup> bytes"
  ns_leaves :: "trie_leaf list"

definition NewNodeSet :: "hash \<Rightarrow> NodeSet" where
  "NewNodeSet owner = \<lparr>ns_owner = owner, ns_order = [], ns_nodes = Map.empty, ns_deletes = Map.empty, ns_leaves = []\<rparr>"

definition markUpdated :: "bytes \<Rightarrow> memoryNode \<Rightarrow> bytes option \<Rightarrow> NodeSet \<Rightarrow> NodeSet" where
  "markUpdated path n prev ns =
     ns\<lparr>ns_order := ns_order ns @ [path], ns_nodes := (ns_nodes ns)(path \<mapsto> \<lparr>np_node = n, np_prev = prev\<rparr>)\<rparr>"

definition markDeleted :: "bytes \<Rightarrow> bytes \<Rightarrow> NodeSet \<Rightarrow> NodeSet" where
  "markDeleted path prev ns = ns\<lparr>ns_deletes := (ns_deletes ns)(path \<mapsto> prev)\<rparr>"

fun mark_all_deleted :: "bytes list \<Rightarrow> bytes list \<Rightarrow> NodeSet \<Rightarrow> NodeSet res" where
  "mark_all_deleted [] prev ns = Ok ns"
| "mark_all_deleted (path # paths) prev ns =
     (case prev of [] \<Rightarrow> Panic | p # prev \<Rightarrow> mark_all_deleted paths prev (markDeleted path p ns))"

definition NewNodeSetWithDeletion :: "hash \<Rightarrow> bytes list \<Rightarrow> bytes list \<Rightarrow> NodeSet res" where
  "NewNodeSetWithDeletion owner paths prev = mark_all_deleted paths prev (NewNodeSet owner)"

definition addLeaf :: "trie_leaf \<Rightarrow> NodeSet \<Rightarrow> NodeSet" where
  "addLeaf leaf ns = ns\<lparr>ns_leaves := ns_leaves ns @ [leaf]\<rparr>"

definition NodeSet_Size :: "NodeSet \<Rightarrow> nat \<times> nat" where
  "NodeSet_Size ns = (length (ns_order ns), card (dom (ns_deletes ns)))"

text \<open>The dirty nodes of several tries, each with an owner of its own.\<close>

type_synonym MergedNodeSet = "hash \<rightharpoonup> NodeSet"

definition Merge :: "NodeSet \<Rightarrow> MergedNodeSet \<Rightarrow> MergedNodeSet option" where
  "Merge other sets = (if ns_owner other \<in> dom sets then None else Some (sets(ns_owner other \<mapsto> other)))"

definition NewWithNodeSet :: "NodeSet \<Rightarrow> MergedNodeSet" where
  "NewWithNodeSet ns = (case Merge ns Map.empty of None \<Rightarrow> Map.empty | Some sets \<Rightarrow> sets)"

section \<open>The committer (trie/committer.go)\<close>

text \<open>The size of the encoding, estimated.\<close>

fun estimateSize :: "node \<Rightarrow> nat res"
  and estimate_children :: "nat \<Rightarrow> node list \<Rightarrow> nat res" where
  "estimateSize (ShortNode k v fl) = rbind (estimateSize v) (\<lambda>s. Ok (3 + length k + s))"
| "estimateSize (FullNode cs fl) = rbind (estimate_children 0 cs) (\<lambda>s. Ok (3 + s))"
| "estimateSize (ValueNode v) = Ok (1 + length v)"
| "estimateSize (HashNode h) = Ok (1 + length h)"
| "estimateSize NilNode = Panic"
| "estimate_children i [] = Ok 0"
| "estimate_children i (c # cs) =
     (if 16 \<le> i then Ok 0
      else rbind (if c \<noteq> NilNode then estimateSize c else Ok 1) (\<lambda>s.
        rbind (estimate_children (i + 1) cs) (\<lambda>t. Ok (s + t))))"

definition collect_leaf :: "bool \<Rightarrow> node \<Rightarrow> hash \<Rightarrow> NodeSet \<Rightarrow> NodeSet" where
  "collect_leaf collect n nhash ns =
     (case n of
        ShortNode k v fl \<Rightarrow>
          (case v of ValueNode val \<Rightarrow> if collect then addLeaf \<lparr>lf_blob = val, lf_parent = nhash\<rparr> ns else ns | _ \<Rightarrow> ns)
      | _ \<Rightarrow> ns)"

definition trie_store :: "bool \<Rightarrow> bytes \<Rightarrow> node \<Rightarrow> NodeSet \<Rightarrow> (node \<times> NodeSet) res" where
  "trie_store collect path n ns =
     (case fst (node_cache n) of
        None \<Rightarrow> Ok (n, ns)
      | Some hash \<Rightarrow>
          rbind (estimateSize n) (\<lambda>size. rbind (simplifyNode n) (\<lambda>raw.
            let nhash = be_word hash;
                ns = markUpdated path \<lparr>mn_hash = nhash, mn_size = of_nat size, mn_node = raw\<rparr> None ns
            in Ok (HashNode hash, collect_leaf collect n nhash ns))))"

text \<open>
  The node that takes the place of the committed one, and the set with its dirty nodes. The error of the
  code is nil on every path and left out.
\<close>

fun commit :: "bool \<Rightarrow> bytes \<Rightarrow> node \<Rightarrow> NodeSet \<Rightarrow> (node \<times> NodeSet) res"
  and commitChildren :: "bool \<Rightarrow> bytes \<Rightarrow> nat \<Rightarrow> node list \<Rightarrow> NodeSet \<Rightarrow> (node list \<times> NodeSet) res" where
  "commit collect path (ShortNode k v fl) ns =
     (if fl_hash fl \<noteq> None \<and> \<not> fl_dirty fl then Ok (HashNode (the (fl_hash fl)), ns)
      else
        rbind (case v of FullNode _ _ \<Rightarrow> commit collect (path @ k) v ns | _ \<Rightarrow> Ok (v, ns)) (\<lambda>(cv, ns).
        rbind (hexToCompact k) (\<lambda>ck.
          trie_store collect path (ShortNode ck cv fl) ns)))"
| "commit collect path (FullNode cs fl) ns =
     (if fl_hash fl \<noteq> None \<and> \<not> fl_dirty fl then Ok (HashNode (the (fl_hash fl)), ns)
      else
        rbind (commitChildren collect path 0 cs ns) (\<lambda>(hashedKids, ns).
          trie_store collect path (FullNode hashedKids fl) ns))"
| "commit collect path (HashNode h) ns = Ok (HashNode h, ns)"
| "commit collect path (ValueNode v) ns = Panic"
| "commit collect path NilNode ns = Panic"
| "commitChildren collect path i [] ns = Ok ([], ns)"
| "commitChildren collect path i (c # cs) ns =
     (if 16 \<le> i then Ok (c # cs, ns)
      else
        rbind (case c of
            NilNode \<Rightarrow> Ok (NilNode, ns)
          | HashNode h \<Rightarrow> Ok (HashNode h, ns)
          | _ \<Rightarrow> commit collect (path @ [of_nat i]) c ns) (\<lambda>(hashed, ns).
        rbind (commitChildren collect path (i + 1) cs ns) (\<lambda>(hs, ns). Ok (hashed # hs, ns))))"

definition Committer_Commit :: "hash \<Rightarrow> bool \<Rightarrow> node \<Rightarrow> (bytes \<times> NodeSet) res" where
  "Committer_Commit owner collect n =
     rbind (commit collect [] n (NewNodeSet owner)) (\<lambda>(h, ns).
       case h of HashNode h \<Rightarrow> Ok (h, ns) | _ \<Rightarrow> Panic)"

text \<open>The root hash, the dirty nodes unless there are none, and the trie with its root replaced by a hash.\<close>

definition Trie_Commit :: "(bytes \<Rightarrow> hash) \<Rightarrow> bool \<Rightarrow> Trie \<Rightarrow> (hash \<times> NodeSet option \<times> Trie) res" where
  "Trie_Commit K collect t =
     (if root t = NilNode then Ok (emptyRoot, None, t)
      else rbind (Trie_Hash K t) (\<lambda>(rootHash, t).
        case node_cache (root t) of
          (hashed, False) \<Rightarrow>
            Ok (rootHash, None, t\<lparr>root := HashNode (case hashed of None \<Rightarrow> [] | Some h \<Rightarrow> h)\<rparr>)
        | (_, True) \<Rightarrow>
            rbind (Committer_Commit (t_owner t) collect (root t)) (\<lambda>(newRoot, nodes).
              Ok (rootHash, Some nodes, t\<lparr>root := HashNode newRoot\<rparr>))))"

end
