(* ===== verification/TrieReload.thy ===== *)
theory TrieReload
  imports TrieContents TrieCommit
begin

text \<open>
  What a commit is for: a database that took the set of dirty nodes holds the trie under its root hash.
\<close>

section \<open>The database with the committed nodes\<close>

text \<open>
  The reader after the set was handed to the database: a node of the set answers for its path and hash, everything else is
  answered as before. The \<^verbatim>\<open>hashReader\<close> of trie/database.go looks a node up by its hash alone and ignores the path, so it
  answers at least these questions; the reader here is the weaker one, for which no assumption about equal hashes is needed.
\<close>

definition with_nodes :: "NodeSet \<Rightarrow> reader \<Rightarrow> bytes \<Rightarrow> hash \<Rightarrow> bytes option" where
  "with_nodes ns R path hash =
     (let below = (case R of None \<Rightarrow> None | Some get \<Rightarrow> get path hash) in
      case ns_nodes ns path of
        None \<Rightarrow> below
      | Some n \<Rightarrow> if mn_hash (np_node n) = hash then Some (memoryNode_rlp (np_node n)) else below)"

abbreviation over :: "NodeSet \<Rightarrow> reader \<Rightarrow> reader" where
  "over ns R \<equiv> Some (with_nodes ns R)"

lemma nodeBlob_over:
  "ns_nodes ns p = Some n \<Longrightarrow> mn_hash (np_node n) = h \<Longrightarrow> memoryNode_rlp (np_node n) = b \<Longrightarrow> b \<noteq> [] \<Longrightarrow> nodeBlob (over ns R) p h = Inr b"
  by (simp add: nodeBlob_def with_nodes_def)

lemma nodeBlob_below:
  "ns_nodes ns p = None \<Longrightarrow> nodeBlob R p h = Inr b \<Longrightarrow> nodeBlob (over ns R) p h = Inr b"
  by (auto simp: nodeBlob_def with_nodes_def split: option.splits if_splits)

text \<open>Storage below a path depends only on the nodes below it.\<close>

lemma stored_cong:
  "(\<And>q. ns_nodes ns (p @ q) = ns_nodes ns' (p @ q)) \<Longrightarrow> stored K (over ns R) atop p t \<Longrightarrow> stored K (over ns' R) atop p t"
proof (induction t arbitrary: p atop)
  case (EShort ks t)
  have "in_db K (over ns' R) atop p (EShort ks t)"
    using EShort(2) [of "[]"] EShort(3) by (simp add: in_db_def nodeBlob_def with_nodes_def)
  then show ?case
    using EShort(1) [of "p @ ks" False] EShort(2) [of "ks @ q" for q] EShort(3) by simp
next
  case (EFull ts)
  have "in_db K (over ns' R) atop p (EFull ts)"
    using EFull(2) [of "[]"] EFull(3) by (simp add: in_db_def nodeBlob_def with_nodes_def)
  moreover have "stored K (over ns' R) False (p @ [of_nat i]) (ts ! i)" if "i < length ts" for i
    using EFull(1) [of "ts ! i" "p @ [of_nat i]" False] EFull(2) [of "[of_nat i] @ q" for q] EFull(3) that by simp
  ultimately show ?case by simp
qed simp_all

lemma stored_below:
  "(\<And>q. ns_nodes ns (p @ q) = None) \<Longrightarrow> stored K R atop p t \<Longrightarrow> stored K (over ns R) atop p t"
proof (induction t arbitrary: p atop)
  case (EShort ks t)
  have "in_db K (over ns R) atop p (EShort ks t)"
    using EShort(2) [of "[]"] EShort(3) nodeBlob_below by (simp add: in_db_def)
  then show ?case
    using EShort(1) [of "p @ ks" False] EShort(2) [of "ks @ q" for q] EShort(3) by simp
next
  case (EFull ts)
  have "in_db K (over ns R) atop p (EFull ts)"
    using EFull(2) [of "[]"] EFull(3) nodeBlob_below by (simp add: in_db_def)
  moreover have "stored K (over ns R) False (p @ [of_nat i]) (ts ! i)" if "i < length ts" for i
    using EFull(1) [of "ts ! i" "p @ [of_nat i]" False] EFull(2) [of "[of_nat i] @ q" for q] EFull(3) that by simp
  ultimately show ?case by simp
qed simp_all

section \<open>Storing a node\<close>

text \<open>A collapsed node without a hole: nil only among the children of a branching.\<close>

fun solid :: "node \<Rightarrow> bool" where
  "solid NilNode = False"
| "solid (ShortNode k v fl) = solid v"
| "solid (FullNode cs fl) = (\<forall>c \<in> set cs. c = NilNode \<or> solid c)"
| "solid _ = True"

lemma simplify_solid:
  "solid n \<Longrightarrow> \<exists>r. simplifyNode n = Ok r \<and> raw_item r = node_item n"
  "(\<forall>c \<in> set cs. c = NilNode \<or> solid c) \<Longrightarrow> \<exists>rs. simplify_children cs = Ok rs \<and> map raw_item rs = map node_item cs"
  by (induction n and cs rule: simplifyNode_simplify_children.induct) fastforce+

lemma estimate_solid:
  "solid n \<Longrightarrow> \<exists>s. estimateSize n = Ok s"
  "(\<forall>c \<in> set cs. c = NilNode \<or> solid c) \<Longrightarrow> \<exists>s. estimate_children i cs = Ok s"
proof (induction n and i cs rule: estimateSize_estimate_children.induct)
  case (7 i c cs)
  then show ?case by (cases "16 \<le> i"; cases "c = NilNode") auto
qed auto

lemma ns_nodes_collect [simp]: "ns_nodes (collect_leaf c n h ns) = ns_nodes ns"
  by (auto simp: collect_leaf_def addLeaf_def split: node.splits)

text \<open>The result of committing a trie that stands at a path, given the set of nodes before.\<close>

definition committed :: "(bytes \<Rightarrow> hash) \<Rightarrow> reader \<Rightarrow> bool \<Rightarrow> bytes \<Rightarrow> etrie \<Rightarrow> NodeSet \<Rightarrow> node \<times> NodeSet \<Rightarrow> bool" where
  "committed K R atop p t ns r \<longleftrightarrow> hashed_as K atop (fst r) t \<and> solid (fst r) \<and>
     (\<forall>q. (\<nexists>s. q = p @ s) \<longrightarrow> ns_nodes (snd r) q = ns_nodes ns q) \<and> stored K (over (snd r) R) atop p t"

lemma store_committed:
  assumes t: "canon t" "sized t" and n: "node_item n = eitem K t" "solid n" "\<forall>h. n \<noteq> HashNode h"
    and h: "fst (node_cache n) = fl_hash fl" "flag_ok K R' atop p fl t"
      "fl_hash fl = None \<longrightarrow> \<not> atop \<and> length (encode K t) < 32"
    and before: "\<forall>q. (\<nexists>s. q = p @ s) \<longrightarrow> ns_nodes ns q = ns_nodes ns0 q"
    and kids: "\<And>ns'. (\<And>q. q \<noteq> [] \<Longrightarrow> ns_nodes ns' (p @ q) = ns_nodes ns (p @ q)) \<Longrightarrow> in_db K (over ns' R) atop p t \<Longrightarrow> stored K (over ns' R) atop p t"
  shows "\<exists>r. trie_store collect p n ns = Ok r \<and> committed K R atop p t ns0 r"
proof (cases "fl_hash fl")
  case None
  then have "hashed_as K atop n t"
    using h n(1) t(1) by (simp add: hashed_as_def ref_def shrink_def encode_def canon_is_node)
  moreover have "stored K (over ns R) atop p t" using kids [of ns] None h(3) by (simp add: in_db_def)
  ultimately show ?thesis
    using None h(1) n(2) before by (intro exI [of _ "(n, ns)"]) (simp add: trie_store_def committed_def)
next
  case (Some hs)
  obtain s r where sr: "estimateSize n = Ok s" "simplifyNode n = Ok r" "raw_item r = node_item n"
    using estimate_solid(1) [OF n(2)] simplify_solid(1) [OF n(2)] by blast
  have hs: "hs = hash_bytes (K (encode K t))" "atop \<or> 32 \<le> length (encode K t)"
    using h(2) Some by (simp_all add: flag_ok_def)
  let ?m = "\<lparr>mn_hash = be_word hs, mn_size = of_nat s, mn_node = r\<rparr>"
  let ?ns = "collect_leaf collect n (be_word hs) (markUpdated p ?m None ns)"
  have rlp: "memoryNode_rlp ?m = encode K t"
    using nodeToBytes_encode [OF t n(1)] sr(3) by (simp add: memoryNode_rlp_def nodeToBytes_def)
  have "in_db K (over ?ns R) atop p t"
    using nodeBlob_over [of ?ns p "\<lparr>np_node = ?m, np_prev = None\<rparr>" "K (encode K t)" "encode K t" R] rlp hs encode_list [OF t(1), of K]
    by (auto simp: in_db_def markUpdated_def encode_def)
  then have "stored K (over ?ns R) atop p t" by (intro kids) (simp add: markUpdated_def)
  moreover have "hashed_as K atop (HashNode hs) t"
    using hs t(1) by (auto simp: hashed_as_def ref_def shrink_def encode_def canon_is_node)
  moreover have "\<forall>q. (\<nexists>s. q = p @ s) \<longrightarrow> ns_nodes ?ns q = ns_nodes ns0 q"
    using before by (auto simp: markUpdated_def)
  ultimately show ?thesis
    using Some h(1) sr by (simp add: trie_store_def committed_def Let_def)
qed

section \<open>Committing\<close>

lemma loads_ref:
  assumes "loads K R False p n t" "slot_ok i t" "\<forall>ks m fl. n \<noteq> ShortNode ks m fl" "\<forall>ns fl. n \<noteq> FullNode ns fl"
  shows "node_item n = ref K t \<and> (n = NilNode \<or> solid n) \<and> (n = NilNode \<longrightarrow> t = ENil)"
  using assms by (cases n) (auto simp: ref_def shrink_def encode_def elim!: loads_nilE loads_valueE loads_hashE)

definition stored_apart :: "(bytes \<Rightarrow> hash) \<Rightarrow> reader \<Rightarrow> bytes \<Rightarrow> nat \<Rightarrow> etrie list \<Rightarrow> NodeSet \<Rightarrow> node list \<times> NodeSet \<Rightarrow> bool" where
  "stored_apart K R p i ts ns r \<longleftrightarrow> length (fst r) = length ts \<and>
     (\<forall>k < length ts. node_item (fst r ! k) = ref K (ts ! k) \<and> (fst r ! k = NilNode \<or> solid (fst r ! k)) \<and>
        stored K (over (snd r) R) False (p @ [of_nat (i + k)]) (ts ! k)) \<and>
     (\<forall>q. (\<nexists>j s. i \<le> j \<and> j < 17 \<and> q = p @ [of_nat j] @ s) \<longrightarrow> ns_nodes (snd r) q = ns_nodes ns q)"

lemma of_nat_slot: "i < 17 \<Longrightarrow> j < 17 \<Longrightarrow> (of_nat i :: byte) = of_nat j \<longleftrightarrow> i = j"
  by (simp add: word_of_nat_eq_iff take_bit_nat_eq_self)

lemma loads_unloaded:
  "loads K R atop p n t \<Longrightarrow> canon t \<Longrightarrow> (\<exists>ks m fl. n = ShortNode ks m fl) \<or> (\<exists>ns fl. n = FullNode ns fl) \<or>
     (\<exists>h. n = HashNode h \<and> stored K R atop p t \<and> h = hash_bytes (K (encode K t)) \<and> (atop \<or> 32 \<le> length (encode K t)))"
  by (cases n) (auto elim!: loads_nilE loads_valueE loads_hashE)

lemma commit_clean:
  assumes "stored K R atop p t" "canon t" "atop \<or> 32 \<le> length (encode K t)" "\<forall>q. ns_nodes ns (p @ q) = None"
  shows "committed K R atop p t ns (HashNode (hash_bytes (K (encode K t))), ns)"
  using assms stored_below [of ns p K R atop t]
  by (auto simp: committed_def hashed_as_def ref_def shrink_def encode_def canon_is_node)

lemma clean_flag:
  "flag_ok K R atop p fl t \<Longrightarrow> fl_hash fl \<noteq> None \<and> \<not> fl_dirty fl \<Longrightarrow> canon t \<Longrightarrow> \<forall>q. ns_nodes ns (p @ q) = None \<Longrightarrow>
     committed K R atop p t ns (HashNode (the (fl_hash fl)), ns)"
  using commit_clean [of K R atop p t ns] by (auto simp: flag_ok_def)

text \<open>A child and the set of nodes after it was committed: what a parent needs of it.\<close>

definition placed :: "(bytes \<Rightarrow> hash) \<Rightarrow> reader \<Rightarrow> bytes \<Rightarrow> etrie \<Rightarrow> NodeSet \<Rightarrow> node \<times> NodeSet \<Rightarrow> bool" where
  "placed K R p t ns r \<longleftrightarrow> node_item (fst r) = ref K t \<and> (fst r = NilNode \<longleftrightarrow> t = ENil) \<and> (fst r = NilNode \<or> solid (fst r)) \<and>
     (\<forall>q. (\<nexists>s. q = p @ s) \<longrightarrow> ns_nodes (snd r) q = ns_nodes ns q) \<and> stored K (over (snd r) R) False p t"

lemma committed_placed: "committed K R False p t ns r \<Longrightarrow> canon t \<Longrightarrow> placed K R p t ns r"
  by (cases "fst r") (auto simp: committed_def placed_def hashed_as_def)

lemma unloaded_placed:
  assumes "loads K R False p n t" "\<forall>ks m fl. n \<noteq> ShortNode ks m fl" "\<forall>ns fl. n \<noteq> FullNode ns fl" "slot_ok i t"
    "\<forall>q. ns_nodes ns (p @ q) = None"
  shows "placed K R p t ns (n, ns)"
proof -
  have "stored K R False p t" using assms(1-3) by (auto elim: loads.cases)
  then have "stored K (over ns R) False p t" using stored_below assms(5) by blast
  moreover have "n = NilNode \<longleftrightarrow> t = ENil" using assms(1) by (auto simp: loads_nil_iff elim: loads_nilE)
  ultimately show ?thesis using loads_ref [OF assms(1,4,2,3)] by (auto simp: placed_def)
qed

lemma short_child:
  assumes "loads K R False (p @ ks) m c" "segment_ok ks c" "\<forall>q. ns_nodes ns (p @ q) = None"
    "\<And>ms mf. m = FullNode ms mf \<Longrightarrow> canon c \<Longrightarrow> \<exists>r. commit collect (p @ ks) m ns = Ok r \<and> committed K R False (p @ ks) c ns r"
  shows "\<exists>r. (case m of FullNode _ _ \<Rightarrow> commit collect (p @ ks) m ns | _ \<Rightarrow> Ok (m, ns)) = Ok r \<and> placed K R (p @ ks) c ns r"
proof (cases "\<exists>ms mf. m = FullNode ms mf")
  case True
  then obtain ms mf where m: "m = FullNode ms mf" by blast
  have "canon c" using assms(1,2) m by (auto simp: segment_ok_def is_leaf_def elim: loads_fullE)
  then show ?thesis using assms(4) [OF m] committed_placed m by auto
next
  case False
  then have sh: "\<forall>ks m' fl. m \<noteq> ShortNode ks m' fl"
    using assms(1,2) by (auto simp: segment_ok_def is_leaf_def elim!: loads_shortE)
  have "slot_ok (if is_leaf c then 16 else 0) c"
    using assms(2) by (auto simp: slot_ok_def segment_ok_def is_leaf_def)
  then have "placed K R (p @ ks) c ns (m, ns)"
    using False assms(3) by (intro unloaded_placed [OF assms(1) sh]) auto
  moreover have "(case m of FullNode _ _ \<Rightarrow> commit collect (p @ ks) m ns | _ \<Rightarrow> Ok (m, ns)) = Ok (m, ns)"
    using False by (cases m) auto
  ultimately show ?thesis by blast
qed

lemma short_stores:
  assumes c: "canon (EShort ks c)" "sized (EShort ks c)" "flag_ok K R' atop p fl (EShort ks c)" "placed K R (p @ ks) c ns (cv, ns1)"
    "fl_hash fl = None \<longrightarrow> \<not> atop \<and> length (encode K (EShort ks c)) < 32"
  shows "\<exists>r. rbind (hexToCompact ks) (\<lambda>ck. trie_store collect p (ShortNode ck cv fl) ns1) = Ok r \<and> committed K R atop p (EShort ks c) ns r"
proof -
  have seg: "ks \<noteq> []" "segment_ok ks c" using c(1) by (auto simp: canon_short)
  have ck: "hexToCompact ks = Ok (compact_key ks)"
  proof -
    obtain ns b where "ks = hexkey ns b" "nibbles ns" using segment_key [OF seg(2)] by blast
    then show ?thesis using hexToCompact_of [of ns b] by (simp add: compact_key_def)
  qed
  have "\<exists>r. trie_store collect p (ShortNode (compact_key ks) cv fl) ns1 = Ok r \<and> committed K R atop p (EShort ks c) ns r"
  proof (rule store_committed [OF c(1,2)])
    show "node_item (ShortNode (compact_key ks) cv fl) = eitem K (EShort ks c)"
      using c(4) compact_key_segment [OF seg(2)] by (simp add: placed_def)
    show "solid (ShortNode (compact_key ks) cv fl)"
      using c(4) seg(2) by (auto simp: placed_def segment_ok_def is_leaf_def)
    show "\<forall>q. (\<nexists>s. q = p @ s) \<longrightarrow> ns_nodes ns1 q = ns_nodes ns q" using c(4) by (auto simp: placed_def)
    show "stored K (over ns' R) atop p (EShort ks c)"
      if "\<And>q. q \<noteq> [] \<Longrightarrow> ns_nodes ns' (p @ q) = ns_nodes ns1 (p @ q)" "in_db K (over ns' R) atop p (EShort ks c)" for ns'
      using stored_cong [of ns1 "p @ ks" ns' K R False c] that c(4) seg(1) by (simp add: placed_def)
  qed (use c in auto)
  then show ?thesis using ck by simp
qed

lemma full_stores:
  assumes c: "canon (EFull cs)" "sized (EFull cs)" "flag_ok K R' atop p fl (EFull cs)" "stored_apart K R p 0 cs ns (hs, ns1)"
    "fl_hash fl = None \<longrightarrow> \<not> atop \<and> length (encode K (EFull cs)) < 32"
  shows "\<exists>r. trie_store collect p (FullNode hs fl) ns1 = Ok r \<and> committed K R atop p (EFull cs) ns r"
proof (rule store_committed [OF c(1,2)])
  have "map node_item hs = map (ref K) cs"
    using c(4) by (intro nth_equalityI) (auto simp: stored_apart_def)
  then show "node_item (FullNode hs fl) = eitem K (EFull cs)" by simp
  show "solid (FullNode hs fl)" using c(4) by (auto simp: stored_apart_def in_set_conv_nth)
  show "\<forall>q. (\<nexists>s. q = p @ s) \<longrightarrow> ns_nodes ns1 q = ns_nodes ns q" using c(4) by (auto simp: stored_apart_def)
  show "stored K (over ns' R) atop p (EFull cs)"
    if a: "\<And>q. q \<noteq> [] \<Longrightarrow> ns_nodes ns' (p @ q) = ns_nodes ns1 (p @ q)" and b: "in_db K (over ns' R) atop p (EFull cs)" for ns'
  proof -
    have "stored K (over ns' R) False (p @ [of_nat k]) (cs ! k)" if k: "k < length cs" for k
      using stored_cong [of ns1 "p @ [of_nat k]" ns' K R False "cs ! k"] a c(4) k by (simp add: stored_apart_def)
    then show ?thesis using b by simp
  qed
qed (use c in auto)

abbreviation commit_slot :: "bool \<Rightarrow> bytes \<Rightarrow> node \<Rightarrow> NodeSet \<Rightarrow> (node \<times> NodeSet) res" where
  "commit_slot collect p c ns \<equiv> (case c of NilNode \<Rightarrow> Ok (NilNode, ns) | HashNode h \<Rightarrow> Ok (HashNode h, ns) | _ \<Rightarrow> commit collect p c ns)"

lemma slot_child:
  assumes kid: "loads K R False p c t" "slot_ok i t" "i < 16" and before: "\<forall>q. ns_nodes ns (p @ q) = None"
    and IH: "canon t \<Longrightarrow> \<nexists>h. c = HashNode h \<Longrightarrow> \<exists>r. commit collect p c ns = Ok r \<and> committed K R False p t ns r"
  shows "\<exists>r. commit_slot collect p c ns = Ok r \<and> placed K R p t ns r"
proof (cases "c = NilNode \<or> (\<exists>h. c = HashNode h)")
  case True
  then have "placed K R p t ns (c, ns)"
    using kid before by (intro unloaded_placed) auto
  then show ?thesis using True by auto
next
  case False
  then have "canon t" using kid by (auto simp: slot_ok_def elim!: loads_ENil)
  moreover have "commit_slot collect p c ns = commit collect p c ns" using False by (cases c) auto
  ultimately show ?thesis using IH committed_placed False by (metis (no_types, lifting))
qed

lemma apart_Cons:
  assumes h: "placed K R (p @ [of_nat i]) t ns (h, ns1)" "i < 17" and hs: "stored_apart K R p (i + 1) ts ns1 (hs, ns2)"
  shows "stored_apart K R p i (t # ts) ns (h # hs, ns2)"
proof -
  have kept: "ns_nodes ns2 q = ns_nodes ns1 q" if "\<nexists>j s. i + 1 \<le> j \<and> j < 17 \<and> q = p @ [of_nat j] @ s" for q
    using hs that unfolding stored_apart_def by simp
  have apart: "\<nexists>j s. i + 1 \<le> j \<and> j < 17 \<and> (p @ [of_nat i]) @ q = p @ [of_nat j] @ s" for q
    using of_nat_slot [OF h(2)] by auto
  have here: "stored K (over ns2 R) False (p @ [of_nat i]) t"
    using stored_cong [of ns1 "p @ [of_nat i]" ns2] kept [OF apart] h(1) by (simp add: placed_def)
  have "ns_nodes ns2 q = ns_nodes ns q" if q: "\<nexists>j s. i \<le> j \<and> j < 17 \<and> q = p @ [of_nat j] @ s" for q
  proof -
    have "\<nexists>j s. i + 1 \<le> j \<and> j < 17 \<and> q = p @ [of_nat j] @ s" "\<nexists>s. q = (p @ [of_nat i]) @ s"
      using q h(2) by auto
    then show ?thesis using kept h(1) by (simp add: placed_def)
  qed
  moreover have "node_item ((h # hs) ! k) = ref K ((t # ts) ! k) \<and> ((h # hs) ! k = NilNode \<or> solid ((h # hs) ! k)) \<and>
      stored K (over ns2 R) False (p @ [of_nat (i + k)]) ((t # ts) ! k)" if "k < Suc (length ts)" for k
    using that here h(1) hs by (cases k) (auto simp: placed_def stored_apart_def)
  ultimately show ?thesis
    using hs by (auto simp: stored_apart_def)
qed

lemma slots_after:
  assumes "placed K R (p @ [of_nat i]) t ns (h, ns1)" "\<forall>q. ns_nodes ns (p @ q) = None \<or> (\<exists>j s. j < i \<and> q = of_nat j # s)"
  shows "\<forall>q. ns_nodes ns1 (p @ q) = None \<or> (\<exists>j s. j < i + 1 \<and> q = of_nat j # s)"
proof
  fix q
  show "ns_nodes ns1 (p @ q) = None \<or> (\<exists>j s. j < i + 1 \<and> q = of_nat j # s)"
  proof (cases "\<exists>s. q = of_nat i # s")
    case False
    then have "ns_nodes ns1 (p @ q) = ns_nodes ns (p @ q)" using assms(1) by (simp add: placed_def)
    then show ?thesis using assms(2) less_SucI by (metis Suc_eq_plus1)
  qed auto
qed

lemma commit_stores:
  "loads K R atop p n t \<Longrightarrow> settled K n t \<Longrightarrow> (atop \<longrightarrow> fst (node_cache n) \<noteq> None \<or> (\<exists>h. n = HashNode h)) \<Longrightarrow>
     canon t \<Longrightarrow> sized t \<Longrightarrow> (\<forall>q. ns_nodes ns (p @ q) = None) \<Longrightarrow>
     \<exists>r. commit collect p n ns = Ok r \<and> committed K R atop p t ns r"
  "i + length cs = 17 \<Longrightarrow> length ts = length cs \<Longrightarrow>
     (\<forall>k < length cs. loads K R False (p @ [of_nat (i + k)]) (cs ! k) (ts ! k) \<and> settled K (cs ! k) (ts ! k) \<and>
        slot_ok (i + k) (ts ! k) \<and> sized (ts ! k)) \<Longrightarrow>
     (\<forall>q. ns_nodes ns (p @ q) = None \<or> (\<exists>j s. j < i \<and> q = of_nat j # s)) \<Longrightarrow>
     \<exists>r. commitChildren collect p i cs ns = Ok r \<and> stored_apart K R p i ts ns r"
proof (induction collect p n ns and collect p i cs ns arbitrary: atop t and ts rule: commit_commitChildren.induct)
  case (1 collect p ks m fl ns)
  then obtain c where c: "t = EShort ks c" "loads K R False (p @ ks) m c" "flag_ok K R atop p fl (EShort ks c)"
    by (auto elim: loads_shortE)
  have seg: "segment_ok ks c" "sized c" using 1(5,6) c(1) sized_short by (auto simp: canon_short)
  show ?case
  proof (cases "fl_hash fl \<noteq> None \<and> \<not> fl_dirty fl")
    case True
    then show ?thesis using clean_flag [OF c(3) True, of ns] 1(5,7) c(1) by simp
  next
    case False
    have "\<exists>r. commit collect (p @ ks) m ns = Ok r \<and> committed K R False (p @ ks) c ns r" if "m = FullNode ms mf" "canon c" for ms mf
      using 1(1) [OF False that(1) c(2) _ _ that(2) seg(2)] 1(3,7) c(1) by simp
    then have "\<exists>r. (case m of FullNode _ _ \<Rightarrow> commit collect (p @ ks) m ns | _ \<Rightarrow> Ok (m, ns)) = Ok r \<and> placed K R (p @ ks) c ns r"
      by (intro short_child [OF c(2) seg(1) 1(7)])
    then obtain cv ns1 where "(case m of FullNode _ _ \<Rightarrow> commit collect (p @ ks) m ns | _ \<Rightarrow> Ok (m, ns)) = Ok (cv, ns1)"
        "placed K R (p @ ks) c ns (cv, ns1)"
      by auto
    then show ?thesis
      using short_stores [OF 1(5,6) [unfolded c(1)] c(3), where ns = ns and cv = cv and collect = collect] False c(1) 1(3,4) by auto
  qed
next
  case (2 collect p ms fl ns)
  then obtain cs where c: "t = EFull cs" "length ms = length cs" "\<forall>i < length ms. loads K R False (p @ [of_nat i]) (ms ! i) (cs ! i)"
      "flag_ok K R atop p fl (EFull cs)"
    by (auto elim: loads_fullE)
  have l: "length cs = 17" using 2(5) c(1) by (simp add: canon_full)
  show ?case
  proof (cases "fl_hash fl \<noteq> None \<and> \<not> fl_dirty fl")
    case True
    then show ?thesis using clean_flag [OF c(4) True, of ns] 2(5,7) c(1) by simp
  next
    case False
    have "\<forall>k < length ms. loads K R False (p @ [of_nat (0 + k)]) (ms ! k) (cs ! k) \<and> settled K (ms ! k) (cs ! k) \<and>
        slot_ok (0 + k) (cs ! k) \<and> sized (cs ! k)"
      using 2(3,5,6) c l sized_full by (auto simp: canon_full)
    then obtain hs ns1 where "commitChildren collect p 0 ms ns = Ok (hs, ns1)" "stored_apart K R p 0 cs ns (hs, ns1)"
      using 2(1) [OF False, of cs] 2(7) c(2) l by auto
    then show ?thesis
      using full_stores [OF 2(5,6) [unfolded c(1)] c(4), where ns = ns and hs = hs and collect = collect] False c(1) 2(3,4) by auto
  qed
next
  case (3 collect p h ns)
  then show ?case
    using commit_clean [of K R atop p t ns] by (auto elim!: loads_hashE)
next
  case (6 collect p i ns)
  then show ?case by (simp add: stored_apart_def)
next
  case (7 collect p i c cs ns)
  obtain t0 ts' where ts: "ts = t0 # ts'" using "7.prems"(2) by (cases ts) auto
  have kid: "loads K R False (p @ [of_nat i]) c t0" "settled K c t0" "slot_ok i t0" "sized t0"
    using "7.prems"(3) ts by (auto dest: spec [of _ 0])
  have l: "i + 1 + length cs = 17" "length ts' = length cs" "i < 17" using "7.prems"(1,2) ts by simp_all
  have before: "\<forall>q. ns_nodes ns ((p @ [of_nat i]) @ q) = None"
  proof
    fix q :: bytes
    have "\<not> (\<exists>j s. j < i \<and> of_nat i # q = of_nat j # s)" using of_nat_slot [OF l(3)] l(3) by auto
    then show "ns_nodes ns ((p @ [of_nat i]) @ q) = None" using "7.prems"(4) [rule_format, of "of_nat i # q"] by auto
  qed
  show ?case
  proof (cases "16 \<le> i")
    case True
    then have i: "i = 16" "cs = []" "ts' = []" using l by (cases cs; cases ts'; auto)+
    then have "placed K R (p @ [of_nat i]) t0 ns (c, ns)"
      using kid(1,3) before by (intro unloaded_placed) (auto simp: slot_ok_def is_leaf_def elim: loads_shortE loads_fullE)
    then have "stored_apart K R p i ts ns ([c], ns)"
      using apart_Cons [OF _ l(3), of K R p t0 ns c ns "[]" "[]" ns] ts i by (simp add: stored_apart_def)
    then show ?thesis using True i by simp
  next
    case False
    have "\<exists>r. commit collect (p @ [of_nat i]) c ns = Ok r \<and> committed K R False (p @ [of_nat i]) t0 ns r" if "canon t0" "\<nexists>h. c = HashNode h"
      using loads_unloaded [OF kid(1) that(1)] that(2) "7.IH"(1) [OF False _ kid(1,2) _ that(1) kid(4) before]
        "7.IH"(2) [OF False _ kid(1,2) _ that(1) kid(4) before] by blast
    then obtain h ns1 where h: "commit_slot collect (p @ [of_nat i]) c ns = Ok (h, ns1)" "placed K R (p @ [of_nat i]) t0 ns (h, ns1)"
      using slot_child [OF kid(1,3) _ before, of collect] False by auto
    have "\<forall>k < length cs. loads K R False (p @ [of_nat (i + 1 + k)]) (cs ! k) (ts' ! k) \<and> settled K (cs ! k) (ts' ! k) \<and>
        slot_ok (i + 1 + k) (ts' ! k) \<and> sized (ts' ! k)"
      using "7.prems"(3) [rule_format, of "Suc k" for k] ts by simp
    then obtain hs ns2 where "commitChildren collect p (i + 1) cs ns1 = Ok (hs, ns2)" "stored_apart K R p (i + 1) ts' ns1 (hs, ns2)"
      using "7.IH"(4) [OF False h(1) refl l(1,2) _ slots_after [OF h(2) "7.prems"(4)]] by auto
    then show ?thesis
      using apart_Cons [OF h(2) l(3)] h(1) ts False by auto
  qed
qed (auto elim!: loads_valueE loads_nilE)
section \<open>Reloading\<close>

text \<open>What the database answers after it took the nodes of a commit, if there are any.\<close>

definition taken :: "NodeSet option \<Rightarrow> reader \<Rightarrow> bytes \<Rightarrow> hash \<Rightarrow> bytes option" where
  "taken nodes R = with_nodes (case nodes of None \<Rightarrow> NewNodeSet 0 | Some ns \<Rightarrow> ns) R"

lemma no_new_nodes [simp]: "ns_nodes (NewNodeSet owner) = Map.empty"
  by (simp add: NewNodeSet_def)

lemma hash_forced:
  "loads K R True p n t \<Longrightarrow> canon t \<Longrightarrow>
     fst (node_cache (snd (hash_node K n True))) \<noteq> None \<or> (\<exists>h. snd (hash_node K n True) = HashNode h)"
  by (cases n) (auto simp: Let_def nodeToHash_def cached_flags_def split: option.splits prod.splits elim: loads_nilE loads_valueE)

text \<open>The state of a trie between hashing and committing: its root has a hash or is one.\<close>

lemma hashed_root:
  assumes "loads K R True [] n T" "canon T" "sized T"
  shows "\<exists>n'. hash_node K n True = (HashNode (hash_bytes (K (encode K T))), n') \<and> loads K R True [] n' T \<and> settled K n' T \<and>
    (fst (node_cache n') \<noteq> None \<or> (\<exists>h. n' = HashNode h))"
  using hash_node_refines [OF assms] hash_forced [OF assms(1,2)]
  by (cases "hash_node K n True") (auto simp: hashes_def hashed_as_def)

lemma commit_root:
  assumes "loads K R True [] n T" "settled K n T" "fst (node_cache n) \<noteq> None \<or> (\<exists>h. n = HashNode h)" "canon T" "sized T"
  shows "\<exists>ns. Committer_Commit owner collect n = Ok (hash_bytes (K (encode K T)), ns) \<and> stored K (over ns R) True [] T"
proof -
  obtain r where "commit collect [] n (NewNodeSet owner) = Ok r" "committed K R True [] T (NewNodeSet owner) r"
    using commit_stores(1) [OF assms(1,2) _ assms(4,5), where ns = "NewNodeSet owner" and collect = collect] assms(3) by auto
  then show ?thesis by (cases r) (auto simp: Committer_Commit_def committed_def hashed_as_def)
qed

lemma Trie_Commit_stores:
  assumes "loads K (t_reader t) True [] (root t) T" "canon T" "sized T"
  shows "\<exists>nodes t' u. Trie_Commit K collect t = Ok (K (encode K T), nodes, t') \<and> Trie_Hash K t = Ok (K (encode K T), u) \<and>
    stored K (Some (taken nodes (t_reader t))) True [] T"
proof -
  let ?h = "K (encode K T)"
  have ne: "root t \<noteq> NilNode" using assms(1,2) by (auto elim!: loads_nilE)
  obtain n' where n': "hash_node K (root t) True = (HashNode (hash_bytes ?h), n')" "loads K (t_reader t) True [] n' T"
      "settled K n' T" "fst (node_cache n') \<noteq> None \<or> (\<exists>h. n' = HashNode h)"
    using hashed_root [OF assms] by blast
  let ?u = "t\<lparr>unhashed := 0, root := n'\<rparr>"
  have hash: "Trie_Hash K t = Ok (?h, ?u)"
    using n'(1) ne by (simp add: Trie_Hash_def hashRoot_def Let_def)
  show ?thesis
  proof (cases "snd (node_cache n')")
    case True
    obtain ns where "Committer_Commit (t_owner t) collect n' = Ok (hash_bytes ?h, ns)" "stored K (over ns (t_reader t)) True [] T"
      using commit_root [OF n'(2,3,4) assms(2,3)] by blast
    then show ?thesis
      using True hash ne by (cases "node_cache n'") (auto simp: Trie_Commit_def taken_def)
  next
    case False
    then have "stored K (t_reader t) True [] T"
      using n'(2) assms(2) by (cases n') (auto simp: flag_ok_def elim!: loads_nilE loads_valueE loads_shortE loads_fullE simp del: stored.simps)
    then have "stored K (over (NewNodeSet 0) (t_reader t)) True [] T" by (intro stored_below) simp_all
    then show ?thesis
      using False hash ne by (cases "node_cache n'") (auto simp: Trie_Commit_def taken_def)
  qed
qed

lemma Trie_New_stored:
  assumes "stored K R True [] T" "canon T" "sized T" "contents T m" "newTrieReader sr owner db = Inr R"
    "K (encode K T) \<noteq> 0" "K (encode K T) \<noteq> emptyRoot"
  shows "\<exists>u. Trie_New \<lparr>StateRoot = sr, Owner = owner, Root = K (encode K T)\<rparr> db = Ok (Inr u) \<and> trie_is K u m"
proof -
  obtain n where n: "resolveAndTrack R (hash_bytes (K (encode K T))) [] = Ok (Inr n)" "loaded K R True [] n T"
    using resolve_stored [OF assms(1-3)] by blast
  have "trie_is K \<lparr>root = n, t_owner = owner, unhashed = 0, t_reader = R\<rparr> m"
    using loaded_parts [OF n(2)] assms(2-4) by (auto simp: trie_is_def)
  then show ?thesis using n(1) assms(5-7) by (simp add: Trie_New_def)
qed

end
