(* ===== verification/MerkleTrie.thy ===== *)
theory MerkleTrie
  imports TrieReload
begin

text \<open>What the trie promises to the code that uses it.\<close>

section \<open>Keys\<close>

text \<open>
  C31: A path of nibbles, with the terminator or without, survives the compact encoding: \<^verbatim>\<open>hexToCompact\<close>
  yields a compact key and \<^verbatim>\<open>compactToHex\<close> the path again. The version that works in place leaves the same
  compact key at the front of its buffer and reports its length. The hex form of a key of bytes decodes to
  the key.
\<close>

theorem trie_key_codecs:
  assumes "nibbles ns" "hexkey ns t \<noteq> []"
  shows "\<exists>c buf. hexToCompact (hexkey ns t) = Ok c \<and> compactToHex c = Ok (hexkey ns t) \<and>
    hexToCompactInPlace (hexkey ns t) = Ok (buf, length c) \<and> take (length c) buf = c \<and>
    hexToKeybytes (keybytesToHex key) = Ok key \<and> compactToHex (compact_key (keybytesToHex key)) = Ok (keybytesToHex key)"
proof -
  obtain ks where ks: "keybytesToHex key = hexkey ks True" "nibbles ks" "even (length ks)" "pairs ks = key"
    using keybytesToHex_key [of key] by (auto simp: hexkey_def)
  obtain buf where "hexToCompactInPlace (hexkey ns t) = Ok (buf, length (compact_of ns t))"
      "take (length (compact_of ns t)) buf = compact_of ns t"
    using hexToCompactInPlace_key [OF assms] by blast
  then show ?thesis
    using hexToCompact_of [OF assms(1)] compactToHex_compact [OF assms(1)] ks hexToKeybytes_key hexToCompact_of [OF ks(2)]
      compactToHex_compact [OF ks(2)]
    by (auto simp: compact_key_def)
qed

lemma trie_key_codecs_witness:
  "\<exists>c buf. hexToCompact [1, 2, 3, 16] = Ok c \<and> compactToHex c = Ok [1, 2, 3, 16] \<and>
    hexToCompactInPlace [1, 2, 3, 16] = Ok (buf, length c) \<and> take (length c) buf = c \<and>
    hexToKeybytes (keybytesToHex [7, 255]) = Ok [7, 255] \<and>
    compactToHex (compact_key (keybytesToHex [7, 255])) = Ok (keybytesToHex [7, 255])"
  using trie_key_codecs [of "[1, 2, 3]" True "[7, 255]"] by (simp add: hexkey_def)

section \<open>Operations\<close>

lemma trie_is_empty: "trie_is K \<lparr>root = NilNode, t_owner = ow, unhashed = u, t_reader = R\<rparr> Map.empty"
  by (auto simp: trie_is_def contents_def sized_def intro!: exI [of _ ENil] loads_nil)

text \<open>
  C7: A trie that holds a map, whatever part of it is in memory and whatever part still in the database,
  answers and changes as the map does. A lookup returns what the map has and leaves the contents. An update
  sets the key, and with an empty value removes it. A deletion removes the key. None of them fails, panics
  or runs out of fuel. The keys of an update are below two gigabytes and its values below four.
\<close>

theorem trie_operations:
  assumes "trie_is K t m" "length key < 2 ^ 31 - 1" "length v < 2 ^ 32"
  shows "(\<exists>t'. TryGet k t = Ok (Inr (m k), t') \<and> trie_is K t' m) \<and>
    (\<exists>t'. TryUpdate key v t = Ok (None, t') \<and> trie_is K t' (m(key := if v = [] then None else Some v))) \<and>
    (\<exists>t'. TryDelete k t = Ok (None, t') \<and> trie_is K t' (m(k := None)))"
proof -
  have t: "trie_is K (t\<lparr>unhashed := unhashed t + 1\<rparr>) m" using assms(1) by simp
  have "\<exists>t'. TryUpdate key v t = Ok (None, t') \<and> trie_is K t' (m(key := if v = [] then None else Some v))"
  proof (cases "v = []")
    case True
    then show ?thesis
      using delete_contents [OF t, of key] by (auto simp: TryUpdate_def Let_def)
  next
    case False
    then show ?thesis
      using insert_contents [OF t _ assms(2), of v] assms(3) by (auto simp: TryUpdate_def Let_def value_ok_def)
  qed
  moreover have "\<exists>t'. TryDelete k t = Ok (None, t') \<and> trie_is K t' (m(k := None))"
    using delete_contents [OF t, of k] by (auto simp: TryDelete_def Let_def)
  ultimately show ?thesis
    using TryGet_contents [OF assms(1)] by blast
qed

text \<open>Two keys set in a trie, in either order.\<close>

definition two_puts :: "Trie \<Rightarrow> bytes \<times> bytes \<Rightarrow> bytes \<times> bytes \<Rightarrow> Trie" where
  "two_puts t p q =
     (case TryUpdate (fst p) (snd p) t of
        Ok (_, t) \<Rightarrow> (case TryUpdate (fst q) (snd q) t of Ok (_, t) \<Rightarrow> t | _ \<Rightarrow> t)
      | _ \<Rightarrow> t)"

lemma TryUpdate_contents:
  assumes "trie_is K t m" "value_ok v" "length key < 2 ^ 31 - 1"
  shows "\<exists>t'. TryUpdate key v t = Ok (None, t') \<and> trie_is K t' (m(key \<mapsto> v))"
proof -
  have t: "trie_is K (t\<lparr>unhashed := unhashed t + 1\<rparr>) m" using assms(1) by simp
  show ?thesis
    using insert_contents [OF t assms(2,3)] assms(2) by (auto simp: TryUpdate_def Let_def value_ok_def)
qed

lemma two_puts_contents:
  assumes "trie_is K t m" "value_ok (snd p)" "length (fst p) < 2 ^ 31 - 1" "value_ok (snd q)" "length (fst q) < 2 ^ 31 - 1"
  shows "trie_is K (two_puts t p q) (m(fst p \<mapsto> snd p, fst q \<mapsto> snd q))"
proof -
  obtain t' where t: "TryUpdate (fst p) (snd p) t = Ok (None, t')" "trie_is K t' (m(fst p \<mapsto> snd p))"
    using TryUpdate_contents [OF assms(1-3)] by blast
  then show ?thesis
    using TryUpdate_contents [OF t(2) assms(4,5)] by (auto simp: two_puts_def)
qed

lemma trie_operations_witness:
  "let t = two_puts \<lparr>root = NilNode, t_owner = 0, unhashed = 0, t_reader = None\<rparr> ([1, 2], [5]) ([1, 3], [6]);
       m = [[1, 2] \<mapsto> [5], [1, 3] \<mapsto> [6]] :: bytes \<Rightarrow> bytes option
   in (\<exists>t'. TryGet [1, 2] t = Ok (Inr (Some [5]), t') \<and> trie_is (\<lambda>_. 0) t' m) \<and>
    (\<exists>t'. TryUpdate [1, 3] [] t = Ok (None, t') \<and> trie_is (\<lambda>_. 0) t' (m([1, 3] := None))) \<and>
    (\<exists>t'. TryDelete [1, 2] t = Ok (None, t') \<and> trie_is (\<lambda>_. 0) t' (m([1, 2] := None)))"
proof -
  have t: "trie_is (\<lambda>_. 0) (two_puts \<lparr>root = NilNode, t_owner = 0, unhashed = 0, t_reader = None\<rparr> ([1, 2], [5]) ([1, 3], [6])) [[1, 2] \<mapsto> [5], [1, 3] \<mapsto> [6]]"
    using two_puts_contents [OF trie_is_empty, where p = "([1, 2], [5])" and q = "([1, 3], [6])"] by (simp add: value_ok_def)
  show ?thesis
    using trie_operations [OF t, where key = "[1, 3]" and v = "[]" and k = "[1, 2]"] by (simp add: Let_def)
qed

text \<open>
  C8: The root hash is a function of the contents: two tries that hold the same map have the same hash,
  however their nodes are spread over memory and database, in whatever order the keys were set and
  removed, and whatever hashes their nodes have cached. Hashing leaves the contents.
\<close>

theorem trie_root_hash:
  assumes "trie_is K t m" "trie_is K t' m"
  shows "\<exists>h u u'. Trie_Hash K t = Ok (h, u) \<and> Trie_Hash K t' = Ok (h, u') \<and> trie_is K u m \<and> trie_is K u' m"
proof -
  obtain T u where T: "T = ENil \<or> canon T" "contents T m" "trie_is K u m"
      "Trie_Hash K t = Ok (if T = ENil then emptyRoot else K (encode K T), u)"
    using Hash_contents [OF assms(1)] by blast
  obtain T' u' where T': "T' = ENil \<or> canon T'" "contents T' m" "trie_is K u' m"
      "Trie_Hash K t' = Ok (if T' = ENil then emptyRoot else K (encode K T'), u')"
    using Hash_contents [OF assms(2)] by blast
  show ?thesis
    using T T' contents_unique [OF T(2) T'(2) T(1) T'(1)] by auto
qed

lemma trie_root_hash_witness:
  "\<exists>h u u' m. Trie_Hash (\<lambda>b. of_nat (length b)) (two_puts \<lparr>root = NilNode, t_owner = 0, unhashed = 0, t_reader = None\<rparr> ([1, 2], [5]) ([1, 3], [6])) = Ok (h, u) \<and>
    Trie_Hash (\<lambda>b. of_nat (length b)) (two_puts \<lparr>root = NilNode, t_owner = 0, unhashed = 0, t_reader = None\<rparr> ([1, 3], [6]) ([1, 2], [5])) = Ok (h, u') \<and>
    trie_is (\<lambda>b. of_nat (length b)) u m \<and> trie_is (\<lambda>b. of_nat (length b)) u' m"
proof -
  let ?K = "\<lambda>b. of_nat (length b) :: hash" and ?t = "\<lparr>root = NilNode, t_owner = 0, unhashed = 0, t_reader = None\<rparr>"
  have a: "trie_is ?K (two_puts ?t ([1, 2], [5]) ([1, 3], [6])) [[1, 2] \<mapsto> [5], [1, 3] \<mapsto> [6]]"
    using two_puts_contents [OF trie_is_empty, where p = "([1, 2], [5])" and q = "([1, 3], [6])"] by (simp add: value_ok_def)
  have b: "trie_is ?K (two_puts ?t ([1, 3], [6]) ([1, 2], [5])) [[1, 2] \<mapsto> [5], [1, 3] \<mapsto> [6]]"
    using two_puts_contents [OF trie_is_empty, where p = "([1, 3], [6])" and q = "([1, 2], [5])"]
    by (simp add: value_ok_def fun_upd_twist)
  show ?thesis using trie_root_hash [OF a b] by blast
qed

section \<open>Committing\<close>

text \<open>
  C9: What a commit writes can be loaded again. The commit of a trie succeeds with its root hash, and from a
  database that took the collected nodes (and answers everything else as before) a trie opened at that hash
  holds the same map. This needs the hash to be no value that \<open>New\<close> takes for an empty trie.
\<close>

theorem trie_commit_reload:
  assumes "trie_is K t m"
  shows "\<exists>h nodes t'. Trie_Commit K collect t = Ok (h, nodes, t') \<and> (\<exists>u. Trie_Hash K t = Ok (h, u)) \<and>
    (\<forall>db sr owner. newTrieReader sr owner db = Inr (Some (taken nodes (t_reader t))) \<and> (h = 0 \<or> h = emptyRoot \<longrightarrow> m = Map.empty) \<longrightarrow>
       (\<exists>u. Trie_New \<lparr>StateRoot = sr, Owner = owner, Root = h\<rparr> db = Ok (Inr u) \<and> trie_is K u m))"
proof -
  obtain T where T: "loads K (t_reader t) True [] (root t) T" "T = ENil \<or> canon T" "sized T" "contents T m"
    using assms by (auto simp: trie_is_def)
  show ?thesis
  proof (cases "T = ENil")
    case True
    then have r: "root t = NilNode" using T(1) by (simp add: loads_nil_iff)
    have m: "m = Map.empty" using T(4) True by (auto simp: contents_def)
    have "Trie_Hash K t = Ok (emptyRoot, t\<lparr>root := NilNode\<rparr>)"
      using r by (simp add: Trie_Hash_def hashRoot_def)
    then show ?thesis
      using r trie_is_empty unfolding m by (auto simp: Trie_Commit_def Trie_New_def)
  next
    case False
    then have c: "canon T" using T(2) by simp
    have "m \<noteq> Map.empty"
      using canon_nonempty [OF c] T(4) by (auto simp: contents_def)
    then show ?thesis
      using Trie_Commit_stores [OF T(1) c T(3), of collect] Trie_New_stored [OF _ c T(3,4)] by metis
  qed
qed

lemma trie_commit_reload_witness:
  "let t = two_puts \<lparr>root = NilNode, t_owner = 0, unhashed = 0, t_reader = None\<rparr> ([1, 2], [5]) ([1, 3], [6]) in
   \<exists>h nodes t' u. Trie_Commit (\<lambda>_. 5) True t = Ok (h, nodes, t') \<and>
     Trie_New \<lparr>StateRoot = 7, Owner = 0, Root = h\<rparr> (\<lambda>_. Some (\<lambda>_. taken nodes (t_reader t))) = Ok (Inr u) \<and>
     trie_is (\<lambda>_. 5) u [[1, 2] \<mapsto> [5], [1, 3] \<mapsto> [6]]"
proof -
  let ?K = "\<lambda>_. 5 :: hash" and ?m = "[[1, 2] \<mapsto> [5], [1, 3] \<mapsto> [6]] :: bytes \<Rightarrow> bytes option"
  let ?t = "two_puts \<lparr>root = NilNode, t_owner = 0, unhashed = 0, t_reader = None\<rparr> ([1, 2], [5]) ([1, 3], [6])"
  have t: "trie_is ?K ?t ?m"
    using two_puts_contents [OF trie_is_empty, where p = "([1, 2], [5])" and q = "([1, 3], [6])"] by (simp add: value_ok_def)
  have h: "h = 5" if "Trie_Hash ?K ?t = Ok (h, u)" for h u
  proof -
    obtain T u' where T: "contents T ?m" "Trie_Hash ?K ?t = Ok (if T = ENil then emptyRoot else 5, u')"
      using Hash_contents [OF t] by auto
    have "elookup T (keybytesToHex [1, 2]) = ?m [1, 2]" using T(1) unfolding contents_def by blast
    then have "T \<noteq> ENil" by auto
    then show ?thesis using T(2) that by simp
  qed
  obtain hh nodes t' u where c: "Trie_Commit ?K True ?t = Ok (hh, nodes, t')" "Trie_Hash ?K ?t = Ok (hh, u)"
      "\<forall>db sr owner. newTrieReader sr owner db = Inr (Some (taken nodes (t_reader ?t))) \<and> (hh = 0 \<or> hh = emptyRoot \<longrightarrow> ?m = Map.empty) \<longrightarrow>
       (\<exists>u. Trie_New \<lparr>StateRoot = sr, Owner = owner, Root = hh\<rparr> db = Ok (Inr u) \<and> trie_is ?K u ?m)"
    using trie_commit_reload [OF t, of True] by blast
  have "hh = 5" using h c(2) by blast
  then show ?thesis
    using c(1) c(3) [rule_format, of 7 0 "\<lambda>_. Some (\<lambda>_. taken nodes (t_reader ?t))"]
    by (auto simp: newTrieReader_def emptyRoot_def Let_def)
qed

end
