(* ===== verification/StackTrie.thy ===== *)
theory StackTrie
  imports Trie
begin

text \<open>
  The trie for keys that come in order (trie/stacktrie.go). A node is a value of the type that its
  \<open>nodeType\<close> selects, with the fields that this type uses; a missing child is \<open>None\<close>. There is no database
  behind it, as where blocks are checked (\<open>NewStackTrie(nil)\<close>), and the pool of nodes is not visible: a node
  that is given back is reset.
\<close>

datatype stacktrie = StEmpty
  | StBranch "stacktrie option list"
  | StExt bytes stacktrie
  | StLeaf bytes bytes
  | StHashed bytes

definition NewStackTrie :: stacktrie where
  "NewStackTrie = StEmpty"

definition no_children :: "stacktrie option list" where
  "no_children = replicate 16 None"

section \<open>Hashing\<close>

text \<open>What is written between \<open>List\<close> and \<open>ListEnd\<close> of the encoder: a string, or an encoding as it is.\<close>

datatype part = PBytes bytes | PRaw bytes

definition write_part :: "part \<Rightarrow> encBuffer \<Rightarrow> encBuffer" where
  "write_part p w = (case p of PBytes b \<Rightarrow> writeBytes b w | PRaw b \<Rightarrow> w\<lparr>estr := estr w @ b\<rparr>)"

definition encode_parts :: "part list \<Rightarrow> bytes" where
  "encode_parts ps =
     (let (offset, w) = encBuffer_list encBuffer_reset
      in makeBytes (encBuffer_listEnd offset (fold write_part ps w)))"

definition val_part :: "bytes \<Rightarrow> part" where
  "val_part val = (if length val < 32 then PRaw val else PBytes val)"

text \<open>The key of a node in compact form at the front of its buffer.\<close>

definition in_place :: "bytes \<Rightarrow> bytes res" where
  "in_place key = rbind (hexToCompactInPlace key) (\<lambda>(buf, sz). gslice buf 0 sz)"

text \<open>The value of a node after \<open>hashRec\<close>: its encoding if that has less than 32 bytes, or the hash of it.\<close>

definition hashed_val :: "(bytes \<Rightarrow> hash) \<Rightarrow> bytes \<Rightarrow> bytes" where
  "hashed_val K enc = (if length enc < 32 then enc else hash_bytes (K enc))"

text \<open>The \<open>val\<close> that \<open>hashRec\<close> leaves; the node itself becomes a hashed node with it.\<close>

fun hashRec :: "(bytes \<Rightarrow> hash) \<Rightarrow> stacktrie \<Rightarrow> bytes res"
  and hash_children :: "(bytes \<Rightarrow> hash) \<Rightarrow> stacktrie option list \<Rightarrow> part list res" where
  "hashRec K (StHashed v) = Ok v"
| "hashRec K StEmpty = Ok (hash_bytes emptyRoot)"
| "hashRec K (StBranch cs) =
     rbind (hash_children K cs) (\<lambda>ps. Ok (hashed_val K (encode_parts (ps @ [PRaw [0x80]]))))"
| "hashRec K (StExt key c) =
     rbind (hashRec K c) (\<lambda>v. rbind (in_place key) (\<lambda>k. Ok (hashed_val K (encode_parts [PBytes k, val_part v]))))"
| "hashRec K (StLeaf key v) =
     rbind (in_place (key @ [16])) (\<lambda>k. Ok (hashed_val K (encode_parts [PBytes k, PBytes v])))"
| "hash_children K [] = Ok []"
| "hash_children K (c # cs) =
     rbind (case c of None \<Rightarrow> Ok (PBytes []) | Some c \<Rightarrow> rbind (hashRec K c) (\<lambda>v. Ok (val_part v))) (\<lambda>p.
     rbind (hash_children K cs) (\<lambda>ps. Ok (p # ps)))"

definition hash_st :: "(bytes \<Rightarrow> hash) \<Rightarrow> stacktrie \<Rightarrow> stacktrie res" where
  "hash_st K st = rbind (hashRec K st) (\<lambda>v. Ok (StHashed v))"

section \<open>Insertion\<close>

fun getDiffIndex :: "bytes \<Rightarrow> bytes \<Rightarrow> nat res" where
  "getDiffIndex [] key = Ok 0"
| "getDiffIndex (n # ns) [] = Panic"
| "getDiffIndex (n # ns) (x # key) = (if n \<noteq> x then Ok 0 else rbind (getDiffIndex ns key) (\<lambda>i. Ok (i + 1)))"

text \<open>The nearest elder sibling of child \<open>idx\<close> is hashed if it is not.\<close>

primrec unresolve :: "(bytes \<Rightarrow> hash) \<Rightarrow> nat \<Rightarrow> stacktrie option list \<Rightarrow> stacktrie option list res" where
  "unresolve K 0 cs = Ok cs"
| "unresolve K (Suc i) cs =
     rbind (gindex cs i) (\<lambda>c. case c of
         None \<Rightarrow> unresolve K i cs
       | Some st \<Rightarrow>
           (case st of StHashed v \<Rightarrow> Ok cs
            | _ \<Rightarrow> rbind (hash_st K st) (\<lambda>st. Ok (cs[i := Some st]))))"

definition set_slot :: "stacktrie option list \<Rightarrow> byte \<Rightarrow> stacktrie \<Rightarrow> stacktrie option list res" where
  "set_slot cs i st = (if unat i < length cs then Ok (cs[unat i := Some st]) else Panic)"

text \<open>The branching of two subtries that differ in their first nibble.\<close>

definition branch_of :: "byte \<Rightarrow> stacktrie \<Rightarrow> byte \<Rightarrow> stacktrie \<Rightarrow> stacktrie res" where
  "branch_of a st b st' =
     rbind (set_slot no_children a st) (\<lambda>cs. rbind (set_slot cs b st') (\<lambda>cs. Ok (StBranch cs)))"

lemma size_slot: "i < length cs \<Longrightarrow> cs ! i = Some st \<Longrightarrow> size st < Suc (size_list (size_option size) cs)"
  by (induction cs arbitrary: i) (auto simp: nth_Cons split: nat.splits, fastforce)

function st_insert :: "(bytes \<Rightarrow> hash) \<Rightarrow> stacktrie \<Rightarrow> bytes \<Rightarrow> bytes \<Rightarrow> stacktrie res" where
  "st_insert K (StBranch cs) key value =
     rbind (gindex key 0) (\<lambda>i.
     rbind (unresolve K (unat i) cs) (\<lambda>cs'.
     rbind (gindex cs (unat i)) (\<lambda>c. case c of
         None \<Rightarrow> Ok (StBranch (cs'[unat i := Some (StLeaf (drop 1 key) value)]))
       | Some st \<Rightarrow> rbind (st_insert K st (drop 1 key) value) (\<lambda>st'. Ok (StBranch (cs'[unat i := Some st']))))))"
| "st_insert K (StExt k c) key value =
     rbind (getDiffIndex k key) (\<lambda>diffidx.
     if diffidx = length k then
       rbind (st_insert K c (drop diffidx key) value) (\<lambda>c'. Ok (StExt k c'))
     else
       rbind (hash_st K (if diffidx < length k - 1 then StExt (drop (diffidx + 1) k) c else c)) (\<lambda>n.
       rbind (gindex key diffidx) (\<lambda>newIdx.
       rbind (branch_of (k ! diffidx) n newIdx (StLeaf (drop (diffidx + 1) key) value)) (\<lambda>p.
         Ok (if diffidx = 0 then p else StExt (take diffidx k) p)))))"
| "st_insert K (StLeaf k v) key value =
     rbind (getDiffIndex k key) (\<lambda>diffidx.
     if diffidx \<ge> length k then Panic
     else
       rbind (hash_st K (StLeaf (drop (diffidx + 1) k) v)) (\<lambda>n.
       rbind (gindex key diffidx) (\<lambda>newIdx.
       rbind (branch_of (k ! diffidx) n newIdx (StLeaf (drop (diffidx + 1) key) value)) (\<lambda>p.
         Ok (if diffidx = 0 then p else StExt (take diffidx k) p)))))"
| "st_insert K StEmpty key value = Ok (StLeaf key value)"
| "st_insert K (StHashed v) key value = Panic"
  by pat_completeness auto

termination
  by (relation "measure (\<lambda>(K, st, key, value). size st)") (auto intro: size_slot)

section \<open>The trie\<close>

definition StackTrie_TryUpdate :: "(bytes \<Rightarrow> hash) \<Rightarrow> bytes \<Rightarrow> bytes \<Rightarrow> stacktrie \<Rightarrow> stacktrie res" where
  "StackTrie_TryUpdate K key value st =
     (let k = keybytesToHex key in
      if length value = 0 then Panic else st_insert K st (take (length k - 1) k) value)"

definition StackTrie_Update :: "(bytes \<Rightarrow> hash) \<Rightarrow> bytes \<Rightarrow> bytes \<Rightarrow> stacktrie \<Rightarrow> stacktrie res" where
  "StackTrie_Update K key value st = StackTrie_TryUpdate K key value st"

definition StackTrie_Reset :: "stacktrie \<Rightarrow> stacktrie" where
  "StackTrie_Reset st = StEmpty"

definition StackTrie_Hash :: "(bytes \<Rightarrow> hash) \<Rightarrow> stacktrie \<Rightarrow> (hash \<times> stacktrie) res" where
  "StackTrie_Hash K st =
     rbind (hashRec K st) (\<lambda>v. Ok (if length v = 32 then be_word v else K v, StHashed v))"

end
