(* ===== verification/StackRefine.thy ===== *)
theory StackRefine
  imports TrieContents StackTrie
begin

text \<open>
  The stack trie refines the trie of the protocol as long as the keys come in order: what lies to the left of
  the last key is hashed, the rest is still open.
\<close>

section \<open>The encoder\<close>

definition part_bytes :: "part \<Rightarrow> bytes" where
  "part_bytes p = (case p of PBytes b \<Rightarrow> rlp_spec (RBytes b) | PRaw b \<Rightarrow> b)"

lemma write_part_bytes: "length (part_bytes p) < 2 ^ 64 \<Longrightarrow> write_part p w = w\<lparr>estr := estr w @ part_bytes p\<rparr>"
proof (cases p)
  case (PBytes b)
  assume "length (part_bytes p) < 2 ^ 64"
  then have "length b < 2 ^ 64" using PBytes by (auto simp: part_bytes_def enc_string_def split: if_splits)
  then show ?thesis using PBytes by (simp add: write_part_def part_bytes_def writeBytes_enc)
qed (simp add: write_part_def part_bytes_def)

lemma fold_write_part:
  "length (concat (map part_bytes ps)) < 2 ^ 64 \<Longrightarrow> fold write_part ps w = w\<lparr>estr := estr w @ concat (map part_bytes ps)\<rparr>"
  by (induction ps arbitrary: w) (simp_all add: write_part_bytes)

lemma encode_parts_bytes:
  assumes "length (concat (map part_bytes ps)) < 2 ^ 64"
  shows "encode_parts ps = puthead 0xC0 0xF7 (of_nat (length (concat (map part_bytes ps)))) @ concat (map part_bytes ps)"
proof -
  let ?s = "concat (map part_bytes ps)"
  have "length (puthead 0xC0 0xF7 (of_nat (length ?s))) = (if length ?s < 56 then 1 else 1 + intsize (of_nat (length ?s)))"
    using assms by (simp add: length_puthead headsize_def word_less_nat_alt unat_of_nat take_bit_nat_eq_self)
  then show ?thesis
    using fold_write_part [OF assms]
    by (simp add: encode_parts_def encBuffer_list_def encBuffer_listEnd_def encBuffer_reset_def makeBytes_def
        encBuffer_size_def copy_at_def listhead_encode_def Let_def)
qed

lemma rlp_specs_concat: "rlp_specs xs = concat (map rlp_spec xs)"
  by (induction xs) simp_all

lemma encode_parts_items:
  "map part_bytes ps = map rlp_spec xs \<Longrightarrow> length (rlp_spec (RList xs)) < 2 ^ 64 \<Longrightarrow> encode_parts ps = rlp_spec (RList xs)"
  using encode_parts_bytes [of ps] rlp_specs_shorter [of xs] by (simp add: rlp_specs_concat)

section \<open>Hashed and open nodes\<close>

definition closed :: "(bytes \<Rightarrow> hash) \<Rightarrow> stacktrie \<Rightarrow> etrie \<Rightarrow> bool" where
  "closed K st t \<longleftrightarrow> st = StHashed (hashed_val K (encode K t)) \<and> canon t"

definition slot_closed :: "(bytes \<Rightarrow> hash) \<Rightarrow> stacktrie option \<Rightarrow> etrie \<Rightarrow> bool" where
  "slot_closed K c t \<longleftrightarrow> (case c of None \<Rightarrow> t = ENil | Some st \<Rightarrow> closed K st t)"

inductive open_st :: "(bytes \<Rightarrow> hash) \<Rightarrow> stacktrie \<Rightarrow> etrie \<Rightarrow> bool" for K where
  open_leaf: "nibbles k \<Longrightarrow> value_ok v \<Longrightarrow> open_st K (StLeaf k v) (EShort (k @ [16]) (EValue v))"
| open_ext: "nibbles k \<Longrightarrow> k \<noteq> [] \<Longrightarrow> open_st K (StBranch cs) (EFull ts) \<Longrightarrow> open_st K (StExt k (StBranch cs)) (EShort k (EFull ts))"
| open_branch: "length cs = 16 \<Longrightarrow> length ts = 17 \<Longrightarrow> ts ! 16 = ENil \<Longrightarrow> j < 16 \<Longrightarrow> cs ! j = Some st \<Longrightarrow> open_st K st (ts ! j) \<Longrightarrow>
     (\<forall>i < j. slot_closed K (cs ! i) (ts ! i)) \<Longrightarrow> (\<forall>i. j < i \<and> i < 16 \<longrightarrow> cs ! i = None \<and> ts ! i = ENil) \<Longrightarrow>
     i < j \<Longrightarrow> cs ! i \<noteq> None \<Longrightarrow> open_st K (StBranch cs) (EFull ts)"

inductive_cases open_leafE: "open_st K (StLeaf k v) t"
inductive_cases open_extE: "open_st K (StExt k c) t"
inductive_cases open_branchE: "open_st K (StBranch cs) t"
inductive_simps open_other: "open_st K StEmpty t" "open_st K (StHashed v) t"

lemma open_canon: "open_st K st t \<Longrightarrow> canon t"
proof (induction rule: open_st.induct)
  case (open_leaf k v)
  then show ?case by (auto simp: canon_short segment_ok_def is_leaf_def hexterm_snoc)
next
  case (open_ext k cs ts)
  then show ?case by (auto simp: canon_short segment_ok_def)
next
  case (open_branch cs ts j st i)
  have "slot_ok k (ts ! k)" if "k < 17" for k
  proof -
    have "k = 16 \<or> k < j \<or> k = j \<or> j < k \<and> k < 16" using that by arith
    then consider "k = 16" | "k < j" | "k = j" | "j < k" "k < 16" by blast
    then show ?thesis
      using open_branch by cases (auto simp: slot_ok_def slot_closed_def closed_def split: option.splits)
  qed
  moreover have "ts ! i \<noteq> ENil" "ts ! j \<noteq> ENil"
    using open_branch by (auto simp: slot_closed_def closed_def split: option.splits)
  ultimately show ?case
    using open_branch(2,4,9) unfolding canon_full by (intro conjI exI [of _ i] exI [of _ j]) auto
qed

lemma open_nonempty: "open_st K st t \<Longrightarrow> st \<noteq> StEmpty \<and> (\<forall>v. st \<noteq> StHashed v) \<and> t \<noteq> ENil"
  by (auto elim: open_st.cases)

section \<open>Hashing\<close>

lemma in_place_hexkey: "nibbles ns \<Longrightarrow> hexkey ns t \<noteq> [] \<Longrightarrow> in_place (hexkey ns t) = Ok (compact_of ns t)"
  using hexToCompactInPlace_key [of ns t] arg_cong [of "take _ _" "compact_of ns t" length] by (fastforce simp: in_place_def gslice_def)

lemma in_place_segment: "segment_ok ks c \<Longrightarrow> ks \<noteq> [] \<Longrightarrow> in_place ks = Ok (compact_of (if hasTerm ks then butlast ks else ks) (hasTerm ks))"
  using segment_key [of ks c] in_place_hexkey by metis

lemma val_part_ref: "canon t \<Longrightarrow> part_bytes (val_part (hashed_val K (encode K t))) = rlp_spec (ref K t)"
  by (auto simp: part_bytes_def val_part_def hashed_val_def ref_def shrink_def encode_def canon_is_node simp del: rlp_spec.simps)

lemma encode_short_parts:
  assumes "canon (EShort ks c)" "sized (EShort ks c)" "part_bytes p = rlp_spec (ref K c)"
  shows "\<exists>k. in_place ks = Ok k \<and> encode_parts [PBytes k, p] = encode K (EShort ks c)"
proof -
  have s: "ks \<noteq> []" "segment_ok ks c" using assms(1) by (simp_all add: canon_short)
  have "length (encode K (EShort ks c)) < 2 ^ 64" using length_encode [OF assms(1,2), of K] by simp
  then show ?thesis
    using in_place_segment [OF s(2,1)] assms(3) unfolding encode_short
    by (intro exI conjI encode_parts_items) (auto simp: part_bytes_def simp del: rlp_spec.simps)
qed

abbreviation hash_slot :: "(bytes \<Rightarrow> hash) \<Rightarrow> stacktrie option \<Rightarrow> part res" where
  "hash_slot K c \<equiv> (case c of None \<Rightarrow> Ok (PBytes []) | Some c \<Rightarrow> rbind (hashRec K c) (\<lambda>v. Ok (val_part v)))"

lemma hash_children_parts:
  "length us = length ds \<Longrightarrow> \<forall>k < length ds. \<exists>p. hash_slot K (ds ! k) = Ok p \<and> part_bytes p = rlp_spec (ref K (us ! k)) \<Longrightarrow>
   \<exists>ps. hash_children K ds = Ok ps \<and> map part_bytes ps = map (\<lambda>t. rlp_spec (ref K t)) us"
proof (induction ds arbitrary: us)
  case (Cons d ds)
  then obtain u us' where u: "us = u # us'" by (cases us) auto
  have "\<exists>ps. hash_children K ds = Ok ps \<and> map part_bytes ps = map (\<lambda>t. rlp_spec (ref K t)) us'"
    using Cons(1) [of us'] Cons(2) Cons(3) [rule_format, of "Suc k" for k] u by simp
  then show ?case using Cons(3) [rule_format, of 0] u by auto
qed simp

lemma hash_open:
  "open_st K st t \<Longrightarrow> sized t \<Longrightarrow> hashRec K st = Ok (hashed_val K (encode K t))"
proof (induction rule: open_st.induct)
  case (open_leaf k v)
  have "canon (EShort (k @ [16]) (EValue v))" using open_canon [OF open_st.open_leaf [OF open_leaf(1,2)]] .
  then obtain kk where "in_place (k @ [16]) = Ok kk" "encode_parts [PBytes kk, PBytes v] = encode K (EShort (k @ [16]) (EValue v))"
    using encode_short_parts [of "k @ [16]" "EValue v" "PBytes v" K] open_leaf(3) by (auto simp: part_bytes_def ref_def)
  then show ?case by simp
next
  case (open_ext k cs ts)
  note c = open_canon [OF open_st.open_ext [OF open_ext(1-3)]]
  have f: "canon (EFull ts)" "sized (EFull ts)" using open_canon [OF open_ext(3)] sized_short [OF c open_ext(5)] by simp_all
  obtain kk where "in_place k = Ok kk"
      "encode_parts [PBytes kk, val_part (hashed_val K (encode K (EFull ts)))] = encode K (EShort k (EFull ts))"
    using encode_short_parts [OF c open_ext(5) val_part_ref [OF f(1), of K]] by blast
  then show ?case using open_ext(4) [OF f(2)] by (simp del: hashRec.simps(3))
next
  case (open_branch cs ts j st i)
  note c = open_canon [OF open_st.open_branch [OF open_branch(1-10)]]
  have kid: "\<exists>p. hash_slot K (cs ! k) = Ok p \<and>
      part_bytes p = rlp_spec (ref K (ts ! k))" if k: "k < 16" for k
  proof -
    consider "cs ! k = None" "ts ! k = ENil" | st' where "cs ! k = Some st'" "closed K st' (ts ! k)" | "k = j"
      using open_branch(7,8) k by (cases "cs ! k"; cases k j rule: linorder_cases) (auto simp: slot_closed_def)
    then show ?thesis
    proof cases
      case 3
      have "sized (ts ! j)" using sized_full [OF c open_branch(12), of j] open_branch(4) by simp
      then show ?thesis using 3 open_branch(5,11) val_part_ref [OF open_canon [OF open_branch(6)]] by simp
    next
      case 1
      then show ?thesis by (simp add: part_bytes_def ref_def)
    next
      case (2 st')
      then show ?thesis using val_part_ref by (auto simp: closed_def)
    qed
  qed
  have kids: "\<forall>k < length cs. \<exists>p. hash_slot K (cs ! k) = Ok p \<and> part_bytes p = rlp_spec (ref K (take 16 ts ! k))"
    using kid open_branch(1) by simp
  have "length (take 16 ts) = length cs" using open_branch(1,2) by simp
  from hash_children_parts [OF this kids] obtain ps where
    ps: "hash_children K cs = Ok ps" "map part_bytes ps = map (\<lambda>t. rlp_spec (ref K t)) (take 16 ts)"
    by blast
  have "map part_bytes (ps @ [PRaw [0x80]]) = map rlp_spec (map (ref K) ts)"
  proof -
    have "ts = take 16 ts @ [ts ! 16]" using open_branch(2) by (simp add: take_Suc_conv_app_nth [symmetric])
    then have "map rlp_spec (map (ref K) ts) = map (\<lambda>t. rlp_spec (ref K t)) (take 16 ts) @ [rlp_spec (ref K (ts ! 16))]"
      by (metis (no_types, lifting) list.simps(8,9) map_append map_map comp_def map_eq_conv)
    then show ?thesis using ps(2) open_branch(3) by (simp add: part_bytes_def ref_def enc_string_def puthead_def)
  qed
  then have "encode_parts (ps @ [PRaw [0x80]]) = encode K (EFull ts)"
    using encode_parts_items [of "ps @ [PRaw [0x80]]" "map (ref K) ts"] length_encode [OF c open_branch(12), of K]
    unfolding encode_full by simp
  then show ?case using ps(1) by simp
qed

lemma hash_st_closed: "open_st K st t \<Longrightarrow> sized t \<Longrightarrow> \<exists>st'. hash_st K st = Ok st' \<and> closed K st' t"
  using hash_open [of K st t] open_canon [of K st t] by (simp add: hash_st_def closed_def)

section \<open>Order\<close>

text \<open>Keys in order that are no prefixes of each other: the first difference decides.\<close>

definition key_less :: "bytes \<Rightarrow> bytes \<Rightarrow> bool" where
  "key_less a b \<longleftrightarrow> (\<exists>p x y a' b'. a = p @ x # a' \<and> b = p @ y # b' \<and> x < y)"

lemma key_less_Cons: "key_less (x # a) (y # b) \<longleftrightarrow> x < y \<or> x = y \<and> key_less a b"
proof
  assume "key_less (x # a) (y # b)"
  then obtain p u v a' b' where *: "x # a = p @ u # a'" "y # b = p @ v # b'" "u < v" by (auto simp: key_less_def)
  then show "x < y \<or> x = y \<and> key_less a b" by (cases p) (auto simp: key_less_def)
next
  assume "x < y \<or> x = y \<and> key_less a b"
  then show "key_less (x # a) (y # b)"
  proof (elim disjE conjE)
    assume "x = y" "key_less a b"
    then obtain p u v a' b' where "a = p @ u # a'" "b = p @ v # b'" "u < v" by (auto simp: key_less_def)
    then have "x # a = (x # p) @ u # a'" "y # b = (x # p) @ v # b'" using \<open>x = y\<close> by simp_all
    then show ?thesis using \<open>u < v\<close> unfolding key_less_def by blast
  next
    assume "x < y"
    then show ?thesis unfolding key_less_def by (intro exI [of _ "[]"]) auto
  qed
qed

lemma key_less_append: "key_less (k @ a) (k @ b) \<longleftrightarrow> key_less a b"
  by (induction k) (simp_all add: key_less_Cons)

lemma key_less_Nil [simp]: "\<not> key_less [] b" "\<not> key_less a []"
  by (auto simp: key_less_def)

text \<open>Where a key that comes later leaves the segment of a node, or that it goes on below it.\<close>

lemma key_less_segment:
  assumes "key_less (k @ a) b"
  obtains p x y k' b' where "k = p @ x # k'" "b = p @ y # b'" "x < y" | b' where "b = k @ b'" "key_less a b'"
  using assms
proof (induction k arbitrary: b thesis)
  case (Cons n k)
  from Cons(4) obtain y b0 where b: "b = y # b0" by (cases b) auto
  with Cons(4) consider "n < y" | "n = y" "key_less (k @ a) b0" by (auto simp: key_less_Cons)
  then show ?case
  proof cases
    case 1
    then show ?thesis using Cons(2) [of "[]" n k y b0] b by simp
  next
    case 2
    show ?thesis
    proof (rule Cons(1) [OF _ _ 2(2)])
      fix p x y' k' b' assume "k = p @ x # k'" "b0 = p @ y' # b'" "x < y'"
      then show thesis using Cons(2) [of "n # p" x k' y' b'] b 2(1) by simp
    next
      fix b' assume "b0 = k @ b'" "key_less a b'"
      then show thesis using Cons(3) [of b'] b 2(1) by simp
    qed
  qed
qed simp

lemma getDiffIndex_split: "x \<noteq> y \<Longrightarrow> getDiffIndex (p @ x # k) (p @ y # key) = Ok (length p)"
  by (induction p) auto

lemma getDiffIndex_all: "getDiffIndex k (k @ key) = Ok (length k)"
  by (induction k) auto

lemma prefixLen_split: "x \<noteq> y \<Longrightarrow> prefixLen (p @ x # k) (p @ y # key) = length p"
  by (induction p) auto

lemma prefixLen_prefix: "prefixLen (k @ key) k = length k"
  by (induction k) auto

section \<open>Insertion\<close>

lemma nibble_slot: "x < 16 \<Longrightarrow> unat (x :: byte) < 16"
  by (simp add: nibble_unat)

lemma open_pair:
  assumes "x < y" "y < 16" "closed K n t" "open_st K l u"
  shows "\<exists>b. branch_of x n y l = Ok (StBranch b) \<and>
    open_st K (StBranch b) (EFull ((replicate 17 ENil)[unat x := t, unat y := u]))"
proof -
  have i: "unat x < unat y" "unat y < 16" using assms(1,2) by (simp_all add: word_less_nat_alt)
  let ?b = "no_children[unat x := Some n, unat y := Some l]"
  have "open_st K (StBranch ?b) (EFull ((replicate 17 ENil)[unat x := t, unat y := u]))"
  proof (rule open_branch [of _ _ "unat y" l K "unat x"])
    show "\<forall>i<unat y. slot_closed K (?b ! i) ((replicate 17 ENil)[unat x := t, unat y := u] ! i)"
      using i assms(3) by (auto simp: slot_closed_def no_children_def nth_list_update)
  qed (use i assms(4) in \<open>auto simp: no_children_def nth_list_update\<close>)
  then show ?thesis using i by (simp add: branch_of_def set_slot_def no_children_def)
qed

text \<open>A node whose segment the key leaves: its rest is hashed and a branching takes its place.\<close>

lemma split_off:
  assumes k: "k = p @ x # k'" "key = p @ y # key'" "x < y" "nibbles key" "value_ok v"
    and n: "closed K n (put rest c)" "ks = p @ x # rest"
  shows "\<exists>st. rbind (branch_of (k ! length p) n (key ! length p) (StLeaf (drop (length p + 1) key) v))
      (\<lambda>q. Ok (if length p = 0 then q else StExt (take (length p) k) q)) = Ok st \<and>
    open_st K st (einsert (EShort ks c) (key @ [16]) v)"
proof -
  have y: "y < 16" "nibbles p" "nibbles key'" using k(2,4) by simp_all
  have "open_st K (StLeaf key' v) (put (key' @ [16]) (EValue v))"
    using open_leaf [OF y(3) k(5)] by (simp add: put_def)
  then obtain b where b: "branch_of x n y (StLeaf key' v) = Ok (StBranch b)"
      "open_st K (StBranch b) (EFull ((replicate 17 ENil)[unat x := put rest c, unat y := put (key' @ [16]) (EValue v)]))"
    using open_pair [OF k(3) y(1) n(1)] by blast
  have m: "prefixLen (key @ [16]) ks = length p"
    using prefixLen_split [of y x p "key' @ [16]" rest] k(2,3) n(2) by simp
  have e: "einsert (EShort ks c) (key @ [16]) v =
      put p (EFull ((replicate 17 ENil)[unat x := put rest c, unat y := put (key' @ [16]) (EValue v)]))"
    using m k(2) n(2) by (simp add: Let_def nth_append)
  have "open_st K (if p = [] then StBranch b else StExt p (StBranch b)) (einsert (EShort ks c) (key @ [16]) v)"
    unfolding e using b(2) open_ext [OF y(2) _ b(2)] by (simp add: put_def)
  then have "rbind (branch_of (k ! length p) n (key ! length p) (StLeaf (drop (length p + 1) key) v))
      (\<lambda>q. Ok (if length p = 0 then q else StExt (take (length p) k) q)) = Ok (if p = [] then StBranch b else StExt p (StBranch b))"
    using b(1) k(1,2) by (simp add: nth_append)
  then show ?thesis using \<open>open_st K (if _ then _ else _) _\<close> by blast
qed

lemma sized_cut:
  assumes "sized (EShort (p @ x # r) c)" "nibbles (p @ [x])"
  shows "sized (put r c)"
  unfolding sized_def
proof (intro allI impI)
  fix j assume j: "hexterm j" "elookup (put r c) j \<noteq> None"
  have "elookup (EShort (p @ x # r) c) ((p @ [x]) @ j) = elookup (put r c) j"
    by (simp add: put_def)
  moreover have "hexterm ((p @ [x]) @ j)"
    using j(1) assms(2) by (subst hexterm_append) auto
  ultimately have "length ((p @ [x]) @ j) < 2 ^ 32"
    using assms(1) j(2) unfolding sized_def by metis
  then show "length j < 2 ^ 32" by simp
qed

lemma unresolve_hashed:
  "i \<le> length cs \<Longrightarrow> \<forall>j < i. \<forall>st. cs ! j = Some st \<longrightarrow> (\<exists>v. st = StHashed v) \<Longrightarrow> unresolve K i cs = Ok cs"
proof (induction i)
  case (Suc i)
  have "unresolve K i cs = Ok cs" using Suc.prems by (intro Suc.IH) (auto intro: less_SucI)
  then show ?case using Suc.prems by (cases "cs ! i") (fastforce simp: gindex_def)+
qed simp

lemma unresolve_open:
  assumes "i \<le> length cs" "j < i" "cs ! j = Some st" "\<forall>v. st \<noteq> StHashed v" "\<forall>k. j < k \<and> k < i \<longrightarrow> cs ! k = None" "hash_st K st = Ok st'"
  shows "unresolve K i cs = Ok (cs[j := Some st'])"
  using assms
proof (induction i)
  case (Suc i)
  then show ?case
    by (cases "i = j") (auto simp: gindex_def split: stacktrie.splits)
qed simp

text \<open>All keys of the trie come before the new one.\<close>

definition keys_before :: "etrie \<Rightarrow> bytes \<Rightarrow> bool" where
  "keys_before t k \<longleftrightarrow> (\<forall>a. nibbles a \<and> elookup t (a @ [16]) \<noteq> None \<longrightarrow> key_less a k)"

lemma some_key: "canon t \<Longrightarrow> keys_before t k \<Longrightarrow> \<exists>a. nibbles a \<and> elookup t (a @ [16]) \<noteq> None \<and> key_less a k"
  using canon_nonempty [of t] by (auto simp: keys_before_def hexterm_snoc)

lemma keys_before_short: "keys_before (EShort k t) (k @ b) \<Longrightarrow> nibbles k \<Longrightarrow> keys_before t b"
proof -
  assume a: "keys_before (EShort k t) (k @ b)" "nibbles k"
  have "key_less a b" if "nibbles a" "elookup t (a @ [16]) \<noteq> None" for a
  proof -
    have "key_less (k @ a) (k @ b)"
      using a that by (simp add: keys_before_def)
    then show ?thesis by (simp add: key_less_append)
  qed
  then show ?thesis by (simp add: keys_before_def)
qed

lemma keys_before_full:
  assumes "keys_before (EFull ts) (y # b)" "i < 16" "length ts = 17" "y < 16"
  shows "unat y = i \<Longrightarrow> keys_before (ts ! i) b" "canon (ts ! i) \<Longrightarrow> i \<le> unat y"
proof -
  have kl: "of_nat i < y \<or> of_nat i = y \<and> key_less a b" if "nibbles a" "elookup (ts ! i) (a @ [16]) \<noteq> None" for a
  proof -
    have n: "nibbles (of_nat i # a)" using that(1) assms(2) by (simp add: nibble_unat unat_of_nat take_bit_nat_eq_self)
    have "elookup (EFull ts) ((of_nat i # a) @ [16]) \<noteq> None"
      using that(2) assms(2,3) by (simp add: unat_of_nat take_bit_nat_eq_self)
    then have "key_less (of_nat i # a) (y # b)"
      using assms(1) n unfolding keys_before_def by blast
    then show ?thesis by (simp add: key_less_Cons)
  qed
  have u: "unat (of_nat i :: byte) = i" using assms(2) by (simp add: unat_of_nat take_bit_nat_eq_self)
  show "keys_before (ts ! i) b" if "unat y = i"
    using kl that u by (auto simp: keys_before_def)
  show "i \<le> unat y" if "canon (ts ! i)"
  proof -
    obtain a where "nibbles a" "elookup (ts ! i) (a @ [16]) \<noteq> None"
      using canon_nonempty [of "ts ! i"] \<open>canon (ts ! i)\<close> by (auto simp: hexterm_snoc)
    from kl [OF this] show ?thesis using u by (auto simp: word_less_nat_alt)
  qed
qed

lemma open_put_child:
  assumes "length cs = 16" "length ts = 17" "ts ! 16 = ENil" "i < 16" "open_st K st t" "\<forall>j < i. slot_closed K (cs ! j) (ts ! j)"
    "\<forall>j. i < j \<and> j < 16 \<longrightarrow> cs ! j = None \<and> ts ! j = ENil" "\<exists>j < i. cs ! j \<noteq> None"
  shows "open_st K (StBranch (cs[i := Some st])) (EFull (ts[i := t]))"
proof -
  obtain j where "j < i" "cs ! j \<noteq> None" using assms(8) by blast
  then show ?thesis
    using assms by (intro open_branch [of _ _ i st K j]) (auto simp: nth_list_update)
qed

lemma insert_branch_child:
  assumes b: "length cs = 16" "length ts = 17" "ts ! 16 = ENil" "j < 16" "cs ! j = Some st" "open_st K st (ts ! j)"
      "\<forall>i < j. slot_closed K (cs ! i) (ts ! i)" "\<forall>i. j < i \<and> i < 16 \<longrightarrow> cs ! i = None \<and> ts ! i = ENil" "i < j" "cs ! i \<noteq> None"
    and k: "nibbles (y # key)" "keys_before (EFull ts) (y # key)" "value_ok v" and sz: "sized (EFull ts)"
    and IH: "keys_before (ts ! j) key \<Longrightarrow> \<exists>st'. st_insert K st key v = Ok st' \<and> open_st K st' (einsert (ts ! j) (key @ [16]) v)"
  shows "\<exists>cs'. st_insert K (StBranch cs) (y # key) v = Ok (StBranch cs') \<and>
    open_st K (StBranch cs') (einsert (EFull ts) ((y # key) @ [16]) v)"
proof -
  have c: "canon (EFull ts)" using open_canon [OF open_branch [OF b]] .
  have y: "unat y < 16" "y < 16" using k(1) by (simp_all add: nibble_unat)
  have jy: "j \<le> unat y" using keys_before_full(2) [OF k(2) b(4,2) y(2)] open_canon [OF b(6)] by blast
  have e: "einsert (EFull ts) ((y # key) @ [16]) v = EFull (ts[unat y := einsert (ts ! unat y) (key @ [16]) v])"
    using y b(2) by simp
  have hashed: "\<exists>w. st' = StHashed w" if "k < j" "cs ! k = Some st'" for k st'
    using b(7) that by (auto simp: slot_closed_def closed_def)
  show ?thesis
  proof (cases "unat y = j")
    case True
    obtain st' where st': "st_insert K st key v = Ok st'" "open_st K st' (einsert (ts ! j) (key @ [16]) v)"
      using IH keys_before_full(1) [OF k(2) b(4,2) y(2)] True by auto
    have "unresolve K j cs = Ok cs" using unresolve_hashed [of j cs K] hashed b(1,4) by auto
    then have "st_insert K (StBranch cs) (y # key) v = Ok (StBranch (cs[j := Some st']))"
      using True b(1,4,5) st'(1) by (simp add: gindex_def)
    moreover have "open_st K (StBranch (cs[j := Some st'])) (EFull (ts[j := einsert (ts ! j) (key @ [16]) v]))"
      using open_put_child [OF b(1-4) st'(2) b(7,8)] b(9,10) by blast
    ultimately show ?thesis using e True by auto
  next
    case False
    then have jl: "j < unat y" using jy by simp
    have "sized (ts ! j)" using sized_full [OF c sz, of j] b(4) by simp
    then obtain n where n: "hash_st K st = Ok n" "closed K n (ts ! j)" using hash_st_closed [OF b(6)] by blast
    have none: "cs ! unat y = None" "ts ! unat y = ENil" using b(8) jl y by simp_all
    have "unresolve K (unat y) cs = Ok (cs[j := Some n])"
      using unresolve_open [OF _ jl b(5) _ _ n(1)] open_nonempty [OF b(6)] b(1,8) y by auto
    then have "st_insert K (StBranch cs) (y # key) v = Ok (StBranch (cs[j := Some n, unat y := Some (StLeaf key v)]))"
      using b(1) y none by (simp add: gindex_def)
    moreover have "open_st K (StBranch (cs[j := Some n, unat y := Some (StLeaf key v)])) (EFull (ts[unat y := put (key @ [16]) (EValue v)]))"
    proof (rule open_put_child)
      show "\<forall>k < unat y. slot_closed K (cs[j := Some n] ! k) (ts ! k)"
      proof (intro allI impI)
        fix k assume "k < unat y"
        with y(1) consider "k < j" | "k = j" | "j < k" "k < 16" by linarith
        then show "slot_closed K (cs[j := Some n] ! k) (ts ! k)"
          using b(1,4,7,8) n(2) by cases (auto simp: slot_closed_def)
      qed
      show "open_st K (StLeaf key v) (put (key @ [16]) (EValue v))"
        using open_leaf [of key v K] k(1,3) by (simp add: put_def)
      show "\<exists>k < unat y. cs[j := Some n] ! k \<noteq> None" using jl b(1,4) by (intro exI [of _ j]) simp
    qed (use b jl y in \<open>auto simp: nth_list_update\<close>)
    ultimately show ?thesis using e none by auto
  qed
qed

lemma insert_open:
  assumes "open_st K st t" "sized t" "nibbles key" "keys_before t key" "value_ok v"
  shows "\<exists>st'. st_insert K st key v = Ok st' \<and> open_st K st' (einsert t (key @ [16]) v) \<and>
    ((\<exists>cs. st = StBranch cs) \<longrightarrow> (\<exists>cs. st' = StBranch cs))"
  using assms
proof (induction arbitrary: key rule: open_st.induct)
  case (open_leaf k w)
  have "key_less (k @ []) key" using open_leaf(1,5) by (simp add: keys_before_def)
  then show ?case
  proof (cases rule: key_less_segment)
    case (1 p x y k' b')
    have n: "nibbles k'" "nibbles (p @ [x])" using open_leaf(1) 1(1) by simp_all
    have o: "open_st K (StLeaf k' w) (put (k' @ [16]) (EValue w))"
      using open_st.open_leaf [OF n(1) open_leaf(2)] by (simp add: put_def)
    have "sized (put (k' @ [16]) (EValue w))" using sized_cut [of p x "k' @ [16]"] open_leaf(3) 1(1) n(2) by simp
    then obtain m where m: "hash_st K (StLeaf k' w) = Ok m" "closed K m (put (k' @ [16]) (EValue w))"
      using hash_st_closed [OF o] by blast
    have "getDiffIndex k key = Ok (length p)" "length p < length k" "drop (length p + 1) k = k'" "gindex key (length p) = Ok (key ! length p)"
      using 1 getDiffIndex_split [of x y p k' b'] by (simp_all add: gindex_def)
    moreover have "k @ [16] = p @ x # (k' @ [16])" using 1(1) by simp
    note split_off [OF 1(1,2,3) open_leaf(4,6) m(2) this]
    ultimately show ?thesis using m(1) by (simp del: einsert.simps)
  qed simp
next
  case (open_ext k cs ts)
  note o = open_st.open_ext [OF open_ext(1-3)]
  note c = open_canon [OF o]
  obtain a where a: "nibbles a" "elookup (EFull ts) (a @ [16]) \<noteq> None"
    using canon_nonempty [OF open_canon [OF open_ext(3)]] by (auto simp: hexterm_snoc)
  have "key_less (k @ a) key"
    using open_ext(1,7) a unfolding keys_before_def by (intro mp [OF spec [OF open_ext.prems(3) [unfolded keys_before_def]]]) simp
  then show ?case
  proof (cases rule: key_less_segment)
    case (1 p x y k' b')
    have n: "nibbles k'" "nibbles (p @ [x])" using open_ext(1) 1(1) by simp_all
    let ?rest = "if k' = [] then StBranch cs else StExt k' (StBranch cs)"
    have "open_st K ?rest (put k' (EFull ts))"
      using open_ext(3) open_st.open_ext [OF n(1) _ open_ext(3)] by (simp add: put_def)
    moreover have "sized (put k' (EFull ts))" using sized_cut [of p x k'] open_ext.prems(1) 1(1) n(2) by simp
    ultimately obtain m where m: "hash_st K ?rest = Ok m" "closed K m (put k' (EFull ts))"
      using hash_st_closed by blast
    have "getDiffIndex k key = Ok (length p)" "length p \<noteq> length k" "drop (length p + 1) k = k'"
        "length p < length k - 1 \<longleftrightarrow> k' \<noteq> []" "gindex key (length p) = Ok (key ! length p)"
      using 1 getDiffIndex_split [of x y p k' b'] by (simp_all add: gindex_def)
    then show ?thesis
      using split_off [OF 1(1,2,3) open_ext.prems(2,4) m(2) 1(1)] m(1)
      by (cases "k' = []"; cases "p = []") (simp_all del: einsert.simps)
  next
    case (2 b')
    have b: "nibbles b'" "keys_before (EFull ts) b'"
      using open_ext.prems(2,3) keys_before_short [of k "EFull ts" b'] open_ext(1) 2(1) by simp_all
    have "sized (EFull ts)" using sized_short [OF c open_ext.prems(1)] by simp
    then obtain cs' where i: "st_insert K (StBranch cs) b' v = Ok (StBranch cs')"
        "open_st K (StBranch cs') (einsert (EFull ts) (b' @ [16]) v)"
      using open_ext.IH [OF _ b open_ext.prems(4)] by blast
    obtain ts' where t: "einsert (EFull ts) (b' @ [16]) v = EFull ts'"
      by (cases "b' @ [16]") (fastforce split: if_splits)+
    have "einsert (EShort k (EFull ts)) (key @ [16]) v = EShort k (EFull ts')"
      using t 2(1) by (simp del: einsert.simps(4) add: Let_def prefixLen_prefix)
    moreover have "st_insert K (StExt k (StBranch cs)) key v = Ok (StExt k (StBranch cs'))"
      using i(1) 2(1) by (simp add: getDiffIndex_all del: st_insert.simps(1))
    moreover have "open_st K (StExt k (StBranch cs')) (EShort k (EFull ts'))"
      using open_st.open_ext [OF open_ext(1,2)] i(2) t by metis
    ultimately show ?thesis by (simp del: einsert.simps st_insert.simps)
  qed
next
  case (open_branch cs ts j st i)
  note o = open_st.open_branch [OF open_branch(1-10)]
  obtain y key' where key: "key = y # key'"
    using some_key [OF open_canon [OF o] open_branch.prems(3)] by (cases key) auto
  have sz: "sized (ts ! j)"
    using sized_full [OF open_canon [OF o] open_branch.prems(1), of j] open_branch(4) by simp
  have IH: "\<exists>st'. st_insert K st key' v = Ok st' \<and> open_st K st' (einsert (ts ! j) (key' @ [16]) v)" if "keys_before (ts ! j) key'"
    using open_branch.IH [OF sz _ that open_branch.prems(4)] open_branch.prems(2) key by auto
  show ?case
    using insert_branch_child [OF open_branch(1-10) _ _ open_branch.prems(4,1) IH] open_branch.prems(2,3) unfolding key by blast
qed

end
