(* ===== verification/ListRoots.thy ===== *)
theory ListRoots
  imports StackRefine MerkleTrie Headers
begin

text \<open>
  The interface \<^verbatim>\<open>TrieHasher\<close> through which the roots of transactions and receipts are computed
  (core/types/hashing.go), its two implementations, and what the roots commit to.
\<close>

section \<open>The interface\<close>

text \<open>The root hash that belongs to a map.\<close>

definition commits :: "(bytes \<Rightarrow> hash) \<Rightarrow> (bytes \<Rightarrow> bytes option) \<Rightarrow> hash \<Rightarrow> bool" where
  "commits K m h \<longleftrightarrow> (\<exists>T. (T = ENil \<or> canon T) \<and> contents T m \<and> h = (if T = ENil then Trie.emptyRoot else K (encode K T)))"

lemma commits_unique: "commits K m h \<Longrightarrow> commits K m h' \<Longrightarrow> h = h'"
  using contents_unique unfolding commits_def by (smt (verit))

text \<open>A hasher that is reset, updated with keys and values in turn and asked for its hash.\<close>

fun updates :: "(bytes \<Rightarrow> bytes \<Rightarrow> 's \<Rightarrow> 's res) \<Rightarrow> (bytes \<times> bytes) list \<Rightarrow> 's \<Rightarrow> 's res" where
  "updates upd [] s = Ok s"
| "updates upd ((k, v) # kvs) s = rbind (upd k v s) (updates upd kvs)"

definition hash_updates ::
  "('s \<Rightarrow> 's) \<Rightarrow> (bytes \<Rightarrow> bytes \<Rightarrow> 's \<Rightarrow> 's res) \<Rightarrow> ('s \<Rightarrow> (hash \<times> 's) res) \<Rightarrow> 's \<Rightarrow> (bytes \<times> bytes) list \<Rightarrow> hash res" where
  "hash_updates reset upd hash s kvs =
     rbind (updates upd kvs (reset s)) (\<lambda>s. rbind (hash s) (\<lambda>(h, _). Ok h))"

text \<open>What can be given to a hasher: a value, and a key of less than two gigabytes.\<close>

definition update_ok :: "bytes \<times> bytes \<Rightarrow> bool" where
  "update_ok kv \<longleftrightarrow> length (fst kv) < 2 ^ 31 - 1 \<and> value_ok (snd kv)"

definition in_order :: "(bytes \<times> bytes) list \<Rightarrow> bool" where
  "in_order kvs \<longleftrightarrow> sorted_wrt key_less (map fst kvs) \<and> (\<forall>kv \<in> set kvs. update_ok kv)"

lemma key_less_irrefl: "\<not> key_less a a"
  by (induction a) (simp_all add: key_less_Cons)

text \<open>
  What the interface asks for: a hasher holds a map, an update whose key comes after all the others extends
  it, and the hash is the root of the map.
\<close>

locale trie_hasher =
  fixes K :: "bytes \<Rightarrow> hash" and reset :: "'s \<Rightarrow> 's" and upd :: "bytes \<Rightarrow> bytes \<Rightarrow> 's \<Rightarrow> 's res"
    and hash :: "'s \<Rightarrow> (hash \<times> 's) res" and holds :: "'s \<Rightarrow> (bytes \<Rightarrow> bytes option) \<Rightarrow> bool"
  assumes reset: "holds (reset s) Map.empty"
    and upd: "holds s m \<Longrightarrow> update_ok (key, v) \<Longrightarrow> (\<And>a. m a \<noteq> None \<Longrightarrow> key_less a key) \<Longrightarrow>
      \<exists>s'. upd key v s = Ok s' \<and> holds s' (m(key \<mapsto> v))"
    and hash: "holds s m \<Longrightarrow> \<exists>h s'. hash s = Ok (h, s') \<and> commits K m h"
begin

lemma updates_hold:
  assumes "holds s m" "in_order kvs" "\<And>a kv. m a \<noteq> None \<Longrightarrow> kv \<in> set kvs \<Longrightarrow> key_less a (fst kv)"
  shows "\<exists>s'. updates upd kvs s = Ok s' \<and> holds s' (m ++ map_of kvs)"
  using assms
proof (induction kvs arbitrary: s m)
  case (Cons kv kvs)
  obtain k v where kv: "kv = (k, v)" by (cases kv) auto
  obtain s' where s': "upd k v s = Ok s'" "holds s' (m(k \<mapsto> v))"
  proof -
    have "update_ok (k, v)" "\<And>a. m a \<noteq> None \<Longrightarrow> key_less a k"
      using Cons.prems(2) Cons.prems(3) [of _ kv] kv by (simp_all add: in_order_def)
    then show thesis using upd [OF Cons.prems(1)] that by blast
  qed
  have "key_less a (fst kv')" if "(m(k \<mapsto> v)) a \<noteq> None" "kv' \<in> set kvs" for a kv'
    using that Cons.prems(2,3) kv by (auto simp: in_order_def split: if_splits)
  moreover have "in_order kvs" using Cons.prems(2) by (simp add: in_order_def)
  ultimately obtain s'' where "updates upd kvs s' = Ok s''" "holds s'' (m(k \<mapsto> v) ++ map_of kvs)"
    using Cons.IH [OF s'(2)] by blast
  moreover have "map_of kvs k = None"
    using Cons.prems(2) kv key_less_irrefl by (force simp: in_order_def map_of_eq_None_iff)
  then have "m ++ map_of (kv # kvs) = m(k \<mapsto> v) ++ map_of kvs"
    using kv by (auto simp: map_add_def fun_eq_iff split: option.split)
  moreover have "updates upd (kv # kvs) s = updates upd kvs s'"
    using s'(1) kv by simp
  ultimately show ?case by metis
qed simp

lemma hash_commits: "in_order kvs \<Longrightarrow> \<exists>h. hash_updates reset upd hash s kvs = Ok h \<and> commits K (map_of kvs) h"
proof -
  assume "in_order kvs"
  then obtain s' where "updates upd kvs (reset s) = Ok s'" "holds s' (map_of kvs)"
    using updates_hold [OF reset] by fastforce
  then show ?thesis using hash [of s' "map_of kvs"] by (auto simp: hash_updates_def)
qed

end

section \<open>The trie\<close>

interpretation trie_list: trie_hasher K Trie_Reset Trie_Update "Trie_Hash K" "trie_is K"
proof
  show "trie_is K (Trie_Reset t) Map.empty" for t
  proof -
    have "Trie_Reset t = \<lparr>root = NilNode, t_owner = 0, unhashed = 0, t_reader = t_reader t\<rparr>"
      by (simp add: Trie_Reset_def)
    then show ?thesis using trie_is_empty by metis
  qed
  show "\<exists>t'. Trie_Update key v t = Ok t' \<and> trie_is K t' (m(key \<mapsto> v))" if "trie_is K t m" "update_ok (key, v)" for t m key v
    using TryUpdate_contents [OF that(1), of v key] that(2) by (auto simp: Trie_Update_def update_ok_def)
  show "\<exists>h t'. Trie_Hash K t = Ok (h, t') \<and> commits K m h" if holds: "trie_is K t m" for t m
  proof -
    obtain T t' where T: "T = ENil \<or> canon T" "contents T m" "Trie_Hash K t = Ok (if T = ENil then Trie.emptyRoot else K (encode K T), t')"
      using Hash_contents [OF holds] by blast
    from T(1,2) have "commits K m (if T = ENil then Trie.emptyRoot else K (encode K T))"
      unfolding commits_def by blast
    then show ?thesis using T(3) by blast
  qed
qed

section \<open>The stack trie\<close>

definition st_holds :: "(bytes \<Rightarrow> hash) \<Rightarrow> stacktrie \<Rightarrow> (bytes \<Rightarrow> bytes option) \<Rightarrow> bool" where
  "st_holds K st m \<longleftrightarrow> (\<exists>T. contents T m \<and> sized T \<and> (T = ENil \<and> st = StEmpty \<or> open_st K st T))"

definition nibs :: "bytes \<Rightarrow> bytes" where
  "nibs str = concat (map (\<lambda>b. [b div 16, b mod 16]) str)"

lemma keybytesToHex_nibs: "keybytesToHex k = nibs k @ [16]" "nibbles (nibs k)"
  using keybytesToHex_key [of k] by (auto simp: keybytesToHex_def nibs_def)

lemma nibs_append: "nibs (a @ b) = nibs a @ nibs b" "nibs (x # b) = x div 16 # x mod 16 # nibs b"
  by (simp_all add: nibs_def)

lemma digit_less: "(a :: nat) < b \<Longrightarrow> a div 16 < b div 16 \<or> a div 16 = b div 16 \<and> a mod 16 < b mod 16"
  using div_le_mono [of a b 16] div_mult_mod_eq [of a 16] div_mult_mod_eq [of b 16]
  by (cases "a div 16 = b div 16") linarith+

lemma key_less_nibs:
  assumes "key_less a b"
  shows "key_less (nibs a) (nibs b)"
proof -
  obtain p x y a' b' where s: "a = p @ x # a'" "b = p @ y # b'" "x < y" using assms by (auto simp: key_less_def)
  have "unat x div 16 < unat y div 16 \<or> unat x div 16 = unat y div 16 \<and> unat x mod 16 < unat y mod 16"
    using digit_less s(3) unfolding word_less_nat_alt by blast
  then have "x div 16 < y div 16 \<or> x div 16 = y div 16 \<and> x mod 16 < y mod 16"
    unfolding word_less_nat_alt word_unat_eq_iff unat_div unat_mod by simp
  then show ?thesis
    unfolding s by (auto simp: nibs_append key_less_append key_less_Cons)
qed

lemma contents_before:
  assumes "contents T m" "\<And>a. m a \<noteq> None \<Longrightarrow> key_less a key"
  shows "keys_before T (nibs key)"
  unfolding keys_before_def
proof (intro allI impI, elim conjE)
  fix a assume a: "nibbles a" "elookup T (a @ [16]) \<noteq> None"
  then obtain k where k: "a @ [16] = keybytesToHex k"
    using assms(1) unfolding contents_def by (metis hexterm_snoc)
  then have "m k \<noteq> None" using a(2) assms(1) unfolding contents_def by metis
  then show "key_less a (nibs key)" using key_less_nibs [OF assms(2)] k by (simp add: keybytesToHex_nibs)
qed

lemma StackTrie_Update_contents:
  assumes "st_holds K st m" "update_ok (key, v)" "\<And>a. m a \<noteq> None \<Longrightarrow> key_less a key"
  shows "\<exists>st'. StackTrie_Update K key v st = Ok st' \<and> st_holds K st' (m(key \<mapsto> v))"
proof -
  obtain T where T: "contents T m" "sized T" "T = ENil \<and> st = StEmpty \<or> open_st K st T"
    using assms(1) by (auto simp: st_holds_def)
  have v: "value_ok v" "length key < 2 ^ 31 - 1" using assms(2) by (auto simp: update_ok_def)
  have upd: "StackTrie_Update K key v st = st_insert K st (nibs key) v"
    using v by (simp add: StackTrie_Update_def StackTrie_TryUpdate_def keybytesToHex_nibs value_ok_def)
  obtain st' where st': "st_insert K st (nibs key) v = Ok st'" "open_st K st' (einsert T (nibs key @ [16]) v)"
    using T(3)
  proof (elim disjE conjE)
    assume "T = ENil" "st = StEmpty"
    then show thesis
      using that open_leaf [OF keybytesToHex_nibs(2) v(1)] by (simp add: put_def)
  next
    assume "open_st K st T"
    then show thesis
      using that insert_open [OF _ T(2) keybytesToHex_nibs(2) contents_before [OF T(1) assms(3)] v(1)] by blast
  qed
  have "T = ENil \<or> canon T" using T(3) open_canon by blast
  note e = einsert_correct [OF stands_root [OF this] key_ok_keybytes(1) v(1)]
  have "contents (einsert T (keybytesToHex key) v) (m(key \<mapsto> v)) \<and> sized (einsert T (keybytesToHex key) v)"
    using update_contents [OF T(1) _ T(2), of key _ "Some v"] e v(2) by blast
  then show ?thesis
    using st' upd by (auto simp: st_holds_def keybytesToHex_nibs)
qed

lemma hashed_val_root: "(if length (hashed_val K e) = 32 then be_word (hashed_val K e) else K (hashed_val K e)) = K e"
  by (simp add: hashed_val_def)

lemma StackTrie_Hash_contents:
  assumes "st_holds K st m"
  shows "\<exists>h st'. StackTrie_Hash K st = Ok (h, st') \<and> commits K m h"
proof -
  obtain T where T: "contents T m" "sized T" "T = ENil \<and> st = StEmpty \<or> open_st K st T"
    using assms(1) by (auto simp: st_holds_def)
  from T(3) show ?thesis
  proof
    assume "T = ENil \<and> st = StEmpty"
    then have "StackTrie_Hash K st = Ok (Trie.emptyRoot, StHashed (hash_bytes Trie.emptyRoot))" by (simp add: StackTrie_Hash_def)
    moreover have "commits K m Trie.emptyRoot"
      using T(1) \<open>T = ENil \<and> st = StEmpty\<close> unfolding commits_def by metis
    ultimately show ?thesis by blast
  next
    assume o: "open_st K st T"
    then have "StackTrie_Hash K st = Ok (K (encode K T), StHashed (hashed_val K (encode K T)))"
      using hash_open [OF o T(2)] hashed_val_root [of K "encode K T"] by (simp add: StackTrie_Hash_def)
    then show ?thesis using T(1) open_canon [OF o] open_nonempty [OF o] unfolding commits_def by fastforce
  qed
qed

interpretation stack_list: trie_hasher K StackTrie_Reset "StackTrie_Update K" "StackTrie_Hash K" "st_holds K"
proof
  show "st_holds K (StackTrie_Reset st) Map.empty" for st
    by (auto simp: StackTrie_Reset_def st_holds_def contents_def sized_def intro!: exI [of _ ENil])
qed (use StackTrie_Update_contents StackTrie_Hash_contents in blast)+

section \<open>The root of a list\<close>

text \<open>The map that a list is hashed as: from the encoded index to the encoded element.\<close>

definition list_map :: "nat \<Rightarrow> (nat \<Rightarrow> bytes) \<Rightarrow> bytes \<Rightarrow> bytes option" where
  "list_map n enc = map_of (map (\<lambda>i. (derive_key i, enc i)) [0..<n])"

lemma derive_key_prefix:
  assumes "i < 2 ^ 64" "j < 2 ^ 64" "derive_key j = derive_key i @ r"
  shows "r = [] \<and> i = j"
proof -
  have len: "length (derive_key k) < 2 ^ 32" if "k < 2 ^ 64" for k
    using length_putint_bounds [of "of_nat k"] that by (auto simp: derive_key_cases)
  have "Split (derive_key i @ r) = Ok (Inr (item_kind (RUint (of_nat i)), item_content (RUint (of_nat i)), r))"
    using Split_rlp_spec [of "RUint (of_nat i)" r] len [OF assms(2)] assms(3) by (simp add: derive_key_def)
  moreover have "Split (derive_key j @ []) = Ok (Inr (item_kind (RUint (of_nat j)), item_content (RUint (of_nat j)), []))"
    using Split_rlp_spec [of "RUint (of_nat j)" "[]"] len [OF assms(2)] by (simp add: derive_key_def)
  ultimately have r: "r = []" "item_content (RUint (of_nat i)) = item_content (RUint (of_nat j))"
    using assms(3) by auto
  moreover have "be_word (item_content (RUint i)) = i" for i :: u64
    using be_word_putint [of i] by (simp add: be_word_def)
  ultimately have "(of_nat i :: u64) = of_nat j" by metis
  then show ?thesis using r(1) assms(1,2) by (metis of_nat_u64)
qed

lemma bytes_less_key_less: "bytes_less a b \<Longrightarrow> (\<exists>r. b = a @ r) \<or> key_less a b"
proof (induction a arbitrary: b)
  case (Cons x a)
  then show ?case by (cases b) (auto simp: key_less_Cons lexord_conv)
qed simp

lemma bytes_less_irrefl: "\<not> bytes_less a a"
  by (induction a) (simp_all add: lexord_conv)

lemma derive_updates_in_order:
  assumes "n < 2 ^ 64" "\<forall>i < n. value_ok (enc i)"
  shows "in_order (map (\<lambda>i. (derive_key i, enc i)) (derive_order n))"
proof -
  have i: "i < 2 ^ 64" if "i \<in> set (derive_order n)" for i using that assms(1) set_derive_order(1) [of n] by auto
  have "key_less (derive_key i) (derive_key j)"
    if "i \<in> set (derive_order n)" "j \<in> set (derive_order n)" "bytes_less (derive_key i) (derive_key j)" for i j
    using bytes_less_key_less [OF that(3)] derive_key_prefix [OF i [OF that(1)] i [OF that(2)]] that(3)
    by (metis append_Nil2 bytes_less_irrefl)
  moreover have "sorted_wrt (\<lambda>i j. bytes_less (derive_key i) (derive_key j)) (derive_order n)"
    using DeriveSha_sorted [OF assms(1)] by (simp add: sorted_wrt_map)
  ultimately have "sorted_wrt (\<lambda>i j. key_less (derive_key i) (derive_key j)) (derive_order n)"
    by (rule sorted_wrt_mono_rel)
  moreover have "length (derive_key i) < 2 ^ 31 - 1" if "i < 2 ^ 64" for i
    using length_putint_bounds [of "of_nat i"] that by (auto simp: derive_key_cases)
  ultimately show ?thesis
    using assms i set_derive_order(1) [of n] by (simp add: in_order_def update_ok_def sorted_wrt_map)
qed

lemma derive_updates_map:
  "n < 2 ^ 64 \<Longrightarrow> map_of (map (\<lambda>i. (derive_key i, enc i)) (derive_order n)) = list_map n enc"
proof -
  assume n: "n < 2 ^ 64"
  have inj: "inj_on derive_key {0..<n}"
    using derive_key_prefix [of _ _ "[]"] n by (auto simp: inj_on_def)
  have d: "distinct (map fst (map (\<lambda>i. (derive_key i, enc i)) is))" if "set is = {0..<n}" "distinct is" for "is"
    using inj that by (simp add: distinct_map comp_def)
  show ?thesis
    unfolding list_map_def using d [of "derive_order n"] d [of "[0..<n]"] set_derive_order [of n]
    by (subst map_of_inject_set) auto
qed

text \<open>The root of a list as the code computes it, with a new stack trie.\<close>

definition list_root :: "(bytes \<Rightarrow> hash) \<Rightarrow> nat \<Rightarrow> (nat \<Rightarrow> bytes) \<Rightarrow> hash res" where
  "list_root K = DeriveSha (hash_updates StackTrie_Reset (StackTrie_Update K) (StackTrie_Hash K) NewStackTrie)"

lemma list_root_commits:
  assumes "n < 2 ^ 64" "\<forall>i < n. value_ok (enc i)"
  shows "\<exists>h. list_root K n enc = Ok h \<and> commits K (list_map n enc) h"
  using stack_list.hash_commits [OF derive_updates_in_order [OF assms]] derive_updates_map [OF assms(1)]
  by (simp add: list_root_def DeriveSha_def)

section \<open>What the stack trie promises\<close>

lemma trie_Hash_commits:
  assumes "commits K m h" "trie_is K t m"
  shows "\<exists>u. Trie_Hash K t = Ok (h, u)"
  using trie_list.hash [OF assms(2)] commits_unique [OF assms(1)] by blast

text \<open>
  C10: The stack trie computes the root hash of the trie. Whatever keys come in order and are not prefixes
  of each other, with values that are not empty, no update panics, and the hash at the end is that of a trie
  which got the same updates, and of every trie that holds these keys and values, however it came to hold
  them.
\<close>

theorem stack_trie_root:
  assumes "in_order kvs"
  shows "\<exists>h. hash_updates StackTrie_Reset (StackTrie_Update K) (StackTrie_Hash K) st kvs = Ok h \<and>
    hash_updates Trie_Reset Trie_Update (Trie_Hash K) t kvs = Ok h \<and>
    (\<forall>t'. trie_is K t' (map_of kvs) \<longrightarrow> (\<exists>u. Trie_Hash K t' = Ok (h, u)))"
proof -
  obtain h h' where "hash_updates StackTrie_Reset (StackTrie_Update K) (StackTrie_Hash K) st kvs = Ok h" "commits K (map_of kvs) h"
      "hash_updates Trie_Reset Trie_Update (Trie_Hash K) t kvs = Ok h'" "commits K (map_of kvs) h'"
    using stack_list.hash_commits [OF assms] trie_list.hash_commits [OF assms] by metis
  then show ?thesis using trie_Hash_commits commits_unique by metis
qed

lemma stack_trie_root_witness:
  "\<exists>h. hash_updates StackTrie_Reset (StackTrie_Update (\<lambda>b. of_nat (length b))) (StackTrie_Hash (\<lambda>b. of_nat (length b))) NewStackTrie
      [([1, 2], [5]), ([1, 3], [6]), ([4], [7])] = Ok h \<and>
    hash_updates Trie_Reset Trie_Update (Trie_Hash (\<lambda>b. of_nat (length b)))
      \<lparr>root = NilNode, t_owner = 0, unhashed = 0, t_reader = None\<rparr> [([1, 2], [5]), ([1, 3], [6]), ([4], [7])] = Ok h"
proof -
  have "in_order [([1, 2], [5]), ([1, 3], [6]), ([4], [7])]"
    by (simp add: in_order_def update_ok_def value_ok_def key_less_Cons)
  from stack_trie_root [OF this] show ?thesis by blast
qed

end
