(* ===== verification/RootBinding.thy ===== *)
theory RootBinding
  imports ListRoots
begin

text \<open>
  What a root hash binds: as long as the hash has no collision among the nodes of two tries, equal roots
  mean equal maps, and equal roots of lists mean equal lists.
\<close>

section \<open>Encodings\<close>

lemma rlp_split_eq:
  assumes "rlp_spec x @ r = rlp_spec y @ r'" "length (rlp_spec x @ r) < 2 ^ 64"
  shows "item_kind x = item_kind y \<and> item_content x = item_content y \<and> r = r' \<and> rlp_spec x = rlp_spec y"
  using Split_rlp_spec [OF assms(2)] Split_rlp_spec [of y r'] assms by auto

lemma rlp_spec_nonempty: "rlp_spec x \<noteq> []"
proof
  assume "rlp_spec x = []"
  then have "Split ([] :: bytes) = Ok (Inr (item_kind x, item_content x, []))"
    using Split_rlp_spec [of x "[]"] by simp
  then show False by (simp add: Split_def readKind_def)
qed

lemma rlp_specs_eq: "rlp_specs xs = rlp_specs ys \<Longrightarrow> length (rlp_specs xs) < 2 ^ 64 \<Longrightarrow> map rlp_spec xs = map rlp_spec ys"
proof (induction xs arbitrary: ys)
  case Nil
  then show ?case using rlp_spec_nonempty by (cases ys) auto
next
  case (Cons x xs)
  then obtain y ys' where y: "ys = y # ys'" using rlp_spec_nonempty by (cases ys) auto
  then show ?case using Cons rlp_split_eq [of x "rlp_specs xs" y "rlp_specs ys'"] by simp
qed

lemma rlp_list_eq:
  assumes "rlp_spec (RList xs) = rlp_spec (RList ys)" "length (rlp_spec (RList xs)) < 2 ^ 64"
  shows "map rlp_spec xs = map rlp_spec ys"
  using rlp_split_eq [of "RList xs" "[]" "RList ys" "[]"] rlp_specs_eq [of xs ys] rlp_specs_shorter [of xs] assms by simp

lemma rlp_bytes_eq: "rlp_spec (RBytes b) = rlp_spec (RBytes c) \<Longrightarrow> length (rlp_spec (RBytes b)) < 2 ^ 64 \<Longrightarrow> b = c"
  using rlp_split_eq [of "RBytes b" "[]" "RBytes c" "[]"] by simp

lemma rlp_bytes_list: "rlp_spec (RBytes b) = rlp_spec (RList xs) \<Longrightarrow> length (rlp_spec (RBytes b)) < 2 ^ 64 \<Longrightarrow> False"
  using rlp_split_eq [of "RBytes b" "[]" "RList xs" "[]"] by (simp split: if_splits)

section \<open>Nodes\<close>

fun subtries :: "etrie \<Rightarrow> etrie set" where
  "subtries ENil = {}"
| "subtries (EValue v) = {}"
| "subtries (EShort ks c) = insert (EShort ks c) (subtries c)"
| "subtries (EFull cs) = insert (EFull cs) (\<Union>c \<in> set cs. subtries c)"

text \<open>The encodings of all nodes of the trie of a map.\<close>

definition written :: "(bytes \<Rightarrow> hash) \<Rightarrow> (bytes \<Rightarrow> bytes option) \<Rightarrow> bytes set" where
  "written K m = {encode K s |s T. canon T \<and> contents T m \<and> s \<in> subtries T}"

lemma subtries_self: "canon T \<Longrightarrow> T \<in> subtries T"
  by (cases T) auto

lemma hash_bytes_inj: "hash_bytes h = hash_bytes h' \<longleftrightarrow> h = h'"
  by (metis be_word_hash_bytes)

lemma ref_canon: "canon c \<Longrightarrow> rlp_spec (ref K c) = (if length (encode K c) < 32 then encode K c else rlp_spec (RBytes (hash_bytes (K (encode K c)))))"
  by (simp add: ref_def shrink_def encode_def canon_is_node del: rlp_spec.simps)

lemma length_rlp_hash: "length (rlp_spec (RBytes (hash_bytes h))) = 33"
  by (simp add: enc_string_def puthead_def)

lemma encode_as_list: "canon T \<Longrightarrow> \<exists>xs. encode K T = rlp_spec (RList xs)"
  by (cases T) (auto simp: encode_short encode_full simp del: rlp_spec.simps)

lemma ref_child_eq:
  assumes "canon c" "canon c'" "rlp_spec (ref K c) = rlp_spec (ref K c')" "inj_on K S" "encode K c \<in> S" "encode K c' \<in> S"
  shows "encode K c = encode K c'"
proof (cases "length (encode K c) < 32 \<or> length (encode K c') < 32")
  case True
  then show ?thesis
    using assms(3) length_rlp_hash [of "K (encode K c)"] length_rlp_hash [of "K (encode K c')"]
    unfolding ref_canon [OF assms(1)] ref_canon [OF assms(2)] by (auto simp del: rlp_spec.simps split: if_splits)
next
  case False
  then have "rlp_spec (RBytes (hash_bytes (K (encode K c)))) = rlp_spec (RBytes (hash_bytes (K (encode K c'))))"
    using assms(3) unfolding ref_canon [OF assms(1)] ref_canon [OF assms(2)] by (simp del: rlp_spec.simps)
  then have "K (encode K c) = K (encode K c')"
    using rlp_bytes_eq length_rlp_hash [of "K (encode K c)"] hash_bytes_inj by fastforce
  then show ?thesis using inj_onD [OF assms(4) _ assms(5,6)] by blast
qed

lemma length_short: "length b < 32 \<Longrightarrow> (of_nat (length b) :: u64) < 56"
  by (simp add: word_less_nat_alt unat_of_nat take_bit_nat_eq_self)

lemma ref_bytes_canon: "canon c \<Longrightarrow> length b < 32 \<Longrightarrow> rlp_spec (ref K c) \<noteq> rlp_spec (RBytes b)"
proof
  assume a: "canon c" "length b < 32" "rlp_spec (ref K c) = rlp_spec (RBytes b)"
  have l: "length (rlp_spec (RBytes b)) < 2 ^ 64" using a(2) by (auto simp: enc_string_def puthead_def length_short)
  show False
  proof (cases "length (encode K c) < 32")
    case True
    then show False
      using a rlp_bytes_list [OF _ l] encode_as_list [OF a(1), of K] unfolding ref_canon [OF a(1)] by (metis (no_types, lifting))
  next
    case False
    then have "hash_bytes (K (encode K c)) = b"
      using a(3) rlp_bytes_eq [of "hash_bytes (K (encode K c))" b] l unfolding ref_canon [OF a(1)] by simp
    then show False using a(2) by auto
  qed
qed

lemma ref_leaf_eq:
  assumes "is_leaf c" "is_leaf c'" "rlp_spec (ref K c) = rlp_spec (ref K c')" "length (rlp_spec (ref K c)) < 2 ^ 64"
  shows "c = c'"
proof -
  obtain v v' where v: "c = EValue v" "c' = EValue v'" using assms(1,2) by (auto simp: is_leaf_def)
  then show ?thesis using rlp_bytes_eq [of v v'] assms(3,4) by (simp add: ref_def is_node_def)
qed

lemma ref_ENil: "rlp_spec (ref K ENil) = rlp_spec (RBytes [])"
  by (simp add: ref_def is_node_def)

lemma ref_slot_eq:
  assumes "slot_ok i c" "slot_ok i c'" "rlp_spec (ref K c) = rlp_spec (ref K c')" "length (rlp_spec (ref K c)) < 2 ^ 64"
  shows "c = c' \<or> canon c \<and> canon c'"
proof (cases "i = 16")
  case True
  then consider "c = ENil" "c' = ENil" | "is_leaf c" "is_leaf c'" | v where "c = EValue v" "c' = ENil" "v \<noteq> []" | v where "c' = EValue v" "c = ENil" "v \<noteq> []"
    using assms(1,2) by (auto simp: slot_ok_def is_leaf_def value_ok_def)
  then show ?thesis
  proof cases
    case 2
    then show ?thesis using ref_leaf_eq assms(3,4) by blast
  next
    case 3
    then show ?thesis using rlp_bytes_eq [of v "[]"] assms(3,4) by (simp add: ref_def is_node_def)
  next
    case 4
    then show ?thesis using rlp_bytes_eq [of "[]" v] assms(3,4) by (simp add: ref_def is_node_def)
  qed simp
next
  case False
  then have "c = ENil \<or> canon c" "c' = ENil \<or> canon c'" using assms(1,2) by (auto simp: slot_ok_def)
  then show ?thesis
    using assms(3) ref_bytes_canon [of c "[]" K] ref_bytes_canon [of c' "[]" K] ref_ENil [of K] by auto
qed

lemma segment_eq:
  assumes "segment_ok ks c" "segment_ok ks' c'"
    "compact_of (if hasTerm ks then butlast ks else ks) (hasTerm ks) = compact_of (if hasTerm ks' then butlast ks' else ks') (hasTerm ks')"
  shows "ks = ks'"
proof -
  have "compactToHex (compact_of (if hasTerm ks then butlast ks else ks) (hasTerm ks)) = Ok ks"
    if "segment_ok ks c" for ks c
    using segment_key [OF that] compactToHex_compact by metis
  from this [OF assms(1)] this [OF assms(2)] show ?thesis using assms(3) by simp
qed

lemma part_length: "x \<in> set xs \<Longrightarrow> length (rlp_spec x) \<le> length (rlp_spec (RList xs))"
proof -
  have "x \<in> set xs \<Longrightarrow> length (rlp_spec x) \<le> length (rlp_specs xs)"
    by (induction xs) auto
  then show "x \<in> set xs \<Longrightarrow> ?thesis" using rlp_specs_shorter [of xs] by simp
qed

text \<open>Two canonical tries without a collision among their nodes are equal if their encodings are.\<close>

lemma encode_inj:
  assumes "canon T" "canon T'" "sized T" "sized T'" "inj_on K S" "encode K ` subtries T \<subseteq> S" "encode K ` subtries T' \<subseteq> S"
    "encode K T = encode K T'"
  shows "T = T'"
  using assms
proof (induction T arbitrary: T' rule: canon.induct)
  case (3 ks c)
  let ?key = "\<lambda>ks. RBytes (compact_of (if hasTerm ks then butlast ks else ks) (hasTerm ks))"
  let ?parts = "[?key ks, ref K c]"
  have l: "length (rlp_spec (RList ?parts)) < 2 ^ 64"
    using length_encode [OF 3(2,4), of K] unfolding encode_short by simp
  from 3(3) show ?case
  proof (cases T')
    case (EShort ks' c')
    have s: "segment_ok ks c" "segment_ok ks' c'" using 3(2,3) EShort by (simp_all add: canon_short)
    have eq: "map rlp_spec ?parts = map rlp_spec [?key ks', ref K c']"
      using 3(9) unfolding EShort encode_short by (intro rlp_list_eq [OF _ l])
    then have parts: "rlp_spec (?key ks) = rlp_spec (?key ks')" "rlp_spec (ref K c) = rlp_spec (ref K c')"
      by (simp_all del: rlp_spec.simps)
    have ls: "length (rlp_spec (?key ks)) < 2 ^ 64" "length (rlp_spec (ref K c)) < 2 ^ 64"
      using part_length [of "?key ks" ?parts] part_length [of "ref K c" ?parts] l by (simp_all del: rlp_spec.simps)
    have k: "ks = ks'" using segment_eq [OF s] rlp_bytes_eq [OF parts(1) ls(1)] by blast
    have "c = c'"
    proof (cases "is_leaf c")
      case True
      then have "is_leaf c'" using segment_key [OF s(1)] segment_key [OF s(2)] k by metis
      then show ?thesis using ref_leaf_eq [OF True _ parts(2) ls(2)] by blast
    next
      case False
      then have "\<not> is_leaf c'" using segment_key [OF s(1)] segment_key [OF s(2)] k by metis
      then have c: "canon c" "canon c'" using False s by (auto simp: segment_ok_def)
      have sub: "encode K ` subtries c \<subseteq> S" "encode K ` subtries c' \<subseteq> S" using 3(7,8) EShort by auto
      then have "encode K c \<in> S" "encode K c' \<in> S" using subtries_self [OF c(1)] subtries_self [OF c(2)] by blast+
      then have "encode K c = encode K c'" using ref_child_eq [OF c parts(2) 3(6)] by blast
      moreover have "sized c" "sized c'" using sized_short [OF 3(2,4)] sized_short [of ks' c'] 3(3,5) EShort by simp_all
      ultimately show ?thesis
        using 3(1) c sub 3(6) by blast
    qed
    then show ?thesis using k EShort by simp
  next
    case (EFull cs)
    have "map rlp_spec ?parts = map rlp_spec (map (ref K) cs)"
      using 3(9) unfolding EFull encode_short encode_full by (intro rlp_list_eq [OF _ l])
    from arg_cong [OF this, of length] have "length cs = 2" by (simp del: rlp_spec.simps)
    then show ?thesis using 3(3) EFull by (simp add: canon_full)
  qed simp_all
next
  case (4 cs)
  have l: "length (rlp_spec (RList (map (ref K) cs))) < 2 ^ 64"
    using length_encode [OF 4(2,4), of K] unfolding encode_full by simp
  from 4(3) show ?case
  proof (cases T')
    case (EShort ks' c')
    let ?key = "\<lambda>ks. RBytes (compact_of (if hasTerm ks then butlast ks else ks) (hasTerm ks))"
    have "map rlp_spec (map (ref K) cs) = map rlp_spec [?key ks', ref K c']"
      using 4(9) unfolding EShort encode_short encode_full by (intro rlp_list_eq [OF _ l])
    from arg_cong [OF this, of length] have "length cs = 2" by (simp del: rlp_spec.simps)
    then show ?thesis using 4(2) by (simp add: canon_full)
  next
    case (EFull cs')
    have eq: "map rlp_spec (map (ref K) cs) = map rlp_spec (map (ref K) cs')"
      using 4(9) unfolding EFull encode_full by (intro rlp_list_eq [OF _ l])
    have n: "length cs = 17" "length cs' = 17" using 4(2,3) EFull by (simp_all add: canon_full)
    have "cs ! i = cs' ! i" if i: "i < 17" for i
    proof -
      have r: "rlp_spec (ref K (cs ! i)) = rlp_spec (ref K (cs' ! i))"
        using arg_cong [OF eq, of "\<lambda>xs. xs ! i"] i n by (simp del: rlp_spec.simps)
      have li: "length (rlp_spec (ref K (cs ! i))) < 2 ^ 64"
        using part_length [of "ref K (cs ! i)" "map (ref K) cs"] l i n by (simp del: rlp_spec.simps)
      have s: "slot_ok i (cs ! i)" "slot_ok i (cs' ! i)" using 4(2,3) EFull i by (simp_all add: canon_full)
      from ref_slot_eq [OF s r li] show ?thesis
      proof
        assume c: "canon (cs ! i) \<and> canon (cs' ! i)"
        have "i \<noteq> 16" using c s by (auto simp: slot_ok_def is_leaf_def)
        have m: "cs ! i \<in> set cs" "cs' ! i \<in> set cs'" using i n by simp_all
        have mem16: "cs ! i \<in> set (take 16 cs)"
          using i n \<open>i \<noteq> 16\<close> unfolding in_set_conv_nth by (intro exI [of _ i]) simp
        have sub: "encode K ` subtries (cs ! i) \<subseteq> S" "encode K ` subtries (cs' ! i) \<subseteq> S"
          using 4(7,8) m unfolding EFull by (simp_all add: image_subset_iff)
        then have "encode K (cs ! i) = encode K (cs' ! i)"
          using ref_child_eq [OF _ _ r 4(6)] subtries_self c by blast
        moreover have "sized (cs ! i)" "sized (cs' ! i)"
          using sized_full [OF 4(2,4) i] sized_full [of cs' i] 4(3,5) EFull i by simp_all
        ultimately show ?thesis
          using 4(1) [of "cs ! i" "cs' ! i"] mem16 sub 4(6) c by blast
      qed
    qed
    then show ?thesis using EFull n by (simp add: list_eq_iff_nth_eq)
  qed simp_all
qed simp_all

section \<open>Roots\<close>

definition short_keys :: "(bytes \<Rightarrow> bytes option) \<Rightarrow> bool" where
  "short_keys m \<longleftrightarrow> (\<forall>key. m key \<noteq> None \<longrightarrow> length key < 2 ^ 31)"

lemma contents_sized: "contents T m \<Longrightarrow> short_keys m \<Longrightarrow> sized T"
  unfolding sized_def
proof (intro allI impI)
  fix j assume a: "contents T m" "short_keys m" "hexterm j" "elookup T j \<noteq> None"
  then obtain key where "j = keybytesToHex key" unfolding contents_def by metis
  moreover from this have "m key \<noteq> None" using a unfolding contents_def by metis
  ultimately show "length j < 2 ^ 32" using a(2) by (auto simp: short_keys_def length_keybytesToHex)
qed

lemma trie_is_short: "trie_is K t m \<Longrightarrow> short_keys m"
proof -
  assume "trie_is K t m"
  then obtain T where T: "sized T" "contents T m" by (auto simp: trie_is_def)
  have "length key < 2 ^ 31" if "m key \<noteq> None" for key
  proof -
    have "elookup T (keybytesToHex key) \<noteq> None" using T(2) that unfolding contents_def by metis
    then have "length (keybytesToHex key) < 2 ^ 32" using T(1) unfolding sized_def by simp
    then show ?thesis by (simp add: length_keybytesToHex)
  qed
  then show ?thesis by (simp add: short_keys_def)
qed

lemma commits_inj:
  assumes "commits K m h" "commits K m' h" "short_keys m" "short_keys m'" "K [0x80] = Trie.emptyRoot"
    "inj_on K (insert [0x80] (written K m \<union> written K m'))"
  shows "m = m'"
proof -
  let ?S = "insert [0x80] (written K m \<union> written K m')"
  obtain T T' where T: "T = ENil \<or> canon T" "contents T m" "h = (if T = ENil then Trie.emptyRoot else K (encode K T))"
    and T': "T' = ENil \<or> canon T'" "contents T' m'" "h = (if T' = ENil then Trie.emptyRoot else K (encode K T'))"
    using assms(1,2) unfolding commits_def by blast
  have sz: "sized T" "sized T'" using contents_sized T(2) T'(2) assms(3,4) by blast+
  have sub: "encode K ` subtries U \<subseteq> ?S" if "U = ENil \<or> canon U" "contents U m \<or> contents U m'" for U
    using that by (auto simp: written_def)
  have root: "h = K (if U = ENil then [0x80] else encode K U)" if "h = (if U = ENil then Trie.emptyRoot else K (encode K U))" for U
    using that assms(5) by simp
  have mem: "(if U = ENil then [0x80] else encode K U) \<in> ?S" if "U = ENil \<or> canon U" "contents U m \<or> contents U m'" for U
    using sub [OF that] subtries_self [of U] that(1) by auto
  have eq: "(if T = ENil then [0x80] else encode K T) = (if T' = ENil then [0x80] else encode K T')"
    using inj_onD [OF assms(6) _ mem mem] root [OF T(3)] root [OF T'(3)] T(1,2) T'(1,2) by metis
  have no_list: "encode K U \<noteq> [0x80]" if c: "canon U" for U
  proof -
    have e: "rlp_spec (RBytes []) = [0x80]" by (simp add: enc_string_def puthead_def)
    then have l: "length (rlp_spec (RBytes [])) < 2 ^ 64" by simp
    obtain xs where "encode K U = rlp_spec (RList xs)" using encode_as_list [OF c] by blast
    then show ?thesis using rlp_bytes_list [of "[]" xs] l by (metis e)
  qed
  have "T = T'"
  proof (cases "T = ENil \<or> T' = ENil")
    case True
    then show ?thesis using eq no_list T(1) T'(1) by (metis (full_types))
  next
    case False
    then show ?thesis
      using encode_inj [OF _ _ sz assms(6)] sub T(1,2) T'(1,2) eq by auto
  qed
  moreover have "m key = elookup T (keybytesToHex key)" "m' key = elookup T' (keybytesToHex key)" for key
    using T(2) T'(2) by (simp_all add: contents_def)
  ultimately show ?thesis by (simp add: fun_eq_iff)
qed

text \<open>
  C11: The root hash binds the contents. If the hash has no collision among the encodings of the nodes of
  two tries and of the empty string, whose hash the empty root is, then tries with the same root hold the
  same map: a header that carries a root commits to every key and value under it.
\<close>

theorem trie_root_binds:
  assumes "trie_is K t m" "trie_is K t' m'" "Trie_Hash K t = Ok (h, u)" "Trie_Hash K t' = Ok (h, u')"
    "K [0x80] = Trie.emptyRoot" "inj_on K (insert [0x80] (written K m \<union> written K m'))"
  shows "m = m'"
  using commits_inj [OF _ _ trie_is_short [OF assms(1)] trie_is_short [OF assms(2)] assms(5,6)]
    trie_list.hash [OF assms(1)] trie_list.hash [OF assms(2)] assms(3,4) by auto

lemma list_map_lookup:
  assumes "n < 2 ^ 64" "i < 2 ^ 64"
  shows "list_map n enc (derive_key i) = (if i < n then Some (enc i) else None)"
proof -
  have inj: "derive_key j = derive_key i \<longleftrightarrow> j = i" if "j < 2 ^ 64" for j
    using derive_key_prefix [of i j "[]"] that assms(2) by auto
  show ?thesis
  proof (cases "i < n")
    case True
    moreover have "distinct (map fst (map (\<lambda>i. (derive_key i, enc i)) [0..<n]))"
      using derive_key_prefix [of _ _ "[]"] assms(1) by (auto simp: distinct_map comp_def inj_on_def)
    ultimately show ?thesis unfolding list_map_def by (simp add: map_of_eq_Some_iff)
  next
    case False
    then have "derive_key i \<notin> derive_key ` {0..<n}" using inj assms(1) by (metis atLeastLessThan_iff imageE less_trans)
    then have "map_of (map (\<lambda>i. (derive_key i, enc i)) [0..<n]) (derive_key i) = None"
      by (simp add: map_of_eq_None_iff image_image)
    then show ?thesis using False by (simp add: list_map_def)
  qed
qed

text \<open>
  The root of transactions or receipts binds the list: two lists whose roots are computed and agree have
  the same length and the same encoded elements. The elements have between one byte and four gigabytes.
\<close>

lemma list_root_inj:
  assumes "n < 2 ^ 64" "n' < 2 ^ 64" "\<forall>i < n. value_ok (enc i)" "\<forall>i < n'. value_ok (enc' i)"
    "list_root K n enc = list_root K n' enc'"
    "K [0x80] = Trie.emptyRoot" "inj_on K (insert [0x80] (written K (list_map n enc) \<union> written K (list_map n' enc')))"
  shows "n = n' \<and> (\<forall>i < n. enc i = enc' i)"
proof -
  have short: "short_keys (list_map n enc)" if "n < 2 ^ 64" for n and enc :: "nat \<Rightarrow> bytes"
  proof -
    have "length (derive_key i) < 2 ^ 31" if "i < 2 ^ 64" for i
      using length_putint_bounds [of "of_nat i"] that by (auto simp: derive_key_cases)
    then show ?thesis
      using that by (fastforce simp: short_keys_def list_map_def dest!: map_of_SomeD)
  qed
  have "list_map n enc = list_map n' enc'"
    using commits_inj [OF _ _ short [OF assms(1)] short [OF assms(2)] assms(6,7)]
      list_root_commits [OF assms(1,3), of K] list_root_commits [OF assms(2,4), of K] assms(5) by auto
  then have look: "(if i < n then Some (enc i) else None) = (if i < n' then Some (enc' i) else None)" if "i < 2 ^ 64" for i
    using list_map_lookup [OF assms(1) that, of enc] list_map_lookup [OF assms(2) that, of enc'] by simp
  have "n = n'"
    using look [of n] look [of n'] assms(1,2) by (cases n n' rule: linorder_cases) auto
  then show ?thesis using look assms(1) by (metis less_trans option.inject)
qed

text \<open>The trie of one key.\<close>

lemma leaf_written:
  assumes "value_ok v"
  shows "written K [key \<mapsto> v] = {encode K (EShort (keybytesToHex key) (EValue v))}"
proof -
  let ?T = "EShort (keybytesToHex key) (EValue v)"
  have look: "elookup ?T j = (if j = keybytesToHex key then Some v else None)" for j
    using append_take_drop_id [of "length (keybytesToHex key)" j] by (auto simp del: append_take_drop_id)
  have c: "canon ?T" using assms by (auto simp: canon_short segment_ok_def is_leaf_def)
  have m: "contents ?T [key \<mapsto> v]"
    unfolding contents_def look by (simp add: keybytesToHex_inj)
  have only: "U = ?T" if "canon U" "contents U [key \<mapsto> v]" for U
    using contents_unique [OF that(2) m] that(1) c by blast
  then have "{s. \<exists>U. canon U \<and> contents U [key \<mapsto> v] \<and> s \<in> subtries U} = {?T}"
  proof (intro equalityI subsetI)
    fix s assume "s \<in> {s. \<exists>U. canon U \<and> contents U [key \<mapsto> v] \<and> s \<in> subtries U}"
    then obtain U where "canon U" "contents U [key \<mapsto> v]" "s \<in> subtries U" by blast
    with only [of U] have "s \<in> subtries ?T" by blast
    then show "s \<in> {?T}" by simp
  next
    fix s assume "s \<in> {?T}"
    then have "s \<in> subtries ?T" by simp
    with c m show "s \<in> {s. \<exists>U. canon U \<and> contents U [key \<mapsto> v] \<and> s \<in> subtries U}" by blast
  qed
  moreover have "written K [key \<mapsto> v] = encode K ` {s. \<exists>U. canon U \<and> contents U [key \<mapsto> v] \<and> s \<in> subtries U}"
    unfolding written_def by blast
  ultimately show ?thesis by simp
qed

definition node_hash :: "bytes \<Rightarrow> hash" where
  "node_hash b = (if b = [0x80] then 0x56e81f171bcc55a6ff8345e692c0f86e5b48e01b996cadc001622fb5e363b421 else 5)"

lemma node_hash: "node_hash [0x80] = Trie.emptyRoot"
    "value_ok v \<Longrightarrow> inj_on node_hash (insert [0x80] (written node_hash [key \<mapsto> v] \<union> written node_hash [key \<mapsto> v]))"
  by (auto simp: leaf_written node_hash_def Trie.emptyRoot_def inj_on_def)

lemma trie_root_binds_witness:
  "\<exists>h u u'. Trie_Hash node_hash (two_puts \<lparr>root = NilNode, t_owner = 0, unhashed = 0, t_reader = None\<rparr> ([1, 2], [6]) ([1, 2], [5])) = Ok (h, u) \<and>
    Trie_Hash node_hash (two_puts \<lparr>root = NilNode, t_owner = 0, unhashed = 0, t_reader = None\<rparr> ([1, 2], [7]) ([1, 2], [5])) = Ok (h, u') \<and>
    [[1, 2] \<mapsto> [6], [1, 2] \<mapsto> [5]] = [[1, 2 :: byte] \<mapsto> [7], [1, 2] \<mapsto> [5 :: byte]]"
proof -
  let ?t = "\<lambda>b. two_puts \<lparr>root = NilNode, t_owner = 0, unhashed = 0, t_reader = None\<rparr> ([1, 2], [b]) ([1, 2], [5])"
  have v: "value_ok [5]" by (simp add: value_ok_def)
  have t: "trie_is node_hash (?t b) [[1, 2] \<mapsto> [b], [1, 2] \<mapsto> [5]]" for b
    using two_puts_contents [OF trie_is_empty, where p = "([1, 2], [b])" and q = "([1, 2], [5])"] by (simp add: value_ok_def)
  obtain h u where h: "Trie_Hash node_hash (?t 6) = Ok (h, u)" "commits node_hash [[1, 2] \<mapsto> [6], [1, 2] \<mapsto> [5]] h"
    using trie_list.hash [OF t] by blast
  have "commits node_hash [[1, 2] \<mapsto> [7], [1, 2] \<mapsto> [5]] h" using h(2) by simp
  from trie_Hash_commits [OF this t] obtain u' where h': "Trie_Hash node_hash (?t 7) = Ok (h, u')" by blast
  show ?thesis
    using trie_root_binds [OF t t h(1) h' node_hash(1)] node_hash(2) [OF v] h(1) h' by simp
qed

end
