(* ===== verification/BlockValidator.thy ===== *)
theory BlockValidator
  imports RootBinding Ethash
begin

text \<open>
  The block validator (core/block_validator.go): whether a block has the body its header commits to and
  whether its execution led where the header says, and the gas limit of the next block. What the validator
  asks of the chain is a record: the headers and blocks by hash and number, and what the cache and the
  database hold.
\<close>

section \<open>The chain\<close>

record BlockChain =
  bc_chain :: Chain
  blockCache :: "hash \<Rightarrow> bool"
  HasHeader :: "hash \<Rightarrow> u64 \<Rightarrow> bool"
  HasBody :: "hash \<Rightarrow> u64 \<Rightarrow> bool"
  HasState :: "hash \<Rightarrow> bool"

definition HasBlock :: "BlockChain \<Rightarrow> hash \<Rightarrow> u64 \<Rightarrow> bool" where
  "HasBlock bc h number \<longleftrightarrow>
     (if blockCache bc h then True else if \<not> HasHeader bc h number then False else HasBody bc h number)"

definition HasBlockAndState :: "BlockChain \<Rightarrow> hash \<Rightarrow> u64 \<Rightarrow> bool" where
  "HasBlockAndState bc h number =
     (case GetBlock (bc_chain bc) h number of None \<Rightarrow> False | Some block \<Rightarrow> HasState bc (Root (bHeader block)))"

section \<open>The validator\<close>

datatype block_error = ErrKnownBlock | UncleError ethash_error | UncleRootMismatch hash hash
  | TransactionRootMismatch hash hash | UnknownAncestor | ErrPrunedAncestor
  | InvalidGasUsed u64 u64 | InvalidBloom Bloom Bloom | InvalidReceiptRoot hash hash | InvalidMerkleRoot hash hash

record BlockValidator =
  bv_config :: ChainConfig
  bv_bc :: BlockChain
  bv_engine :: Ethash

definition NewBlockValidator :: "ChainConfig \<Rightarrow> BlockChain \<Rightarrow> Ethash \<Rightarrow> BlockValidator" where
  "NewBlockValidator config blockchain engine = \<lparr>bv_config = config, bv_bc = blockchain, bv_engine = engine\<rparr>"

definition ValidateBody :: "sigCrypto \<Rightarrow> u64 \<Rightarrow> BlockValidator \<Rightarrow> Block \<Rightarrow> block_error option res" where
  "ValidateBody k unixNow v block =
     (if HasBlockAndState (bv_bc v) (Block_Hash k block) (NumberU64 block) then Ok (Some ErrKnownBlock)
      else
        let header = bHeader block in
        rbind (VerifyUncles k (bv_engine v) (bc_chain (bv_bc v)) unixNow block) (\<lambda>err.
        if err \<noteq> None then Ok (map_option UncleError err)
        else
          let hash = CalcUncleHash k (bUncles block) in
          if hash \<noteq> UncleHash header then Ok (Some (UncleRootMismatch hash (UncleHash header)))
          else
            rbind (list_root (keccak k) (length (bTransactions block)) (Transactions_EncodeIndex (bTransactions block))) (\<lambda>hash.
            if hash \<noteq> TxHash header then Ok (Some (TransactionRootMismatch hash (TxHash header)))
            else if \<not> HasBlockAndState (bv_bc v) (ParentHash header) (NumberU64 block - 1) then
              (if \<not> HasBlock (bv_bc v) (ParentHash header) (NumberU64 block - 1) then Ok (Some UnknownAncestor)
               else Ok (Some ErrPrunedAncestor))
            else Ok None)))"

text \<open>
  The root of the state is \<^verbatim>\<open>IntermediateRoot\<close> of the state database, which it leaves with its changes
  finalised.
\<close>

definition ValidateState ::
  "sigCrypto \<Rightarrow> (bool \<Rightarrow> StateDB \<Rightarrow> hash \<times> StateDB) \<Rightarrow> BlockValidator \<Rightarrow> Block \<Rightarrow> StateDB \<Rightarrow> Receipt list \<Rightarrow> u64 \<Rightarrow>
   (block_error option \<times> StateDB) res" where
  "ValidateState k intermediateRoot v block statedb receipts usedGas =
     (let header = bHeader block in
      if hGasUsed header \<noteq> usedGas then Ok (Some (InvalidGasUsed (hGasUsed header) usedGas), statedb)
      else
        let rbloom = CreateBloom (keccak k) receipts in
        if rbloom \<noteq> hBloom header then Ok (Some (InvalidBloom (hBloom header) rbloom), statedb)
        else
          rbind (list_root (keccak k) (length receipts) (receipts_index receipts)) (\<lambda>receiptSha.
          if receiptSha \<noteq> ReceiptHash header then Ok (Some (InvalidReceiptRoot (ReceiptHash header) receiptSha), statedb)
          else
            let (root, statedb) = intermediateRoot (IsEIP158 (bv_config v) (hNumber header)) statedb in
            Ok (if Root header \<noteq> root then Some (InvalidMerkleRoot (Root header) root) else None, statedb)))"

definition CalcGasLimit :: "u64 \<Rightarrow> u64 \<Rightarrow> u64" where
  "CalcGasLimit parentGasLimit desiredLimit =
     (let delta = parentGasLimit div GasLimitBoundDivisor - 1;
          limit = parentGasLimit;
          desiredLimit = (if desiredLimit < MinGasLimit then MinGasLimit else desiredLimit)
      in if limit < desiredLimit then
           (let limit = parentGasLimit + delta in if limit > desiredLimit then desiredLimit else limit)
         else if limit > desiredLimit then
           (let limit = parentGasLimit - delta in if limit < desiredLimit then desiredLimit else limit)
         else limit)"

section \<open>The gas limit of the next block\<close>

lemma CalcGasLimit_uint:
  assumes "MinGasLimit \<le> p" "p \<le> MaxGasLimit"
  shows "uint (CalcGasLimit p d) =
    (let D = max (uint d) 5000; q = uint p div 1024 - 1 in
     if uint p < D then min D (uint p + q) else max D (uint p - q))"
proof -
  have b: "5000 \<le> uint p" "uint p \<le> 0x7fffffffffffffff" using assms by (simp_all add: word_le_def)
  have one: "uint (p div 1024 - 1) = uint p div 1024 - 1"
    using b by (simp add: uint_sub_if' uint_div)
  have up: "uint (p + (p div 1024 - 1)) = uint p + (uint p div 1024 - 1)"
    using b one by (simp add: uint_plus_if')
  have down: "uint (p - (p div 1024 - 1)) = uint p - (uint p div 1024 - 1)"
    using b one by (simp add: uint_sub_if')
  have D: "uint (if d < 5000 then 5000 else d) = max (uint d) 5000"
    by (simp add: word_less_def max_def)
  have "0 \<le> uint p div 1024 - 1" using b by linarith
  define e where "e = (if d < 5000 then 5000 else d)"
  have "uint (CalcGasLimit p d) =
      (if uint p < uint e then (if uint p + (uint p div 1024 - 1) > uint e then uint e else uint p + (uint p div 1024 - 1))
       else if uint p > uint e then (if uint p - (uint p div 1024 - 1) < uint e then uint e else uint p - (uint p div 1024 - 1))
       else uint p)"
    unfolding CalcGasLimit_def Let_def GasLimitBoundDivisor_def MinGasLimit_def e_def [symmetric] if_distrib [of uint]
      word_less_def [of p] word_less_def [of e] word_less_def [of _ e] up down by (rule refl)
  then show ?thesis
    using \<open>0 \<le> uint p div 1024 - 1\<close> D unfolding e_def [symmetric] Let_def by (auto simp: max_def min_def)
qed

text \<open>
  C19: A miner's choice passes the check of the others. The limit computed from a parent with a valid gas
  limit is accepted by \<^verbatim>\<open>VerifyGaslimit\<close> whatever limit is desired, and it lies between the parent's limit and
  the desired one, which is raised to the minimum.
\<close>

theorem CalcGasLimit_accepted:
  assumes "MinGasLimit \<le> p" "p \<le> MaxGasLimit"
  shows "VerifyGaslimit p (CalcGasLimit p d) = None \<and>
    min p (max d MinGasLimit) \<le> CalcGasLimit p d \<and> CalcGasLimit p d \<le> max p (max d MinGasLimit)"
proof -
  have b: "5000 \<le> uint p" "uint p \<le> 0x7fffffffffffffff" using assms by (simp_all add: word_le_def)
  then have q: "0 \<le> uint p div 1024 - 1" by linarith
  note u = CalcGasLimit_uint [OF assms, of d]
  have "5000 \<le> uint (CalcGasLimit p d)" "\<bar>uint p - uint (CalcGasLimit p d)\<bar> \<le> uint p div 1024 - 1"
    using b q unfolding u Let_def by auto
  moreover have "uint (max d MinGasLimit) = max (uint d) 5000" by (simp add: word_le_def max_def)
  then have "min (uint p) (uint (max d MinGasLimit)) \<le> uint (CalcGasLimit p d)" "uint (CalcGasLimit p d) \<le> max (uint p) (uint (max d MinGasLimit))"
    using q unfolding u Let_def by auto
  ultimately show ?thesis
    by (auto simp: VerifyGaslimit_exact circle_distance_def word_le_def min_def max_def split: if_splits)
qed

lemma CalcGasLimit_accepted_witness:
  "VerifyGaslimit 30000000 (CalcGasLimit 30000000 36000000) = None \<and>
    min 30000000 (max 36000000 MinGasLimit) \<le> CalcGasLimit 30000000 36000000 \<and>
    CalcGasLimit 30000000 36000000 \<le> max 30000000 (max 36000000 MinGasLimit)"
  by (rule CalcGasLimit_accepted) (simp_all add: MaxGasLimit_def)

section \<open>What the body of a block is bound to\<close>

lemma list_root_value: "n < 2 ^ 64 \<Longrightarrow> \<forall>i < n. value_ok (enc i) \<Longrightarrow> list_root K n enc = Ok h \<longleftrightarrow> commits K (list_map n enc) h"
  using list_root_commits [of n enc K] commits_unique by fastforce

text \<open>The encodings of the uncles of a block, and of a list of them.\<close>

definition uncle_items :: "Header list \<Rightarrow> item list" where
  "uncle_items us = map (\<lambda>u. the (Header_EncodeRLP u)) us"

definition body_ok :: "Block \<Rightarrow> bool" where
  "body_ok b \<longleftrightarrow> length (bTransactions b) < 2 ^ 64 \<and>
     (\<forall>i < length (bTransactions b). value_ok (Transactions_EncodeIndex (bTransactions b) i)) \<and>
     (\<forall>u \<in> set (bUncles b). Header_EncodeRLP u \<noteq> None) \<and> length (rlp_spec (RList (uncle_items (bUncles b)))) < 2 ^ 64"

definition body_map :: "Block \<Rightarrow> bytes \<Rightarrow> bytes option" where
  "body_map b = list_map (length (bTransactions b)) (Transactions_EncodeIndex (bTransactions b))"

lemma CalcUncleHash_encoded:
  assumes "\<forall>u \<in> set us. Header_EncodeRLP u \<noteq> None" "length (rlp_spec (RList (uncle_items us))) < 2 ^ 64"
  shows "CalcUncleHash k us = keccak k (rlp_spec (RList (uncle_items us)))"
proof -
  have "None \<notin> set (map Header_EncodeRLP us)" using assms(1) by (metis imageE list.set_map)
  moreover have "EncodeToBytes (RList (uncle_items us)) = rlp_spec (RList (uncle_items us))"
    using assms(2) by (simp add: EncodeToBytes_def write_item_makeBytes del: rlp_spec.simps write_item.simps)
  ultimately show ?thesis
    by (cases "us = []") (simp_all add: CalcUncleHash_def EmptyUncleHash_def rlpHash_of_def rlpHash_def uncle_items_def
        del: rlp_spec.simps write_item.simps)
qed

text \<open>
  C12: The header binds the body. Two blocks with the same header that pass \<^verbatim>\<open>ValidateBody\<close> have the same
  encoded transactions and the same encoded uncles, if the hash has no collision among the nodes of the tries
  of the two transaction lists and no collision between the two encoded lists of uncles.
\<close>

theorem ValidateBody_binds:
  assumes "ValidateBody k t v b = Ok None" "ValidateBody k t' v' b' = Ok None" "bHeader b = bHeader b'" "body_ok b" "body_ok b'"
    "keccak k [0x80] = Trie.emptyRoot" "inj_on (keccak k) (insert [0x80] (written (keccak k) (body_map b) \<union> written (keccak k) (body_map b')))"
    "inj_on (keccak k) {rlp_spec (RList (uncle_items (bUncles b))), rlp_spec (RList (uncle_items (bUncles b')))}"
  shows "map (Transactions_EncodeIndex (bTransactions b)) [0..<length (bTransactions b)] =
      map (Transactions_EncodeIndex (bTransactions b')) [0..<length (bTransactions b')] \<and>
    map rlp_spec (uncle_items (bUncles b)) = map rlp_spec (uncle_items (bUncles b'))"
proof -
  have roots: "list_root (keccak k) (length (bTransactions b)) (Transactions_EncodeIndex (bTransactions b)) = Ok (TxHash (bHeader b)) \<and>
      CalcUncleHash k (bUncles b) = UncleHash (bHeader b)" if "ValidateBody k t v b = Ok None" for t v b
    using that by (auto simp: ValidateBody_def Let_def split: if_splits)
  note r = roots [OF assms(1)] roots [OF assms(2)]
  have "length (bTransactions b) = length (bTransactions b') \<and>
    (\<forall>i < length (bTransactions b). Transactions_EncodeIndex (bTransactions b) i = Transactions_EncodeIndex (bTransactions b') i)"
    using assms(3-5) r by (intro list_root_inj [OF _ _ _ _ _ assms(6) assms(7) [unfolded body_map_def]]) (simp_all add: body_ok_def)
  moreover have "rlp_spec (RList (uncle_items (bUncles b))) = rlp_spec (RList (uncle_items (bUncles b')))"
  proof (rule inj_onD [OF assms(8)])
    show "keccak k (rlp_spec (RList (uncle_items (bUncles b)))) = keccak k (rlp_spec (RList (uncle_items (bUncles b'))))"
      using CalcUncleHash_encoded [of "bUncles b" k] CalcUncleHash_encoded [of "bUncles b'" k] r assms(3-5)
      by (simp add: body_ok_def del: rlp_spec.simps)
  qed simp_all
  then have "map rlp_spec (uncle_items (bUncles b)) = map rlp_spec (uncle_items (bUncles b'))"
    using assms(4) by (intro rlp_list_eq) (simp_all add: body_ok_def)
  ultimately show ?thesis by simp
qed

text \<open>The stack trie as the hasher that \<^verbatim>\<open>NewBlock\<close> is given.\<close>

definition stack_hasher :: "(bytes \<Rightarrow> hash) \<Rightarrow> (bytes \<times> bytes) list \<Rightarrow> hash" where
  "stack_hasher K kvs =
     (case hash_updates StackTrie_Reset (StackTrie_Update K) (StackTrie_Hash K) NewStackTrie kvs of Ok h \<Rightarrow> h | _ \<Rightarrow> 0)"

lemma stack_hasher_root:
  assumes "n < 2 ^ 64" "\<forall>i < n. value_ok (enc i)"
  shows "list_root K n enc = Ok (DeriveSha (stack_hasher K) n enc)"
  using list_root_commits [OF assms, of K] by (auto simp: list_root_def DeriveSha_def stack_hasher_def)

lemma list_root_empty: "list_root K 0 enc = Ok EmptyRootHash"
  by (simp add: list_root_def DeriveSha_def derive_order_def hash_updates_def StackTrie_Reset_def StackTrie_Hash_def
      Trie.emptyRoot_def EmptyRootHash_def)

definition receipts_ok :: "Receipt list \<Rightarrow> bool" where
  "receipts_ok rs \<longleftrightarrow> length rs < 2 ^ 64 \<and> (\<forall>i < length rs. value_ok (receipts_index rs i))"

lemma NewBlock_roots:
  fixes k header txs uncles receipts
  defines "b \<equiv> NewBlock k (stack_hasher (keccak k)) header txs uncles receipts"
  assumes "length txs < 2 ^ 64" "\<forall>i < length txs. value_ok (Transactions_EncodeIndex txs i)" "receipts_ok receipts"
  shows "list_root (keccak k) (length txs) (Transactions_EncodeIndex txs) = Ok (TxHash (bHeader b))"
    "list_root (keccak k) (length receipts) (receipts_index receipts) = Ok (ReceiptHash (bHeader b))"
    "CalcUncleHash k uncles = UncleHash (bHeader b)"
    "receipts = [] \<Longrightarrow> hBloom header = empty_bloom \<Longrightarrow> CreateBloom (keccak k) receipts = hBloom (bHeader b)"
    "receipts \<noteq> [] \<Longrightarrow> CreateBloom (keccak k) receipts = hBloom (bHeader b)"
    "bTransactions b = txs" "bUncles b = uncles" "ParentHash (bHeader b) = ParentHash header" "hNumber (bHeader b) = hNumber header"
    "hGasUsed (bHeader b) = hGasUsed header" "Root (bHeader b) = Root header"
  unfolding b_def using assms(2-4) stack_hasher_root [of "length txs" "Transactions_EncodeIndex txs" "keccak k"]
    stack_hasher_root [of "length receipts" "receipts_index receipts" "keccak k"] list_root_empty
  by (auto simp: NewBlock_def Let_def CalcUncleHash_def CreateBloom_def receipts_ok_def)

text \<open>What is left to check of such a block, of its body and of its state.\<close>

definition body_verdict :: "BlockValidator \<Rightarrow> Header \<Rightarrow> u64 \<Rightarrow> ethash_error option \<Rightarrow> block_error option" where
  "body_verdict v header number err =
     (if err \<noteq> None then map_option UncleError err
      else if HasBlockAndState (bv_bc v) (ParentHash header) (number - 1) then None
      else if HasBlock (bv_bc v) (ParentHash header) (number - 1) then Some ErrPrunedAncestor
      else Some UnknownAncestor)"

lemma NewBlock_body:
  assumes "length txs < 2 ^ 64" "\<forall>i < length txs. value_ok (Transactions_EncodeIndex txs i)" "receipts_ok receipts"
    "b = NewBlock k (stack_hasher (keccak k)) header txs uncles receipts"
  shows "ValidateBody k t v b =
      (if HasBlockAndState (bv_bc v) (Block_Hash k b) (NumberU64 b) then Ok (Some ErrKnownBlock)
       else rbind (VerifyUncles k (bv_engine v) (bc_chain (bv_bc v)) t b) (\<lambda>err. Ok (body_verdict v header (NumberU64 b) err)))"
  using NewBlock_roots(1,3,6-8) [OF assms(1-3), where k = k and header = header and uncles = uncles, folded assms(4)]
  by (cases "VerifyUncles k (bv_engine v) (bc_chain (bv_bc v)) t b") (simp_all add: ValidateBody_def body_verdict_def)

text \<open>
  C13: What a miner assembles passes the checks of the others. Of a block made by \<^verbatim>\<open>NewBlock\<close> with a stack trie the
  validator finds the uncle root, the transaction root, the gas used, the bloom filter and the receipt root right.
  So its body is refused only when the block is known, for its uncles or for a parent that is missing. The root of
  the state is not part of this: the validator computes it with the given function and refuses the state exactly
  when that root is not the one of the header.
\<close>

theorem NewBlock_validates:
  assumes "length txs < 2 ^ 64" "\<forall>i < length txs. value_ok (Transactions_EncodeIndex txs i)" "receipts_ok receipts"
    "receipts = [] \<longrightarrow> hBloom header = empty_bloom"
    "b = NewBlock k (stack_hasher (keccak k)) header txs uncles receipts"
  shows "ValidateBody k t v b =
      (if HasBlockAndState (bv_bc v) (Block_Hash k b) (NumberU64 b) then Ok (Some ErrKnownBlock)
       else rbind (VerifyUncles k (bv_engine v) (bc_chain (bv_bc v)) t b) (\<lambda>err. Ok (body_verdict v header (NumberU64 b) err))) \<and>
    ValidateState k iroot v b s receipts (hGasUsed header) =
      (let (root, s) = iroot (IsEIP158 (bv_config v) (hNumber header)) s
       in Ok (if Root header \<noteq> root then Some (InvalidMerkleRoot (Root header) root) else None, s))"
proof -
  note r = NewBlock_roots [OF assms(1-3), where k = k and header = header and uncles = uncles, folded assms(5)]
  have "CreateBloom (keccak k) receipts = hBloom (bHeader b)" using r(4,5) assms(4) by blast
  then have "ValidateState k iroot v b s receipts (hGasUsed header) =
      (let (root, s) = iroot (IsEIP158 (bv_config v) (hNumber header)) s
       in Ok (if Root header \<noteq> root then Some (InvalidMerkleRoot (Root header) root) else None, s))"
    using r(2,9-11) by (simp add: ValidateState_def Let_def split: prod.split)
  then show ?thesis using NewBlock_body [OF assms(1-3,5)] by blast
qed

section \<open>An example\<close>

text \<open>A block with a transfer on top of a block whose state is there.\<close>

definition sample_transfer :: "int TxData" where
  "sample_transfer = Legacy \<lparr>lNonce = 0, lGasPrice = 10, lGas = 21000, lTo = Some 4, lValue = 1, lData = [], lV = 38, lR = 5, lS = 6\<rparr>"

definition toy_crypto :: sigCrypto where
  "toy_crypto = \<lparr>keccak = node_hash, Ecrecover = (\<lambda>_ _. Inl [])\<rparr>"

definition sample_validator :: BlockValidator where
  "sample_validator = NewBlockValidator sample_config
     \<lparr>bc_chain = sample_chain\<lparr>GetBlock := (\<lambda>_ n. if n = 8 then Some (NewBlockWithHeader sample_header) else None)\<rparr>,
      blockCache = (\<lambda>_. False), HasHeader = (\<lambda>_ _. False), HasBody = (\<lambda>_ _. False), HasState = (\<lambda>_. True)\<rparr>
     \<lparr>PowMode = ModeFullFake, fakeFail = 0, hashimoto = (\<lambda>_ _ _. ([], []))\<rparr>"

lemma sample_transfer_ok: "i < length [sample_transfer] \<Longrightarrow> value_ok (Transactions_EncodeIndex [sample_transfer] i)"
proof -
  have "Transactions_EncodeIndex [sample_transfer] 0 \<noteq> [] \<and> length (Transactions_EncodeIndex [sample_transfer] 0) < 100"
    by code_simp
  then show "i < length [sample_transfer] \<Longrightarrow> ?thesis" by (simp add: value_ok_def)
qed

lemma sample_block:
  fixes h
  defines "b \<equiv> NewBlock toy_crypto (stack_hasher node_hash) sample_header [sample_transfer] [] []"
  shows "keccak toy_crypto = node_hash" "NumberU64 b = 9" "\<not> HasBlockAndState (bv_bc sample_validator) h 9"
    "body_verdict sample_validator sample_header 9 None = None"
    "VerifyUncles toy_crypto (bv_engine sample_validator) (bc_chain (bv_bc sample_validator)) 0 b = Ok None"
    "hBloom sample_header = empty_bloom" "Root sample_header = 0" "hGasUsed sample_header = 20000"
  unfolding b_def
  by (simp_all add: toy_crypto_def NumberU64_def NewBlock_def sample_header_def Let_def big_Uint64_def body_verdict_def
      HasBlockAndState_def sample_validator_def NewBlockValidator_def VerifyUncles_def)

lemma sample_block_accepted:
  "ValidateBody toy_crypto 0 sample_validator (NewBlock toy_crypto (stack_hasher node_hash) sample_header [sample_transfer] [] []) = Ok None"
  using NewBlock_body [of "[sample_transfer]" "[]" _ toy_crypto sample_header "[]", OF _ _ _ refl, of 0 sample_validator]
    sample_transfer_ok sample_block by (simp add: receipts_ok_def)

lemma NewBlock_validates_witness:
  "ValidateBody toy_crypto 0 sample_validator (NewBlock toy_crypto (stack_hasher node_hash) sample_header [sample_transfer] [] []) = Ok None \<and>
    (\<forall>s. ValidateState toy_crypto (\<lambda>_ s. (0, s)) sample_validator
      (NewBlock toy_crypto (stack_hasher node_hash) sample_header [sample_transfer] [] []) s [] 20000 = Ok (None, s))"
  using NewBlock_validates [of "[sample_transfer]" "[]" sample_header _ toy_crypto "[]", OF _ _ _ _ refl, of 0 sample_validator "\<lambda>_ s. (0, s)"]
    sample_transfer_ok sample_block by (simp add: receipts_ok_def)

text \<open>The same block as another node sees it, at another time.\<close>

lemma ValidateBody_binds_witness:
  "let b = NewBlock toy_crypto (stack_hasher node_hash) sample_header [sample_transfer] [] [] in
   ValidateBody toy_crypto 0 sample_validator b = Ok None \<and> body_ok b \<and>
   map (Transactions_EncodeIndex (bTransactions b)) [0..<length (bTransactions b)] =
     map (Transactions_EncodeIndex (bTransactions b)) [0..<length (bTransactions b)] \<and>
   map rlp_spec (uncle_items (bUncles b)) = map rlp_spec (uncle_items (bUncles b))"
proof -
  let ?b = "NewBlock toy_crypto (stack_hasher node_hash) sample_header [sample_transfer] [] []"
  have k: "keccak toy_crypto = node_hash" by (simp add: toy_crypto_def)
  have b: "bTransactions ?b = [sample_transfer]" "bUncles ?b = []" by (simp_all add: NewBlock_def Let_def)
  have ok: "body_ok ?b" using sample_transfer_ok b by (simp add: body_ok_def uncle_items_def puthead_def)
  have m: "body_map ?b = [[0x80] \<mapsto> Transactions_EncodeIndex [sample_transfer] 0]"
    using b by (simp add: body_map_def list_map_def derive_key_cases)
  show ?thesis
    using ValidateBody_binds [OF sample_block_accepted sample_block_accepted refl ok ok] node_hash sample_transfer_ok [of 0] sample_block_accepted ok unfolding k m by simp
qed

end
