(* ===== verification/Spec2Isabelle.thy ===== *)
theory Spec2Isabelle
  imports Params Rlp CodeAnalysis Opcodes Machine Revert Evm GasBounds Tables Calls Guarantees StackBounds Accounts Arithmetic Signing MessageGas Transfers Receipts BlockGas BlockHashes HeaderBatch MerkleTrie RootBinding BlockValidator
begin

text \<open>
  A verification development for go-ethereum with a trace logger (src/go-ethereum). It models the part of
  the node that decides what the chain is: the virtual machine and the state it works on, applying
  messages and blocks, transactions and their senders, headers and their rules, and the tries that commit
  to state, transactions and receipts.

  \<^bold>\<open>How the parts interact.\<close> A block is processed by \<open>Process\<close> (theory Processor), which hands every
  transaction as a message to \<open>ApplyMessage\<close> (StateTransition). That buys gas from the sender, calls the
  virtual machine (\<open>EVM_Call\<close>, \<open>EVM_Create\<close> in Evm), refunds and pays the fee. The machine runs the code of
  a contract (\<open>Run\<close>, \<open>run_loop\<close>, \<open>step\<close>) over the instruction set of the block's fork (JumpTable), whose
  operations are the instructions (Instructions, Evm) with their gas functions (GasTable) and memory sizes
  (Machine). Instructions read and change the state database (State), whose journal undoes failed calls, and
  write the trace (Logger). The consensus engine (Ethash, HeaderBatch) checks the headers before that, with the
  rules of HeaderRules and Difficulty and the fork schedule of Params. The roots in the headers are the hashes
  of tries (Trie) and the hashes of encoded values (Rlp).

  \<^bold>\<open>Which theory models what.\<close>
  \<^item> Prelude: Go types (bytes, addresses, hashes, \<open>uint64\<close>), results that may panic or run out of fuel (\<open>res\<close>),
    slices and indexing.
  \<^item> Format: package fmt and encoding/hex as far as the trace needs them.
  \<^item> Params: params/protocol_params.go, params/config.go. Fork schedule, \<open>Rules\<close>, the check of the fork order and
    \<open>CheckCompatible\<close>.
  \<^item> Rlp: rlp/encode.go, encbuffer.go, raw.go. The encoder buffer with its separate list headers, and the readers of
    raw values.
  \<^item> AccessList, State: core/state/access_list.go, statedb.go, state_object.go, journal.go. The state database is the
    record \<open>StateDB\<close>, a journal entry a \<open>journalEntry\<close>, and \<open>revert_entry\<close> its \<open>revert\<close>.
  \<^item> StateView, Revert, Effects, Accounts: what the getters observe (\<open>eqv\<close>), the journal as a locale, that every
    operation leaves entries which undo it (\<open>evolves\<close>), what a read-only run may do, and what the setters write.
  \<^item> Machine, CodeAnalysis, Opcodes: core/vm/memory.go, stack.go, common.go, memory_table.go, stack_table.go, gas.go,
    errors.go; analysis.go, contract.go; opcodes.go.
  \<^item> Precompiles: core/vm/contracts.go.
  \<^item> Logger: mgologger/DBLogger.go, the trace of this fork.
  \<^item> EvmTypes, Instructions, GasTable, JumpTable, Evm: core/vm/evm.go, interpreter.go, instructions.go, eips.go,
    gas_table.go, operations_acl.go, jump_table.go, and the transfer functions of core/evm.go. A running contract is
    the record \<open>Frame\<close>.
  \<^item> GasBounds, Tables, Frames, Calls, Guarantees, StackBounds, Arithmetic: the lemmas about the machine.
  \<^item> Transactions, Signing: core/types/transaction.go, the three kinds of transaction data, transaction_signing.go.
  \<^item> Receipts: core/types/bloom9.go, receipt.go, log.go.
  \<^item> Headers: core/types/block.go, gen_header_rlp.go, hashing.go.
  \<^item> StateTransition, MessageGas, Transfers: core/state_transition.go, gaspool.go, error.go.
  \<^item> Processor, BlockGas, BlockHashes: core/state_processor.go, state_prefetcher.go, core/evm.go,
    consensus/misc/dao.go.
  \<^item> HeaderRules, Difficulty, Ethash, HeaderBatch: consensus/misc, consensus/ethash/consensus.go, difficulty.go,
    ethash.go. The workers and the coordinator of \<open>VerifyHeaders\<close> are the step relation \<open>batch_step\<close>.
  \<^item> TrieKeys, Trie: trie/encoding.go, node.go, node_enc.go, hasher.go, trie_reader.go, trie_id.go, trie.go.
  \<^item> TrieSpec, TrieStore, TrieRefine, TrieContents, MerkleTrie: the trie of the protocol, what a node in memory with
    parts in the database stands for, and that the code refines it.
  \<^item> TrieCommit, TrieReload: trie/committer.go, nodeset.go, the raw nodes of database.go, and what can be loaded from a
    database that took the nodes of a commit.
  \<^item> StackTrie, StackRefine: trie/stacktrie.go without a database behind it, and that it refines the trie.
  \<^item> ListRoots, RootBinding: the interface \<open>TrieHasher\<close> of core/types/hashing.go as the locale \<open>trie_hasher\<close>,
    interpreted on the trie and on the stack trie; what root hashes bind.
  \<^item> BlockValidator: core/block_validator.go, with the readers of core/blockchain_reader.go it uses.

  \<^bold>\<open>What the lemmas show.\<close>
  \<^item> State: reverting to a snapshot restores the answer of every getter (Revert). The locale \<open>journal\<close> states what
    the undoing of entries needs; it is interpreted on the entries of journal.go.
  \<^item> Machine: runs end within a fuel given by the gas, gain no gas, keep the configuration of the machine, leave
    every answer of the state as it was when they fail, and write to no existing account when they may only read. This is proved once in the locale
    \<open>interpreter\<close>, whose \<open>assumes\<close> is what calling instructions rely on; its interpretation on \<open>Run n\<close> discharges
    them by induction on \<open>n\<close>. The stack stays between 0 and 1024 words and the memory a whole number of words.
  \<^item> Instructions: 64-bit gas arithmetic never wraps unnoticed; the bitmap of the code analysis marks exactly push
    data; the fees of memory and calls are their formulas.
  \<^item> Messages and blocks: the gas bought is used or returned, messages refused before they bought gas leave the state
    alone, a plain transfer costs its intrinsic gas and moves exactly value and fees (Transfers), receipts carry the
    gas used up to them and survive the database but for the status beside a state root, and blooms have no false
    negatives.
  \<^item> Headers: accepted batches are chains, the base fee falls by at most an eighth and rises by one or an eighth (slightly
    more after a full parent with an odd gas limit), the two difficulty calculators
    agree in the stated bounds, and results arrive in order under every interleaving.
  \<^item> Encodings: the encoder buffer computes the recursive encoding, the reader inverts it and never panics.
  \<^item> Signers: the sender of a signed transaction is the signer, and no other chain accepts it.
  \<^item> Tries: lookup, update and deletion are those of a map, whatever part of the trie is loaded, decoding inverts
    encoding, canonical tries with the same contents are the same, so the root hash is a function of the contents.
    What a commit collects can be loaded again. The stack trie computes the same root when its keys come in order,
    and \<open>DeriveSha\<close> hands them over in order, so both hashers compute the root of a list.
  \<^item> Roots: without a collision among the nodes, equal roots mean equal maps, so a header binds the transactions and
    uncles of every body that is accepted for it; and of what \<open>NewBlock\<close> assembles the roots of uncles, transactions
    and receipts, the gas used and the filter are found right.

  \<^bold>\<open>Conventions, bounds and fuel.\<close>
  A Go panic is the value \<open>Panic\<close>, an exhausted fuel \<open>NoFuel\<close>; errors are values of a sum. Integers of 8, 64 and 256
  bits are words; \<open>big.Int\<close> is \<open>int\<close>; a \<open>uint256.Int\<close> is a 256-bit word with the arithmetic of that package.
  \<open>len\<close> and slice positions are natural numbers, since a slice has less than $2^{63}$ bytes.

  \<^item> \<open>Run\<close>: the fuel bounds the depth of calls and the number of steps. Every step costs at least one unit of gas
    except those that end the run, so the gas of the call plus two is enough (\<open>Run_terminates\<close>).
  \<^item> \<open>GetHashFn\<close>: the number of the block, since every step goes to the parent (\<open>hash_walk\<close>).
  \<^item> Trie operations: twice the length of the key plus three (\<open>trie_fuel\<close>), since a step consumes a nibble or resolves a
    node, and a resolved node is not one to be resolved. Enough by \<open>trie_operations\<close>.
  \<^item> Decoding a node: the length of its encoding plus one, since an embedded node is shorter than its parent.
  \<^item> Keys of tries are shorter than two gigabytes and values than four, so that encodings have 64-bit lengths.

  \<^bold>\<open>Parameters.\<close>
  Arguments of the definitions stand for code outside the model: the hash functions, recovering a public key, the
  cryptographic precompiled contracts, the trie and snapshot readers of the state database and its root after a
  transaction, the author and finalisation of blocks by an engine, the chain and its headers, the result of the
  proof of work, and the database behind the trie. Theorems that rely on one name it as a hypothesis (that the
  recovery inverts signing, that a database holds what was stored, that the hash has no collision among the nodes at
  hand).

  \<^bold>\<open>Not modelled.\<close>
  \<^item> Databases, files and the network: core/blockchain.go, core/rawdb, ethdb, core/state/snapshot, the pruner, p2p,
    eth, les, light: their behaviour is that of goroutines, disks and peers.
  \<^item> The transaction pool and the miner, driven by timers and channels.
  \<^item> RPC, GraphQL, commands, metrics, key stores, contract bindings and tracers: glue around the core.
  \<^item> Cryptography (crypto, the hash of the proof of work): parameters.
  \<^item> Reflection over Go types in package rlp: the values the program encodes are given as \<open>item\<close>s.
  \<^item> The debugging tracer callbacks of the machine, which are off unless a tracer is set.
  \<^item> Aliasing: the instruction sets share their operations through pointers, so that enabling an extra EIP writes
    into the table of every other machine; tables are values here.
  \<^item> The trie's node database with its reference counts, iterators, proofs and synchronisation.
\<close>

end
